(* ===== verification/Prelude.thy ===== *)
theory Prelude
  imports Main "HOL-Library.AList" "HOL-Library.Multiset"
    "HOL-Library.List_Lexorder" "HOL-Library.Char_ord"
begin

text \<open>
  The vocabulary the component theories share: machine-integer operations with their
  wrap-around or saturation written out, the standard-library containers the sources use
  (\<open>BTreeMap\<close> as a key-sorted association list, \<open>HashMap\<close> and \<open>HashSet\<close> as
  association lists and lists without repeated keys, in an order no theorem relies on), the
  iterator adaptors \<open>position\<close> and \<open>min_by\<close>, and string splitting.

  A Rust \<open>String\<close> is its UTF-8 byte sequence, here a \<^typ>\<open>string\<close>; the order of strings is
  the byte-lexicographic order of \<open>List_Lexorder\<close> and \<open>Char_ord\<close>, as in Rust.
  Unsigned integers are \<^typ>\<open>nat\<close>; the operators below give the release-build
  semantics of \<open>+=\<close> (wrap at the width) and the saturating methods. A \<open>usize\<close> has
  64 bits. \<open>saturating_sub\<close> is subtraction on \<^typ>\<open>nat\<close>.
\<close>

named_theorems wrap_simps \<open>the wrap-around and saturation operators\<close>
named_theorems kv_simps \<open>lookups after updates of the container models\<close>

section \<open>Machine integers\<close>

definition u32_max :: nat where
  "u32_max = 4294967295"

definition u64_max :: nat where
  "u64_max = 18446744073709551615"

definition add_u32 :: "nat \<Rightarrow> nat \<Rightarrow> nat" where
  "add_u32 a b = (a + b) mod Suc u32_max"

definition add_u64 :: "nat \<Rightarrow> nat \<Rightarrow> nat" where
  "add_u64 a b = (a + b) mod Suc u64_max"

definition sat_add_u32 :: "nat \<Rightarrow> nat \<Rightarrow> nat" where
  "sat_add_u32 a b = min (a + b) u32_max"

section \<open>Key-sorted association lists: the model of BTreeMap\<close>

type_synonym ('k, 'v) btree = "('k \<times> 'v) list"

definition bt_ok :: "('k::linorder, 'v) btree \<Rightarrow> bool" where
  "bt_ok m = sorted_wrt (<) (map fst m)"

fun bt_insert :: "'k::linorder \<Rightarrow> 'v \<Rightarrow> ('k, 'v) btree \<Rightarrow> ('k, 'v) btree" where
  "bt_insert k v [] = [(k, v)]"
| "bt_insert k v (p # m) =
     (if fst p < k then p # bt_insert k v m
      else if fst p = k then (k, v) # m
      else (k, v) # p # m)"

definition bt_remove :: "'k \<Rightarrow> ('k, 'v) btree \<Rightarrow> ('k, 'v) btree" where
  "bt_remove k m = filter (\<lambda>p. fst p \<noteq> k) m"

definition bt_collect :: "('k::linorder \<times> 'v) list \<Rightarrow> ('k, 'v) btree" where
  "bt_collect ps = fold (\<lambda>(k, v) m. bt_insert k v m) ps []"

section \<open>HashSet operations on lists without repetition\<close>

definition hs_insert :: "'a \<Rightarrow> 'a list \<Rightarrow> 'a list" where
  "hs_insert x xs = (if x \<in> set xs then xs else xs @ [x])"

definition hs_remove :: "'a \<Rightarrow> 'a list \<Rightarrow> 'a list" where
  "hs_remove x xs = filter (\<lambda>y. y \<noteq> x) xs"

section \<open>Iterator adaptors\<close>

fun position :: "('a \<Rightarrow> bool) \<Rightarrow> 'a list \<Rightarrow> nat option" where
  "position P [] = None"
| "position P (x # xs) = (if P x then Some 0 else map_option Suc (position P xs))"

definition remove_at :: "nat \<Rightarrow> 'a list \<Rightarrow> 'a list" where
  "remove_at i xs = take i xs @ drop (Suc i) xs"

text \<open>
  \<open>Iterator::min_by\<close>: \<open>gt x y\<close> is "the comparison of \<open>x\<close> with \<open>y\<close> is \<open>Greater\<close>"; the
  accumulator is replaced only then, so the first of several minimal elements is returned.
\<close>

fun min_by_from :: "('a \<Rightarrow> 'a \<Rightarrow> bool) \<Rightarrow> 'a \<Rightarrow> 'a list \<Rightarrow> 'a" where
  "min_by_from gt x [] = x"
| "min_by_from gt x (y # ys) = min_by_from gt (if gt x y then y else x) ys"

fun min_by :: "('a \<Rightarrow> 'a \<Rightarrow> bool) \<Rightarrow> 'a list \<Rightarrow> 'a option" where
  "min_by gt [] = None"
| "min_by gt (x # xs) = Some (min_by_from gt x xs)"

text \<open>A queue bounded from the front: what is kept of \<open>xs\<close> is its last \<open>n\<close> elements.\<close>

definition last_n :: "nat \<Rightarrow> 'a list \<Rightarrow> 'a list" where
  "last_n n xs = drop (length xs - n) xs"

text \<open>The iteration order of a hash map yields every entry once.\<close>

definition hash_order :: "('a list \<Rightarrow> 'a list) \<Rightarrow> bool" where
  "hash_order it \<longleftrightarrow> (\<forall>xs. mset (it xs) = mset xs)"

section \<open>String splitting\<close>

text \<open>\<open>str::split(c)\<close> on a single byte.\<close>

fun split_on :: "'a \<Rightarrow> 'a list \<Rightarrow> 'a list list" where
  "split_on c [] = [[]]"
| "split_on c (x # xs) =
     (if x = c then [] # split_on c xs
      else (case split_on c xs of [] \<Rightarrow> [[x]] | w # ws \<Rightarrow> (x # w) # ws))"

text \<open>\<open>str::split_once(sep)\<close>: the parts before and after the first occurrence.\<close>

fun split_once :: "'a list \<Rightarrow> 'a list \<Rightarrow> ('a list \<times> 'a list) option" where
  "split_once sep [] = (if sep = [] then Some ([], []) else None)"
| "split_once sep (x # xs) =
     (if take (length sep) (x # xs) = sep then Some ([], drop (length sep) (x # xs))
      else map_option (\<lambda>(a, b). (x # a, b)) (split_once sep xs))"

definition rsplit_once :: "'a list \<Rightarrow> 'a list \<Rightarrow> ('a list \<times> 'a list) option" where
  "rsplit_once sep xs =
     map_option (\<lambda>(a, b). (rev b, rev a)) (split_once (rev sep) (rev xs))"

text \<open>\<open>[String]::join(sep)\<close>.\<close>

fun join :: "'a list \<Rightarrow> 'a list list \<Rightarrow> 'a list" where
  "join sep [] = []"
| "join sep [w] = w"
| "join sep (w # ws) = w @ sep @ join sep ws"

text \<open>
  The number of bytes of the Unicode whitespace character a string starts with, 0 when it
  starts with none: U+0009 to U+000D and U+0020 in one byte; U+0085 and U+00A0 in two;
  U+1680, U+2000 to U+200A, U+2028, U+2029, U+202F, U+205F and U+3000 in three.
\<close>

definition whitespace_len :: "string \<Rightarrow> nat" where
  "whitespace_len s =
     (case map of_char (take 3 s) :: nat list of
        [] \<Rightarrow> 0
      | a # as \<Rightarrow>
          if (9 \<le> a \<and> a \<le> 13) \<or> a = 32 then 1
          else (case as of
                  [] \<Rightarrow> 0
                | b # bs \<Rightarrow>
                    if a = 194 \<and> (b = 133 \<or> b = 160) then 2
                    else (case bs of
                            [] \<Rightarrow> 0
                          | c # _ \<Rightarrow>
                              if (a = 225 \<and> b = 154 \<and> c = 128)
                                \<or> (a = 226 \<and> b = 128 \<and> 128 \<le> c \<and> c \<le> 138)
                                \<or> (a = 226 \<and> b = 128 \<and> (c = 168 \<or> c = 169 \<or> c = 175))
                                \<or> (a = 226 \<and> b = 129 \<and> c = 159)
                                \<or> (a = 227 \<and> b = 128 \<and> c = 128)
                              then 3 else 0)))"

text \<open>\<open>split_whitespace().count()\<close>; \<open>inw\<close> says whether the byte before belongs to a word.\<close>

function count_words :: "bool \<Rightarrow> string \<Rightarrow> nat" where
  "count_words inw s =
     (if s = [] then 0
      else if 0 < whitespace_len s then count_words False (drop (whitespace_len s) s)
      else (if inw then 0 else 1) + count_words True (tl s))"
  by pat_completeness auto
termination
  by (relation "measure (\<lambda>(inw, s). length s)") auto

declare count_words.simps [simp del]

definition split_whitespace_count :: "string \<Rightarrow> nat" where
  "split_whitespace_count s = count_words False s"

section \<open>Lemmas\<close>

lemmas [wrap_simps] = add_u32_def add_u64_def sat_add_u32_def u32_max_def u64_max_def

lemma add_u64_exact: "a + b \<le> u64_max \<Longrightarrow> add_u64 a b = a + b"
  by (simp add: add_u64_def)

lemma add_u64_le [simp]: "add_u64 a b \<le> u64_max"
  by (metis add_u64_def less_Suc_eq_le mod_less_divisor zero_less_Suc)

lemma sat_add_u32_le [simp]: "sat_add_u32 a b \<le> u32_max"
  by (simp add: sat_add_u32_def)

lemma add_u64_0 [simp]: "a \<le> u64_max \<Longrightarrow> add_u64 a 0 = a"
  by (simp add: add_u64_exact)

text \<open>Accumulating with wrap-around is one wrapped sum.\<close>

lemma fold_add_u64:
  "fold (\<lambda>x acc. add_u64 acc (f x)) xs (a mod Suc u64_max)
     = (a + sum_list (map f xs)) mod Suc u64_max"
proof (induction xs arbitrary: a)
  case Nil
  then show ?case by simp
next
  case (Cons x xs)
  have "add_u64 (a mod Suc u64_max) (f x) = (a + f x) mod Suc u64_max"
    by (simp add: add_u64_def mod_add_left_eq)
  with Cons.IH [of "a + f x"] show ?case by (simp add: add.assoc)
qed

subsection \<open>BTreeMap\<close>

lemma bt_ok_Nil [simp]: "bt_ok []"
  by (simp add: bt_ok_def)

lemma bt_ok_Cons: "bt_ok (p # m) \<longleftrightarrow> (\<forall>q \<in> set m. fst p < fst q) \<and> bt_ok m"
  by (auto simp: bt_ok_def)

lemma bt_ok_distinct: "bt_ok m \<Longrightarrow> distinct (map fst m)"
  by (induction m) (auto simp: bt_ok_Cons)

lemma fst_set_bt_insert: "fst ` set (bt_insert k v m) = insert k (fst ` set m)"
  by (induction m) auto

lemma map_of_bt_insert [kv_simps]: "map_of (bt_insert k v m) = (map_of m)(k \<mapsto> v)"
  by (induction m) (auto simp: fun_eq_iff)

lemma bt_ok_insert: "bt_ok m \<Longrightarrow> bt_ok (bt_insert k v m)"
proof (induction m)
  case Nil
  then show ?case by (simp add: bt_ok_Cons)
next
  case (Cons p m)
  have "\<forall>q \<in> set (bt_insert k v m). fst q \<in> insert k (fst ` set m)"
    using fst_set_bt_insert [of k v m] by blast
  then have "\<forall>q \<in> set (bt_insert k v m). fst p < fst q" if "fst p < k" "bt_ok (p # m)"
    using that by (fastforce simp: bt_ok_Cons)
  with Cons show ?case by (auto simp: bt_ok_Cons)
qed

lemma map_of_bt_remove [kv_simps]: "map_of (bt_remove k m) = (map_of m)(k := None)"
  by (induction m) (auto simp: bt_remove_def fun_eq_iff)

lemma bt_ok_remove: "bt_ok m \<Longrightarrow> bt_ok (bt_remove k m)"
  by (induction m) (auto simp: bt_remove_def bt_ok_Cons)

lemma set_bt_remove: "set (bt_remove k m) = {p \<in> set m. fst p \<noteq> k}"
  by (auto simp: bt_remove_def)

lemma bt_remove_absent: "k \<notin> fst ` set m \<Longrightarrow> bt_remove k m = m"
  by (induction m) (auto simp: bt_remove_def)

lemma bt_insert_present_length:
  "bt_ok m \<Longrightarrow> k \<in> fst ` set m \<Longrightarrow> length (bt_insert k v m) = length m"
  by (induction m) (auto simp: bt_ok_Cons)

lemma bt_insert_absent_length:
  "k \<notin> fst ` set m \<Longrightarrow> length (bt_insert k v m) = Suc (length m)"
  by (induction m) auto

lemma bt_ok_collect: "bt_ok (bt_collect ps)"
proof -
  have "bt_ok m \<Longrightarrow> bt_ok (fold (\<lambda>(k, v) m. bt_insert k v m) ps m)" for m
    by (induction ps arbitrary: m) (auto simp: bt_ok_insert)
  then show ?thesis by (simp add: bt_collect_def)
qed

lemma map_of_bt_collect: "map_of (bt_collect ps) = map_of (rev ps)"
proof -
  have "map_of (fold (\<lambda>(k, v) m. bt_insert k v m) ps m) = map_of m ++ map_of (rev ps)" for m
    by (induction ps arbitrary: m) (auto simp: map_of_bt_insert map_add_def fun_eq_iff
        split: option.splits)
  then show ?thesis by (simp add: bt_collect_def)
qed

lemma bt_insert_max: "\<forall>p \<in> set m. fst p < k \<Longrightarrow> bt_insert k v m = m @ [(k, v)]"
  by (induction m) auto

lemma bt_collect_ok: "bt_ok m \<Longrightarrow> bt_collect m = m"
proof (induction m rule: rev_induct)
  case Nil
  then show ?case by (simp add: bt_collect_def)
next
  case (snoc p m)
  then have "bt_ok m" "\<forall>q \<in> set m. fst q < fst p"
    by (auto simp: bt_ok_def sorted_wrt_append)
  with snoc.IH show ?case by (cases p) (simp add: bt_collect_def bt_insert_max)
qed

lemma bt_ok_filter: "bt_ok m \<Longrightarrow> bt_ok (filter P m)"
  by (induction m) (auto simp: bt_ok_Cons)

lemma map_of_bt: "bt_ok m \<Longrightarrow> map_of m k = Some v \<longleftrightarrow> (k, v) \<in> set m"
  by (simp add: bt_ok_distinct)

lemma set_bt_insert_subset: "set (bt_insert k v m) \<subseteq> insert (k, v) (set m)"
  by (induction m) auto

lemma set_bt_insert: "bt_ok m \<Longrightarrow> set (bt_insert k v m) = insert (k, v) {p \<in> set m. fst p \<noteq> k}"
proof (induction m)
  case (Cons p m)
  then have "\<forall>q \<in> set m. fst p < fst q" "bt_ok m" by (auto simp: bt_ok_Cons)
  with Cons.IH show ?case by (cases p) auto
qed simp

text \<open>Values as a measure: what inserting and removing do to a sum over the values.\<close>

definition bt_sum :: "('v \<Rightarrow> nat) \<Rightarrow> ('k, 'v) btree \<Rightarrow> nat" where
  "bt_sum f m = sum_list (map (\<lambda>p. f (snd p)) m)"

lemma bt_sum_insert_absent:
  "k \<notin> fst ` set m \<Longrightarrow> bt_sum f (bt_insert k v m) = f v + bt_sum f m"
  by (induction m) (auto simp: bt_sum_def)

lemma bt_sum_insert_present:
  "bt_ok m \<Longrightarrow> map_of m k = Some w \<Longrightarrow> bt_sum f (bt_insert k v m) + f w = f v + bt_sum f m"
proof (induction m)
  case Nil
  then show ?case by simp
next
  case (Cons p m)
  have "fst p = k \<or> fst p < k"
    using Cons.prems by (cases "fst p = k") (force simp: bt_ok_Cons dest: map_of_SomeD)+
  with Cons show ?case by (cases p) (auto simp: bt_sum_def bt_ok_Cons)
qed

lemma bt_sum_remove:
  "bt_ok m \<Longrightarrow> map_of m k = Some w \<Longrightarrow> bt_sum f (bt_remove k m) + f w = bt_sum f m"
proof (induction m)
  case Nil
  then show ?case by simp
next
  case (Cons p m)
  show ?case
  proof (cases "fst p = k")
    case True
    with Cons.prems have "bt_remove k m = m"
      by (intro bt_remove_absent) (auto simp: bt_ok_Cons)
    with True Cons.prems show ?thesis
      by (auto simp: bt_sum_def bt_remove_def)
  next
    case False
    with Cons show ?thesis by (auto simp: bt_sum_def bt_remove_def bt_ok_Cons)
  qed
qed

subsection \<open>HashMap\<close>

lemma set_alist_update_subset: "set (AList.update k v al) \<subseteq> insert (k, v) (set al)"
  by (induction al) auto

subsection \<open>HashSet\<close>

lemma set_hs_insert [simp]: "set (hs_insert x xs) = insert x (set xs)"
  by (auto simp: hs_insert_def)

lemma distinct_hs_insert [simp]: "distinct xs \<Longrightarrow> distinct (hs_insert x xs)"
  by (auto simp: hs_insert_def)

lemma set_hs_remove [simp]: "set (hs_remove x xs) = set xs - {x}"
  by (auto simp: hs_remove_def)

lemma distinct_hs_remove [simp]: "distinct xs \<Longrightarrow> distinct (hs_remove x xs)"
  by (simp add: hs_remove_def)

lemma set_fold_hs_insert [simp]: "set (fold hs_insert ks xs) = set xs \<union> set ks"
  by (induction ks arbitrary: xs) auto

lemma distinct_fold_hs_insert [simp]: "distinct xs \<Longrightarrow> distinct (fold hs_insert ks xs)"
  by (induction ks arbitrary: xs) auto

lemma set_fold_hs_remove [simp]: "set (fold hs_remove ks xs) = set xs - set ks"
  by (induction ks arbitrary: xs) auto

subsection \<open>Iterator adaptors\<close>

lemma position_Some:
  "position P xs = Some i \<Longrightarrow> i < length xs \<and> P (xs ! i) \<and> (\<forall>j < i. \<not> P (xs ! j))"
proof (induction xs arbitrary: i)
  case Nil
  then show ?case by simp
next
  case (Cons x xs)
  then show ?case
    by (cases i) (auto split: if_splits simp: less_Suc_eq_0_disj)
qed

lemma position_None: "position P xs = None \<longleftrightarrow> (\<forall>x \<in> set xs. \<not> P x)"
  by (induction xs) auto

lemma remove_at_split:
  "i < length xs \<Longrightarrow> \<exists>ys zs. xs = ys @ xs ! i # zs \<and> remove_at i xs = ys @ zs \<and> length ys = i"
  by (rule exI [of _ "take i xs"], rule exI [of _ "drop (Suc i) xs"])
    (simp add: remove_at_def id_take_nth_drop [symmetric])

lemma mset_remove_at: "i < length xs \<Longrightarrow> mset (remove_at i xs) + {#xs ! i#} = mset xs"
  using remove_at_split [of i xs] by (metis add.commute add_mset_add_single mset.simps(2)
      mset_append union_mset_add_mset_right)

lemma length_remove_at: "i < length xs \<Longrightarrow> length (remove_at i xs) = length xs - 1"
  by (simp add: remove_at_def)

lemma sum_list_remove_at:
  fixes f :: "'a \<Rightarrow> nat"
  assumes "i < length xs"
  shows "sum_list (map f (remove_at i xs)) + f (xs ! i) = sum_list (map f xs)"
proof -
  have "sum_mset (image_mset f (mset (remove_at i xs) + {#xs ! i#}))
      = sum_mset (image_mset f (mset xs))"
    using mset_remove_at [OF assms] by simp
  then show ?thesis by (simp add: sum_mset_sum_list [symmetric])
qed

lemma set_remove_at_subset: "set (remove_at i xs) \<subseteq> set xs"
  by (auto simp: remove_at_def dest: in_set_takeD in_set_dropD)

lemma distinct_remove_at: "distinct (map f xs) \<Longrightarrow> distinct (map f (remove_at i xs))"
proof -
  assume d: "distinct (map f xs)"
  have "map f (remove_at i xs) = remove_at i (map f xs)"
    by (simp add: remove_at_def take_map drop_map)
  moreover have "distinct (remove_at i (map f xs))"
    using d set_take_disj_set_drop_if_distinct [OF d, of i "Suc i"]
    by (simp add: remove_at_def distinct_drop)
  ultimately show ?thesis by simp
qed

lemma min_by_from_mem: "min_by_from gt x xs \<in> insert x (set xs)"
  by (induction xs arbitrary: x) (auto split: if_splits)

lemma min_by_mem: "min_by gt xs = Some m \<Longrightarrow> m \<in> set xs"
  using min_by_from_mem [of gt] by (cases xs) force+

lemma min_by_None [simp]: "min_by gt xs = None \<longleftrightarrow> xs = []"
  by (cases xs) auto

lemma min_by_ex: "x \<in> set xs \<Longrightarrow> \<exists>m. min_by gt xs = Some m"
  by (cases xs) auto

text \<open>Over a linear key, \<open>min_by\<close> returns an element of least key.\<close>

lemma min_by_from_least:
  fixes f :: "'a \<Rightarrow> 'b::linorder"
  shows "y \<in> insert x (set xs) \<Longrightarrow> f (min_by_from (\<lambda>a b. f b < f a) x xs) \<le> f y"
proof (induction xs arbitrary: x y)
  case Nil
  then show ?case by simp
next
  case (Cons z zs)
  let ?w = "if f z < f x then z else x"
  have w: "f ?w \<le> f x" "f ?w \<le> f z" by auto
  have "f (min_by_from (\<lambda>a b. f b < f a) ?w zs) \<le> f ?w"
    by (rule Cons.IH) simp
  moreover have "f (min_by_from (\<lambda>a b. f b < f a) ?w zs) \<le> f y" if "y \<in> set zs"
    by (rule Cons.IH) (simp add: that)
  ultimately show ?case using w Cons.prems by (auto intro: order_trans)
qed

lemma min_by_least:
  fixes f :: "'a \<Rightarrow> 'b::linorder"
  assumes "min_by (\<lambda>a b. f b < f a) xs = Some m" and "y \<in> set xs"
  shows "f m \<le> f y"
  using assms min_by_from_least [of y _ _ f] by (cases xs) auto

text \<open>It is the first such element: every element before it has a larger key.\<close>

lemma min_by_from_first:
  fixes f :: "'a \<Rightarrow> 'b::linorder"
  shows "min_by_from (\<lambda>a b. f b < f a) x xs = x \<or>
    (\<exists>ys m zs. min_by_from (\<lambda>a b. f b < f a) x xs = m \<and> xs = ys @ m # zs \<and> f m < f x
      \<and> (\<forall>y \<in> set ys. f m < f y))"
proof (induction xs arbitrary: x)
  case Nil
  then show ?case by simp
next
  case (Cons z zs)
  let ?w = "if f z < f x then z else x"
  from Cons [of ?w] show ?case
  proof (elim disjE exE conjE)
    assume w: "min_by_from (\<lambda>a b. f b < f a) ?w zs = ?w"
    show ?thesis
    proof (cases "f z < f x")
      case True
      with w show ?thesis
        by (intro disjI2 exI [of _ "[]"] exI [of _ z] exI [of _ zs]) simp
    next
      case False
      with w show ?thesis by simp
    qed
  next
    fix ys m rs
    assume m: "min_by_from (\<lambda>a b. f b < f a) ?w zs = m" "zs = ys @ m # rs" "f m < f ?w"
      "\<forall>y \<in> set ys. f m < f y"
    then have "f m < f x" "f m < f z" by (auto split: if_splits)
    with m show ?thesis
      by (intro disjI2 exI [of _ "z # ys"] exI [of _ m] exI [of _ rs]) auto
  qed
qed

lemma min_by_first:
  fixes f :: "'a \<Rightarrow> 'b::linorder"
  assumes "min_by (\<lambda>a b. f b < f a) xs = Some m"
  shows "\<exists>ys zs. xs = ys @ m # zs \<and> (\<forall>y \<in> set ys. f m < f y)"
proof (cases xs)
  case Nil
  with assms show ?thesis by simp
next
  case (Cons x rest)
  with assms have "m = min_by_from (\<lambda>a b. f b < f a) x rest" by simp
  with min_by_from_first [of f x rest] Cons show ?thesis
    by (auto intro: exI [of _ "[]"]) (metis append_Cons set_ConsD)
qed

subsection \<open>Bounded queues\<close>

lemma length_last_n [simp]: "length (last_n n xs) = min n (length xs)"
  by (simp add: last_n_def)

lemma last_n_all: "length xs \<le> n \<Longrightarrow> last_n n xs = xs"
  by (simp add: last_n_def)

lemma set_last_n_subset: "set (last_n n xs) \<subseteq> set xs"
  by (auto simp: last_n_def dest: in_set_dropD)

lemma last_n_snoc:
  "0 < n \<Longrightarrow> last_n n (last_n n xs @ [x]) = last_n n (xs @ [x])"
  by (cases "length xs \<le> n") (auto simp: last_n_def Suc_diff_le)

subsection \<open>Strings\<close>

lemma split_on_ne [simp]: "split_on c xs \<noteq> []"
  by (induction xs) (auto split: list.splits)

lemma split_on_notin: "w \<in> set (split_on c xs) \<Longrightarrow> c \<notin> set w"
proof (induction xs arbitrary: w)
  case Nil
  then show ?case by simp
next
  case (Cons x xs)
  then show ?case
    by (cases "split_on c xs") (auto split: if_splits)
qed

lemma join_split_on: "join [c] (split_on c xs) = xs"
proof (induction xs)
  case Nil
  then show ?case by simp
next
  case (Cons x xs)
  then show ?case
    by (cases "split_on c xs"; cases "tl (split_on c xs)") (auto split: list.splits)
qed

lemma split_once_Some: "split_once sep xs = Some (a, b) \<Longrightarrow> xs = a @ sep @ b"
proof (induction xs arbitrary: a)
  case Nil
  then show ?case by (auto split: if_splits)
next
  case (Cons x xs)
  show ?case
  proof (cases "take (length sep) (x # xs) = sep")
    case True
    with Cons.prems have "a = []" and "b = drop (length sep) (x # xs)" by auto
    then show ?thesis
      using append_take_drop_id [of "length sep" "x # xs"] True by simp
  next
    case False
    with Cons.prems obtain a' where "split_once sep xs = Some (a', b)" and "a = x # a'"
      by (auto split: option.splits)
    with Cons.IH show ?thesis by simp
  qed
qed

lemma rsplit_once_Some: "rsplit_once sep xs = Some (a, b) \<Longrightarrow> xs = a @ sep @ b"
  using split_once_Some [of "rev sep" "rev xs"]
  by (auto simp: rsplit_once_def) (metis append.assoc rev_append rev_rev_ident)

text \<open>Sorting images.\<close>

lemma sort_key_map: "sort_key k (map g xs) = map g (sort_key (\<lambda>x. k (g x)) xs)"
proof -
  have "insort_key k (g x) (map g ys) = map g (insort_key (\<lambda>x. k (g x)) x ys)" for x ys
    by (induction ys) simp_all
  then show ?thesis by (induction xs) simp_all
qed

end
