(* ===== verification/Float_Model.thy ===== *)
theory Float_Model
  imports Complex_Main "HOL-Library.Log_Nat"
begin

text \<open>
  IEEE-754 binary arithmetic on the finite values, as the sources use it: a finite
  \<open>f64\<close> or \<open>f32\<close> is its rational value, and an operation is the exact rational
  operation followed by rounding to nearest, ties to even, at the precision of the format
  (with gradual underflow). Every quantity in the modelled code is a ratio of counters, a
  weight or a product of such, far below the overflow threshold, and every division is
  guarded against a zero divisor, so infinities and NaN do not arise and are not modelled.
\<close>

type_synonym f64 = rat
type_synonym f32 = rat

definition pow2 :: "int \<Rightarrow> rat" where
  "pow2 e = (if 0 \<le> e then 2 ^ nat e else 1 / 2 ^ nat (- e))"

text \<open>The binary exponent of a positive rational: the \<open>e\<close> with \<open>2^e \<le> x < 2^(e+1)\<close>.\<close>

definition exponent :: "rat \<Rightarrow> int" where
  "exponent x =
     (let (n, d) = quotient_of x; e = bitlen n - bitlen d
      in if pow2 e \<le> x then e else e - 1)"

definition round_even :: "rat \<Rightarrow> int" where
  "round_even q =
     (let f = \<lfloor>q\<rfloor>; r = q - of_int f
      in if r < 1 / 2 then f else if 1 / 2 < r then f + 1 else if even f then f else f + 1)"

text \<open>Rounding of a positive value to \<open>p\<close> significant bits, least exponent \<open>emin\<close>.\<close>

definition rnd_pos :: "int \<Rightarrow> int \<Rightarrow> rat \<Rightarrow> rat" where
  "rnd_pos p emin x =
     (let u = pow2 (max (exponent x) emin - (p - 1)) in of_int (round_even (x / u)) * u)"

definition rnd :: "int \<Rightarrow> int \<Rightarrow> rat \<Rightarrow> rat" where
  "rnd p emin x =
     (if x = 0 then 0 else if 0 < x then rnd_pos p emin x else - rnd_pos p emin (- x))"

definition rnd64 :: "rat \<Rightarrow> f64" where
  "rnd64 x = rnd 53 (- 1022) x"

definition rnd32 :: "rat \<Rightarrow> f32" where
  "rnd32 x = rnd 24 (- 126) x"

definition f64_of_nat :: "nat \<Rightarrow> f64" where
  "f64_of_nat n = rnd64 (of_nat n)"

definition fadd :: "f64 \<Rightarrow> f64 \<Rightarrow> f64" where
  "fadd a b = rnd64 (a + b)"

definition fsub :: "f64 \<Rightarrow> f64 \<Rightarrow> f64" where
  "fsub a b = rnd64 (a - b)"

definition fmul :: "f64 \<Rightarrow> f64 \<Rightarrow> f64" where
  "fmul a b = rnd64 (a * b)"

definition fdiv :: "f64 \<Rightarrow> f64 \<Rightarrow> f64" where
  "fdiv a b = rnd64 (a / b)"

definition fadd32 :: "f32 \<Rightarrow> f32 \<Rightarrow> f32" where
  "fadd32 a b = rnd32 (a + b)"

definition fsub32 :: "f32 \<Rightarrow> f32 \<Rightarrow> f32" where
  "fsub32 a b = rnd32 (a - b)"

definition fmul32 :: "f32 \<Rightarrow> f32 \<Rightarrow> f32" where
  "fmul32 a b = rnd32 (a * b)"

definition fdiv32 :: "f32 \<Rightarrow> f32 \<Rightarrow> f32" where
  "fdiv32 a b = rnd32 (a / b)"

definition f32_of_nat :: "nat \<Rightarrow> f32" where
  "f32_of_nat n = rnd32 (of_nat n)"

text \<open>\<open>as usize\<close>: truncation towards zero, saturating at the bounds of the type.\<close>

definition f64_to_usize :: "f64 \<Rightarrow> nat" where
  "f64_to_usize x = min (nat \<lfloor>x\<rfloor>) 18446744073709551615"

section \<open>Lemmas\<close>

lemma pow2_powi: "pow2 e = 2 powi e"
  by (cases "0 \<le> e") (simp_all add: pow2_def power_int_def power_one_over)

lemma pow2_pos [simp]: "0 < pow2 e"
  by (simp add: pow2_def)

lemma pow2_ne [simp]: "pow2 e \<noteq> 0"
  by (simp add: pow2_def)

lemma pow2_add: "pow2 (a + b) = pow2 a * pow2 b"
  by (simp add: pow2_powi power_int_add)

lemma pow2_mono: "a \<le> b \<Longrightarrow> pow2 a \<le> pow2 b"
  by (simp add: pow2_powi power_int_increasing)

lemma pow2_nonneg: "0 \<le> e \<Longrightarrow> pow2 e = of_int (2 ^ nat e)"
  by (simp add: pow2_def)

lemma bitlen_rat_bounds: "0 < n \<Longrightarrow> pow2 (bitlen n - 1) \<le> of_int n \<and> of_int n < pow2 (bitlen n)"
proof -
  assume n: "0 < n"
  have b: "2 ^ nat (bitlen n - 1) \<le> n" "n < 2 ^ nat (bitlen n)" "0 < bitlen n"
    using bitlen_bounds [OF n] bitlen_eq_zero_iff [of n] bitlen_nonneg [of n] n by auto
  have "(of_int (2 ^ nat (bitlen n - 1)) :: rat) \<le> of_int n"
    "(of_int n :: rat) < of_int (2 ^ nat (bitlen n))"
    using b by (simp_all only: of_int_le_iff of_int_less_iff)
  then show ?thesis using b(3) by (simp add: pow2_def)
qed

lemma exponent_bounds:
  assumes "0 < x"
  shows "pow2 (exponent x) \<le> x" and "x < pow2 (exponent x + 1)"
proof -
  obtain n d where q: "quotient_of x = (n, d)" by fastforce
  then have d: "0 < d" and x: "x = of_int n / of_int d"
    using quotient_of_denom_pos quotient_of_div by auto
  then have n: "0 < n" using assms by (simp add: zero_less_divide_iff)
  let ?e = "bitlen n - bitlen d"
  note bn = bitlen_rat_bounds [OF n] and bd = bitlen_rat_bounds [OF d]
  have up: "x < pow2 (?e + 1)"
  proof -
    have "x < pow2 (bitlen n) / pow2 (bitlen d - 1)"
      unfolding x using bn bd n d by (intro frac_less) auto
    also have "\<dots> = pow2 (?e + 1)"
      using pow2_add [of "?e + 1" "bitlen d - 1"]
      by (simp add: divide_eq_eq)
    finally show ?thesis .
  qed
  have lo: "pow2 (?e - 1) \<le> x"
  proof -
    have "pow2 (?e - 1) = pow2 (bitlen n - 1) / pow2 (bitlen d)"
      using pow2_add [of "?e - 1" "bitlen d"]
      by (simp add: eq_divide_eq)
    also have "\<dots> \<le> x"
      unfolding x using bn bd n d by (intro frac_le) auto
    finally show ?thesis .
  qed
  show "pow2 (exponent x) \<le> x" "x < pow2 (exponent x + 1)"
    using up lo by (auto simp: exponent_def q Let_def)
qed

lemma exponent_mono:
  assumes "0 < x" and "x \<le> y"
  shows "exponent x \<le> exponent y"
proof (rule ccontr)
  assume "\<not> ?thesis"
  then have "pow2 (exponent y + 1) \<le> pow2 (exponent x)" by (intro pow2_mono) simp
  with exponent_bounds [of x] exponent_bounds [of y] assms show False by linarith
qed

lemma round_even_cases: "round_even q = \<lfloor>q\<rfloor> \<or> round_even q = \<lfloor>q\<rfloor> + 1"
  by (auto simp: round_even_def Let_def)

lemma round_even_mono: "q \<le> q' \<Longrightarrow> round_even q \<le> round_even q'"
proof -
  assume le: "q \<le> q'"
  then have f: "\<lfloor>q\<rfloor> \<le> \<lfloor>q'\<rfloor>" by (rule floor_mono)
  show ?thesis
  proof (cases "\<lfloor>q\<rfloor> = \<lfloor>q'\<rfloor>")
    case True
    with le show ?thesis by (auto simp: round_even_def Let_def)
  next
    case False
    with f round_even_cases [of q] round_even_cases [of q'] show ?thesis by linarith
  qed
qed

lemma round_even_of_int [simp]: "round_even (of_int k) = k"
  by (simp add: round_even_def)

lemma rnd_pos_ge_power:
  assumes "0 < x" and "emin \<le> exponent x" and "1 \<le> p"
  shows "pow2 (exponent x) \<le> rnd_pos p emin x" and "rnd_pos p emin x \<le> pow2 (exponent x + 1)"
proof -
  let ?u = "pow2 (exponent x - (p - 1))"
  have e: "pow2 (exponent x) = of_int (2 ^ nat (p - 1)) * ?u"
    "pow2 (exponent x + 1) = of_int (2 ^ nat p) * ?u"
    using pow2_add [of "p - 1" "exponent x - (p - 1)"] pow2_add [of p "exponent x - (p - 1)"]
      assms(3) by (simp_all add: pow2_nonneg algebra_simps)
  have "of_int (2 ^ nat (p - 1)) \<le> x / ?u" "x / ?u \<le> of_int (2 ^ nat p)"
    using exponent_bounds [OF assms(1)] e by (simp_all add: pos_le_divide_eq pos_divide_le_eq)
  then have "2 ^ nat (p - 1) \<le> round_even (x / ?u)" "round_even (x / ?u) \<le> 2 ^ nat p"
    using round_even_mono round_even_of_int by metis+
  then have "of_int (2 ^ nat (p - 1)) \<le> (of_int (round_even (x / ?u)) :: rat)"
    "(of_int (round_even (x / ?u)) :: rat) \<le> of_int (2 ^ nat p)"
    by (simp_all only: of_int_le_iff)
  then have "pow2 (exponent x) \<le> of_int (round_even (x / ?u)) * ?u"
    "of_int (round_even (x / ?u)) * ?u \<le> pow2 (exponent x + 1)"
    unfolding e by (auto intro!: mult_right_mono intro: less_imp_le)
  then show "pow2 (exponent x) \<le> rnd_pos p emin x" "rnd_pos p emin x \<le> pow2 (exponent x + 1)"
    using assms(2) by (simp_all add: rnd_pos_def Let_def max_def)
qed

lemma rnd_pos_le_top:
  assumes "0 < x" and "1 \<le> p"
  shows "rnd_pos p emin x \<le> pow2 (max (exponent x) emin + 1)"
proof (cases "emin \<le> exponent x")
  case True
  then show ?thesis using rnd_pos_ge_power [OF assms(1) True assms(2)] by (simp add: max_def)
next
  case False
  let ?u = "pow2 (emin - (p - 1))"
  have e: "pow2 (emin + 1) = of_int (2 ^ nat p) * ?u"
    using pow2_add [of p "emin - (p - 1)"] assms(2) by (simp add: pow2_nonneg algebra_simps)
  have "x < pow2 (emin + 1)"
    using exponent_bounds(2) [OF assms(1)] False pow2_mono [of "exponent x + 1" "emin + 1"]
    by linarith
  then have "x / ?u \<le> of_int (2 ^ nat p)" using e by (simp add: pos_divide_le_eq)
  then have "round_even (x / ?u) \<le> 2 ^ nat p"
    using round_even_mono round_even_of_int by metis
  then have "(of_int (round_even (x / ?u)) :: rat) \<le> of_int (2 ^ nat p)"
    by (simp only: of_int_le_iff)
  then have "of_int (round_even (x / ?u)) * ?u \<le> pow2 (emin + 1)"
    unfolding e by (intro mult_right_mono) (auto intro: less_imp_le)
  then show ?thesis using False by (simp add: rnd_pos_def Let_def max_def)
qed

lemma rnd_pos_nonneg: "0 < x \<Longrightarrow> 0 \<le> rnd_pos p emin x"
proof -
  assume "0 < x"
  then have "0 \<le> x / pow2 (max (exponent x) emin - (p - 1))"
    by (intro divide_nonneg_pos) auto
  then have "0 \<le> round_even (x / pow2 (max (exponent x) emin - (p - 1)))"
    using round_even_mono round_even_of_int by (metis of_int_0)
  then show ?thesis by (simp add: rnd_pos_def Let_def less_imp_le [OF pow2_pos])
qed

lemma rnd_pos_mono:
  assumes "0 < x" and "x \<le> y" and "1 \<le> p"
  shows "rnd_pos p emin x \<le> rnd_pos p emin y"
proof (cases "max (exponent x) emin = max (exponent y) emin")
  case True
  let ?u = "pow2 (max (exponent y) emin - (p - 1))"
  have "round_even (x / ?u) \<le> round_even (y / ?u)"
    using assms by (intro round_even_mono divide_right_mono) (auto intro: less_imp_le)
  then show ?thesis using True by (simp add: rnd_pos_def Let_def)
next
  case False
  have y: "0 < y" using assms by simp
  from False exponent_mono [OF assms(1,2)]
  have lt: "max (exponent x) emin + 1 \<le> exponent y" and em: "emin \<le> exponent y" by auto
  have "rnd_pos p emin x \<le> pow2 (max (exponent x) emin + 1)"
    by (rule rnd_pos_le_top) (use assms in auto)
  also have "\<dots> \<le> pow2 (exponent y)" using lt by (rule pow2_mono)
  also have "\<dots> \<le> rnd_pos p emin y" by (rule rnd_pos_ge_power) (use y em assms in auto)
  finally show ?thesis .
qed

lemma rnd_mono: "1 \<le> p \<Longrightarrow> x \<le> y \<Longrightarrow> rnd p emin x \<le> rnd p emin y"
proof -
  assume p: "1 \<le> p" and le: "x \<le> y"
  consider "0 < x" | "x \<le> 0" "0 \<le> y" | "y < 0" using le by linarith
  then show ?thesis
  proof cases
    case 1
    then show ?thesis using le p rnd_pos_mono [of x y p emin] by (simp add: rnd_def)
  next
    case 2
    then show ?thesis
      using rnd_pos_nonneg [of "- x" p emin] rnd_pos_nonneg [of y p emin] by (auto simp: rnd_def)
  next
    case 3
    then show ?thesis using le p rnd_pos_mono [of "- y" "- x" p emin] by (auto simp: rnd_def)
  qed
qed

text \<open>A multiple of its own last place is representable, so rounding it changes nothing.\<close>

lemma rnd_pos_fix:
  assumes "x / pow2 (max (exponent x) emin - (p - 1)) = of_int k"
  shows "rnd_pos p emin x = x"
  unfolding rnd_pos_def Let_def assms round_even_of_int
  using assms by (simp add: divide_eq_eq)

lemma rnd_pos_idem:
  assumes "0 < x" and "0 < rnd_pos p emin x" and "1 \<le> p"
  shows "rnd_pos p emin (rnd_pos p emin x) = rnd_pos p emin x"
proof -
  let ?e = "max (exponent x) emin" and ?r = "rnd_pos p emin x"
  let ?k = "round_even (x / pow2 (?e - (p - 1)))" and ?e' = "max (exponent (rnd_pos p emin x)) emin"
  have r: "?r = of_int ?k * pow2 (?e - (p - 1))" by (simp add: rnd_pos_def Let_def)
  have top: "?r \<le> pow2 (?e + 1)" by (rule rnd_pos_le_top) (use assms in auto)
  show ?thesis
  proof (cases "?e' \<le> ?e")
    case True
    have "pow2 (?e - (p - 1)) = of_int (2 ^ nat (?e - ?e')) * pow2 (?e' - (p - 1))"
      using pow2_add [of "?e - ?e'" "?e' - (p - 1)"] True pow2_nonneg [of "?e - ?e'"]
      by (simp add: algebra_simps)
    with r have "?r = of_int (?k * 2 ^ nat (?e - ?e')) * pow2 (?e' - (p - 1))"
      by (simp only: of_int_mult mult.assoc)
    then have "?r / pow2 (?e' - (p - 1)) = of_int (?k * 2 ^ nat (?e - ?e'))"
      by (simp only: divide_eq_eq pow2_ne not_False_eq_True if_True)
    then show ?thesis by (rule rnd_pos_fix)
  next
    case False
    then have lt: "?e + 1 \<le> exponent ?r" "?e' = exponent ?r" by auto
    have "pow2 (exponent ?r) \<le> ?r" by (rule exponent_bounds) (use assms in auto)
    with top lt pow2_mono [of "?e + 1" "exponent ?r"] have eq: "?r = pow2 (exponent ?r)" by linarith
    have "?r / pow2 (?e' - (p - 1)) = of_int (2 ^ nat (p - 1))"
      using pow2_add [of "p - 1" "exponent ?r - (p - 1)"] assms(3) lt(2)
      by (subst eq) (simp add: pow2_nonneg divide_eq_eq)
    then show ?thesis by (rule rnd_pos_fix)
  qed
qed

lemma rnd_idem: "1 \<le> p \<Longrightarrow> rnd p emin (rnd p emin x) = rnd p emin x"
proof -
  assume p: "1 \<le> p"
  have pos: "rnd p emin (rnd_pos p emin y) = rnd_pos p emin y" if "0 < y" for y
    using rnd_pos_nonneg [OF that, of p emin] rnd_pos_idem [OF that _ p, of emin] by (auto simp: rnd_def)
  have neg: "rnd p emin (- y) = - rnd p emin y" for y by (auto simp: rnd_def)
  show ?thesis
    using pos [of x] pos [of "- x"] neg [of "rnd_pos p emin (- x)"] rnd_def [of p emin 0]
    by (cases "x = 0"; cases "0 < x") (auto simp: rnd_def [of p emin x])
qed

lemma rnd_0 [simp]: "rnd p emin 0 = 0"
  by (simp add: rnd_def)

lemma rnd64_mono: "x \<le> y \<Longrightarrow> rnd64 x \<le> rnd64 y"
  by (simp add: rnd64_def rnd_mono)

lemma rnd32_mono: "x \<le> y \<Longrightarrow> rnd32 x \<le> rnd32 y"
  by (simp add: rnd32_def rnd_mono)

lemma rnd64_idem [simp]: "rnd64 (rnd64 x) = rnd64 x"
  by (simp add: rnd64_def rnd_idem)

lemma rnd64_0 [simp]: "rnd64 0 = 0"
  by (simp add: rnd64_def)

lemma rnd64_1 [simp]: "rnd64 1 = 1"
  by code_simp

lemma rnd64_nonneg: "0 \<le> x \<Longrightarrow> 0 \<le> rnd64 x"
  using rnd64_mono [of 0 x] by simp

lemma rnd64_le_1: "x \<le> 1 \<Longrightarrow> rnd64 x \<le> 1"
  using rnd64_mono [of x 1] by simp

lemma rnd64_ge_1: "1 \<le> x \<Longrightarrow> 1 \<le> rnd64 x"
  using rnd64_mono [of 1 x] by simp

lemma f64_of_nat_mono: "m \<le> n \<Longrightarrow> f64_of_nat m \<le> f64_of_nat n"
  by (simp add: f64_of_nat_def rnd64_mono)

lemma f64_of_nat_0 [simp]: "f64_of_nat 0 = 0"
  by (simp add: f64_of_nat_def)

lemma f64_of_nat_nonneg [simp]: "0 \<le> f64_of_nat n"
  by (simp add: f64_of_nat_def rnd64_nonneg)

lemma f64_of_nat_ge_1: "0 < n \<Longrightarrow> 1 \<le> f64_of_nat n"
  by (simp add: f64_of_nat_def rnd64_ge_1)

lemma fdiv_mono_num: "a \<le> b \<Longrightarrow> 0 < c \<Longrightarrow> fdiv a c \<le> fdiv b c"
  by (simp add: fdiv_def rnd64_mono divide_right_mono)

lemma fdiv_nonneg: "0 \<le> a \<Longrightarrow> 0 \<le> c \<Longrightarrow> 0 \<le> fdiv a c"
  by (simp add: fdiv_def rnd64_nonneg)

lemma fdiv_le_1: "a \<le> c \<Longrightarrow> 0 < c \<Longrightarrow> fdiv a c \<le> 1"
  by (simp add: fdiv_def rnd64_le_1)

lemma fdiv_ge_1: "c \<le> a \<Longrightarrow> 0 < c \<Longrightarrow> 1 \<le> fdiv a c"
  by (simp add: fdiv_def rnd64_ge_1)

text \<open>The results of the operations are values of the format.\<close>

lemma rnd64_ops [simp]:
  "rnd64 (fadd a b) = fadd a b" "rnd64 (fsub a b) = fsub a b"
  "rnd64 (fmul a b) = fmul a b" "rnd64 (fdiv a b) = fdiv a b"
  "rnd64 (f64_of_nat n) = f64_of_nat n"
  by (simp_all add: fadd_def fsub_def fmul_def fdiv_def f64_of_nat_def)

lemma rnd32_idem [simp]: "rnd32 (rnd32 x) = rnd32 x"
  by (simp add: rnd32_def rnd_idem)

lemma rnd32_0 [simp]: "rnd32 0 = 0"
  by (simp add: rnd32_def)

lemma rnd32_1 [simp]: "rnd32 1 = 1"
  by code_simp

lemma rnd32_nonneg: "0 \<le> x \<Longrightarrow> 0 \<le> rnd32 x"
  using rnd32_mono [of 0 x] by simp

lemma rnd32_ge_1: "1 \<le> x \<Longrightarrow> 1 \<le> rnd32 x"
  using rnd32_mono [of 1 x] by simp

lemma f32_of_nat_mono: "m \<le> n \<Longrightarrow> f32_of_nat m \<le> f32_of_nat n"
  by (simp add: f32_of_nat_def rnd32_mono)

lemma f32_of_nat_nonneg [simp]: "0 \<le> f32_of_nat n"
  by (simp add: f32_of_nat_def rnd32_nonneg)

text \<open>Rounding a normal value changes it by less than a factor of two.\<close>

lemma rnd32_bounds:
  assumes "pow2 (- 126) \<le> x"
  shows "x / 2 < rnd32 x" and "rnd32 x \<le> 2 * x"
proof -
  have pos: "0 < x" using assms pow2_pos [of "- 126"] by linarith
  have "- 126 \<le> exponent x"
  proof (rule ccontr)
    assume "\<not> - 126 \<le> exponent x"
    then have "pow2 (exponent x + 1) \<le> pow2 (- 126)" by (intro pow2_mono) simp
    then show False using exponent_bounds(2) [OF pos] assms by linarith
  qed
  then have p: "pow2 (exponent x) \<le> rnd32 x" "rnd32 x \<le> pow2 (exponent x + 1)"
    using rnd_pos_ge_power [OF pos, of "- 126" 24] pos by (simp_all add: rnd32_def rnd_def)
  have "pow2 (exponent x + 1) = 2 * pow2 (exponent x)" by (simp add: pow2_add) (simp add: pow2_def)
  then show "x / 2 < rnd32 x" "rnd32 x \<le> 2 * x" using p exponent_bounds [OF pos] by linarith+
qed

lemma pow2_tiny: "1 / 64 \<le> x \<Longrightarrow> pow2 (- 126) \<le> x"
  using pow2_mono [of "- 126" "- 6"] by (simp add: pow2_def)

end
