(* ===== verification/Identity.thy ===== *)
theory Identity
  imports Prelude
begin

text \<open>
  The core domain types of \<open>ministr-core/src/types.rs\<close>: resolutions, delivery
  identities and their storage keys, vector identifiers, claim identifiers, the enumerations
  persisted by name, and \<open>DocumentTree::deduplicate_ids\<close>.

  \<open>storage_key\<close> and \<open>from_storage_key\<close> call \<open>serde_json\<close>, which is not part of
  the repository: the serializer is the record \<open>json_codec\<close>, an argument of every definition
  that reaches it, and \<open>codec_ok\<close> is the documented round trip the code relies on.
\<close>

section \<open>Resolutions and delivery identities\<close>

datatype resolution = Summary | Section | Claim | SymbolStub | SymbolFull

fun resolution_str :: "resolution \<Rightarrow> string" where
  "resolution_str Summary = ''summary''"
| "resolution_str Section = ''section''"
| "resolution_str Claim = ''claim''"
| "resolution_str SymbolStub = ''symbol_stub''"
| "resolution_str SymbolFull = ''symbol_full''"

definition PRIMARY_CORPUS_ID :: string where
  "PRIMARY_CORPUS_ID = ''primary''"

record delivery_identity =
  di_corpus_id :: string
  di_content_id :: string
  di_resolution :: string

definition di_new :: "string \<Rightarrow> string \<Rightarrow> string \<Rightarrow> delivery_identity" where
  "di_new corpus content res =
     \<lparr>di_corpus_id = corpus, di_content_id = content, di_resolution = res\<rparr>"

definition di_primary :: "string \<Rightarrow> string \<Rightarrow> delivery_identity" where
  "di_primary content res = di_new PRIMARY_CORPUS_ID content res"

record json_codec =
  to_json :: "delivery_identity \<Rightarrow> string"
  of_json :: "string \<Rightarrow> delivery_identity option"

definition codec_ok :: "json_codec \<Rightarrow> bool" where
  "codec_ok J \<longleftrightarrow> (\<forall>d. of_json J (to_json J d) = Some d)"

definition storage_key :: "json_codec \<Rightarrow> delivery_identity \<Rightarrow> string" where
  "storage_key J d = to_json J d"

definition from_storage_key :: "json_codec \<Rightarrow> string \<Rightarrow> string \<Rightarrow> delivery_identity" where
  "from_storage_key J key legacy_resolution =
     (case of_json J key of
        Some d \<Rightarrow> d
      | None \<Rightarrow> di_primary key legacy_resolution)"

definition di_from_content :: "string \<Rightarrow> delivery_identity" where
  "di_from_content content = di_primary content ''legacy''"

record result_locator =
  rl_identity :: delivery_identity
  rl_project :: "string option"
  rl_source_corpus :: "string option"
  rl_tenant :: "string option"

definition rl_primary :: "string \<Rightarrow> string \<Rightarrow> result_locator" where
  "rl_primary content res =
     \<lparr>rl_identity = di_primary content res, rl_project = None,
      rl_source_corpus = None, rl_tenant = None\<rparr>"

definition rl_routed ::
  "result_locator \<Rightarrow> string \<Rightarrow> string option \<Rightarrow> string option \<Rightarrow> string option
     \<Rightarrow> result_locator" where
  "rl_routed l corpus project source_corpus tenant =
     l\<lparr>rl_identity := (rl_identity l)\<lparr>di_corpus_id := corpus\<rparr>,
       rl_project := project, rl_source_corpus := source_corpus, rl_tenant := tenant\<rparr>"

section \<open>Completeness of an index\<close>

datatype completeness_state = Complete | Partial | Stale | Unavailable

record completeness =
  cp_state :: completeness_state
  cp_indexed_items :: nat
  cp_estimated_total_items :: "nat option"
  cp_affected_capabilities :: "string list"
  cp_index_generation :: "string option"
  cp_absence_is_conclusive :: bool
  cp_retry_guidance :: "string option"

definition completeness_complete :: "nat \<Rightarrow> completeness" where
  "completeness_complete indexed =
     \<lparr>cp_state = Complete, cp_indexed_items = indexed,
      cp_estimated_total_items = Some indexed, cp_affected_capabilities = [],
      cp_index_generation = None, cp_absence_is_conclusive = True, cp_retry_guidance = None\<rparr>"

definition completeness_partial :: "nat \<Rightarrow> nat option \<Rightarrow> completeness" where
  "completeness_partial indexed estimated =
     \<lparr>cp_state = Partial, cp_indexed_items = indexed,
      cp_estimated_total_items = estimated,
      cp_affected_capabilities = [''search'', ''code_navigation''],
      cp_index_generation = None, cp_absence_is_conclusive = False,
      cp_retry_guidance = Some ''Retry after indexing completes.''\<rparr>"

section \<open>Enumerations persisted by name\<close>

datatype ref_kind = Calls | Implements | Imports | Uses | Bridge

fun ref_kind_as_str :: "ref_kind \<Rightarrow> string" where
  "ref_kind_as_str Calls = ''calls''"
| "ref_kind_as_str Implements = ''implements''"
| "ref_kind_as_str Imports = ''imports''"
| "ref_kind_as_str Uses = ''uses''"
| "ref_kind_as_str Bridge = ''bridge''"

definition ref_kind_parse :: "string \<Rightarrow> ref_kind option" where
  "ref_kind_parse s =
     (if s = ''calls'' then Some Calls
      else if s = ''implements'' then Some Implements
      else if s = ''imports'' then Some Imports
      else if s = ''uses'' then Some Uses
      else if s = ''bridge'' then Some Bridge
      else None)"

datatype relation_type = References | Contradicts | DependsOn | Updates

fun relation_type_str :: "relation_type \<Rightarrow> string" where
  "relation_type_str References = ''references''"
| "relation_type_str Contradicts = ''contradicts''"
| "relation_type_str DependsOn = ''depends_on''"
| "relation_type_str Updates = ''updates''"

definition relation_type_parse :: "string \<Rightarrow> relation_type option" where
  "relation_type_parse s =
     (if s = ''references'' then Some References
      else if s = ''contradicts'' then Some Contradicts
      else if s = ''depends_on'' then Some DependsOn
      else if s = ''updates'' then Some Updates
      else None)"

datatype root_kind = Local | Web | Git

fun root_kind_as_str :: "root_kind \<Rightarrow> string" where
  "root_kind_as_str Local = ''local''"
| "root_kind_as_str Web = ''web''"
| "root_kind_as_str Git = ''git''"

definition root_kind_parse :: "string \<Rightarrow> root_kind" where
  "root_kind_parse s = (if s = ''web'' then Web else if s = ''git'' then Git else Local)"

section \<open>Vector identifiers\<close>

type_synonym vector_id = string

definition vid_doc_summary :: "string \<Rightarrow> vector_id" where
  "vid_doc_summary doc = ''doc-summary::'' @ doc"

definition vid_sec_summary :: "string \<Rightarrow> vector_id" where
  "vid_sec_summary sec = ''sec-summary::'' @ sec"

definition vid_section :: "string \<Rightarrow> vector_id" where
  "vid_section sec = ''section::'' @ sec"

definition vid_claim :: "string \<Rightarrow> vector_id" where
  "vid_claim claim = ''claim::'' @ claim"

definition vid_symbol_stub :: "string \<Rightarrow> vector_id" where
  "vid_symbol_stub symbol = ''symbol-stub::'' @ symbol"

definition vid_symbol_full :: "string \<Rightarrow> vector_id" where
  "vid_symbol_full symbol = ''symbol-full::'' @ symbol"

definition vid_parse :: "string \<Rightarrow> vector_id option" where
  "vid_parse s =
     (case split_once ''::'' s of
        None \<Rightarrow> None
      | Some (prefix, _) \<Rightarrow>
          if prefix \<in> {''doc-summary'', ''sec-summary'', ''section'', ''claim'',
                      ''symbol-stub'', ''symbol-full''}
          then Some s else None)"

text \<open>\<open>None\<close> stands for the \<open>unreachable!\<close> panic.\<close>

definition vid_resolution :: "vector_id \<Rightarrow> resolution option" where
  "vid_resolution v =
     (case map_option fst (split_once ''::'' v) of
        None \<Rightarrow> None
      | Some p \<Rightarrow>
          if p = ''doc-summary'' \<or> p = ''sec-summary'' then Some Summary
          else if p = ''section'' then Some Section
          else if p = ''claim'' then Some Claim
          else if p = ''symbol-stub'' then Some SymbolStub
          else if p = ''symbol-full'' then Some SymbolFull
          else None)"

definition vid_is_doc_summary :: "vector_id \<Rightarrow> bool" where
  "vid_is_doc_summary v = (take 13 v = ''doc-summary::'')"

definition vid_content_id :: "vector_id \<Rightarrow> string" where
  "vid_content_id v = (case split_once ''::'' v of None \<Rightarrow> [] | Some (_, i) \<Rightarrow> i)"

section \<open>Decimal numerals and claim identifiers\<close>

definition digit_char :: "nat \<Rightarrow> char" where
  "digit_char d = char_of (48 + d)"

fun show_nat :: "nat \<Rightarrow> string" where
  "show_nat n =
     (if n < 10 then [digit_char n] else show_nat (n div 10) @ [digit_char (n mod 10)])"

declare show_nat.simps [simp del]

definition is_ascii_digit :: "char \<Rightarrow> bool" where
  "is_ascii_digit c = (48 \<le> (of_char c :: nat) \<and> (of_char c :: nat) \<le> 57)"

definition parent_section_id :: "string \<Rightarrow> string option" where
  "parent_section_id claim_id =
     (case rsplit_once '':c'' claim_id of
        None \<Rightarrow> None
      | Some (prefix, suffix) \<Rightarrow>
          if suffix = [] \<or> \<not> list_all is_ascii_digit suffix then None else Some prefix)"

section \<open>Document trees\<close>

datatype structural_node =
    CodeBlock (cb_language: string) (cb_code: string)
  | TableNode (tn_headers: "string list") (tn_rows: "string list list")
  | ListBlock (lb_ordered: bool) (lb_items: "string list")

record claim =
  claim_id :: string
  claim_text :: string
  claim_section_id :: string

datatype section_tree =
  MkSection (sec_id: string) (sec_heading_path: "string list") (sec_depth: nat)
    (sec_text: string) (sec_nodes: "structural_node list") (sec_children: "section_tree list")
    (sec_claims: "claim list") (sec_summary: "string option")

text \<open>
  The search for a fresh suffix, \<open>(2u64..u64::MAX)\<close>; \<open>None\<close> is the \<open>expect\<close> panic.
\<close>

function find_candidate :: "string \<Rightarrow> string list \<Rightarrow> nat \<Rightarrow> string option" where
  "find_candidate original seen n =
     (if n < u64_max then
        (let candidate = original @ ''-'' @ show_nat n
         in if candidate \<notin> set seen then Some candidate
            else find_candidate original seen (Suc n))
      else None)"
  by pat_completeness auto
termination
  by (relation "measure (\<lambda>(original, seen, n). u64_max - n)") auto

declare find_candidate.simps [simp del]

definition rename_claims :: "string \<Rightarrow> claim list \<Rightarrow> claim list" where
  "rename_claims deduped cs =
     map (\<lambda>(i, c). c\<lparr>claim_id := deduped @ '':c'' @ show_nat i, claim_section_id := deduped\<rparr>)
       (enumerate 0 cs)"

fun dedup_section_ids :: "section_tree list \<Rightarrow> string list \<Rightarrow> (section_tree list \<times> string list) option" where
  "dedup_section_ids [] seen = Some ([], seen)"
| "dedup_section_ids (MkSection i hp d t ns ch cl sm # rest) seen =
     (case (if i \<in> set seen
            then map_option (\<lambda>j. (j, rename_claims j cl)) (find_candidate i seen 2)
            else Some (i, cl)) of
        None \<Rightarrow> None
      | Some (i', cl') \<Rightarrow>
          (case dedup_section_ids ch (hs_insert i' seen) of
             None \<Rightarrow> None
           | Some (ch', seen') \<Rightarrow>
               (case dedup_section_ids rest seen' of
                  None \<Rightarrow> None
                | Some (rest', seen'') \<Rightarrow>
                    Some (MkSection i' hp d t ns ch' cl' sm # rest', seen''))))"

definition deduplicate_ids :: "section_tree list \<Rightarrow> section_tree list option" where
  "deduplicate_ids sections = map_option fst (dedup_section_ids sections [])"

fun all_ids :: "section_tree list \<Rightarrow> string list" where
  "all_ids [] = []"
| "all_ids (MkSection i hp d t ns ch cl sm # rest) = i # all_ids ch @ all_ids rest"

text \<open>
  A concrete serializer that meets \<open>codec_ok\<close>: each field is preceded by its length in unary.
  It instantiates the parameter where a witness needs a closed term.
\<close>

definition ns_enc :: "string \<Rightarrow> string" where
  "ns_enc s = replicate (length s) (CHR ''1'') @ CHR ''0'' # s"

definition ns_dec :: "string \<Rightarrow> string \<times> string" where
  "ns_dec xs =
     (let n = length (takeWhile (\<lambda>c. c = CHR ''1'') xs); r = drop (Suc n) xs
      in (take n r, drop n r))"

definition enc_all :: "string list \<Rightarrow> string" where
  "enc_all xs = concat (map ns_enc xs)"

function dec_all :: "string \<Rightarrow> string list" where
  "dec_all s = (if s = [] then [] else fst (ns_dec s) # dec_all (snd (ns_dec s)))"
  by pat_completeness auto
termination
  by (relation "measure length") (auto simp: ns_dec_def Let_def)

declare dec_all.simps [simp del]

definition enc_opt :: "string option \<Rightarrow> string" where
  "enc_opt x = (case x of None \<Rightarrow> [] | Some s \<Rightarrow> CHR ''s'' # s)"

definition dec_opt :: "string \<Rightarrow> string option" where
  "dec_opt s = (case s of [] \<Rightarrow> None | c # r \<Rightarrow> Some r)"

definition netstring_codec :: json_codec where
  "netstring_codec =
     \<lparr>to_json = (\<lambda>d. ns_enc (di_corpus_id d) @ ns_enc (di_content_id d) @ ns_enc (di_resolution d)),
      of_json = (\<lambda>k. let (a, r1) = ns_dec k; (b, r2) = ns_dec r1; (c, r3) = ns_dec r2
                    in if ns_enc a @ ns_enc b @ ns_enc c = k then Some (di_new a b c) else None)\<rparr>"

section \<open>Lemmas\<close>

subsection \<open>Storage keys\<close>

lemma storage_key_eq_iff [simp]:
  "codec_ok J \<Longrightarrow> storage_key J a = storage_key J b \<longleftrightarrow> a = b"
  by (metis codec_ok_def option.inject storage_key_def)

lemma from_storage_key_inverse [simp]:
  "codec_ok J \<Longrightarrow> from_storage_key J (storage_key J d) l = d"
  by (simp add: codec_ok_def storage_key_def from_storage_key_def)

lemma ns_dec_enc: "ns_dec (ns_enc s @ r) = (s, r)"
proof -
  have "takeWhile (\<lambda>c. c = CHR ''1'') (ns_enc s @ r) = replicate (length s) (CHR ''1'')"
    unfolding ns_enc_def by (induction "length s" arbitrary: s) (auto simp: takeWhile_append)
  then show ?thesis by (simp add: ns_dec_def ns_enc_def Let_def)
qed

lemma dec_enc_all [simp]: "dec_all (enc_all xs) = xs"
proof (induction xs)
  case Nil
  show ?case by (subst dec_all.simps) (simp add: enc_all_def)
next
  case (Cons x xs)
  have "ns_enc x @ enc_all xs \<noteq> []" by (simp add: ns_enc_def)
  with Cons show ?case
    by (subst dec_all.simps) (simp add: enc_all_def [of "x # xs"] enc_all_def [of xs, symmetric] ns_dec_enc)
qed

lemma dec_enc_opt [simp]: "dec_opt (enc_opt x) = x"
  by (simp add: dec_opt_def enc_opt_def split: option.splits)

lemma netstring_codec_ok: "codec_ok netstring_codec"
proof -
  have "of_json netstring_codec (to_json netstring_codec d) = Some d" for d
    using ns_dec_enc [of "di_resolution d" "[]"]
    by (simp add: netstring_codec_def ns_dec_enc di_new_def)
  then show ?thesis by (simp add: codec_ok_def)
qed

lemma di_new_eq [simp]: "di_new (di_corpus_id d) (di_content_id d) (di_resolution d) = d"
  by (simp add: di_new_def)

lemma di_new_sel [simp]:
  "di_corpus_id (di_new a b c) = a" "di_content_id (di_new a b c) = b"
  "di_resolution (di_new a b c) = c"
  by (simp_all add: di_new_def)

lemma resolution_str_ne [simp]: "resolution_str r \<noteq> []"
  by (cases r) auto

subsection \<open>Splitting at the first separator\<close>

lemma split_once_first:
  "sep \<noteq> [] \<Longrightarrow> hd sep \<notin> set a \<Longrightarrow> split_once sep (a @ sep @ b) = Some (a, b)"
proof (induction a)
  case Nil
  then show ?case by (cases sep) auto
next
  case (Cons x a)
  then have "take (length sep) (x # a @ sep @ b) \<noteq> sep"
    by (cases sep) auto
  with Cons show ?case by simp
qed

lemma rsplit_once_last:
  "sep \<noteq> [] \<Longrightarrow> last sep \<notin> set b \<Longrightarrow> rsplit_once sep (a @ sep @ b) = Some (a, b)"
  using split_once_first [of "rev sep" "rev b" "rev a"]
  by (simp add: rsplit_once_def hd_rev)

subsection \<open>Decimal numerals\<close>

lemma of_char_digit [simp]: "d < 10 \<Longrightarrow> (of_char (digit_char d) :: nat) = 48 + d"
  by (simp add: digit_char_def)

lemma digit_char_ascii: "d < 10 \<Longrightarrow> is_ascii_digit (digit_char d)"
  by (simp add: is_ascii_digit_def)

lemma show_nat_digits: "list_all is_ascii_digit (show_nat n)"
proof (induction n rule: show_nat.induct)
  case (1 n)
  show ?case
    using 1 by (subst show_nat.simps) (auto simp: digit_char_ascii)
qed

lemma show_nat_ne [simp]: "show_nat n \<noteq> []"
  by (subst show_nat.simps) simp

definition digits_value :: "string \<Rightarrow> nat" where
  "digits_value s = foldl (\<lambda>a c. 10 * a + (of_char c - 48)) 0 s"

lemma digits_value_show: "digits_value (show_nat n) = n"
proof (induction n rule: show_nat.induct)
  case (1 n)
  show ?case
  proof (cases "n < 10")
    case True
    then show ?thesis by (subst show_nat.simps) (simp add: digits_value_def)
  next
    case False
    with 1 have "digits_value (show_nat (n div 10)) = n div 10" by simp
    with False show ?thesis
      by (subst show_nat.simps) (simp add: digits_value_def)
  qed
qed

lemma show_nat_inject [simp]: "show_nat m = show_nat n \<longleftrightarrow> m = n"
  by (metis digits_value_show)

lemma digit_not_c: "is_ascii_digit c \<Longrightarrow> c \<noteq> CHR ''c''"
  by (auto simp: is_ascii_digit_def)

subsection \<open>Fresh section identifiers\<close>

lemma find_candidate_Some: "find_candidate i seen n = Some j \<Longrightarrow> j \<notin> set seen"
proof (induction i seen n rule: find_candidate.induct)
  case (1 i seen n)
  then show ?case
    by (subst (asm) (2) find_candidate.simps) (auto simp: Let_def split: if_splits)
qed

lemma find_candidate_None:
  "find_candidate i seen n = None \<Longrightarrow>
     \<forall>m. n \<le> m \<and> m < u64_max \<longrightarrow> i @ ''-'' @ show_nat m \<in> set seen"
proof (induction i seen n rule: find_candidate.induct)
  case (1 i seen n)
  show ?case
  proof (cases "n < u64_max")
    case True
    with "1.prems" have n: "i @ ''-'' @ show_nat n \<in> set seen"
      and rec: "find_candidate i seen (Suc n) = None"
      by (subst (asm) find_candidate.simps, auto simp: Let_def split: if_splits)+
    from "1.IH" [OF True refl] n rec
    have "\<forall>m. Suc n \<le> m \<and> m < u64_max \<longrightarrow> i @ ''-'' @ show_nat m \<in> set seen"
      by auto
    with n show ?thesis by (metis Suc_leI le_neq_implies_less)
  next
    case False
    then show ?thesis by auto
  qed
qed

lemma find_candidate_total:
  assumes "card (set seen) + n < u64_max"
  shows "\<exists>j. find_candidate i seen n = Some j"
proof (rule ccontr)
  assume "\<not> ?thesis"
  then have all: "\<forall>m. n \<le> m \<and> m < u64_max \<longrightarrow> i @ ''-'' @ show_nat m \<in> set seen"
    by (intro find_candidate_None) auto
  let ?f = "\<lambda>m. i @ ''-'' @ show_nat m"
  have "inj_on ?f {n..<u64_max}" by (auto simp: inj_on_def)
  moreover have "?f ` {n..<u64_max} \<subseteq> set seen" using all by auto
  ultimately have "card {n..<u64_max} \<le> card (set seen)"
    by (meson card_inj_on_le List.finite_set)
  with assms show False by simp
qed

lemma rename_claims_length [simp]: "length (rename_claims j cs) = length cs"
  by (simp add: rename_claims_def)

lemma dedup_section_ids_ok:
  "card (set seen) + length (all_ids ss) + 2 \<le> u64_max \<Longrightarrow>
   \<exists>ss' seen'. dedup_section_ids ss seen = Some (ss', seen')
     \<and> set seen' = set seen \<union> set (all_ids ss')
     \<and> distinct (all_ids ss') \<and> set (all_ids ss') \<inter> set seen = {}
     \<and> length (all_ids ss') = length (all_ids ss)"
proof (induction ss seen rule: dedup_section_ids.induct)
  case (1 seen)
  then show ?case by simp
next
  case (2 i hp d t ns ch cl sm rest seen)
  have "\<exists>i' cl'. (if i \<in> set seen
            then map_option (\<lambda>j. (j, rename_claims j cl)) (find_candidate i seen 2)
            else Some (i, cl)) = Some (i', cl') \<and> i' \<notin> set seen"
    using find_candidate_total [of seen 2 i] "2.prems" find_candidate_Some [of i seen 2] by auto
  then obtain i' cl' where hd: "(if i \<in> set seen
            then map_option (\<lambda>j. (j, rename_claims j cl)) (find_candidate i seen 2)
            else Some (i, cl)) = Some (i', cl')" and new: "i' \<notin> set seen"
    by blast
  let ?s1 = "hs_insert i' seen"
  have c1: "card (set ?s1) = Suc (card (set seen))" using new by simp
  have "card (set ?s1) + length (all_ids ch) + 2 \<le> u64_max" using c1 "2.prems" by simp
  from "2.IH"(1) [OF hd refl this]
  obtain ch' s2 where ch: "dedup_section_ids ch ?s1 = Some (ch', s2)"
    and s2: "set s2 = set ?s1 \<union> set (all_ids ch')" "distinct (all_ids ch')"
      "set (all_ids ch') \<inter> set ?s1 = {}" "length (all_ids ch') = length (all_ids ch)"
    by blast
  have "card (set s2) = card (set ?s1) + length (all_ids ch')"
    unfolding s2(1) using s2(2,3) card_Un_disjoint [of "set ?s1" "set (all_ids ch')"]
    by (simp only: distinct_card List.finite_set Int_commute)
  then have "card (set s2) + length (all_ids rest) + 2 \<le> u64_max"
    using c1 s2 "2.prems" by simp
  from "2.IH"(2) [OF hd refl ch refl this]
  obtain rest' s3 where rest: "dedup_section_ids rest s2 = Some (rest', s3)"
    and s3: "set s3 = set s2 \<union> set (all_ids rest')" "distinct (all_ids rest')"
      "set (all_ids rest') \<inter> set s2 = {}" "length (all_ids rest') = length (all_ids rest)"
    by blast
  have "dedup_section_ids (MkSection i hp d t ns ch cl sm # rest) seen
      = Some (MkSection i' hp d t ns ch' cl' sm # rest', s3)"
    using hd ch rest by simp
  then show ?case using s2 s3 new by auto
qed

section \<open>Properties\<close>

text \<open>
  Every vector identifier built by one of the six constructors parses back, and its
  resolution and content identifier are the ones it was built from, whatever the content
  identifier contains (a further \<open>::\<close> included): the \<open>unreachable!\<close> branch is not reached.
\<close>

theorem vector_id_roundtrip:
  "(v, r) \<in> {(vid_doc_summary c, Summary), (vid_sec_summary c, Summary), (vid_section c, Section),
     (vid_claim c, Claim), (vid_symbol_stub c, SymbolStub), (vid_symbol_full c, SymbolFull)}
   \<Longrightarrow> vid_parse v = Some v \<and> vid_resolution v = Some r \<and> vid_content_id v = c"
proof -
  have split: "split_once ''::'' (p @ ''::'' @ c) = Some (p, c)" if "CHR '':'' \<notin> set p" for p
    using that split_once_first [of "''::''" p c] by simp
  assume "(v, r) \<in> {(vid_doc_summary c, Summary), (vid_sec_summary c, Summary),
     (vid_section c, Section), (vid_claim c, Claim), (vid_symbol_stub c, SymbolStub),
     (vid_symbol_full c, SymbolFull)}"
  then obtain p where v: "v = p @ ''::'' @ c"
    and p: "(p, r) \<in> {(''doc-summary'', Summary), (''sec-summary'', Summary), (''section'', Section),
      (''claim'', Claim), (''symbol-stub'', SymbolStub), (''symbol-full'', SymbolFull)}"
    by (auto simp: vid_doc_summary_def vid_sec_summary_def vid_section_def vid_claim_def
        vid_symbol_stub_def vid_symbol_full_def)
  have "split_once ''::'' v = Some (p, c)"
    unfolding v using p by (intro split) auto
  with p show ?thesis
    by (auto simp: vid_parse_def vid_resolution_def vid_content_id_def)
qed

theorem vector_id_roundtrip_witness:
  "vid_parse (vid_claim ''a::b:c0'') = Some (vid_claim ''a::b:c0'')
   \<and> vid_resolution (vid_claim ''a::b:c0'') = Some Claim
   \<and> vid_content_id (vid_claim ''a::b:c0'') = ''a::b:c0''"
  by (rule vector_id_roundtrip) simp

text \<open>
  The parent of a claim identifier \<open>{section}:c{i}\<close> is the section it was made from, for
  every section identifier (one that itself contains \<open>:c\<close> included) and every index.
\<close>

theorem parent_section_id_of_claim:
  "parent_section_id (sid @ '':c'' @ show_nat i) = Some sid"
proof -
  have digits: "list_all is_ascii_digit (show_nat i)" by (rule show_nat_digits)
  then have "CHR ''c'' \<notin> set (show_nat i)"
    using digit_not_c by (auto simp: list_all_iff)
  then have "rsplit_once '':c'' (sid @ '':c'' @ show_nat i) = Some (sid, show_nat i)"
    by (intro rsplit_once_last) auto
  with digits show ?thesis by (simp add: parent_section_id_def)
qed

text \<open>
  \<open>deduplicate_ids\<close> always finds its fresh suffixes (the \<open>expect\<close> does not fire) and
  leaves a tree with as many sections and pairwise distinct section identifiers, provided the tree
  has fewer than \<open>u64::MAX - 2\<close> sections.
\<close>

theorem deduplicate_ids_unique:
  assumes "length (all_ids ss) + 2 \<le> u64_max"
  shows "\<exists>ss'. deduplicate_ids ss = Some ss' \<and> distinct (all_ids ss')
    \<and> length (all_ids ss') = length (all_ids ss)"
  using dedup_section_ids_ok [of "[]" ss] assms by (auto simp: deduplicate_ids_def)

theorem deduplicate_ids_unique_witness:
  "\<exists>ss'. deduplicate_ids [MkSection ''a'' [] 1 [] [] [] [] None, MkSection ''a'' [] 1 [] [] [] [] None]
       = Some ss'
    \<and> distinct (all_ids ss')
    \<and> length (all_ids ss')
        = length (all_ids [MkSection ''a'' [] 1 [] [] [] [] None, MkSection ''a'' [] 1 [] [] [] [] None])"
  by (rule deduplicate_ids_unique) (simp add: u64_max_def)

end
