(* ===== verification/Window.thy ===== *)
theory Window
  imports Prelude Float_Model
begin

text \<open>
  The context-window estimator, \<open>ministr-core/src/session/window.rs\<close>: a queue of
  deliveries with a running token total, evicted to capacity after every record. The queue is a
  list (front first), the total \<open>w_current_tokens\<close> is kept as the code keeps it, by
  incremental addition (wrapping at 64 bits) and saturating subtraction; that it is the sum of the
  queue is an invariant, not a definition. Retrievability scores are an argument of
  \<open>record_with_scores\<close>, as in the source.

  The locale \<open>token_window\<close> is what the clients of the estimator (the usage tracker and the session
  registry) rely on; it is interpreted on the estimator at the end.
\<close>

datatype drop_policy = Fifo | Lru | Fsrs

record window_entry =
  we_content_id :: string
  we_token_count :: nat
  we_sequence :: nat

record window =
  w_capacity :: nat
  w_policy :: drop_policy
  w_entries :: "window_entry list"
  w_current_tokens :: nat
  w_next_sequence :: nat
  w_evicted_count :: nat

record window_status =
  ws_capacity :: nat
  ws_used :: nat
  ws_remaining :: nat
  ws_entry_count :: nat
  ws_evicted_count :: nat

definition PRIOR_CONSUMPTION_CONTENT_ID :: string where
  "PRIOR_CONSUMPTION_CONTENT_ID = ''__ministr_restored_prior__''"

definition window_new :: "nat \<Rightarrow> drop_policy \<Rightarrow> window" where
  "window_new capacity policy =
     \<lparr>w_capacity = capacity, w_policy = policy, w_entries = [], w_current_tokens = 0,
      w_next_sequence = 0, w_evicted_count = 0\<rparr>"

definition score_for :: "(string \<rightharpoonup> f64) \<Rightarrow> string option \<Rightarrow> string \<Rightarrow> f64" where
  "score_for s protect_fresh i =
     (if Some i = protect_fresh then 1
      else (case s i of Some r \<Rightarrow> r | None \<Rightarrow> 0))"

text \<open>The victim of one round of the eviction loop, with the queue it leaves.\<close>

definition pick_victim ::
  "drop_policy \<Rightarrow> (string \<rightharpoonup> f64) option \<Rightarrow> string option \<Rightarrow> window_entry list
     \<Rightarrow> (window_entry \<times> window_entry list) option" where
  "pick_victim policy scores protect_fresh es =
     (case es of
        [] \<Rightarrow> None
      | e # rest \<Rightarrow>
          (case (policy, scores) of
             (Fsrs, Some s) \<Rightarrow>
               map_option (\<lambda>(i, v). (v, remove_at i es))
                 (min_by (\<lambda>(_, a) (_, b). score_for s protect_fresh (we_content_id b)
                                        < score_for s protect_fresh (we_content_id a))
                    (enumerate 0 es))
           | _ \<Rightarrow> Some (e, rest)))"

lemma pick_victim_Some:
  assumes "pick_victim policy scores protect_fresh es = Some (v, es')"
  shows "\<exists>i < length es. v = es ! i \<and> es' = remove_at i es"
proof (cases "\<exists>s. (policy, scores) = (Fsrs, Some s)")
  case True
  with assms obtain s i where
    "min_by (\<lambda>(_, a) (_, b). score_for s protect_fresh (we_content_id b)
        < score_for s protect_fresh (we_content_id a)) (enumerate 0 es) = Some (i, v)"
    and "es' = remove_at i es"
    by (auto simp: pick_victim_def simp del: min_by.simps split: list.splits)
  then show ?thesis
    by (auto dest!: min_by_mem simp: in_set_enumerate_eq)
next
  case False
  with assms have "es \<noteq> []" "v = es ! 0" "es' = remove_at 0 es"
    by (auto simp: pick_victim_def remove_at_def split: list.splits drop_policy.splits
        option.splits)
  then show ?thesis by auto
qed

definition evict_one :: "window_entry \<Rightarrow> window_entry list \<Rightarrow> window \<Rightarrow> window" where
  "evict_one evicted rest w =
     w\<lparr>w_entries := rest,
       w_current_tokens := w_current_tokens w - we_token_count evicted,
       w_evicted_count := add_u64 (w_evicted_count w) 1\<rparr>"

function evict_to_capacity ::
  "(string \<rightharpoonup> f64) option \<Rightarrow> string option \<Rightarrow> window \<Rightarrow> window \<times> string list" where
  "evict_to_capacity scores protect_fresh w =
     (if w_capacity w < w_current_tokens w then
        (case pick_victim (w_policy w) scores protect_fresh (w_entries w) of
           None \<Rightarrow> (w, [])
         | Some (evicted, rest) \<Rightarrow>
             (let (w1, ids) = evict_to_capacity scores protect_fresh (evict_one evicted rest w)
              in (w1, we_content_id evicted # ids)))
      else (w, []))"
  by pat_completeness auto
termination
  by (relation "measure (\<lambda>(scores, protect_fresh, w). length (w_entries w))")
    (auto dest!: pick_victim_Some simp: length_remove_at evict_one_def)

declare evict_to_capacity.simps [simp del]

text \<open>Removal of the entry recorded earlier for the same content.\<close>

definition drop_previous :: "string \<Rightarrow> window \<Rightarrow> window" where
  "drop_previous content_id w =
     (case position (\<lambda>e. we_content_id e = content_id) (w_entries w) of
        None \<Rightarrow> w
      | Some pos \<Rightarrow>
          w\<lparr>w_entries := remove_at pos (w_entries w),
            w_current_tokens := w_current_tokens w - we_token_count (w_entries w ! pos)\<rparr>)"

definition push_entry :: "string \<Rightarrow> nat \<Rightarrow> window \<Rightarrow> window" where
  "push_entry content_id token_count w =
     w\<lparr>w_next_sequence := add_u64 (w_next_sequence w) 1,
       w_current_tokens := add_u64 (w_current_tokens w) token_count,
       w_entries := w_entries w @
         [\<lparr>we_content_id = content_id, we_token_count = token_count,
           we_sequence = w_next_sequence w\<rparr>]\<rparr>"

definition record_with_scores ::
  "string \<Rightarrow> nat \<Rightarrow> (string \<rightharpoonup> f64) option \<Rightarrow> window \<Rightarrow> window \<times> string list" where
  "record_with_scores content_id token_count scores w =
     evict_to_capacity scores (Some content_id)
       (push_entry content_id token_count (drop_previous content_id w))"

definition window_record :: "string \<Rightarrow> nat \<Rightarrow> window \<Rightarrow> window \<times> string list" where
  "window_record content_id token_count w = record_with_scores content_id token_count None w"

definition record_prior_consumption :: "nat \<Rightarrow> window \<Rightarrow> window \<times> string list" where
  "record_prior_consumption token_count w =
     record_with_scores PRIOR_CONSUMPTION_CONTENT_ID token_count None w"

definition window_touch :: "string \<Rightarrow> window \<Rightarrow> window" where
  "window_touch content_id w =
     (if w_policy w \<noteq> Lru then w
      else (case position (\<lambda>e. we_content_id e = content_id) (w_entries w) of
              None \<Rightarrow> w
            | Some pos \<Rightarrow>
                w\<lparr>w_entries := remove_at pos (w_entries w) @
                    [(w_entries w ! pos)\<lparr>we_sequence := w_next_sequence w\<rparr>],
                  w_next_sequence := add_u64 (w_next_sequence w) 1\<rparr>))"

definition estimated_used :: "window \<Rightarrow> nat" where
  "estimated_used w = w_current_tokens w"

definition estimated_remaining :: "window \<Rightarrow> nat" where
  "estimated_remaining w = w_capacity w - w_current_tokens w"

definition window_is_full :: "window \<Rightarrow> bool" where
  "window_is_full w = (w_capacity w \<le> w_current_tokens w)"

definition window_status_of :: "window \<Rightarrow> window_status" where
  "window_status_of w =
     \<lparr>ws_capacity = w_capacity w, ws_used = w_current_tokens w,
      ws_remaining = estimated_remaining w, ws_entry_count = length (w_entries w),
      ws_evicted_count = w_evicted_count w\<rparr>"

definition is_in_window :: "string \<Rightarrow> window \<Rightarrow> bool" where
  "is_in_window content_id w = list_ex (\<lambda>e. we_content_id e = content_id) (w_entries w)"

definition force_evict :: "string \<Rightarrow> window \<Rightarrow> window \<times> bool" where
  "force_evict content_id w =
     (case position (\<lambda>e. we_content_id e = content_id) (w_entries w) of
        None \<Rightarrow> (w, False)
      | Some pos \<Rightarrow>
          (w\<lparr>w_entries := remove_at pos (w_entries w),
             w_current_tokens := w_current_tokens w - we_token_count (w_entries w ! pos),
             w_evicted_count := add_u64 (w_evicted_count w) 1\<rparr>, True))"

section \<open>Invariant and reference behaviour\<close>

abbreviation tokens_of :: "window_entry list \<Rightarrow> nat" where
  "tokens_of es \<equiv> sum_list (map we_token_count es)"

abbreviation window_ids :: "window \<Rightarrow> string list" where
  "window_ids w \<equiv> map we_content_id (w_entries w)"

definition window_ok :: "window \<Rightarrow> bool" where
  "window_ok w \<longleftrightarrow> distinct (window_ids w) \<and> w_current_tokens w = tokens_of (w_entries w)"

text \<open>The reference for FIFO and LRU: the longest suffix of the queue that fits.\<close>

fun fitting_suffix :: "nat \<Rightarrow> window_entry list \<Rightarrow> window_entry list" where
  "fitting_suffix cap [] = []"
| "fitting_suffix cap (e # es) =
     (if tokens_of (e # es) \<le> cap then e # es else fitting_suffix cap es)"

text \<open>The operations of the estimator as one alphabet, for statements about whole runs.\<close>

datatype window_op =
    WRecord string nat "(string \<rightharpoonup> f64) option"
  | WTouch string
  | WForceEvict string

fun window_step :: "window_op \<Rightarrow> window \<Rightarrow> window" where
  "window_step (WRecord i n s) w = fst (record_with_scores i n s w)"
| "window_step (WTouch i) w = window_touch i w"
| "window_step (WForceEvict i) w = fst (force_evict i w)"

fun op_tokens :: "window_op \<Rightarrow> nat" where
  "op_tokens (WRecord i n s) = n"
| "op_tokens _ = 0"

section \<open>The contract of a token window\<close>

locale token_window =
  fixes invar :: "'w \<Rightarrow> bool"
    and used :: "'w \<Rightarrow> nat"
    and cap :: "'w \<Rightarrow> nat"
    and ids :: "'w \<Rightarrow> string set"
    and put :: "string \<Rightarrow> nat \<Rightarrow> 'w \<Rightarrow> 'w \<times> string list"
  assumes put_invar: "invar w \<Longrightarrow> used w + n \<le> u64_max \<Longrightarrow> invar (fst (put i n w))"
    and put_fits: "invar w \<Longrightarrow> used w + n \<le> u64_max \<Longrightarrow> used (fst (put i n w)) \<le> cap w"
    and put_cap: "cap (fst (put i n w)) = cap w"
    and put_ids: "invar w \<Longrightarrow> used w + n \<le> u64_max \<Longrightarrow>
      ids (fst (put i n w)) = insert i (ids w) - set (snd (put i n w))"
    and put_room: "invar w \<Longrightarrow> used w + n \<le> u64_max \<Longrightarrow> i \<notin> ids w \<Longrightarrow> used w + n \<le> cap w \<Longrightarrow>
      used (fst (put i n w)) = used w + n \<and> snd (put i n w) = []"
begin

definition put_all :: "(string \<times> nat) list \<Rightarrow> 'w \<Rightarrow> 'w" where
  "put_all ps w = fold (\<lambda>(i, n) w. fst (put i n w)) ps w"

lemma put_all_cap: "cap (put_all ps w) = cap w"
  by (induction ps arbitrary: w) (auto simp: put_all_def put_cap)

text \<open>A replay of deliveries, each below the machine bound, keeps the contract throughout.\<close>

lemma put_all_ok:
  assumes "invar w" and "used w \<le> cap w"
    and "\<forall>(i, n) \<in> set ps. cap w + n \<le> u64_max"
  shows "invar (put_all ps w) \<and> used (put_all ps w) \<le> cap w
    \<and> ids (put_all ps w) \<subseteq> ids w \<union> fst ` set ps"
  using assms
proof (induction ps arbitrary: w)
  case Nil
  then show ?case by (simp add: put_all_def)
next
  case (Cons p ps)
  obtain i n where p: "p = (i, n)" by fastforce
  let ?w = "fst (put i n w)"
  have room: "used w + n \<le> u64_max" using Cons.prems by (auto simp: p)
  have step: "invar ?w" "used ?w \<le> cap ?w" "cap ?w = cap w" "ids ?w \<subseteq> insert i (ids w)"
    using Cons.prems(1) room put_invar put_fits put_cap put_ids by auto
  have "invar (put_all ps ?w) \<and> used (put_all ps ?w) \<le> cap ?w
      \<and> ids (put_all ps ?w) \<subseteq> ids ?w \<union> fst ` set ps"
    using Cons.prems(3) step by (intro Cons.IH) auto
  then show ?case using step by (auto simp: put_all_def p)
qed

text \<open>A replay that fits as a whole evicts nothing and is counted in full.\<close>

lemma put_all_exact:
  assumes "invar w" and "distinct (map fst ps)" and "fst ` set ps \<inter> ids w = {}"
    and "used w + sum_list (map snd ps) \<le> cap w" and "cap w \<le> u64_max"
  shows "used (put_all ps w) = used w + sum_list (map snd ps)
    \<and> ids (put_all ps w) = ids w \<union> fst ` set ps"
  using assms
proof (induction ps arbitrary: w)
  case Nil
  then show ?case by (simp add: put_all_def)
next
  case (Cons p ps)
  obtain i n where p: "p = (i, n)" by fastforce
  let ?w = "fst (put i n w)"
  have room: "used w + n \<le> u64_max" using Cons.prems(4,5) by (simp add: p)
  have step: "invar ?w" "used ?w = used w + n" "cap ?w = cap w" "ids ?w = insert i (ids w)"
    using Cons.prems room put_invar put_room [of w n i] put_cap put_ids [of w n i] by (auto simp: p)
  have "used (put_all ps ?w) = used ?w + sum_list (map snd ps)
      \<and> ids (put_all ps ?w) = ids ?w \<union> fst ` set ps"
    using Cons.prems step by (intro Cons.IH) (auto simp: p)
  then show ?case using step by (simp add: put_all_def p)
qed

end

section \<open>Lemmas\<close>

lemma window_ok_new [simp]: "window_ok (window_new c p)"
  by (simp add: window_ok_def window_new_def)

lemma window_new_sel:
  "w_current_tokens (window_new c p) = 0" "w_capacity (window_new c p) = c" "w_entries (window_new c p) = []"
  by (simp_all add: window_new_def)

lemma take_out_ok:
  assumes "window_ok w" and "i < length (w_entries w)"
  shows "window_ok (w\<lparr>w_entries := remove_at i (w_entries w),
    w_current_tokens := w_current_tokens w - we_token_count (w_entries w ! i)\<rparr>)"
  using assms sum_list_remove_at [OF assms(2), of we_token_count] distinct_remove_at
  unfolding window_ok_def by (auto simp: distinct_remove_at)

lemma window_ok_cong:
  "w_entries w = w_entries w' \<Longrightarrow> w_current_tokens w = w_current_tokens w' \<Longrightarrow>
   window_ok w \<longleftrightarrow> window_ok w'"
  by (simp add: window_ok_def)

lemma ids_remove_at:
  assumes "distinct (map we_content_id es)" and "i < length es"
  shows "we_content_id ` set (remove_at i es) = we_content_id ` set es - {we_content_id (es ! i)}"
proof -
  obtain ys zs where es: "es = ys @ es ! i # zs" and "remove_at i es = ys @ zs"
    using remove_at_split [OF assms(2)] by auto
  moreover have "distinct (map we_content_id (ys @ es ! i # zs))"
    using assms(1) es by simp
  then have "we_content_id (es ! i) \<notin> we_content_id ` set (ys @ zs)" by auto
  moreover have "we_content_id ` set es = insert (we_content_id (es ! i)) (we_content_id ` set (ys @ zs))"
    by (subst es) auto
  ultimately show ?thesis by auto
qed

subsection \<open>The eviction loop\<close>

lemma pick_victim_None: "pick_victim policy s p es = None \<longleftrightarrow> es = []"
  by (auto simp: pick_victim_def split: list.splits drop_policy.splits option.splits)

lemma evict_one_sel [simp]:
  "w_capacity (evict_one v rest w) = w_capacity w"
  "w_policy (evict_one v rest w) = w_policy w"
  "w_entries (evict_one v rest w) = rest"
  "w_next_sequence (evict_one v rest w) = w_next_sequence w"
  by (simp_all add: evict_one_def)

text \<open>The loop's own induction: it stops within capacity or on an empty queue, or takes out one entry.\<close>

lemma evict_induct [case_names stop step]:
  assumes stop: "\<And>w. w_current_tokens w \<le> w_capacity w \<or> w_entries w = [] \<Longrightarrow> P w w []"
    and step: "\<And>w i w' ids. w_capacity w < w_current_tokens w \<Longrightarrow> i < length (w_entries w) \<Longrightarrow>
      pick_victim (w_policy w) s p (w_entries w)
        = Some (w_entries w ! i, remove_at i (w_entries w)) \<Longrightarrow>
      P (evict_one (w_entries w ! i) (remove_at i (w_entries w)) w) w' ids \<Longrightarrow>
      P w w' (we_content_id (w_entries w ! i) # ids)"
  shows "P w (fst (evict_to_capacity s p w)) (snd (evict_to_capacity s p w))"
proof (induction "length (w_entries w)" arbitrary: w rule: less_induct)
  case less
  show ?case
  proof (cases "w_capacity w < w_current_tokens w \<and> w_entries w \<noteq> []")
    case True
    then obtain v rest where pick: "pick_victim (w_policy w) s p (w_entries w) = Some (v, rest)"
      by (cases "pick_victim (w_policy w) s p (w_entries w)") (auto simp: pick_victim_None)
    then obtain i where i: "i < length (w_entries w)" "v = w_entries w ! i"
      "rest = remove_at i (w_entries w)"
      using pick_victim_Some by blast
    have "P (evict_one v rest w) (fst (evict_to_capacity s p (evict_one v rest w)))
        (snd (evict_to_capacity s p (evict_one v rest w)))"
      by (rule less) (simp add: i(3), simp add: length_remove_at i(1), use i(1) in linarith)
    moreover have "evict_to_capacity s p w
        = (fst (evict_to_capacity s p (evict_one v rest w)),
           we_content_id v # snd (evict_to_capacity s p (evict_one v rest w)))"
      using True pick by (simp add: evict_to_capacity.simps [of s p w] case_prod_beta)
    ultimately show ?thesis using step [of w i] True pick i by simp
  next
    case False
    then have "evict_to_capacity s p w = (w, [])"
      by (auto simp: evict_to_capacity.simps [of s p w] pick_victim_def)
    then show ?thesis using stop [of w] False by auto
  qed
qed

lemma evict_cap: "w_capacity (fst (evict_to_capacity s p w)) = w_capacity w"
  by (rule evict_induct [where P = "\<lambda>w w' ids. w_capacity w' = w_capacity w"]) auto

lemma evict_one_ok:
  "window_ok w \<Longrightarrow> i < length (w_entries w) \<Longrightarrow>
   window_ok (evict_one (w_entries w ! i) (remove_at i (w_entries w)) w)"
  using take_out_ok [of w i] by (simp add: evict_one_def window_ok_def)

lemma evict_ok: "window_ok w \<Longrightarrow> window_ok (fst (evict_to_capacity s p w))"
  by (rule evict_induct [where P = "\<lambda>w w' ids. window_ok w \<longrightarrow> window_ok w'", THEN mp])
    (auto simp: evict_one_ok)

lemma window_ok_empty: "window_ok w \<Longrightarrow> w_entries w = [] \<Longrightarrow> w_current_tokens w = 0"
  by (simp add: window_ok_def)

lemma evict_fits: "window_ok w \<Longrightarrow> w_current_tokens (fst (evict_to_capacity s p w)) \<le> w_capacity w"
  by (rule evict_induct [where P = "\<lambda>w w' ids. window_ok w \<longrightarrow> w_current_tokens w' \<le> w_capacity w",
        THEN mp])
    (auto simp: evict_one_ok window_ok_empty)

lemma evict_ids:
  "window_ok w \<Longrightarrow>
   set (window_ids (fst (evict_to_capacity s p w)))
     = set (window_ids w) - set (snd (evict_to_capacity s p w))
   \<and> set (snd (evict_to_capacity s p w)) \<subseteq> set (window_ids w)
   \<and> distinct (snd (evict_to_capacity s p w))"
proof (rule evict_induct [where P = "\<lambda>w w' ids. window_ok w \<longrightarrow>
      set (window_ids w') = set (window_ids w) - set ids
      \<and> set ids \<subseteq> set (window_ids w) \<and> distinct ids", THEN mp])
  fix w i w' ids
  assume i: "i < length (w_entries w)"
    and IH: "window_ok (evict_one (w_entries w ! i) (remove_at i (w_entries w)) w) \<longrightarrow>
      set (window_ids w')
        = set (window_ids (evict_one (w_entries w ! i) (remove_at i (w_entries w)) w)) - set ids
      \<and> set ids \<subseteq> set (window_ids (evict_one (w_entries w ! i) (remove_at i (w_entries w)) w))
      \<and> distinct ids"
  show "window_ok w \<longrightarrow>
      set (window_ids w') = set (window_ids w) - set (we_content_id (w_entries w ! i) # ids)
      \<and> set (we_content_id (w_entries w ! i) # ids) \<subseteq> set (window_ids w)
      \<and> distinct (we_content_id (w_entries w ! i) # ids)"
  proof
    assume ok: "window_ok w"
    have r: "we_content_id ` set (remove_at i (w_entries w))
        = we_content_id ` set (w_entries w) - {we_content_id (w_entries w ! i)}"
      using ok i by (intro ids_remove_at) (auto simp: window_ok_def)
    have m: "we_content_id (w_entries w ! i) \<in> we_content_id ` set (w_entries w)"
      using i by simp
    from IH evict_one_ok [OF ok i] have
      "we_content_id ` set (w_entries w')
         = we_content_id ` set (w_entries w) - {we_content_id (w_entries w ! i)} - set ids"
      "set ids \<subseteq> we_content_id ` set (w_entries w) - {we_content_id (w_entries w ! i)}"
      "distinct ids"
      unfolding r [symmetric] by simp_all
    with m show "set (window_ids w')
        = set (window_ids w) - set (we_content_id (w_entries w ! i) # ids)
      \<and> set (we_content_id (w_entries w ! i) # ids) \<subseteq> set (window_ids w)
      \<and> distinct (we_content_id (w_entries w ! i) # ids)"
      by auto
  qed
qed auto

lemma remove_at_0 [simp]: "remove_at 0 (x # xs) = xs"
  by (simp add: remove_at_def)

lemma pick_front:
  "policy \<noteq> Fsrs \<or> s = None \<Longrightarrow> pick_victim policy s p (e # es) = Some (e, es)"
  by (auto simp: pick_victim_def split: drop_policy.splits option.splits)

lemma fitting_suffix_fits: "tokens_of es \<le> cap \<Longrightarrow> fitting_suffix cap es = es"
  by (cases es) auto

lemma evict_front:
  assumes "window_ok w" and "w_policy w \<noteq> Fsrs \<or> s = None"
  shows "w_entries (fst (evict_to_capacity s p w)) = fitting_suffix (w_capacity w) (w_entries w)
    \<and> w_entries w = take (length (snd (evict_to_capacity s p w))) (w_entries w)
        @ fitting_suffix (w_capacity w) (w_entries w)
    \<and> snd (evict_to_capacity s p w)
        = map we_content_id (take (length (snd (evict_to_capacity s p w))) (w_entries w))"
proof (rule evict_induct [where P = "\<lambda>w w' ids. window_ok w \<and> (w_policy w \<noteq> Fsrs \<or> s = None) \<longrightarrow>
      w_entries w' = fitting_suffix (w_capacity w) (w_entries w)
      \<and> w_entries w = take (length ids) (w_entries w) @ fitting_suffix (w_capacity w) (w_entries w)
      \<and> ids = map we_content_id (take (length ids) (w_entries w))", THEN mp])
  show "window_ok w \<and> (w_policy w \<noteq> Fsrs \<or> s = None)" using assms by blast
next
  fix w :: window
  assume "w_current_tokens w \<le> w_capacity w \<or> w_entries w = []"
  then show "window_ok w \<and> (w_policy w \<noteq> Fsrs \<or> s = None) \<longrightarrow>
      w_entries w = fitting_suffix (w_capacity w) (w_entries w)
      \<and> w_entries w = take (length []) (w_entries w) @ fitting_suffix (w_capacity w) (w_entries w)
      \<and> [] = map we_content_id (take (length []) (w_entries w))"
    by (auto simp: window_ok_def fitting_suffix_fits)
next
  fix w i w' ids
  let ?w1 = "evict_one (w_entries w ! i) (remove_at i (w_entries w)) w"
  assume over: "w_capacity w < w_current_tokens w" and i: "i < length (w_entries w)"
    and pick: "pick_victim (w_policy w) s p (w_entries w)
        = Some (w_entries w ! i, remove_at i (w_entries w))"
    and IH: "window_ok ?w1 \<and> (w_policy ?w1 \<noteq> Fsrs \<or> s = None) \<longrightarrow>
      w_entries w' = fitting_suffix (w_capacity ?w1) (w_entries ?w1)
      \<and> w_entries ?w1 = take (length ids) (w_entries ?w1)
          @ fitting_suffix (w_capacity ?w1) (w_entries ?w1)
      \<and> ids = map we_content_id (take (length ids) (w_entries ?w1))"
  let ?ids = "we_content_id (w_entries w ! i) # ids"
  show "window_ok w \<and> (w_policy w \<noteq> Fsrs \<or> s = None) \<longrightarrow>
      w_entries w' = fitting_suffix (w_capacity w) (w_entries w)
      \<and> w_entries w = take (length ?ids) (w_entries w) @ fitting_suffix (w_capacity w) (w_entries w)
      \<and> ?ids = map we_content_id (take (length ?ids) (w_entries w))"
  proof
    assume pre: "window_ok w \<and> (w_policy w \<noteq> Fsrs \<or> s = None)"
    obtain e es where es: "w_entries w = e # es" using i by (cases "w_entries w") auto
    with pick pick_front [of "w_policy w" s p e es] pre
    have front: "w_entries w ! i = e" "remove_at i (w_entries w) = es" by auto
    have "fitting_suffix (w_capacity w) (w_entries w) = fitting_suffix (w_capacity w) es"
      using over pre es by (auto simp: window_ok_def)
    moreover have "window_ok ?w1" using pre i by (intro evict_one_ok) auto
    ultimately show "w_entries w' = fitting_suffix (w_capacity w) (w_entries w)
      \<and> w_entries w = take (length ?ids) (w_entries w) @ fitting_suffix (w_capacity w) (w_entries w)
      \<and> ?ids = map we_content_id (take (length ?ids) (w_entries w))"
      using IH pre front es by simp
  qed
qed

subsection \<open>The operations\<close>

lemma drop_previous_sel [simp]:
  "w_capacity (drop_previous c w) = w_capacity w"
  "w_policy (drop_previous c w) = w_policy w"
  "w_next_sequence (drop_previous c w) = w_next_sequence w"
  "w_evicted_count (drop_previous c w) = w_evicted_count w"
  by (auto simp: drop_previous_def split: option.splits)

lemma drop_previous_ok: "window_ok w \<Longrightarrow> window_ok (drop_previous c w)"
  by (auto simp: drop_previous_def take_out_ok dest: position_Some split: option.splits)

lemma drop_previous_entries:
  assumes "distinct (window_ids w)"
  shows "w_entries (drop_previous c w) = filter (\<lambda>e. we_content_id e \<noteq> c) (w_entries w)"
proof (cases "position (\<lambda>e. we_content_id e = c) (w_entries w)")
  case None
  then have "filter (\<lambda>e. we_content_id e \<noteq> c) (w_entries w) = w_entries w"
    by (simp add: position_None filter_id_conv)
  with None show ?thesis by (simp add: drop_previous_def)
next
  case (Some i)
  then have i: "i < length (w_entries w)" "we_content_id (w_entries w ! i) = c"
    using position_Some by fastforce+
  obtain ys zs where sp: "w_entries w = ys @ w_entries w ! i # zs"
    "remove_at i (w_entries w) = ys @ zs"
    using remove_at_split [OF i(1)] by auto
  have "distinct (map we_content_id (ys @ w_entries w ! i # zs))" using assms sp by simp
  then have "c \<notin> we_content_id ` set (ys @ zs)" using i(2) by auto
  then have "filter (\<lambda>e. we_content_id e \<noteq> c) (ys @ zs) = ys @ zs"
    by (intro filter_True) auto
  then have "filter (\<lambda>e. we_content_id e \<noteq> c) (ys @ w_entries w ! i # zs) = ys @ zs"
    using i(2) by simp
  with sp show ?thesis by (simp add: drop_previous_def Some)
qed

lemma drop_previous_tokens: "w_current_tokens (drop_previous c w) \<le> w_current_tokens w"
  by (auto simp: drop_previous_def split: option.splits)

text \<open>The state in which the eviction loop of a record starts.\<close>

lemma push_ok:
  assumes "window_ok w" and "w_current_tokens w + n \<le> u64_max"
  shows "window_ok (push_entry c n (drop_previous c w))"
    and "window_ids (push_entry c n (drop_previous c w))
      = map we_content_id (filter (\<lambda>e. we_content_id e \<noteq> c) (w_entries w)) @ [c]"
proof -
  have d: "distinct (window_ids w)" using assms(1) by (simp add: window_ok_def)
  have t: "w_current_tokens (drop_previous c w) + n \<le> u64_max"
    using drop_previous_tokens [of c w] assms(2) by simp
  show "window_ok (push_entry c n (drop_previous c w))"
    using drop_previous_ok [OF assms(1), of c] t drop_previous_entries [OF d, of c]
    by (auto simp: window_ok_def push_entry_def add_u64_exact)
  show "window_ids (push_entry c n (drop_previous c w))
      = map we_content_id (filter (\<lambda>e. we_content_id e \<noteq> c) (w_entries w)) @ [c]"
    by (simp add: push_entry_def drop_previous_entries [OF d])
qed

lemma push_sel [simp]:
  "w_capacity (push_entry c n w) = w_capacity w" "w_policy (push_entry c n w) = w_policy w"
  by (simp_all add: push_entry_def)

lemma record_cap [simp]: "w_capacity (fst (record_with_scores c n s w)) = w_capacity w"
  by (simp add: record_with_scores_def evict_cap)

lemma record_ok:
  "window_ok w \<Longrightarrow> w_current_tokens w + n \<le> u64_max \<Longrightarrow>
   window_ok (fst (record_with_scores c n s w))
   \<and> w_current_tokens (fst (record_with_scores c n s w)) \<le> w_capacity w"
  using evict_ok [OF push_ok(1)] evict_fits [OF push_ok(1)]
  by (metis drop_previous_sel(1) push_sel(1) record_with_scores_def)

lemma record_ids:
  assumes "window_ok w" and "w_current_tokens w + n \<le> u64_max"
  shows "set (window_ids (fst (record_with_scores c n s w)))
      = insert c (set (window_ids w)) - set (snd (record_with_scores c n s w))
    \<and> set (snd (record_with_scores c n s w)) \<subseteq> insert c (set (window_ids w))
    \<and> distinct (snd (record_with_scores c n s w))"
proof -
  have "set (window_ids (push_entry c n (drop_previous c w))) = insert c (set (window_ids w))"
    using push_ok(2) [OF assms, of c] by auto
  with evict_ids [OF push_ok(1) [OF assms, of c], of s "Some c"] show ?thesis
    by (simp add: record_with_scores_def)
qed

lemma touch_ok: "window_ok w \<Longrightarrow> window_ok (window_touch c w)"
proof (cases "w_policy w = Lru \<and> position (\<lambda>e. we_content_id e = c) (w_entries w) \<noteq> None")
  case True
  then obtain i where pos: "position (\<lambda>e. we_content_id e = c) (w_entries w) = Some i" by auto
  then have i: "i < length (w_entries w)" using position_Some by fastforce
  assume ok: "window_ok w"
  have d: "distinct (map we_content_id (remove_at i (w_entries w)))"
    using ok by (simp add: window_ok_def distinct_remove_at)
  moreover have "we_content_id (w_entries w ! i) \<notin> we_content_id ` set (remove_at i (w_entries w))"
    using ids_remove_at [of "w_entries w" i] ok i by (simp add: window_ok_def)
  ultimately show ?thesis
    using ok True pos sum_list_remove_at [OF i, of we_token_count]
    by (simp add: window_touch_def window_ok_def)
next
  case False
  then show "window_ok w \<Longrightarrow> ?thesis" by (auto simp: window_touch_def split: option.splits)
qed

lemma touch_sel [simp]:
  "w_capacity (window_touch c w) = w_capacity w"
  "w_current_tokens (window_touch c w) = w_current_tokens w"
  by (auto simp: window_touch_def split: option.splits)

lemma force_evict_ok: "window_ok w \<Longrightarrow> window_ok (fst (force_evict c w))"
  using take_out_ok [of w] by (auto simp: force_evict_def window_ok_def [of "_\<lparr>w_evicted_count := _\<rparr>"]
      window_ok_def dest!: position_Some split: option.splits)

lemma force_evict_sel:
  "w_capacity (fst (force_evict c w)) = w_capacity w"
  "w_current_tokens (fst (force_evict c w)) \<le> w_current_tokens w"
  by (auto simp: force_evict_def split: option.splits)

lemma window_step_ok:
  assumes "window_ok w" and "w_current_tokens w \<le> w_capacity w"
    and "w_capacity w + op_tokens x \<le> u64_max"
  shows "window_ok (window_step x w) \<and> w_current_tokens (window_step x w) \<le> w_capacity (window_step x w)
    \<and> w_capacity (window_step x w) = w_capacity w"
  using assms record_ok [of w "op_tokens x"] touch_ok [of w] force_evict_ok [of w]
    force_evict_sel [of _ w]
  by (cases x) (auto intro: order_trans [of _ "w_current_tokens w"])

lemma pick_keeps_last:
  assumes pick: "pick_victim policy s (Some c) es = Some (v, rest)"
    and two: "1 < length es" and c: "we_content_id (last es) = c"
    and le: "\<And>m i r. s = Some m \<Longrightarrow> m i = Some r \<Longrightarrow> r \<le> 1"
  shows "rest \<noteq> [] \<and> last rest = last es"
proof -
  have *: "remove_at i es \<noteq> [] \<and> last (remove_at i es) = last es" if "Suc i < length es" for i
    using that by (auto simp: remove_at_def)
  show ?thesis
  proof (cases "policy = Fsrs \<and> s \<noteq> None")
    case True
    then obtain m where m: "s = Some m" by auto
    let ?f = "\<lambda>p. score_for m (Some c) (we_content_id (snd p))"
    obtain i where i: "min_by (\<lambda>a b. ?f b < ?f a) (enumerate 0 es) = Some (i, v)"
      "rest = remove_at i es"
      using pick True m by (auto simp: pick_victim_def case_prod_unfold simp del: min_by.simps
          split: list.splits)
    have one: "?f p \<le> 1" for p
      using le [OF m] by (auto simp: score_for_def split: option.splits)
    obtain ys zs where sp: "enumerate 0 es = ys @ (i, v) # zs" "\<forall>y \<in> set ys. ?f (i, v) < ?f y"
      using min_by_first [OF i(1)] by auto
    have len: "length ys = i"
      using arg_cong [OF sp(1), of "\<lambda>xs. fst (xs ! length ys)"] arg_cong [OF sp(1), of length]
      by (simp add: nth_enumerate_eq)
    have "v = es ! i"
      using arg_cong [OF sp(1), of "\<lambda>xs. snd (xs ! length ys)"] arg_cong [OF sp(1), of length] len
      by (simp add: nth_enumerate_eq nth_append)
    then have "Suc i \<noteq> length es"
    proof (intro notI)
      assume last: "v = es ! i" "Suc i = length es"
      then have "?f (i, v) = 1" using c by (cases es rule: rev_cases) (auto simp: score_for_def)
      moreover have "ys \<noteq> []" using len last two by auto
      ultimately show False using sp(2) one by (metis ex_in_conv not_less set_empty2)
    qed
    moreover have "i < length es" using arg_cong [OF sp(1), of length] len by simp
    ultimately show ?thesis using * i(2) by simp
  next
    case False
    with pick two * [of 0] show ?thesis
      by (cases es) (auto simp: pick_front)
  qed
qed

lemma evict_keeps_last:
  assumes le: "\<And>m i r. s = Some m \<Longrightarrow> m i = Some r \<Longrightarrow> r \<le> 1"
  shows "window_ok w \<and> w_entries w \<noteq> [] \<and> we_content_id (last (w_entries w)) = c
      \<and> we_token_count (last (w_entries w)) \<le> w_capacity w \<longrightarrow>
    w_entries (fst (evict_to_capacity s (Some c) w)) \<noteq> []
      \<and> last (w_entries (fst (evict_to_capacity s (Some c) w))) = last (w_entries w)"
proof (rule evict_induct [where P = "\<lambda>w w' ids. window_ok w \<and> w_entries w \<noteq> []
      \<and> we_content_id (last (w_entries w)) = c
      \<and> we_token_count (last (w_entries w)) \<le> w_capacity w \<longrightarrow>
      w_entries w' \<noteq> [] \<and> last (w_entries w') = last (w_entries w)"])
  fix w i w' ids
  let ?w1 = "evict_one (w_entries w ! i) (remove_at i (w_entries w)) w"
  assume over: "w_capacity w < w_current_tokens w" and i: "i < length (w_entries w)"
    and pick: "pick_victim (w_policy w) s (Some c) (w_entries w)
        = Some (w_entries w ! i, remove_at i (w_entries w))"
    and IH: "window_ok ?w1 \<and> w_entries ?w1 \<noteq> [] \<and> we_content_id (last (w_entries ?w1)) = c
      \<and> we_token_count (last (w_entries ?w1)) \<le> w_capacity ?w1 \<longrightarrow>
      w_entries w' \<noteq> [] \<and> last (w_entries w') = last (w_entries ?w1)"
  show "window_ok w \<and> w_entries w \<noteq> [] \<and> we_content_id (last (w_entries w)) = c
      \<and> we_token_count (last (w_entries w)) \<le> w_capacity w \<longrightarrow>
      w_entries w' \<noteq> [] \<and> last (w_entries w') = last (w_entries w)"
  proof (intro impI, elim conjE)
    assume pre: "window_ok w" "we_content_id (last (w_entries w)) = c"
      "we_token_count (last (w_entries w)) \<le> w_capacity w"
    have "1 < length (w_entries w)"
    proof (rule ccontr)
      assume "\<not> 1 < length (w_entries w)"
      with i obtain e where "w_entries w = [e]" by (cases "w_entries w") auto
      with pre over show False by (simp add: window_ok_def)
    qed
    from pick_keeps_last [OF pick this pre(2) le] IH evict_one_ok [OF pre(1) i] pre
    show "w_entries w' \<noteq> [] \<and> last (w_entries w') = last (w_entries w)" by simp
  qed
qed auto

lemma record_keeps_new:
  assumes "window_ok w" and "w_current_tokens w + n \<le> u64_max" and "n \<le> w_capacity w"
    and le: "\<And>m i r. s = Some m \<Longrightarrow> m i = Some r \<Longrightarrow> r \<le> 1"
  shows "is_in_window c (fst (record_with_scores c n s w))
    \<and> c \<notin> set (snd (record_with_scores c n s w))
    \<and> last (w_entries (fst (record_with_scores c n s w)))
        = \<lparr>we_content_id = c, we_token_count = n, we_sequence = w_next_sequence w\<rparr>"
proof -
  let ?r = "record_with_scores c n s w"
  have "w_entries (fst ?r) \<noteq> [] \<and> last (w_entries (fst ?r))
      = \<lparr>we_content_id = c, we_token_count = n, we_sequence = w_next_sequence w\<rparr>"
    using evict_keeps_last [where s = s and w = "push_entry c n (drop_previous c w)" and c = c, OF le] assms(3)
      push_ok(1) [OF assms(1,2), of c]
    by (auto simp: record_with_scores_def push_entry_def)
  moreover from this have "c \<in> set (window_ids (fst ?r))"
    by (metis image_eqI last_in_set list.set_map window_entry.select_convs(1))
  moreover from this record_ids [OF assms(1,2), of c s] have "c \<notin> set (snd ?r)" by blast
  ultimately show ?thesis by (auto simp: is_in_window_def list_ex_iff)
qed

lemma record_room:
  assumes "window_ok w" and "w_current_tokens w + n \<le> u64_max" and "c \<notin> set (window_ids w)"
    and "w_current_tokens w + n \<le> w_capacity w"
  shows "w_current_tokens (fst (record_with_scores c n s w)) = w_current_tokens w + n
    \<and> snd (record_with_scores c n s w) = []"
proof -
  have "drop_previous c w = w"
    using assms(3) by (auto simp: drop_previous_def dest!: position_Some split: option.splits)
  with assms show ?thesis
    by (simp add: record_with_scores_def push_entry_def evict_to_capacity.simps add_u64_exact)
qed

interpretation estimator: token_window window_ok w_current_tokens w_capacity
    "\<lambda>w. set (window_ids w)" window_record
proof
  fix w i n
  show "w_capacity (fst (window_record i n w)) = w_capacity w" by (simp add: window_record_def)
  assume ok: "window_ok w" "w_current_tokens w + n \<le> u64_max"
  show "window_ok (fst (window_record i n w))"
    "w_current_tokens (fst (window_record i n w)) \<le> w_capacity w"
    using record_ok [OF ok] by (simp_all add: window_record_def)
  show "set (window_ids (fst (window_record i n w)))
      = insert i (set (window_ids w)) - set (snd (window_record i n w))"
    using record_ids [OF ok] by (simp add: window_record_def)
  show "w_current_tokens (fst (window_record i n w)) = w_current_tokens w + n \<and> snd (window_record i n w) = []"
    if "i \<notin> set (window_ids w)" "w_current_tokens w + n \<le> w_capacity w"
    using record_room [OF ok that] by (simp add: window_record_def)
qed

section \<open>Properties\<close>

text \<open>
  C17. Whatever sequence of records (with any retrievability scores), touches and forced evictions
  is run on a fresh estimator, the estimate never exceeds the capacity and is exactly the
  sum of the token counts of the entries kept, which have distinct content ids, so the
  saturating subtractions never lose tokens; the counters do not wrap as long as
  capacity plus one delivery fits the machine word.
\<close>

theorem window_run_exact:
  assumes "\<forall>x \<in> set ops. cap + op_tokens x \<le> u64_max"
  shows "let w = fold window_step ops (window_new cap policy) in
    estimated_used w \<le> cap \<and> estimated_used w = tokens_of (w_entries w)
    \<and> distinct (window_ids w) \<and> w_capacity w = cap
    \<and> estimated_used w + estimated_remaining w = cap"
proof -
  have "window_ok w \<and> w_current_tokens w \<le> w_capacity w \<and> w_capacity w = cap \<Longrightarrow>
      window_ok (fold window_step ops w)
      \<and> w_current_tokens (fold window_step ops w) \<le> w_capacity (fold window_step ops w)
      \<and> w_capacity (fold window_step ops w) = cap" for w
    using assms
  proof (induction ops arbitrary: w)
    case (Cons x xs)
    from Cons.prems window_step_ok [of w x] have
      "window_ok (window_step x w) \<and> w_current_tokens (window_step x w) \<le> w_capacity (window_step x w)
        \<and> w_capacity (window_step x w) = cap" by simp
    from Cons.IH [OF this] Cons.prems(2) show ?case by simp
  qed simp
  from this [of "window_new cap policy"] show ?thesis
    by (auto simp: Let_def window_ok_def window_new_def estimated_used_def
        estimated_remaining_def)
qed

lemma window_run_exact_witness:
  "estimated_used (fold window_step [WRecord ''a'' 3 None, WRecord ''b'' 4 None, WTouch ''a'',
      WRecord ''c'' 5 None, WForceEvict ''a''] (window_new 8 Lru)) \<le> 8"
  using window_run_exact [of "[WRecord ''a'' 3 None, WRecord ''b'' 4 None, WTouch ''a'',
      WRecord ''c'' 5 None, WForceEvict ''a'']" 8 Lru]
  by (simp add: Let_def u64_max_def)

text \<open>
  C20. Under FIFO and LRU (and under FSRS without scores) recording a delivery leaves the
  longest suffix of the queue that fits the capacity, after the entry of the same content was
  replaced by a new one at the back; the ids returned are exactly those of the prefix
  cut off, oldest first.
\<close>

theorem record_is_fitting_suffix:
  assumes "window_ok w" and "w_current_tokens w + n \<le> u64_max"
    and "w_policy w \<noteq> Fsrs \<or> s = None"
  shows "let queue = filter (\<lambda>e. we_content_id e \<noteq> c) (w_entries w)
        @ [\<lparr>we_content_id = c, we_token_count = n, we_sequence = w_next_sequence w\<rparr>];
      kept = fitting_suffix (w_capacity w) queue;
      (w', evicted) = record_with_scores c n s w
    in w_entries w' = kept
      \<and> (\<exists>cut. queue = cut @ kept \<and> evicted = map we_content_id cut)"
proof -
  have d: "distinct (window_ids w)" using assms(1) by (simp add: window_ok_def)
  have q: "w_entries (push_entry c n (drop_previous c w))
      = filter (\<lambda>e. we_content_id e \<noteq> c) (w_entries w)
        @ [\<lparr>we_content_id = c, we_token_count = n, we_sequence = w_next_sequence w\<rparr>]"
    by (simp add: push_entry_def drop_previous_entries [OF d])
  have p: "w_policy (push_entry c n (drop_previous c w)) \<noteq> Fsrs \<or> s = None"
    using assms(3) by simp
  from evict_front [OF push_ok(1) [OF assms(1,2), of c] p, of "Some c"]
  show ?thesis
    unfolding Let_def case_prod_beta record_with_scores_def q push_sel drop_previous_sel
    by blast
qed

lemma record_is_fitting_suffix_witness:
  "w_entries (fst (record_with_scores ''b'' 6 None
      (fst (window_record ''a'' 5 (window_new 10 Lru)))))
    = [\<lparr>we_content_id = ''b'', we_token_count = 6, we_sequence = 1\<rparr>]"
proof -
  let ?w = "fst (window_record ''a'' 5 (window_new 10 Lru))"
  have w: "?w = \<lparr>w_capacity = 10, w_policy = Lru, w_entries =
      [\<lparr>we_content_id = ''a'', we_token_count = 5, we_sequence = 0\<rparr>], w_current_tokens = 5,
      w_next_sequence = 1, w_evicted_count = 0\<rparr>"
    by (simp add: window_record_def record_with_scores_def window_new_def drop_previous_def
        push_entry_def evict_to_capacity.simps add_u64_def u64_max_def)
  show ?thesis
    unfolding w using record_is_fitting_suffix [of "?w" 6 None "''b''"] unfolding w
    by (simp add: Let_def case_prod_beta window_ok_def u64_max_def)
qed

text \<open>
  A delivery that fits the capacity on its own is in the window after it was
  recorded, as its newest entry, under every policy, FSRS included: with scores that are
  probabilities the eviction loop never takes the entry just inserted.
\<close>

theorem recorded_stays:
  assumes "window_ok w" and "w_current_tokens w + n \<le> u64_max" and "n \<le> w_capacity w"
    and "\<forall>m i r. s = Some m \<and> m i = Some r \<longrightarrow> r \<le> 1"
  shows "is_in_window c (fst (record_with_scores c n s w))
    \<and> c \<notin> set (snd (record_with_scores c n s w))
    \<and> last (w_entries (fst (record_with_scores c n s w)))
        = \<lparr>we_content_id = c, we_token_count = n, we_sequence = w_next_sequence w\<rparr>"
  using record_keeps_new [OF assms(1-3), of s c] assms(4) by blast

lemma recorded_stays_witness:
  "is_in_window ''b'' (fst (record_with_scores ''b'' 6 (Some [''a'' \<mapsto> 1])
      (fst (window_record ''a'' 5 (window_new 10 Fsrs)))))"
proof -
  have "w_current_tokens (fst (window_record ''a'' 5 (window_new 10 Fsrs))) \<le> 10
      \<and> window_ok (fst (window_record ''a'' 5 (window_new 10 Fsrs)))"
    using record_ok [of "window_new 10 Fsrs" 5 "''a''" None]
    by (simp add: window_record_def window_ok_def window_new_def u64_max_def)
  then show ?thesis
    using recorded_stays [of "fst (window_record ''a'' 5 (window_new 10 Fsrs))" 6 "Some [''a'' \<mapsto> 1]" "''b''"]
    by (simp add: u64_max_def window_record_def window_new_def split: if_splits)
qed

end
