(* ===== verification/Session.thy ===== *)
theory Session
  imports Prelude Identity Float_Model Window
begin

text \<open>
  The session shadow, \<open>ministr-core/src/session/types.rs\<close>: what was delivered to
  an agent, under which identity, what of it is stale, the alerts waiting for the agent, the
  access trajectory and the cumulative metrics. \<open>delivered\<close> is a \<open>BTreeMap\<close>, so
  \<open>find\<close> and \<open>values\<close> visit the items in the order of their serialized keys; the stale and
  flushed sets are hash sets. Mutating methods return the new session, with their result beside it
  where they have one. An \<open>Instant\<close> is a number of clock ticks handed in by the caller.
\<close>

section \<open>Metrics, alerts and delivered items\<close>

record session_metrics =
  sm_total_deliveries :: nat
  sm_cumulative_tokens_delivered :: nat
  sm_total_evictions :: nat
  sm_cumulative_tokens_evicted :: nat
  sm_total_compressions :: nat
  sm_cumulative_tokens_compressed :: nat
  sm_delta_updates :: nat
  sm_dedup_hits :: nat
  sm_cumulative_tokens_deduplicated :: nat
  sm_cumulative_bytes_deduplicated :: nat

definition metrics_default :: session_metrics where
  "metrics_default =
     \<lparr>sm_total_deliveries = 0, sm_cumulative_tokens_delivered = 0, sm_total_evictions = 0,
      sm_cumulative_tokens_evicted = 0, sm_total_compressions = 0,
      sm_cumulative_tokens_compressed = 0, sm_delta_updates = 0, sm_dedup_hits = 0,
      sm_cumulative_tokens_deduplicated = 0, sm_cumulative_bytes_deduplicated = 0\<rparr>"

definition total_tokens_saved :: "session_metrics \<Rightarrow> nat" where
  "total_tokens_saved m =
     add_u64 (add_u64 (sm_cumulative_tokens_evicted m) (sm_cumulative_tokens_compressed m))
       (sm_cumulative_tokens_deduplicated m)"

definition compression_ratio :: "session_metrics \<Rightarrow> f64" where
  "compression_ratio m =
     (if sm_cumulative_tokens_delivered m = 0 then 0
      else fdiv (f64_of_nat (total_tokens_saved m))
             (f64_of_nat (sm_cumulative_tokens_delivered m)))"

record coherence_alert =
  ca_changed_sections :: "string list"
  ca_stale_content_ids :: "string list"
  ca_stale_identities :: "delivery_identity list"

datatype access_mode = ReadWrite | ReadOnly

datatype compression_tier = Full | Abstractive | Extractive | Bookmark | Evicted

text \<open>The discriminants, which the derived \<open>Ord\<close> compares.\<close>

fun tier_rank :: "compression_tier \<Rightarrow> nat" where
  "tier_rank Full = 0"
| "tier_rank Abstractive = 1"
| "tier_rank Extractive = 2"
| "tier_rank Bookmark = 3"
| "tier_rank Evicted = 4"

instantiation compression_tier :: linorder
begin

definition less_eq_compression_tier :: "compression_tier \<Rightarrow> compression_tier \<Rightarrow> bool" where
  "less_eq_compression_tier a b = (tier_rank a \<le> tier_rank b)"

definition less_compression_tier :: "compression_tier \<Rightarrow> compression_tier \<Rightarrow> bool" where
  "less_compression_tier a b = (tier_rank a < tier_rank b)"

instance
proof
  fix a b c :: compression_tier
  show "a < b \<longleftrightarrow> a \<le> b \<and> \<not> b \<le> a" "a \<le> a" "a \<le> b \<or> b \<le> a"
    by (auto simp: less_eq_compression_tier_def less_compression_tier_def)
  show "a \<le> b \<Longrightarrow> b \<le> c \<Longrightarrow> a \<le> c" by (simp add: less_eq_compression_tier_def)
  show "a \<le> b \<Longrightarrow> b \<le> a \<Longrightarrow> a = b"
    by (cases a; cases b) (simp_all add: less_eq_compression_tier_def)
qed

end

fun retention_ratio :: "compression_tier \<Rightarrow> f64" where
  "retention_ratio Full = 1"
| "retention_ratio Extractive = rnd64 (30 / 100)"
| "retention_ratio Abstractive = rnd64 (10 / 100)"
| "retention_ratio Bookmark = 0"
| "retention_ratio Evicted = 0"

fun tier_as_str :: "compression_tier \<Rightarrow> string" where
  "tier_as_str Full = ''full''"
| "tier_as_str Abstractive = ''abstractive''"
| "tier_as_str Extractive = ''extractive''"
| "tier_as_str Bookmark = ''bookmark''"
| "tier_as_str Evicted = ''evicted''"

definition tier_from_str_or_full :: "string \<Rightarrow> compression_tier" where
  "tier_from_str_or_full s =
     (if s = ''abstractive'' then Abstractive
      else if s = ''extractive'' then Extractive
      else if s = ''bookmark'' then Bookmark
      else if s = ''evicted'' then Evicted
      else Full)"

record delivered_item =
  it_content_id :: string
  it_resolution :: resolution
  it_corpus_id :: string
  it_delivery_resolution :: string
  it_token_count :: nat
  it_turn_delivered :: nat
  it_content_hash :: string
  it_compression_tier :: compression_tier
  it_compressed_summary :: "string option"

definition item_identity :: "delivered_item \<Rightarrow> delivery_identity" where
  "item_identity it =
     di_new (it_corpus_id it) (it_content_id it)
       (if it_delivery_resolution it = [] then resolution_str (it_resolution it)
        else it_delivery_resolution it)"

section \<open>The session\<close>

record session =
  s_id :: string
  s_created_at :: nat
  s_agent_context_budget :: nat
  s_eviction_policy :: drop_policy
  s_delivered :: "(string, delivered_item) btree"
  s_trajectory :: "delivery_identity list"
  s_current_turn :: nat
  s_stale :: "string list"
  s_pending_alerts :: "coherence_alert list"
  s_recent_queries :: "string list"
  s_metrics :: session_metrics
  s_co_access_flushed_ids :: "string list"

definition MAX_TRAJECTORY_LEN :: nat where
  "MAX_TRAJECTORY_LEN = 1000"

definition MAX_RECENT_QUERIES :: nat where
  "MAX_RECENT_QUERIES = 10"

definition session_new :: "nat \<Rightarrow> string \<Rightarrow> nat \<Rightarrow> drop_policy \<Rightarrow> session" where
  "session_new now i budget policy =
     \<lparr>s_id = i, s_created_at = now, s_agent_context_budget = budget,
      s_eviction_policy = policy, s_delivered = [], s_trajectory = [], s_current_turn = 0,
      s_stale = [], s_pending_alerts = [], s_recent_queries = [],
      s_metrics = metrics_default, s_co_access_flushed_ids = []\<rparr>"

abbreviation primary_item :: "string \<Rightarrow> delivered_item \<Rightarrow> bool" where
  "primary_item content_id it \<equiv> it_corpus_id it = PRIMARY_CORPUS_ID \<and> it_content_id it = content_id"

abbreviation delivered_values :: "session \<Rightarrow> delivered_item list" where
  "delivered_values s \<equiv> map snd (s_delivered s)"

abbreviation delivered_keys :: "session \<Rightarrow> string set" where
  "delivered_keys s \<equiv> fst ` set (s_delivered s)"

definition resolve_legacy ::
  "(string, delivered_item) btree \<Rightarrow> delivery_identity \<Rightarrow> delivery_identity" where
  "resolve_legacy delivered d =
     (if di_resolution d = ''legacy'' then
        (case find (\<lambda>it. it_corpus_id it = di_corpus_id d \<and> it_content_id it = di_content_id d)
                (map snd delivered) of
           Some it \<Rightarrow> item_identity it
         | None \<Rightarrow> d)
      else d)"

definition max_delivered_turn :: "(string, delivered_item) btree \<Rightarrow> nat" where
  "max_delivered_turn delivered = fold max (map (it_turn_delivered \<circ> snd) delivered) 0"

definition session_restore ::
  "json_codec \<Rightarrow> nat \<Rightarrow> string \<Rightarrow> nat \<Rightarrow> drop_policy \<Rightarrow> (string, delivered_item) btree
     \<Rightarrow> delivery_identity list \<Rightarrow> nat \<Rightarrow> session" where
  "session_restore J now i budget policy delivered trajectory current_turn =
     (let delivered = bt_collect (map (\<lambda>it. (storage_key J (item_identity it), it))
                                    (map snd delivered));
          trajectory = map (resolve_legacy delivered) trajectory;
          current_turn = max current_turn (max_delivered_turn delivered);
          skip = length trajectory - MAX_TRAJECTORY_LEN;
          trajectory = drop skip trajectory
      in \<lparr>s_id = i, s_created_at = now, s_agent_context_budget = budget,
          s_eviction_policy = policy, s_delivered = delivered, s_trajectory = trajectory,
          s_current_turn = current_turn, s_stale = [], s_pending_alerts = [],
          s_recent_queries = [], s_metrics = metrics_default,
          s_co_access_flushed_ids = fold hs_insert (map (storage_key J) trajectory) []\<rparr>)"

definition record_delivery_identity ::
  "json_codec \<Rightarrow> delivery_identity \<Rightarrow> resolution \<Rightarrow> nat \<Rightarrow> nat \<Rightarrow> string \<Rightarrow> session \<Rightarrow> session" where
  "record_delivery_identity J d res token_count turn content_hash s =
     (let trajectory = s_trajectory s @ [d];
          trajectory = (if MAX_TRAJECTORY_LEN < length trajectory then tl trajectory
                        else trajectory);
          m = s_metrics s;
          item = \<lparr>it_content_id = di_content_id d, it_resolution = res,
                  it_corpus_id = di_corpus_id d, it_delivery_resolution = di_resolution d,
                  it_token_count = token_count, it_turn_delivered = turn,
                  it_content_hash = content_hash, it_compression_tier = Full,
                  it_compressed_summary = None\<rparr>;
          key = storage_key J d
      in s\<lparr>s_current_turn := max (s_current_turn s) turn,
           s_trajectory := trajectory,
           s_metrics := m\<lparr>sm_total_deliveries := add_u64 (sm_total_deliveries m) 1,
             sm_cumulative_tokens_delivered :=
               add_u64 (sm_cumulative_tokens_delivered m) token_count\<rparr>,
           s_delivered := bt_insert key item (s_delivered s),
           s_stale := hs_remove key (s_stale s)\<rparr>)"

definition record_delivery ::
  "json_codec \<Rightarrow> string \<Rightarrow> resolution \<Rightarrow> nat \<Rightarrow> nat \<Rightarrow> string \<Rightarrow> session \<Rightarrow> session" where
  "record_delivery J content_id res token_count turn content_hash s =
     record_delivery_identity J (di_primary content_id (resolution_str res)) res token_count turn
       content_hash s"

subsection \<open>Queries\<close>

definition is_delivered :: "string \<Rightarrow> session \<Rightarrow> bool" where
  "is_delivered content_id s = list_ex (primary_item content_id) (delivered_values s)"

definition is_identity_delivered :: "json_codec \<Rightarrow> delivery_identity \<Rightarrow> session \<Rightarrow> bool" where
  "is_identity_delivered J d s = (map_of (s_delivered s) (storage_key J d) \<noteq> None)"

definition get_delivered :: "string \<Rightarrow> session \<Rightarrow> delivered_item option" where
  "get_delivered content_id s = find (primary_item content_id) (delivered_values s)"

definition get_delivered_identity ::
  "json_codec \<Rightarrow> delivery_identity \<Rightarrow> session \<Rightarrow> delivered_item option" where
  "get_delivered_identity J d s = map_of (s_delivered s) (storage_key J d)"

definition delivered_ids :: "session \<Rightarrow> string list" where
  "delivered_ids s = fold hs_insert (map it_content_id (delivered_values s)) []"

definition delivered_identities :: "session \<Rightarrow> delivery_identity list" where
  "delivered_identities s = fold hs_insert (map item_identity (delivered_values s)) []"

definition has_changed :: "string \<Rightarrow> string \<Rightarrow> session \<Rightarrow> bool" where
  "has_changed content_id current_hash s =
     (case find (primary_item content_id) (delivered_values s) of
        None \<Rightarrow> False | Some it \<Rightarrow> it_content_hash it \<noteq> current_hash)"

definition is_re_request :: "string \<Rightarrow> string \<Rightarrow> session \<Rightarrow> bool" where
  "is_re_request content_id current_hash s =
     (case find (primary_item content_id) (delivered_values s) of
        None \<Rightarrow> False | Some it \<Rightarrow> it_content_hash it = current_hash)"

definition total_delivered_tokens :: "session \<Rightarrow> nat" where
  "total_delivered_tokens s = fold (\<lambda>it acc. add_u64 acc (it_token_count it)) (delivered_values s) 0"

definition delivered_count :: "session \<Rightarrow> nat" where
  "delivered_count s = length (s_delivered s)"

definition primary_delivery_key :: "string \<Rightarrow> session \<Rightarrow> string option" where
  "primary_delivery_key content_id s =
     map_option fst (find (\<lambda>(_, it). primary_item content_id it) (s_delivered s))"

definition tick :: "session \<Rightarrow> session \<times> nat" where
  "tick s = (let t = sat_add_u32 (s_current_turn s) 1 in (s\<lparr>s_current_turn := t\<rparr>, t))"

subsection \<open>Drops\<close>

definition remove_delivered_identity ::
  "json_codec \<Rightarrow> delivery_identity \<Rightarrow> session \<Rightarrow> session \<times> delivered_item option" where
  "remove_delivered_identity J d s =
     (let key = storage_key J d; s1 = s\<lparr>s_stale := hs_remove key (s_stale s)\<rparr>
      in case map_of (s_delivered s1) key of
           None \<Rightarrow> (s1, None)
         | Some it \<Rightarrow>
             (let m = s_metrics s1
              in (s1\<lparr>s_delivered := bt_remove key (s_delivered s1),
                     s_metrics := m\<lparr>sm_total_evictions := add_u64 (sm_total_evictions m) 1,
                       sm_cumulative_tokens_evicted :=
                         add_u64 (sm_cumulative_tokens_evicted m) (it_token_count it)\<rparr>\<rparr>,
                  Some it)))"

fun remove_identities ::
  "json_codec \<Rightarrow> delivery_identity list \<Rightarrow> session \<Rightarrow> session \<times> delivered_item list" where
  "remove_identities J [] s = (s, [])"
| "remove_identities J (d # ds) s =
     (let (s1, r) = remove_delivered_identity J d s; (s2, rs) = remove_identities J ds s1
      in (s2, case r of None \<Rightarrow> rs | Some it \<Rightarrow> it # rs))"

definition remove_delivered_resolutions ::
  "json_codec \<Rightarrow> string \<Rightarrow> session \<Rightarrow> session \<times> delivered_item list" where
  "remove_delivered_resolutions J content_id s =
     (let identities = map item_identity (filter (primary_item content_id) (delivered_values s))
      in remove_identities J (sort_key (storage_key J) identities) s)"

definition remove_delivered ::
  "json_codec \<Rightarrow> string \<Rightarrow> session \<Rightarrow> session \<times> delivered_item option" where
  "remove_delivered J content_id s =
     (let (s1, items) = remove_delivered_resolutions J content_id s
      in (s1, case items of [] \<Rightarrow> None | it # _ \<Rightarrow> Some it))"

subsection \<open>Compression\<close>

definition bookmark_text :: "string list \<Rightarrow> string" where
  "bookmark_text heading_path =
     (if heading_path = [] then ''[bookmark]''
      else ''[bookmark: '' @ join '' > '' heading_path @ '']'')"

definition count_freed :: "nat \<Rightarrow> session_metrics \<Rightarrow> session_metrics" where
  "count_freed freed m =
     (if 0 < freed then
        m\<lparr>sm_total_compressions := add_u64 (sm_total_compressions m) 1,
          sm_cumulative_tokens_compressed := add_u64 (sm_cumulative_tokens_compressed m) freed\<rparr>
      else m)"

definition mask_identity_to_bookmark ::
  "json_codec \<Rightarrow> delivery_identity \<Rightarrow> string list \<Rightarrow> session \<Rightarrow> session \<times> nat option" where
  "mask_identity_to_bookmark J d heading_path s =
     (case map_of (s_delivered s) (storage_key J d) of
        None \<Rightarrow> (s, None)
      | Some it \<Rightarrow>
          if Bookmark \<le> it_compression_tier it then (s, None)
          else
            (let original_tokens = it_token_count it;
                 bookmark_tokens = max (split_whitespace_count (bookmark_text heading_path)) 1;
                 freed = original_tokens - bookmark_tokens
             in (s\<lparr>s_delivered := bt_insert (storage_key J d)
                      (it\<lparr>it_compression_tier := Bookmark, it_token_count := bookmark_tokens\<rparr>)
                      (s_delivered s),
                   s_metrics := count_freed freed (s_metrics s)\<rparr>,
                 Some freed)))"

definition mask_to_bookmark ::
  "json_codec \<Rightarrow> string \<Rightarrow> string list \<Rightarrow> session \<Rightarrow> session \<times> nat option" where
  "mask_to_bookmark J content_id heading_path s =
     (case primary_delivery_key content_id s of
        None \<Rightarrow> (s, None)
      | Some key \<Rightarrow>
          mask_identity_to_bookmark J (from_storage_key J key ''section_full'') heading_path s)"

definition set_identity_compression_tier ::
  "json_codec \<Rightarrow> delivery_identity \<Rightarrow> compression_tier \<Rightarrow> nat \<Rightarrow> session
     \<Rightarrow> session \<times> nat option" where
  "set_identity_compression_tier J d tier new_token_count s =
     (case map_of (s_delivered s) (storage_key J d) of
        None \<Rightarrow> (s, None)
      | Some it \<Rightarrow>
          (let freed = it_token_count it - new_token_count
           in (s\<lparr>s_delivered := bt_insert (storage_key J d)
                    (it\<lparr>it_compression_tier := tier, it_token_count := new_token_count\<rparr>)
                    (s_delivered s),
                 s_metrics := count_freed freed (s_metrics s)\<rparr>,
               Some freed)))"

definition set_compression_tier ::
  "json_codec \<Rightarrow> string \<Rightarrow> compression_tier \<Rightarrow> nat \<Rightarrow> session \<Rightarrow> session \<times> nat option" where
  "set_compression_tier J content_id tier new_token_count s =
     (case primary_delivery_key content_id s of
        None \<Rightarrow> (s, None)
      | Some key \<Rightarrow>
          set_identity_compression_tier J (from_storage_key J key ''section_full'') tier
            new_token_count s)"

definition set_identity_compressed_summary ::
  "json_codec \<Rightarrow> delivery_identity \<Rightarrow> string \<Rightarrow> compression_tier \<Rightarrow> nat \<Rightarrow> session
     \<Rightarrow> session \<times> nat option" where
  "set_identity_compressed_summary J d summary tier new_token_count s =
     (case map_of (s_delivered s) (storage_key J d) of
        None \<Rightarrow> (s, None)
      | Some it \<Rightarrow>
          (let freed = it_token_count it - new_token_count
           in (s\<lparr>s_delivered := bt_insert (storage_key J d)
                    (it\<lparr>it_compression_tier := tier, it_token_count := new_token_count,
                        it_compressed_summary := Some summary\<rparr>)
                    (s_delivered s),
                 s_metrics := count_freed freed (s_metrics s)\<rparr>,
               Some freed)))"

definition set_compressed_summary ::
  "json_codec \<Rightarrow> string \<Rightarrow> string \<Rightarrow> compression_tier \<Rightarrow> nat \<Rightarrow> session
     \<Rightarrow> session \<times> nat option" where
  "set_compressed_summary J content_id summary tier new_token_count s =
     (case primary_delivery_key content_id s of
        None \<Rightarrow> (s, None)
      | Some key \<Rightarrow>
          set_identity_compressed_summary J (from_storage_key J key ''section_full'') summary tier
            new_token_count s)"

subsection \<open>Staleness and alerts\<close>

definition primary_keys :: "string \<Rightarrow> session \<Rightarrow> string list" where
  "primary_keys content_id s = map fst (filter (\<lambda>(_, it). primary_item content_id it) (s_delivered s))"

definition mark_stale :: "string \<Rightarrow> session \<Rightarrow> session \<times> bool" where
  "mark_stale content_id s =
     (let keys = primary_keys content_id s
      in (s\<lparr>s_stale := fold hs_insert keys (s_stale s)\<rparr>, keys \<noteq> []))"

definition mark_identity_stale ::
  "json_codec \<Rightarrow> delivery_identity \<Rightarrow> session \<Rightarrow> session \<times> bool" where
  "mark_identity_stale J d s =
     (let key = storage_key J d
      in if map_of (s_delivered s) key \<noteq> None
         then (s\<lparr>s_stale := hs_insert key (s_stale s)\<rparr>, True) else (s, False))"

definition is_stale :: "string \<Rightarrow> session \<Rightarrow> bool" where
  "is_stale content_id s =
     list_ex (\<lambda>(key, it). primary_item content_id it \<and> key \<in> set (s_stale s)) (s_delivered s)"

definition is_identity_stale :: "json_codec \<Rightarrow> delivery_identity \<Rightarrow> session \<Rightarrow> bool" where
  "is_identity_stale J d s = (storage_key J d \<in> set (s_stale s))"

definition stale_identities :: "session \<Rightarrow> delivery_identity list" where
  "stale_identities s =
     List.map_filter (\<lambda>key. map_option item_identity (map_of (s_delivered s) key)) (s_stale s)"

definition stale_content_ids :: "session \<Rightarrow> string list" where
  "stale_content_ids s = map di_content_id (stale_identities s)"

definition clear_stale :: "string \<Rightarrow> session \<Rightarrow> session" where
  "clear_stale content_id s =
     s\<lparr>s_stale := fold hs_remove (primary_keys content_id s) (s_stale s)\<rparr>"

fun mark_sections :: "string list \<Rightarrow> session \<Rightarrow> session \<times> string list" where
  "mark_sections [] s = (s, [])"
| "mark_sections (x # xs) s =
     (let (s1, marked) = mark_stale x s; (s2, ids) = mark_sections xs s1
      in (s2, if marked then x # ids else ids))"

definition invalidate_sections :: "string list \<Rightarrow> session \<Rightarrow> session \<times> nat" where
  "invalidate_sections changed s =
     (let (s1, stale_ids) = mark_sections changed s
      in (if stale_ids \<noteq> [] then
            s1\<lparr>s_pending_alerts := s_pending_alerts s1 @
              [\<lparr>ca_changed_sections = changed, ca_stale_content_ids = stale_ids,
                ca_stale_identities = stale_identities s1\<rparr>]\<rparr>
          else s1,
          length stale_ids))"

fun mark_identities ::
  "json_codec \<Rightarrow> delivery_identity list \<Rightarrow> session \<Rightarrow> session \<times> delivery_identity list" where
  "mark_identities J [] s = (s, [])"
| "mark_identities J (d # ds) s =
     (let (s1, marked) = mark_identity_stale J d s; (s2, r) = mark_identities J ds s1
      in (s2, if marked then d # r else r))"

definition invalidate_identities ::
  "json_codec \<Rightarrow> delivery_identity list \<Rightarrow> session \<Rightarrow> session \<times> nat" where
  "invalidate_identities J changed s =
     (let (s1, stale) = mark_identities J changed s
      in if stale = [] then (s1, 0)
         else (s1\<lparr>s_pending_alerts := s_pending_alerts s1 @
                 [\<lparr>ca_changed_sections = map di_content_id stale,
                   ca_stale_content_ids = map di_content_id stale,
                   ca_stale_identities = stale\<rparr>]\<rparr>,
               length stale))"

definition invalidate_corpus_sections ::
  "json_codec \<Rightarrow> string \<Rightarrow> string list \<Rightarrow> session \<Rightarrow> session \<times> nat" where
  "invalidate_corpus_sections J corpus_id changed s =
     (let identities = map item_identity
            (filter (\<lambda>it. it_corpus_id it = corpus_id \<and> it_content_id it \<in> set changed)
               (delivered_values s))
      in invalidate_identities J identities s)"

definition drain_alerts :: "session \<Rightarrow> session \<times> coherence_alert list" where
  "drain_alerts s = (s\<lparr>s_pending_alerts := []\<rparr>, s_pending_alerts s)"

definition has_pending_alerts :: "session \<Rightarrow> bool" where
  "has_pending_alerts s = (s_pending_alerts s \<noteq> [])"

subsection \<open>Co-access and metrics\<close>

fun collect_new ::
  "json_codec \<Rightarrow> string list \<Rightarrow> delivery_identity list \<Rightarrow> string list \<Rightarrow> delivery_identity list" where
  "collect_new J flushed [] seen = []"
| "collect_new J flushed (d # ds) seen =
     (let key = storage_key J d
      in if key \<notin> set flushed \<and> key \<notin> set seen
         then d # collect_new J flushed ds (hs_insert key seen)
         else collect_new J flushed ds seen)"

definition unflushed_co_access_items ::
  "json_codec \<Rightarrow> session \<Rightarrow> delivery_identity list \<times> delivery_identity list" where
  "unflushed_co_access_items J s =
     (collect_new J (s_co_access_flushed_ids s) (s_trajectory s) [],
      map (\<lambda>key. from_storage_key J key ''section_full'') (s_co_access_flushed_ids s))"

definition mark_co_access_flushed ::
  "json_codec \<Rightarrow> delivery_identity list \<Rightarrow> session \<Rightarrow> session" where
  "mark_co_access_flushed J ids s =
     s\<lparr>s_co_access_flushed_ids :=
        fold hs_insert (map (storage_key J) ids) (s_co_access_flushed_ids s)\<rparr>"

definition record_dedup_hit :: "session \<Rightarrow> session" where
  "record_dedup_hit s =
     (let m = s_metrics s in s\<lparr>s_metrics := m\<lparr>sm_dedup_hits := add_u64 (sm_dedup_hits m) 1\<rparr>\<rparr>)"

definition record_dedup_savings :: "nat \<Rightarrow> nat \<Rightarrow> session \<Rightarrow> session" where
  "record_dedup_savings token_count byte_count s =
     (let s = record_dedup_hit s; m = s_metrics s
      in s\<lparr>s_metrics := m\<lparr>
             sm_cumulative_tokens_deduplicated :=
               add_u64 (sm_cumulative_tokens_deduplicated m) token_count,
             sm_cumulative_bytes_deduplicated :=
               add_u64 (sm_cumulative_bytes_deduplicated m) byte_count\<rparr>\<rparr>)"

definition record_delta_update :: "session \<Rightarrow> session" where
  "record_delta_update s =
     (let m = s_metrics s
      in s\<lparr>s_metrics := m\<lparr>sm_delta_updates := add_u64 (sm_delta_updates m) 1\<rparr>\<rparr>)"

definition push_query :: "string list \<Rightarrow> string \<Rightarrow> string list" where
  "push_query qs q = (if MAX_RECENT_QUERIES \<le> length qs then tl qs else qs) @ [q]"

definition record_query :: "string \<Rightarrow> session \<Rightarrow> session" where
  "record_query q s = s\<lparr>s_recent_queries := push_query (s_recent_queries s) q\<rparr>"

definition set_metrics :: "session_metrics \<Rightarrow> session \<Rightarrow> session" where
  "set_metrics m s = s\<lparr>s_metrics := m\<rparr>"

definition set_recent_queries :: "string list \<Rightarrow> session \<Rightarrow> session" where
  "set_recent_queries queries s =
     s\<lparr>s_recent_queries := fold (\<lambda>q qs. push_query qs q) queries []\<rparr>"

section \<open>Invariant\<close>

definition delivered_ok :: "json_codec \<Rightarrow> (string, delivered_item) btree \<Rightarrow> bool" where
  "delivered_ok J m \<longleftrightarrow> bt_ok m \<and> list_all (\<lambda>(k, it). storage_key J (item_identity it) = k) m"

definition session_ok :: "json_codec \<Rightarrow> session \<Rightarrow> bool" where
  "session_ok J s \<longleftrightarrow>
     delivered_ok J (s_delivered s)
     \<and> list_all (\<lambda>it. it_turn_delivered it \<le> s_current_turn s) (delivered_values s)
     \<and> s_current_turn s \<le> u32_max
     \<and> distinct (s_stale s) \<and> set (s_stale s) \<subseteq> delivered_keys s
     \<and> length (s_trajectory s) \<le> MAX_TRAJECTORY_LEN
     \<and> length (s_recent_queries s) \<le> MAX_RECENT_QUERIES
     \<and> distinct (s_co_access_flushed_ids s)
     \<and> list_all (\<lambda>k. storage_key J (from_storage_key J k ''section_full'') = k)
         (s_co_access_flushed_ids s)"

text \<open>The mutating operations as one alphabet.\<close>

datatype session_op =
    DeliverIdentity delivery_identity resolution nat nat string
  | Deliver string resolution nat nat string
  | DropIdentity delivery_identity
  | DropContent string
  | MaskIdentity delivery_identity "string list"
  | MaskContent string "string list"
  | SetTierIdentity delivery_identity compression_tier nat
  | SetTier string compression_tier nat
  | SetSummaryIdentity delivery_identity string compression_tier nat
  | SetSummary string string compression_tier nat
  | MarkStale string
  | MarkIdentityStale delivery_identity
  | ClearStale string
  | InvalidateSections "string list"
  | InvalidateIdentities "delivery_identity list"
  | InvalidateCorpus string "string list"
  | DrainAlerts
  | Tick
  | FlushCoAccess "delivery_identity list"
  | DedupSavings nat nat
  | DeltaUpdate
  | Query string
  | SetMetrics session_metrics
  | SetQueries "string list"

fun session_step :: "json_codec \<Rightarrow> session_op \<Rightarrow> session \<Rightarrow> session" where
  "session_step J (DeliverIdentity d r n t h) s = record_delivery_identity J d r n t h s"
| "session_step J (Deliver c r n t h) s = record_delivery J c r n t h s"
| "session_step J (DropIdentity d) s = fst (remove_delivered_identity J d s)"
| "session_step J (DropContent c) s = fst (remove_delivered J c s)"
| "session_step J (MaskIdentity d hp) s = fst (mask_identity_to_bookmark J d hp s)"
| "session_step J (MaskContent c hp) s = fst (mask_to_bookmark J c hp s)"
| "session_step J (SetTierIdentity d t n) s = fst (set_identity_compression_tier J d t n s)"
| "session_step J (SetTier c t n) s = fst (set_compression_tier J c t n s)"
| "session_step J (SetSummaryIdentity d x t n) s =
     fst (set_identity_compressed_summary J d x t n s)"
| "session_step J (SetSummary c x t n) s = fst (set_compressed_summary J c x t n s)"
| "session_step J (MarkStale c) s = fst (mark_stale c s)"
| "session_step J (MarkIdentityStale d) s = fst (mark_identity_stale J d s)"
| "session_step J (ClearStale c) s = clear_stale c s"
| "session_step J (InvalidateSections xs) s = fst (invalidate_sections xs s)"
| "session_step J (InvalidateIdentities ds) s = fst (invalidate_identities J ds s)"
| "session_step J (InvalidateCorpus c xs) s = fst (invalidate_corpus_sections J c xs s)"
| "session_step J DrainAlerts s = fst (drain_alerts s)"
| "session_step J Tick s = fst (tick s)"
| "session_step J (FlushCoAccess ds) s = mark_co_access_flushed J ds s"
| "session_step J (DedupSavings n b) s = record_dedup_savings n b s"
| "session_step J DeltaUpdate s = record_delta_update s"
| "session_step J (Query q) s = record_query q s"
| "session_step J (SetMetrics m) s = set_metrics m s"
| "session_step J (SetQueries qs) s = set_recent_queries qs s"

text \<open>
  A delivery has a named resolution and a turn of 32 bits; every other operation is unrestricted.
\<close>

fun session_op_ok :: "session_op \<Rightarrow> bool" where
  "session_op_ok (DeliverIdentity d r n t h) = (di_resolution d \<noteq> [] \<and> t \<le> u32_max)"
| "session_op_ok (Deliver c r n t h) = (t \<le> u32_max)"
| "session_op_ok _ = True"

section \<open>Lemmas\<close>

lemma item_identity_new [simp]:
  "di_resolution d \<noteq> [] \<Longrightarrow> it_content_id it = di_content_id d \<Longrightarrow> it_corpus_id it = di_corpus_id d \<Longrightarrow>
   it_delivery_resolution it = di_resolution d \<Longrightarrow> item_identity it = d"
  by (simp add: item_identity_def di_new_def)

lemma delivered_okD:
  "delivered_ok J m \<Longrightarrow> bt_ok m"
  "delivered_ok J m \<Longrightarrow> (k, it) \<in> set m \<Longrightarrow> k = storage_key J (item_identity it)"
  by (auto simp: delivered_ok_def list_all_iff)

lemma delivered_ok_insert:
  "delivered_ok J m \<Longrightarrow> storage_key J (item_identity it) = k \<Longrightarrow> delivered_ok J (bt_insert k it m)"
  using set_bt_insert_subset [of k it m] by (fastforce simp: delivered_ok_def list_all_iff bt_ok_insert)

lemma delivered_ok_remove: "delivered_ok J m \<Longrightarrow> delivered_ok J (bt_remove k m)"
  by (auto simp: delivered_ok_def list_all_iff bt_ok_remove set_bt_remove)

lemma tier_le_iff: "a \<le> b \<longleftrightarrow> tier_rank a \<le> tier_rank b" for a b :: compression_tier
  by (simp add: less_eq_compression_tier_def)

lemma session_ok_new [simp]: "session_ok J (session_new now i b p)"
  by (simp add: session_ok_def session_new_def delivered_ok_def)

text \<open>Replacing the record of a delivered identity, whatever happens to the metrics.\<close>

lemma session_ok_update_item:
  assumes "session_ok J s" and "map_of (s_delivered s) k = Some it"
    and "item_identity it' = item_identity it" and "it_turn_delivered it' = it_turn_delivered it"
  shows "session_ok J (s\<lparr>s_delivered := bt_insert k it' (s_delivered s)\<rparr>)"
proof -
  have d: "delivered_ok J (s_delivered s)" using assms(1) by (simp add: session_ok_def)
  have mem: "(k, it) \<in> set (s_delivered s)" using assms(2) by (rule map_of_SomeD)
  have "storage_key J (item_identity it') = k" using delivered_okD(2) [OF d mem] assms(3) by simp
  then have "delivered_ok J (bt_insert k it' (s_delivered s))"
    by (rule delivered_ok_insert [OF d])
  moreover have "it_turn_delivered it' \<le> s_current_turn s"
    using assms(1,4) mem by (force simp: session_ok_def list_all_iff)
  ultimately show ?thesis
    using assms(1) mem by (auto simp: session_ok_def list_all_iff set_bt_insert delivered_okD(1) [OF d]
        fst_set_bt_insert)
qed

lemma session_ok_stale:
  "session_ok J s \<Longrightarrow> distinct xs \<Longrightarrow> set xs \<subseteq> delivered_keys s \<Longrightarrow> session_ok J (s\<lparr>s_stale := xs\<rparr>)"
  by (simp add: session_ok_def)

lemma session_ok_metrics [simp]: "session_ok J (s\<lparr>s_metrics := m\<rparr>) = session_ok J s"
  by (simp add: session_ok_def)

lemma session_ok_alerts [simp]: "session_ok J (s\<lparr>s_pending_alerts := m\<rparr>) = session_ok J s"
  by (simp add: session_ok_def)

lemma record_delivery_identity_ok:
  assumes ok: "session_ok J s" and "di_resolution d \<noteq> []" and "turn \<le> u32_max"
  shows "session_ok J (record_delivery_identity J d r n turn h s)"
  using assms set_bt_insert_subset delivered_okD(1) [of J "s_delivered s"]
  by (auto simp: session_ok_def record_delivery_identity_def Let_def list_all_iff set_bt_insert
      fst_set_bt_insert intro!: delivered_ok_insert)

lemma remove_delivered_identity_ok:
  assumes "session_ok J s"
  shows "session_ok J (fst (remove_delivered_identity J d s))"
proof -
  have "set (hs_remove (storage_key J d) (s_stale s)) \<subseteq> delivered_keys s" and "distinct (s_stale s)"
    using assms by (auto simp: session_ok_def)
  then show ?thesis
    using assms by (auto simp: remove_delivered_identity_def Let_def session_ok_def delivered_ok_remove
        set_bt_remove list_all_iff image_iff split: option.splits)
qed

lemma remove_identities_ok: "session_ok J s \<Longrightarrow> session_ok J (fst (remove_identities J ds s))"
  by (induction ds arbitrary: s)
    (auto simp: Let_def case_prod_beta remove_delivered_identity_ok)

lemma mark_stale_ok: "session_ok J s \<Longrightarrow> session_ok J (fst (mark_stale c s))"
  by (auto simp: mark_stale_def Let_def primary_keys_def session_ok_def)

lemma mark_sections_ok: "session_ok J s \<Longrightarrow> session_ok J (fst (mark_sections xs s))"
  by (induction xs arbitrary: s) (auto simp: Let_def case_prod_beta mark_stale_ok)

lemma mark_identity_stale_ok: "session_ok J s \<Longrightarrow> session_ok J (fst (mark_identity_stale J d s))"
  by (force simp: mark_identity_stale_def Let_def session_ok_def dest!: map_of_SomeD)

lemma mark_identities_ok: "session_ok J s \<Longrightarrow> session_ok J (fst (mark_identities J ds s))"
  by (induction ds arbitrary: s) (auto simp: Let_def case_prod_beta mark_identity_stale_ok)

lemma invalidate_identities_ok: "session_ok J s \<Longrightarrow> session_ok J (fst (invalidate_identities J ds s))"
  using mark_identities_ok [of J s ds] by (simp add: invalidate_identities_def Let_def case_prod_beta)

lemma clear_stale_ok: "session_ok J s \<Longrightarrow> session_ok J (clear_stale c s)"
proof -
  assume ok: "session_ok J s"
  have "distinct xs \<Longrightarrow> distinct (fold hs_remove ks xs)" for ks xs :: "string list"
    by (induction ks arbitrary: xs) auto
  with ok show ?thesis by (auto simp: clear_stale_def session_ok_def)
qed

lemma tier_updates_ok:
  assumes "session_ok J s"
  shows "session_ok J (fst (mask_identity_to_bookmark J d hp s))"
    and "session_ok J (fst (set_identity_compression_tier J d t n s))"
    and "session_ok J (fst (set_identity_compressed_summary J d x t n s))"
  using assms
  by (auto simp: mask_identity_to_bookmark_def set_identity_compression_tier_def
      set_identity_compressed_summary_def Let_def item_identity_def
      intro!: session_ok_update_item split: option.splits)

lemma length_push_query [simp]:
  "length qs \<le> MAX_RECENT_QUERIES \<Longrightarrow> length (push_query qs q) \<le> MAX_RECENT_QUERIES"
  by (auto simp: push_query_def MAX_RECENT_QUERIES_def)

lemma fold_push_query:
  "length qs \<le> MAX_RECENT_QUERIES \<Longrightarrow>
   fold (\<lambda>q qs. push_query qs q) queries qs = last_n MAX_RECENT_QUERIES (qs @ queries)"
proof (induction queries arbitrary: qs)
  case Nil
  then show ?case by (simp add: last_n_all)
next
  case (Cons q queries)
  have "push_query qs q = last_n MAX_RECENT_QUERIES (qs @ [q])"
    using Cons.prems by (auto simp: push_query_def last_n_def MAX_RECENT_QUERIES_def drop_Suc)
  moreover have "last_n n (last_n n xs @ ys) = last_n n (xs @ ys)" for n and xs ys :: "string list"
    by (cases "n \<le> length xs") (auto simp: last_n_def add.commute)
  ultimately show ?case using Cons.IH [of "push_query qs q"] Cons.prems by simp
qed

lemma mark_co_access_flushed_ok:
  "codec_ok J \<Longrightarrow> session_ok J s \<Longrightarrow> session_ok J (mark_co_access_flushed J ds s)"
  by (auto simp: mark_co_access_flushed_def session_ok_def list_all_iff)

lemma session_step_ok:
  assumes "codec_ok J" and "session_ok J s" and "session_op_ok x"
  shows "session_ok J (session_step J x s)"
proof (cases x)
  case (Deliver c r n t h)
  with assms show ?thesis
    by (simp add: record_delivery_def record_delivery_identity_ok di_primary_def di_new_def)
next
  case (DropContent c)
  with assms remove_identities_ok [of J s] show ?thesis
    by (simp add: remove_delivered_def remove_delivered_resolutions_def Let_def case_prod_beta)
next
  case (InvalidateSections xs)
  with assms mark_sections_ok [of J s xs] show ?thesis
    by (simp add: invalidate_sections_def Let_def case_prod_beta)
next
  case Tick
  with assms show ?thesis
    by (auto simp: tick_def Let_def session_ok_def sat_add_u32_def list_all_iff)
next
  case (SetQueries qs)
  have "length (fold (\<lambda>q qs. push_query qs q) qs []) \<le> MAX_RECENT_QUERIES"
    by (simp add: fold_push_query)
  with assms SetQueries show ?thesis by (simp add: set_recent_queries_def session_ok_def)
next
  case (Query q)
  with assms show ?thesis by (auto simp: record_query_def session_ok_def)
qed (use assms in \<open>auto simp: record_delivery_identity_ok remove_delivered_identity_ok tier_updates_ok
    mask_to_bookmark_def set_compression_tier_def set_compressed_summary_def mark_stale_ok
    mark_identity_stale_ok clear_stale_ok invalidate_identities_ok invalidate_corpus_sections_def
    drain_alerts_def mark_co_access_flushed_ok record_dedup_savings_def record_dedup_hit_def
    record_delta_update_def set_metrics_def Let_def split: option.splits\<close>)

subsection \<open>Removal\<close>

lemma remove_delivered_identity_eqs:
  "s_delivered (fst (remove_delivered_identity J d s)) = bt_remove (storage_key J d) (s_delivered s)"
  "set (s_stale (fst (remove_delivered_identity J d s))) = set (s_stale s) - {storage_key J d}"
  "snd (remove_delivered_identity J d s) = map_of (s_delivered s) (storage_key J d)"
  "s_pending_alerts (fst (remove_delivered_identity J d s)) = s_pending_alerts s"
  "s_trajectory (fst (remove_delivered_identity J d s)) = s_trajectory s"
  by (auto simp: remove_delivered_identity_def Let_def bt_remove_absent dest: map_of_eq_None_iff [THEN iffD1]
      split: option.splits)

lemma map_filter_all: "(\<And>x. x \<in> set xs \<Longrightarrow> f x = Some (g x)) \<Longrightarrow> List.map_filter f xs = map g xs"
  by (induction xs) (auto simp: List.map_filter_simps)

lemma map_filter_cong: "(\<And>x. x \<in> set xs \<Longrightarrow> f x = g x) \<Longrightarrow> List.map_filter f xs = List.map_filter g xs"
  by (induction xs) (auto simp: List.map_filter_simps split: option.splits)

lemma remove_identities_eqs:
  assumes "distinct (map (storage_key J) ds)"
  shows "s_delivered (fst (remove_identities J ds s))
      = filter (\<lambda>p. fst p \<notin> storage_key J ` set ds) (s_delivered s)
    \<and> set (s_stale (fst (remove_identities J ds s))) = set (s_stale s) - storage_key J ` set ds
    \<and> snd (remove_identities J ds s)
      = List.map_filter (\<lambda>d. map_of (s_delivered s) (storage_key J d)) ds"
  using assms
proof (induction ds arbitrary: s)
  case Nil
  then show ?case by (simp add: List.map_filter_def)
next
  case (Cons d ds)
  let ?s = "fst (remove_delivered_identity J d s)"
  have "List.map_filter (\<lambda>d. map_of (s_delivered ?s) (storage_key J d)) ds
      = List.map_filter (\<lambda>d. map_of (s_delivered s) (storage_key J d)) ds"
  proof (rule map_filter_cong)
    fix e assume "e \<in> set ds"
    with Cons.prems have "storage_key J e \<noteq> storage_key J d"
      by (metis distinct.simps(2) image_eqI list.simps(9) set_map)
    then show "map_of (s_delivered ?s) (storage_key J e) = map_of (s_delivered s) (storage_key J e)"
      by (simp add: remove_delivered_identity_eqs map_of_bt_remove)
  qed
  with Cons.IH [of ?s] Cons.prems show ?case
    by (auto simp: Let_def case_prod_beta remove_delivered_identity_eqs bt_remove_def
        List.map_filter_simps image_iff split: option.splits intro!: filter_cong)
qed

text \<open>The keys of a selection of items are the keys the map has them under, in key order.\<close>

lemma selected_keys:
  assumes "delivered_ok J m"
  shows "map (storage_key J) (map item_identity (filter P (map snd m)))
    = map fst (filter (\<lambda>p. P (snd p)) m)"
  using assms unfolding delivered_ok_def
  by (induction m) (auto simp: bt_ok_Cons)

lemma selected_sorted:
  assumes "delivered_ok J m"
  shows "sort_key (storage_key J) (map item_identity (filter P (map snd m)))
    = map item_identity (filter P (map snd m))"
proof (rule sort_key_id_if_sorted, unfold selected_keys [OF assms])
  have "bt_ok (filter (\<lambda>p. P (snd p)) m)" using assms by (simp add: bt_ok_filter delivered_ok_def)
  then show "sorted (map fst (filter (\<lambda>p. P (snd p)) m))"
    by (simp add: bt_ok_def strict_sorted_imp_sorted)
qed

lemma selected_distinct:
  assumes "delivered_ok J m"
  shows "distinct (map (storage_key J) (map item_identity (filter P (map snd m))))"
  using bt_ok_distinct [OF bt_ok_filter [OF delivered_okD(1) [OF assms]]]
  by (simp only: selected_keys [OF assms])

lemma selected_lookup:
  assumes "delivered_ok J m" and "it \<in> set (filter P (map snd m))"
  shows "map_of m (storage_key J (item_identity it)) = Some it"
  using assms delivered_okD [OF assms(1)] by (auto simp: map_of_bt)

subsection \<open>Marking\<close>

lemma mark_identity_stale_eq:
  "mark_identity_stale J d s =
     (s\<lparr>s_stale := (if storage_key J d \<in> delivered_keys s then hs_insert (storage_key J d) (s_stale s)
                   else s_stale s)\<rparr>, storage_key J d \<in> delivered_keys s)"
  by (simp add: mark_identity_stale_def Let_def map_of_eq_None_iff)

lemma mark_identities_eq:
  "mark_identities J ds s =
     (s\<lparr>s_stale := fold hs_insert (map (storage_key J)
          (filter (\<lambda>d. storage_key J d \<in> delivered_keys s) ds)) (s_stale s)\<rparr>,
      filter (\<lambda>d. storage_key J d \<in> delivered_keys s) ds)"
  by (induction ds arbitrary: s) (auto simp: Let_def case_prod_beta mark_identity_stale_eq)

lemma mark_sections_eq:
  "mark_sections xs s =
     (s\<lparr>s_stale := fold (\<lambda>x. fold hs_insert (primary_keys x s)) xs (s_stale s)\<rparr>,
      filter (\<lambda>x. is_delivered x s) xs)"
proof (induction xs arbitrary: s)
  case Nil
  then show ?case by simp
next
  case (Cons x xs)
  have [simp]: "primary_keys y (s\<lparr>s_stale := z\<rparr>) = primary_keys y s"
    "is_delivered y (s\<lparr>s_stale := z\<rparr>) = is_delivered y s" for y z
    by (simp_all add: primary_keys_def is_delivered_def)
  have "primary_keys x s \<noteq> [] \<longleftrightarrow> is_delivered x s"
    by (force simp: primary_keys_def is_delivered_def list_ex_iff filter_empty_conv)
  with Cons show ?case by (simp add: mark_stale_def Let_def)
qed

subsection \<open>Co-access\<close>

lemma collect_new_eqs:
  assumes "codec_ok J"
  shows "set (collect_new J fl ds seen)
      = {d \<in> set ds. storage_key J d \<notin> set fl \<and> storage_key J d \<notin> set seen}
    \<and> distinct (collect_new J fl ds seen)"
  by (induction ds arbitrary: seen) (auto simp: Let_def assms)

lemma invalidate_corpus_eq:
  fixes corpus changed
  assumes "session_ok J s"
  defines "hits \<equiv> map item_identity
      (filter (\<lambda>it. it_corpus_id it = corpus \<and> it_content_id it \<in> set changed) (delivered_values s))"
  shows "invalidate_corpus_sections J corpus changed s =
    (s\<lparr>s_stale := fold hs_insert (map (storage_key J) hits) (s_stale s),
       s_pending_alerts := s_pending_alerts s @
         (if hits = [] then []
          else [\<lparr>ca_changed_sections = map di_content_id hits,
                 ca_stale_content_ids = map di_content_id hits, ca_stale_identities = hits\<rparr>])\<rparr>,
     length hits)"
proof -
  have d: "delivered_ok J (s_delivered s)" using assms by (simp add: session_ok_def)
  have keys: "map (storage_key J) hits = map fst (filter (\<lambda>p. it_corpus_id (snd p) = corpus
      \<and> it_content_id (snd p) \<in> set changed) (s_delivered s))"
    unfolding hits_def by (rule selected_keys [OF d])
  have all: "filter (\<lambda>d. storage_key J d \<in> delivered_keys s) hits = hits"
  proof (rule filter_True, rule ballI)
    fix d assume "d \<in> set hits"
    then have "storage_key J d \<in> set (map (storage_key J) hits)" by auto
    then show "storage_key J d \<in> delivered_keys s" unfolding keys by auto
  qed
  show ?thesis
    unfolding invalidate_corpus_sections_def Let_def invalidate_identities_def hits_def [symmetric]
      mark_identities_eq all case_prod_beta
    by simp
qed

lemma invalidate_corpus_facts:
  assumes "session_ok J s"
  shows "snd (invalidate_corpus_sections J corpus changed s) =
      length (filter (\<lambda>it. it_corpus_id it = corpus \<and> it_content_id it \<in> set changed) (delivered_values s))"
    and "(k, it) \<in> set (s_delivered s) \<Longrightarrow>
      (k \<in> set (s_stale (fst (invalidate_corpus_sections J corpus changed s)))) =
        (k \<in> set (s_stale s) \<or> (it_corpus_id it = corpus \<and> it_content_id it \<in> set changed))"
proof -
  let ?hit = "\<lambda>it. it_corpus_id it = corpus \<and> it_content_id it \<in> set changed"
  have d: "delivered_ok J (s_delivered s)" using assms by (simp add: session_ok_def)
  show "snd (invalidate_corpus_sections J corpus changed s) = length (filter ?hit (delivered_values s))"
    unfolding invalidate_corpus_eq [OF assms] by simp
  have sel: "s_stale (s\<lparr>s_stale := a, s_pending_alerts := b\<rparr>) = a" for a b by simp
  assume k: "(k, it) \<in> set (s_delivered s)"
  have "k \<in> set (map (storage_key J) (map item_identity (filter ?hit (delivered_values s)))) \<longleftrightarrow> ?hit it"
    unfolding selected_keys [OF d] using k bt_ok_distinct [OF delivered_okD(1) [OF d]]
    by (auto dest: eq_key_imp_eq_value intro!: image_eqI [of k fst "(k, it)"])
  then show "(k \<in> set (s_stale (fst (invalidate_corpus_sections J corpus changed s))))
      = (k \<in> set (s_stale s) \<or> ?hit it)"
    unfolding invalidate_corpus_eq [OF assms] fst_conv sel by (simp only: set_fold_hs_insert Un_iff)
qed

subsection \<open>Restoration\<close>

lemma restore_eqs:
  fixes now i budget policy
  assumes "session_ok J s" and "\<forall>d \<in> set (s_trajectory s). di_resolution d \<noteq> ''legacy''"
  defines "r \<equiv> session_restore J now i budget policy (s_delivered s) (s_trajectory s) (s_current_turn s)"
  shows "s_delivered r = s_delivered s" "s_trajectory r = s_trajectory s"
    "s_current_turn r = s_current_turn s" "s_stale r = []" "fst (unflushed_co_access_items J r) = []"
    "s_pending_alerts r = []" "s_recent_queries r = []"
proof -
  have d: "delivered_ok J (s_delivered s)" using assms by (simp add: session_ok_def)
  have "map (\<lambda>it. (storage_key J (item_identity it), it)) (delivered_values s) = s_delivered s"
    unfolding map_map using delivered_okD(2) [OF d] by (intro map_idI) auto
  then have del: "bt_collect (map (\<lambda>it. (storage_key J (item_identity it), it)) (delivered_values s))
      = s_delivered s"
    using bt_collect_ok [OF delivered_okD(1) [OF d]] by simp
  have traj: "map (resolve_legacy m) (s_trajectory s) = s_trajectory s" for m
    using assms(2) by (intro map_idI) (auto simp: resolve_legacy_def)
  have "fold max xs a \<le> t" if "\<forall>x \<in> set xs. x \<le> t" "a \<le> t" for xs :: "nat list" and a t
    using that by (induction xs arbitrary: a) auto
  then have turn: "max_delivered_turn (s_delivered s) \<le> s_current_turn s"
    using assms(1) by (auto simp: max_delivered_turn_def session_ok_def list_all_iff)
  have len: "length (s_trajectory s) \<le> MAX_TRAJECTORY_LEN" using assms(1) by (simp add: session_ok_def)
  have flushed: "collect_new J fl ds [] = []" if "storage_key J ` set ds \<subseteq> set fl" for fl ds
    using that by (induction ds) (auto simp: Let_def)
  show "s_delivered r = s_delivered s" "s_trajectory r = s_trajectory s"
    "s_current_turn r = s_current_turn s" "s_stale r = []" "fst (unflushed_co_access_items J r) = []"
    "s_pending_alerts r = []" "s_recent_queries r = []"
    using turn len unfolding r_def session_restore_def Let_def del traj
    by (simp_all add: unflushed_co_access_items_def flushed)
qed

section \<open>Properties\<close>

text \<open>
  C18. Every sequence of session operations on a new session keeps the shadow consistent: each
  item is stored under the serialized form of its own identity and once only, every stale mark is
  on a delivered item, no item was delivered after the current turn, and the trajectory
  and the query window stay within their bounds.
\<close>

theorem session_run_ok:
  assumes "codec_ok J" and "\<forall>x \<in> set ops. session_op_ok x"
  shows "let s = fold (session_step J) ops (session_new now i budget policy) in
    bt_ok (s_delivered s)
    \<and> (\<forall>(k, it) \<in> set (s_delivered s). k = storage_key J (item_identity it)
        \<and> it_turn_delivered it \<le> s_current_turn s)
    \<and> set (s_stale s) \<subseteq> delivered_keys s
    \<and> length (s_trajectory s) \<le> 1000 \<and> length (s_recent_queries s) \<le> 10"
proof -
  have "session_ok J s \<Longrightarrow> session_ok J (fold (session_step J) ops s)" for s
    using assms(2) by (induction ops arbitrary: s) (simp_all add: session_step_ok [OF assms(1)])
  from this [OF session_ok_new, of now i budget policy] show ?thesis
    by (force simp: session_ok_def Let_def delivered_ok_def list_all_iff MAX_TRAJECTORY_LEN_def
        MAX_RECENT_QUERIES_def)
qed

lemma session_run_ok_witness:
  "set (s_stale (fold (session_step netstring_codec)
      [Deliver ''a'' Section 10 1 ''h'', MarkStale ''a'', Tick, DropContent ''a'']
      (session_new 0 ''s'' 100 Fifo)))
   \<subseteq> delivered_keys (fold (session_step netstring_codec)
      [Deliver ''a'' Section 10 1 ''h'', MarkStale ''a'', Tick, DropContent ''a'']
      (session_new 0 ''s'' 100 Fifo))"
proof -
  have "\<forall>x \<in> set [Deliver ''a'' Section 10 1 ''h'', MarkStale ''a'', Tick, DropContent ''a''].
      session_op_ok x"
    by (simp add: u32_max_def)
  from session_run_ok [OF netstring_codec_ok this, of 0 "''s''" 100 Fifo]
  show ?thesis unfolding Let_def by (elim conjE)
qed

text \<open>
  Recording a delivery makes exactly that identity delivered, with the recorded token count
  and hash, at the full tier and not stale; the records and stale marks of all other identities,
  the same content in another corpus or at another resolution included, are untouched.
\<close>

theorem record_delivery_exact:
  assumes "codec_ok J"
  shows "let s' = record_delivery_identity J d r n turn h s in
    (\<exists>it. get_delivered_identity J d s' = Some it \<and> it_token_count it = n \<and> it_content_hash it = h
      \<and> it_compression_tier it = Full \<and> it_compressed_summary it = None)
    \<and> \<not> is_identity_stale J d s'
    \<and> (\<forall>e. e \<noteq> d \<longrightarrow> get_delivered_identity J e s' = get_delivered_identity J e s
        \<and> is_identity_stale J e s' = is_identity_stale J e s)"
  using assms
  by (simp add: record_delivery_identity_def get_delivered_identity_def is_identity_stale_def Let_def
      map_of_bt_insert)

lemma record_delivery_exact_witness:
  "\<not> is_identity_stale netstring_codec (di_primary ''a'' ''section'')
     (record_delivery_identity netstring_codec (di_primary ''a'' ''section'') Section 5 1 ''h''
       (session_new 0 ''s'' 100 Fifo))"
  using record_delivery_exact [OF netstring_codec_ok, of "di_primary ''a'' ''section''" Section 5 1
      "''h''" "session_new 0 ''s'' 100 Fifo"]
  by (simp add: Let_def)

text \<open>
  Dropping a bare content id removes every delivered resolution of it in the primary corpus,
  and only those, clears their stale marks, and returns the removed items in key order;
  deliveries of other corpora stay.
\<close>

theorem drop_content_exact:
  assumes "session_ok J s"
  shows "let (s', items) = remove_delivered_resolutions J c s in
    items = filter (primary_item c) (delivered_values s)
    \<and> s_delivered s' = filter (\<lambda>p. \<not> primary_item c (snd p)) (s_delivered s)
    \<and> \<not> is_delivered c s'
    \<and> set (s_stale s') = set (s_stale s) - set (primary_keys c s)"
proof -
  let ?ids = "map item_identity (filter (primary_item c) (delivered_values s))"
  have d: "delivered_ok J (s_delivered s)" using assms by (simp add: session_ok_def)
  note sel = selected_keys [OF d, of "primary_item c"] and dist = selected_distinct [OF d, of "primary_item c"]
  have keys: "storage_key J ` set ?ids = set (primary_keys c s)"
    using arg_cong [OF sel, of set] by (simp only: set_map image_image primary_keys_def case_prod_unfold)
  have same: "fst p \<notin> set (primary_keys c s) \<longleftrightarrow> \<not> primary_item c (snd p)" if "p \<in> set (s_delivered s)" for p
    using that bt_ok_distinct [OF delivered_okD(1) [OF d]]
    by (auto simp: primary_keys_def) (metis eq_key_imp_eq_value prod.collapse)+
  have items: "List.map_filter (\<lambda>d. map_of (s_delivered s) (storage_key J d)) ?ids
      = filter (primary_item c) (delivered_values s)"
  proof -
    have "List.map_filter (\<lambda>it. map_of (s_delivered s) (storage_key J (item_identity it)))
        (filter (primary_item c) (delivered_values s)) = map id (filter (primary_item c) (delivered_values s))"
      using selected_lookup [OF d] by (intro map_filter_all) auto
    then show ?thesis by (simp add: List.map_filter_def filter_map comp_def)
  qed
  show ?thesis
    using remove_identities_eqs [OF dist, of s] same
    unfolding remove_delivered_resolutions_def selected_sorted [OF d] Let_def case_prod_beta keys items
    by (auto simp: is_delivered_def list_ex_iff cong: filter_cong)
qed

lemma drop_content_exact_witness:
  "\<not> is_delivered ''a'' (fst (remove_delivered_resolutions netstring_codec ''a''
     (record_delivery netstring_codec ''a'' Section 10 1 ''h'' (session_new 0 ''s'' 100 Fifo))))"
proof -
  have "session_ok netstring_codec
      (record_delivery netstring_codec ''a'' Section 10 1 ''h'' (session_new 0 ''s'' 100 Fifo))"
    using session_step_ok [OF netstring_codec_ok session_ok_new, of "Deliver ''a'' Section 10 1 ''h''"]
    by (simp add: u32_max_def)
  from drop_content_exact [OF this, of "''a''"] show ?thesis by (simp add: case_prod_beta)
qed

text \<open>
  A change in one corpus marks stale exactly the delivered items of that corpus whose content id
  is among the changed ones, in every resolution; the same content id in
  another corpus stays current. One alert naming these items is queued, and none when nothing
  delivered was touched; the count returned is their number.
\<close>

theorem invalidate_corpus_exact:
  assumes "session_ok J s"
  shows "let hit = (\<lambda>it. it_corpus_id it = corpus \<and> it_content_id it \<in> set changed);
      hits = map item_identity (filter hit (delivered_values s));
      (s', n) = invalidate_corpus_sections J corpus changed s
    in s_delivered s' = s_delivered s \<and> n = length hits
      \<and> (\<forall>(k, it) \<in> set (s_delivered s). k \<in> set (s_stale s') \<longleftrightarrow> k \<in> set (s_stale s) \<or> hit it)
      \<and> s_pending_alerts s' = s_pending_alerts s @
          (if hits = [] then []
           else [\<lparr>ca_changed_sections = map di_content_id hits,
                  ca_stale_content_ids = map di_content_id hits, ca_stale_identities = hits\<rparr>])"
proof -
  show ?thesis
    using invalidate_corpus_facts(2) [OF assms, of _ _ corpus changed]
    unfolding invalidate_corpus_eq [OF assms] by (simp only: Let_def case_prod_conv) auto
qed

lemma invalidate_corpus_exact_witness:
  "snd (invalidate_corpus_sections netstring_codec PRIMARY_CORPUS_ID [''a'']
     (record_delivery netstring_codec ''a'' Section 10 1 ''h'' (session_new 0 ''s'' 100 Fifo))) = 1"
proof -
  have "session_ok netstring_codec
      (record_delivery netstring_codec ''a'' Section 10 1 ''h'' (session_new 0 ''s'' 100 Fifo))"
    using session_step_ok [OF netstring_codec_ok session_ok_new, of "Deliver ''a'' Section 10 1 ''h''"]
    by (simp add: u32_max_def)
  from invalidate_corpus_exact [OF this, of PRIMARY_CORPUS_ID "[''a'']"] show ?thesis
    by (simp add: Let_def case_prod_beta record_delivery_def record_delivery_identity_def session_new_def
        di_primary_def di_new_def)
qed

text \<open>
  The incremental flush of co-access pairs reports each content item as new once: the new
  items are pairwise distinct, disjoint from those flushed before, cover with them the whole
  trajectory, and after they are marked flushed nothing is new any more.
\<close>

theorem co_access_flush_once:
  assumes "codec_ok J" and "session_ok J s"
  shows "let (new, prev) = unflushed_co_access_items J s in
    distinct new \<and> set new \<inter> set prev = {} \<and> set (s_trajectory s) \<subseteq> set new \<union> set prev
    \<and> fst (unflushed_co_access_items J (mark_co_access_flushed J new s)) = []
    \<and> set (snd (unflushed_co_access_items J (mark_co_access_flushed J new s))) = set new \<union> set prev"
proof -
  let ?prev = "(\<lambda>key. from_storage_key J key ''section_full'') ` set (s_co_access_flushed_ids s)"
  have prev: "storage_key J d \<in> set (s_co_access_flushed_ids s) \<longleftrightarrow> d \<in> ?prev" for d
  proof
    assume "storage_key J d \<in> set (s_co_access_flushed_ids s)"
    then show "d \<in> ?prev" using assms(1) by (intro image_eqI [of d _ "storage_key J d"]) simp_all
  qed (use assms(2) in \<open>auto simp: session_ok_def list_all_iff\<close>)
  have new: "set (collect_new J (s_co_access_flushed_ids s) (s_trajectory s) [])
      = {d \<in> set (s_trajectory s). d \<notin> ?prev}"
    using collect_new_eqs [OF assms(1), of "s_co_access_flushed_ids s" "s_trajectory s" "[]"]
    by (simp add: prev)
  have "set (collect_new J (s_co_access_flushed_ids (mark_co_access_flushed J
      (collect_new J (s_co_access_flushed_ids s) (s_trajectory s) []) s)) (s_trajectory s) []) = {}"
    unfolding collect_new_eqs [OF assms(1), THEN conjunct1]
    by (auto simp: mark_co_access_flushed_def new prev)
  moreover have "distinct (collect_new J (s_co_access_flushed_ids s) (s_trajectory s) [])"
    using collect_new_eqs [OF assms(1)] by blast
  moreover have "s_trajectory (mark_co_access_flushed J ds s) = s_trajectory s" for ds
    by (simp add: mark_co_access_flushed_def)
  ultimately show ?thesis
    unfolding unflushed_co_access_items_def
    by (auto simp: new mark_co_access_flushed_def image_Un image_image assms(1))
qed

lemma co_access_flush_once_witness:
  "distinct (fst (unflushed_co_access_items netstring_codec (session_new 0 ''s'' 100 Fifo)))"
  using co_access_flush_once [OF netstring_codec_ok session_ok_new, of 0 "''s''" 100 Fifo]
  by (simp add: case_prod_beta)

text \<open>
  Restoring a session from its own delivered map, trajectory and turn gives the
  same shadow back: the same items under the same keys, the same trajectory and turn, with no
  stale marks, and everything in the trajectory counted as flushed.
\<close>

theorem restore_own_state:
  assumes "session_ok J s" and "\<forall>d \<in> set (s_trajectory s). di_resolution d \<noteq> ''legacy''"
  shows "let r = session_restore J now (s_id s) (s_agent_context_budget s) (s_eviction_policy s)
        (s_delivered s) (s_trajectory s) (s_current_turn s)
    in s_delivered r = s_delivered s \<and> s_trajectory r = s_trajectory s
      \<and> s_current_turn r = s_current_turn s \<and> s_stale r = []
      \<and> fst (unflushed_co_access_items J r) = []"
  using restore_eqs [OF assms] by (simp add: Let_def)

lemma restore_own_state_witness:
  "s_stale (session_restore netstring_codec 1 ''s'' 100 Fifo [] [] 0) = []"
  using restore_own_state [OF session_ok_new [of netstring_codec 0 "''s''" 100 Fifo], of 1]
  by (simp add: Let_def session_new_def)

end
