(* ===== verification/Delta.thy ===== *)
theory Delta
  imports Prelude "HOL-Library.Sublist"
begin

text \<open>
  Line deltas, \<open>ministr-core/src/session/delta.rs\<close>: the table of longest common subsequence
  lengths, filled in place by two nested loops, and the backtracking loop that reads a
  diff off it. The diff is shown to rebuild both texts and to be minimal
  among all edit scripts between them.
\<close>

datatype delta_line = Context string | Added string | Removed string

record content_delta =
  cd_lines :: "delta_line list"
  cd_additions :: nat
  cd_removals :: nat

definition split_lines :: "string \<Rightarrow> string list" where
  "split_lines s = (if s = [] then [] else split_on (CHR 0x0A) s)"

text \<open>\<open>table[i][j] = v\<close>.\<close>

definition tab_set :: "nat \<Rightarrow> nat \<Rightarrow> nat \<Rightarrow> nat list list \<Rightarrow> nat list list" where
  "tab_set i j v t = t[i := (t ! i)[j := v]]"

definition lcs_cell :: "string list \<Rightarrow> string list \<Rightarrow> nat \<Rightarrow> nat \<Rightarrow> nat list list \<Rightarrow> nat list list" where
  "lcs_cell old new i j t =
     (if old ! (i - 1) = new ! (j - 1) then tab_set i j (t ! (i - 1) ! (j - 1) + 1) t
      else tab_set i j (max (t ! (i - 1) ! j) (t ! i ! (j - 1))) t)"

definition lcs_table :: "string list \<Rightarrow> string list \<Rightarrow> nat list list" where
  "lcs_table old new =
     (let m = length old; n = length new
      in fold (\<lambda>i. fold (lcs_cell old new i) [1..<Suc n]) [1..<Suc m]
           (replicate (m + 1) (replicate (n + 1) 0)))"

text \<open>The lines in the order the backtracking loop pushes them.\<close>

function diff_loop ::
  "string list \<Rightarrow> string list \<Rightarrow> nat list list \<Rightarrow> nat \<Rightarrow> nat \<Rightarrow> delta_line list" where
  "diff_loop old new t i j =
     (if i = 0 \<and> j = 0 then []
      else if 0 < i \<and> 0 < j \<and> old ! (i - 1) = new ! (j - 1) then
        Context (old ! (i - 1)) # diff_loop old new t (i - 1) (j - 1)
      else if 0 < j \<and> (i = 0 \<or> t ! (i - 1) ! j \<le> t ! i ! (j - 1)) then
        Added (new ! (j - 1)) # diff_loop old new t i (j - 1)
      else Removed (old ! (i - 1)) # diff_loop old new t (i - 1) j)"
  by pat_completeness auto
termination
  by (relation "measure (\<lambda>(old, new, t, i, j). i + j)") auto

declare diff_loop.simps [simp del]

definition build_diff :: "string list \<Rightarrow> string list \<Rightarrow> nat list list \<Rightarrow> delta_line list" where
  "build_diff old new t = rev (diff_loop old new t (length old) (length new))"

fun is_added :: "delta_line \<Rightarrow> bool" where
  "is_added (Added l) = True"
| "is_added _ = False"

fun is_removed :: "delta_line \<Rightarrow> bool" where
  "is_removed (Removed l) = True"
| "is_removed _ = False"

definition compute_delta :: "string \<Rightarrow> string \<Rightarrow> content_delta" where
  "compute_delta old new =
     (let old_lines = split_lines old; new_lines = split_lines new;
          lines = build_diff old_lines new_lines (lcs_table old_lines new_lines)
      in \<lparr>cd_lines = lines, cd_additions = length (filter is_added lines),
          cd_removals = length (filter is_removed lines)\<rparr>)"

section \<open>What a diff means\<close>

fun old_part :: "delta_line \<Rightarrow> string list" where
  "old_part (Context l) = [l]"
| "old_part (Removed l) = [l]"
| "old_part (Added l) = []"

fun new_part :: "delta_line \<Rightarrow> string list" where
  "new_part (Context l) = [l]"
| "new_part (Removed l) = []"
| "new_part (Added l) = [l]"

fun common_part :: "delta_line \<Rightarrow> string list" where
  "common_part (Context l) = [l]"
| "common_part _ = []"

definition old_side :: "delta_line list \<Rightarrow> string list" where
  "old_side d = concat (map old_part d)"

definition new_side :: "delta_line list \<Rightarrow> string list" where
  "new_side d = concat (map new_part d)"

text \<open>The length of a longest common subsequence of the prefixes of lengths \<open>i\<close> and \<open>j\<close>.\<close>

fun lcs :: "string list \<Rightarrow> string list \<Rightarrow> nat \<Rightarrow> nat \<Rightarrow> nat" where
  "lcs old new 0 j = 0"
| "lcs old new (Suc i) 0 = 0"
| "lcs old new (Suc i) (Suc j) =
     (if old ! i = new ! j then Suc (lcs old new i j)
      else max (lcs old new i (Suc j)) (lcs old new (Suc i) j))"

text \<open>The table is right wherever the loops have been, and on its borders.\<close>

definition tab_ok :: "string list \<Rightarrow> string list \<Rightarrow> nat \<Rightarrow> nat \<Rightarrow> nat list list \<Rightarrow> bool" where
  "tab_ok old new i j t \<longleftrightarrow>
     length t = Suc (length old) \<and> (\<forall>r \<in> set t. length r = Suc (length new))
     \<and> (\<forall>a \<le> length old. \<forall>b \<le> length new. a < i \<or> (a = i \<and> b < j) \<or> a = 0 \<or> b = 0 \<longrightarrow>
          t ! a ! b = lcs old new a b)"

section \<open>Lemmas\<close>

lemma lcs_0 [simp]: "lcs old new i 0 = 0"
  by (cases i) auto

lemma fold_upt_inv:
  assumes "P a s" and "a \<le> b" and "\<And>k s. a \<le> k \<Longrightarrow> k < b \<Longrightarrow> P k s \<Longrightarrow> P (Suc k) (f k s)"
  shows "P b (fold f [a..<b] s)"
  using assms(2,3)
proof (induction b rule: dec_induct)
  case base
  then show ?case using assms(1) by simp
next
  case (step b)
  then show ?case by simp
qed

lemma tab_set_nth:
  assumes "length t = Suc m" "\<forall>r \<in> set t. length r = Suc n" "i \<le> m" "j \<le> n" "a \<le> m" "b \<le> n"
  shows "tab_set i j v t ! a ! b = (if a = i \<and> b = j then v else t ! a ! b)"
  using assms by (auto simp: tab_set_def nth_list_update)

lemma tab_set_shape:
  assumes "length t = Suc m" "\<forall>r \<in> set t. length r = Suc n" "i \<le> m"
  shows "length (tab_set i j v t) = Suc m \<and> (\<forall>r \<in> set (tab_set i j v t). length r = Suc n)"
  using assms set_update_subset_insert [of t i] by (fastforce simp: tab_set_def)

lemma lcs_cell_step:
  assumes ok: "tab_ok old new i j t" and ij: "1 \<le> i" "i \<le> length old" "1 \<le> j" "j \<le> length new"
  shows "tab_ok old new i (Suc j) (lcs_cell old new i j t)"
proof -
  have sh: "length t = Suc (length old)" "\<forall>r \<in> set t. length r = Suc (length new)"
    and val: "\<And>a b. a \<le> length old \<Longrightarrow> b \<le> length new \<Longrightarrow>
      a < i \<or> (a = i \<and> b < j) \<or> a = 0 \<or> b = 0 \<Longrightarrow> t ! a ! b = lcs old new a b"
    using ok unfolding tab_ok_def by blast+
  obtain i' j' where ij': "i = Suc i'" "j = Suc j'" using ij by (metis Suc_le_D One_nat_def)
  have cell: "lcs_cell old new i j t = tab_set i j (lcs old new i j) t"
    using val [of i' j'] val [of i' j] val [of i j'] ij by (simp add: lcs_cell_def ij')
  show ?thesis
    unfolding cell tab_ok_def
    using tab_set_shape [OF sh ij(2)] tab_set_nth [OF sh ij(2,4)] val
    by (auto simp: less_Suc_eq)
qed

lemma lcs_table_ok: "tab_ok old new (Suc (length old)) 1 (lcs_table old new)"
proof -
  let ?t = "replicate (length old + 1) (replicate (length new + 1) 0)"
  have row: "tab_ok old new (Suc i) 1 (fold (lcs_cell old new i) [1..<Suc (length new)] t)"
    if "1 \<le> i" "i < Suc (length old)" "tab_ok old new i 1 t" for i t
  proof -
    have "tab_ok old new i (Suc (length new)) (fold (lcs_cell old new i) [1..<Suc (length new)] t)"
      using that by (intro fold_upt_inv [where P = "tab_ok old new i"]) (auto intro: lcs_cell_step)
    then show ?thesis unfolding tab_ok_def by (metis less_Suc_eq less_Suc_eq_le less_one)
  qed
  have zero: "?t ! a ! b = 0" if "a \<le> length old" "b \<le> length new" for a b
    using that by (simp add: le_imp_less_Suc del: replicate_Suc)
  have "tab_ok old new 1 1 ?t"
    unfolding tab_ok_def by (auto simp: zero simp del: replicate_Suc replicate_append_same One_nat_def Suc_eq_plus1)
  then show ?thesis
    unfolding lcs_table_def Let_def
    by (intro fold_upt_inv [where P = "\<lambda>i. tab_ok old new i 1"] row) auto
qed

lemma lcs_table_nth:
  "i \<le> length old \<Longrightarrow> j \<le> length new \<Longrightarrow> lcs_table old new ! i ! j = lcs old new i j"
  using lcs_table_ok [of old new] by (simp add: tab_ok_def)

text \<open>The loop's induction, one case per branch.\<close>

lemma diff_loop_induct [case_names stop same add rem]:
  assumes "i \<le> length old" and "j \<le> length new"
    and stop: "P 0 0 []"
    and same: "\<And>i j d. i < length old \<Longrightarrow> j < length new \<Longrightarrow> old ! i = new ! j \<Longrightarrow> P i j d \<Longrightarrow>
      P (Suc i) (Suc j) (Context (old ! i) # d)"
    and add: "\<And>i j d. i \<le> length old \<Longrightarrow> j < length new \<Longrightarrow> (i = 0 \<or> old ! (i - 1) \<noteq> new ! j \<and>
      t ! (i - 1) ! Suc j \<le> t ! i ! j) \<Longrightarrow> P i j d \<Longrightarrow> P i (Suc j) (Added (new ! j) # d)"
    and rem: "\<And>i j d. i < length old \<Longrightarrow> j \<le> length new \<Longrightarrow> (j = 0 \<or> old ! i \<noteq> new ! (j - 1) \<and>
      \<not> t ! i ! j \<le> t ! Suc i ! (j - 1)) \<Longrightarrow> P i j d \<Longrightarrow> P (Suc i) j (Removed (old ! i) # d)"
  shows "P i j (diff_loop old new t i j)"
  using assms(1,2)
proof (induction "i + j" arbitrary: i j rule: less_induct)
  case less
  consider (zero) "i = 0" "j = 0" | (eq) i' j' where "i = Suc i'" "j = Suc j'" "old ! i' = new ! j'"
    | (addl) j' where "j = Suc j'" "\<not> (0 < i \<and> old ! (i - 1) = new ! j')"
        "i = 0 \<or> t ! (i - 1) ! j \<le> t ! i ! j'"
    | (remv) i' where "i = Suc i'" "\<not> (0 < j \<and> old ! i' = new ! (j - 1))"
        "\<not> (0 < j \<and> t ! i' ! j \<le> t ! i ! (j - 1))"
    by (cases i; cases j) auto
  then show ?case
  proof cases
    case zero
    then show ?thesis using stop by (simp add: diff_loop.simps)
  next
    case eq
    then show ?thesis
      using same [of i' j'] less by (subst diff_loop.simps) simp
  next
    case addl
    then show ?thesis
      using add [of i j'] less by (subst diff_loop.simps) auto
  next
    case remv
    then show ?thesis
      using rem [of i' j] less by (subst diff_loop.simps) auto
  qed
qed

lemma diff_sides:
  assumes "i \<le> length old" and "j \<le> length new"
  shows "old_side (rev (diff_loop old new t i j)) = take i old
    \<and> new_side (rev (diff_loop old new t i j)) = take j new"
  by (rule diff_loop_induct [OF assms, where P = "\<lambda>i j d. old_side (rev d) = take i old
      \<and> new_side (rev d) = take j new" and t = t])
    (auto simp: old_side_def new_side_def take_Suc_conv_app_nth)

text \<open>With the right table the diff keeps as many lines as a longest common subsequence has.\<close>

lemma diff_common:
  assumes "i \<le> length old" and "j \<le> length new"
  shows "length (concat (map common_part (diff_loop old new (lcs_table old new) i j))) = lcs old new i j"
proof (rule diff_loop_induct [OF assms, where P = "\<lambda>i j d. length (concat (map common_part d)) = lcs old new i j"
      and t = "lcs_table old new"])
  fix i j d
  assume "i \<le> length old" "j < length new" "i = 0 \<or> old ! (i - 1) \<noteq> new ! j \<and>
      lcs_table old new ! (i - 1) ! Suc j \<le> lcs_table old new ! i ! j"
    "length (concat (map common_part d)) = lcs old new i j"
  then show "length (concat (map common_part (Added (new ! j) # d))) = lcs old new i (Suc j)"
    by (cases i) (auto simp: lcs_table_nth)
next
  fix i j d
  assume "i < length old" "j \<le> length new" "j = 0 \<or> old ! i \<noteq> new ! (j - 1) \<and>
      \<not> lcs_table old new ! i ! j \<le> lcs_table old new ! Suc i ! (j - 1)"
    "length (concat (map common_part d)) = lcs old new i j"
  then show "length (concat (map common_part (Removed (old ! i) # d))) = lcs old new (Suc i) j"
    by (cases j) (auto simp: lcs_table_nth)
qed auto

lemma subseq_snoc_iff:
  "subseq (zs @ [z]) (xs @ [x]) \<longleftrightarrow> (if z = x then subseq zs xs else subseq (zs @ [z]) xs)"
proof (cases "z = x")
  case True
  then show ?thesis by (simp add: subseq_append)
next
  case False
  have "subseq (zs @ [z]) xs" if "subseq (zs @ [z]) (xs @ [x])"
  proof -
    from that obtain us vs where uv: "zs @ [z] = us @ vs" "subseq us xs" "subseq vs [x]"
      by (auto simp: subseq_append_iff)
    have "vs = []"
    proof (cases vs rule: rev_cases)
      case (snoc ws v)
      with uv(1) have "v = z" by simp
      with uv(3) snoc False show ?thesis by (cases ws) (auto split: if_splits)
    qed
    with uv show ?thesis by simp
  qed
  then show ?thesis using False by (auto intro: subseq_rev_drop_many)
qed

lemma lcs_optimal:
  assumes "i \<le> length old" "j \<le> length new" "subseq zs (take i old)" "subseq zs (take j new)"
  shows "length zs \<le> lcs old new i j"
  using assms
proof (induction old new i j arbitrary: zs rule: lcs.induct)
  case (3 old new i j)
  show ?case
  proof (cases zs rule: rev_cases)
    case (snoc us u)
    have t: "take (Suc i) old = take i old @ [old ! i]" "take (Suc j) new = take j new @ [new ! j]"
      using "3.prems" by (simp_all add: take_Suc_conv_app_nth)
    have sub: "subseq (us @ [u]) xs \<Longrightarrow> subseq us xs" for xs
      by (meson subseq_order.trans subseq_rev_drop_many list_emb_append2 subseq_order.refl)
    show ?thesis
    proof (cases "old ! i = new ! j")
      case True
      then have "subseq us (take i old)" "subseq us (take j new)"
        using "3.prems"(3,4) sub unfolding snoc t by (auto simp: subseq_snoc_iff split: if_splits)
      with "3.IH"(1) [OF True, of us] "3.prems" True snoc show ?thesis by simp
    next
      case False
      show ?thesis
      proof (cases "u = old ! i")
        case True
        then have "subseq zs (take j new)"
          using "3.prems"(4) False unfolding snoc t by (auto simp: subseq_snoc_iff)
        with "3.IH"(3) [OF False, of zs] "3.prems" False show ?thesis by simp
      next
        case ne: False
        then have "subseq zs (take i old)"
          using "3.prems"(3) unfolding snoc t by (auto simp: subseq_snoc_iff)
        with "3.IH"(2) [OF False, of zs] "3.prems" False show ?thesis by simp
      qed
    qed
  qed simp
qed auto

lemma common_subseq: "subseq (concat (map common_part d)) (old_side d) \<and> subseq (concat (map common_part d)) (new_side d)"
  unfolding old_side_def new_side_def
proof (induction d)
  case (Cons l d)
  then show ?case by (cases l) auto
qed simp

lemma side_lengths:
  "length (old_side d) = length (concat (map common_part d)) + length (filter is_removed d)
   \<and> length (new_side d) = length (concat (map common_part d)) + length (filter is_added d)"
  unfolding old_side_def new_side_def
proof (induction d)
  case (Cons l d)
  then show ?case by (cases l) auto
qed simp

lemma split_lines_inject: "split_lines a = split_lines b \<longleftrightarrow> a = b"
  by (metis join_split_on split_lines_def split_on_ne)

lemma length_common_rev:
  "length (concat (map common_part (rev d))) = length (concat (map common_part d))"
  by (induction d) auto

section \<open>Properties\<close>

text \<open>
  C35. A delta carries both versions: its context and removed lines, joined, are the old text, its
  context and added lines are the new text, and the counters are the numbers of added and of
  removed lines; both counters are zero only for equal texts, trailing newlines and carriage
  returns included.
\<close>

theorem delta_rebuilds:
  "let d = compute_delta old new in
     join [CHR 0x0A] (old_side (cd_lines d)) = old \<and> join [CHR 0x0A] (new_side (cd_lines d)) = new
     \<and> cd_additions d = length (filter is_added (cd_lines d))
     \<and> cd_removals d = length (filter is_removed (cd_lines d))
     \<and> (cd_additions d = 0 \<and> cd_removals d = 0 \<longleftrightarrow> old = new)"
proof -
  let ?d = "build_diff (split_lines old) (split_lines new) (lcs_table (split_lines old) (split_lines new))"
  have sides: "old_side ?d = split_lines old" "new_side ?d = split_lines new"
    using diff_sides [of "length (split_lines old)" "split_lines old" "length (split_lines new)" "split_lines new"]
    by (simp_all add: build_diff_def)
  have j: "join [CHR 0x0A] (split_lines s) = s" for s by (simp add: split_lines_def join_split_on)
  have same: "old_side d = new_side d" if "filter is_added d = []" "filter is_removed d = []" for d
    using that unfolding old_side_def new_side_def
    by (intro arg_cong [of _ _ concat] map_cong refl) (rename_tac l, case_tac l, auto simp: filter_empty_conv)
  have "filter is_added ?d = [] \<and> filter is_removed ?d = []" if "old = new"
  proof -
    have "length (concat (map common_part ?d)) = length (split_lines old)"
    proof (rule antisym)
      show "length (concat (map common_part ?d)) \<le> length (split_lines old)"
        using side_lengths [of ?d] sides by simp
      have "length (split_lines old) \<le> lcs (split_lines old) (split_lines old) (length (split_lines old)) (length (split_lines old))"
        by (rule lcs_optimal) auto
      then show "length (split_lines old) \<le> length (concat (map common_part ?d))"
        using that unfolding build_diff_def length_common_rev by (simp add: diff_common)
    qed
    then show ?thesis using side_lengths [of ?d] sides that by simp
  qed
  then show ?thesis
    using sides j same [of ?d] split_lines_inject [of old new] by (auto simp: compute_delta_def Let_def)
qed

text \<open>
  C34. The delta is minimal: no script of kept, added and removed lines between the two texts adds
  fewer lines or removes fewer.
\<close>

theorem delta_minimal:
  assumes "old_side script = split_lines old" and "new_side script = split_lines new"
  shows "cd_additions (compute_delta old new) \<le> length (filter is_added script)
    \<and> cd_removals (compute_delta old new) \<le> length (filter is_removed script)"
proof -
  let ?o = "split_lines old" and ?n = "split_lines new"
  let ?d = "build_diff ?o ?n (lcs_table ?o ?n)"
  have sides: "old_side ?d = ?o" "new_side ?d = ?n"
    using diff_sides [of "length ?o" ?o "length ?n" ?n] by (simp_all add: build_diff_def)
  have "length (concat (map common_part script)) \<le> lcs ?o ?n (length ?o) (length ?n)"
    using common_subseq [of script] assms by (intro lcs_optimal) auto
  also have "\<dots> = length (concat (map common_part ?d))"
    unfolding build_diff_def length_common_rev by (simp add: diff_common)
  finally show ?thesis
    using side_lengths [of ?d] side_lengths [of script] sides assms
    by (simp add: compute_delta_def Let_def)
qed

lemma delta_minimal_witness:
  "cd_additions (compute_delta ''a'' ''b'') \<le> 1"
  using delta_minimal [of "[Removed ''a'', Added ''b'']" "''a''" "''b''"]
  by (simp add: old_side_def new_side_def split_lines_def)

end
