(* ===== verification/Memory.thy ===== *)
theory Memory
  imports Prelude Float_Model
begin

text \<open>
  The memory model behind FSRS eviction, \<open>ministr-core/src/session/memory.rs\<close>: a
  stability and a difficulty per section, the retrievability computed from them, and their update
  on access. \<open>exp\<close> and \<open>powf\<close> come from the platform's C library and are
  the record \<open>libm\<close>, an argument of the update; nothing is assumed of them. \<open>powi(-1)\<close>
  is the reciprocal.
\<close>

record libm =
  m_exp :: "f64 \<Rightarrow> f64"
  m_powf :: "f64 \<Rightarrow> f64 \<Rightarrow> f64"

definition DEFAULT_STABILITY :: f64 where
  "DEFAULT_STABILITY = 1"

definition DEFAULT_DIFFICULTY :: f64 where
  "DEFAULT_DIFFICULTY = rnd64 (3 / 10)"

definition MIN_STABILITY :: f64 where
  "MIN_STABILITY = rnd64 (1 / 100)"

record memory_state =
  ms_stability :: f64
  ms_difficulty :: f64
  ms_last_access_turn :: nat
  ms_access_count :: nat

datatype access_rating = Again | Good | Easy

definition new_with_rating :: "nat \<Rightarrow> access_rating \<Rightarrow> memory_state" where
  "new_with_rating turn rating =
     (let (stability, difficulty) =
        (case rating of
           Good \<Rightarrow> (DEFAULT_STABILITY, DEFAULT_DIFFICULTY)
         | Easy \<Rightarrow> (DEFAULT_STABILITY, max (fsub DEFAULT_DIFFICULTY (rnd64 (1 / 10))) 0)
         | Again \<Rightarrow> (DEFAULT_STABILITY, DEFAULT_DIFFICULTY))
      in \<lparr>ms_stability = stability, ms_difficulty = difficulty, ms_last_access_turn = turn,
          ms_access_count = 1\<rparr>)"

definition memory_state_new :: "nat \<Rightarrow> memory_state" where
  "memory_state_new turn = new_with_rating turn Good"

definition fsrs_curve :: "nat \<Rightarrow> f64 \<Rightarrow> f64" where
  "fsrs_curve t s = fdiv 1 (fadd 1 (fdiv (f64_of_nat t) (fmul 9 s)))"

definition state_retrievability :: "memory_state \<Rightarrow> nat \<Rightarrow> f64" where
  "state_retrievability m current_turn =
     fsrs_curve (current_turn - ms_last_access_turn m) (max (ms_stability m) MIN_STABILITY)"

definition update_on_access :: "libm \<Rightarrow> nat \<Rightarrow> access_rating \<Rightarrow> memory_state \<Rightarrow> memory_state" where
  "update_on_access L current_turn rating m =
     (let r = state_retrievability m current_turn;
          difficulty =
            (case rating of
               Again \<Rightarrow> min (fadd (ms_difficulty m) (rnd64 (2 / 10))) 1
             | Good \<Rightarrow> ms_difficulty m
             | Easy \<Rightarrow> max (fsub (ms_difficulty m) (rnd64 (1 / 10))) 0);
          grown =
            (let d_factor = max (fsub 11 (fmul difficulty 10)) 1;
                 s_factor = m_powf L (ms_stability m) (rnd64 (- (2 / 10)));
                 r_factor = fsub (m_exp L (fmul (rnd64 (5 / 100)) (fsub 1 r))) 1;
                 growth = fadd 1 (fmul (fmul (fmul (m_exp L (rnd64 (1 / 10))) d_factor) s_factor)
                                    r_factor)
             in fmul (ms_stability m) (max growth (rnd64 (101 / 100))));
          stability =
            (case rating of
               Again \<Rightarrow> max (fmul (ms_stability m) (1 / 2)) MIN_STABILITY
             | Good \<Rightarrow> grown
             | Easy \<Rightarrow> grown)
      in \<lparr>ms_stability = stability, ms_difficulty = difficulty,
          ms_last_access_turn = current_turn,
          ms_access_count = add_u32 (ms_access_count m) 1\<rparr>)"

type_synonym memory_tracker = "(string \<times> memory_state) list"

definition record_access ::
  "libm \<Rightarrow> string \<Rightarrow> nat \<Rightarrow> access_rating \<Rightarrow> memory_tracker \<Rightarrow> memory_tracker" where
  "record_access L content_id turn rating mem =
     (case map_of mem content_id of
        Some m \<Rightarrow> AList.update content_id (update_on_access L turn rating m) mem
      | None \<Rightarrow> AList.update content_id (new_with_rating turn rating) mem)"

definition retrievability :: "string \<Rightarrow> nat \<Rightarrow> memory_tracker \<Rightarrow> f64" where
  "retrievability content_id current_turn mem =
     (case map_of mem content_id of None \<Rightarrow> 0 | Some m \<Rightarrow> state_retrievability m current_turn)"

definition salience_adjusted_retrievability ::
  "string \<Rightarrow> nat \<Rightarrow> f64 \<Rightarrow> memory_tracker \<Rightarrow> f64" where
  "salience_adjusted_retrievability content_id current_turn salience mem =
     (case map_of mem content_id of
        None \<Rightarrow> 0
      | Some m \<Rightarrow>
          if salience \<le> 0 then state_retrievability m current_turn
          else
            (let boosted_stability = fmul (ms_stability m) (fadd 1 (fmul 2 salience))
             in fsrs_curve (current_turn - ms_last_access_turn m)
                  (max boosted_stability MIN_STABILITY)))"

definition load_from_persisted :: "(string \<times> memory_state) list \<Rightarrow> f64 \<Rightarrow> memory_tracker" where
  "load_from_persisted states hours_since_last_session =
     (let hours = max hours_since_last_session 0;
          decay_factor = fdiv 1 (fadd 1 (fdiv hours 168))
      in fold (\<lambda>(i, m) tracker.
           AList.update i
             (m\<lparr>ms_stability := max (fmul (ms_stability m) decay_factor) MIN_STABILITY,
                ms_last_access_turn := 0\<rparr>) tracker) states [])"

section \<open>Invariant\<close>

definition state_ok :: "memory_state \<Rightarrow> bool" where
  "state_ok m \<longleftrightarrow> rnd64 (ms_stability m) = ms_stability m \<and> MIN_STABILITY \<le> ms_stability m
     \<and> 0 \<le> ms_difficulty m \<and> ms_difficulty m \<le> 1"

definition memory_ok :: "memory_tracker \<Rightarrow> bool" where
  "memory_ok mem \<longleftrightarrow> distinct (map fst mem)
     \<and> list_all (\<lambda>(i, m). state_ok m) mem"

section \<open>Lemmas\<close>

lemma MIN_STABILITY_pos: "0 < MIN_STABILITY"
  by (simp only: MIN_STABILITY_def) code_simp

lemma MIN_STABILITY_rnd: "rnd64 MIN_STABILITY = MIN_STABILITY"
  by (simp only: MIN_STABILITY_def) code_simp

lemma rnd64_floored: "rnd64 (max (fmul a b) MIN_STABILITY) = max (fmul a b) MIN_STABILITY"
  by (simp add: max_def MIN_STABILITY_rnd)

lemma MIN_STABILITY_le_1: "MIN_STABILITY \<le> 1"
  by (simp add: MIN_STABILITY_def rnd64_le_1)

lemma growth_floor: "1 \<le> rnd64 (101 / 100)"
  by (rule rnd64_ge_1) simp

lemma fmul_9_pos: "MIN_STABILITY \<le> s \<Longrightarrow> 0 < fmul 9 s"
proof -
  assume "MIN_STABILITY \<le> s"
  then have "rnd64 (9 * MIN_STABILITY) \<le> fmul 9 s" by (simp add: fmul_def rnd64_mono)
  moreover have "0 < rnd64 (9 * MIN_STABILITY)" by (simp only: MIN_STABILITY_def) code_simp
  ultimately show ?thesis by simp
qed

lemma fdiv_antimono: "0 \<le> a \<Longrightarrow> 0 < b \<Longrightarrow> b \<le> c \<Longrightarrow> fdiv a c \<le> fdiv a b"
  by (simp add: fdiv_def rnd64_mono frac_le)

lemma curve_arg:
  "MIN_STABILITY \<le> s \<Longrightarrow> 1 \<le> fadd 1 (fdiv (f64_of_nat t) (fmul 9 s))"
  using fmul_9_pos [of s] fdiv_nonneg [of "f64_of_nat t" "fmul 9 s"]
  by (simp add: fadd_def rnd64_ge_1)

lemma curve_bounds:
  assumes "MIN_STABILITY \<le> s"
  shows "0 \<le> fsrs_curve t s \<and> fsrs_curve t s \<le> 1"
  using curve_arg [OF assms, of t] by (auto simp: fsrs_curve_def intro: fdiv_nonneg fdiv_le_1)

text \<open>Longer absence never raises the curve, more stability never lowers it.\<close>

lemma curve_mono:
  assumes "MIN_STABILITY \<le> s" and "s \<le> s'" and "t' \<le> t"
  shows "fsrs_curve t s \<le> fsrs_curve t' s'"
proof -
  have p: "0 < fmul 9 s" "0 < fmul 9 s'" using assms by (auto intro: fmul_9_pos order_trans)
  have "fdiv (f64_of_nat t') (fmul 9 s') \<le> fdiv (f64_of_nat t) (fmul 9 s')"
    using p assms(3) by (intro fdiv_mono_num f64_of_nat_mono)
  also have "\<dots> \<le> fdiv (f64_of_nat t) (fmul 9 s)"
    using p assms(2) by (intro fdiv_antimono) (auto simp: fmul_def rnd64_mono)
  finally have "fadd 1 (fdiv (f64_of_nat t') (fmul 9 s')) \<le> fadd 1 (fdiv (f64_of_nat t) (fmul 9 s))"
    by (simp add: fadd_def rnd64_mono)
  moreover have "0 < fadd 1 (fdiv (f64_of_nat t') (fmul 9 s'))"
    using curve_arg [of s' t'] assms by (meson less_le_trans order_trans zero_less_one)
  ultimately show ?thesis unfolding fsrs_curve_def by (intro fdiv_antimono) auto
qed

lemma fdiv_1_1 [simp]: "fdiv 1 1 = 1"
  by (simp add: fdiv_def)

lemma curve_0: "fsrs_curve 0 s = 1"
  by (simp add: fsrs_curve_def fadd_def fdiv_def)

lemma grown_ge_min: "MIN_STABILITY \<le> s \<Longrightarrow> MIN_STABILITY \<le> fmul s (max g (rnd64 (101 / 100)))"
proof -
  assume s: "MIN_STABILITY \<le> s"
  have "1 \<le> max g (rnd64 (101 / 100))" using growth_floor by simp
  then have "MIN_STABILITY * 1 \<le> s * max g (rnd64 (101 / 100))"
    using s MIN_STABILITY_pos by (intro mult_mono) auto
  from rnd64_mono [OF this] show ?thesis by (simp add: fmul_def MIN_STABILITY_rnd)
qed

lemma rnd64_tenths: "0 \<le> rnd64 (1 / 10)" "0 \<le> rnd64 (1 / 5)"
  by (simp_all add: rnd64_nonneg)

lemma easier_bounds: "d \<le> 1 \<Longrightarrow> fsub d (rnd64 (1 / 10)) \<le> 1"
  using rnd64_tenths by (auto simp: fsub_def intro: rnd64_le_1)

lemma harder_bounds: "0 \<le> d \<Longrightarrow> 0 \<le> fadd d (rnd64 (1 / 5))"
  using rnd64_tenths by (auto simp: fadd_def intro: rnd64_nonneg)

lemma default_difficulty: "0 \<le> DEFAULT_DIFFICULTY" "DEFAULT_DIFFICULTY \<le> 1"
  by (simp_all add: DEFAULT_DIFFICULTY_def rnd64_nonneg rnd64_le_1)

lemma update_on_access_ok: "state_ok m \<Longrightarrow> state_ok (update_on_access L turn rating m)"
  by (cases rating)
    (simp_all add: state_ok_def update_on_access_def Let_def grown_ge_min easier_bounds harder_bounds
      rnd64_floored)

lemma new_with_rating_ok: "state_ok (new_with_rating turn rating)"
  using default_difficulty MIN_STABILITY_le_1
  by (cases rating) (simp_all add: state_ok_def new_with_rating_def DEFAULT_STABILITY_def easier_bounds)

lemma memory_ok_update: "memory_ok mem \<Longrightarrow> state_ok m \<Longrightarrow> memory_ok (AList.update i m mem)"
  using set_alist_update_subset [of i m mem]
  by (fastforce simp: memory_ok_def distinct_update list_all_iff)

lemma memory_okD: "memory_ok mem \<Longrightarrow> map_of mem i = Some m \<Longrightarrow> state_ok m"
  by (auto simp: memory_ok_def list_all_iff dest!: map_of_SomeD)

lemma record_access_ok: "memory_ok mem \<Longrightarrow> memory_ok (record_access L i turn rating mem)"
  unfolding record_access_def
  by (cases "map_of mem i")
    (auto intro!: memory_ok_update update_on_access_ok new_with_rating_ok dest: memory_okD)

lemma load_ok:
  assumes "\<forall>(i, m) \<in> set states. 0 \<le> ms_difficulty m \<and> ms_difficulty m \<le> 1"
  shows "memory_ok (load_from_persisted states h)"
proof -
  have "memory_ok acc \<Longrightarrow> memory_ok (fold (\<lambda>(i, m) tracker. AList.update i
      (m\<lparr>ms_stability := max (fmul (ms_stability m) f) MIN_STABILITY, ms_last_access_turn := 0\<rparr>) tracker)
      states acc)" for f acc
    using assms
  proof (induction states arbitrary: acc)
    case (Cons p ps)
    obtain i m where p: "p = (i, m)" by fastforce
    have "state_ok (m\<lparr>ms_stability := max (fmul (ms_stability m) f) MIN_STABILITY, ms_last_access_turn := 0\<rparr>)"
      using Cons.prems(2) by (simp add: p state_ok_def rnd64_floored)
    from memory_ok_update [OF Cons.prems(1) this, of i] Cons.prems(2) show ?case
      by (simp add: p Cons.IH)
  qed simp
  from this [of "[]"] show ?thesis by (simp add: load_from_persisted_def Let_def memory_ok_def)
qed

text \<open>Retrievability is a probability whatever the memory holds: the floor on stability sees to it.\<close>

lemma retrievability_unit: "0 \<le> retrievability i turn mem \<and> retrievability i turn mem \<le> 1"
  using curve_bounds by (auto simp: retrievability_def state_retrievability_def split: option.splits)

lemma salience_adjusted_unit:
  "0 \<le> salience_adjusted_retrievability i turn sal mem \<and> salience_adjusted_retrievability i turn sal mem \<le> 1"
  using curve_bounds
  by (auto simp: salience_adjusted_retrievability_def state_retrievability_def Let_def split: option.splits)

section \<open>Properties\<close>

text \<open>
  C40. Retrievability behaves as a forgetting curve, rounding included: it is a number between 0 and 1,
  1 on the turn of the last access, never rises as turns pass, and task salience never
  lowers it.
\<close>

theorem retrievability_curve:
  assumes "memory_ok mem" and "map_of mem i = Some m" and "turn \<le> turn'"
  shows "0 \<le> retrievability i turn mem \<and> retrievability i turn mem \<le> 1
    \<and> retrievability i (ms_last_access_turn m) mem = 1
    \<and> retrievability i turn' mem \<le> retrievability i turn mem
    \<and> retrievability i turn mem \<le> salience_adjusted_retrievability i turn salience mem"
proof -
  have st: "MIN_STABILITY \<le> ms_stability m" "rnd64 (ms_stability m) = ms_stability m"
    using memory_okD [OF assms(1,2)] by (simp_all add: state_ok_def)
  have "retrievability i turn' mem \<le> retrievability i turn mem"
    using assms(3) st by (auto simp: retrievability_def state_retrievability_def assms(2) intro!: curve_mono)
  moreover have "retrievability i (ms_last_access_turn m) mem = 1"
    by (simp add: retrievability_def state_retrievability_def assms(2) curve_0)
  moreover have "retrievability i turn mem \<le> salience_adjusted_retrievability i turn salience mem"
  proof (cases "salience \<le> 0")
    case True
    then show ?thesis by (simp add: salience_adjusted_retrievability_def retrievability_def assms(2))
  next
    case False
    have "1 \<le> fadd 1 (fmul 2 salience)"
      using False by (simp add: fadd_def fmul_def rnd64_ge_1 rnd64_nonneg)
    then have "ms_stability m * 1 \<le> ms_stability m * fadd 1 (fmul 2 salience)"
      using st MIN_STABILITY_pos by (intro mult_left_mono) auto
    from rnd64_mono [OF this] have "ms_stability m \<le> fmul (ms_stability m) (fadd 1 (fmul 2 salience))"
      by (simp add: fmul_def st(2))
    with False st show ?thesis
      by (auto simp: salience_adjusted_retrievability_def retrievability_def state_retrievability_def
          assms(2) Let_def intro!: curve_mono)
  qed
  ultimately show ?thesis using retrievability_unit [of i turn mem] by simp
qed

lemma retrievability_curve_witness:
  "retrievability ''a'' 9 (record_access \<lparr>m_exp = (\<lambda>x. 1), m_powf = (\<lambda>x y. 1)\<rparr> ''a'' 3 Good [])
     \<le> retrievability ''a'' 5 (record_access \<lparr>m_exp = (\<lambda>x. 1), m_powf = (\<lambda>x y. 1)\<rparr> ''a'' 3 Good [])"
proof -
  let ?L = "\<lparr>m_exp = (\<lambda>x. 1), m_powf = (\<lambda>x y. 1)\<rparr>"
  have "memory_ok (record_access ?L ''a'' 3 Good [])" by (rule record_access_ok) (simp add: memory_ok_def)
  moreover have "map_of (record_access ?L ''a'' 3 Good []) ''a'' = Some (new_with_rating 3 Good)"
    by (simp add: record_access_def)
  ultimately show ?thesis using retrievability_curve by fastforce
qed

text \<open>
  Whatever accesses are recorded and however the memory was loaded, every section's stability
  stays at or above its floor and its difficulty between 0 and 1, for any \<open>exp\<close> and \<open>powf\<close>
  the platform has: the clamps alone guarantee it, and no stability is lost on a normal access.
\<close>

theorem memory_bounds_kept:
  assumes "memory_ok mem"
  shows "memory_ok (fold (\<lambda>(i, turn, rating). record_access L i turn rating) accesses mem)
    \<and> (\<forall>i m. map_of mem i = Some m \<and> rating \<noteq> Again \<longrightarrow>
         ms_stability m \<le> ms_stability (update_on_access L turn rating m))"
proof -
  have "memory_ok (fold (\<lambda>(i, turn, rating). record_access L i turn rating) accesses mem)"
    using assms by (induction accesses arbitrary: mem) (auto simp: record_access_ok)
  moreover have "ms_stability m \<le> ms_stability (update_on_access L turn rating m)"
    if "map_of mem i = Some m" "rating \<noteq> Again" for i m
  proof -
    have st: "MIN_STABILITY \<le> ms_stability m" "rnd64 (ms_stability m) = ms_stability m"
      using memory_okD [OF assms that(1)] by (simp_all add: state_ok_def)
    have "ms_stability m \<le> fmul (ms_stability m) (max g (rnd64 (101 / 100)))" for g
    proof -
      have "ms_stability m * 1 \<le> ms_stability m * max g (rnd64 (101 / 100))"
        using st(1) MIN_STABILITY_pos growth_floor by (intro mult_left_mono) auto
      from rnd64_mono [OF this] show ?thesis by (simp add: fmul_def st(2))
    qed
    with that(2) show ?thesis by (cases rating) (simp_all add: update_on_access_def Let_def)
  qed
  ultimately show ?thesis by blast
qed

lemma memory_bounds_kept_witness:
  "memory_ok (fold (\<lambda>(i, turn, rating). record_access \<lparr>m_exp = (\<lambda>x. 1), m_powf = (\<lambda>x y. 1)\<rparr> i turn rating)
     [(''a'', 1, Good), (''a'', 4, Again)] [])"
  using memory_bounds_kept [of "[]" "\<lparr>m_exp = (\<lambda>x. 1), m_powf = (\<lambda>x y. 1)\<rparr>"
      "[(''a'', 1, Good), (''a'', 4, Again)]"]
  by (simp add: memory_ok_def)

end
