(* ===== verification/Compression.thy ===== *)
theory Compression
  imports Prelude Float_Model Session
begin

text \<open>
  The compression pipeline, \<open>ministr-core/src/session/compression.rs\<close>: which
  tier a delivered item should move to at a usage level, what that would free, and the list
  of promotions for a session.
\<close>

datatype usage_level = Normal | Elevated | Critical

record tier_promotion =
  tp_content_id :: string
  tp_identity :: delivery_identity
  tp_current_tier :: compression_tier
  tp_recommended_tier :: compression_tier
  tp_estimated_tokens_freed :: nat

fun next_tier :: "compression_tier \<Rightarrow> usage_level \<Rightarrow> compression_tier option" where
  "next_tier current Normal = None"
| "next_tier Full Elevated = Some Extractive"
| "next_tier Abstractive Elevated = Some Bookmark"
| "next_tier Extractive Elevated = Some Bookmark"
| "next_tier Bookmark Elevated = None"
| "next_tier Evicted Elevated = None"
| "next_tier Full Critical = Some Abstractive"
| "next_tier Abstractive Critical = Some Bookmark"
| "next_tier Extractive Critical = Some Bookmark"
| "next_tier Bookmark Critical = Some Evicted"
| "next_tier Evicted Critical = None"

definition scaled_tokens :: "nat \<Rightarrow> compression_tier \<Rightarrow> compression_tier \<Rightarrow> nat" where
  "scaled_tokens current_tokens current other =
     (let current_ratio = retention_ratio current; target_ratio = retention_ratio other
      in if current_ratio \<le> 0 then current_tokens
         else
           (let scale = min (fdiv target_ratio current_ratio) 1
            in f64_to_usize (fmul (f64_of_nat current_tokens) scale)))"

definition estimate_tokens_freed :: "delivered_item \<Rightarrow> compression_tier \<Rightarrow> nat" where
  "estimate_tokens_freed it target =
     (let current_tokens = it_token_count it;
          estimated_remaining =
            (case target of
               Full \<Rightarrow> current_tokens
             | Bookmark \<Rightarrow> 5
             | Evicted \<Rightarrow> 0
             | Abstractive \<Rightarrow> scaled_tokens current_tokens (it_compression_tier it) Abstractive
             | Extractive \<Rightarrow> scaled_tokens current_tokens (it_compression_tier it) Extractive)
      in current_tokens - estimated_remaining)"

definition promotion_of ::
  "nat \<Rightarrow> usage_level \<Rightarrow> nat \<Rightarrow> delivered_item \<Rightarrow> tier_promotion option" where
  "promotion_of current_turn pressure recency_protection_turns it =
     (if pressure = Elevated \<and> current_turn - it_turn_delivered it < recency_protection_turns
      then None
      else
        (case next_tier (it_compression_tier it) pressure of
           None \<Rightarrow> None
         | Some next \<Rightarrow>
             Some \<lparr>tp_content_id = it_content_id it, tp_identity = item_identity it,
                   tp_current_tier = it_compression_tier it, tp_recommended_tier = next,
                   tp_estimated_tokens_freed = estimate_tokens_freed it next\<rparr>))"

definition recommend_promotions :: "session \<Rightarrow> usage_level \<Rightarrow> nat \<Rightarrow> tier_promotion list" where
  "recommend_promotions s pressure recency_protection_turns =
     (if pressure = Normal then []
      else
        sort_key (\<lambda>p. - int (tp_estimated_tokens_freed p))
          (List.map_filter (promotion_of (s_current_turn s) pressure recency_protection_turns)
             (delivered_values s)))"

section \<open>Lemmas\<close>

text \<open>Promotion repeated \<open>n\<close> times at one usage level, stopping where none is recommended.\<close>

fun promote_times :: "nat \<Rightarrow> usage_level \<Rightarrow> compression_tier \<Rightarrow> compression_tier" where
  "promote_times 0 level t = t"
| "promote_times (Suc n) level t =
     (case next_tier t level of None \<Rightarrow> t | Some t' \<Rightarrow> promote_times n level t')"

lemma retention_values:
  "retention_ratio Abstractive \<le> retention_ratio Extractive"
  "retention_ratio Extractive \<le> 1" "0 \<le> retention_ratio Abstractive" "0 \<le> retention_ratio Extractive"
  by (simp_all add: rnd64_mono rnd64_le_1 rnd64_nonneg)

lemma map_filter_mem: "y \<in> set (List.map_filter f xs) \<longleftrightarrow> (\<exists>x \<in> set xs. f x = Some y)"
  by (induction xs) (auto simp: List.map_filter_simps split: option.splits)

section \<open>Properties\<close>

text \<open>
  A recommended promotion never goes to a tier that retains more, at no usage level, and the
  chain of promotions ends: after three promotions at the critical level every item is evicted, after
  two at the elevated level it is a bookmark (or was evicted already).
\<close>

theorem promotions_degrade_and_end:
  "(\<forall>t level t'. next_tier t level = Some t' \<longrightarrow> retention_ratio t' \<le> retention_ratio t \<and> t' \<noteq> t)
   \<and> promote_times 3 Critical t = Evicted
   \<and> promote_times 2 Elevated t \<in> {Bookmark, Evicted}
   \<and> promote_times n Normal t = t"
proof (intro conjI allI impI)
  fix t level t' assume n: "next_tier t level = Some t'"
  show "retention_ratio t' \<le> retention_ratio t"
    using n retention_values by (cases t; cases level) (auto simp del: retention_ratio.simps(2,3))
  show "t' \<noteq> t" using n by (cases t; cases level) auto
next
  show "promote_times 3 Critical t = Evicted" by (cases t) (simp_all add: eval_nat_numeral)
  show "promote_times 2 Elevated t \<in> {Bookmark, Evicted}" by (cases t) (simp_all add: eval_nat_numeral)
  show "promote_times n Normal t = t" by (cases n) auto
qed

lemma promotions_degrade_and_end_witness: "retention_ratio Bookmark \<le> retention_ratio Abstractive"
  using promotions_degrade_and_end by (metis next_tier.simps(3))

text \<open>
  The documented order of tiers is not the one taken: no usage level ever moves an item from the
  abstractive to the extractive tier, although the module and the enumeration describe
  the progression as full, abstractive, extractive, bookmark, evicted.
\<close>

theorem abstractive_never_extractive:
  "next_tier Abstractive level \<noteq> Some Extractive
   \<and> retention_ratio Abstractive < retention_ratio Extractive
   \<and> Abstractive < Extractive"
proof -
  have "retention_ratio Abstractive < retention_ratio Extractive" by code_simp
  then show ?thesis by (cases level) (simp_all add: less_compression_tier_def)
qed

text \<open>
  The recommendations for a session are exactly the promotions of its delivered items, each
  estimating no more freed tokens than the item has, in descending order of the estimate;
  under elevated usage none of them is for an item delivered within the protected turns.
\<close>

theorem recommendations_exact:
  assumes "pressure \<noteq> Normal"
  shows "let ps = recommend_promotions s pressure turns in
    (\<forall>p. p \<in> set ps \<longleftrightarrow> (\<exists>it \<in> set (delivered_values s).
        promotion_of (s_current_turn s) pressure turns it = Some p))
    \<and> sorted_wrt (\<lambda>p q. tp_estimated_tokens_freed q \<le> tp_estimated_tokens_freed p) ps
    \<and> (\<forall>it \<in> set (delivered_values s). \<forall>p. promotion_of (s_current_turn s) pressure turns it = Some p \<longrightarrow>
        tp_identity p = item_identity it \<and> tp_estimated_tokens_freed p \<le> it_token_count it
        \<and> (pressure = Elevated \<longrightarrow> turns \<le> s_current_turn s - it_turn_delivered it))"
proof -
  let ?k = "\<lambda>p. - int (tp_estimated_tokens_freed p)"
  have "sorted_wrt (\<lambda>p q. ?k p \<le> ?k q) (recommend_promotions s pressure turns)"
    using assms sorted_sort_key [of ?k] by (simp add: recommend_promotions_def sorted_map)
  then have "sorted_wrt (\<lambda>p q. tp_estimated_tokens_freed q \<le> tp_estimated_tokens_freed p)
      (recommend_promotions s pressure turns)"
    by (rule sorted_wrt_mono_rel [rotated]) simp
  then show ?thesis
    using assms
    by (auto simp: Let_def recommend_promotions_def map_filter_mem promotion_of_def estimate_tokens_freed_def
        split: if_splits option.splits)
qed

lemma recommendations_exact_witness:
  "recommend_promotions (session_new 0 ''s'' 10 Fifo) Critical 3 = []"
proof -
  have "\<forall>p. p \<notin> set (recommend_promotions (session_new 0 ''s'' 10 Fifo) Critical 3)"
    using recommendations_exact [of Critical "session_new 0 ''s'' 10 Fifo" 3]
    by (simp add: Let_def session_new_def)
  then show ?thesis by (metis list.set_intros(1) neq_Nil_conv)
qed

end
