(* ===== verification/Drops.thy ===== *)
theory Drops
  imports Prelude Float_Model Session Memory
begin

text \<open>
  The drop ranker, \<open>ministr-core/src/session/drops.rs\<close>: the composite score of a delivered
  item, the contiguity bonus of its neighbours in delivery order, and the ranked list of
  candidates. Lower-casing and splitting at characters that are not alphanumeric use the Unicode
  tables of the standard library, which are the record \<open>unicode\<close>, an argument of what reaches
  them. Literals such as 0.15 are rounded to the nearest \<open>f64\<close>.
\<close>

record unicode =
  uc_lower :: "string \<Rightarrow> string"
  uc_words :: "string \<Rightarrow> string list"

record drop_factors =
  df_recency :: f64
  df_token_weight :: f64
  df_position :: f64
  df_resolution :: f64
  df_salience :: f64
  df_contiguity :: f64

record drop_candidate =
  dc_content_id :: string
  dc_identity :: delivery_identity
  dc_reason :: string
  dc_tokens_recoverable :: nat
  dc_score :: f64
  dc_factors :: "drop_factors option"

definition STOP_WORDS :: "string list" where
  "STOP_WORDS =
     [''the'', ''a'', ''an'', ''in'', ''of'', ''to'', ''for'', ''and'', ''or'', ''is'', ''it'', ''by'',
      ''on'', ''at'', ''how'', ''what'', ''where'', ''when'', ''why'', ''this'', ''that'', ''with'',
      ''from'', ''are'', ''was'', ''be'', ''has'', ''had'', ''do'', ''does'', ''did'', ''not'',
      ''but'', ''if'', ''can'', ''all'', ''each'', ''which'', ''their'', ''will'', ''would'',
      ''should'', ''could'', ''about'', ''into'', ''than'']"

definition add_keyword :: "string \<Rightarrow> string list \<Rightarrow> string list" where
  "add_keyword lower keywords =
     (if 3 \<le> length lower \<and> lower \<notin> set STOP_WORDS \<and> lower \<notin> set keywords
      then keywords @ [lower] else keywords)"

definition extract_task_keywords :: "unicode \<Rightarrow> string list \<Rightarrow> string list" where
  "extract_task_keywords U queries =
     fold (\<lambda>query keywords. fold (\<lambda>word. add_keyword (uc_lower U word)) (uc_words U query) keywords)
       queries []"

definition str_contains :: "string \<Rightarrow> string \<Rightarrow> bool" where
  "str_contains haystack needle =
     list_ex (\<lambda>n. take (length needle) (drop n haystack) = needle) [0..<Suc (length haystack)]"

definition salience_for_item :: "unicode \<Rightarrow> string \<Rightarrow> string list \<Rightarrow> f64" where
  "salience_for_item U content_id task_keywords =
     (if task_keywords = [] then 0
      else
        (let id_lower = uc_lower U content_id;
             matching = length (filter (str_contains id_lower) task_keywords);
             raw = fdiv (f64_of_nat matching) (min 3 (f64_of_nat (length task_keywords)))
         in min raw 1))"

definition position_score :: "nat \<Rightarrow> nat \<Rightarrow> nat \<Rightarrow> f64" where
  "position_score turn_delivered min_turn max_turn =
     (if max_turn \<le> min_turn then 0
      else
        (let relative_pos = fdiv (f64_of_nat (turn_delivered - min_turn))
                              (f64_of_nat (max_turn - min_turn))
         in fmul (fmul 4 relative_pos) (fsub 1 relative_pos)))"

fun resolution_score :: "resolution \<Rightarrow> f64" where
  "resolution_score Summary = 1"
| "resolution_score Section = rnd64 (5 / 10)"
| "resolution_score Claim = rnd64 (2 / 10)"
| "resolution_score SymbolStub = rnd64 (8 / 10)"
| "resolution_score SymbolFull = rnd64 (4 / 10)"

definition recency_factor ::
  "delivered_item \<Rightarrow> nat \<Rightarrow> memory_tracker option \<Rightarrow> f64 \<Rightarrow> f64" where
  "recency_factor it current_turn memory salience =
     (case memory of
        Some mem \<Rightarrow>
          fsub 1 (salience_adjusted_retrievability (it_content_id it) current_turn salience mem)
      | None \<Rightarrow>
          if current_turn = 0 then 0
          else fdiv (f64_of_nat (current_turn - it_turn_delivered it)) (f64_of_nat current_turn))"

definition compute_base_score ::
  "unicode \<Rightarrow> delivered_item \<Rightarrow> nat \<Rightarrow> nat \<Rightarrow> nat \<Rightarrow> nat \<Rightarrow> memory_tracker option \<Rightarrow> string list
     \<Rightarrow> f64 \<times> drop_factors" where
  "compute_base_score U it current_turn max_tokens min_turn max_turn memory task_keywords =
     (let salience = salience_for_item U (it_content_id it) task_keywords;
          recency = recency_factor it current_turn memory salience;
          token_score = fdiv (f64_of_nat (it_token_count it)) (f64_of_nat max_tokens);
          position = position_score (it_turn_delivered it) min_turn max_turn;
          resolution = resolution_score (it_resolution it);
          salience_score = fsub 1 salience;
          composite =
            fadd (fadd (fadd (fadd (fmul recency (rnd64 (30 / 100)))
                                   (fmul token_score (rnd64 (15 / 100))))
                             (fmul position (rnd64 (15 / 100))))
                       (fmul resolution (rnd64 (10 / 100))))
                 (fmul salience_score (rnd64 (20 / 100)))
      in (composite,
          \<lparr>df_recency = recency, df_token_weight = token_score, df_position = position,
           df_resolution = resolution, df_salience = salience_score, df_contiguity = 0\<rparr>))"

definition em_dash :: string where
  "em_dash = [CHR 0xE2, CHR 0x80, CHR 0x94]"

definition describe_reason ::
  "unicode \<Rightarrow> delivered_item \<Rightarrow> nat \<Rightarrow> nat \<Rightarrow> nat \<Rightarrow> string list \<Rightarrow> string" where
  "describe_reason U it current_turn min_turn max_turn task_keywords =
     (let age = current_turn - it_turn_delivered it;
          resolution = resolution_str (it_resolution it);
          tokens = show_nat (it_token_count it);
          salience = salience_for_item U (it_content_id it) task_keywords;
          position = position_score (it_turn_delivered it) min_turn max_turn
      in if rnd64 (5 / 10) < salience then
           ''Task-relevant '' @ resolution @ '' ('' @ tokens @ '' tokens) '' @ em_dash
             @ '' protected by salience''
         else if 5 < age then
           ''Delivered '' @ show_nat age @ '' turns ago ('' @ resolution @ '', '' @ tokens
             @ '' tokens) '' @ em_dash @ '' likely stale''
         else if rnd64 (8 / 10) < position then
           ''Mid-context '' @ resolution @ '' ('' @ tokens @ '' tokens) '' @ em_dash
             @ '' poorly attended by LLM''
         else if 500 < it_token_count it then
           ''Large '' @ resolution @ '' ('' @ tokens @ '' tokens) '' @ em_dash
             @ '' significant budget recovery''
         else
           resolution @ '' from turn '' @ show_nat (it_turn_delivered it) @ '' ('' @ tokens
             @ '' tokens)'')"

definition contiguity_bonus :: "f64 list \<Rightarrow> nat \<Rightarrow> f64" where
  "contiguity_bonus base_scores i =
     (let (sum1, count1) = (if 0 < i then (fadd 0 (base_scores ! (i - 1)), 1) else (0, 0));
          (sum2, count2) =
            (if i + 1 < length base_scores then (fadd sum1 (base_scores ! (i + 1)), count1 + 1)
             else (sum1, count1))
      in if count2 = 0 then 0
         else fmul (fdiv sum2 (f64_of_nat count2)) (rnd64 (1 / 10)))"

definition apply_contiguity_bonus ::
  "drop_candidate list \<Rightarrow> f64 list \<Rightarrow> drop_candidate list" where
  "apply_contiguity_bonus candidates base_scores =
     (if length candidates \<le> 1 then candidates
      else
        map (\<lambda>(c, bonus).
               c\<lparr>dc_score := fadd (dc_score c) bonus,
                 dc_factors := map_option (\<lambda>f. f\<lparr>df_contiguity := bonus\<rparr>) (dc_factors c)\<rparr>)
          (zip candidates (map (contiguity_bonus base_scores) [0..<length base_scores])))"

definition list_max :: "nat list \<Rightarrow> nat" where
  "list_max xs = fold max xs 0"

fun list_min :: "nat list \<Rightarrow> nat" where
  "list_min [] = 0"
| "list_min (x # xs) = fold min xs x"

definition scored_candidates :: "unicode \<Rightarrow> session \<Rightarrow> memory_tracker option \<Rightarrow> drop_candidate list" where
  "scored_candidates U s memory =
     (let current_turn = s_current_turn s;
          items = delivered_values s;
          max_tokens = max (list_max (map it_token_count items)) 1;
          min_turn = list_min (map it_turn_delivered items);
          max_turn = list_max (map it_turn_delivered items);
          task_keywords = extract_task_keywords U (s_recent_queries s);
          sorted_items = sort_key it_turn_delivered items;
          scored = map (\<lambda>it. compute_base_score U it current_turn max_tokens min_turn max_turn memory
                              task_keywords) sorted_items;
          base_scores = map fst scored;
          candidates =
            map (\<lambda>(it, score, factors).
                   \<lparr>dc_content_id = it_content_id it, dc_identity = item_identity it,
                    dc_reason = describe_reason U it current_turn min_turn max_turn task_keywords,
                    dc_tokens_recoverable = it_token_count it, dc_score = score,
                    dc_factors = Some factors\<rparr>) (zip sorted_items scored)
      in apply_contiguity_bonus candidates base_scores)"

definition rank :: "unicode \<Rightarrow> session \<Rightarrow> nat \<Rightarrow> memory_tracker option \<Rightarrow> drop_candidate list" where
  "rank U s max_candidates memory =
     (if delivered_values s = [] \<or> max_candidates = 0 then []
      else take max_candidates (sort_key (\<lambda>c. - dc_score c) (scored_candidates U s memory)))"

section \<open>Lemmas\<close>

lemma list_max_ge: "x \<in> set xs \<Longrightarrow> x \<le> list_max xs"
proof -
  have "a \<le> fold max xs a \<and> (\<forall>x \<in> set xs. x \<le> fold max xs a)" for a :: nat
    by (induction xs arbitrary: a) (auto intro: order_trans [OF max.cobounded1] order_trans [OF max.cobounded2])
  then show "x \<in> set xs \<Longrightarrow> ?thesis" by (simp add: list_max_def)
qed

lemma salience_unit: "0 \<le> salience_for_item U c kws \<and> salience_for_item U c kws \<le> 1"
proof -
  have "0 \<le> min 3 (f64_of_nat (length kws))" by simp
  then show ?thesis by (auto simp: salience_for_item_def Let_def fdiv_nonneg)
qed

lemma fsub_unit: "0 \<le> x \<Longrightarrow> x \<le> 1 \<Longrightarrow> 0 \<le> fsub 1 x \<and> fsub 1 x \<le> 1"
  by (simp add: fsub_def rnd64_nonneg rnd64_le_1)

lemma fdiv_nat_unit: "a \<le> b \<Longrightarrow> 0 < b \<Longrightarrow> 0 \<le> fdiv (f64_of_nat a) (f64_of_nat b) \<and> fdiv (f64_of_nat a) (f64_of_nat b) \<le> 1"
  using f64_of_nat_ge_1 [of b] by (auto intro!: fdiv_nonneg fdiv_le_1 f64_of_nat_mono)

lemma recency_unit: "0 \<le> sal \<Longrightarrow> 0 \<le> recency_factor it t mem sal \<and> recency_factor it t mem sal \<le> 1"
  using salience_adjusted_unit fsub_unit fdiv_nat_unit [of "t - it_turn_delivered it" t]
  by (auto simp: recency_factor_def split: option.splits)

lemma resolution_score_unit: "0 \<le> resolution_score r \<and> resolution_score r \<le> 1"
  by (cases r) (simp_all add: rnd64_nonneg rnd64_le_1)

lemma position_nonneg: "t \<le> b \<Longrightarrow> 0 \<le> position_score t a b"
proof -
  assume t: "t \<le> b"
  have "0 \<le> fmul (fmul 4 x) (fsub 1 x)" if "0 \<le> x" "x \<le> 1" for x
    using fsub_unit [OF that] that by (simp add: fmul_def rnd64_nonneg)
  moreover have "0 \<le> fdiv (f64_of_nat (t - a)) (f64_of_nat (b - a)) \<and> fdiv (f64_of_nat (t - a)) (f64_of_nat (b - a)) \<le> 1"
    if "a < b" using t that by (intro fdiv_nat_unit) auto
  ultimately show ?thesis by (simp add: position_score_def Let_def)
qed

lemma bonus_sel:
  assumes "length bs = length cs"
  shows "map dc_identity (apply_contiguity_bonus cs bs) = map dc_identity cs"
    and "map dc_tokens_recoverable (apply_contiguity_bonus cs bs) = map dc_tokens_recoverable cs"
  using assms
  by (cases "length cs \<le> 1"; auto simp: apply_contiguity_bonus_def intro!: nth_equalityI)+

lemma map_zip_map: "map f (zip xs (map k xs)) = map (\<lambda>x. f (x, k x)) xs"
  by (induction xs) auto

text \<open>The candidates are one per delivered item, in order of delivery turn, before the final sort.\<close>

lemma scored_candidates_items:
  "map dc_identity (scored_candidates U s memory) = map item_identity (sort_key it_turn_delivered (delivered_values s))"
  "map dc_tokens_recoverable (scored_candidates U s memory) = map it_token_count (sort_key it_turn_delivered (delivered_values s))"
  unfolding scored_candidates_def Let_def
  by (subst bonus_sel; simp add: map_zip_map case_prod_beta comp_def)+

lemma length_scored [simp]: "length (scored_candidates U s memory) = length (s_delivered s)"
  using arg_cong [OF scored_candidates_items(1) [of U s memory], of length] by simp

section \<open>Properties\<close>

text \<open>
  The ranking returns the best candidates: as many as asked for or as there are delivered items,
  in descending order of score, each a delivered item with its token count; no item left out
  scores higher than one returned, and no item is returned twice.
\<close>

theorem rank_top_candidates:
  assumes "session_ok J s"
  shows "let cs = rank U s n memory in
    length cs = min n (length (s_delivered s))
    \<and> sorted_wrt (\<lambda>c d. dc_score d \<le> dc_score c) cs
    \<and> distinct (map dc_identity cs)
    \<and> (\<forall>c \<in> set cs. \<exists>it \<in> set (delivered_values s).
         dc_identity c = item_identity it \<and> dc_tokens_recoverable c = it_token_count it)
    \<and> (\<forall>c \<in> set cs. \<forall>d \<in> set (scored_candidates U s memory). d \<notin> set cs \<longrightarrow> dc_score d \<le> dc_score c)"
proof (cases "s_delivered s = [] \<or> n = 0")
  case True
  then show ?thesis by (auto simp: rank_def Let_def)
next
  case False
  let ?all = "scored_candidates U s memory" and ?key = "\<lambda>c. - dc_score c"
  let ?s = "sort_key ?key ?all"
  have r: "rank U s n memory = take n ?s" using False by (simp add: rank_def)
  have sorted: "sorted_wrt (\<lambda>c d. dc_score d \<le> dc_score c) ?s"
    using sorted_sort_key [of ?key ?all] by (simp add: sorted_map)
  then have split: "sorted_wrt (\<lambda>c d. dc_score d \<le> dc_score c) (take n ?s @ drop n ?s)" by simp
  have d: "delivered_ok J (s_delivered s)" using assms by (simp add: session_ok_def)
  have "distinct (map item_identity (delivered_values s))"
    using selected_distinct [OF d, of "\<lambda>_. True"] unfolding filter_True [OF ballI, OF TrueI]
    by (simp only: distinct_map [of "storage_key J"])
  then have "distinct (map dc_identity ?all)"
    unfolding scored_candidates_items by (metis mset_eq_imp_distinct_iff mset_map mset_sort)
  then have dist: "distinct (map dc_identity ?s)" by (metis mset_eq_imp_distinct_iff mset_map mset_sort)
  have item: "\<exists>it \<in> set (delivered_values s). dc_identity c = item_identity it \<and> dc_tokens_recoverable c = it_token_count it"
    if "c \<in> set ?all" for c
  proof -
    obtain i where i: "i < length ?all" "c = ?all ! i" using \<open>c \<in> set ?all\<close> by (auto simp: in_set_conv_nth)
    let ?it = "sort_key it_turn_delivered (delivered_values s) ! i"
    have "?it \<in> set (sort_key it_turn_delivered (delivered_values s))" using i by (intro nth_mem) simp
    moreover have "dc_identity c = item_identity ?it" "dc_tokens_recoverable c = it_token_count ?it"
      using arg_cong [OF scored_candidates_items(1) [of U s memory], of "\<lambda>xs. xs ! i"]
        arg_cong [OF scored_candidates_items(2) [of U s memory], of "\<lambda>xs. xs ! i"] i by simp_all
    ultimately show ?thesis by (metis set_sort)
  qed
  have top: "dc_score d \<le> dc_score c" if "c \<in> set (take n ?s)" "d \<in> set ?all" "d \<notin> set (take n ?s)" for c d
  proof -
    have "d \<in> set (take n ?s @ drop n ?s)" using that(2) by simp
    then have "d \<in> set (drop n ?s)" using that(3) by (simp only: set_append Un_iff simp_thms)
    with split that(1) show ?thesis unfolding sorted_wrt_append by blast
  qed
  have mem: "c \<in> set ?all" if "c \<in> set (take n ?s)" for c using in_set_takeD [OF that] by simp
  have items: "\<forall>c \<in> set (take n ?s). \<exists>it \<in> set (delivered_values s).
      dc_identity c = item_identity it \<and> dc_tokens_recoverable c = it_token_count it"
    using mem item by blast
  show ?thesis
    unfolding r Let_def using sorted_wrt_take [OF sorted, of n] dist top items
    by (intro conjI ballI impI) (simp_all add: take_map [symmetric] distinct_take)
qed

lemma rank_top_candidates_witness:
  "length (rank \<lparr>uc_lower = id, uc_words = (\<lambda>q. [q])\<rparr>
     (record_delivery netstring_codec ''a'' Section 10 1 ''h'' (session_new 0 ''s'' 100 Fifo)) 5 None) = 1"
proof -
  let ?s = "record_delivery netstring_codec ''a'' Section 10 1 ''h'' (session_new 0 ''s'' 100 Fifo)"
  have "session_ok netstring_codec ?s"
    using session_step_ok [OF netstring_codec_ok session_ok_new, of "Deliver ''a'' Section 10 1 ''h''"]
    by (simp add: u32_max_def)
  moreover have "length (s_delivered ?s) = 1"
    by (simp add: record_delivery_def record_delivery_identity_def session_new_def Let_def)
  ultimately show ?thesis
    using rank_top_candidates [of netstring_codec ?s "\<lparr>uc_lower = id, uc_words = (\<lambda>q. [q])\<rparr>" 5 None]
    by (simp add: Let_def)
qed

text \<open>
  The factors behind a score are normalized, rounding included: recency, token weight, resolution
  and salience are between 0 and 1, the position factor and the score are not
  negative, whatever the memory tracker holds and whatever the queries were.
\<close>

theorem drop_factors_unit:
  assumes "it_token_count it \<le> max_tokens" and "0 < max_tokens" and "it_turn_delivered it \<le> max_turn"
  shows "let (score, f) = compute_base_score U it turn max_tokens min_turn max_turn memory kws in
    (\<forall>x \<in> {df_recency f, df_token_weight f, df_resolution f, df_salience f}. 0 \<le> x \<and> x \<le> 1)
    \<and> 0 \<le> df_position f \<and> 0 \<le> score"
proof -
  let ?sal = "salience_for_item U (it_content_id it) kws"
  have b: "0 \<le> recency_factor it turn memory ?sal \<and> recency_factor it turn memory ?sal \<le> 1"
    "0 \<le> fdiv (f64_of_nat (it_token_count it)) (f64_of_nat max_tokens)
      \<and> fdiv (f64_of_nat (it_token_count it)) (f64_of_nat max_tokens) \<le> 1"
    "0 \<le> fsub 1 ?sal \<and> fsub 1 ?sal \<le> 1"
    "0 \<le> resolution_score (it_resolution it) \<and> resolution_score (it_resolution it) \<le> 1"
    "0 \<le> position_score (it_turn_delivered it) min_turn max_turn"
    using salience_unit [of U "it_content_id it" kws] assms
    by (auto simp: recency_unit fsub_unit resolution_score_unit position_nonneg fdiv_nat_unit)
  have nn: "0 \<le> x \<Longrightarrow> 0 \<le> w \<Longrightarrow> 0 \<le> fmul x (rnd64 w)" "0 \<le> x \<Longrightarrow> 0 \<le> y \<Longrightarrow> 0 \<le> fadd x y" for x y w
    by (simp_all add: fmul_def fadd_def rnd64_nonneg)
  show ?thesis
    using b by (auto simp: compute_base_score_def Let_def intro!: nn)
qed

lemma drop_factors_unit_witness:
  "0 \<le> fst (compute_base_score \<lparr>uc_lower = id, uc_words = (\<lambda>q. [q])\<rparr>
     \<lparr>it_content_id = ''a'', it_resolution = Section, it_corpus_id = ''primary'',
      it_delivery_resolution = ''section'', it_token_count = 5, it_turn_delivered = 1,
      it_content_hash = ''h'', it_compression_tier = Full, it_compressed_summary = None\<rparr> 4 9 0 3 None [])"
  using drop_factors_unit [of "\<lparr>it_content_id = ''a'', it_resolution = Section, it_corpus_id = ''primary'',
      it_delivery_resolution = ''section'', it_token_count = 5, it_turn_delivered = 1,
      it_content_hash = ''h'', it_compression_tier = Full, it_compressed_summary = None\<rparr>" 9 3
      "\<lparr>uc_lower = id, uc_words = (\<lambda>q. [q])\<rparr>" 4 0 None "[]"]
  by (simp add: case_prod_beta)

end
