(* ===== verification/Text.thy ===== *)
theory Text
  imports Prelude
begin

text \<open>
  The parts of \<open>str\<close> the text-processing components use: trimming, lines, characters. A string is
  its UTF-8 bytes and a character the bytes of its encoding. The Unicode tables of the standard library
  are the record \<open>char_tables\<close>, an argument of what reaches them.
\<close>

text \<open>\<open>str::trim\<close>, from the front and from the back.\<close>

function trim_start :: "string \<Rightarrow> string" where
  "trim_start s = (if 0 < whitespace_len s then trim_start (drop (whitespace_len s) s) else s)"
  by pat_completeness auto
termination
proof (relation "measure length")
  fix s :: string assume "0 < whitespace_len s"
  then have "s \<noteq> []" by (auto simp: whitespace_len_def)
  with \<open>0 < whitespace_len s\<close> show "(drop (whitespace_len s) s, s) \<in> measure length" by simp
qed simp

declare trim_start.simps [simp del]

definition whitespace_suffix :: "string \<Rightarrow> nat" where
  "whitespace_suffix s =
     (case find (\<lambda>k. k \<le> length s \<and> whitespace_len (drop (length s - k) s) = k) [1, 2, 3] of
        None \<Rightarrow> 0 | Some k \<Rightarrow> k)"

function trim_end :: "string \<Rightarrow> string" where
  "trim_end s =
     (if s \<noteq> [] \<and> 0 < whitespace_suffix s then trim_end (take (length s - whitespace_suffix s) s)
      else s)"
  by pat_completeness auto
termination
  by (relation "measure length") auto

declare trim_end.simps [simp del]

definition str_trim :: "string \<Rightarrow> string" where
  "str_trim s = trim_end (trim_start s)"

text \<open>\<open>str::split_whitespace\<close>; \<open>w\<close> is the word read so far.\<close>

function split_ws :: "string \<Rightarrow> string \<Rightarrow> string list" where
  "split_ws w s =
     (if s = [] then (if w = [] then [] else [w])
      else if 0 < whitespace_len s then (if w = [] then [] else [w]) @ split_ws [] (drop (whitespace_len s) s)
      else split_ws (w @ [hd s]) (tl s))"
  by pat_completeness auto
termination
  by (relation "measure (\<lambda>(w, s). length s)") auto

declare split_ws.simps [simp del]

definition split_whitespace :: "string \<Rightarrow> string list" where
  "split_whitespace s = split_ws [] s"

text \<open>\<open>str::lines\<close>: split at line feeds, without a carriage return before them and a last empty line.\<close>

definition strip_cr :: "string \<Rightarrow> string" where
  "strip_cr l = (if l \<noteq> [] \<and> last l = CHR 0x0D then butlast l else l)"

definition str_lines :: "string \<Rightarrow> string list" where
  "str_lines s =
     (let ls = split_on (CHR 0x0A) s
      in if last ls = [] then map strip_cr (butlast ls) else map strip_cr (butlast ls) @ [last ls])"

text \<open>\<open>str::chars\<close>: the length of a character is read off its first byte.\<close>

definition utf8_len :: "char \<Rightarrow> nat" where
  "utf8_len c =
     (let n = of_char c :: nat in if n < 128 then 1 else if n < 224 then 2 else if n < 240 then 3 else 4)"

function utf8_chars :: "string \<Rightarrow> string list" where
  "utf8_chars s =
     (case s of [] \<Rightarrow> [] | c # _ \<Rightarrow> take (utf8_len c) s # utf8_chars (drop (utf8_len c) s))"
  by pat_completeness auto
termination
  by (relation "measure length") (auto simp: utf8_len_def Let_def)

declare utf8_chars.simps [simp del]

record char_tables =
  ch_alphanumeric :: "string \<Rightarrow> bool"
  ch_uppercase :: "string \<Rightarrow> bool"
  ch_lowercase :: "string \<Rightarrow> bool"
  ch_to_lower :: "string \<Rightarrow> string"
  ch_to_upper :: "string \<Rightarrow> string"
  st_to_lower :: "string \<Rightarrow> string"

text \<open>The tables restricted to ASCII, for concrete instances.\<close>

definition ascii_upper :: "char \<Rightarrow> bool" where
  "ascii_upper c \<longleftrightarrow> 65 \<le> (of_char c :: nat) \<and> (of_char c :: nat) \<le> 90"

definition ascii_lower :: "char \<Rightarrow> bool" where
  "ascii_lower c \<longleftrightarrow> 97 \<le> (of_char c :: nat) \<and> (of_char c :: nat) \<le> 122"

definition ascii_digit :: "char \<Rightarrow> bool" where
  "ascii_digit c \<longleftrightarrow> 48 \<le> (of_char c :: nat) \<and> (of_char c :: nat) \<le> 57"

definition to_ascii_lower :: "char \<Rightarrow> char" where
  "to_ascii_lower c = (if ascii_upper c then char_of (of_char c + 32 :: nat) else c)"

definition to_ascii_upper :: "char \<Rightarrow> char" where
  "to_ascii_upper c = (if ascii_lower c then char_of (of_char c - 32 :: nat) else c)"

definition ascii_tables :: char_tables where
  "ascii_tables =
     \<lparr>ch_alphanumeric = list_ex (\<lambda>c. ascii_upper c \<or> ascii_lower c \<or> ascii_digit c),
      ch_uppercase = list_ex ascii_upper, ch_lowercase = list_ex ascii_lower,
      ch_to_lower = map to_ascii_lower, ch_to_upper = map to_ascii_upper, st_to_lower = map to_ascii_lower\<rparr>"

text \<open>\<open>str::split\<close> at the characters with a property, and \<open>str::replace\<close>.\<close>

fun split_chars :: "(string \<Rightarrow> bool) \<Rightarrow> string list \<Rightarrow> string list" where
  "split_chars P [] = [[]]"
| "split_chars P (c # cs) =
     (if P c then [] # split_chars P cs
      else (case split_chars P cs of [] \<Rightarrow> [c] | w # ws \<Rightarrow> (c @ w) # ws))"

definition split_where :: "(string \<Rightarrow> bool) \<Rightarrow> string \<Rightarrow> string list" where
  "split_where P s = split_chars P (utf8_chars s)"

function str_replace :: "string \<Rightarrow> string \<Rightarrow> string \<Rightarrow> string" where
  "str_replace pat by_str s =
     (case s of
        [] \<Rightarrow> []
      | c # r \<Rightarrow>
          if pat \<noteq> [] \<and> take (length pat) s = pat then by_str @ str_replace pat by_str (drop (length pat) s)
          else c # str_replace pat by_str r)"
  by pat_completeness auto
termination
  by (relation "measure (\<lambda>(p, b, s). length s)") auto

declare str_replace.simps [simp del]

section \<open>Lemmas\<close>

lemma utf8_len_pos [simp]: "0 < utf8_len c"
  by (simp add: utf8_len_def Let_def)

lemma utf8_chars_simps [simp]:
  "utf8_chars [] = []"
  "utf8_chars (c # s) = take (utf8_len c) (c # s) # utf8_chars (drop (utf8_len c) (c # s))"
  by (subst utf8_chars.simps, simp)+

lemma concat_utf8_chars: "concat (utf8_chars s) = s"
proof (induction s rule: utf8_chars.induct)
  case (1 s)
  then show ?case by (cases s) (simp_all del: take_Cons' drop_Cons')
qed

lemma utf8_chars_ne: "c \<in> set (utf8_chars s) \<Longrightarrow> c \<noteq> []"
proof (induction s rule: utf8_chars.induct)
  case (1 s)
  then show ?case by (cases s) (auto simp: less_not_refl2 simp del: take_Cons' drop_Cons')
qed

end
