(* ===== verification/Usage.thy ===== *)
theory Usage
  imports Prelude Text Float_Model Identity Window Session Memory Compression Drops
begin

text \<open>
  The usage tracker, \<open>ministr-core/src/session/usage.rs\<close>: a window estimator with the
  thresholds that turn its utilization into a usage level, and the calls it forwards to the
  drop ranker and the compression pipeline. The environment variable is an argument.
\<close>

section \<open>Configuration\<close>

text \<open>\<open>str::parse::<usize>\<close>: an optional plus sign, then digits, within 64 bits.\<close>

definition parse_usize :: "string \<Rightarrow> nat option" where
  "parse_usize s =
     (let ds = (case s of c # (d # r) \<Rightarrow> if c = CHR ''+'' then d # r else s | _ \<Rightarrow> s)
      in if ds = [] \<or> \<not> list_all is_ascii_digit ds then None
         else if digits_value ds \<le> u64_max then Some (digits_value ds) else None)"

definition FALLBACK_CONTEXT_TOKENS :: nat where
  "FALLBACK_CONTEXT_TOKENS = 200000"

definition default_max_context_tokens :: "string option \<Rightarrow> nat" where
  "default_max_context_tokens env =
     (case Option.bind env (\<lambda>v. parse_usize (str_trim v)) of
        None \<Rightarrow> FALLBACK_CONTEXT_TOKENS
      | Some n \<Rightarrow> if 0 < n then n else FALLBACK_CONTEXT_TOKENS)"

record usage_config =
  uc_max_context_tokens :: nat
  uc_pressure_threshold :: f64
  uc_critical_threshold :: f64
  uc_eviction_policy :: drop_policy

definition default_eviction_policy :: drop_policy where
  "default_eviction_policy = Fifo"

definition usage_config_default :: "string option \<Rightarrow> usage_config" where
  "usage_config_default env =
     \<lparr>uc_max_context_tokens = default_max_context_tokens env,
      uc_pressure_threshold = rnd64 (80 / 100), uc_critical_threshold = rnd64 (95 / 100),
      uc_eviction_policy = Fifo\<rparr>"

record usage_status =
  us_tokens_used :: nat
  us_tokens_remaining :: nat
  us_level :: usage_level
  us_utilization :: f64

section \<open>The tracker\<close>

record usage_tracker =
  ut_config :: usage_config
  ut_window :: window

definition usage_tracker_new :: "usage_config \<Rightarrow> drop_policy \<Rightarrow> usage_tracker" where
  "usage_tracker_new config eviction_policy =
     \<lparr>ut_config = config, ut_window = window_new (uc_max_context_tokens config) eviction_policy\<rparr>"

definition on_window ::
  "(window \<Rightarrow> window \<times> 'a) \<Rightarrow> usage_tracker \<Rightarrow> usage_tracker \<times> 'a" where
  "on_window f t = (let (w, r) = f (ut_window t) in (t\<lparr>ut_window := w\<rparr>, r))"

definition seed_prior_consumption :: "nat \<Rightarrow> usage_tracker \<Rightarrow> usage_tracker \<times> string list" where
  "seed_prior_consumption token_count t = on_window (record_prior_consumption token_count) t"

definition record_tokens :: "string \<Rightarrow> nat \<Rightarrow> usage_tracker \<Rightarrow> usage_tracker \<times> string list" where
  "record_tokens content_id token_count t = on_window (window_record content_id token_count) t"

definition record_identity_tokens ::
  "json_codec \<Rightarrow> delivery_identity \<Rightarrow> nat \<Rightarrow> usage_tracker
     \<Rightarrow> usage_tracker \<times> delivery_identity list" where
  "record_identity_tokens J d token_count t =
     (let (t1, keys) = on_window (window_record (storage_key J d) token_count) t
      in (t1, map (\<lambda>key. from_storage_key J key ''section_full'') keys))"

definition memory_scores :: "memory_tracker \<Rightarrow> nat \<Rightarrow> string \<rightharpoonup> f64" where
  "memory_scores memory current_turn =
     map_of (map (\<lambda>(k, m). (k, retrievability k current_turn memory)) memory)"

definition record_tokens_with_memory ::
  "string \<Rightarrow> nat \<Rightarrow> memory_tracker \<Rightarrow> nat \<Rightarrow> usage_tracker \<Rightarrow> usage_tracker \<times> string list" where
  "record_tokens_with_memory content_id token_count memory current_turn t =
     on_window (record_with_scores content_id token_count
       (Some (memory_scores memory current_turn))) t"

definition tracker_touch :: "string \<Rightarrow> usage_tracker \<Rightarrow> usage_tracker" where
  "tracker_touch content_id t = t\<lparr>ut_window := window_touch content_id (ut_window t)\<rparr>"

definition touch_identity :: "json_codec \<Rightarrow> delivery_identity \<Rightarrow> usage_tracker \<Rightarrow> usage_tracker" where
  "touch_identity J d t = t\<lparr>ut_window := window_touch (storage_key J d) (ut_window t)\<rparr>"

definition utilization :: "usage_tracker \<Rightarrow> f64" where
  "utilization t =
     (if uc_max_context_tokens (ut_config t) = 0 then 1
      else min (fdiv (f64_of_nat (estimated_used (ut_window t)))
                  (f64_of_nat (uc_max_context_tokens (ut_config t)))) 1)"

definition level :: "usage_tracker \<Rightarrow> usage_level" where
  "level t =
     (if uc_critical_threshold (ut_config t) \<le> utilization t then Critical
      else if uc_pressure_threshold (ut_config t) \<le> utilization t then Elevated
      else Normal)"

definition usage_status_of :: "usage_tracker \<Rightarrow> usage_status" where
  "usage_status_of t =
     \<lparr>us_tokens_used = estimated_used (ut_window t),
      us_tokens_remaining = estimated_remaining (ut_window t),
      us_level = level t, us_utilization = utilization t\<rparr>"

definition is_identity_in_window :: "json_codec \<Rightarrow> delivery_identity \<Rightarrow> usage_tracker \<Rightarrow> bool" where
  "is_identity_in_window J d t = is_in_window (storage_key J d) (ut_window t)"

definition tracker_force_evict :: "string \<Rightarrow> usage_tracker \<Rightarrow> usage_tracker \<times> bool" where
  "tracker_force_evict content_id t = on_window (force_evict content_id) t"

definition force_evict_identity ::
  "json_codec \<Rightarrow> delivery_identity \<Rightarrow> usage_tracker \<Rightarrow> usage_tracker \<times> bool" where
  "force_evict_identity J d t = on_window (force_evict (storage_key J d)) t"

definition drop_candidates ::
  "unicode \<Rightarrow> session \<Rightarrow> nat \<Rightarrow> memory_tracker option \<Rightarrow> usage_tracker \<Rightarrow> drop_candidate list" where
  "drop_candidates U s max_candidates memory t =
     (if level t = Normal then [] else rank U s max_candidates memory)"

definition RECENCY_PROTECTION_TURNS :: nat where
  "RECENCY_PROTECTION_TURNS = 3"

definition auto_promote :: "session \<Rightarrow> usage_tracker \<Rightarrow> tier_promotion list" where
  "auto_promote s t = recommend_promotions s (level t) RECENCY_PROTECTION_TURNS"

section \<open>Invariant\<close>

definition tracker_ok :: "usage_tracker \<Rightarrow> bool" where
  "tracker_ok t \<longleftrightarrow> window_ok (ut_window t)
     \<and> w_capacity (ut_window t) = uc_max_context_tokens (ut_config t)
     \<and> w_current_tokens (ut_window t) \<le> w_capacity (ut_window t)"

fun level_rank :: "usage_level \<Rightarrow> nat" where
  "level_rank Normal = 0"
| "level_rank Elevated = 1"
| "level_rank Critical = 2"

section \<open>Lemmas\<close>

lemma tracker_ok_new [simp]: "tracker_ok (usage_tracker_new c p)"
  by (simp add: tracker_ok_def usage_tracker_new_def) (simp add: window_new_def)

lemma on_window_sel [simp]:
  "ut_config (fst (on_window f t)) = ut_config t"
  "ut_window (fst (on_window f t)) = fst (f (ut_window t))"
  "snd (on_window f t) = snd (f (ut_window t))"
  by (simp_all add: on_window_def case_prod_beta Let_def)

text \<open>Recording through any of the tracker's entry points keeps the window's contract.\<close>

lemma tracker_record_ok:
  assumes "tracker_ok t" and "uc_max_context_tokens (ut_config t) + n \<le> u64_max"
  shows "tracker_ok (fst (on_window (record_with_scores c n s) t))"
  using assms record_ok [of "ut_window t" n c s] by (auto simp: tracker_ok_def)

lemma utilization_unit: "0 \<le> utilization t \<and> utilization t \<le> 1"
proof -
  have "0 \<le> fdiv (f64_of_nat a) (f64_of_nat b)" for a b by (simp add: fdiv_nonneg)
  then show ?thesis by (simp add: utilization_def)
qed

lemma utilization_mono:
  assumes "ut_config t = ut_config t'" and "estimated_used (ut_window t) \<le> estimated_used (ut_window t')"
  shows "utilization t \<le> utilization t'"
proof (cases "uc_max_context_tokens (ut_config t) = 0")
  case False
  then have "0 < f64_of_nat (uc_max_context_tokens (ut_config t))"
    using f64_of_nat_ge_1 [of "uc_max_context_tokens (ut_config t)"] by simp
  then have "fdiv (f64_of_nat (estimated_used (ut_window t))) (f64_of_nat (uc_max_context_tokens (ut_config t)))
      \<le> fdiv (f64_of_nat (estimated_used (ut_window t'))) (f64_of_nat (uc_max_context_tokens (ut_config t)))"
    using assms(2) by (intro fdiv_mono_num f64_of_nat_mono)
  from min.mono [OF this order_refl] False assms(1) show ?thesis by (simp add: utilization_def)
qed (use assms in \<open>simp add: utilization_def\<close>)

lemma memory_scores_le_1: "memory_scores mem turn i = Some r \<Longrightarrow> r \<le> 1"
  using retrievability_unit by (auto simp: memory_scores_def dest!: map_of_SomeD)

section \<open>Properties\<close>

text \<open>
  The usage level follows the estimate: utilization is between 0 and 1, more tokens in the same
  window never lower the level, a full (or zero-sized) window is critical for every
  threshold up to 1, and the status reports used and remaining tokens that add up to the budget.
\<close>

theorem usage_level_monotone:
  assumes "tracker_ok t" and "tracker_ok t'" and "ut_config t = ut_config t'"
    and "estimated_used (ut_window t) \<le> estimated_used (ut_window t')"
  shows "level_rank (level t) \<le> level_rank (level t')
    \<and> 0 \<le> us_utilization (usage_status_of t) \<and> us_utilization (usage_status_of t) \<le> 1
    \<and> us_tokens_used (usage_status_of t) + us_tokens_remaining (usage_status_of t)
        = uc_max_context_tokens (ut_config t)
    \<and> (estimated_used (ut_window t) = uc_max_context_tokens (ut_config t) \<and> uc_critical_threshold (ut_config t) \<le> 1
        \<longrightarrow> level t = Critical)"
proof -
  have "fdiv (f64_of_nat n) (f64_of_nat n) = 1" if "0 < n" for n
    using f64_of_nat_ge_1 [OF that] by (simp add: fdiv_def)
  then have full: "utilization t = 1" if "estimated_used (ut_window t) = uc_max_context_tokens (ut_config t)"
    using that by (simp add: utilization_def)
  have "level_rank (level t) \<le> level_rank (level t')"
    using utilization_mono [OF assms(3,4)] assms(3) by (auto simp: level_def)
  moreover have "us_tokens_used (usage_status_of t) + us_tokens_remaining (usage_status_of t)
        = uc_max_context_tokens (ut_config t)"
    using assms(1) by (simp add: usage_status_of_def tracker_ok_def estimated_used_def estimated_remaining_def)
  ultimately show ?thesis
    using utilization_unit [of t] full by (auto simp: usage_status_of_def level_def)
qed

lemma usage_level_monotone_witness:
  "level_rank (level (usage_tracker_new (usage_config_default None) Fifo))
     \<le> level_rank (level (usage_tracker_new (usage_config_default None) Lru))"
  using usage_level_monotone [OF tracker_ok_new tracker_ok_new,
      of "usage_config_default None" Fifo "usage_config_default None" Lru]
  by (simp add: usage_tracker_new_def window_new_def estimated_used_def)

text \<open>
  Recording with memory keeps the budget and the new content: under every policy, FSRS
  with the memory tracker's own retrievability scores included, the window stays within the budget
  and a delivery that fits the budget is in the window afterwards.
\<close>

theorem record_with_memory_keeps_new:
  assumes "tracker_ok t" and "uc_max_context_tokens (ut_config t) + n \<le> u64_max"
    and "n \<le> uc_max_context_tokens (ut_config t)"
  shows "let (t', evicted) = record_tokens_with_memory c n memory turn t in
    tracker_ok t' \<and> is_in_window c (ut_window t') \<and> c \<notin> set evicted"
proof -
  let ?w = "ut_window t" and ?s = "Some (memory_scores memory turn)"
  have w: "window_ok ?w" "w_current_tokens ?w + n \<le> u64_max" "n \<le> w_capacity ?w"
    using assms by (auto simp: tracker_ok_def)
  from record_keeps_new [OF w, of ?s c] memory_scores_le_1 tracker_record_ok [OF assms(1,2), of c ?s]
  show ?thesis by (auto simp: record_tokens_with_memory_def case_prod_beta)
qed

lemma record_with_memory_keeps_new_witness:
  "is_in_window ''a'' (ut_window (fst (record_tokens_with_memory ''a'' 10 [] 1
     (usage_tracker_new (usage_config_default None) Fsrs))))"
  using record_with_memory_keeps_new [OF tracker_ok_new [of "usage_config_default None" Fsrs], of 10 "''a''" "[]" 1]
  by (simp add: usage_tracker_new_def usage_config_default_def default_max_context_tokens_def
      FALLBACK_CONTEXT_TOKENS_def u64_max_def case_prod_beta)

text \<open>
  Eviction through identities is exact: after recording a delivery the identities returned are
  exactly the ones that left the window, each once, so a caller that bookmarks them
  bookmarks what the window no longer counts and nothing else.
\<close>

theorem evicted_identities_exact:
  assumes "codec_ok J" and "tracker_ok t" and "uc_max_context_tokens (ut_config t) + n \<le> u64_max"
    and "\<forall>k \<in> set (window_ids (ut_window t)). \<exists>e. k = storage_key J e"
  shows "let (t', evicted) = record_identity_tokens J d n t in
    tracker_ok t' \<and> distinct evicted
    \<and> (\<forall>e. is_identity_in_window J e t' \<longleftrightarrow>
         (is_identity_in_window J e t \<or> e = d) \<and> e \<notin> set evicted)"
proof -
  let ?r = "window_record (storage_key J d) n (ut_window t)"
  let ?dec = "\<lambda>key. from_storage_key J key ''section_full''"
  have w: "window_ok (ut_window t)" "w_current_tokens (ut_window t) + n \<le> u64_max"
    using assms(2,3) by (auto simp: tracker_ok_def)
  note ids = record_ids [OF w, of "storage_key J d" None, folded window_record_def]
  have keys: "\<exists>e. k = storage_key J e" if "k \<in> set (snd ?r)" for k
    using ids that assms(4) by auto
  have decoded: "storage_key J (?dec k) = k" if "k \<in> set (snd ?r)" for k
    using keys [OF that] assms(1) by auto
  then have dist: "distinct (map ?dec (snd ?r))"
    using ids by (auto simp: distinct_map inj_on_def) metis
  have mem: "e \<in> set (map ?dec (snd ?r)) \<longleftrightarrow> storage_key J e \<in> set (snd ?r)" for e
    using decoded assms(1) by (force simp: image_iff)
  have "is_identity_in_window J e t \<longleftrightarrow> storage_key J e \<in> set (window_ids (ut_window t))" for e t
    by (force simp: is_identity_in_window_def is_in_window_def list_ex_iff)
  with ids mem dist assms(1) tracker_record_ok [OF assms(2,3), of "storage_key J d" None] show ?thesis
    by (auto simp: record_identity_tokens_def Let_def case_prod_beta window_record_def [abs_def])
qed

lemma evicted_identities_exact_witness:
  "distinct (snd (record_identity_tokens netstring_codec (di_primary ''a'' ''section'') 10
     (usage_tracker_new (usage_config_default None) Fifo)))"
  using evicted_identities_exact [OF netstring_codec_ok tracker_ok_new [of "usage_config_default None" Fifo],
      of 10 "di_primary ''a'' ''section''"]
  by (simp add: usage_tracker_new_def usage_config_default_def default_max_context_tokens_def
      FALLBACK_CONTEXT_TOKENS_def u64_max_def case_prod_beta window_new_def)

end
