(* ===== verification/Registry.thy ===== *)
theory Registry
  imports Prelude Identity Window Session Memory Usage
begin

text \<open>
  The session registry, \<open>ministr-core/src/session/registry.rs\<close>, with the snapshot types of
  \<open>ministr-api/src/session_storage.rs\<close> and \<open>drops_ledger.rs\<close>: the live sessions, the
  capture of a session as a durable snapshot, its restoration on another pod, and the propagation of
  coherence invalidations. The durable back-ends are trait objects whose implementations are
  not in the repository: a store is its \<open>load\<close>, a ledger its list, both possibly failing;
  the calls that hand a snapshot or a drop to them return what they hand over.
\<close>

section \<open>Snapshots\<close>

record session_delivery_snapshot =
  ds_identity :: delivery_identity
  ds_index_resolution :: string
  ds_token_count :: nat
  ds_turn_delivered :: nat
  ds_content_hash :: string
  ds_compression_tier :: string
  ds_compressed_summary :: "string option"

record session_state_snapshot =
  st_version :: nat
  st_revision :: nat
  st_delivered :: "session_delivery_snapshot list"
  st_trajectory :: "delivery_identity list"
  st_dropped_identities :: "delivery_identity list"
  st_current_turn :: nat
  st_metrics :: session_metrics

definition SESSION_STATE_VERSION :: nat where
  "SESSION_STATE_VERSION = 1"

definition state_snapshot_default :: session_state_snapshot where
  "state_snapshot_default =
     \<lparr>st_version = 0, st_revision = 0, st_delivered = [], st_trajectory = [],
      st_dropped_identities = [], st_current_turn = 0, st_metrics = metrics_default\<rparr>"

record session_snapshot =
  sn_session_id :: string
  sn_tenant_id :: string
  sn_corpus_id :: "string option"
  sn_opened_at :: string
  sn_last_seen_at :: string
  sn_budget_used :: int
  sn_coherence_score :: f64
  sn_state :: session_state_snapshot

definition supersedes :: "session_snapshot \<Rightarrow> session_snapshot \<Rightarrow> bool" where
  "supersedes self current =
     (let incoming = st_revision (sn_state self); stored = st_revision (sn_state current)
      in if incoming = 0 \<and> stored = 0 then sn_last_seen_at current \<le> sn_last_seen_at self
         else if incoming = 0 then False
         else if stored = 0 then True
         else stored \<le> incoming)"

record drop_entry =
  de_session_id :: string
  de_tenant_id :: string
  de_claim_id :: string
  de_evicted_at :: string

record storage_backend =
  sb_load :: "string \<Rightarrow> string \<Rightarrow> string + session_snapshot option"

record ledger_backend =
  lb_list :: "string \<Rightarrow> string \<Rightarrow> string + drop_entry list"

section \<open>The registry\<close>

record session_entry =
  se_session :: session
  se_budget :: usage_tracker
  se_access_mode :: access_mode
  se_memory :: memory_tracker
  se_parent_session_id :: "string option"
  se_client_name :: "string option"
  se_tenant_id :: "string option"

record session_registry =
  rg_sessions :: "(string \<times> session_entry) list"
  rg_default_budget_config :: usage_config
  rg_storage :: "storage_backend option"
  rg_drops_ledger :: "ledger_backend option"

record restored_session =
  rs_snapshot :: session_snapshot
  rs_drops :: "drop_entry list"

definition registry_new :: "usage_config \<Rightarrow> session_registry" where
  "registry_new config =
     \<lparr>rg_sessions = [], rg_default_budget_config = config, rg_storage = None,
      rg_drops_ledger = None\<rparr>"

definition set_storage :: "storage_backend \<Rightarrow> session_registry \<Rightarrow> session_registry" where
  "set_storage b r = r\<lparr>rg_storage := Some b\<rparr>"

definition set_drops_ledger :: "ledger_backend \<Rightarrow> session_registry \<Rightarrow> session_registry" where
  "set_drops_ledger b r = r\<lparr>rg_drops_ledger := Some b\<rparr>"

definition record_drops ::
  "string \<Rightarrow> string \<Rightarrow> string \<Rightarrow> string list \<Rightarrow> session_registry \<Rightarrow> drop_entry list" where
  "record_drops evicted_at tenant_id session_id claim_ids r =
     (case rg_drops_ledger r of
        None \<Rightarrow> []
      | Some _ \<Rightarrow>
          map (\<lambda>claim_id. \<lparr>de_session_id = session_id, de_tenant_id = tenant_id,
                           de_claim_id = claim_id, de_evicted_at = evicted_at\<rparr>) claim_ids)"

definition persist_snapshot :: "session_snapshot \<Rightarrow> session_registry \<Rightarrow> session_snapshot option" where
  "persist_snapshot snapshot r = map_option (\<lambda>_. snapshot) (rg_storage r)"

definition new_entry :: "nat \<Rightarrow> string \<Rightarrow> usage_config \<Rightarrow> access_mode \<Rightarrow> session_entry" where
  "new_entry now i config mode =
     (let policy = uc_eviction_policy config
      in \<lparr>se_session = session_new now i (uc_max_context_tokens config) policy,
          se_budget = usage_tracker_new config policy, se_access_mode = mode, se_memory = [],
          se_parent_session_id = None, se_client_name = None, se_tenant_id = None\<rparr>)"

definition create_session ::
  "nat \<Rightarrow> string \<Rightarrow> usage_config option \<Rightarrow> access_mode \<Rightarrow> session_registry
     \<Rightarrow> session_registry \<times> session_entry" where
  "create_session now i budget_config mode r =
     (let config = (case budget_config of None \<Rightarrow> rg_default_budget_config r | Some c \<Rightarrow> c);
          e = new_entry now i config mode
      in (r\<lparr>rg_sessions := AList.update i e (rg_sessions r)\<rparr>, e))"

definition get_session :: "string \<Rightarrow> session_registry \<Rightarrow> session_entry option" where
  "get_session i r = map_of (rg_sessions r) i"

definition get_or_create ::
  "nat \<Rightarrow> string \<Rightarrow> usage_config option \<Rightarrow> access_mode \<Rightarrow> session_registry
     \<Rightarrow> session_registry \<times> session_entry" where
  "get_or_create now i budget_config mode r =
     (case map_of (rg_sessions r) i of
        Some e \<Rightarrow> (r, e)
      | None \<Rightarrow> create_session now i budget_config mode r)"

definition remove_session :: "string \<Rightarrow> session_registry \<Rightarrow> session_registry \<times> session_entry option" where
  "remove_session i r =
     (r\<lparr>rg_sessions := AList.delete i (rg_sessions r)\<rparr>, map_of (rg_sessions r) i)"

definition invalidate_entry ::
  "json_codec \<Rightarrow> string \<Rightarrow> string list \<Rightarrow> session_entry \<Rightarrow> session_entry \<times> nat" where
  "invalidate_entry J corpus_id changed e =
     (let (s, n) = invalidate_corpus_sections J corpus_id changed (se_session e)
      in (e\<lparr>se_session := s\<rparr>, n))"

definition invalidate_all_in_corpus ::
  "json_codec \<Rightarrow> string \<Rightarrow> string list \<Rightarrow> session_registry \<Rightarrow> session_registry \<times> nat" where
  "invalidate_all_in_corpus J corpus_id changed r =
     (r\<lparr>rg_sessions := map (\<lambda>(i, e). (i, fst (invalidate_entry J corpus_id changed e))) (rg_sessions r)\<rparr>,
      fold (\<lambda>(i, e) total. add_u64 total (snd (invalidate_entry J corpus_id changed e)))
        (rg_sessions r) 0)"

definition invalidate_all ::
  "json_codec \<Rightarrow> string list \<Rightarrow> session_registry \<Rightarrow> session_registry \<times> nat" where
  "invalidate_all J changed r = invalidate_all_in_corpus J PRIMARY_CORPUS_ID changed r"

section \<open>Capture and restoration\<close>

definition delivery_snapshot :: "delivered_item \<Rightarrow> session_delivery_snapshot" where
  "delivery_snapshot it =
     \<lparr>ds_identity = item_identity it, ds_index_resolution = resolution_str (it_resolution it),
      ds_token_count = it_token_count it, ds_turn_delivered = it_turn_delivered it,
      ds_content_hash = it_content_hash it, ds_compression_tier = tier_as_str (it_compression_tier it),
      ds_compressed_summary = it_compressed_summary it\<rparr>"

definition snapshot_state ::
  "json_codec \<Rightarrow> string \<Rightarrow> nat \<Rightarrow> session_registry \<Rightarrow> session_state_snapshot" where
  "snapshot_state J session_id revision r =
     (case map_of (rg_sessions r) session_id of
        None \<Rightarrow> state_snapshot_default
      | Some e \<Rightarrow>
          (let s = se_session e;
               delivered = map delivery_snapshot (delivered_values s);
               delivered_keys = map (\<lambda>d. storage_key J (ds_identity d)) delivered;
               dropped = remdups_adj (sort_key (storage_key J)
                 (filter (\<lambda>d. storage_key J d \<notin> set delivered_keys) (s_trajectory s)))
           in \<lparr>st_version = SESSION_STATE_VERSION, st_revision = revision,
               st_delivered = delivered, st_trajectory = s_trajectory s,
               st_dropped_identities = dropped, st_current_turn = s_current_turn s,
               st_metrics = s_metrics s\<rparr>))"

definition parse_resolution :: "string \<Rightarrow> resolution" where
  "parse_resolution v =
     (if v = ''summary'' then Summary else if v = ''claim'' then Claim else Section)"

definition restore_item :: "session_delivery_snapshot \<Rightarrow> delivered_item" where
  "restore_item d =
     \<lparr>it_content_id = di_content_id (ds_identity d),
      it_resolution = parse_resolution (ds_index_resolution d),
      it_corpus_id = di_corpus_id (ds_identity d),
      it_delivery_resolution = di_resolution (ds_identity d),
      it_token_count = ds_token_count d, it_turn_delivered = ds_turn_delivered d,
      it_content_hash = ds_content_hash d,
      it_compression_tier = tier_from_str_or_full (ds_compression_tier d),
      it_compressed_summary = ds_compressed_summary d\<rparr>"

definition hydrate_session ::
  "json_codec \<Rightarrow> nat \<Rightarrow> string \<Rightarrow> session_state_snapshot \<Rightarrow> session \<Rightarrow> session" where
  "hydrate_session J now i st s =
     (let dropped = map (storage_key J) (st_dropped_identities st);
          delivered = bt_collect
            (List.map_filter (\<lambda>d. let key = storage_key J (ds_identity d)
               in if key \<in> set dropped then None else Some (key, restore_item d)) (st_delivered st))
      in set_metrics (st_metrics st)
           (session_restore J now i (s_agent_context_budget s) (s_eviction_policy s) delivered
              (st_trajectory st) (st_current_turn st)))"

definition replay_budget :: "json_codec \<Rightarrow> session \<Rightarrow> usage_tracker \<Rightarrow> usage_tracker" where
  "replay_budget J s t =
     fold (\<lambda>it t. fst (record_tokens (storage_key J (item_identity it)) (it_token_count it) t))
       (delivered_values s) t"

definition hydrate_entry ::
  "json_codec \<Rightarrow> nat \<Rightarrow> string \<Rightarrow> session_snapshot \<Rightarrow> session_entry \<Rightarrow> session_entry" where
  "hydrate_entry J now i snapshot e =
     (let e = e\<lparr>se_tenant_id := Some (sn_tenant_id snapshot)\<rparr>
      in if 0 < st_version (sn_state snapshot) then
           (let s = hydrate_session J now i (sn_state snapshot) (se_session e)
            in e\<lparr>se_session := s, se_budget := replay_budget J s (se_budget e)\<rparr>)
         else if 0 < sn_budget_used snapshot then
           (let tokens = nat (sn_budget_used snapshot);
                capacity = uc_max_context_tokens (ut_config (se_budget e));
                clamped = min tokens (capacity - 1)
            in if 0 < clamped
               then e\<lparr>se_budget := fst (seed_prior_consumption clamped (se_budget e))\<rparr> else e)
         else e)"

definition try_restore ::
  "json_codec \<Rightarrow> nat \<Rightarrow> string \<Rightarrow> string \<Rightarrow> usage_config option \<Rightarrow> access_mode \<Rightarrow> session_registry
     \<Rightarrow> session_registry \<times> restored_session option" where
  "try_restore J now i tenant_id budget_config mode r =
     (if map_of (rg_sessions r) i \<noteq> None then (r, None)
      else
        (case rg_storage r of
           None \<Rightarrow> (r, None)
         | Some b \<Rightarrow>
             (case sb_load b tenant_id i of
                Inl _ \<Rightarrow> (r, None)
              | Inr None \<Rightarrow> (r, None)
              | Inr (Some snapshot) \<Rightarrow>
                  (let drops = (case rg_drops_ledger r of
                                  None \<Rightarrow> []
                                | Some l \<Rightarrow> (case lb_list l tenant_id i of
                                               Inl _ \<Rightarrow> [] | Inr rows \<Rightarrow> rows));
                       (r1, e) = create_session now i budget_config mode r;
                       e1 = hydrate_entry J now i snapshot e
                   in (r1\<lparr>rg_sessions := AList.update i e1 (rg_sessions r1)\<rparr>,
                       Some \<lparr>rs_snapshot = snapshot, rs_drops = drops\<rparr>)))))"

section \<open>Reference behaviour\<close>

text \<open>The resolutions a snapshot can carry.\<close>

definition coarse :: "resolution \<Rightarrow> bool" where
  "coarse res = (res \<in> {Summary, Section, Claim})"

text \<open>A store that keeps its row unless the incoming one supersedes it, as the trait requires.\<close>

definition store_row :: "session_snapshot \<Rightarrow> session_snapshot \<Rightarrow> session_snapshot" where
  "store_row incoming current = (if supersedes incoming current then incoming else current)"

section \<open>Lemmas\<close>

lemma tier_roundtrip [simp]: "tier_from_str_or_full (tier_as_str t) = t"
  by (cases t) (simp_all add: tier_from_str_or_full_def)

lemma parse_resolution_iff: "parse_resolution (resolution_str res) = res \<longleftrightarrow> coarse res"
  by (cases res) (simp_all add: parse_resolution_def coarse_def)

lemma restore_item_snapshot:
  "coarse (it_resolution it) \<Longrightarrow> it_delivery_resolution it \<noteq> [] \<Longrightarrow> restore_item (delivery_snapshot it) = it"
  using parse_resolution_iff [of "it_resolution it"]
  by (simp add: restore_item_def delivery_snapshot_def item_identity_def di_new_def)

lemma ds_identity_snapshot [simp]: "ds_identity (delivery_snapshot it) = item_identity it"
  by (simp add: delivery_snapshot_def)

text \<open>The delivered map a snapshot gives back is the one it was taken from.\<close>

lemma hydrate_delivered:
  assumes "delivered_ok J m" and "\<forall>it \<in> snd ` set m. coarse (it_resolution it) \<and> it_delivery_resolution it \<noteq> []"
    and "set dropped \<inter> fst ` set m = {}"
  shows "bt_collect (List.map_filter (\<lambda>d. let key = storage_key J (ds_identity d)
      in if key \<in> set dropped then None else Some (key, restore_item d)) (map delivery_snapshot (map snd m))) = m"
proof -
  have "List.map_filter (\<lambda>d. let key = storage_key J (ds_identity d)
      in if key \<in> set dropped then None else Some (key, restore_item d)) (map delivery_snapshot (map snd m)) = m"
  proof -
    have "(let key = storage_key J (ds_identity d) in if key \<in> set dropped then None else Some (key, restore_item d))
        = Some (storage_key J (ds_identity d), restore_item d)"
      if "d \<in> set (map delivery_snapshot (map snd m))" for d
    proof -
      from that obtain k it where "(k, it) \<in> set m" "d = delivery_snapshot it" by auto
      then have "storage_key J (ds_identity d) \<in> fst ` set m"
        using delivered_okD(2) [OF assms(1)] by force
      with assms(3) show ?thesis by (auto simp: Let_def)
    qed
    then have "List.map_filter (\<lambda>d. let key = storage_key J (ds_identity d)
        in if key \<in> set dropped then None else Some (key, restore_item d)) (map delivery_snapshot (map snd m))
        = map (\<lambda>d. (storage_key J (ds_identity d), restore_item d)) (map delivery_snapshot (map snd m))"
      by (intro map_filter_all)
    also have "\<dots> = m"
      unfolding map_map
    proof (rule map_idI)
      fix p assume p: "p \<in> set m"
      then have "snd p \<in> snd ` set m" by (rule imageI)
      then have "restore_item (delivery_snapshot (snd p)) = snd p"
        using assms(2) restore_item_snapshot by blast
      then show "((\<lambda>d. (storage_key J (ds_identity d), restore_item d)) \<circ> (delivery_snapshot \<circ> snd)) p = p"
        using delivered_okD(2) [OF assms(1), of "fst p" "snd p"] p by (simp add: prod_eq_iff)
    qed
    finally show ?thesis .
  qed
  then show ?thesis using bt_collect_ok [OF delivered_okD(1) [OF assms(1)]] by simp
qed

lemma hydrate_snapshot:
  fixes now rv s0
  assumes "map_of (rg_sessions r) i = Some e" and "session_ok J (se_session e)"
    and "\<forall>it \<in> set (delivered_values (se_session e)). coarse (it_resolution it) \<and> it_delivery_resolution it \<noteq> []"
    and "\<forall>d \<in> set (s_trajectory (se_session e)). di_resolution d \<noteq> ''legacy''"
  defines "s' \<equiv> hydrate_session J now i (snapshot_state J i rv r) s0"
  shows "s_delivered s' = s_delivered (se_session e)" "s_trajectory s' = s_trajectory (se_session e)"
    "s_current_turn s' = s_current_turn (se_session e)" "s_metrics s' = s_metrics (se_session e)"
proof -
  let ?s = "se_session e" and ?st = "snapshot_state J i rv r"
  have d: "delivered_ok J (s_delivered ?s)" using assms(2) by (simp add: session_ok_def)
  have st: "st_delivered ?st = map delivery_snapshot (delivered_values ?s)" "st_trajectory ?st = s_trajectory ?s"
    "st_current_turn ?st = s_current_turn ?s" "st_metrics ?st = s_metrics ?s"
    by (simp_all add: snapshot_state_def assms(1) Let_def)
  have "set (map (storage_key J) (st_dropped_identities ?st)) \<inter> delivered_keys ?s = {}"
  proof -
    have keys: "set (map (\<lambda>d. storage_key J (ds_identity d)) (map delivery_snapshot (delivered_values ?s)))
        = delivered_keys ?s"
      using delivered_okD(2) [OF d] by force
    have "set (st_dropped_identities ?st) = {d \<in> set (s_trajectory ?s). storage_key J d \<notin> delivered_keys ?s}"
      unfolding keys [symmetric] by (simp add: snapshot_state_def assms(1) Let_def image_image)
    then show ?thesis by auto
  qed
  from hydrate_delivered [OF d _ this] assms(3)
  have "s' = set_metrics (s_metrics ?s) (session_restore J now i (s_agent_context_budget s0) (s_eviction_policy s0)
      (s_delivered ?s) (s_trajectory ?s) (s_current_turn ?s))"
    unfolding s'_def hydrate_session_def st by (simp add: Let_def)
  with restore_eqs [OF assms(2,4)] show "s_delivered s' = s_delivered ?s" "s_trajectory s' = s_trajectory ?s"
    "s_current_turn s' = s_current_turn ?s" "s_metrics s' = s_metrics ?s"
    by (simp_all add: set_metrics_def)
qed

text \<open>Replaying a session into a budget is the replay the window's contract speaks of.\<close>

abbreviation replay_list :: "json_codec \<Rightarrow> session \<Rightarrow> (string \<times> nat) list" where
  "replay_list J s \<equiv> map (\<lambda>it. (storage_key J (item_identity it), it_token_count it)) (delivered_values s)"

lemma replay_budget_eq:
  "replay_budget J s t = t\<lparr>ut_window := estimator.put_all (replay_list J s) (ut_window t)\<rparr>"
proof -
  have "fold (\<lambda>it t. fst (record_tokens (storage_key J (item_identity it)) (it_token_count it) t)) its t
      = t\<lparr>ut_window := estimator.put_all (map (\<lambda>it. (storage_key J (item_identity it), it_token_count it)) its)
            (ut_window t)\<rparr>" for its
    by (induction its arbitrary: t)
      (simp_all add: estimator.put_all_def record_tokens_def on_window_def case_prod_beta Let_def)
  then show ?thesis by (simp add: replay_budget_def)
qed

lemma replay_budget_ok:
  assumes "tracker_ok t" and "\<forall>it \<in> set (delivered_values s). uc_max_context_tokens (ut_config t) + it_token_count it \<le> u64_max"
  shows "tracker_ok (replay_budget J s t)"
  using estimator.put_all_ok [of "ut_window t" "replay_list J s"] estimator.put_all_cap assms
  by (auto simp: replay_budget_eq tracker_ok_def)

lemma replay_budget_exact:
  assumes "delivered_ok J (s_delivered s)" and "sum_list (map it_token_count (delivered_values s)) \<le> uc_max_context_tokens c"
    and "uc_max_context_tokens c \<le> u64_max"
  shows "estimated_used (ut_window (replay_budget J s (usage_tracker_new c p)))
    = sum_list (map it_token_count (delivered_values s))"
proof -
  have "distinct (map fst (replay_list J s))"
    using selected_distinct [OF assms(1), of "\<lambda>_. True"] by (simp add: comp_def)
  then show ?thesis
    using estimator.put_all_exact [of "window_new (uc_max_context_tokens c) p" "replay_list J s"] assms(2,3)
    by (simp add: replay_budget_eq usage_tracker_new_def estimated_used_def comp_def) (simp add: window_new_def)
qed

lemma supersedes_refl: "supersedes a a"
  by (simp add: supersedes_def Let_def)

lemma supersedes_trans: "supersedes a b \<Longrightarrow> supersedes b c \<Longrightarrow> supersedes a c"
  by (auto simp: supersedes_def Let_def split: if_splits)

lemma supersedes_total: "supersedes a b \<or> supersedes b a"
  by (auto simp: supersedes_def Let_def)

section \<open>Properties\<close>

text \<open>
  C2. A session survives the loss of its pod: the snapshot taken of a live session, loaded by a registry
  that does not know the session, gives back the same delivered items under the same keys
  (tier, summary, hash and turn included), the same trajectory, turn and metrics, and a budget
  within its capacity that counts every delivered token when they fit together. Items are of
  the summary, section or claim resolution, as everywhere the server records deliveries.
\<close>

theorem snapshot_restore_roundtrip:
  assumes "get_session i r = Some e" and "session_ok J (se_session e)"
    and "\<forall>it \<in> set (delivered_values (se_session e)). coarse (it_resolution it) \<and> it_delivery_resolution it \<noteq> []"
    and "\<forall>d \<in> set (s_trajectory (se_session e)). di_resolution d \<noteq> ''legacy''"
    and "get_session i r2 = None" and "rg_storage r2 = Some b"
    and "sb_load b tenant i = Inr (Some sn)" and "sn_state sn = snapshot_state J i rv r"
    and "\<forall>it \<in> set (delivered_values (se_session e)). uc_max_context_tokens c + it_token_count it \<le> u64_max"
    and "uc_max_context_tokens c \<le> u64_max"
  shows "\<exists>e'. get_session i (fst (try_restore J now i tenant (Some c) mode r2)) = Some e'
    \<and> s_delivered (se_session e') = s_delivered (se_session e)
    \<and> s_trajectory (se_session e') = s_trajectory (se_session e)
    \<and> s_current_turn (se_session e') = s_current_turn (se_session e)
    \<and> s_metrics (se_session e') = s_metrics (se_session e)
    \<and> tracker_ok (se_budget e')
    \<and> (sum_list (map it_token_count (delivered_values (se_session e))) \<le> uc_max_context_tokens c \<longrightarrow>
         estimated_used (ut_window (se_budget e')) = sum_list (map it_token_count (delivered_values (se_session e))))"
proof -
  let ?s = "hydrate_session J now i (snapshot_state J i rv r) (se_session (new_entry now i c mode))"
  let ?t = "usage_tracker_new c (uc_eviction_policy c)"
  let ?e = "(new_entry now i c mode)\<lparr>se_tenant_id := Some (sn_tenant_id sn), se_session := ?s,
      se_budget := replay_budget J ?s ?t\<rparr>"
  have m: "map_of (rg_sessions r) i = Some e" using assms(1) by (simp add: get_session_def)
  note hy = hydrate_snapshot [OF m assms(2-4), where now = now and rv = rv and ?s0.0 = "se_session (new_entry now i c mode)"]
  have "0 < st_version (snapshot_state J i rv r)"
    by (simp add: snapshot_state_def m Let_def SESSION_STATE_VERSION_def)
  then have "get_session i (fst (try_restore J now i tenant (Some c) mode r2)) = Some ?e"
    using assms(5-8)
    by (simp add: try_restore_def get_session_def create_session_def Let_def hydrate_entry_def update_conv'
        new_entry_def)
  moreover have "tracker_ok (replay_budget J ?s ?t)"
    using assms(9) by (intro replay_budget_ok tracker_ok_new) (simp add: hy usage_tracker_new_def)
  moreover have "estimated_used (ut_window (replay_budget J ?s ?t)) = sum_list (map it_token_count (delivered_values ?s))"
    if "sum_list (map it_token_count (delivered_values (se_session e))) \<le> uc_max_context_tokens c"
    using that assms(2,10) by (intro replay_budget_exact) (simp_all only: hy, simp add: session_ok_def)
  ultimately show ?thesis using hy by (intro exI [of _ ?e]) (simp add: comp_def)
qed

lemma snapshot_restore_roundtrip_witness:
  "\<exists>e'. get_session ''s'' (fst (try_restore netstring_codec 5 ''s'' ''t'' (Some (usage_config_default None)) ReadWrite
      ((registry_new (usage_config_default None))\<lparr>rg_storage := Some \<lparr>sb_load = (\<lambda>t i. Inr (Some
        \<lparr>sn_session_id = ''s'', sn_tenant_id = ''t'', sn_corpus_id = None, sn_opened_at = [], sn_last_seen_at = [],
         sn_budget_used = 0, sn_coherence_score = 1,
         sn_state = snapshot_state netstring_codec ''s'' 1 ((registry_new (usage_config_default None))
           \<lparr>rg_sessions := [(''s'', (new_entry 0 ''s'' (usage_config_default None) ReadWrite)
              \<lparr>se_session := record_delivery netstring_codec ''a'' Section 10 1 ''h'' (session_new 0 ''s'' 200000 Fifo)\<rparr>)]\<rparr>)\<rparr>))\<rparr>\<rparr>)))
      = Some e' \<and> estimated_used (ut_window (se_budget e')) = 10"
proof -
  let ?s = "record_delivery netstring_codec ''a'' Section 10 1 ''h'' (session_new 0 ''s'' 200000 Fifo)"
  let ?e = "(new_entry 0 ''s'' (usage_config_default None) ReadWrite)\<lparr>se_session := ?s\<rparr>"
  have ok: "session_ok netstring_codec ?s"
    using session_step_ok [OF netstring_codec_ok session_ok_new, of "Deliver ''a'' Section 10 1 ''h''"]
    by (simp add: u32_max_def)
  have vals: "map snd (s_delivered ?s) = [\<lparr>it_content_id = ''a'', it_resolution = Section, it_corpus_id = PRIMARY_CORPUS_ID,
      it_delivery_resolution = ''section'', it_token_count = 10, it_turn_delivered = 1, it_content_hash = ''h'',
      it_compression_tier = Full, it_compressed_summary = None\<rparr>]"
    "s_trajectory ?s = [di_primary ''a'' ''section'']"
    by (simp_all add: record_delivery_def record_delivery_identity_def session_new_def Let_def di_primary_def di_new_def
        MAX_TRAJECTORY_LEN_def)
  show ?thesis
    using snapshot_restore_roundtrip [of "''s''" "(registry_new (usage_config_default None))\<lparr>rg_sessions := [(''s'', ?e)]\<rparr>"
        ?e netstring_codec "(registry_new (usage_config_default None))\<lparr>rg_storage := Some \<lparr>sb_load = (\<lambda>t i. Inr (Some
        \<lparr>sn_session_id = ''s'', sn_tenant_id = ''t'', sn_corpus_id = None, sn_opened_at = [], sn_last_seen_at = [],
         sn_budget_used = 0, sn_coherence_score = 1,
         sn_state = snapshot_state netstring_codec ''s'' 1 ((registry_new (usage_config_default None))
           \<lparr>rg_sessions := [(''s'', ?e)]\<rparr>)\<rparr>))\<rparr>\<rparr>" _ "''t''" _ 1 "usage_config_default None" 5 ReadWrite]
      ok vals
    by (fastforce simp: get_session_def registry_new_def coarse_def di_primary_def di_new_def usage_config_default_def
        default_max_context_tokens_def FALLBACK_CONTEXT_TOKENS_def u64_max_def)
qed

text \<open>
  Only those three resolutions come back from a snapshot: for every other one, the two symbol
  resolutions, the restored item is of the section resolution, although restoration is
  described as exact; the identity, tokens, tier and summary are kept in every case.
\<close>

theorem restore_item_resolution:
  assumes "it_delivery_resolution it \<noteq> []"
  shows "restore_item (delivery_snapshot it) = it\<lparr>it_resolution := (if coarse (it_resolution it) then it_resolution it else Section)\<rparr>
    \<and> (restore_item (delivery_snapshot it) = it \<longleftrightarrow> it_resolution it \<noteq> SymbolStub \<and> it_resolution it \<noteq> SymbolFull)"
proof -
  have res: "parse_resolution (resolution_str res) = (if coarse res then res else Section)" for res
    by (cases res) (simp_all add: parse_resolution_def coarse_def)
  have "restore_item (delivery_snapshot it) = it\<lparr>it_resolution := (if coarse (it_resolution it) then it_resolution it else Section)\<rparr>"
    using assms by (simp add: restore_item_def delivery_snapshot_def item_identity_def di_new_def res)
  moreover have "it\<lparr>it_resolution := r\<rparr> = it \<longleftrightarrow> r = it_resolution it" for r
    by (metis delivered_item.select_convs(2) delivered_item.surjective delivered_item.update_convs(2))
  ultimately show ?thesis
    by (cases "it_resolution it") (simp_all add: coarse_def)
qed

lemma restore_item_resolution_witness:
  "it_resolution (restore_item (delivery_snapshot \<lparr>it_content_id = ''f'', it_resolution = SymbolStub,
     it_corpus_id = ''primary'', it_delivery_resolution = ''symbol_stub'', it_token_count = 3, it_turn_delivered = 1,
     it_content_hash = ''h'', it_compression_tier = Full, it_compressed_summary = None\<rparr>)) = Section"
  using restore_item_resolution [of "\<lparr>it_content_id = ''f'', it_resolution = SymbolStub,
     it_corpus_id = ''primary'', it_delivery_resolution = ''symbol_stub'', it_token_count = 3, it_turn_delivered = 1,
     it_content_hash = ''h'', it_compression_tier = Full, it_compressed_summary = None\<rparr>"]
  by (simp add: coarse_def)

text \<open>
  Coherence propagation reaches every session and stays in its corpus: each session of the
  registry gets the invalidation of the changed sections, the total is the number of items
  invalidated in all of them, and no delivery of another corpus changes its staleness in any session.
\<close>

theorem invalidate_all_exact:
  assumes "\<forall>(i, e) \<in> set (rg_sessions r). session_ok J (se_session e)"
    and "sum_list (map (\<lambda>(i, e). length (s_delivered (se_session e))) (rg_sessions r)) \<le> u64_max"
  shows "let (r', n) = invalidate_all_in_corpus J corpus changed r in
    (\<forall>i. get_session i r' = map_option (\<lambda>e. e\<lparr>se_session := fst (invalidate_corpus_sections J corpus changed (se_session e))\<rparr>)
        (get_session i r))
    \<and> n = sum_list (map (\<lambda>(i, e). length (filter (\<lambda>it. it_corpus_id it = corpus \<and> it_content_id it \<in> set changed)
              (delivered_values (se_session e)))) (rg_sessions r))
    \<and> (\<forall>i e e' it. get_session i r = Some e \<and> get_session i r' = Some e' \<and> it \<in> set (delivered_values (se_session e))
         \<and> it_corpus_id it \<noteq> corpus \<longrightarrow>
         is_identity_stale J (item_identity it) (se_session e') = is_identity_stale J (item_identity it) (se_session e))"
proof -
  let ?hit = "\<lambda>it. it_corpus_id it = corpus \<and> it_content_id it \<in> set changed"
  let ?cnt = "\<lambda>(i :: string, e). length (filter ?hit (delivered_values (se_session e)))"
  have inv: "fst (invalidate_entry J corpus changed e) = e\<lparr>se_session := fst (invalidate_corpus_sections J corpus changed (se_session e))\<rparr>" for e
    by (simp add: invalidate_entry_def case_prod_beta Let_def)
  have look: "map_of (map (\<lambda>(i, e). (i, f e)) m) i = map_option f (map_of m i)" for f :: "session_entry \<Rightarrow> session_entry" and m and i :: string
    by (induction m) auto
  have cnt: "snd (invalidate_entry J corpus changed e) = ?cnt (i, e)" if "(i, e) \<in> set (rg_sessions r)" for i e
    using that assms(1) invalidate_corpus_facts(1) [of J "se_session e"]
    by (auto simp: invalidate_entry_def case_prod_beta Let_def)
  have "fold (\<lambda>(i, e) total. add_u64 total (snd (invalidate_entry J corpus changed e))) (rg_sessions r) 0
      = fold (\<lambda>p total. add_u64 total (?cnt p)) (rg_sessions r) 0"
    using cnt by (intro fold_cong) (auto split: prod.splits)
  also have "\<dots> = sum_list (map ?cnt (rg_sessions r)) mod Suc u64_max"
    using fold_add_u64 [of ?cnt "rg_sessions r" 0] by simp
  also have "\<dots> = sum_list (map ?cnt (rg_sessions r))"
  proof -
    have "sum_list (map ?cnt (rg_sessions r)) \<le> sum_list (map (\<lambda>(i, e). length (s_delivered (se_session e))) (rg_sessions r))"
      by (intro sum_list_mono) (auto intro: length_filter_le [THEN le_trans])
    with assms(2) show ?thesis by simp
  qed
  finally have total: "fold (\<lambda>(i, e) total. add_u64 total (snd (invalidate_entry J corpus changed e))) (rg_sessions r) 0
      = sum_list (map ?cnt (rg_sessions r))" .
  have other: "is_identity_stale J (item_identity it) (fst (invalidate_corpus_sections J corpus changed (se_session e)))
      = is_identity_stale J (item_identity it) (se_session e)"
    if "map_of (rg_sessions r) i = Some e" "it \<in> set (delivered_values (se_session e))" "it_corpus_id it \<noteq> corpus" for i e it
  proof -
    have ok: "session_ok J (se_session e)" using that(1) assms(1) by (auto dest!: map_of_SomeD)
    from that(2) obtain k where k: "(k, it) \<in> set (s_delivered (se_session e))" by auto
    then have "k = storage_key J (item_identity it)" using ok by (auto simp: session_ok_def dest: delivered_okD(2))
    then show ?thesis
      using invalidate_corpus_facts(2) [OF ok k, of corpus changed] that(3) by (simp add: is_identity_stale_def)
  qed
  show ?thesis
    unfolding invalidate_all_in_corpus_def get_session_def inv total look Let_def case_prod_conv
      session_registry.simps
    by (intro conjI allI impI refl) (use other look in \<open>auto simp del: set_map\<close>)
qed

lemma invalidate_all_exact_witness:
  "snd (invalidate_all_in_corpus netstring_codec PRIMARY_CORPUS_ID [''a''] (registry_new (usage_config_default None))) = 0"
  using invalidate_all_exact [of "registry_new (usage_config_default None)" netstring_codec PRIMARY_CORPUS_ID "[''a'']"]
  by (simp add: registry_new_def case_prod_beta)

text \<open>
  Checkpoints may arrive in any order: a store that keeps its row unless the incoming one
  supersedes it ends with a row that supersedes every row it was ever given, so an older
  checkpoint in flight cannot bring dropped content back.
\<close>

theorem late_checkpoint_loses:
  "\<forall>x \<in> set (first # rows). supersedes (fold store_row rows first) x"
proof -
  have "supersedes (fold store_row rows a) a \<and> (\<forall>x \<in> set rows. supersedes (fold store_row rows a) x)" for a
  proof (induction rows arbitrary: a)
    case Nil
    then show ?case by (simp add: supersedes_refl)
  next
    case (Cons y ys)
    have "supersedes (store_row y a) a \<and> supersedes (store_row y a) y"
      using supersedes_total [of a y] supersedes_refl by (auto simp: store_row_def)
    with Cons [of "store_row y a"] supersedes_trans show ?case by fastforce
  qed
  then show ?thesis by simp
qed

lemma late_checkpoint_loses_witness:
  "let row = (\<lambda>n. \<lparr>sn_session_id = ''s'', sn_tenant_id = ''t'', sn_corpus_id = None, sn_opened_at = [],
       sn_last_seen_at = [], sn_budget_used = 0, sn_coherence_score = 1,
       sn_state = state_snapshot_default\<lparr>st_revision := n\<rparr>\<rparr>)
   in supersedes (fold store_row [row 3] (row 7)) (row 7)"
  using late_checkpoint_loses by (simp only: Let_def) (meson list.set_intros(1))

text \<open>
  A registry never loses a live session to a restore: a session it already has is left alone, and
  when there is no store, no row, or the store fails, nothing changes. A row without
  detailed state seeds the budget with its total, clamped so that the seed stays resident.
\<close>

theorem try_restore_conservative:
  "(get_session i r \<noteq> None \<or> rg_storage r = None \<or> (\<exists>b. rg_storage r = Some b \<and>
      (sb_load b tenant i = Inr None \<or> (\<exists>err. sb_load b tenant i = Inl err)))
    \<longrightarrow> try_restore J now i tenant c mode r = (r, None))
   \<and> (\<forall>j. j \<noteq> i \<longrightarrow> get_session j (fst (try_restore J now i tenant c mode r)) = get_session j r)
   \<and> (st_version (sn_state sn) = 0 \<and> uc_max_context_tokens config \<le> u64_max \<longrightarrow>
        estimated_used (ut_window (se_budget (hydrate_entry J now i sn (new_entry now i config mode))))
          = min (nat (sn_budget_used sn)) (uc_max_context_tokens config - 1))"
proof (intro conjI impI allI)
  assume "get_session i r \<noteq> None \<or> rg_storage r = None \<or> (\<exists>b. rg_storage r = Some b \<and>
      (sb_load b tenant i = Inr None \<or> (\<exists>err. sb_load b tenant i = Inl err)))"
  then show "try_restore J now i tenant c mode r = (r, None)"
    by (auto simp: try_restore_def get_session_def)
next
  fix j assume "j \<noteq> i"
  then show "get_session j (fst (try_restore J now i tenant c mode r)) = get_session j r"
    by (auto simp: try_restore_def get_session_def create_session_def Let_def update_conv'
        split: option.splits sum.splits)
next
  assume a: "st_version (sn_state sn) = 0 \<and> uc_max_context_tokens config \<le> u64_max"
  let ?n = "min (nat (sn_budget_used sn)) (uc_max_context_tokens config - 1)"
  have "w_current_tokens (fst (record_with_scores PRIOR_CONSUMPTION_CONTENT_ID ?n None
      (window_new (uc_max_context_tokens config) (uc_eviction_policy config)))) = ?n"
    using record_room [of "window_new (uc_max_context_tokens config) (uc_eviction_policy config)" ?n] a
    by (simp add: window_new_sel)
  then show "estimated_used (ut_window (se_budget (hydrate_entry J now i sn (new_entry now i config mode)))) = ?n"
    using a by (auto simp: hydrate_entry_def Let_def new_entry_def usage_tracker_new_def seed_prior_consumption_def
        record_prior_consumption_def estimated_used_def window_new_sel)
qed

lemma try_restore_conservative_witness:
  "try_restore netstring_codec 0 ''s'' ''t'' None ReadWrite (registry_new (usage_config_default None))
     = (registry_new (usage_config_default None), None)"
  using try_restore_conservative by (simp add: registry_new_def)

end
