(* ===== verification/Scheduler.thy ===== *)
theory Scheduler
  imports Prelude
begin

text \<open>
  The ingestion scheduler, \<open>ministr-daemon/src/scheduler.rs\<close>: a counting semaphore
  bounding how many corpora index at once, and a lock per corpus. A permit is taken with
  \<open>try_acquire_permit\<close> and given back by dropping it; tokio's semaphore is not part of
  the repository, and what the code uses of it is the number of free permits. The blocking
  \<open>acquire\<close> is a transition that is enabled when neither the corpus's lock nor the
  semaphore makes it wait, in the order it takes them.

  The locale \<open>permit_pool\<close> is what the coordinator relies on; it is interpreted on the scheduler.
\<close>

record scheduler =
  sch_free :: nat
  sch_locked :: "(string \<times> bool) list"
  sch_max_concurrency :: nat

definition scheduler_new :: "nat \<Rightarrow> scheduler" where
  "scheduler_new max_concurrency =
     (let n = max max_concurrency 1
      in \<lparr>sch_free = n, sch_locked = [], sch_max_concurrency = n\<rparr>)"

text \<open>\<open>cores\<close> is what \<open>available_parallelism\<close> reports, \<open>None\<close> its error.\<close>

definition with_default_concurrency :: "nat option \<Rightarrow> scheduler" where
  "with_default_concurrency cores =
     scheduler_new (min (max (case cores of None \<Rightarrow> 2 | Some n \<Rightarrow> n) 2) 4)"

definition try_acquire_permit :: "scheduler \<Rightarrow> scheduler option" where
  "try_acquire_permit s =
     (if sch_free s = 0 then None else Some (s\<lparr>sch_free := sch_free s - 1\<rparr>))"

definition drop_permit :: "scheduler \<Rightarrow> scheduler" where
  "drop_permit s = s\<lparr>sch_free := Suc (sch_free s)\<rparr>"

text \<open>The lock of a corpus, created unlocked when it is first asked for.\<close>

definition corpus_lock :: "string \<Rightarrow> scheduler \<Rightarrow> scheduler \<times> bool" where
  "corpus_lock c s =
     (case map_of (sch_locked s) c of
        None \<Rightarrow> (s\<lparr>sch_locked := AList.update c False (sch_locked s)\<rparr>, False)
      | Some b \<Rightarrow> (s, b))"

text \<open>
  \<open>acquire\<close> in its two waits: \<open>Waiting\<close> on the corpus's lock, then, holding it, on the semaphore.
\<close>

datatype acquire_pc = WaitLock string | WaitPermit string | HasSlot string

fun acquire_step :: "acquire_pc \<Rightarrow> scheduler \<Rightarrow> (acquire_pc \<times> scheduler) option" where
  "acquire_step (WaitLock c) s =
     (let (s1, locked) = corpus_lock c s
      in if locked then None
         else Some (WaitPermit c, s1\<lparr>sch_locked := AList.update c True (sch_locked s1)\<rparr>))"
| "acquire_step (WaitPermit c) s =
     (case try_acquire_permit s of None \<Rightarrow> None | Some s1 \<Rightarrow> Some (HasSlot c, s1))"
| "acquire_step (HasSlot c) s = None"

text \<open>Dropping an \<open>IndexSlot\<close> releases the permit, then the corpus's lock.\<close>

definition drop_slot :: "string \<Rightarrow> scheduler \<Rightarrow> scheduler" where
  "drop_slot c s =
     (let s1 = drop_permit s in s1\<lparr>sch_locked := AList.update c False (sch_locked s1)\<rparr>)"

section \<open>The contract of a permit pool\<close>

locale permit_pool =
  fixes free :: "'p \<Rightarrow> nat"
    and take_permit :: "'p \<Rightarrow> 'p option"
    and give :: "'p \<Rightarrow> 'p"
  assumes take_None: "take_permit p = None \<longleftrightarrow> free p = 0"
    and take_Some: "take_permit p = Some q \<Longrightarrow> free p = Suc (free q)"
    and give_free: "free (give p) = Suc (free p)"
begin

text \<open>Permits are conserved: what a holder took and returned leaves the pool as it was.\<close>

lemma take_give: "take_permit p = Some q \<Longrightarrow> free (give q) = free p"
  using take_Some give_free by simp

lemma take_balance: "take_permit p = Some q \<Longrightarrow> free p + h = n \<Longrightarrow> free q + Suc h = n"
  using take_Some by simp

lemma give_balance: "free p + Suc h = n \<Longrightarrow> free (give p) + h = n"
  using give_free by simp

end

interpretation sched: permit_pool sch_free try_acquire_permit drop_permit
  by unfold_locales (auto simp: try_acquire_permit_def drop_permit_def split: if_splits)

lemma scheduler_new_free [simp]: "sch_free (scheduler_new n) = max n 1"
  by (simp add: scheduler_new_def Let_def)

section \<open>Properties\<close>

text \<open>
  A corpus never holds two indexing slots: while its lock is held the first wait of
  another \<open>acquire\<close> for it is not enabled, whatever permits are free, and dropping
  the slot enables it again; a waiting acquire holds no permit.
\<close>

theorem acquire_excludes:
  "(map_of (sch_locked s) c = Some True \<longrightarrow> acquire_step (WaitLock c) s = None)
   \<and> (acquire_step (WaitLock c) s = Some (p, s')
        \<longrightarrow> map_of (sch_locked s') c = Some True \<and> sch_free s' = sch_free s
          \<and> acquire_step (WaitLock c) s' = None
          \<and> acquire_step (WaitLock c) (drop_slot c s') \<noteq> None)"
  by (auto simp: corpus_lock_def drop_slot_def drop_permit_def update_conv' Let_def
      split: option.splits if_splits prod.splits)

lemma acquire_excludes_witness:
  "acquire_step (WaitLock ''a'')
     (snd (the (acquire_step (WaitLock ''a'') (scheduler_new 2)))) = None"
  using acquire_excludes [of "scheduler_new 2" "''a''" "WaitPermit ''a''"
      "snd (the (acquire_step (WaitLock ''a'') (scheduler_new 2)))"]
  by (simp add: corpus_lock_def scheduler_new_def Let_def)

end
