(* ===== verification/Coordinator.thy ===== *)
theory Coordinator
  imports Prelude Scheduler "HOL-Library.Product_Lexorder"
begin

text \<open>
  The ingestion coordinator, \<open>ministr-daemon/src/coordinator.rs\<close>: the queue of pending
  indexing jobs and the tasks that drain it. The queue operations are functions on
  \<open>QueueState\<close>. The async tasks are program counters over the shared state (the
  queue behind its mutex, the scheduler's permits, the corpora's status); one step of a task is
  the code between two points where another task may run, so that a run of the
  coordinator is a sequence of steps of arbitrary tasks. \<open>run_body\<close> is the
  indexer: here a step that ends in any status.
\<close>

section \<open>The queue\<close>

record job =
  job_corpus_id :: string
  job_paths :: "string list"

record pending_job =
  pj_paths :: "string list"
  pj_priority :: nat
  pj_seq :: nat

record queue_state =
  q_pending :: "(string \<times> pending_job) list"
  q_busy :: "string list"
  q_next_seq :: nat

definition queue_empty :: queue_state where
  "queue_empty = \<lparr>q_pending = [], q_busy = [], q_next_seq = 0\<rparr>"

definition union_paths :: "string list \<Rightarrow> string list \<Rightarrow> string list" where
  "union_paths old new = fold (\<lambda>p acc. if p \<in> set acc then acc else acc @ [p]) new old"

definition upsert :: "string \<Rightarrow> string list \<Rightarrow> nat \<Rightarrow> queue_state \<Rightarrow> queue_state" where
  "upsert corpus_id paths priority q =
     (case map_of (q_pending q) corpus_id of
        Some j \<Rightarrow>
          q\<lparr>q_pending := AList.update corpus_id
              (j\<lparr>pj_paths := union_paths (pj_paths j) paths, pj_priority := priority\<rparr>)
              (q_pending q)\<rparr>
      | None \<Rightarrow>
          q\<lparr>q_next_seq := add_u64 (q_next_seq q) 1,
            q_pending := AList.update corpus_id
              \<lparr>pj_paths = paths, pj_priority = priority, pj_seq = q_next_seq q\<rparr>
              (q_pending q)\<rparr>)"

abbreviation job_rank :: "string \<times> pending_job \<Rightarrow> nat \<times> nat" where
  "job_rank p \<equiv> (pj_priority (snd p), pj_seq (snd p))"

definition take_next_dispatchable :: "queue_state \<Rightarrow> queue_state \<times> job option" where
  "take_next_dispatchable q =
     (case min_by (\<lambda>a b. job_rank b < job_rank a)
             (filter (\<lambda>p. fst p \<notin> set (q_busy q)) (q_pending q)) of
        None \<Rightarrow> (q, None)
      | Some (corpus_id, j) \<Rightarrow>
          (q\<lparr>q_pending := AList.delete corpus_id (q_pending q),
             q_busy := hs_insert corpus_id (q_busy q)\<rparr>,
           Some \<lparr>job_corpus_id = corpus_id, job_paths = pj_paths j\<rparr>))"

definition mark_done :: "string \<Rightarrow> queue_state \<Rightarrow> queue_state" where
  "mark_done corpus_id q = q\<lparr>q_busy := hs_remove corpus_id (q_busy q)\<rparr>"

section \<open>The tasks\<close>

datatype indexing_status = Idle | Queued | Indexing nat nat | Error string

type_synonym status_map = "(string \<times> indexing_status) list"

text \<open>\<open>CorpusRegistry::set_status\<close>: only a registered corpus has a status to set.\<close>

definition set_status :: "string \<Rightarrow> indexing_status \<Rightarrow> status_map \<Rightarrow> status_map" where
  "set_status c st m = (if map_of m c = None then m else AList.update c st m)"

record shared =
  sh_queue :: queue_state
  sh_sched :: scheduler
  sh_status :: status_map

datatype pc =
    Enqueue string "string list" nat
  | EnqueueQueued string
  | TryDispatch
  | HavePermit
  | NothingReady
  | Launch job
  | Spawn job
  | RunBody job
  | BodyDone job
  | PermitDropped job
  | Finished

text \<open>
  One step of a task: its next program counter, the tasks it spawns and the shared state, or
  \<open>None\<close> when it has finished. \<open>outcome\<close> is the status the indexer ends with.
\<close>

fun task_step :: "indexing_status \<Rightarrow> pc \<Rightarrow> shared \<Rightarrow> (pc \<times> pc list \<times> shared) option" where
  "task_step outcome (Enqueue c paths priority) s =
     Some (EnqueueQueued c, [], s\<lparr>sh_queue := upsert c paths priority (sh_queue s)\<rparr>)"
| "task_step outcome (EnqueueQueued c) s =
     Some (TryDispatch, [], s\<lparr>sh_status := set_status c Queued (sh_status s)\<rparr>)"
| "task_step outcome TryDispatch s =
     (case try_acquire_permit (sh_sched s) of
        None \<Rightarrow> Some (Finished, [], s)
      | Some sch \<Rightarrow> Some (HavePermit, [], s\<lparr>sh_sched := sch\<rparr>))"
| "task_step outcome HavePermit s =
     (case take_next_dispatchable (sh_queue s) of
        (q, None) \<Rightarrow> Some (NothingReady, [], s\<lparr>sh_queue := q\<rparr>)
      | (q, Some j) \<Rightarrow> Some (Launch j, [], s\<lparr>sh_queue := q\<rparr>))"
| "task_step outcome NothingReady s =
     Some (Finished, [], s\<lparr>sh_sched := drop_permit (sh_sched s)\<rparr>)"
| "task_step outcome (Launch j) s =
     Some (Spawn j, [],
       s\<lparr>sh_status := set_status (job_corpus_id j) (Indexing 0 0) (sh_status s)\<rparr>)"
| "task_step outcome (Spawn j) s = Some (TryDispatch, [RunBody j], s)"
| "task_step outcome (RunBody j) s =
     Some (BodyDone j, [], s\<lparr>sh_status := set_status (job_corpus_id j) outcome (sh_status s)\<rparr>)"
| "task_step outcome (BodyDone j) s =
     Some (PermitDropped j, [], s\<lparr>sh_sched := drop_permit (sh_sched s)\<rparr>)"
| "task_step outcome (PermitDropped j) s =
     Some (TryDispatch, [], s\<lparr>sh_queue := mark_done (job_corpus_id j) (sh_queue s)\<rparr>)"
| "task_step outcome Finished s = None"

record coord =
  co_shared :: shared
  co_tasks :: "pc list"

text \<open>A client enqueues a job, or the task at an index takes a step.\<close>

datatype action = Arrive string "string list" nat | Step nat indexing_status

fun coord_exec :: "action \<Rightarrow> coord \<Rightarrow> coord option" where
  "coord_exec (Arrive c paths priority) s =
     Some (s\<lparr>co_tasks := co_tasks s @ [Enqueue c paths priority]\<rparr>)"
| "coord_exec (Step i outcome) s =
     (if i < length (co_tasks s) then
        (case task_step outcome (co_tasks s ! i) (co_shared s) of
           None \<Rightarrow> None
         | Some (p, spawned, sh) \<Rightarrow>
             Some (s\<lparr>co_shared := sh, co_tasks := (co_tasks s)[i := p] @ spawned\<rparr>))
      else None)"

definition coord_init :: "scheduler \<Rightarrow> status_map \<Rightarrow> coord" where
  "coord_init sch st =
     \<lparr>co_shared = \<lparr>sh_queue = queue_empty, sh_sched = sch, sh_status = st\<rparr>, co_tasks = []\<rparr>"

fun coord_run :: "action list \<Rightarrow> coord \<Rightarrow> coord option" where
  "coord_run [] s = Some s"
| "coord_run (a # as) s = (case coord_exec a s of None \<Rightarrow> None | Some s1 \<Rightarrow> coord_run as s1)"

inductive coord_reachable :: "nat \<Rightarrow> coord \<Rightarrow> bool" for n :: nat where
  init: "coord_reachable n (coord_init (scheduler_new n) st)"
| step: "coord_reachable n s \<Longrightarrow> coord_exec a s = Some s' \<Longrightarrow> coord_reachable n s'"

text \<open>
  A run of three tasks over one corpus: task 0 enqueues and dispatches the job of task 1,
  task 2 enqueues the corpus again while that job is finishing.
\<close>

definition lost_wakeup_run :: "action list" where
  "lost_wakeup_run =
     [Arrive ''x'' [''p''] 0, Step 0 Idle, Step 0 Idle, Step 0 Idle, Step 0 Idle, Step 0 Idle,
      Step 0 Idle,
      Step 1 Idle,
      Arrive ''x'' [''q''] 0, Step 2 Idle, Step 2 Idle,
      Step 0 Idle, Step 1 Idle, Step 2 Idle, Step 0 Idle, Step 2 Idle,
      Step 1 Idle, Step 1 Idle, Step 0 Idle, Step 2 Idle]"

section \<open>Invariant\<close>

text \<open>The tasks that hold a permit, and the corpus a task has marked busy.\<close>

fun holds_permit :: "pc \<Rightarrow> bool" where
  "holds_permit HavePermit = True"
| "holds_permit NothingReady = True"
| "holds_permit (Launch j) = True"
| "holds_permit (Spawn j) = True"
| "holds_permit (RunBody j) = True"
| "holds_permit (BodyDone j) = True"
| "holds_permit _ = False"

fun task_corpus :: "pc \<Rightarrow> string option" where
  "task_corpus (Launch j) = Some (job_corpus_id j)"
| "task_corpus (Spawn j) = Some (job_corpus_id j)"
| "task_corpus (RunBody j) = Some (job_corpus_id j)"
| "task_corpus (BodyDone j) = Some (job_corpus_id j)"
| "task_corpus (PermitDropped j) = Some (job_corpus_id j)"
| "task_corpus _ = None"

definition is_running :: "pc \<Rightarrow> bool" where
  "is_running p = (case p of RunBody j \<Rightarrow> True | _ \<Rightarrow> False)"

definition busy_corpora :: "pc multiset \<Rightarrow> string multiset" where
  "busy_corpora T = image_mset (the \<circ> task_corpus) (filter_mset (\<lambda>p. task_corpus p \<noteq> None) T)"

definition queue_ok :: "queue_state \<Rightarrow> bool" where
  "queue_ok q \<longleftrightarrow> distinct (map fst (q_pending q)) \<and> distinct (q_busy q)"

definition coord_inv :: "nat \<Rightarrow> shared \<Rightarrow> pc multiset \<Rightarrow> bool" where
  "coord_inv n s T \<longleftrightarrow>
     queue_ok (sh_queue s)
     \<and> sch_free (sh_sched s) + size (filter_mset holds_permit T) = n
     \<and> busy_corpora T = mset (q_busy (sh_queue s))"

section \<open>Lemmas\<close>

lemma set_union_paths [simp]: "set (union_paths old new) = set old \<union> set new"
  unfolding union_paths_def by (induction new arbitrary: old) auto

lemma distinct_union_paths: "distinct old \<Longrightarrow> distinct (union_paths old new)"
  unfolding union_paths_def by (induction new arbitrary: old) auto

lemma upsert_ok: "queue_ok q \<Longrightarrow> queue_ok (upsert c ps pr q)"
  by (auto simp: queue_ok_def upsert_def distinct_update split: option.splits)

lemma upsert_busy [simp]: "q_busy (upsert c ps pr q) = q_busy q"
  by (simp add: upsert_def split: option.splits)

lemma mset_hs_insert: "x \<notin> set xs \<Longrightarrow> mset (hs_insert x xs) = add_mset x (mset xs)"
  by (simp add: hs_insert_def)

lemma mset_hs_remove: "distinct xs \<Longrightarrow> mset (hs_remove x xs) = mset xs - {#x#}"
proof (induction xs)
  case (Cons y ys)
  then have "filter (\<lambda>z. z \<noteq> y) ys = ys" by (auto simp: filter_id_conv)
  with Cons show ?case by (auto simp: hs_remove_def diff_add_mset_swap)
qed (simp add: hs_remove_def)

lemma take_next_cases:
  obtains (none) "take_next_dispatchable q = (q, None)"
      "\<forall>(c, j) \<in> set (q_pending q). c \<in> set (q_busy q)"
  | (job) c j where "(c, j) \<in> set (q_pending q)" "c \<notin> set (q_busy q)"
      "take_next_dispatchable q =
         (q\<lparr>q_pending := AList.delete c (q_pending q), q_busy := q_busy q @ [c]\<rparr>,
          Some \<lparr>job_corpus_id = c, job_paths = pj_paths j\<rparr>)"
      "\<forall>(d, k) \<in> set (q_pending q). d \<notin> set (q_busy q) \<longrightarrow>
         (pj_priority j, pj_seq j) \<le> (pj_priority k, pj_seq k)"
proof (cases "min_by (\<lambda>a b. job_rank b < job_rank a)
      (filter (\<lambda>p. fst p \<notin> set (q_busy q)) (q_pending q))")
  case None
  then have "\<forall>p \<in> set (q_pending q). fst p \<in> set (q_busy q)"
    by (auto simp: filter_empty_conv)
  with None that(1) show thesis by (force simp: take_next_dispatchable_def)
next
  case (Some p)
  obtain c j where p: "p = (c, j)" by fastforce
  from min_by_mem [OF Some] have m: "(c, j) \<in> set (q_pending q)" "c \<notin> set (q_busy q)"
    by (auto simp: p)
  have least: "\<forall>(d, k) \<in> set (q_pending q). d \<notin> set (q_busy q) \<longrightarrow>
      (pj_priority j, pj_seq j) \<le> (pj_priority k, pj_seq k)"
    using min_by_least [OF Some] by (fastforce simp: p)
  show thesis
    by (rule that(2) [OF m _ least]) (use Some m in \<open>simp add: take_next_dispatchable_def p hs_insert_def\<close>)
qed

lemma busy_corpora_add [simp]:
  "busy_corpora (add_mset p T) =
     (case task_corpus p of None \<Rightarrow> busy_corpora T | Some c \<Rightarrow> add_mset c (busy_corpora T))"
  by (simp add: busy_corpora_def split: option.splits)

lemma busy_corpora_empty [simp]: "busy_corpora {#} = {#}"
  by (simp add: busy_corpora_def)

lemma mark_done_ok: "queue_ok q \<Longrightarrow> queue_ok (mark_done c q)"
  by (simp add: queue_ok_def mark_done_def)

text \<open>Every step of every task keeps the invariant.\<close>

lemma task_step_inv:
  assumes inv: "coord_inv n s (add_mset p T)" and step: "task_step outcome p s = Some (p', sp, s')"
  shows "coord_inv n s' (add_mset p' (T + mset sp))"
proof (cases p)
  case HavePermit
  with inv have ok: "queue_ok (sh_queue s)" by (simp add: coord_inv_def)
  show ?thesis
  proof (cases rule: take_next_cases [of "sh_queue s"])
    case none
    with HavePermit inv step show ?thesis by (auto simp: coord_inv_def)
  next
    case (job c j)
    have "distinct (map fst (AList.delete c (q_pending (sh_queue s))))"
      using ok by (simp add: queue_ok_def distinct_delete)
    with HavePermit inv step job ok show ?thesis by (auto simp: coord_inv_def queue_ok_def)
  qed
next
  case (PermitDropped j)
  with inv have "queue_ok (sh_queue s)"
    and b: "mset (q_busy (sh_queue s)) = add_mset (job_corpus_id j) (busy_corpora T)"
    by (auto simp: coord_inv_def)
  then have "mset (hs_remove (job_corpus_id j) (q_busy (sh_queue s))) = busy_corpora T"
    by (simp add: mset_hs_remove queue_ok_def)
  with PermitDropped inv step show ?thesis by (auto simp: coord_inv_def mark_done_ok mark_done_def queue_ok_def)
next
  case TryDispatch
  show ?thesis
  proof (cases "try_acquire_permit (sh_sched s)")
    case None
    with TryDispatch inv step show ?thesis by (auto simp: coord_inv_def)
  next
    case (Some sch)
    with TryDispatch inv step sched.take_balance [OF Some] show ?thesis by (auto simp: coord_inv_def)
  qed
next
  case NothingReady
  with inv step sched.give_balance [of "sh_sched s"] show ?thesis by (auto simp: coord_inv_def)
next
  case (BodyDone j)
  with inv step sched.give_balance [of "sh_sched s"] show ?thesis by (auto simp: coord_inv_def)
qed (use inv step in \<open>auto simp: coord_inv_def upsert_ok\<close>)

lemma coord_exec_inv:
  assumes "coord_inv n (co_shared s) (mset (co_tasks s))" and "coord_exec a s = Some s'"
  shows "coord_inv n (co_shared s') (mset (co_tasks s'))"
proof (cases a)
  case (Arrive c ps pr)
  with assms show ?thesis by (auto simp: coord_inv_def)
next
  case (Step i outcome)
  with assms(2) obtain p sp sh where i: "i < length (co_tasks s)"
    and st: "task_step outcome (co_tasks s ! i) (co_shared s) = Some (p, sp, sh)"
    and s': "s' = s\<lparr>co_shared := sh, co_tasks := (co_tasks s)[i := p] @ sp\<rparr>"
    by (auto split: if_splits option.splits)
  let ?T = "mset (co_tasks s) - {#co_tasks s ! i#}"
  have "mset (co_tasks s) = add_mset (co_tasks s ! i) ?T" using i by simp
  then have "coord_inv n sh (add_mset p (?T + mset sp))"
    using task_step_inv [OF _ st, of n ?T] assms(1) by simp
  then show ?thesis using i by (simp add: s' mset_update)
qed

lemma reachable_inv: "coord_reachable n s \<Longrightarrow> coord_inv (max n 1) (co_shared s) (mset (co_tasks s))"
proof (induction rule: coord_reachable.induct)
  case (init st)
  then show ?case by (simp add: coord_inv_def coord_init_def queue_ok_def queue_empty_def)
next
  case (step s a s')
  then show ?case by (blast intro: coord_exec_inv)
qed

text \<open>What distinct busy corpora say of the tasks that carry one.\<close>

lemma busy_corpora_image:
  "set_mset (busy_corpora T) = {c. \<exists>p \<in># T. task_corpus p = Some c}"
  by (auto simp: busy_corpora_def image_iff) force

lemma running_le_holders: "size (filter_mset is_running T) \<le> size (filter_mset holds_permit T)"
proof -
  have "is_running p \<Longrightarrow> holds_permit p" for p by (cases p) (auto simp: is_running_def)
  then show ?thesis by (induction T) auto
qed

lemma task_corpus_unique:
  assumes "distinct xs" and "mset xs = busy_corpora (mset ts)"
    and "i < length ts" "j < length ts" "i \<noteq> j"
    and "task_corpus (ts ! i) = Some c" "task_corpus (ts ! j) = Some d"
  shows "c \<noteq> d"
proof
  assume cd: "c = d"
  obtain T where T: "mset ts = add_mset (ts ! i) (add_mset (ts ! j) T)"
  proof -
    have "ts ! j \<in># mset ts - {#ts ! i#}"
    proof (cases "i < j")
      case True
      then have "ts ! j \<in> set (drop (Suc i) ts)" using assms(4) by (auto simp: in_set_conv_nth intro!: exI [of _ "j - Suc i"])
      moreover have "mset ts - {#ts ! i#} = mset (take i ts) + mset (drop (Suc i) ts)"
        by (subst id_take_nth_drop [OF assms(3)]) simp
      ultimately show ?thesis by simp
    next
      case False
      then have "ts ! j \<in> set (take i ts)" using assms(3,5) by (auto simp: in_set_conv_nth intro!: exI [of _ j])
      moreover have "mset ts - {#ts ! i#} = mset (take i ts) + mset (drop (Suc i) ts)"
        by (subst id_take_nth_drop [OF assms(3)]) simp
      ultimately show ?thesis by simp
    qed
    then obtain T where "mset ts - {#ts ! i#} = add_mset (ts ! j) T" by (metis multi_member_split)
    moreover have "mset ts = add_mset (ts ! i) (mset ts - {#ts ! i#})" using assms(3) by simp
    ultimately show thesis using that by metis
  qed
  have "busy_corpora (mset ts) = add_mset c (add_mset c (busy_corpora T))"
    using assms(6,7) cd by (simp add: T)
  with assms(2) have "count (mset xs) c \<ge> 2" by simp
  with assms(1) show False by (simp add: distinct_count_atmost_1 split: if_splits)
qed

section \<open>Properties\<close>

text \<open>
  C1. In every reachable state of the coordinator, whatever the interleaving of enqueues, dispatches
  and completions: no more than the configured number of jobs (at least one) run, and no two
  jobs in flight are for the same corpus; the free permits and those held always add up
  to the bound.
\<close>

theorem coordinator_safe:
  assumes "coord_reachable n s"
  shows "size (filter_mset is_running (mset (co_tasks s))) \<le> max n 1
    \<and> sch_free (sh_sched (co_shared s)) + size (filter_mset holds_permit (mset (co_tasks s))) = max n 1
    \<and> (\<forall>i < length (co_tasks s). \<forall>j < length (co_tasks s). i \<noteq> j \<longrightarrow>
        task_corpus (co_tasks s ! i) \<noteq> None \<longrightarrow>
        task_corpus (co_tasks s ! i) \<noteq> task_corpus (co_tasks s ! j))"
proof -
  have inv: "queue_ok (sh_queue (co_shared s))"
    "sch_free (sh_sched (co_shared s)) + size (filter_mset holds_permit (mset (co_tasks s))) = max n 1"
    "busy_corpora (mset (co_tasks s)) = mset (q_busy (sh_queue (co_shared s)))"
    using reachable_inv [OF assms] by (auto simp: coord_inv_def)
  have "distinct (q_busy (sh_queue (co_shared s)))" using inv(1) by (simp add: queue_ok_def)
  from task_corpus_unique [OF this inv(3) [symmetric]]
  have "\<forall>i < length (co_tasks s). \<forall>j < length (co_tasks s). i \<noteq> j \<longrightarrow>
        task_corpus (co_tasks s ! i) \<noteq> None \<longrightarrow>
        task_corpus (co_tasks s ! i) \<noteq> task_corpus (co_tasks s ! j)"
    by (metis option.exhaust)
  then show ?thesis using inv(2) running_le_holders [of "mset (co_tasks s)"] by simp
qed

lemma coordinator_safe_witness:
  "size (filter_mset is_running (mset (co_tasks (coord_init (scheduler_new 2) [])))) \<le> max 2 1"
  using coordinator_safe [OF coord_reachable.init [of 2 "[]"]] by blast

text \<open>
  Coalescing is lossless: an enqueue for a corpus already queued keeps its
  one slot and its place (sequence number), refreshes the priority and adds the new paths to
  the old; an enqueue for a corpus not queued gets a slot of its own behind all earlier ones;
  no other slot and no busy mark changes.
\<close>

theorem upsert_coalesces:
  assumes "queue_ok q"
  shows "let q' = upsert c paths priority q in
    queue_ok q' \<and> q_busy q' = q_busy q
    \<and> (\<forall>d. d \<noteq> c \<longrightarrow> map_of (q_pending q') d = map_of (q_pending q) d)
    \<and> (\<exists>j. map_of (q_pending q') c = Some j \<and> pj_priority j = priority \<and> set paths \<subseteq> set (pj_paths j)
        \<and> (case map_of (q_pending q) c of
             None \<Rightarrow> pj_paths j = paths \<and> pj_seq j = q_next_seq q
           | Some old \<Rightarrow> pj_seq j = pj_seq old \<and> set (pj_paths j) = set (pj_paths old) \<union> set paths))"
  using upsert_ok [OF assms]
  by (auto simp: upsert_def Let_def update_conv' split: option.splits)

lemma upsert_coalesces_witness:
  "q_busy (upsert ''a'' [''p''] 3 queue_empty) = []"
  using upsert_coalesces [of queue_empty "''a''" "[''p'']" 3]
  by (simp add: queue_ok_def queue_empty_def Let_def)

text \<open>
  Dispatch is shortest job first without head-of-line blocking: the job taken is one whose
  corpus is not busy, with the least priority and, among equals, the earliest sequence
  number; it leaves the queue and its corpus becomes busy. Nothing is taken
  only when every queued corpus is busy.
\<close>

theorem take_next_shortest_first:
  "case take_next_dispatchable q of
     (q', None) \<Rightarrow> q' = q \<and> fst ` set (q_pending q) \<subseteq> set (q_busy q)
   | (q', Some j) \<Rightarrow>
       (\<exists>pj. (job_corpus_id j, pj) \<in> set (q_pending q) \<and> job_paths j = pj_paths pj
          \<and> job_corpus_id j \<notin> set (q_busy q)
          \<and> (\<forall>(d, k) \<in> set (q_pending q). d \<notin> set (q_busy q) \<longrightarrow>
               pj_priority pj < pj_priority k \<or> (pj_priority pj = pj_priority k \<and> pj_seq pj \<le> pj_seq k)))
       \<and> map_of (q_pending q') = (map_of (q_pending q))(job_corpus_id j := None)
       \<and> set (q_busy q') = insert (job_corpus_id j) (set (q_busy q))"
proof (cases rule: take_next_cases [of q])
  case none
  then show ?thesis by auto
next
  case (job c j)
  have "pj_priority j < pj_priority k \<or> (pj_priority j = pj_priority k \<and> pj_seq j \<le> pj_seq k)"
    if "(d, k) \<in> set (q_pending q)" "d \<notin> set (q_busy q)" for d k
    using job(4) that by fastforce
  with job(1-3) show ?thesis by (auto simp: delete_conv')
qed

lemma take_next_shortest_first_witness:
  "snd (take_next_dispatchable (upsert ''b'' [''q''] 1 (upsert ''a'' [''p''] 3 queue_empty)))
     = Some \<lparr>job_corpus_id = ''b'', job_paths = [''q'']\<rparr>"
  using take_next_shortest_first [of "upsert ''b'' [''q''] 1 (upsert ''a'' [''p''] 3 queue_empty)"]
  by (simp add: take_next_dispatchable_def upsert_def queue_empty_def split: prod.splits)

text \<open>
  C19. A wakeup can be lost. With two permits there is a run that ends with every task finished and
  every permit free while a corpus is queued and not busy, so nothing will dispatch it until
  somebody enqueues again: two tasks hold the permits while they find the corpus still
  busy, and the completing job, which marks it done only after that, gets no permit for its own
  dispatch attempt.
\<close>

theorem lost_wakeup_reachable:
  "\<exists>s. coord_run lost_wakeup_run (coord_init (scheduler_new 2) [(''x'', Idle)]) = Some s
     \<and> coord_reachable 2 s
     \<and> list_all (\<lambda>p. p = Finished) (co_tasks s)
     \<and> sch_free (sh_sched (co_shared s)) = 2
     \<and> map_of (q_pending (sh_queue (co_shared s))) ''x'' \<noteq> None
     \<and> ''x'' \<notin> set (q_busy (sh_queue (co_shared s)))
     \<and> map_of (sh_status (co_shared s)) ''x'' \<noteq> Some (Indexing 0 0)"
proof -
  have reach: "coord_reachable 2 s \<Longrightarrow> coord_run as s = Some s' \<Longrightarrow> coord_reachable 2 s'" for as s s'
    by (induction as arbitrary: s) (auto split: option.splits intro: coord_reachable.step)
  let ?s0 = "coord_init (scheduler_new 2) [(''x'', Idle)]"
  have "\<exists>s. coord_run lost_wakeup_run ?s0 = Some s
     \<and> list_all (\<lambda>p. p = Finished) (co_tasks s)
     \<and> sch_free (sh_sched (co_shared s)) = 2
     \<and> map_of (q_pending (sh_queue (co_shared s))) ''x'' \<noteq> None
     \<and> ''x'' \<notin> set (q_busy (sh_queue (co_shared s)))
     \<and> map_of (sh_status (co_shared s)) ''x'' \<noteq> Some (Indexing 0 0)"
    unfolding lost_wakeup_run_def coord_init_def scheduler_new_def queue_empty_def
    by (simp add: Let_def upsert_def union_paths_def set_status_def try_acquire_permit_def
        take_next_dispatchable_def drop_permit_def mark_done_def hs_insert_def hs_remove_def
        add_u64_def u64_max_def)
  with reach coord_reachable.init [of 2 "[(''x'', Idle)]"] show ?thesis by blast
qed

end
