(* ===== verification/Database.thy ===== *)
theory Database
  imports Prelude "HOL-Library.Word"
begin

text \<open>
  What the persistent back-ends share: the statements of a call that may fail, serialized
  records in a text column, and the signed column a timestamp is stored in.
\<close>

datatype db_call = Connect | Begin | Select | Execute | Commit

text \<open>Which statements of a call fail, with the driver's message.\<close>

type_synonym db_faults = "db_call \<Rightarrow> string option"

text \<open>\<open>serde_json\<close> for a record type, and its round trip.\<close>

record 'a blob_codec =
  bc_to :: "'a \<Rightarrow> string option"
  bc_from :: "string \<Rightarrow> 'a option"

definition blob_codec_ok :: "'a blob_codec \<Rightarrow> bool" where
  "blob_codec_ok B \<longleftrightarrow> (\<forall>x. \<exists>s. bc_to B x = Some s \<and> bc_from B s = Some x)"

text \<open>\<open>SectionRecord\<close>, what the content store returns of a section.\<close>

record section_record =
  sr_id :: string
  sr_document_id :: string
  sr_heading_path :: "string list"
  sr_depth :: nat
  sr_text :: string
  sr_summary :: "string option"
  sr_position :: int

text \<open>\<open>u64::cast_signed\<close>.\<close>

definition cast_signed :: "nat \<Rightarrow> int" where
  "cast_signed n = sint (of_nat n :: 64 word)"

lemma cast_signed_small: "n < 2 ^ 63 \<Longrightarrow> cast_signed n = int n"
proof -
  assume "n < 2 ^ 63"
  then have "signed_take_bit 63 (int n) = int n" by (intro signed_take_bit_int_eq_self) auto
  then show ?thesis by (simp add: cast_signed_def signed_of_nat)
qed

end
