(* ===== verification/Jobs.thy ===== *)
theory Jobs
  imports Prelude Database "HOL-Library.Product_Lexorder"
begin

text \<open>
  The indexer's job queue, \<open>ministr-mcp/src/admin/jobs\<close>, and the worker loop that drains it,
  \<open>ministr-cli/src/worker.rs\<close>. The trait \<open>JobQueue\<close> is a record of operations over
  the state of a back-end; the locale \<open>job_queue_contract\<close> is what the trait's documentation
  promises of them, in terms of a view of the state as a map from ids to jobs. The worker and every
  client lemma are stated against the contract, which is interpreted on the in-memory queue
  here and on the persistent back-ends in \<open>Jobs_Db\<close>.

  Each call gets a \<open>call_env\<close>: the clocks it reads, which statement of a database fails, if any,
  and which rows other transactions hold locked. Job ids come from a hash of the clock and a stack address; a new id
  is an argument of \<open>enqueue\<close>. Priorities are \<open>i16\<close>, 16-bit words read as signed.
\<close>

section \<open>Records and the trait\<close>

datatype job_queue_error = Backend string | Serde | NotFound string

type_synonym 'a job_result = "job_queue_error + 'a"

datatype job_trigger =
    Manual
  | Github string string
  | Tenant "string list" "string option"

datatype job_status = Pending | Running | Completed | Failed

fun is_terminal :: "job_status \<Rightarrow> bool" where
  "is_terminal Pending = False"
| "is_terminal Running = False"
| "is_terminal Completed = True"
| "is_terminal Failed = True"

record job_progress =
  jp_stage :: string
  jp_total_files :: nat
  jp_processed_files :: nat
  jp_current_file :: "string option"
  jp_sections_done :: nat
  jp_embeddings_total :: nat
  jp_embeddings_done :: nat

definition job_progress_default :: job_progress where
  "job_progress_default =
     \<lparr>jp_stage = [], jp_total_files = 0, jp_processed_files = 0, jp_current_file = None,
      jp_sections_done = 0, jp_embeddings_total = 0, jp_embeddings_done = 0\<rparr>"

record queue_job =
  jb_id :: string
  jb_corpus_id :: string
  jb_trigger :: job_trigger
  jb_status :: job_status
  jb_progress :: job_progress
  jb_created_at :: nat
  jb_updated_at :: nat
  jb_error :: "string option"
  jb_priority :: "16 word"

record call_env =
  ce_now :: nat
  ce_server_now :: int
  ce_fault :: db_faults
  ce_locked :: "string list"

record 'q job_queue_ops =
  jq_enqueue :: "call_env \<Rightarrow> string \<Rightarrow> string \<Rightarrow> job_trigger \<Rightarrow> 16 word \<Rightarrow> 'q \<Rightarrow> 'q \<times> queue_job job_result"
  jq_get :: "call_env \<Rightarrow> string \<Rightarrow> 'q \<Rightarrow> queue_job option job_result"
  jq_claim_next :: "call_env \<Rightarrow> 'q \<Rightarrow> 'q \<times> queue_job option job_result"
  jq_update_progress :: "call_env \<Rightarrow> string \<Rightarrow> job_progress \<Rightarrow> 'q \<Rightarrow> 'q \<times> unit job_result"
  jq_finish :: "call_env \<Rightarrow> string \<Rightarrow> job_status \<Rightarrow> string option \<Rightarrow> 'q \<Rightarrow> 'q \<times> unit job_result"

text \<open>The record every back-end's \<open>enqueue\<close> builds.\<close>

definition new_job :: "nat \<Rightarrow> string \<Rightarrow> string \<Rightarrow> job_trigger \<Rightarrow> 16 word \<Rightarrow> queue_job" where
  "new_job now jid corpus_id trigger priority =
     \<lparr>jb_id = jid, jb_corpus_id = corpus_id, jb_trigger = trigger, jb_status = Pending,
      jb_progress = job_progress_default, jb_created_at = now, jb_updated_at = now,
      jb_error = None, jb_priority = priority\<rparr>"

section \<open>The in-memory queue\<close>

type_synonym memory_queue = "(string \<times> queue_job) list"

definition memory_enqueue ::
    "nat \<Rightarrow> string \<Rightarrow> string \<Rightarrow> job_trigger \<Rightarrow> 16 word \<Rightarrow> memory_queue \<Rightarrow> memory_queue \<times> queue_job job_result" where
  "memory_enqueue now jid corpus_id trigger priority jobs =
     (let job = new_job now jid corpus_id trigger priority
      in (AList.update (jb_id job) job jobs, Inr job))"

definition memory_get :: "string \<Rightarrow> memory_queue \<Rightarrow> queue_job option job_result" where
  "memory_get job_id jobs = Inr (map_of jobs job_id)"

text \<open>The key of \<open>min_by_key\<close>; the negation is the word's and wraps at \<open>i16::MIN\<close>.\<close>

definition memory_rank :: "queue_job \<Rightarrow> int \<times> nat" where
  "memory_rank j = (sint (- jb_priority j), jb_created_at j)"

definition memory_claim_next :: "nat \<Rightarrow> memory_queue \<Rightarrow> memory_queue \<times> queue_job option job_result" where
  "memory_claim_next now jobs =
     (case map_option jb_id
             (min_by (\<lambda>a b. memory_rank b < memory_rank a)
               (filter (\<lambda>j. jb_status j = Pending) (map snd jobs))) of
        None \<Rightarrow> (jobs, Inr None)
      | Some jid \<Rightarrow>
          (case map_of jobs jid of
             None \<Rightarrow> (jobs, Inr None)
           | Some job \<Rightarrow>
               (let job' = job\<lparr>jb_status := Running, jb_updated_at := now\<rparr>
                in (AList.update jid job' jobs, Inr (Some job')))))"

definition memory_update_progress ::
    "nat \<Rightarrow> string \<Rightarrow> job_progress \<Rightarrow> memory_queue \<Rightarrow> memory_queue \<times> unit job_result" where
  "memory_update_progress now job_id progress jobs =
     (case map_of jobs job_id of
        None \<Rightarrow> (jobs, Inl (NotFound job_id))
      | Some job \<Rightarrow>
          (AList.update job_id (job\<lparr>jb_progress := progress, jb_updated_at := now\<rparr>) jobs, Inr ()))"

definition memory_finish ::
    "nat \<Rightarrow> string \<Rightarrow> job_status \<Rightarrow> string option \<Rightarrow> memory_queue \<Rightarrow> memory_queue \<times> unit job_result" where
  "memory_finish now job_id status err jobs =
     (case map_of jobs job_id of
        None \<Rightarrow> (jobs, Inl (NotFound job_id))
      | Some job \<Rightarrow>
          (AList.update job_id
             (job\<lparr>jb_status := status, jb_error := err, jb_updated_at := now\<rparr>) jobs, Inr ()))"

definition memory_ops :: "memory_queue job_queue_ops" where
  "memory_ops =
     \<lparr>jq_enqueue = (\<lambda>e. memory_enqueue (ce_now e)),
      jq_get = (\<lambda>e. memory_get),
      jq_claim_next = (\<lambda>e. memory_claim_next (ce_now e)),
      jq_update_progress = (\<lambda>e. memory_update_progress (ce_now e)),
      jq_finish = (\<lambda>e. memory_finish (ce_now e))\<rparr>"

section \<open>The worker\<close>

text \<open>
  What a job's run depends on outside the worker: \<open>init_infrastructure\<close>,
  \<open>run_corpus_ingestion\<close> with the progress snapshots reported while it runs, whether the
  resulting index is empty, and the blob uploader if one is configured. \<open>ie_debug\<close> is
  the derived \<open>Debug\<close> form of a trigger.
\<close>

record ingestion_env =
  ie_debug :: "job_trigger \<Rightarrow> string"
  ie_init :: "string list \<Rightarrow> string + unit"
  ie_ingest :: "string list \<Rightarrow> job_progress list \<times> (string + unit)"
  ie_index_empty :: "string list \<Rightarrow> bool"
  ie_blob_backend :: "(string \<Rightarrow> string + nat) option"

definition resolve_sources :: "(job_trigger \<Rightarrow> string) \<Rightarrow> job_trigger \<Rightarrow> string + string list" where
  "resolve_sources dbg trigger =
     (case trigger of
        Tenant paths clone_url \<Rightarrow>
          (case clone_url of
             Some url \<Rightarrow> Inr [url]
           | None \<Rightarrow>
               if paths \<noteq> [] then Inr paths
               else Inl ''tenant trigger has neither paths nor clone_url'')
      | other \<Rightarrow> Inl (''unsupported trigger in WorkerLoop: '' @ dbg other))"

definition runner_execute :: "ingestion_env \<Rightarrow> queue_job \<Rightarrow> job_progress list \<times> (string + unit)" where
  "runner_execute ie job =
     (case resolve_sources (ie_debug ie) (jb_trigger job) of
        Inl reason \<Rightarrow> ([], Inl reason)
      | Inr sources \<Rightarrow>
          (case ie_init ie sources of
             Inl e \<Rightarrow> ([], Inl (''init_infrastructure: '' @ e))
           | Inr _ \<Rightarrow>
               (let (snaps, ingest_result) = ie_ingest ie sources in
                (snaps,
                 case ingest_result of
                   Inl e \<Rightarrow> Inl (''ingestion failed: '' @ e)
                 | Inr _ \<Rightarrow>
                     if ie_index_empty ie sources then Inr ()
                     else case ie_blob_backend ie of
                            None \<Rightarrow> Inr ()
                          | Some upload \<Rightarrow>
                              (case upload (jb_corpus_id job) of
                                 Inl e \<Rightarrow> Inl e
                               | Inr version \<Rightarrow> Inr ())))))"

text \<open>The reporter: a failed progress update is logged and the ingestion goes on.\<close>

fun report_progress ::
    "'q job_queue_ops \<Rightarrow> (nat \<Rightarrow> call_env) \<Rightarrow> string \<Rightarrow> job_progress list \<Rightarrow> 'q \<Rightarrow> 'q" where
  "report_progress Q env jid [] q = q"
| "report_progress Q env jid (s # ss) q =
     report_progress Q (\<lambda>n. env (Suc n)) jid ss (fst (jq_update_progress Q (env 0) jid s q))"

datatype worker_event =
    Slept
  | ClaimFailed
  | Ran queue_job "string + unit" "unit job_result"

definition execute_job ::
    "'q job_queue_ops \<Rightarrow> (queue_job \<Rightarrow> job_progress list \<times> (string + unit)) \<Rightarrow> (nat \<Rightarrow> call_env)
      \<Rightarrow> call_env \<Rightarrow> queue_job \<Rightarrow> 'q \<Rightarrow> 'q \<times> worker_event" where
  "execute_job Q runner envs e job q =
     (let (snaps, outcome) = runner job;
          q1 = report_progress Q envs (jb_id job) snaps q;
          (status, err) = (case outcome of
              Inr _ \<Rightarrow> (Completed, None)
            | Inl reason \<Rightarrow> (Failed, Some reason));
          (q2, res) = jq_finish Q e (jb_id job) status err q1
      in (q2, Ran job outcome res))"

text \<open>The environments of one turn of the loop: of the claim, of the reporter, of \<open>finish\<close>.\<close>

record turn_env =
  te_claim :: call_env
  te_report :: "nat \<Rightarrow> call_env"
  te_finish :: call_env

definition worker_turn ::
    "'q job_queue_ops \<Rightarrow> (queue_job \<Rightarrow> job_progress list \<times> (string + unit)) \<Rightarrow> turn_env \<Rightarrow> 'q \<Rightarrow> 'q \<times> worker_event" where
  "worker_turn Q runner te q =
     (case jq_claim_next Q (te_claim te) q of
        (q1, Inr (Some job)) \<Rightarrow> execute_job Q runner (te_report te) (te_finish te) job q1
      | (q1, Inr None) \<Rightarrow> (q1, Slept)
      | (q1, Inl e) \<Rightarrow> (q1, ClaimFailed))"

text \<open>
  \<open>WorkerLoop::run\<close> until the cancellation token fires, which is seen between turns: one turn for
  each environment of the list.
\<close>

fun worker_run ::
    "'q job_queue_ops \<Rightarrow> (queue_job \<Rightarrow> job_progress list \<times> (string + unit)) \<Rightarrow> turn_env list \<Rightarrow> 'q \<Rightarrow> 'q \<times> worker_event list" where
  "worker_run Q runner [] q = (q, [])"
| "worker_run Q runner (te # tes) q =
     (let (q1, ev) = worker_turn Q runner te q; (q2, evs) = worker_run Q runner tes q1
      in (q2, ev # evs))"

section \<open>Interleavings\<close>

text \<open>
  Operations one after the other. In memory and on SQLite each operation runs under the lock of the queue, so
  any concurrent run of clients and workers is such a sequence; on Postgres \<open>update_progress\<close> and \<open>finish\<close> are two
  statements, whose interleavings are in \<open>Jobs_Pg\<close>. \<open>queue_exec\<close> returns the job a claim handed out.
\<close>

datatype queue_op =
    OpEnqueue string string job_trigger "16 word"
  | OpClaim
  | OpProgress string job_progress
  | OpFinish string job_status "string option"

definition queue_exec :: "'q job_queue_ops \<Rightarrow> call_env \<times> queue_op \<Rightarrow> 'q \<Rightarrow> 'q \<times> queue_job option" where
  "queue_exec Q eo q =
     (let e = fst eo in
      case snd eo of
        OpEnqueue jid c t p \<Rightarrow> (fst (jq_enqueue Q e jid c t p q), None)
      | OpClaim \<Rightarrow>
          (let (q1, r) = jq_claim_next Q e q
           in (q1, case r of Inr (Some j) \<Rightarrow> Some j | _ \<Rightarrow> None))
      | OpProgress jid p \<Rightarrow> (fst (jq_update_progress Q e jid p q), None)
      | OpFinish jid s em \<Rightarrow> (fst (jq_finish Q e jid s em q), None))"

fun queue_run :: "'q job_queue_ops \<Rightarrow> (call_env \<times> queue_op) list \<Rightarrow> 'q \<Rightarrow> 'q \<times> queue_job list" where
  "queue_run Q [] q = (q, [])"
| "queue_run Q (eo # eos) q =
     (let (q1, c) = queue_exec Q eo q; (q2, cs) = queue_run Q eos q1
      in (q2, case c of None \<Rightarrow> cs | Some j \<Rightarrow> j # cs))"

fun op_ids :: "queue_op \<Rightarrow> string list" where
  "op_ids (OpEnqueue jid c t p) = [jid]"
| "op_ids _ = []"

fun op_terminal :: "queue_op \<Rightarrow> bool" where
  "op_terminal (OpFinish jid s em) = is_terminal s"
| "op_terminal _ = True"

text \<open>The ids and submission times of the jobs a sequence of operations enqueues.\<close>

definition enqueued :: "call_env \<times> queue_op \<Rightarrow> (string \<times> nat) list" where
  "enqueued eo = (case snd eo of OpEnqueue jid c t p \<Rightarrow> [(jid, ce_now (fst eo))] | _ \<Rightarrow> [])"

text \<open>The ids of the jobs that were run, in order.\<close>

fun ran_job :: "worker_event \<Rightarrow> queue_job list" where
  "ran_job (Ran j oc res) = [j]"
| "ran_job _ = []"

definition outcome_status :: "string + unit \<Rightarrow> job_status" where
  "outcome_status oc = (case oc of Inr _ \<Rightarrow> Completed | Inl _ \<Rightarrow> Failed)"

text \<open>
  The invariant of the in-memory queue, its pending jobs, and the drain order its comment announces:
  \<open>ORDER BY priority DESC, created_at ASC\<close>.
\<close>

definition memory_ok :: "memory_queue \<Rightarrow> bool" where
  "memory_ok q \<longleftrightarrow> distinct (map fst q) \<and> (\<forall>p \<in> set q. jb_id (snd p) = fst p)"

definition pending_jobs :: "memory_queue \<Rightarrow> queue_job list" where
  "pending_jobs q = filter (\<lambda>j. jb_status j = Pending) (map snd q)"

definition drain_key :: "queue_job \<Rightarrow> int \<times> nat" where
  "drain_key j = (- sint (jb_priority j), jb_created_at j)"

definition calm_env :: "nat \<Rightarrow> call_env" where
  "calm_env now = \<lparr>ce_now = now, ce_server_now = int now, ce_fault = (\<lambda>c. None), ce_locked = []\<rparr>"

definition calm_turn :: "nat \<Rightarrow> turn_env" where
  "calm_turn now =
     \<lparr>te_claim = calm_env now, te_report = (\<lambda>n. calm_env now), te_finish = calm_env now\<rparr>"

section \<open>The contract\<close>

locale job_queue_contract =
  fixes Q :: "'q job_queue_ops"
    and ok :: "'q \<Rightarrow> bool"
    and view :: "'q \<Rightarrow> string \<Rightarrow> queue_job option"
  assumes enqueue_done: "ok q \<Longrightarrow> view q jid = None \<Longrightarrow> jq_enqueue Q e jid c t p q = (q', Inr j) \<Longrightarrow>
      ok q' \<and> j = new_job (ce_now e) jid c t p \<and> view q' = (view q)(jid \<mapsto> j)"
    and enqueue_error: "ok q \<Longrightarrow> jq_enqueue Q e jid c t p q = (q', Inl er) \<Longrightarrow> q' = q"
    and get_view: "ok q \<Longrightarrow> jq_get Q e jid q = Inr r \<Longrightarrow> r = view q jid"
    and claim_done: "ok q \<Longrightarrow> jq_claim_next Q e q = (q', Inr (Some j)) \<Longrightarrow>
      ok q' \<and> view q' = (view q)(jb_id j \<mapsto> j)
      \<and> (\<exists>j0. view q (jb_id j) = Some j0 \<and> jb_status j0 = Pending
              \<and> j = j0\<lparr>jb_status := Running, jb_updated_at := ce_now e\<rparr>)"
    and claim_empty: "ok q \<Longrightarrow> jq_claim_next Q e q = (q', Inr None) \<Longrightarrow> q' = q"
    and claim_error: "ok q \<Longrightarrow> jq_claim_next Q e q = (q', Inl er) \<Longrightarrow> q' = q"
    and progress_done: "ok q \<Longrightarrow> jq_update_progress Q e jid pr q = (q', Inr u) \<Longrightarrow>
      ok q' \<and> (\<exists>j. view q jid = Some j
        \<and> view q' = (view q)(jid \<mapsto> j\<lparr>jb_progress := pr, jb_updated_at := ce_now e\<rparr>))"
    and progress_error: "ok q \<Longrightarrow> jq_update_progress Q e jid pr q = (q', Inl er) \<Longrightarrow> q' = q"
    and finish_done: "ok q \<Longrightarrow> jq_finish Q e jid s em q = (q', Inr u) \<Longrightarrow>
      ok q' \<and> (\<exists>j. view q jid = Some j
        \<and> view q' = (view q)(jid \<mapsto> j\<lparr>jb_status := s, jb_error := em, jb_updated_at := ce_now e\<rparr>))"
    and finish_error: "ok q \<Longrightarrow> jq_finish Q e jid s em q = (q', Inl x) \<Longrightarrow> q' = q"
begin

text \<open>Which jobs exist, and which of them can no longer be claimed.\<close>

definition settled :: "'q \<Rightarrow> string \<Rightarrow> bool" where
  "settled q i \<longleftrightarrow> (\<exists>j. view q i = Some j \<and> jb_status j \<noteq> Pending)"

lemma exec_step:
  assumes "ok q" and "op_terminal oper"
    and "\<forall>i \<in> set (op_ids oper). view q i = None"
    and "queue_exec Q (e, oper) q = (q', c)"
  shows "ok q'"
    and "dom (view q') \<subseteq> dom (view q) \<union> set (op_ids oper)"
    and "settled q i \<Longrightarrow> settled q' i"
    and "c = Some j \<Longrightarrow> \<not> settled q (jb_id j) \<and> settled q' (jb_id j)"
proof -
  have "ok q' \<and> dom (view q') \<subseteq> dom (view q) \<union> set (op_ids oper)
    \<and> (\<forall>i. settled q i \<longrightarrow> settled q' i)
    \<and> (\<forall>j. c = Some j \<longrightarrow> \<not> settled q (jb_id j) \<and> settled q' (jb_id j))"
  proof (cases oper)
    case (OpEnqueue jid co t p)
    obtain r where r: "jq_enqueue Q e jid co t p q = (q', r)" and c: "c = None"
      using assms(4) by (auto simp: queue_exec_def OpEnqueue prod_eq_iff)
    show ?thesis
    proof (cases r)
      case (Inl er)
      then show ?thesis using enqueue_error [OF assms(1) r [unfolded Inl]] assms(1) c by (auto simp: Inl)
    next
      case (Inr j)
      then show ?thesis
        using enqueue_done [OF assms(1) _ r [unfolded Inr]] assms(3) c by (auto simp: OpEnqueue settled_def)
    qed
  next
    case OpClaim
    obtain r where r: "jq_claim_next Q e q = (q', r)" and c: "c = (case r of Inr (Some j) \<Rightarrow> Some j | _ \<Rightarrow> None)"
      using assms(4) by (auto simp: queue_exec_def OpClaim split: prod.splits)
    show ?thesis
    proof (cases r)
      case (Inl er)
      then show ?thesis using claim_error [OF assms(1) r [unfolded Inl]] assms(1) c by (auto simp: Inl)
    next
      case (Inr jo)
      show ?thesis
      proof (cases jo)
        case None
        then show ?thesis using claim_empty [OF assms(1) r [unfolded Inr None]] assms(1) c Inr by auto
      next
        case (Some j)
        then show ?thesis
          using claim_done [OF assms(1) r [unfolded Inr Some]] c Inr by (auto simp: settled_def)
      qed
    qed
  next
    case (OpProgress jid p)
    obtain r where r: "jq_update_progress Q e jid p q = (q', r)" and c: "c = None"
      using assms(4) by (auto simp: queue_exec_def OpProgress prod_eq_iff)
    show ?thesis
    proof (cases r)
      case (Inl er)
      then show ?thesis using progress_error [OF assms(1) r [unfolded Inl]] assms(1) c by (auto simp: Inl)
    next
      case (Inr j)
      then show ?thesis
        using progress_done [OF assms(1) r [unfolded Inr]] c by (auto simp: settled_def split: if_splits)
    qed
  next
    case (OpFinish jid s em)
    obtain r where r: "jq_finish Q e jid s em q = (q', r)" and c: "c = None"
      using assms(4) by (auto simp: queue_exec_def OpFinish prod_eq_iff)
    show ?thesis
    proof (cases r)
      case (Inl er)
      then show ?thesis using finish_error [OF assms(1) r [unfolded Inl]] assms(1) c by (auto simp: Inl)
    next
      case (Inr j)
      have "s \<noteq> Pending" using assms(2) by (auto simp: OpFinish)
      then show ?thesis
        using finish_done [OF assms(1) r [unfolded Inr]] c by (auto simp: settled_def split: if_splits)
    qed
  qed
  then show "ok q'" "dom (view q') \<subseteq> dom (view q) \<union> set (op_ids oper)"
    "settled q i \<Longrightarrow> settled q' i" "c = Some j \<Longrightarrow> \<not> settled q (jb_id j) \<and> settled q' (jb_id j)"
    by blast+
qed

text \<open>Whatever clients and workers do, no job is handed to two of them.\<close>

lemma claimed_once:
  assumes "ok q" and "\<forall>(e, oper) \<in> set eos. op_terminal oper"
    and "distinct (concat (map (op_ids \<circ> snd) eos))"
    and "set (concat (map (op_ids \<circ> snd) eos)) \<inter> dom (view q) = {}"
    and "queue_run Q eos q = (q', js)"
  shows "ok q' \<and> distinct (map jb_id js) \<and> (\<forall>j \<in> set js. \<not> settled q (jb_id j) \<and> settled q' (jb_id j))
    \<and> (\<forall>i. settled q i \<longrightarrow> settled q' i)"
  using assms
proof (induction eos arbitrary: q js)
  case Nil
  then show ?case by simp
next
  case (Cons eo eos)
  obtain e oper where eo: "eo = (e, oper)" by fastforce
  obtain q1 c where s: "queue_exec Q (e, oper) q = (q1, c)" by fastforce
  obtain cs where r: "queue_run Q eos q1 = (q', cs)" and js: "js = (case c of None \<Rightarrow> cs | Some j \<Rightarrow> j # cs)"
    using Cons.prems(5) by (auto simp: eo s split: prod.splits)
  have t: "op_terminal oper" using Cons.prems(2) by (auto simp: eo)
  have fresh: "\<forall>i \<in> set (op_ids oper). view q i = None" using Cons.prems(4) by (auto simp: eo)
  note st = exec_step [OF Cons.prems(1) t fresh s]
  have d: "set (concat (map (op_ids \<circ> snd) eos)) \<inter> dom (view q1) = {}"
    using Cons.prems(3,4) st(2) unfolding eo list.map concat.simps comp_def snd_conv set_append
      distinct_append by blast
  have IH: "ok q' \<and> distinct (map jb_id cs) \<and> (\<forall>j \<in> set cs. \<not> settled q1 (jb_id j) \<and> settled q' (jb_id j))
    \<and> (\<forall>i. settled q1 i \<longrightarrow> settled q' i)"
    using Cons.prems(2,3) d r by (intro Cons.IH st(1)) (auto simp: eo)
  show ?case
  proof (cases c)
    case None
    then show ?thesis using IH st(3) js by auto
  next
    case (Some j)
    then show ?thesis using IH st(3) st(4) [OF Some] js by fastforce
  qed
qed

text \<open>The reporter touches only the job it reports on, and not its status.\<close>

lemma report_view:
  assumes "ok q" and "view q jid = Some j"
  shows "ok (report_progress Q env jid ss q)
    \<and> (\<exists>j'. view (report_progress Q env jid ss q) jid = Some j' \<and> jb_status j' = jb_status j)
    \<and> (\<forall>i. i \<noteq> jid \<longrightarrow> view (report_progress Q env jid ss q) i = view q i)"
  using assms
proof (induction ss arbitrary: env q j)
  case Nil
  then show ?case by simp
next
  case (Cons s ss)
  obtain q1 r where r: "jq_update_progress Q (env 0) jid s q = (q1, r)" by fastforce
  have "ok q1 \<and> (\<exists>j'. view q1 jid = Some j' \<and> jb_status j' = jb_status j)
      \<and> (\<forall>i. i \<noteq> jid \<longrightarrow> view q1 i = view q i)"
  proof (cases r)
    case (Inl er)
    then show ?thesis using progress_error [OF Cons.prems(1) r [unfolded Inl]] Cons.prems by auto
  next
    case (Inr u)
    then show ?thesis using progress_done [OF Cons.prems(1) r [unfolded Inr]] Cons.prems(2) by auto
  qed
  then show ?case using Cons.IH [of q1] by (fastforce simp: r)
qed

definition ran_ok :: "(queue_job \<Rightarrow> job_progress list \<times> (string + unit)) \<Rightarrow> 'q \<Rightarrow> worker_event \<Rightarrow> bool" where
  "ran_ok runner q ev \<longleftrightarrow>
     (\<forall>j oc res. ev = Ran j oc res \<longrightarrow> oc = snd (runner j)
        \<and> (\<exists>j'. view q (jb_id j) = Some j'
              \<and> jb_status j' = (case res of Inr _ \<Rightarrow> outcome_status oc | Inl _ \<Rightarrow> Running)))"

lemma turn_view:
  assumes "ok q" and "worker_turn Q runner te q = (q1, ev)"
  shows "ok q1 \<and> ran_ok runner q1 ev
    \<and> (\<forall>i. i \<notin> jb_id ` set (ran_job ev) \<longrightarrow> view q1 i = view q i)
    \<and> (\<forall>j \<in> set (ran_job ev). \<not> settled q (jb_id j) \<and> settled q1 (jb_id j))"
proof -
  obtain q0 r where r: "jq_claim_next Q (te_claim te) q = (q0, r)" by fastforce
  consider (err) er where "r = Inl er" | (idle) "r = Inr None" | (job) j where "r = Inr (Some j)"
    by (metis obj_sumE option.exhaust)
  then show ?thesis
  proof cases
    case err
    then show ?thesis using assms claim_error [OF assms(1) r [unfolded err]]
      by (auto simp: worker_turn_def r ran_ok_def)
  next
    case idle
    then show ?thesis using assms claim_empty [OF assms(1) r [unfolded idle]]
      by (auto simp: worker_turn_def r ran_ok_def)
  next
    case job
    note cl = claim_done [OF assms(1) r [unfolded job]]
    obtain snaps oc where run: "runner j = (snaps, oc)" by fastforce
    let ?q1 = "report_progress Q (te_report te) (jb_id j) snaps q0"
    obtain j1 where rep: "ok ?q1" "view ?q1 (jb_id j) = Some j1" "jb_status j1 = Running"
      "\<And>i. i \<noteq> jb_id j \<Longrightarrow> view ?q1 i = view q i"
      using report_view [of q0 "jb_id j" j "te_report te" snaps] cl by auto
    obtain em where fin: "jq_finish Q (te_finish te) (jb_id j) (outcome_status oc) em ?q1 = (q1, case ev of Ran _ _ res \<Rightarrow> res | _ \<Rightarrow> Inr ())"
      and ev: "ev = Ran j oc (case ev of Ran _ _ res \<Rightarrow> res | _ \<Rightarrow> Inr ())"
      using assms(2) by (cases oc) (auto simp: worker_turn_def r job execute_job_def run outcome_status_def split: prod.splits)
    obtain res where ev: "ev = Ran j oc res"
      and fin: "jq_finish Q (te_finish te) (jb_id j) (outcome_status oc) em ?q1 = (q1, res)"
      using ev fin by (metis worker_event.simps(10))
    have ns: "\<not> settled q (jb_id j)" using cl by (auto simp: settled_def)
    have os: "outcome_status oc \<noteq> Pending" by (simp add: outcome_status_def split: sum.splits)
    show ?thesis
    proof (cases res)
      case (Inl er)
      have "q1 = ?q1" using finish_error [OF rep(1) fin [unfolded Inl]] by simp
      then show ?thesis using rep ns by (auto simp: ev ran_ok_def run Inl settled_def)
    next
      case (Inr u)
      show ?thesis using finish_done [OF rep(1) fin [unfolded Inr]] rep(4) ns os
        by (auto simp: ev ran_ok_def run Inr settled_def)
    qed
  qed
qed

text \<open>
  A worker runs a job at most once, leaves every other job alone, and ends each run with the status
  of its outcome, or with the job still running when that could not be written.
\<close>

lemma worker_view:
  assumes "ok q" and "worker_run Q runner tes q = (q', evs)"
  shows "ok q' \<and> distinct (map jb_id (concat (map ran_job evs))) \<and> (\<forall>ev \<in> set evs. ran_ok runner q' ev)
    \<and> (\<forall>i. i \<notin> jb_id ` set (concat (map ran_job evs)) \<longrightarrow> view q' i = view q i)
    \<and> (\<forall>j \<in> set (concat (map ran_job evs)). \<not> settled q (jb_id j))"
  using assms
proof (induction tes arbitrary: q evs)
  case Nil
  then show ?case by simp
next
  case (Cons te tes)
  obtain q1 ev evs' where t: "worker_turn Q runner te q = (q1, ev)"
    and w: "worker_run Q runner tes q1 = (q', evs')" and evs: "evs = ev # evs'"
    using Cons.prems(2) by (auto split: prod.splits)
  note tv = turn_view [OF Cons.prems(1) t]
  then have IH: "ok q' \<and> distinct (map jb_id (concat (map ran_job evs'))) \<and> (\<forall>ev \<in> set evs'. ran_ok runner q' ev)
    \<and> (\<forall>i. i \<notin> jb_id ` set (concat (map ran_job evs')) \<longrightarrow> view q' i = view q1 i)
    \<and> (\<forall>j \<in> set (concat (map ran_job evs')). \<not> settled q1 (jb_id j))"
    using w by (intro Cons.IH) auto
  have disj: "jb_id ` set (ran_job ev) \<inter> jb_id ` set (concat (map ran_job evs')) = {}"
  proof (rule ccontr)
    assume "\<not> ?thesis"
    then obtain i where i: "i \<in> jb_id ` set (ran_job ev)" "i \<in> jb_id ` set (concat (map ran_job evs'))"
      by (meson disjoint_iff)
    obtain a where a: "a \<in> set (ran_job ev)" "i = jb_id a" using i(1) by (rule imageE)
    obtain b where b: "b \<in> set (concat (map ran_job evs'))" "i = jb_id b" using i(2) by (rule imageE)
    have "settled q1 (jb_id a)" using tv a(1) by blast
    moreover have "\<not> settled q1 (jb_id b)" using IH b(1) by blast
    ultimately show False by (metis a(2) b(2))
  qed
  have one: "distinct (map jb_id (ran_job ev))" by (cases ev) auto
  have r: "ran_ok runner q' ev"
  proof (cases ev)
    case (Ran j oc res)
    then have "view q' (jb_id j) = view q1 (jb_id j)" using IH disj by auto
    then show ?thesis using tv by (auto simp: ran_ok_def Ran)
  qed (simp_all add: ran_ok_def)
  have later: "\<not> settled q (jb_id j)" if "j \<in> set (concat (map ran_job evs'))" for j
  proof -
    have "jb_id j \<notin> jb_id ` set (ran_job ev)" using that disj by blast
    moreover have "\<not> settled q1 (jb_id j)" using IH that by blast
    ultimately show ?thesis using tv by (auto simp: settled_def)
  qed
  have "distinct (map jb_id (concat (map ran_job evs)))" using IH disj one by (simp add: evs)
  moreover have "view q' i = view q i" if "i \<notin> jb_id ` set (concat (map ran_job evs))" for i
  proof -
    have "view q' i = view q1 i" using IH that by (simp add: evs image_Un)
    moreover have "view q1 i = view q i" using tv that by (simp add: evs image_Un)
    ultimately show ?thesis by simp
  qed
  moreover have "\<not> settled q (jb_id j)" if "j \<in> set (concat (map ran_job evs))" for j
    using that later tv by (auto simp: evs)
  ultimately show ?case using IH r by (simp add: evs)
qed

end

text \<open>
  A contract with an order: in a calm environment (no statement fails and no other transaction
  holds a lock) the operations do not fail, and a claim returns a pending job of least key.
\<close>

locale ordered_queue = job_queue_contract Q ok view
  for Q :: "'q job_queue_ops" and ok :: "'q \<Rightarrow> bool" and view :: "'q \<Rightarrow> string \<Rightarrow> queue_job option" +
  fixes key :: "queue_job \<Rightarrow> 'k::linorder"
    and calm :: "call_env \<Rightarrow> bool"
  assumes view_ids: "ok q \<Longrightarrow> view q i = Some j \<Longrightarrow> jb_id j = i"
    and view_finite: "ok q \<Longrightarrow> finite (dom (view q))"
    and key_stable: "key (j\<lparr>jb_status := s, jb_updated_at := n\<rparr>) = key j"
    and claim_least: "ok q \<Longrightarrow> calm e \<Longrightarrow> view q i = Some j \<Longrightarrow> jb_status j = Pending \<Longrightarrow>
      \<exists>q' m. jq_claim_next Q e q = (q', Inr (Some m)) \<and> key m \<le> key j"
    and claim_calm: "ok q \<Longrightarrow> calm e \<Longrightarrow> snd (jq_claim_next Q e q) \<noteq> Inl er"
    and enqueue_calm: "ok q \<Longrightarrow> calm e \<Longrightarrow> view q i = None \<Longrightarrow> snd (jq_enqueue Q e i c t p q) \<noteq> Inl er"
    and progress_calm: "ok q \<Longrightarrow> calm e \<Longrightarrow> view q i \<noteq> None \<Longrightarrow> snd (jq_update_progress Q e i pr q) \<noteq> Inl er"
    and finish_calm: "ok q \<Longrightarrow> calm e \<Longrightarrow> view q i \<noteq> None \<Longrightarrow> snd (jq_finish Q e i st em q) \<noteq> Inl er"
begin

definition pending_set :: "'q \<Rightarrow> queue_job set" where
  "pending_set q = {j. jb_status j = Pending \<and> view q (jb_id j) = Some j}"

lemma finite_pending: "ok q \<Longrightarrow> finite (pending_set q)"
  by (rule finite_subset [OF _ finite_imageI [OF view_finite, of q "the \<circ> view q"]])
    (force simp: pending_set_def image_iff)+

lemma turn_least:
  assumes "ok q" and "calm (te_claim te)" and "pending_set q \<noteq> {}"
    and "worker_turn Q runner te q = (q1, ev)"
  shows "\<exists>m. set (ran_job ev) = {m} \<and> (\<forall>j \<in> pending_set q. key m \<le> key j)
    \<and> (\<exists>j \<in> pending_set q. jb_id j = jb_id m \<and> key j = key m \<and> pending_set q1 = pending_set q - {j})"
proof -
  obtain j where j: "j \<in> pending_set q" using assms(3) by blast
  obtain q0 m where c: "jq_claim_next Q (te_claim te) q = (q0, Inr (Some m))"
    using claim_least [OF assms(1,2), of "jb_id j" j] j by (auto simp: pending_set_def)
  have least: "\<forall>j \<in> pending_set q. key m \<le> key j"
    using claim_least [OF assms(1,2)] c unfolding pending_set_def by fastforce
  have ev: "set (ran_job ev) = {m}"
    using assms(4) by (auto simp: worker_turn_def c execute_job_def split: prod.splits)
  obtain j0 where j0: "view q (jb_id m) = Some j0" "jb_status j0 = Pending"
    and m: "m = j0\<lparr>jb_status := Running, jb_updated_at := ce_now (te_claim te)\<rparr>"
    using claim_done [OF assms(1) c] by blast
  have ids: "jb_id j0 = jb_id m" by (simp add: m)
  note tv = turn_view [OF assms(1,4), unfolded ev]
  have "pending_set q1 = pending_set q - {j0}"
  proof (intro set_eqI)
    fix x
    show "x \<in> pending_set q1 \<longleftrightarrow> x \<in> pending_set q - {j0}"
    proof (cases "jb_id x = jb_id m")
      case True
      then show ?thesis using tv j0 by (auto simp: pending_set_def settled_def)
    next
      case False
      then show ?thesis using tv j0 ids by (auto simp: pending_set_def)
    qed
  qed
  moreover have "j0 \<in> pending_set q" using j0 ids by (simp add: pending_set_def)
  ultimately show ?thesis using least ids key_stable m by (intro exI [of _ m]) (auto simp: ev)
qed

text \<open>As many turns as there are pending jobs run them all, in the order of their keys.\<close>

lemma worker_drains:
  assumes "ok q" and "\<forall>te \<in> set tes. calm (te_claim te)" and "length tes = card (pending_set q)"
    and "worker_run Q runner tes q = (q', evs)"
  shows "sorted (map key (concat (map ran_job evs)))
    \<and> (\<lambda>j. (jb_id j, key j)) ` set (concat (map ran_job evs)) = (\<lambda>j. (jb_id j, key j)) ` pending_set q
    \<and> pending_set q' = {}"
  using assms
proof (induction tes arbitrary: q evs)
  case Nil
  then show ?case using finite_pending [of q] by auto
next
  case (Cons te tes)
  obtain q1 ev evs' where t: "worker_turn Q runner te q = (q1, ev)"
    and w: "worker_run Q runner tes q1 = (q', evs')" and evs: "evs = ev # evs'"
    using Cons.prems(4) by (auto split: prod.splits)
  have ne: "pending_set q \<noteq> {}" using Cons.prems(3) by auto
  obtain m j where ev: "set (ran_job ev) = {m}" and least: "\<forall>j \<in> pending_set q. key m \<le> key j"
    and j: "j \<in> pending_set q" "jb_id j = jb_id m" "key j = key m" "pending_set q1 = pending_set q - {j}"
    using turn_least [OF Cons.prems(1) _ ne t] Cons.prems(2) by auto
  have rj: "ran_job ev = [m]" using ev by (cases ev) auto
  have len: "length tes = card (pending_set q1)"
    using Cons.prems(3) j finite_pending [OF Cons.prems(1)] by simp
  have ok1: "ok q1" using turn_view [OF Cons.prems(1) t] by blast
  note IH = Cons.IH [OF ok1 _ len w]
  have IH: "sorted (map key (concat (map ran_job evs')))" "pending_set q' = {}"
    "(\<lambda>j. (jb_id j, key j)) ` set (concat (map ran_job evs')) = (\<lambda>j. (jb_id j, key j)) ` pending_set q1"
    using IH Cons.prems(2) by auto
  have "\<forall>x \<in> set (concat (map ran_job evs')). key m \<le> key x"
  proof
    fix x assume "x \<in> set (concat (map ran_job evs'))"
    then have "(jb_id x, key x) \<in> (\<lambda>j. (jb_id j, key j)) ` pending_set q1" using IH(3) by blast
    then show "key m \<le> key x" using least j(4) by auto
  qed
  moreover have "insert (jb_id m, key m) ((\<lambda>j. (jb_id j, key j)) ` pending_set q1)
      = (\<lambda>j. (jb_id j, key j)) ` pending_set q"
    using j insert_Diff [OF j(1)] by (metis (no_types, lifting) image_insert)
  ultimately show ?case unfolding evs using IH by (simp add: rj)
qed

end

text \<open>
  Two ordered queues whose keys compare admissible jobs alike: as long as submission times differ, they
  cannot be told apart.
\<close>

locale queue_pair = A: ordered_queue Q1 ok1 view1 key1 calm + B: ordered_queue Q2 ok2 view2 key2 calm
  for Q1 :: "'q job_queue_ops" and ok1 view1 and key1 :: "queue_job \<Rightarrow> 'k::linorder"
    and Q2 :: "'p job_queue_ops" and ok2 view2 and key2 :: "queue_job \<Rightarrow> 'l::linorder"
    and calm :: "call_env \<Rightarrow> bool" +
  fixes adm :: "queue_job \<Rightarrow> bool"
  assumes adm_keys: "adm j \<Longrightarrow> adm k \<Longrightarrow> key1 j \<le> key1 k \<longleftrightarrow> key2 j \<le> key2 k"
    and adm_created: "adm j \<Longrightarrow> adm k \<Longrightarrow> key1 j = key1 k \<Longrightarrow> jb_created_at j = jb_created_at k"
    and adm_claim: "adm j \<Longrightarrow> adm (j\<lparr>jb_status := s, jb_updated_at := n\<rparr>)"
    and adm_progress: "adm j \<Longrightarrow> adm (j\<lparr>jb_progress := pr, jb_updated_at := n\<rparr>)"
    and adm_finish: "adm j \<Longrightarrow> adm (j\<lparr>jb_status := s, jb_error := em, jb_updated_at := n\<rparr>)"
begin

definition related :: "'q \<Rightarrow> 'p \<Rightarrow> bool" where
  "related q1 q2 \<longleftrightarrow> ok1 q1 \<and> ok2 q2 \<and> view1 q1 = view2 q2 \<and> (\<forall>j \<in> ran (view1 q1). adm j)
     \<and> (\<forall>i k j l. view1 q1 i = Some j \<longrightarrow> view1 q1 k = Some l \<longrightarrow> jb_created_at j = jb_created_at l \<longrightarrow> i = k)"

lemma related_adm: "related q1 q2 \<Longrightarrow> view1 q1 i = Some j \<Longrightarrow> adm j"
  unfolding related_def by (blast intro: ranI)

lemma relatedI:
  assumes "related q1 q2" and "ok1 r1" "ok2 r2" and "view1 q1 i = Some j"
    and "view1 r1 = (view1 q1)(i \<mapsto> j')" "view2 r2 = (view2 q2)(i \<mapsto> j')"
    and "adm j'" "jb_created_at j' = jb_created_at j"
  shows "related r1 r2 \<and> (\<lambda>j. (jb_id j, jb_created_at j)) ` ran (view1 r1) \<subseteq> (\<lambda>j. (jb_id j, jb_created_at j)) ` ran (view1 q1)"
proof -
  have v: "view1 q1 = view2 q2" using assms(1) by (simp add: related_def)
  have a: "adm k" if "k \<in> ran (view1 r1)" for k
    using that assms(5,7) related_adm [OF assms(1)] by (auto simp: ran_def split: if_splits)
  have b: "x = y" if "view1 r1 x = Some a" "view1 r1 y = Some b" "jb_created_at a = jb_created_at b" for x y a b
  proof -
    have "\<exists>a'. view1 q1 x = Some a' \<and> jb_created_at a' = jb_created_at a"
      "\<exists>b'. view1 q1 y = Some b' \<and> jb_created_at b' = jb_created_at b"
      using that assms(4,5,8) by (auto split: if_splits)
    then show ?thesis using that(3) assms(1) unfolding related_def by metis
  qed
  moreover have "(\<lambda>j. (jb_id j, jb_created_at j)) ` ran (view1 r1) \<subseteq> (\<lambda>j. (jb_id j, jb_created_at j)) ` ran (view1 q1)"
  proof
    fix p assume "p \<in> (\<lambda>j. (jb_id j, jb_created_at j)) ` ran (view1 r1)"
    then obtain x k where k: "view1 r1 x = Some k" "p = (jb_id k, jb_created_at k)" by (auto simp: ran_def)
    have "\<exists>k'. view1 q1 x = Some k' \<and> jb_id k' = jb_id k \<and> jb_created_at k' = jb_created_at k"
    proof (cases "x = i")
      case True
      have "jb_id k = i" using A.view_ids [OF assms(2) k(1)] True by simp
      moreover have "jb_id j = i" using A.view_ids [OF _ assms(4)] assms(1) by (simp add: related_def)
      ultimately show ?thesis using True assms(4,5,8) k(1) by auto
    next
      case False
      then show ?thesis using assms(5) k(1) by auto
    qed
    then obtain k' where "view1 q1 x = Some k'" "(jb_id k', jb_created_at k') = p" using k(2) by auto
    then show "p \<in> (\<lambda>j. (jb_id j, jb_created_at j)) ` ran (view1 q1)" by (blast intro: ranI)
  qed
  moreover have "related r1 r2"
  proof -
    have "view1 r1 = view2 r2" by (simp add: assms(5,6) v)
    then show ?thesis unfolding related_def using assms(2,3) a b by blast
  qed
  ultimately show ?thesis by blast
qed

lemma claim_related:
  assumes "related q1 q2" and "calm e"
    and "jq_claim_next Q1 e q1 = (r1, Inr (Some m1))"
  shows "\<exists>r2. jq_claim_next Q2 e q2 = (r2, Inr (Some m1)) \<and> related r1 r2
    \<and> (\<lambda>j. (jb_id j, jb_created_at j)) ` ran (view1 r1) \<subseteq> (\<lambda>j. (jb_id j, jb_created_at j)) ` ran (view1 q1)"
proof -
  have ok: "ok1 q1" "ok2 q2" and v: "view1 q1 = view2 q2" using assms(1) by (auto simp: related_def)
  obtain j where j: "view1 q1 (jb_id m1) = Some j" "jb_status j = Pending" "ok1 r1" "view1 r1 = (view1 q1)(jb_id m1 \<mapsto> m1)"
    and m1: "m1 = j\<lparr>jb_status := Running, jb_updated_at := ce_now e\<rparr>"
    using A.claim_done [OF ok(1) assms(3)] by blast
  obtain r2 m2 where c2: "jq_claim_next Q2 e q2 = (r2, Inr (Some m2))" and le2: "key2 m2 \<le> key2 j"
    using B.claim_least [OF ok(2) assms(2)] j(1,2) v by metis
  obtain k where k: "view1 q1 (jb_id m2) = Some k" "jb_status k = Pending" "ok2 r2" "view2 r2 = (view2 q2)(jb_id m2 \<mapsto> m2)"
    and m2: "m2 = k\<lparr>jb_status := Running, jb_updated_at := ce_now e\<rparr>"
    using B.claim_done [OF ok(2) c2] v by auto
  have adm: "adm j" "adm k" using related_adm [OF assms(1)] j(1) k(1) by blast+
  have le1: "key1 m1 \<le> key1 k" using A.claim_least [OF ok(1) assms(2) k(1,2)] assms(3) by auto
  have "key2 k \<le> key2 j" using le2 B.key_stable by (simp add: m2)
  then have "key1 k \<le> key1 j" using adm adm_keys by blast
  moreover have "key1 j \<le> key1 k" using le1 A.key_stable by (simp add: m1)
  ultimately have "jb_created_at j = jb_created_at k" using adm adm_created by (meson antisym)
  then have "jb_id m1 = jb_id m2" using assms(1) j(1) k(1) unfolding related_def by blast
  then have jk: "m2 = m1" using j(1) k(1) m1 m2 by simp
  have "related r1 r2
    \<and> (\<lambda>j. (jb_id j, jb_created_at j)) ` ran (view1 r1) \<subseteq> (\<lambda>j. (jb_id j, jb_created_at j)) ` ran (view1 q1)"
    using relatedI [OF assms(1) j(3) k(3) j(1,4)] k(4) adm_claim [OF adm(1)] by (simp add: jk m1)
  then show ?thesis using c2 jk by blast
qed

lemma change_related:
  assumes "related q1 q2" and "view1 q1 i \<noteq> None"
    and "\<And>r1 u. op1 = (r1, Inr u) \<Longrightarrow> ok1 r1 \<and> (\<exists>j. view1 q1 i = Some j \<and> view1 r1 = (view1 q1)(i \<mapsto> ch j))"
    and "\<And>r2 u. op2 = (r2, Inr u) \<Longrightarrow> ok2 r2 \<and> (\<exists>j. view2 q2 i = Some j \<and> view2 r2 = (view2 q2)(i \<mapsto> ch j))"
    and "\<And>er. snd op1 \<noteq> Inl er" "\<And>er. snd op2 \<noteq> Inl er"
    and "\<And>j. adm j \<Longrightarrow> adm (ch j)" "\<And>j. jb_created_at (ch j) = jb_created_at j"
  shows "related (fst op1) (fst op2)
    \<and> (\<lambda>j. (jb_id j, jb_created_at j)) ` ran (view1 (fst op1)) \<subseteq> (\<lambda>j. (jb_id j, jb_created_at j)) ` ran (view1 q1)"
proof -
  obtain r1 u1 r2 u2 where o: "op1 = (r1, Inr u1)" "op2 = (r2, Inr u2)"
    using assms(5,6) by (metis prod.collapse sum.exhaust)
  obtain j where j: "view1 q1 i = Some j" "view1 r1 = (view1 q1)(i \<mapsto> ch j)" "ok1 r1" using assms(3) [OF o(1)] by auto
  have "view1 q1 = view2 q2" using assms(1) by (simp add: related_def)
  then have j2: "view2 r2 = (view2 q2)(i \<mapsto> ch j)" "ok2 r2" using assms(4) [OF o(2)] j(1) by auto
  have "adm j" using related_adm [OF assms(1) j(1)] .
  then show ?thesis using relatedI [OF assms(1) j(3) j2(2) j(1,2) j2(1)] assms(7,8) by (simp add: o)
qed

lemma exec_related:
  assumes "related q1 q2" and "calm (fst eo)"
    and "\<And>i c t p. snd eo = OpEnqueue i c t p \<Longrightarrow> adm (new_job (ce_now (fst eo)) i c t p)"
    and "fst ` set (enqueued eo) \<inter> jb_id ` ran (view1 q1) = {}" "snd ` set (enqueued eo) \<inter> jb_created_at ` ran (view1 q1) = {}"
  shows "related (fst (queue_exec Q1 eo q1)) (fst (queue_exec Q2 eo q2))
    \<and> snd (queue_exec Q1 eo q1) = snd (queue_exec Q2 eo q2)
    \<and> (\<lambda>j. (jb_id j, jb_created_at j)) ` ran (view1 (fst (queue_exec Q1 eo q1)))
        \<subseteq> (\<lambda>j. (jb_id j, jb_created_at j)) ` ran (view1 q1) \<union> set (enqueued eo)"
proof -
  let ?f = "\<lambda>j. (jb_id j, jb_created_at j)"
  obtain e oper where eo: "eo = (e, oper)" by fastforce
  have ok: "ok1 q1" "ok2 q2" and v: "view1 q1 = view2 q2" using assms(1) by (auto simp: related_def)
  have calm: "calm e" using assms(2) by (simp add: eo)
  show ?thesis
  proof (cases oper)
    case (OpEnqueue i c t p)
    have "jb_id j \<noteq> i" if "view1 q1 k = Some j" for k j
      using assms(4) that by (auto simp: eo OpEnqueue enqueued_def ran_def)
    then have fresh: "view1 q1 i = None" "view2 q2 i = None" using A.view_ids [OF ok(1)] v by (metis option.exhaust)+
    obtain r1 j where r1: "jq_enqueue Q1 e i c t p q1 = (r1, Inr j)"
      using A.enqueue_calm [OF ok(1) calm fresh(1), of c t p] by (metis prod.collapse sum.exhaust)
    obtain r2 k where r2: "jq_enqueue Q2 e i c t p q2 = (r2, Inr k)"
      using B.enqueue_calm [OF ok(2) calm fresh(2), of c t p] by (metis prod.collapse sum.exhaust)
    note d1 = A.enqueue_done [OF ok(1) fresh(1) r1] and d2 = B.enqueue_done [OF ok(2) fresh(2) r2]
    have new: "jb_created_at l \<noteq> ce_now e" if "view1 q1 x = Some l" for x l
    proof -
      have "jb_created_at l \<in> jb_created_at ` ran (view1 q1)" using that by (blast intro: ranI)
      then show ?thesis using assms(5) by (auto simp: eo OpEnqueue enqueued_def)
    qed
    have "related r1 r2"
      unfolding related_def using d1 d2 v assms(1,3) new
      by (auto simp: related_def eo OpEnqueue ran_def new_job_def split: if_splits) metis+
    moreover have "ran (view1 r1) \<subseteq> insert j (ran (view1 q1))" using d1 by (auto simp: ran_def)
    ultimately show ?thesis using d1 by (auto simp: eo OpEnqueue queue_exec_def r1 r2 enqueued_def new_job_def)
  next
    case OpClaim
    obtain r1 m where r1: "jq_claim_next Q1 e q1 = (r1, Inr m)"
      using A.claim_calm [OF ok(1) calm] by (metis prod.collapse sum.exhaust)
    show ?thesis
    proof (cases m)
      case None
      obtain r2 m2 where r2: "jq_claim_next Q2 e q2 = (r2, Inr m2)"
        using B.claim_calm [OF ok(2) calm] by (metis prod.collapse sum.exhaust)
      have "m2 = None"
      proof (rule ccontr)
        assume "m2 \<noteq> None"
        then obtain k where k: "m2 = Some k" by blast
        obtain k0 where "view1 q1 (jb_id k) = Some k0" "jb_status k0 = Pending"
          using B.claim_done [OF ok(2) r2 [unfolded k]] v by auto
        then show False using A.claim_least [OF ok(1) calm] r1 None by force
      qed
      moreover have "r1 = q1" "r2 = q2"
        using A.claim_empty [OF ok(1) r1 [unfolded None]] B.claim_empty [OF ok(2) r2 [unfolded \<open>m2 = None\<close>]] by auto
      ultimately show ?thesis using assms(1) r1 r2 None by (simp add: eo OpClaim queue_exec_def)
    next
      case (Some j)
      then show ?thesis using claim_related [OF assms(1) calm r1 [unfolded Some]] r1
        by (auto simp: eo OpClaim queue_exec_def)
    qed
  next
    case (OpProgress i pr)
    show ?thesis
    proof (cases "view1 q1 i = None")
      case True
      have "fst (jq_update_progress Q1 e i pr q1) = q1"
        using A.progress_done [OF ok(1)] A.progress_error [OF ok(1)] True
        by (metis option.distinct(1) prod.collapse sum.exhaust)
      moreover have "fst (jq_update_progress Q2 e i pr q2) = q2"
        using B.progress_done [OF ok(2)] B.progress_error [OF ok(2)] True v
        by (metis option.distinct(1) prod.collapse sum.exhaust)
      ultimately show ?thesis using assms(1) by (simp add: eo OpProgress queue_exec_def)
    next
      case False
      have False2: "view2 q2 i \<noteq> None" using False v by simp
      have "related (fst (jq_update_progress Q1 e i pr q1)) (fst (jq_update_progress Q2 e i pr q2))
        \<and> ?f ` ran (view1 (fst (jq_update_progress Q1 e i pr q1))) \<subseteq> ?f ` ran (view1 q1)"
        by (rule change_related [OF assms(1) False A.progress_done [OF ok(1)] B.progress_done [OF ok(2)]
            A.progress_calm [OF ok(1) calm False] B.progress_calm [OF ok(2) calm False2] adm_progress]) simp_all
      then show ?thesis by (simp add: eo OpProgress queue_exec_def le_supI1)
    qed
  next
    case (OpFinish i st em)
    show ?thesis
    proof (cases "view1 q1 i = None")
      case True
      have "fst (jq_finish Q1 e i st em q1) = q1"
        using A.finish_done [OF ok(1)] A.finish_error [OF ok(1)] True
        by (metis option.distinct(1) prod.collapse sum.exhaust)
      moreover have "fst (jq_finish Q2 e i st em q2) = q2"
        using B.finish_done [OF ok(2)] B.finish_error [OF ok(2)] True v
        by (metis option.distinct(1) prod.collapse sum.exhaust)
      ultimately show ?thesis using assms(1) by (simp add: eo OpFinish queue_exec_def)
    next
      case False
      have False2: "view2 q2 i \<noteq> None" using False v by simp
      have "related (fst (jq_finish Q1 e i st em q1)) (fst (jq_finish Q2 e i st em q2))
        \<and> ?f ` ran (view1 (fst (jq_finish Q1 e i st em q1))) \<subseteq> ?f ` ran (view1 q1)"
        by (rule change_related [OF assms(1) False A.finish_done [OF ok(1)] B.finish_done [OF ok(2)]
            A.finish_calm [OF ok(1) calm False] B.finish_calm [OF ok(2) calm False2] adm_finish]) simp_all
      then show ?thesis by (simp add: eo OpFinish queue_exec_def le_supI1)
    qed
  qed
qed

lemma disjoint_grow:
  "X \<subseteq> B \<union> E \<Longrightarrow> (E \<union> D) \<inter> B = {} \<Longrightarrow> E \<inter> D = {} \<Longrightarrow> D \<inter> X = {}"
  by blast

lemma run_related:
  assumes "related q1 q2" and "\<forall>eo \<in> set eos. calm (fst eo)"
    and "\<forall>eo \<in> set eos. \<forall>i c t p. snd eo = OpEnqueue i c t p \<longrightarrow> adm (new_job (ce_now (fst eo)) i c t p)"
    and "distinct (map fst (concat (map enqueued eos)))" "distinct (map snd (concat (map enqueued eos)))"
    and "fst ` set (concat (map enqueued eos)) \<inter> jb_id ` ran (view1 q1) = {}"
      "snd ` set (concat (map enqueued eos)) \<inter> jb_created_at ` ran (view1 q1) = {}"
  shows "related (fst (queue_run Q1 eos q1)) (fst (queue_run Q2 eos q2))
    \<and> snd (queue_run Q1 eos q1) = snd (queue_run Q2 eos q2)"
  using assms
proof (induction eos arbitrary: q1 q2)
  case Nil
  then show ?case by simp
next
  case (Cons eo eos)
  let ?f = "\<lambda>j. (jb_id j, jb_created_at j)"
  obtain r1 c1 where r1: "queue_exec Q1 eo q1 = (r1, c1)" by fastforce
  obtain r2 c2 where r2: "queue_exec Q2 eo q2 = (r2, c2)" by fastforce
  have "related r1 r2 \<and> c1 = c2 \<and> ?f ` ran (view1 r1) \<subseteq> ?f ` ran (view1 q1) \<union> set (enqueued eo)"
    using exec_related [OF Cons.prems(1), of eo] Cons.prems(2,3,6,7) unfolding r1 r2 fst_conv snd_conv
    by (simp add: image_Un Int_Un_distrib2)
  then have rel: "related r1 r2" "c1 = c2" and sub: "?f ` ran (view1 r1) \<subseteq> ?f ` ran (view1 q1) \<union> set (enqueued eo)" by auto
  have "fst ` (?f ` ran (view1 r1)) \<subseteq> fst ` (?f ` ran (view1 q1) \<union> set (enqueued eo))" using sub by (rule image_mono)
  then have ids: "jb_id ` ran (view1 r1) \<subseteq> jb_id ` ran (view1 q1) \<union> fst ` set (enqueued eo)"
    by (simp add: image_Un image_image)
  have "snd ` (?f ` ran (view1 r1)) \<subseteq> snd ` (?f ` ran (view1 q1) \<union> set (enqueued eo))" using sub by (rule image_mono)
  then have times: "jb_created_at ` ran (view1 r1) \<subseteq> jb_created_at ` ran (view1 q1) \<union> snd ` set (enqueued eo)"
    by (simp add: image_Un image_image)
  have "fst ` set (enqueued eo) \<inter> fst ` set (concat (map enqueued eos)) = {}"
    "snd ` set (enqueued eo) \<inter> snd ` set (concat (map enqueued eos)) = {}"
    using Cons.prems(4,5) unfolding list.map concat.simps map_append distinct_append set_map by blast+
  then have disj: "fst ` set (concat (map enqueued eos)) \<inter> jb_id ` ran (view1 r1) = {}"
    "snd ` set (concat (map enqueued eos)) \<inter> jb_created_at ` ran (view1 r1) = {}"
    using disjoint_grow [OF ids] disjoint_grow [OF times] Cons.prems(6,7) by (simp_all add: image_Un)
  have "related (fst (queue_run Q1 eos r1)) (fst (queue_run Q2 eos r2))
      \<and> snd (queue_run Q1 eos r1) = snd (queue_run Q2 eos r2)"
    using Cons.prems(2-5) by (intro Cons.IH rel(1) disj) auto
  then show ?case by (simp add: r1 r2 rel(2) case_prod_beta split: option.split)
qed

end

section \<open>The in-memory queue meets the contract\<close>

lemma mem_ok_view: "memory_ok q \<Longrightarrow> map_of q i = Some j \<Longrightarrow> jb_id j = i"
  by (auto simp: memory_ok_def dest!: map_of_SomeD)

lemma mem_ok_update: "memory_ok q \<Longrightarrow> jb_id j = i \<Longrightarrow> memory_ok (AList.update i j q)"
  using set_alist_update_subset [of i j q] by (auto simp: memory_ok_def distinct_update)

lemma mem_map_of: "memory_ok q \<Longrightarrow> j \<in> set (map snd q) \<longleftrightarrow> map_of q (jb_id j) = Some j"
  by (force simp: memory_ok_def)

lemma memory_claim_cases:
  assumes "memory_ok q"
  obtains (none) "memory_claim_next now q = (q, Inr None)" "\<And>i j. map_of q i = Some j \<Longrightarrow> jb_status j \<noteq> Pending"
  | (job) j where "map_of q (jb_id j) = Some j" "jb_status j = Pending"
      "memory_claim_next now q =
         (AList.update (jb_id j) (j\<lparr>jb_status := Running, jb_updated_at := now\<rparr>) q,
          Inr (Some (j\<lparr>jb_status := Running, jb_updated_at := now\<rparr>)))"
      "\<And>i k. map_of q i = Some k \<Longrightarrow> jb_status k = Pending \<Longrightarrow> memory_rank j \<le> memory_rank k"
proof (cases "min_by (\<lambda>a b. memory_rank b < memory_rank a) (pending_jobs q)")
  case None
  then have "\<forall>j \<in> set (map snd q). jb_status j \<noteq> Pending"
    by (auto simp: pending_jobs_def filter_empty_conv)
  then have "jb_status j \<noteq> Pending" if "map_of q i = Some j" for i j
    using that mem_map_of [OF assms] mem_ok_view [OF assms that] by metis
  with None that(1) show thesis by (simp add: memory_claim_next_def pending_jobs_def)
next
  case (Some j)
  from min_by_mem [OF Some] have j: "jb_status j = Pending" "map_of q (jb_id j) = Some j"
    using mem_map_of [OF assms] by (auto simp: pending_jobs_def)
  have least: "memory_rank j \<le> memory_rank k" if "map_of q i = Some k" "jb_status k = Pending" for i k
  proof (rule min_by_least [OF Some])
    have "k \<in> set (map snd q)" using that(1) mem_map_of [OF assms] mem_ok_view [OF assms that(1)] by metis
    then show "k \<in> set (pending_jobs q)" using that(2) by (simp add: pending_jobs_def)
  qed
  show thesis
    by (rule that(2) [OF j(2,1) _ least])
      (use Some j in \<open>simp_all add: memory_claim_next_def pending_jobs_def Let_def\<close>)
qed

lemmas memory_ops_sel = memory_ops_def memory_enqueue_def memory_get_def memory_update_progress_def
  memory_finish_def

interpretation mem: job_queue_contract memory_ops memory_ok map_of
proof
  fix q e q' j assume ok: "memory_ok q" and "jq_claim_next memory_ops e q = (q', Inr (Some j))"
  then have c: "memory_claim_next (ce_now e) q = (q', Inr (Some j))" by (simp add: memory_ops_def)
  show "memory_ok q' \<and> map_of q' = (map_of q)(jb_id j \<mapsto> j)
      \<and> (\<exists>j0. map_of q (jb_id j) = Some j0 \<and> jb_status j0 = Pending
              \<and> j = j0\<lparr>jb_status := Running, jb_updated_at := ce_now e\<rparr>)"
    by (cases rule: memory_claim_cases [OF ok, of "ce_now e"])
      (use c ok in \<open>auto simp: update_conv' intro!: mem_ok_update\<close>)
next
  fix q e q' assume ok: "memory_ok q" and "jq_claim_next memory_ops e q = (q', Inr None)"
  then have c: "memory_claim_next (ce_now e) q = (q', Inr None)" by (simp add: memory_ops_def)
  show "q' = q"
    by (cases rule: memory_claim_cases [OF ok, of "ce_now e"]) (use c in auto)
next
  fix q e q' er assume ok: "memory_ok q" and "jq_claim_next memory_ops e q = (q', Inl er)"
  then show "q' = q"
    by (cases rule: memory_claim_cases [OF ok, of "ce_now e"]) (auto simp: memory_ops_def)
qed (auto simp: memory_ops_sel update_conv' Let_def new_job_def mem_ok_view
    split: option.splits intro!: mem_ok_update)

interpretation mem_order: ordered_queue memory_ops memory_ok map_of memory_rank "\<lambda>e. True"
proof
  fix q e i j assume ok: "memory_ok q" and p: "map_of q i = Some j" "jb_status j = Pending"
  from ok show "\<exists>q' m. jq_claim_next memory_ops e q = (q', Inr (Some m)) \<and> memory_rank m \<le> memory_rank j"
  proof (cases rule: memory_claim_cases [where now = "ce_now e", consumes 1, case_names none job])
    case none
    then show ?thesis using p by blast
  next
    case (job k)
    then show ?thesis using p by (auto simp: memory_ops_def memory_rank_def)
  qed
next
  fix q e er assume ok: "memory_ok q"
  then show "snd (jq_claim_next memory_ops e q) \<noteq> Inl er"
    by (cases rule: memory_claim_cases [where now = "ce_now e", consumes 1, case_names none job])
      (simp_all add: memory_ops_def)
qed (auto simp: mem_ok_view memory_rank_def finite_dom_map_of memory_ops_sel Let_def split: option.splits)

section \<open>Properties\<close>

lemma pending_set_memory: "memory_ok q \<Longrightarrow> mem_order.pending_set q = set (pending_jobs q)"
  using mem_map_of [of q] by (auto simp: mem_order.pending_set_def pending_jobs_def)

lemma distinct_pending: "memory_ok q \<Longrightarrow> distinct (map jb_id (pending_jobs q))"
proof -
  assume ok: "memory_ok q"
  then have m: "map jb_id (map snd q) = map fst q" by (simp add: memory_ok_def)
  have "distinct (map jb_id (map snd q))" unfolding m using ok by (simp add: memory_ok_def)
  then show ?thesis unfolding pending_jobs_def by (rule distinct_map_filter)
qed

text \<open>Away from \<open>i16::MIN\<close> the wrapped negation is the negation.\<close>

lemma sint_neg16:
  fixes p :: "16 word"
  assumes "p \<noteq> - 32768"
  shows "sint (- p) = - sint p"
proof -
  have "sint p \<noteq> - 32768"
  proof
    assume "sint p = - 32768"
    then have "word_of_int (sint p) = (word_of_int (- 32768) :: 16 word)" by simp
    with assms show False by simp
  qed
  moreover have "- 32768 \<le> sint p" "sint p < 32768"
    using sint_ge [of p] sint_less [of p] by simp_all
  ultimately show ?thesis
    by (simp add: sint_word_minus signed_take_bit_int_eq_self)
qed

lemma memory_rank_drain: "jb_priority j \<noteq> - 32768 \<Longrightarrow> memory_rank j = drain_key j"
  by (simp add: memory_rank_def drain_key_def sint_neg16)

lemma memory_rank_priority: "memory_rank j = memory_rank k \<Longrightarrow> jb_priority j = jb_priority k"
  unfolding memory_rank_def prod.inject
  by (metis (no_types) signed_word_eqI [where 'a = int] neg_equal_iff_equal)

lemma memory_finish_sel: "jq_finish memory_ops e = memory_finish (ce_now e)"
  by (simp add: memory_ops_def)

text \<open>In memory the terminal status is always written: the job is still there.\<close>

lemma memory_turn_written:
  assumes "memory_ok q" and "worker_turn memory_ops runner te q = (q1, Ran j oc res)"
  shows "res = Inr ()"
proof -
  obtain q0 where c: "jq_claim_next memory_ops (te_claim te) q = (q0, Inr (Some j))"
    using assms(2) by (auto simp: worker_turn_def execute_job_def Let_def split: prod.splits sum.splits option.splits)
  note cl = mem.claim_done [OF assms(1) c]
  obtain snaps oc' where run: "runner j = (snaps, oc')" by fastforce
  obtain j1 where "map_of (report_progress memory_ops (te_report te) (jb_id j) snaps q0) (jb_id j) = Some j1"
    using mem.report_view [of q0 "jb_id j" j "te_report te" snaps] cl by auto
  then show ?thesis using assms(2)
    by (cases oc') (simp_all add: worker_turn_def c execute_job_def run memory_finish_sel memory_finish_def)
qed

lemma memory_run_written:
  assumes "memory_ok q" and "worker_run memory_ops runner tes q = (q', evs)" and "Ran j oc res \<in> set evs"
  shows "res = Inr ()"
  using assms
proof (induction tes arbitrary: q evs)
  case (Cons te tes)
  obtain q1 ev evs' where t: "worker_turn memory_ops runner te q = (q1, ev)"
    and w: "worker_run memory_ops runner tes q1 = (q', evs')" and evs: "evs = ev # evs'"
    using Cons.prems(2) by (auto split: prod.splits)
  have "memory_ok q1" using mem.turn_view [OF Cons.prems(1) t] by blast
  then show ?case
    using Cons.IH [OF _ w] Cons.prems(3) memory_turn_written [OF Cons.prems(1)] t by (auto simp: evs)
qed simp

text \<open>
  C23. A worker over the in-memory queue, given as many turns as there are pending jobs, runs
  each of them exactly once, highest priority first and oldest first within a priority, ends each in
  the status its runner decided, and leaves nothing pending. The order needs every
  priority to be above \<open>i16::MIN\<close>.
\<close>

theorem memory_worker_drains:
  assumes "memory_ok q" and "\<forall>j \<in> set (pending_jobs q). jb_priority j \<noteq> - 32768"
    and "length tes = length (pending_jobs q)" and "worker_run memory_ops runner tes q = (q', evs)"
  shows "mset (map jb_id (concat (map ran_job evs))) = mset (map jb_id (pending_jobs q))
    \<and> sorted (map drain_key (concat (map ran_job evs)))
    \<and> pending_jobs q' = []
    \<and> (\<forall>j oc res. Ran j oc res \<in> set evs \<longrightarrow> oc = snd (runner j)
         \<and> map_option jb_status (map_of q' (jb_id j)) = Some (outcome_status oc))"
proof -
  let ?js = "concat (map ran_job evs)" and ?f = "\<lambda>j. (jb_id j, memory_rank j)"
  have "length tes = card (mem_order.pending_set q)"
    using assms(3) distinct_pending [OF assms(1)]
    by (simp add: pending_set_memory [OF assms(1)] distinct_card distinct_map)
  then have d: "sorted (map memory_rank ?js)" "?f ` set ?js = ?f ` set (pending_jobs q)" "mem_order.pending_set q' = {}"
    using mem_order.worker_drains [OF assms(1) _ _ assms(4)] pending_set_memory [OF assms(1)] by auto
  note v = mem.worker_view [OF assms(1,4)]
  have "fst ` (?f ` set ?js) = fst ` (?f ` set (pending_jobs q))" using d(2) by simp
  then have "jb_id ` set ?js = jb_id ` set (pending_jobs q)" by (simp add: image_image)
  then have 1: "mset (map jb_id ?js) = mset (map jb_id (pending_jobs q))"
    using v distinct_pending [OF assms(1)] by (intro set_eq_iff_mset_eq_distinct [THEN iffD1]) auto
  have "memory_rank j = drain_key j" if "j \<in> set ?js" for j
  proof -
    have "?f j \<in> ?f ` set (pending_jobs q)" using that d(2) by blast
    then obtain p where p: "p \<in> set (pending_jobs q)" "memory_rank j = memory_rank p" by auto
    have "jb_priority j \<noteq> - 32768" using assms(2) p(1) memory_rank_priority [OF p(2)] by simp
    then show ?thesis by (rule memory_rank_drain)
  qed
  then have 2: "sorted (map drain_key ?js)" using d(1) by (metis (no_types, lifting) map_cong)
  have 3: "pending_jobs q' = []" using d(3) v pending_set_memory [of q'] by simp
  have 4: "oc = snd (runner j) \<and> map_option jb_status (map_of q' (jb_id j)) = Some (outcome_status oc)"
    if "Ran j oc res \<in> set evs" for j oc res
    using v that memory_run_written [OF assms(1,4) that] by (fastforce simp: mem.ran_ok_def)
  show ?thesis using 1 2 3 4 by blast
qed

lemma memory_worker_drains_witness:
  "let q = fst (queue_run memory_ops
         [(calm_env 1, OpEnqueue ''a'' ''pro'' (Tenant [''p''] None) 1),
          (calm_env 2, OpEnqueue ''b'' ''pro'' Manual 1),
          (calm_env 3, OpEnqueue ''c'' ''team'' (Tenant [''p''] None) 2)] []);
       runner = runner_execute \<lparr>ie_debug = (\<lambda>t. ''Manual''), ie_init = (\<lambda>s. Inr ()),
         ie_ingest = (\<lambda>s. ([job_progress_default], Inr ())), ie_index_empty = (\<lambda>s. False), ie_blob_backend = None\<rparr>;
       (q', evs) = worker_run memory_ops runner [calm_turn 4, calm_turn 5, calm_turn 6] q
   in map jb_id (concat (map ran_job evs)) = [''c'', ''a'', ''b'']
     \<and> map_option jb_status (map_of q' ''b'') = Some Failed
     \<and> mset (map jb_id (concat (map ran_job evs))) = mset (map jb_id (pending_jobs q))
     \<and> sorted (map drain_key (concat (map ran_job evs))) \<and> pending_jobs q' = []"
proof -
  define q where "q = fst (queue_run memory_ops
         [(calm_env 1, OpEnqueue ''a'' ''pro'' (Tenant [''p''] None) 1),
          (calm_env 2, OpEnqueue ''b'' ''pro'' Manual 1),
          (calm_env 3, OpEnqueue ''c'' ''team'' (Tenant [''p''] None) 2)] [])"
  define r where "r = runner_execute \<lparr>ie_debug = (\<lambda>t. ''Manual''), ie_init = (\<lambda>s. Inr ()),
         ie_ingest = (\<lambda>s. ([job_progress_default], Inr ())), ie_index_empty = (\<lambda>s. False), ie_blob_backend = None\<rparr>"
  define w where "w = worker_run memory_ops r [calm_turn 4, calm_turn 5, calm_turn 6] q"
  have q: "memory_ok q" "\<forall>j \<in> set (pending_jobs q). jb_priority j \<noteq> - 32768" "length [calm_turn 4, calm_turn 5, calm_turn 6] = length (pending_jobs q)"
    unfolding q_def by code_simp+
  have "mset (map jb_id (concat (map ran_job (snd w)))) = mset (map jb_id (pending_jobs q))
    \<and> sorted (map drain_key (concat (map ran_job (snd w)))) \<and> pending_jobs (fst w) = []"
    using memory_worker_drains [OF q, of r "fst w" "snd w"] unfolding w_def prod.collapse by blast
  moreover have "map jb_id (concat (map ran_job (snd w))) = [''c'', ''a'', ''b'']"
    "map_option jb_status (map_of (fst w) ''b'') = Some Failed"
    unfolding w_def r_def q_def by code_simp+
  ultimately show ?thesis
    unfolding Let_def w_def [symmetric] r_def [symmetric] q_def [symmetric] case_prod_beta by blast
qed

end
