(* ===== verification/Jobs_Db.thy ===== *)
theory Jobs_Db
  imports Prelude Identity Jobs
begin

text \<open>
  The persistent job queues, \<open>ministr-mcp/src/admin/jobs/sqlite.rs\<close> and \<open>postgres.rs\<close>, and the
  dispatcher \<open>JobQueueBackend\<close>. A table is the list of its rows in insertion order; a
  row keeps, beside the columns, the job serialized as JSON, so that the columns duplicate what
  the blob says. That the two agree is the invariant \<open>table_ok\<close>. Each SQL statement is a
  function on the table which fails when the environment says so; an operation
  that returns early leaves the table as its last completed statement left it, and a
  transaction that does not commit leaves it untouched. \<open>ORDER BY\<close> leaves the order of ties open:
  the model takes the first inserted, and no theorem relies on it. Operations are run here one at a time, which
  the lock of the queue enforces in memory and on SQLite; on Postgres \<open>update_progress\<close> and
  \<open>finish\<close> are two statements each, and \<open>Jobs_Pg\<close> interleaves them.

  \<open>serde_json\<close> is the record \<open>job_codec\<close>; \<open>job_codec_ok\<close> is its round trip.
\<close>

section \<open>Rows and statements\<close>

record job_codec =
  jc_to :: "queue_job \<Rightarrow> string option"
  jc_from :: "string \<Rightarrow> queue_job option"

definition job_codec_ok :: "job_codec \<Rightarrow> bool" where
  "job_codec_ok C \<longleftrightarrow> (\<forall>j. \<exists>s. jc_to C j = Some s \<and> jc_from C s = Some j)"

definition serialise :: "job_codec \<Rightarrow> queue_job \<Rightarrow> string job_result" where
  "serialise C job = (case jc_to C job of None \<Rightarrow> Inl Serde | Some s \<Rightarrow> Inr s)"

definition deserialise :: "job_codec \<Rightarrow> string \<Rightarrow> queue_job job_result" where
  "deserialise C blob = (case jc_from C blob of None \<Rightarrow> Inl Serde | Some j \<Rightarrow> Inr j)"

fun status_str :: "job_status \<Rightarrow> string" where
  "status_str Pending = ''pending''"
| "status_str Running = ''running''"
| "status_str Completed = ''completed''"
| "status_str Failed = ''failed''"

record job_row =
  jr_id :: string
  jr_corpus_id :: string
  jr_status :: string
  jr_created_at :: int
  jr_updated_at :: int
  jr_data :: string

record pg_row = job_row +
  jr_priority :: "16 word"
  jr_claimed_at :: "int option"

definition backend_error :: "string \<Rightarrow> string \<Rightarrow> job_queue_error" where
  "backend_error what e = Backend (what @ '': '' @ e)"

definition sql_insert :: "call_env \<Rightarrow> 'r job_row_scheme \<Rightarrow> 'r job_row_scheme list \<Rightarrow> string + 'r job_row_scheme list" where
  "sql_insert e row rows =
     (case ce_fault e Execute of
        Some m \<Rightarrow> Inl m
      | None \<Rightarrow>
          if jr_id row \<in> jr_id ` set rows then Inl ''UNIQUE constraint failed: indexer_jobs.id''
          else Inr (rows @ [row]))"

definition sql_select :: "call_env \<Rightarrow> string \<Rightarrow> 'r job_row_scheme list \<Rightarrow> string + 'r job_row_scheme option" where
  "sql_select e job_id rows =
     (case ce_fault e Select of
        Some m \<Rightarrow> Inl m
      | None \<Rightarrow> Inr (find (\<lambda>r. jr_id r = job_id) rows))"

definition sql_update ::
    "call_env \<Rightarrow> string \<Rightarrow> ('r job_row_scheme \<Rightarrow> 'r job_row_scheme) \<Rightarrow> 'r job_row_scheme list \<Rightarrow> string + 'r job_row_scheme list" where
  "sql_update e job_id f rows =
     (case ce_fault e Execute of
        Some m \<Rightarrow> Inl m
      | None \<Rightarrow> Inr (map (\<lambda>r. if jr_id r = job_id then f r else r) rows))"

text \<open>\<open>SELECT data ... WHERE id = ?\<close> followed by deserialising it, as three operations do.\<close>

definition read_job :: "job_codec \<Rightarrow> call_env \<Rightarrow> string \<Rightarrow> string \<Rightarrow> 'r job_row_scheme list \<Rightarrow> queue_job option job_result" where
  "read_job C e what job_id rows =
     (case sql_select e job_id rows of
        Inl m \<Rightarrow> Inl (backend_error what m)
      | Inr None \<Rightarrow> Inr None
      | Inr (Some r) \<Rightarrow> map_sum id Some (deserialise C (jr_data r)))"

text \<open>Writing a modified job back: the serialization and the \<open>UPDATE\<close>.\<close>

definition write_job ::
    "job_codec \<Rightarrow> call_env \<Rightarrow> string \<Rightarrow> queue_job \<Rightarrow> (string \<Rightarrow> 'r job_row_scheme \<Rightarrow> 'r job_row_scheme)
      \<Rightarrow> string \<Rightarrow> 'r job_row_scheme list \<Rightarrow> 'r job_row_scheme list job_result" where
  "write_job C e what job set_row job_id rows =
     (case serialise C job of
        Inl er \<Rightarrow> Inl er
      | Inr blob \<Rightarrow>
          (case sql_update e job_id (set_row blob) rows of
             Inl m \<Rightarrow> Inl (backend_error what m)
           | Inr rows' \<Rightarrow> Inr rows'))"

section \<open>The operations both back-ends write alike\<close>

definition set_progress_row :: "queue_job \<Rightarrow> string \<Rightarrow> 'r job_row_scheme \<Rightarrow> 'r job_row_scheme" where
  "set_progress_row job blob r = r\<lparr>jr_updated_at := cast_signed (jb_updated_at job), jr_data := blob\<rparr>"

definition set_status_row :: "queue_job \<Rightarrow> string \<Rightarrow> 'r job_row_scheme \<Rightarrow> 'r job_row_scheme" where
  "set_status_row job blob r =
     r\<lparr>jr_status := status_str (jb_status job), jr_updated_at := cast_signed (jb_updated_at job), jr_data := blob\<rparr>"

definition rewrite_job ::
    "job_codec \<Rightarrow> call_env \<Rightarrow> string \<Rightarrow> string \<Rightarrow> string \<Rightarrow> (queue_job \<Rightarrow> queue_job)
      \<Rightarrow> (queue_job \<Rightarrow> string \<Rightarrow> 'r job_row_scheme \<Rightarrow> 'r job_row_scheme) \<Rightarrow> 'r job_row_scheme list
      \<Rightarrow> 'r job_row_scheme list \<times> unit job_result" where
  "rewrite_job C e connecting what job_id change set_row rows =
     (case ce_fault e Connect of
        Some m \<Rightarrow> (rows, Inl (backend_error connecting m))
      | None \<Rightarrow>
          (case read_job C e (what @ '' select'') job_id rows of
             Inl er \<Rightarrow> (rows, Inl er)
           | Inr None \<Rightarrow> (rows, Inl (NotFound job_id))
           | Inr (Some job) \<Rightarrow>
               (case write_job C e what (change job) (set_row (change job)) job_id rows of
                  Inl er \<Rightarrow> (rows, Inl er)
                | Inr rows' \<Rightarrow> (rows', Inr ()))))"

section \<open>SQLite\<close>

text \<open>A poisoned mutex or a failed join is a failed \<open>Connect\<close>.\<close>

definition sqlite_enqueue ::
    "job_codec \<Rightarrow> call_env \<Rightarrow> string \<Rightarrow> string \<Rightarrow> job_trigger \<Rightarrow> 16 word \<Rightarrow> job_row list \<Rightarrow> job_row list \<times> queue_job job_result" where
  "sqlite_enqueue C e job_id corpus_id trigger priority rows =
     (case ce_fault e Connect of
        Some m \<Rightarrow> (rows, Inl (backend_error ''mutex poisoned'' m))
      | None \<Rightarrow>
          (let job = new_job (ce_now e) job_id corpus_id trigger priority in
           case serialise C job of
             Inl er \<Rightarrow> (rows, Inl er)
           | Inr blob \<Rightarrow>
               (case sql_insert e
                       \<lparr>jr_id = jb_id job, jr_corpus_id = jb_corpus_id job, jr_status = status_str (jb_status job),
                        jr_created_at = cast_signed (jb_created_at job),
                        jr_updated_at = cast_signed (jb_updated_at job), jr_data = blob\<rparr> rows of
                  Inl m \<Rightarrow> (rows, Inl (backend_error ''enqueue'' m))
                | Inr rows' \<Rightarrow> (rows', Inr job))))"

definition sqlite_get :: "job_codec \<Rightarrow> call_env \<Rightarrow> string \<Rightarrow> job_row list \<Rightarrow> queue_job option job_result" where
  "sqlite_get C e job_id rows =
     (case ce_fault e Connect of
        Some m \<Rightarrow> Inl (backend_error ''mutex poisoned'' m)
      | None \<Rightarrow> read_job C e ''get'' job_id rows)"

definition sqlite_claim_next :: "job_codec \<Rightarrow> call_env \<Rightarrow> job_row list \<Rightarrow> job_row list \<times> queue_job option job_result" where
  "sqlite_claim_next C e rows =
     (case ce_fault e Connect of
        Some m \<Rightarrow> (rows, Inl (backend_error ''mutex poisoned'' m))
      | None \<Rightarrow>
     (case ce_fault e Begin of
        Some m \<Rightarrow> (rows, Inl (backend_error ''begin'' m))
      | None \<Rightarrow>
     (case ce_fault e Select of
        Some m \<Rightarrow> (rows, Inl (backend_error ''claim select'' m))
      | None \<Rightarrow>
     (case min_by (\<lambda>a b. jr_created_at b < jr_created_at a)
             (filter (\<lambda>r. jr_status r = ''pending'') rows) of
        None \<Rightarrow> (rows, Inr None)
      | Some r \<Rightarrow>
     (case deserialise C (jr_data r) of
        Inl er \<Rightarrow> (rows, Inl er)
      | Inr job0 \<Rightarrow>
          (let job = job0\<lparr>jb_status := Running, jb_updated_at := ce_now e\<rparr> in
           case write_job C e ''claim update'' job (set_status_row job) (jr_id r) rows of
             Inl er \<Rightarrow> (rows, Inl er)
           | Inr rows' \<Rightarrow>
               (case ce_fault e Commit of
                  Some m \<Rightarrow> (rows, Inl (backend_error ''claim commit'' m))
                | None \<Rightarrow> (rows', Inr (Some job)))))))))"

definition sqlite_update_progress ::
    "job_codec \<Rightarrow> call_env \<Rightarrow> string \<Rightarrow> job_progress \<Rightarrow> job_row list \<Rightarrow> job_row list \<times> unit job_result" where
  "sqlite_update_progress C e job_id progress =
     rewrite_job C e ''mutex poisoned'' ''update_progress'' job_id
       (\<lambda>job. job\<lparr>jb_progress := progress, jb_updated_at := ce_now e\<rparr>) set_progress_row"

definition sqlite_finish ::
    "job_codec \<Rightarrow> call_env \<Rightarrow> string \<Rightarrow> job_status \<Rightarrow> string option \<Rightarrow> job_row list \<Rightarrow> job_row list \<times> unit job_result" where
  "sqlite_finish C e job_id status err =
     rewrite_job C e ''mutex poisoned'' ''finish'' job_id
       (\<lambda>job. job\<lparr>jb_status := status, jb_error := err, jb_updated_at := ce_now e\<rparr>) set_status_row"

definition sqlite_ops :: "job_codec \<Rightarrow> job_row list job_queue_ops" where
  "sqlite_ops C =
     \<lparr>jq_enqueue = sqlite_enqueue C, jq_get = sqlite_get C, jq_claim_next = sqlite_claim_next C,
      jq_update_progress = sqlite_update_progress C, jq_finish = sqlite_finish C\<rparr>"

section \<open>Postgres\<close>

definition pg_enqueue ::
    "job_codec \<Rightarrow> call_env \<Rightarrow> string \<Rightarrow> string \<Rightarrow> job_trigger \<Rightarrow> 16 word \<Rightarrow> pg_row list \<Rightarrow> pg_row list \<times> queue_job job_result" where
  "pg_enqueue C e job_id corpus_id trigger priority rows =
     (let job = new_job (ce_now e) job_id corpus_id trigger priority in
      case serialise C job of
        Inl er \<Rightarrow> (rows, Inl er)
      | Inr blob \<Rightarrow>
          (case ce_fault e Connect of
             Some m \<Rightarrow> (rows, Inl (backend_error ''enqueue conn'' m))
           | None \<Rightarrow>
               (case sql_insert e
                       \<lparr>jr_id = jb_id job, jr_corpus_id = jb_corpus_id job, jr_status = status_str (jb_status job),
                        jr_created_at = cast_signed (jb_created_at job),
                        jr_updated_at = cast_signed (jb_updated_at job), jr_data = blob,
                        jr_priority = jb_priority job, jr_claimed_at = None\<rparr> rows of
                  Inl m \<Rightarrow> (rows, Inl (backend_error ''enqueue'' m))
                | Inr rows' \<Rightarrow> (rows', Inr job))))"

definition pg_get :: "job_codec \<Rightarrow> call_env \<Rightarrow> string \<Rightarrow> pg_row list \<Rightarrow> queue_job option job_result" where
  "pg_get C e job_id rows =
     (case ce_fault e Connect of
        Some m \<Rightarrow> Inl (backend_error ''get conn'' m)
      | None \<Rightarrow> read_job C e ''get'' job_id rows)"

text \<open>\<open>FOR UPDATE SKIP LOCKED\<close>: rows that other transactions hold are passed over.\<close>

definition pg_claim_key :: "pg_row \<Rightarrow> int \<times> int" where
  "pg_claim_key r = (- sint (jr_priority r), jr_created_at r)"

definition set_claimed_row :: "int \<Rightarrow> queue_job \<Rightarrow> string \<Rightarrow> pg_row \<Rightarrow> pg_row" where
  "set_claimed_row server_now job blob r = (set_status_row job blob r)\<lparr>jr_claimed_at := Some server_now\<rparr>"

definition pg_claim_next :: "job_codec \<Rightarrow> call_env \<Rightarrow> pg_row list \<Rightarrow> pg_row list \<times> queue_job option job_result" where
  "pg_claim_next C e rows =
     (case ce_fault e Connect of
        Some m \<Rightarrow> (rows, Inl (backend_error ''claim conn'' m))
      | None \<Rightarrow>
     (case ce_fault e Begin of
        Some m \<Rightarrow> (rows, Inl (backend_error ''claim tx'' m))
      | None \<Rightarrow>
     (case ce_fault e Select of
        Some m \<Rightarrow> (rows, Inl (backend_error ''claim select'' m))
      | None \<Rightarrow>
     (case min_by (\<lambda>a b. pg_claim_key b < pg_claim_key a)
             (filter (\<lambda>r. jr_status r = ''pending'' \<and> jr_id r \<notin> set (ce_locked e)) rows) of
        None \<Rightarrow>
          (case ce_fault e Commit of
             Some m \<Rightarrow> (rows, Inl (backend_error ''claim commit'' m))
           | None \<Rightarrow> (rows, Inr None))
      | Some r \<Rightarrow>
     (case deserialise C (jr_data r) of
        Inl er \<Rightarrow> (rows, Inl er)
      | Inr job0 \<Rightarrow>
          (let job = job0\<lparr>jb_status := Running, jb_updated_at := ce_now e\<rparr> in
           case write_job C e ''claim update'' job (set_claimed_row (ce_server_now e) job) (jr_id r) rows of
             Inl er \<Rightarrow> (rows, Inl er)
           | Inr rows' \<Rightarrow>
               (case ce_fault e Commit of
                  Some m \<Rightarrow> (rows, Inl (backend_error ''claim commit'' m))
                | None \<Rightarrow> (rows', Inr (Some job)))))))))"

definition pg_update_progress ::
    "job_codec \<Rightarrow> call_env \<Rightarrow> string \<Rightarrow> job_progress \<Rightarrow> pg_row list \<Rightarrow> pg_row list \<times> unit job_result" where
  "pg_update_progress C e job_id progress =
     rewrite_job C e ''update_progress conn'' ''update_progress'' job_id
       (\<lambda>job. job\<lparr>jb_progress := progress, jb_updated_at := ce_now e\<rparr>) set_progress_row"

definition pg_finish ::
    "job_codec \<Rightarrow> call_env \<Rightarrow> string \<Rightarrow> job_status \<Rightarrow> string option \<Rightarrow> pg_row list \<Rightarrow> pg_row list \<times> unit job_result" where
  "pg_finish C e job_id status err =
     rewrite_job C e ''finish conn'' ''finish'' job_id
       (\<lambda>job. job\<lparr>jb_status := status, jb_error := err, jb_updated_at := ce_now e\<rparr>) set_status_row"

text \<open>
  \<open>reclaim_orphans\<close>. The server clock counts microseconds; the timeout, in seconds, is cast
  to a double, which is exact below \<open>2^53\<close>.
\<close>

definition is_stale_row :: "call_env \<Rightarrow> int \<Rightarrow> pg_row \<Rightarrow> bool" where
  "is_stale_row e timeout_secs r \<longleftrightarrow>
     jr_status r = ''running'' \<and> jr_id r \<notin> set (ce_locked e)
     \<and> (case jr_claimed_at r of None \<Rightarrow> False
        | Some t \<Rightarrow> t < ce_server_now e - timeout_secs * 1000000)"

definition set_reclaimed_row :: "queue_job \<Rightarrow> string \<Rightarrow> pg_row \<Rightarrow> pg_row" where
  "set_reclaimed_row job blob r = (set_status_row job blob r)\<lparr>jr_claimed_at := None\<rparr>"

fun reclaim_loop :: "job_codec \<Rightarrow> call_env \<Rightarrow> pg_row list \<Rightarrow> nat \<Rightarrow> pg_row list \<Rightarrow> (pg_row list \<times> nat) job_result" where
  "reclaim_loop C e [] reclaimed rows = Inr (rows, reclaimed)"
| "reclaim_loop C e (r # stale) reclaimed rows =
     (case deserialise C (jr_data r) of
        Inl er \<Rightarrow> Inl er
      | Inr job0 \<Rightarrow>
          (let job = job0\<lparr>jb_status := Pending, jb_updated_at := ce_now e\<rparr> in
           case write_job C e ''reclaim update'' job (set_reclaimed_row job) (jr_id r) rows of
             Inl er \<Rightarrow> Inl er
           | Inr rows' \<Rightarrow> reclaim_loop C e stale (reclaimed + 1) rows'))"

definition reclaim_orphans :: "job_codec \<Rightarrow> call_env \<Rightarrow> int \<Rightarrow> pg_row list \<Rightarrow> pg_row list \<times> nat job_result" where
  "reclaim_orphans C e timeout_secs rows =
     (case ce_fault e Connect of
        Some m \<Rightarrow> (rows, Inl (backend_error ''reclaim conn'' m))
      | None \<Rightarrow>
     (case ce_fault e Begin of
        Some m \<Rightarrow> (rows, Inl (backend_error ''reclaim tx'' m))
      | None \<Rightarrow>
     (case ce_fault e Select of
        Some m \<Rightarrow> (rows, Inl (backend_error ''reclaim select'' m))
      | None \<Rightarrow>
     (case reclaim_loop C e (filter (is_stale_row e timeout_secs) rows) 0 rows of
        Inl er \<Rightarrow> (rows, Inl er)
      | Inr (rows', reclaimed) \<Rightarrow>
          (case ce_fault e Commit of
             Some m \<Rightarrow> (rows, Inl (backend_error ''reclaim commit'' m))
           | None \<Rightarrow> (rows', Inr reclaimed))))))"

definition pg_ops :: "job_codec \<Rightarrow> pg_row list job_queue_ops" where
  "pg_ops C =
     \<lparr>jq_enqueue = pg_enqueue C, jq_get = pg_get C, jq_claim_next = pg_claim_next C,
      jq_update_progress = pg_update_progress C, jq_finish = pg_finish C\<rparr>"

section \<open>The dispatcher\<close>

datatype job_queue_backend = InMemory memory_queue | Sqlite "job_row list" | Postgres "pg_row list"

definition backend_enqueue ::
    "job_codec \<Rightarrow> call_env \<Rightarrow> string \<Rightarrow> string \<Rightarrow> job_trigger \<Rightarrow> 16 word \<Rightarrow> job_queue_backend
      \<Rightarrow> job_queue_backend \<times> queue_job job_result" where
  "backend_enqueue C e i c t p b =
     (case b of
        InMemory q \<Rightarrow> map_prod InMemory id (memory_enqueue (ce_now e) i c t p q)
      | Sqlite q \<Rightarrow> map_prod Sqlite id (sqlite_enqueue C e i c t p q)
      | Postgres q \<Rightarrow> map_prod Postgres id (pg_enqueue C e i c t p q))"

definition backend_get :: "job_codec \<Rightarrow> call_env \<Rightarrow> string \<Rightarrow> job_queue_backend \<Rightarrow> queue_job option job_result" where
  "backend_get C e i b =
     (case b of InMemory q \<Rightarrow> memory_get i q | Sqlite q \<Rightarrow> sqlite_get C e i q | Postgres q \<Rightarrow> pg_get C e i q)"

definition backend_claim_next :: "job_codec \<Rightarrow> call_env \<Rightarrow> job_queue_backend \<Rightarrow> job_queue_backend \<times> queue_job option job_result" where
  "backend_claim_next C e b =
     (case b of
        InMemory q \<Rightarrow> map_prod InMemory id (memory_claim_next (ce_now e) q)
      | Sqlite q \<Rightarrow> map_prod Sqlite id (sqlite_claim_next C e q)
      | Postgres q \<Rightarrow> map_prod Postgres id (pg_claim_next C e q))"

definition backend_update_progress ::
    "job_codec \<Rightarrow> call_env \<Rightarrow> string \<Rightarrow> job_progress \<Rightarrow> job_queue_backend \<Rightarrow> job_queue_backend \<times> unit job_result" where
  "backend_update_progress C e i p b =
     (case b of
        InMemory q \<Rightarrow> map_prod InMemory id (memory_update_progress (ce_now e) i p q)
      | Sqlite q \<Rightarrow> map_prod Sqlite id (sqlite_update_progress C e i p q)
      | Postgres q \<Rightarrow> map_prod Postgres id (pg_update_progress C e i p q))"

definition backend_finish ::
    "job_codec \<Rightarrow> call_env \<Rightarrow> string \<Rightarrow> job_status \<Rightarrow> string option \<Rightarrow> job_queue_backend \<Rightarrow> job_queue_backend \<times> unit job_result" where
  "backend_finish C e i s m b =
     (case b of
        InMemory q \<Rightarrow> map_prod InMemory id (memory_finish (ce_now e) i s m q)
      | Sqlite q \<Rightarrow> map_prod Sqlite id (sqlite_finish C e i s m q)
      | Postgres q \<Rightarrow> map_prod Postgres id (pg_finish C e i s m q))"

definition backend_ops :: "job_codec \<Rightarrow> job_queue_backend job_queue_ops" where
  "backend_ops C =
     \<lparr>jq_enqueue = backend_enqueue C, jq_get = backend_get C, jq_claim_next = backend_claim_next C,
      jq_update_progress = backend_update_progress C, jq_finish = backend_finish C\<rparr>"

section \<open>Invariant and view\<close>

text \<open>
  A row agrees with the job in its blob, on the columns both back-ends have and on those of
  the relation \<open>x\<close>. The view of a table is what its blobs say.
\<close>

definition row_ok :: "job_codec \<Rightarrow> ('r job_row_scheme \<Rightarrow> queue_job \<Rightarrow> bool) \<Rightarrow> 'r job_row_scheme \<Rightarrow> bool" where
  "row_ok C x r \<longleftrightarrow>
     (case jc_from C (jr_data r) of
        None \<Rightarrow> False
      | Some j \<Rightarrow> jr_id r = jb_id j \<and> jr_corpus_id r = jb_corpus_id j \<and> jr_status r = status_str (jb_status j)
          \<and> jr_created_at r = cast_signed (jb_created_at j)
          \<and> jr_updated_at r = cast_signed (jb_updated_at j) \<and> x r j)"

definition table_ok :: "job_codec \<Rightarrow> ('r job_row_scheme \<Rightarrow> queue_job \<Rightarrow> bool) \<Rightarrow> 'r job_row_scheme list \<Rightarrow> bool" where
  "table_ok C x rows \<longleftrightarrow> job_codec_ok C \<and> distinct (map jr_id rows) \<and> (\<forall>r \<in> set rows. row_ok C x r)"

definition table_view :: "job_codec \<Rightarrow> 'r job_row_scheme list \<Rightarrow> string \<Rightarrow> queue_job option" where
  "table_view C rows i =
     (case find (\<lambda>r. jr_id r = i) rows of None \<Rightarrow> None | Some r \<Rightarrow> jc_from C (jr_data r))"

definition sqlite_ok :: "job_codec \<Rightarrow> job_row list \<Rightarrow> bool" where
  "sqlite_ok C = table_ok C (\<lambda>r j. True)"

definition pg_ok :: "job_codec \<Rightarrow> pg_row list \<Rightarrow> bool" where
  "pg_ok C = table_ok C (\<lambda>r j. jr_priority r = jb_priority j)"

fun backend_ok :: "job_codec \<Rightarrow> job_queue_backend \<Rightarrow> bool" where
  "backend_ok C (InMemory q) = memory_ok q"
| "backend_ok C (Sqlite q) = sqlite_ok C q"
| "backend_ok C (Postgres q) = pg_ok C q"

fun backend_view :: "job_codec \<Rightarrow> job_queue_backend \<Rightarrow> string \<Rightarrow> queue_job option" where
  "backend_view C (InMemory q) = map_of q"
| "backend_view C (Sqlite q) = table_view C q"
| "backend_view C (Postgres q) = table_view C q"

abbreviation update_rows ::
    "string \<Rightarrow> ('r job_row_scheme \<Rightarrow> 'r job_row_scheme) \<Rightarrow> 'r job_row_scheme list \<Rightarrow> 'r job_row_scheme list" where
  "update_rows i f rows \<equiv> map (\<lambda>r. if jr_id r = i then f r else r) rows"

definition calm :: "call_env \<Rightarrow> bool" where
  "calm e \<longleftrightarrow> (\<forall>c. ce_fault e c = None) \<and> ce_locked e = []"

definition sqlite_key :: "queue_job \<Rightarrow> int" where
  "sqlite_key j = cast_signed (jb_created_at j)"

definition pg_key :: "queue_job \<Rightarrow> int \<times> int" where
  "pg_key j = (- sint (jb_priority j), cast_signed (jb_created_at j))"

text \<open>Jobs whose priority the wrapped negation orders like the priority itself.\<close>

definition plain_job :: "queue_job \<Rightarrow> bool" where
  "plain_job j \<longleftrightarrow> jb_priority j \<noteq> - 32768 \<and> jb_created_at j < 2 ^ 63"

definition fifo_job :: "queue_job \<Rightarrow> bool" where
  "fifo_job j \<longleftrightarrow> jb_priority j = 0 \<and> jb_created_at j < 2 ^ 63"

section \<open>A concrete codec\<close>

text \<open>
  A serializer that meets \<open>job_codec_ok\<close>, to instantiate the parameter: fields are
  netstrings (\<open>ns_enc\<close>), nested where a field has parts.
\<close>

fun enc_trigger :: "job_trigger \<Rightarrow> string" where
  "enc_trigger Manual = enc_all []"
| "enc_trigger (Github r c) = enc_all [r, c]"
| "enc_trigger (Tenant ps u) = enc_all [''t'', enc_all ps, enc_opt u]"

definition dec_trigger :: "string \<Rightarrow> job_trigger" where
  "dec_trigger s = (case dec_all s of [r, c] \<Rightarrow> Github r c | [t, ps, u] \<Rightarrow> Tenant (dec_all ps) (dec_opt u) | _ \<Rightarrow> Manual)"

definition dec_status :: "string \<Rightarrow> job_status" where
  "dec_status s = (if s = ''pending'' then Pending else if s = ''running'' then Running
     else if s = ''completed'' then Completed else Failed)"

definition enc_progress :: "job_progress \<Rightarrow> string" where
  "enc_progress p =
     enc_all [jp_stage p, show_nat (jp_total_files p), show_nat (jp_processed_files p), enc_opt (jp_current_file p),
       show_nat (jp_sections_done p), show_nat (jp_embeddings_total p), show_nat (jp_embeddings_done p)]"

definition dec_progress :: "string \<Rightarrow> job_progress" where
  "dec_progress s =
     (case dec_all s of
        [a, b, c, d, e, f, g] \<Rightarrow>
          \<lparr>jp_stage = a, jp_total_files = digits_value b, jp_processed_files = digits_value c, jp_current_file = dec_opt d,
           jp_sections_done = digits_value e, jp_embeddings_total = digits_value f, jp_embeddings_done = digits_value g\<rparr>
      | _ \<Rightarrow> job_progress_default)"

definition enc_word :: "16 word \<Rightarrow> string" where
  "enc_word w = map (\<lambda>n. if bit w n then CHR ''1'' else CHR ''0'') [0..<16]"

definition dec_word :: "string \<Rightarrow> 16 word" where
  "dec_word s = horner_sum of_bool 2 (map (\<lambda>c. c = CHR ''1'') s)"

definition netstring_job_codec :: job_codec where
  "netstring_job_codec =
     \<lparr>jc_to = (\<lambda>j. Some (enc_all [jb_id j, jb_corpus_id j, enc_trigger (jb_trigger j), status_str (jb_status j),
        enc_progress (jb_progress j), show_nat (jb_created_at j), show_nat (jb_updated_at j), enc_opt (jb_error j),
        enc_word (jb_priority j)])),
      jc_from = (\<lambda>s. case dec_all s of
        [a, b, c, d, e, f, g, h, i] \<Rightarrow>
          Some \<lparr>jb_id = a, jb_corpus_id = b, jb_trigger = dec_trigger c, jb_status = dec_status d,
            jb_progress = dec_progress e, jb_created_at = digits_value f, jb_updated_at = digits_value g,
            jb_error = dec_opt h, jb_priority = dec_word i\<rparr>
      | _ \<Rightarrow> None)\<rparr>"

text \<open>Environments and a queue for concrete runs: the write of the terminal status times out.\<close>

definition orphan_turn :: turn_env where
  "orphan_turn =
     \<lparr>te_claim = calm_env 2, te_report = (\<lambda>n. calm_env 3),
      te_finish = (calm_env 4)\<lparr>ce_fault := (\<lambda>c. if c = Execute then Some ''timeout'' else None)\<rparr>\<rparr>"

definition two_enqueues :: "(call_env \<times> queue_op) list" where
  "two_enqueues =
     [(calm_env 1, OpEnqueue ''a'' ''c'' (Tenant [''/p''] None) 0), (calm_env 2, OpEnqueue ''b'' ''d'' Manual 0)]"

definition two_jobs :: job_queue_backend where
  "two_jobs = fst (queue_run (backend_ops netstring_job_codec) two_enqueues (Postgres []))"

section \<open>Lemmas on tables\<close>

lemma dec_enc_trigger [simp]: "dec_trigger (enc_trigger t) = t"
  by (cases t) (simp_all add: dec_trigger_def)

lemma dec_enc_status [simp]: "dec_status (status_str st) = st"
  by (cases st) (simp_all add: dec_status_def)

lemma dec_enc_progress [simp]: "dec_progress (enc_progress p) = p"
  by (simp add: dec_progress_def enc_progress_def digits_value_show)

lemma dec_enc_word [simp]: "dec_word (enc_word w) = w"
proof -
  have "map (\<lambda>c. c = CHR ''1'') (enc_word w) = map (bit w) [0..<16]" by (simp add: enc_word_def)
  then show ?thesis by (simp only: dec_word_def horner_sum_bit_eq_take_bit) (simp add: take_bit_word_eq_self)
qed

lemma netstring_job_codec_ok: "job_codec_ok netstring_job_codec"
  by (simp add: job_codec_ok_def netstring_job_codec_def digits_value_show)

lemma find_row:
  assumes "distinct (map jr_id rows)"
  shows "find (\<lambda>r. jr_id r = i) rows = Some r \<longleftrightarrow> r \<in> set rows \<and> jr_id r = i"
  using assms by (induction rows) (auto simp: image_iff)

lemma find_row_None: "find (\<lambda>r. jr_id r = i) rows = None \<longleftrightarrow> i \<notin> jr_id ` set rows"
  by (auto simp: find_None_iff image_iff)

lemma row_unique:
  assumes "table_ok C x rows" and "r \<in> set rows" and "s \<in> set rows" and "jr_id s = jr_id r"
  shows "s = r"
  using assms by (auto simp: table_ok_def distinct_map inj_on_def)

lemma table_view_Some:
  assumes "table_ok C x rows"
  shows "table_view C rows i = Some j \<longleftrightarrow> (\<exists>r \<in> set rows. jr_id r = i \<and> jc_from C (jr_data r) = Some j)"
proof (cases "find (\<lambda>r. jr_id r = i) rows")
  case None
  then have "\<forall>r \<in> set rows. jr_id r \<noteq> i" by (auto simp: find_None_iff)
  then show ?thesis by (auto simp: table_view_def None)
next
  case (Some r)
  then have "r \<in> set rows" "jr_id r = i" using assms find_row by (auto simp: table_ok_def)
  then show ?thesis using Some row_unique [OF assms] by (auto simp: table_view_def)
qed

lemma table_view_None:
  assumes "table_ok C x rows"
  shows "table_view C rows i = None \<longleftrightarrow> i \<notin> jr_id ` set rows"
proof -
  have "\<exists>j. jc_from C (jr_data r) = Some j" if "r \<in> set rows" for r
    using assms that by (fastforce simp: table_ok_def row_ok_def split: option.splits)
  then show ?thesis using table_view_Some [OF assms, of i] by (metis (no_types, lifting) image_iff option.exhaust option.distinct(1))
qed

lemma row_okD:
  assumes "table_ok C x rows" and "r \<in> set rows" and "jc_from C (jr_data r) = Some j"
  shows "jr_id r = jb_id j" "jr_corpus_id r = jb_corpus_id j" "jr_status r = status_str (jb_status j)"
    "jr_created_at r = cast_signed (jb_created_at j)" "jr_updated_at r = cast_signed (jb_updated_at j)" "x r j"
  using assms by (auto simp: table_ok_def row_ok_def)

lemma row_job:
  assumes "table_ok C x rows" and "r \<in> set rows"
  obtains j where "jc_from C (jr_data r) = Some j"
  using assms by (fastforce simp: table_ok_def row_ok_def split: option.splits)

lemma table_view_ids: "table_ok C x rows \<Longrightarrow> table_view C rows i = Some j \<Longrightarrow> jb_id j = i"
  using row_okD(1) by (fastforce simp: table_view_Some)

lemma table_view_finite: "table_ok C x rows \<Longrightarrow> finite (dom (table_view C rows))"
  by (rule finite_subset [of _ "jr_id ` set rows"]) (auto simp: table_view_None dom_def)

lemma update_rows_ok:
  assumes "table_ok C x rows" and "r \<in> set rows" and "row_ok C x (f r)" and "\<And>s. jr_id (f s) = jr_id s"
  shows "table_ok C x (update_rows (jr_id r) f rows)"
proof -
  have m: "map jr_id (update_rows (jr_id r) f rows) = map jr_id rows" using assms(4) by simp
  have "\<forall>s \<in> set (update_rows (jr_id r) f rows). row_ok C x s"
    using row_unique [OF assms(1,2)] assms(1,3) by (auto simp: table_ok_def)
  then show ?thesis using assms(1) unfolding table_ok_def m by simp
qed

lemma update_rows_view:
  assumes "table_ok C x rows" and "r \<in> set rows" and "row_ok C x (f r)" and "\<And>s. jr_id (f s) = jr_id s"
    and "jc_from C (jr_data (f r)) = Some j"
  shows "table_view C (update_rows (jr_id r) f rows) = (table_view C rows)(jr_id r \<mapsto> j)"
proof
  fix i
  note ok = update_rows_ok [OF assms(1-4)]
  show "table_view C (update_rows (jr_id r) f rows) i = ((table_view C rows)(jr_id r \<mapsto> j)) i"
  proof (cases "i = jr_id r")
    case True
    then show ?thesis using assms(2,4,5) by (auto simp: table_view_Some [OF ok])
  next
    case False
    have "table_view C (update_rows (jr_id r) f rows) i = Some k \<longleftrightarrow> table_view C rows i = Some k" for k
      using False assms(4) unfolding table_view_Some [OF ok] table_view_Some [OF assms(1)] by auto
    then have "table_view C (update_rows (jr_id r) f rows) i = table_view C rows i" by (metis option.exhaust)
    then show ?thesis using False by simp
  qed
qed

lemma append_row_ok:
  assumes "table_ok C x rows" and "row_ok C x r" and "jr_id r \<notin> jr_id ` set rows"
  shows "table_ok C x (rows @ [r])"
  using assms by (auto simp: table_ok_def)

lemma append_row_view:
  assumes "table_ok C x rows" and "row_ok C x r" and "jr_id r \<notin> jr_id ` set rows"
    and "jc_from C (jr_data r) = Some j"
  shows "table_view C (rows @ [r]) = (table_view C rows)(jr_id r \<mapsto> j)"
proof
  fix i
  have "find (\<lambda>r. jr_id r = i) (rows @ [r]) =
      (case find (\<lambda>r. jr_id r = i) rows of Some s \<Rightarrow> Some s | None \<Rightarrow> if jr_id r = i then Some r else None)"
    by (induction rows) auto
  moreover have "find (\<lambda>s. jr_id s = jr_id r) rows = None" using assms(3) by (simp add: find_row_None)
  ultimately show "table_view C (rows @ [r]) i = ((table_view C rows)(jr_id r \<mapsto> j)) i"
    using assms(4) by (auto simp: table_view_def split: option.splits)
qed

lemma serialise_Inr: "job_codec_ok C \<Longrightarrow> serialise C job = Inr blob \<Longrightarrow> jc_from C blob = Some job"
  unfolding job_codec_ok_def serialise_def by (metis (no_types, lifting) option.case(2) option.inject sum.inject(2))

lemma serialise_total: "job_codec_ok C \<Longrightarrow> \<exists>blob. serialise C job = Inr blob"
  unfolding job_codec_ok_def serialise_def by (metis option.case(2))

lemma status_str_inject [simp]: "status_str a = status_str b \<longleftrightarrow> a = b"
  by (cases a; cases b) auto

lemma status_str_pending: "status_str s = ''pending'' \<longleftrightarrow> s = Pending"
  by (cases s) auto

lemma status_str_running: "status_str s = ''running'' \<longleftrightarrow> s = Running"
  by (cases s) auto

text \<open>A write that succeeds changes one row and its view; one that fails changes nothing.\<close>

lemma write_job_Inr:
  assumes "table_ok C x rows" and "r \<in> set rows" and "write_job C e what job f (jr_id r) rows = Inr rows'"
    and "\<And>blob s. jr_id (f blob s) = jr_id s"
    and "\<And>blob. jc_from C blob = Some job \<Longrightarrow> row_ok C x (f blob r) \<and> jr_data (f blob r) = blob"
  shows "table_ok C x rows' \<and> table_view C rows' = (table_view C rows)(jr_id r \<mapsto> job)"
proof -
  obtain blob where b: "serialise C job = Inr blob" and rows': "rows' = update_rows (jr_id r) (f blob) rows"
    using assms(3) by (auto simp: write_job_def sql_update_def split: sum.splits option.splits)
  have "jc_from C blob = Some job" using assms(1) b serialise_Inr by (auto simp: table_ok_def)
  then have row: "row_ok C x (f blob r)" "jc_from C (jr_data (f blob r)) = Some job" using assms(5) by auto
  show ?thesis
    unfolding rows' using update_rows_ok [OF assms(1,2) row(1) assms(4)]
      update_rows_view [OF assms(1,2) row(1) assms(4) row(2)] by blast
qed

lemma write_job_calm:
  assumes "job_codec_ok C" and "ce_fault e Execute = None"
  shows "\<exists>rows'. write_job C e what job f i rows = Inr rows'"
  using serialise_total [OF assms(1), of job] assms(2) by (auto simp: write_job_def sql_update_def)

lemma rewrite_job_Inl: "rewrite_job C e con what i ch f rows = (rows', Inl er) \<Longrightarrow> rows' = rows"
  by (auto simp: rewrite_job_def split: option.splits sum.splits)

lemma rewrite_job_Inr:
  assumes "table_ok C x rows" and "rewrite_job C e con what i ch f rows = (rows', Inr u)"
    and "\<And>job blob s. jr_id (f job blob s) = jr_id s"
    and "\<And>j blob r. row_ok C x r \<Longrightarrow> jc_from C (jr_data r) = Some j \<Longrightarrow> jc_from C blob = Some (ch j) \<Longrightarrow>
      row_ok C x (f (ch j) blob r) \<and> jr_data (f (ch j) blob r) = blob"
  shows "table_ok C x rows' \<and> (\<exists>j. table_view C rows i = Some j \<and> table_view C rows' = (table_view C rows)(i \<mapsto> ch j))"
proof -
  obtain r j where fr: "find (\<lambda>r. jr_id r = i) rows = Some r" and j: "jc_from C (jr_data r) = Some j"
    and w: "write_job C e what (ch j) (f (ch j)) i rows = Inr rows'"
    using assms(2)
    by (auto simp: rewrite_job_def read_job_def sql_select_def deserialise_def map_sum_def id_def
        split: option.splits sum.splits)
  have r: "r \<in> set rows" "jr_id r = i" using fr find_row assms(1) by (auto simp: table_ok_def)
  have "row_ok C x r" using assms(1) r(1) by (simp add: table_ok_def)
  then have "table_ok C x rows' \<and> table_view C rows' = (table_view C rows)(jr_id r \<mapsto> ch j)"
    using assms(3,4) j w r by (intro write_job_Inr [OF assms(1) r(1), where f = "f (ch j)"]) auto
  moreover have "table_view C rows i = Some j" by (simp add: table_view_def fr j)
  ultimately show ?thesis using r by auto
qed

lemma rewrite_job_calm:
  assumes "table_ok C x rows" and "calm e" and "table_view C rows i \<noteq> None"
  shows "snd (rewrite_job C e con what i ch f rows) \<noteq> Inl er"
proof -
  obtain r j where fr: "find (\<lambda>r. jr_id r = i) rows = Some r" and j: "jc_from C (jr_data r) = Some j"
    using assms(3) by (auto simp: table_view_def split: option.splits)
  obtain rows' where "write_job C e what (ch j) (f (ch j)) i rows = Inr rows'"
    using write_job_calm [of C e] assms(1,2) by (metis calm_def table_ok_def)
  then show ?thesis using assms(2)
    by (simp add: rewrite_job_def read_job_def sql_select_def deserialise_def fr j calm_def)
qed

lemma read_job_view: "read_job C e what i rows = Inr r \<Longrightarrow> table_ok C x rows \<Longrightarrow> r = table_view C rows i"
  by (auto simp: read_job_def sql_select_def table_view_def deserialise_def split: option.splits sum.splits)

section \<open>SQLite and Postgres meet the contract\<close>

text \<open>
  What the two claims have in common: a pending row of least key is turned into a running one, or
  nothing changes.
\<close>

lemma status_row_ok:
  assumes "row_ok C x r" and "jc_from C (jr_data r) = Some j" and "jc_from C blob = Some (ch j)"
    and "jb_id (ch j) = jb_id j" "jb_corpus_id (ch j) = jb_corpus_id j" "jb_created_at (ch j) = jb_created_at j"
    and "x (set_status_row (ch j) blob r) (ch j)"
  shows "row_ok C x (set_status_row (ch j) blob r) \<and> jr_data (set_status_row (ch j) blob r) = blob"
  using assms by (auto simp: row_ok_def set_status_row_def)

lemma progress_row_ok:
  assumes "row_ok C x r" and "jc_from C (jr_data r) = Some j" and "jc_from C blob = Some (ch j)"
    and "jb_id (ch j) = jb_id j" "jb_corpus_id (ch j) = jb_corpus_id j" "jb_created_at (ch j) = jb_created_at j"
    and "jb_status (ch j) = jb_status j" and "x (set_progress_row (ch j) blob r) (ch j)"
  shows "row_ok C x (set_progress_row (ch j) blob r) \<and> jr_data (set_progress_row (ch j) blob r) = blob"
  using assms by (auto simp: row_ok_def set_progress_row_def)

lemma set_row_ids [simp]:
  "jr_id (set_status_row job blob s) = jr_id s" "jr_id (set_progress_row job blob s) = jr_id s"
  "jr_id (set_claimed_row t job blob r) = jr_id r" "jr_id (set_reclaimed_row job blob r) = jr_id r"
  by (simp_all add: set_status_row_def set_progress_row_def set_claimed_row_def set_reclaimed_row_def)

lemma set_row_priority [simp]:
  "jr_priority (set_status_row job blob r) = jr_priority r" "jr_priority (set_progress_row job blob r) = jr_priority r"
  "jr_priority (set_claimed_row t job blob r) = jr_priority r" "jr_priority (set_reclaimed_row job blob r) = jr_priority r"
  by (simp_all add: set_status_row_def set_progress_row_def set_claimed_row_def set_reclaimed_row_def)

lemma row_ok_claimed [simp]: "row_ok C (\<lambda>r j. jr_priority r = jb_priority j) (r\<lparr>jr_claimed_at := t\<rparr>)
    = row_ok C (\<lambda>r j. jr_priority r = jb_priority j) r"
  by (simp add: row_ok_def split: option.splits)

lemma claim_running:
  assumes "table_ok C x rows" and "r \<in> set rows" and "jr_status r = ''pending''" and "jc_from C (jr_data r) = Some j0"
    and "job = j0\<lparr>jb_status := Running, jb_updated_at := n\<rparr>"
    and "write_job C e what job f (jr_id r) rows = Inr rows'"
    and "\<And>blob s. jr_id (f blob s) = jr_id s"
    and "\<And>blob. jc_from C blob = Some job \<Longrightarrow> row_ok C x (f blob r) \<and> jr_data (f blob r) = blob"
  shows "table_ok C x rows' \<and> table_view C rows' = (table_view C rows)(jb_id job \<mapsto> job)
    \<and> (\<exists>j. table_view C rows (jb_id job) = Some j \<and> jb_status j = Pending
          \<and> job = j\<lparr>jb_status := Running, jb_updated_at := n\<rparr>)"
proof -
  note d = row_okD [OF assms(1,2,4)]
  have "table_ok C x rows' \<and> table_view C rows' = (table_view C rows)(jr_id r \<mapsto> job)"
    using write_job_Inr [OF assms(1,2,6-8)] by blast
  moreover have "table_view C rows (jr_id r) = Some j0"
    using assms(2,4) by (auto simp: table_view_Some [OF assms(1)])
  moreover have "jb_status j0 = Pending" using d(3) assms(3) status_str_pending by metis
  ultimately show ?thesis using d(1) assms(5) by auto
qed

lemma sqlite_claim_Some:
  assumes "sqlite_ok C rows" and "sqlite_claim_next C e rows = (rows', Inr (Some job))"
  shows "sqlite_ok C rows' \<and> table_view C rows' = (table_view C rows)(jb_id job \<mapsto> job)
    \<and> (\<exists>j. table_view C rows (jb_id job) = Some j \<and> jb_status j = Pending
          \<and> job = j\<lparr>jb_status := Running, jb_updated_at := ce_now e\<rparr>)"
proof -
  obtain r j0 where m: "min_by (\<lambda>a b. jr_created_at b < jr_created_at a) (filter (\<lambda>r. jr_status r = ''pending'') rows) = Some r"
    and j0: "jc_from C (jr_data r) = Some j0" and job: "job = j0\<lparr>jb_status := Running, jb_updated_at := ce_now e\<rparr>"
    and w: "write_job C e ''claim update'' job (set_status_row job) (jr_id r) rows = Inr rows'"
    using assms(2) by (auto simp: sqlite_claim_next_def deserialise_def Let_def split: option.splits sum.splits)
  have r: "r \<in> set rows" "jr_status r = ''pending''" using min_by_mem [OF m] by auto
  have "row_ok C (\<lambda>r j. True) r" using assms(1) r by (simp add: sqlite_ok_def table_ok_def)
  then have "row_ok C (\<lambda>r j. True) (set_status_row job blob r) \<and> jr_data (set_status_row job blob r) = blob"
    if "jc_from C blob = Some job" for blob
    using status_row_ok [OF _ j0, of _ blob "\<lambda>j. job"] that job by simp
  then show ?thesis
    using claim_running [OF assms(1) [unfolded sqlite_ok_def] r j0 job w] by (simp add: sqlite_ok_def)
qed

lemma pg_claim_Some:
  assumes "pg_ok C rows" and "pg_claim_next C e rows = (rows', Inr (Some job))"
  shows "pg_ok C rows' \<and> table_view C rows' = (table_view C rows)(jb_id job \<mapsto> job)
    \<and> (\<exists>j. table_view C rows (jb_id job) = Some j \<and> jb_status j = Pending
          \<and> job = j\<lparr>jb_status := Running, jb_updated_at := ce_now e\<rparr>)"
proof -
  obtain r j0 where m: "min_by (\<lambda>a b. pg_claim_key b < pg_claim_key a)
      (filter (\<lambda>r. jr_status r = ''pending'' \<and> jr_id r \<notin> set (ce_locked e)) rows) = Some r"
    and j0: "jc_from C (jr_data r) = Some j0" and job: "job = j0\<lparr>jb_status := Running, jb_updated_at := ce_now e\<rparr>"
    and w: "write_job C e ''claim update'' job (set_claimed_row (ce_server_now e) job) (jr_id r) rows = Inr rows'"
    using assms(2) by (auto simp: pg_claim_next_def deserialise_def Let_def split: option.splits sum.splits)
  have r: "r \<in> set rows" "jr_status r = ''pending''" using min_by_mem [OF m] by auto
  have ok: "row_ok C (\<lambda>r j. jr_priority r = jb_priority j) r" using assms(1) r by (simp add: pg_ok_def table_ok_def)
  have "jr_priority r = jb_priority j0" using row_okD(6) [OF assms(1) [unfolded pg_ok_def] r(1) j0] .
  then have "row_ok C (\<lambda>r j. jr_priority r = jb_priority j) (set_claimed_row t job blob r) \<and> jr_data (set_claimed_row t job blob r) = blob"
    if "jc_from C blob = Some job" for blob t
    using status_row_ok [OF ok j0, of blob "\<lambda>j. job"] that job by (simp add: set_claimed_row_def)
  then show ?thesis
    using claim_running [OF assms(1) [unfolded pg_ok_def] r j0 job w] by (simp add: pg_ok_def)
qed

lemma new_row_ok:
  assumes "job_codec_ok C" and "serialise C job = Inr blob"
    and "jr_id r = jb_id job" "jr_corpus_id r = jb_corpus_id job" "jr_status r = status_str (jb_status job)"
      "jr_created_at r = cast_signed (jb_created_at job)" "jr_updated_at r = cast_signed (jb_updated_at job)"
      "jr_data r = blob" "x r job"
  shows "row_ok C x r \<and> jc_from C (jr_data r) = Some job"
  using serialise_Inr [OF assms(1,2)] assms(3-) by (simp add: row_ok_def)

lemma sql_insert_Inr:
  "sql_insert e r rows = Inr rows' \<longleftrightarrow> ce_fault e Execute = None \<and> jr_id r \<notin> jr_id ` set rows \<and> rows' = rows @ [r]"
  by (auto simp: sql_insert_def split: option.splits)

lemma insert_row:
  assumes "table_ok C x rows" and "row_ok C x r \<and> jc_from C (jr_data r) = Some job"
    and "jr_id r = i" "i \<notin> jr_id ` set rows"
  shows "table_ok C x (rows @ [r]) \<and> table_view C (rows @ [r]) = (table_view C rows)(i \<mapsto> job)"
  using append_row_ok [OF assms(1)] append_row_view [OF assms(1)] assms(2-) by auto

lemma sqlite_enqueue_Inr:
  assumes "sqlite_ok C rows" and "sqlite_enqueue C e i c t p rows = (rows', Inr j)"
  shows "sqlite_ok C rows' \<and> j = new_job (ce_now e) i c t p \<and> table_view C rows' = (table_view C rows)(i \<mapsto> j)"
proof -
  have C: "job_codec_ok C" using assms(1) by (simp add: sqlite_ok_def table_ok_def)
  obtain blob r where b: "serialise C j = Inr blob" and j: "j = new_job (ce_now e) i c t p" and "r = \<lparr>jr_id = jb_id j, jr_corpus_id = jb_corpus_id j, jr_status = status_str (jb_status j),
                        jr_created_at = cast_signed (jb_created_at j),
                        jr_updated_at = cast_signed (jb_updated_at j), jr_data = blob\<rparr>"
      and ins: "i \<notin> jr_id ` set rows" "rows' = rows @ [r]"
    using assms(2) by (auto simp: sqlite_enqueue_def Let_def sql_insert_Inr new_job_def split: option.splits sum.splits)
  then have "row_ok C (\<lambda>r j. True) r \<and> jc_from C (jr_data r) = Some j" "jr_id r = i"
    using new_row_ok [OF C b, of r "\<lambda>r j. True"] by (simp_all add: new_job_def)
  then show ?thesis using insert_row [OF assms(1) [unfolded sqlite_ok_def] _ _ ins(1)] j ins(2) by (simp add: sqlite_ok_def)
qed

lemma pg_enqueue_Inr:
  assumes "pg_ok C rows" and "pg_enqueue C e i c t p rows = (rows', Inr j)"
  shows "pg_ok C rows' \<and> j = new_job (ce_now e) i c t p \<and> table_view C rows' = (table_view C rows)(i \<mapsto> j)"
proof -
  have C: "job_codec_ok C" using assms(1) by (simp add: pg_ok_def table_ok_def)
  obtain blob r where b: "serialise C j = Inr blob" and j: "j = new_job (ce_now e) i c t p" and "r = \<lparr>jr_id = jb_id j, jr_corpus_id = jb_corpus_id j, jr_status = status_str (jb_status j),
                        jr_created_at = cast_signed (jb_created_at j),
                        jr_updated_at = cast_signed (jb_updated_at j), jr_data = blob,
                        jr_priority = jb_priority j, jr_claimed_at = None\<rparr>"
      and ins: "i \<notin> jr_id ` set rows" "rows' = rows @ [r]"
    using assms(2) by (auto simp: pg_enqueue_def Let_def sql_insert_Inr new_job_def split: option.splits sum.splits)
  then have "row_ok C (\<lambda>r j. jr_priority r = jb_priority j) r \<and> jc_from C (jr_data r) = Some j" "jr_id r = i"
    using new_row_ok [OF C b, of r "\<lambda>r j. jr_priority r = jb_priority j"] by (simp_all add: new_job_def)
  then show ?thesis using insert_row [OF assms(1) [unfolded pg_ok_def] _ _ ins(1)] j ins(2) by (simp add: pg_ok_def)
qed

lemmas sqlite_rewrites = sqlite_update_progress_def sqlite_finish_def

lemmas pg_rewrites = pg_update_progress_def pg_finish_def

interpretation sqlite: job_queue_contract "sqlite_ops C" "sqlite_ok C" "table_view C" for C
proof
  fix rows e rows' j
  assume "sqlite_ok C rows" "jq_claim_next (sqlite_ops C) e rows = (rows', Inr (Some j))"
  then show "sqlite_ok C rows' \<and> table_view C rows' = (table_view C rows)(jb_id j \<mapsto> j)
      \<and> (\<exists>j0. table_view C rows (jb_id j) = Some j0 \<and> jb_status j0 = Pending
              \<and> j = j0\<lparr>jb_status := Running, jb_updated_at := ce_now e\<rparr>)"
    by (simp add: sqlite_ops_def sqlite_claim_Some)
next
  fix rows e i r assume "sqlite_ok C rows" "jq_get (sqlite_ops C) e i rows = Inr r"
  then show "r = table_view C rows i"
    by (auto simp: sqlite_ops_def sqlite_get_def sqlite_ok_def split: option.splits dest: read_job_view)
next
  fix rows e i pr rows' u
  assume "sqlite_ok C rows" "jq_update_progress (sqlite_ops C) e i pr rows = (rows', Inr u)"
  then show "sqlite_ok C rows' \<and> (\<exists>j. table_view C rows i = Some j
      \<and> table_view C rows' = (table_view C rows)(i \<mapsto> j\<lparr>jb_progress := pr, jb_updated_at := ce_now e\<rparr>))"
    unfolding sqlite_ok_def
    by (intro rewrite_job_Inr [where f = set_progress_row and ch = "\<lambda>j. j\<lparr>jb_progress := pr, jb_updated_at := ce_now e\<rparr>"] progress_row_ok)
      (auto simp: sqlite_ops_def sqlite_rewrites)
next
  fix rows e i st em rows' u
  assume "sqlite_ok C rows" "jq_finish (sqlite_ops C) e i st em rows = (rows', Inr u)"
  then show "sqlite_ok C rows' \<and> (\<exists>j. table_view C rows i = Some j
      \<and> table_view C rows' = (table_view C rows)(i \<mapsto> j\<lparr>jb_status := st, jb_error := em, jb_updated_at := ce_now e\<rparr>))"
    unfolding sqlite_ok_def
    by (intro rewrite_job_Inr [where f = set_status_row and ch = "\<lambda>j. j\<lparr>jb_status := st, jb_error := em, jb_updated_at := ce_now e\<rparr>"] status_row_ok)
      (auto simp: sqlite_ops_def sqlite_rewrites)
qed (auto simp: sqlite_ops_def sqlite_enqueue_Inr sqlite_rewrites dest: rewrite_job_Inl
    simp: sqlite_enqueue_def sqlite_claim_next_def Let_def split: option.splits sum.splits)

interpretation pg: job_queue_contract "pg_ops C" "pg_ok C" "table_view C" for C
proof
  fix rows e rows' j
  assume "pg_ok C rows" "jq_claim_next (pg_ops C) e rows = (rows', Inr (Some j))"
  then show "pg_ok C rows' \<and> table_view C rows' = (table_view C rows)(jb_id j \<mapsto> j)
      \<and> (\<exists>j0. table_view C rows (jb_id j) = Some j0 \<and> jb_status j0 = Pending
              \<and> j = j0\<lparr>jb_status := Running, jb_updated_at := ce_now e\<rparr>)"
    by (simp add: pg_ops_def pg_claim_Some)
next
  fix rows e i r assume "pg_ok C rows" "jq_get (pg_ops C) e i rows = Inr r"
  then show "r = table_view C rows i"
    by (auto simp: pg_ops_def pg_get_def pg_ok_def split: option.splits dest: read_job_view)
next
  fix rows e i pr rows' u
  assume "pg_ok C rows" "jq_update_progress (pg_ops C) e i pr rows = (rows', Inr u)"
  then show "pg_ok C rows' \<and> (\<exists>j. table_view C rows i = Some j
      \<and> table_view C rows' = (table_view C rows)(i \<mapsto> j\<lparr>jb_progress := pr, jb_updated_at := ce_now e\<rparr>))"
    unfolding pg_ok_def
    by (intro rewrite_job_Inr [where f = set_progress_row and ch = "\<lambda>j. j\<lparr>jb_progress := pr, jb_updated_at := ce_now e\<rparr>"] progress_row_ok)
      (auto simp: pg_ops_def pg_rewrites row_ok_def)
next
  fix rows e i st em rows' u
  assume "pg_ok C rows" "jq_finish (pg_ops C) e i st em rows = (rows', Inr u)"
  then show "pg_ok C rows' \<and> (\<exists>j. table_view C rows i = Some j
      \<and> table_view C rows' = (table_view C rows)(i \<mapsto> j\<lparr>jb_status := st, jb_error := em, jb_updated_at := ce_now e\<rparr>))"
    unfolding pg_ok_def
    by (intro rewrite_job_Inr [where f = set_status_row and ch = "\<lambda>j. j\<lparr>jb_status := st, jb_error := em, jb_updated_at := ce_now e\<rparr>"] status_row_ok)
      (auto simp: pg_ops_def pg_rewrites row_ok_def)
qed (auto simp: pg_ops_def pg_enqueue_Inr pg_rewrites dest: rewrite_job_Inl
    simp: pg_enqueue_def pg_claim_next_def Let_def split: option.splits sum.splits)

lemma pending_row:
  assumes "table_ok C x rows" and "table_view C rows i = Some j" and "jb_status j = Pending"
  obtains r where "r \<in> set rows" "jc_from C (jr_data r) = Some j" "jr_status r = ''pending''"
  using assms row_okD(3) [OF assms(1)] by (auto simp: table_view_Some)

lemma sqlite_claim_least:
  assumes "sqlite_ok C rows" and "calm e" and "table_view C rows i = Some j" and "jb_status j = Pending"
  shows "\<exists>rows' m. sqlite_claim_next C e rows = (rows', Inr (Some m)) \<and> sqlite_key m \<le> sqlite_key j"
proof -
  note ok = assms(1) [unfolded sqlite_ok_def]
  obtain r where r: "r \<in> set rows" "jc_from C (jr_data r) = Some j" "jr_status r = ''pending''"
    using pending_row [OF ok assms(3,4)] .
  let ?rs = "filter (\<lambda>r. jr_status r = ''pending'') rows"
  have rr: "r \<in> set ?rs" using r by simp
  obtain b where m: "min_by (\<lambda>a b. jr_created_at b < jr_created_at a) ?rs = Some b"
    using min_by_ex [OF rr] by blast
  have b: "b \<in> set rows" using min_by_mem [OF m] by auto
  obtain k where k: "jc_from C (jr_data b) = Some k" using row_job [OF ok b] .
  obtain rows' where "write_job C e ''claim update'' (k\<lparr>jb_status := Running, jb_updated_at := ce_now e\<rparr>)
      (set_status_row (k\<lparr>jb_status := Running, jb_updated_at := ce_now e\<rparr>)) (jr_id b) rows = Inr rows'"
    using write_job_calm ok assms(2) unfolding table_ok_def calm_def by metis
  then have "sqlite_claim_next C e rows = (rows', Inr (Some (k\<lparr>jb_status := Running, jb_updated_at := ce_now e\<rparr>)))"
    using assms(2) m k by (simp add: sqlite_claim_next_def calm_def deserialise_def)
  moreover have "jr_created_at b \<le> jr_created_at r" using min_by_least [OF m rr] .
  ultimately show ?thesis using row_okD(4) [OF ok b k] row_okD(4) [OF ok r(1,2)] by (simp add: sqlite_key_def)
qed

lemma pg_claim_least:
  assumes "pg_ok C rows" and "calm e" and "table_view C rows i = Some j" and "jb_status j = Pending"
  shows "\<exists>rows' m. pg_claim_next C e rows = (rows', Inr (Some m)) \<and> pg_key m \<le> pg_key j"
proof -
  note ok = assms(1) [unfolded pg_ok_def]
  obtain r where r: "r \<in> set rows" "jc_from C (jr_data r) = Some j" "jr_status r = ''pending''"
    using pending_row [OF ok assms(3,4)] .
  let ?rs = "filter (\<lambda>r. jr_status r = ''pending'' \<and> jr_id r \<notin> set (ce_locked e)) rows"
  have rr: "r \<in> set ?rs" using r assms(2) by (simp add: calm_def)
  obtain b where m: "min_by (\<lambda>a b. pg_claim_key b < pg_claim_key a) ?rs = Some b"
    using min_by_ex [OF rr] by blast
  have b: "b \<in> set rows" using min_by_mem [OF m] by auto
  obtain k where k: "jc_from C (jr_data b) = Some k" using row_job [OF ok b] .
  obtain rows' where "write_job C e ''claim update'' (k\<lparr>jb_status := Running, jb_updated_at := ce_now e\<rparr>)
      (set_claimed_row (ce_server_now e) (k\<lparr>jb_status := Running, jb_updated_at := ce_now e\<rparr>)) (jr_id b) rows = Inr rows'"
    using write_job_calm ok assms(2) unfolding table_ok_def calm_def by metis
  then have "pg_claim_next C e rows = (rows', Inr (Some (k\<lparr>jb_status := Running, jb_updated_at := ce_now e\<rparr>)))"
    using assms(2) m k by (simp add: pg_claim_next_def calm_def deserialise_def)
  moreover have "pg_claim_key b \<le> pg_claim_key r" using min_by_least [OF m rr] .
  moreover have "pg_claim_key b = pg_key k" "pg_claim_key r = pg_key j"
    using row_okD(4,6) [OF ok b k] row_okD(4,6) [OF ok r(1,2)] by (simp_all add: pg_claim_key_def pg_key_def)
  ultimately show ?thesis by (simp add: pg_key_def)
qed

text \<open>In a calm environment only a missing job makes an operation fail.\<close>

lemma sqlite_claim_calm: "sqlite_ok C rows \<Longrightarrow> calm e \<Longrightarrow> snd (sqlite_claim_next C e rows) \<noteq> Inl er"
proof
  assume ok: "sqlite_ok C rows" and calm: "calm e" and er: "snd (sqlite_claim_next C e rows) = Inl er"
  then obtain r where m: "min_by (\<lambda>a b. jr_created_at b < jr_created_at a) (filter (\<lambda>r. jr_status r = ''pending'') rows) = Some r"
    by (auto simp: sqlite_claim_next_def calm_def split: option.splits)
  then have r: "r \<in> set rows" "jr_status r = ''pending''" using min_by_mem [OF m] by auto
  note t = ok [unfolded sqlite_ok_def]
  obtain j where j: "jc_from C (jr_data r) = Some j" using row_job [OF t r(1)] .
  then have "table_view C rows (jr_id r) = Some j" "jb_status j = Pending"
    using r row_okD(3) [OF t r(1) j] status_str_pending by (auto simp: table_view_Some [OF t])
  from sqlite_claim_least [OF ok calm this] er show False by auto
qed

lemma pg_claim_calm: "pg_ok C rows \<Longrightarrow> calm e \<Longrightarrow> snd (pg_claim_next C e rows) \<noteq> Inl er"
proof
  assume ok: "pg_ok C rows" and calm: "calm e" and er: "snd (pg_claim_next C e rows) = Inl er"
  then obtain r where m: "min_by (\<lambda>a b. pg_claim_key b < pg_claim_key a)
      (filter (\<lambda>r. jr_status r = ''pending'' \<and> jr_id r \<notin> set (ce_locked e)) rows) = Some r"
    by (auto simp: pg_claim_next_def calm_def split: option.splits)
  then have r: "r \<in> set rows" "jr_status r = ''pending''" using min_by_mem [OF m] by auto
  note t = ok [unfolded pg_ok_def]
  obtain j where j: "jc_from C (jr_data r) = Some j" using row_job [OF t r(1)] .
  then have "table_view C rows (jr_id r) = Some j" "jb_status j = Pending"
    using r row_okD(3) [OF t r(1) j] status_str_pending by (auto simp: table_view_Some [OF t])
  from pg_claim_least [OF ok calm this] er show False by auto
qed

lemma sqlite_enqueue_calm:
  assumes "sqlite_ok C rows" and "calm e" and "table_view C rows i = None"
  shows "snd (sqlite_enqueue C e i c t p rows) \<noteq> Inl er"
proof -
  have "i \<notin> jr_id ` set rows" "job_codec_ok C"
    using assms(1,3) table_view_None by (auto simp: sqlite_ok_def table_ok_def table_view_None)
  then show ?thesis using serialise_total [of C "new_job (ce_now e) i c t p"] assms(2)
    by (auto simp: sqlite_enqueue_def calm_def Let_def sql_insert_def new_job_def)
qed

lemma pg_enqueue_calm:
  assumes "pg_ok C rows" and "calm e" and "table_view C rows i = None"
  shows "snd (pg_enqueue C e i c t p rows) \<noteq> Inl er"
proof -
  have "i \<notin> jr_id ` set rows" "job_codec_ok C"
    using assms(1,3) table_view_None by (auto simp: pg_ok_def table_ok_def table_view_None)
  then show ?thesis using serialise_total [of C "new_job (ce_now e) i c t p"] assms(2)
    by (auto simp: pg_enqueue_def calm_def Let_def sql_insert_def new_job_def)
qed

interpretation sqlite_order: ordered_queue "sqlite_ops C" "sqlite_ok C" "table_view C" sqlite_key calm for C
proof (unfold_locales, goal_cases)
  case (1 q i j)
  then show ?case unfolding sqlite_ok_def by (rule table_view_ids)
next
  case (2 q)
  then show ?case unfolding sqlite_ok_def by (rule table_view_finite)
next
  case (4 q e i j)
  then show ?case using sqlite_claim_least by (simp add: sqlite_ops_def)
next
  case (7 q e i pr er)
  then show ?case unfolding sqlite_ok_def by (simp add: sqlite_ops_def sqlite_rewrites rewrite_job_calm)
next
  case (8 q e i st em er)
  then show ?case unfolding sqlite_ok_def by (simp add: sqlite_ops_def sqlite_rewrites rewrite_job_calm)
qed (simp_all add: sqlite_key_def sqlite_ops_def sqlite_claim_calm sqlite_enqueue_calm)

interpretation pg_order: ordered_queue "pg_ops C" "pg_ok C" "table_view C" pg_key calm for C
proof (unfold_locales, goal_cases)
  case (1 q i j)
  then show ?case unfolding pg_ok_def by (rule table_view_ids)
next
  case (2 q)
  then show ?case unfolding pg_ok_def by (rule table_view_finite)
next
  case (4 q e i j)
  then show ?case using pg_claim_least by (simp add: pg_ops_def)
next
  case (7 q e i pr er)
  then show ?case unfolding pg_ok_def by (simp add: pg_ops_def pg_rewrites rewrite_job_calm)
next
  case (8 q e i st em er)
  then show ?case unfolding pg_ok_def by (simp add: pg_ops_def pg_rewrites rewrite_job_calm)
qed (simp_all add: pg_key_def pg_ops_def pg_claim_calm pg_enqueue_calm)

section \<open>The dispatcher meets the contract\<close>

lemma backend_ops_sel:
  "jq_enqueue (backend_ops C) = backend_enqueue C" "jq_get (backend_ops C) = backend_get C"
  "jq_claim_next (backend_ops C) = backend_claim_next C"
  "jq_update_progress (backend_ops C) = backend_update_progress C" "jq_finish (backend_ops C) = backend_finish C"
  "jq_enqueue (sqlite_ops C) = sqlite_enqueue C" "jq_get (sqlite_ops C) = sqlite_get C"
  "jq_claim_next (sqlite_ops C) = sqlite_claim_next C"
  "jq_update_progress (sqlite_ops C) = sqlite_update_progress C" "jq_finish (sqlite_ops C) = sqlite_finish C"
  "jq_enqueue (pg_ops C) = pg_enqueue C" "jq_get (pg_ops C) = pg_get C"
  "jq_claim_next (pg_ops C) = pg_claim_next C"
  "jq_update_progress (pg_ops C) = pg_update_progress C" "jq_finish (pg_ops C) = pg_finish C"
  "jq_enqueue memory_ops e = memory_enqueue (ce_now e)" "jq_get memory_ops e = memory_get"
  "jq_claim_next memory_ops e = memory_claim_next (ce_now e)"
  "jq_update_progress memory_ops e = memory_update_progress (ce_now e)" "jq_finish memory_ops e = memory_finish (ce_now e)"
  by (simp_all add: backend_ops_def sqlite_ops_def pg_ops_def memory_ops_def)

lemma backend_pair: "map_prod F id p = (b, r) \<longleftrightarrow> (\<exists>q. p = (q, r) \<and> b = F q)"
  by (cases p) auto

interpretation backend: job_queue_contract "backend_ops C" "backend_ok C" "backend_view C" for C
proof (unfold_locales, goal_cases)
  case (1 q jid e c t p q' j)
  then show ?case
    by (cases q)
      (auto simp: backend_ops_sel backend_enqueue_def backend_pair
        dest: mem.enqueue_done [rotated 2, unfolded backend_ops_sel]
          sqlite.enqueue_done [rotated 2, unfolded backend_ops_sel] pg.enqueue_done [rotated 2, unfolded backend_ops_sel])
next
  case (2 q e jid c t p q' er)
  then show ?case
    using mem.enqueue_error sqlite.enqueue_error pg.enqueue_error
    by (cases q) (fastforce simp: backend_ops_sel backend_enqueue_def backend_pair)+
next
  case (3 q e jid r)
  then show ?case
    using mem.get_view sqlite.get_view pg.get_view by (cases q) (fastforce simp: backend_ops_sel backend_get_def)+
next
  case (4 q e q' j)
  then show ?case
    using mem.claim_done sqlite.claim_done pg.claim_done
    by (cases q) (fastforce simp: backend_ops_sel backend_claim_next_def backend_pair)+
next
  case (5 q e q')
  then show ?case
    using mem.claim_empty sqlite.claim_empty pg.claim_empty
    by (cases q) (fastforce simp: backend_ops_sel backend_claim_next_def backend_pair)+
next
  case (6 q e q' er)
  then show ?case
    using mem.claim_error sqlite.claim_error pg.claim_error
    by (cases q) (fastforce simp: backend_ops_sel backend_claim_next_def backend_pair)+
next
  case (7 q e jid pr q' u)
  then show ?case
    using mem.progress_done sqlite.progress_done pg.progress_done
    by (cases q) (fastforce simp: backend_ops_sel backend_update_progress_def backend_pair)+
next
  case (8 q e jid pr q' er)
  then show ?case
    using mem.progress_error sqlite.progress_error pg.progress_error
    by (cases q) (fastforce simp: backend_ops_sel backend_update_progress_def backend_pair)+
next
  case (9 q e jid s em q' u)
  then show ?case
    using mem.finish_done sqlite.finish_done pg.finish_done
    by (cases q) (fastforce simp: backend_ops_sel backend_finish_def backend_pair)+
next
  case (10 q e jid s em q' x)
  then show ?case
    using mem.finish_error sqlite.finish_error pg.finish_error
    by (cases q) (fastforce simp: backend_ops_sel backend_finish_def backend_pair)+
qed

section \<open>The back-ends agree\<close>

lemma plain_keys: "plain_job j \<Longrightarrow> memory_rank j = (- sint (jb_priority j), jb_created_at j)"
  by (simp add: plain_job_def memory_rank_drain drain_key_def)

interpretation mem_pg: queue_pair memory_ops memory_ok map_of memory_rank
    "pg_ops C" "pg_ok C" "table_view C" pg_key calm plain_job for C
proof (unfold_locales, goal_cases)
  case (4 q e i j)
  then show ?case using mem_order.claim_least by blast
next
  case (5 q e er)
  then show ?case using mem_order.claim_calm by blast
next
  case (6 q e i c t p er)
  then show ?case using mem_order.enqueue_calm by blast
next
  case (7 q e i pr er)
  then show ?case using mem_order.progress_calm by blast
next
  case (8 q e i st em er)
  then show ?case using mem_order.finish_calm by blast
next
  case (9 j k)
  then show ?case by (auto simp: plain_keys pg_key_def cast_signed_small plain_job_def)
next
  case (10 j k)
  then show ?case by (simp add: plain_keys)
qed (auto simp: mem_order.view_ids mem_order.view_finite mem_order.key_stable plain_job_def)

interpretation mem_sqlite: queue_pair memory_ops memory_ok map_of memory_rank
    "sqlite_ops C" "sqlite_ok C" "table_view C" sqlite_key calm fifo_job for C
proof (unfold_locales, goal_cases)
  case (1 j k)
  then show ?case by (simp add: fifo_job_def memory_rank_def sqlite_key_def cast_signed_small)
next
  case (2 j k)
  then show ?case by (simp add: memory_rank_def)
qed (auto simp: fifo_job_def)

lemma empty_ok: "job_codec_ok C \<Longrightarrow> pg_ok C []" "job_codec_ok C \<Longrightarrow> sqlite_ok C []" "memory_ok []" "table_view C [] = Map.empty"
  by (auto simp: pg_ok_def sqlite_ok_def table_ok_def memory_ok_def table_view_def)

lemma reclaim_loop_view:
  assumes "pg_ok C cur" and "set stale \<subseteq> set cur" and "distinct (map jr_id stale)" and "calm e"
  shows "\<exists>cur'. reclaim_loop C e stale n cur = Inr (cur', n + length stale) \<and> pg_ok C cur'
    \<and> (\<forall>i. table_view C cur' i =
         (if i \<in> jr_id ` set stale
          then map_option (\<lambda>j. j\<lparr>jb_status := Pending, jb_updated_at := ce_now e\<rparr>) (table_view C cur i)
          else table_view C cur i))"
  using assms
proof (induction stale arbitrary: n cur)
  case Nil
  then show ?case by simp
next
  case (Cons r stale)
  note ok = Cons.prems(1) [unfolded pg_ok_def]
  have r: "r \<in> set cur" using Cons.prems(2) by simp
  obtain j where j: "jc_from C (jr_data r) = Some j" using row_job [OF ok r] .
  let ?job = "j\<lparr>jb_status := Pending, jb_updated_at := ce_now e\<rparr>"
  have C: "job_codec_ok C" using ok by (simp add: table_ok_def)
  obtain blob where b: "serialise C ?job = Inr blob" using serialise_total [OF C] by blast
  let ?cur = "update_rows (jr_id r) (set_reclaimed_row ?job blob) cur"
  have w: "write_job C e ''reclaim update'' ?job (set_reclaimed_row ?job) (jr_id r) cur = Inr ?cur"
    using Cons.prems(4) by (simp add: write_job_def b sql_update_def calm_def)
  have rok: "row_ok C (\<lambda>r j. jr_priority r = jb_priority j) r" using ok r by (simp add: table_ok_def)
  have "jr_priority r = jb_priority j" using row_okD(6) [OF ok r j] .
  then have row: "row_ok C (\<lambda>r j. jr_priority r = jb_priority j) (set_reclaimed_row ?job bl r) \<and> jr_data (set_reclaimed_row ?job bl r) = bl"
    if "jc_from C bl = Some ?job" for bl
    using status_row_ok [OF rok j, of bl "\<lambda>j. ?job"] that by (simp add: set_reclaimed_row_def)
  have "table_ok C (\<lambda>r j. jr_priority r = jb_priority j) ?cur \<and> table_view C ?cur = (table_view C cur)(jr_id r \<mapsto> ?job)"
    using row by (intro write_job_Inr [OF ok r w]) auto
  then have cur: "pg_ok C ?cur" "table_view C ?cur = (table_view C cur)(jr_id r \<mapsto> ?job)" by (auto simp: pg_ok_def)
  have fresh: "jr_id r \<notin> jr_id ` set stale" using Cons.prems(3) by simp
  then have "set stale \<subseteq> set ?cur" using Cons.prems(2) by (force simp: image_iff)
  then obtain cur' where IH: "reclaim_loop C e stale (n + 1) ?cur = Inr (cur', n + 1 + length stale)" "pg_ok C cur'"
    "\<forall>i. table_view C cur' i =
         (if i \<in> jr_id ` set stale
          then map_option (\<lambda>j. j\<lparr>jb_status := Pending, jb_updated_at := ce_now e\<rparr>) (table_view C ?cur i)
          else table_view C ?cur i)"
    using Cons.IH [OF cur(1), of "n + 1"] Cons.prems(3,4) by auto
  have "table_view C cur (jr_id r) = Some j" using r j by (auto simp: table_view_Some [OF ok])
  then show ?case using IH cur(2) fresh by (auto simp: deserialise_def j w)
qed

section \<open>Properties\<close>

text \<open>
  C22. In memory and on SQLite every operation runs under the lock of the queue, so a concurrent run is a sequence of
  operations. Whichever statements fail on the way: if the queue respects its invariant, enqueued ids are fresh and a job
  is only finished with a terminal status, no interleaving of clients and workers hands the same job out twice, and a
  job that was handed out is never pending afterwards.
\<close>

theorem locked_backend_claims_once:
  assumes "\<forall>rows. b \<noteq> Postgres rows" and "backend_ok C b" and "\<forall>(e, oper) \<in> set eos. op_terminal oper"
    and "distinct (concat (map (op_ids \<circ> snd) eos))"
    and "set (concat (map (op_ids \<circ> snd) eos)) \<inter> dom (backend_view C b) = {}"
    and "queue_run (backend_ops C) eos b = (b', js)"
  shows "backend_ok C b' \<and> distinct (map jb_id js)
    \<and> (\<forall>j \<in> set js. \<exists>k. backend_view C b' (jb_id j) = Some k \<and> jb_status k \<noteq> Pending)"
  using backend.claimed_once [OF assms(2-)] by (auto simp: backend.settled_def)

lemma locked_backend_claims_once_witness:
  "let eos = [(calm_env 1, OpEnqueue ''a'' ''c'' Manual 0), (calm_env 2, OpClaim), (calm_env 3, OpClaim),
      (calm_env 4, OpFinish ''a'' Failed None), (calm_env 5, OpClaim)];
     r = queue_run (backend_ops netstring_job_codec) eos (Sqlite [])
   in backend_ok netstring_job_codec (fst r) \<and> distinct (map jb_id (snd r))"
  using locked_backend_claims_once [of "Sqlite []" netstring_job_codec
      "[(calm_env 1, OpEnqueue ''a'' ''c'' Manual 0), (calm_env 2, OpClaim), (calm_env 3, OpClaim),
      (calm_env 4, OpFinish ''a'' Failed None), (calm_env 5, OpClaim)]", OF _ _ _ _ _ surjective_pairing]
  by (simp add: empty_ok netstring_job_codec_ok del: queue_run.simps)

text \<open>
  C21. The worker loop over any back-end: it runs a job at most once, leaves all other jobs
  as they are, and leaves each job it ran completed or failed as the runner decided, except where
  writing that status failed: that job stays running.
\<close>

theorem worker_runs_once:
  assumes "backend_ok C b" and "worker_run (backend_ops C) runner tes b = (b', evs)"
  shows "backend_ok C b' \<and> distinct (map jb_id (concat (map ran_job evs)))
    \<and> (\<forall>j oc res. Ran j oc res \<in> set evs \<longrightarrow> oc = snd (runner j)
         \<and> map_option jb_status (backend_view C b' (jb_id j))
             = Some (case res of Inr _ \<Rightarrow> outcome_status oc | Inl _ \<Rightarrow> Running))
    \<and> (\<forall>i. i \<notin> jb_id ` set (concat (map ran_job evs)) \<longrightarrow> backend_view C b' i = backend_view C b i)"
proof -
  note v = backend.worker_view [OF assms]
  have "oc = snd (runner j) \<and> map_option jb_status (backend_view C b' (jb_id j))
      = Some (case res of Inr _ \<Rightarrow> outcome_status oc | Inl _ \<Rightarrow> Running)" if "Ran j oc res \<in> set evs" for j oc res
    using v that by (fastforce simp: backend.ran_ok_def)
  then show ?thesis using v by blast
qed

lemma two_jobs_ok: "backend_ok netstring_job_codec two_jobs"
proof -
  have "\<forall>(e, oper) \<in> set two_enqueues. op_terminal oper" "distinct (concat (map (op_ids \<circ> snd) two_enqueues))"
    by code_simp+
  then show ?thesis
    using backend.claimed_once [OF _ _ _ _ surjective_pairing, of netstring_job_codec "Postgres []" two_enqueues]
    by (simp add: two_jobs_def empty_ok netstring_job_codec_ok)
qed

lemma worker_runs_once_witness:
  "let r = worker_run (backend_ops netstring_job_codec) (\<lambda>j. ([], if jb_id j = ''a'' then Inr () else Inl ''no source''))
       [calm_turn 3, calm_turn 4, calm_turn 5] two_jobs
   in map jb_id (concat (map ran_job (snd r))) = [''a'', ''b'']
     \<and> backend_ok netstring_job_codec (fst r) \<and> distinct (map jb_id (concat (map ran_job (snd r))))"
proof -
  define w where "w = worker_run (backend_ops netstring_job_codec)
      (\<lambda>j. ([], if jb_id j = ''a'' then Inr () else Inl ''no source'')) [calm_turn 3, calm_turn 4, calm_turn 5] two_jobs"
  have "map jb_id (concat (map ran_job (snd w))) = [''a'', ''b'']" unfolding w_def by code_simp
  moreover have "backend_ok netstring_job_codec (fst w) \<and> distinct (map jb_id (concat (map ran_job (snd w))))"
    using worker_runs_once [OF two_jobs_ok, of _ _ "fst w" "snd w"] unfolding w_def prod.collapse by blast
  ultimately show ?thesis unfolding Let_def w_def [symmetric] by blast
qed

text \<open>
  A job whose terminal status could not be written is lost to every later worker: no
  further operation of the queue ever hands it out again. (Only \<open>reclaim_orphans\<close> would, and
  nothing calls it.)
\<close>

theorem failed_finish_orphans:
  assumes "backend_ok C b" and "worker_run (backend_ops C) runner tes b = (b1, evs)"
    and "Ran j oc (Inl er) \<in> set evs"
    and "\<forall>(e, oper) \<in> set eos. op_terminal oper" "distinct (concat (map (op_ids \<circ> snd) eos))"
    and "set (concat (map (op_ids \<circ> snd) eos)) \<inter> dom (backend_view C b1) = {}"
    and "queue_run (backend_ops C) eos b1 = (b2, js)"
  shows "map_option jb_status (backend_view C b1 (jb_id j)) = Some Running \<and> jb_id j \<notin> jb_id ` set js"
proof -
  note v = backend.worker_view [OF assms(1,2)]
  then obtain j' where j': "backend_view C b1 (jb_id j) = Some j'" "jb_status j' = Running"
    using assms(3) by (fastforce simp: backend.ran_ok_def)
  then have "backend.settled C b1 (jb_id j)" by (simp add: backend.settled_def)
  moreover have "\<forall>k \<in> set js. \<not> backend.settled C b1 (jb_id k)"
    using backend.claimed_once [OF _ assms(4-7)] v by blast
  ultimately show ?thesis using j' by auto
qed

lemma failed_finish_orphans_witness:
  "let r = worker_run (backend_ops netstring_job_codec) (\<lambda>j. ([], Inr ())) [orphan_turn] two_jobs;
       r2 = queue_run (backend_ops netstring_job_codec) [(calm_env 6, OpClaim), (calm_env 7, OpClaim)] (fst r)
   in map jb_id (snd r2) = [''b''] \<and> map_option jb_status (backend_view netstring_job_codec (fst r) ''a'') = Some Running
     \<and> ''a'' \<notin> jb_id ` set (snd r2)"
proof -
  define r where "r = worker_run (backend_ops netstring_job_codec) (\<lambda>j. ([], Inr ())) [orphan_turn] two_jobs"
  define r2 where "r2 = queue_run (backend_ops netstring_job_codec) [(calm_env 6, OpClaim), (calm_env 7, OpClaim)] (fst r)"
  have "\<exists>j oc er. snd r = [Ran j oc (Inl er)] \<and> jb_id j = ''a''"
  proof -
    have "list_all (\<lambda>ev. case ev of Ran j oc (Inl er) \<Rightarrow> jb_id j = ''a'' | _ \<Rightarrow> False) (snd r)" "length (snd r) = 1"
      unfolding r_def by code_simp+
    then obtain y where "snd r = [y]" "case y of Ran j oc (Inl er) \<Rightarrow> jb_id j = ''a'' | _ \<Rightarrow> False"
      by (auto simp: length_Suc_conv)
    then show ?thesis by (cases y) (auto split: sum.splits)
  qed
  then obtain j oc er where ev: "Ran j oc (Inl er) \<in> set (snd r)" "jb_id j = ''a''" by auto
  have rr: "worker_run (backend_ops netstring_job_codec) (\<lambda>j. ([], Inr ())) [orphan_turn] two_jobs = (fst r, snd r)"
    unfolding r_def by (rule surjective_pairing)
  have "queue_run (backend_ops netstring_job_codec) [(calm_env 6, OpClaim), (calm_env 7, OpClaim)] (fst r) = (fst r2, snd r2)"
    unfolding r2_def by (rule surjective_pairing)
  from failed_finish_orphans [OF two_jobs_ok rr ev(1) _ _ _ this]
  have "map_option jb_status (backend_view netstring_job_codec (fst r) (jb_id j)) = Some Running \<and> jb_id j \<notin> jb_id ` set (snd r2)"
    by simp
  moreover have "map jb_id (snd r2) = [''b'']" unfolding r2_def r_def by code_simp
  ultimately show ?thesis unfolding Let_def r_def [symmetric] r2_def [symmetric] ev(2) by blast
qed

text \<open>
  \<open>reclaim_orphans\<close> puts back exactly the jobs that have been running for longer than the
  timeout, reports their number, and leaves every other job as it was.
\<close>

theorem reclaim_orphans_exact:
  assumes "pg_ok C rows" and "calm e"
  shows "\<exists>rows'. reclaim_orphans C e timeout rows = (rows', Inr (length (filter (is_stale_row e timeout) rows)))
    \<and> pg_ok C rows'
    \<and> (\<forall>i. table_view C rows' i =
         (if \<exists>r \<in> set rows. jr_id r = i \<and> is_stale_row e timeout r
          then map_option (\<lambda>j. j\<lparr>jb_status := Pending, jb_updated_at := ce_now e\<rparr>) (table_view C rows i)
          else table_view C rows i))"
proof -
  let ?stale = "filter (is_stale_row e timeout) rows"
  have "distinct (map jr_id rows)" using assms(1) by (simp add: pg_ok_def table_ok_def)
  then have "distinct (map jr_id ?stale)" by (rule distinct_map_filter)
  from reclaim_loop_view [OF assms(1) _ this assms(2), of 0] obtain rows' where
    "reclaim_loop C e ?stale 0 rows = Inr (rows', length ?stale)" "pg_ok C rows'"
    "\<forall>i. table_view C rows' i =
         (if i \<in> jr_id ` set ?stale
          then map_option (\<lambda>j. j\<lparr>jb_status := Pending, jb_updated_at := ce_now e\<rparr>) (table_view C rows i)
          else table_view C rows i)" by auto
  moreover have "i \<in> jr_id ` set ?stale \<longleftrightarrow> (\<exists>r \<in> set rows. jr_id r = i \<and> is_stale_row e timeout r)" for i by auto
  ultimately show ?thesis using assms(2) by (simp add: reclaim_orphans_def calm_def)
qed

lemma reclaim_orphans_exact_witness:
  "let rows = (case fst (queue_run (backend_ops netstring_job_codec) [(calm_env 3, OpClaim)] two_jobs) of Postgres rs \<Rightarrow> rs | _ \<Rightarrow> []);
       e = (calm_env 3)\<lparr>ce_server_now := 5000000\<rparr>
   in length (filter (is_stale_row e 4) rows) = 1
     \<and> (\<exists>rows'. reclaim_orphans netstring_job_codec e 4 rows = (rows', Inr 1) \<and> pg_ok netstring_job_codec rows')"
proof -
  define b where "b = fst (queue_run (backend_ops netstring_job_codec) [(calm_env 3, OpClaim)] two_jobs)"
  define rows where "rows = (case b of Postgres rs \<Rightarrow> rs | _ \<Rightarrow> [])"
  have "backend_ok netstring_job_codec b"
    using backend.claimed_once [OF two_jobs_ok _ _ _ surjective_pairing, of "[(calm_env 3, OpClaim)]"] by (simp add: b_def)
  then have "pg_ok netstring_job_codec rows"
    by (cases b) (simp_all add: rows_def empty_ok netstring_job_codec_ok)
  moreover have "calm ((calm_env 3)\<lparr>ce_server_now := 5000000\<rparr>)" by (simp add: calm_def calm_env_def)
  moreover have n: "length (filter (is_stale_row ((calm_env 3)\<lparr>ce_server_now := 5000000\<rparr>) 4) rows) = 1"
    unfolding rows_def b_def by code_simp
  ultimately have "\<exists>rows'. reclaim_orphans netstring_job_codec ((calm_env 3)\<lparr>ce_server_now := 5000000\<rparr>) 4 rows = (rows', Inr 1)
      \<and> pg_ok netstring_job_codec rows'"
    using reclaim_orphans_exact [of netstring_job_codec rows "(calm_env 3)\<lparr>ce_server_now := 5000000\<rparr>" 4] unfolding n by blast
  then show ?thesis unfolding Let_def b_def [symmetric] rows_def [symmetric] using n by blast
qed

text \<open>
  C4. The in-memory queue and the Postgres queue give the same answers: on the same sequence of
  operations from an empty queue, run one at a time, when no statement fails, no row is locked, the serializer
  round-trips, ids and submission times do not repeat, submission times are below \<open>2^63\<close> and no priority is
  \<open>i16::MIN\<close>, they hand out the same jobs in the same order and end with the same jobs.
\<close>

theorem memory_postgres_agree:
  assumes "job_codec_ok C" and "\<forall>eo \<in> set eos. calm (fst eo)"
    and "\<forall>eo \<in> set eos. \<forall>i c t p. snd eo = OpEnqueue i c t p \<longrightarrow> plain_job (new_job (ce_now (fst eo)) i c t p)"
    and "distinct (map fst (concat (map enqueued eos)))" "distinct (map snd (concat (map enqueued eos)))"
  shows "snd (queue_run memory_ops eos []) = snd (queue_run (pg_ops C) eos [])
    \<and> map_of (fst (queue_run memory_ops eos [])) = table_view C (fst (queue_run (pg_ops C) eos []))"
proof -
  have "mem_pg.related C [] []" using assms(1) by (simp add: mem_pg.related_def empty_ok)
  from mem_pg.run_related [OF this assms(2-5)] show ?thesis by (simp add: mem_pg.related_def)
qed

lemma memory_postgres_agree_witness:
  "snd (queue_run memory_ops (two_enqueues @ [(calm_env 3, OpClaim)]) [])
     = snd (queue_run (pg_ops netstring_job_codec) (two_enqueues @ [(calm_env 3, OpClaim)]) [])
   \<and> map jb_id (snd (queue_run memory_ops (two_enqueues @ [(calm_env 3, OpClaim)]) [])) = [''a'']"
proof -
  have "\<forall>eo \<in> set (two_enqueues @ [(calm_env 3, OpClaim)]). calm (fst eo)"
    by (auto simp: two_enqueues_def calm_def calm_env_def)
  moreover have "\<forall>eo \<in> set (two_enqueues @ [(calm_env 3, OpClaim)]). \<forall>i c t p. snd eo = OpEnqueue i c t p \<longrightarrow> plain_job (new_job (ce_now (fst eo)) i c t p)"
    by (auto simp: two_enqueues_def plain_job_def new_job_def calm_env_def)
  moreover have "distinct (map fst (concat (map enqueued (two_enqueues @ [(calm_env 3, OpClaim)]))))"
    "distinct (map snd (concat (map enqueued (two_enqueues @ [(calm_env 3, OpClaim)]))))"
    "map jb_id (snd (queue_run memory_ops (two_enqueues @ [(calm_env 3, OpClaim)]) [])) = [''a'']"
    by code_simp+
  ultimately show ?thesis using memory_postgres_agree [OF netstring_job_codec_ok] by blast
qed

text \<open>
  The same for the SQLite queue, which ignores priorities, when all of them are zero as in a self-hosted
  deployment.
\<close>

lemma memory_sqlite_agree:
  assumes "job_codec_ok C" and "\<forall>eo \<in> set eos. calm (fst eo)"
    and "\<forall>eo \<in> set eos. \<forall>i c t p. snd eo = OpEnqueue i c t p \<longrightarrow> fifo_job (new_job (ce_now (fst eo)) i c t p)"
    and "distinct (map fst (concat (map enqueued eos)))" "distinct (map snd (concat (map enqueued eos)))"
  shows "snd (queue_run memory_ops eos []) = snd (queue_run (sqlite_ops C) eos [])
    \<and> map_of (fst (queue_run memory_ops eos [])) = table_view C (fst (queue_run (sqlite_ops C) eos []))"
proof -
  have "mem_sqlite.related C [] []" using assms(1) by (simp add: mem_sqlite.related_def empty_ok)
  from mem_sqlite.run_related [OF this assms(2-5)] show ?thesis by (simp add: mem_sqlite.related_def)
qed

text \<open>
  At \<open>i16::MIN\<close> they differ: the in-memory queue hands the lowest priority out first, Postgres last.
\<close>

lemma min_priority_disagrees:
  "map jb_id (snd (queue_run memory_ops [(calm_env 1, OpEnqueue ''a'' ''c'' Manual 0),
      (calm_env 2, OpEnqueue ''b'' ''c'' Manual (- 32768)), (calm_env 3, OpClaim)] [])) = [''b'']"
  "map jb_id (snd (queue_run (pg_ops netstring_job_codec) [(calm_env 1, OpEnqueue ''a'' ''c'' Manual 0),
      (calm_env 2, OpEnqueue ''b'' ''c'' Manual (- 32768)), (calm_env 3, OpClaim)] [])) = [''a'']"
  by code_simp+

text \<open>
  The two statements of \<open>update_progress\<close> are not one transaction on Postgres: a \<open>finish\<close> that
  commits between them is overwritten in the blob, which then disagrees with the status column, and
  \<open>get\<close> reports the old status.
\<close>

lemma progress_overwrites_finish:
  assumes "pg_ok C rows" and "read_job C e1 ''update_progress select'' i rows = Inr (Some j)"
    and "pg_finish C e2 i st em rows = (rows1, Inr ())" and "jb_status j \<noteq> st"
    and "write_job C e1 ''update_progress'' (j\<lparr>jb_progress := pr\<rparr>) (set_progress_row (j\<lparr>jb_progress := pr\<rparr>)) i rows1 = Inr rows2"
    and "calm e3"
  shows "\<not> pg_ok C rows2 \<and> pg_get C e3 i rows2 = Inr (Some (j\<lparr>jb_progress := pr\<rparr>))"
proof -
  let ?j = "j\<lparr>jb_progress := pr\<rparr>"
  have C: "job_codec_ok C" using assms(1) by (simp add: pg_ok_def table_ok_def)
  have "pg_ok C rows1 \<and> (\<exists>k. table_view C rows i = Some k
      \<and> table_view C rows1 = (table_view C rows)(i \<mapsto> k\<lparr>jb_status := st, jb_error := em, jb_updated_at := ce_now e2\<rparr>))"
    using pg.finish_done [OF assms(1)] assms(3) by (simp add: backend_ops_sel)
  then obtain k where ok1: "table_ok C (\<lambda>r j. jr_priority r = jb_priority j) rows1" and k: "table_view C rows1 i = Some k" "jb_status k = st"
    by (auto simp: pg_ok_def)
  then obtain r where r: "r \<in> set rows1" "jr_id r = i" "jc_from C (jr_data r) = Some k" by (auto simp: table_view_Some)
  obtain blob where b: "serialise C ?j = Inr blob" and rows2: "rows2 = update_rows i (set_progress_row ?j blob) rows1"
    using assms(5) by (auto simp: write_job_def sql_update_def split: sum.splits option.splits)
  have j: "jc_from C blob = Some ?j" using serialise_Inr [OF C b] .
  let ?r = "set_progress_row ?j blob r"
  have r2: "?r \<in> set rows2" using r by (auto simp: rows2)
  have "map jr_id rows2 = map jr_id rows1" by (simp add: rows2)
  moreover have "distinct (map jr_id rows1)" using ok1 by (simp add: table_ok_def)
  ultimately have d2: "distinct (map jr_id rows2)" by metis
  have "jr_status ?r = status_str st" using row_okD(3) [OF ok1 r(1,3)] k(2) by (simp add: set_progress_row_def)
  then have "\<not> row_ok C (\<lambda>r j. jr_priority r = jb_priority j) ?r"
    using assms(4) j by (auto simp: row_ok_def set_progress_row_def)
  then have "\<not> pg_ok C rows2" using r2 by (auto simp: pg_ok_def table_ok_def)
  moreover have "find (\<lambda>r. jr_id r = i) rows2 = Some ?r" using find_row [OF d2] r2 r(2) by simp
  then have "pg_get C e3 i rows2 = Inr (Some ?j)"
    using assms(6) j by (simp add: pg_get_def calm_def read_job_def sql_select_def deserialise_def set_progress_row_def)
  ultimately show ?thesis by blast
qed

end
