(* ===== verification/Jobs_Pg.thy ===== *)
theory Jobs_Pg
  imports Prelude Jobs_Db
begin

text \<open>
  The Postgres job queue under concurrency (\<open>ministr-mcp/src/admin/jobs/postgres.rs\<close>). \<open>claim_next\<close> and
  \<open>reclaim_orphans\<close> are transactions that lock the rows they change with \<open>FOR UPDATE SKIP LOCKED\<close>, and
  \<open>enqueue\<close> is one statement: each is one step. \<open>update_progress\<close> and \<open>finish\<close> are two statements that
  commit on their own, a \<open>SELECT\<close> of the serialized job and an \<open>UPDATE\<close> with the changed one: any steps of
  other clients may come between the two, so they are two steps, and the job a client has read is part of the
  state. Run back to back the two steps are the operations of \<open>Jobs_Db\<close>.
\<close>

section \<open>The two halves of a rewrite\<close>

text \<open>The job a client has read and changed and is about to write: a progress write leaves the status column alone.\<close>

record pg_write =
  pw_id :: string
  pw_job :: queue_job
  pw_finishing :: bool

definition pg_read ::
    "job_codec \<Rightarrow> call_env \<Rightarrow> string \<Rightarrow> string \<Rightarrow> string \<Rightarrow> (queue_job \<Rightarrow> queue_job) \<Rightarrow> pg_row list \<Rightarrow> queue_job job_result" where
  "pg_read C e connecting what job_id change rows =
     (case ce_fault e Connect of
        Some m \<Rightarrow> Inl (backend_error connecting m)
      | None \<Rightarrow>
          (case read_job C e (what @ '' select'') job_id rows of
             Inl er \<Rightarrow> Inl er
           | Inr None \<Rightarrow> Inl (NotFound job_id)
           | Inr (Some job) \<Rightarrow> Inr (change job)))"

definition read_progress :: "job_codec \<Rightarrow> call_env \<Rightarrow> string \<Rightarrow> job_progress \<Rightarrow> pg_row list \<Rightarrow> pg_write job_result" where
  "read_progress C e job_id progress rows =
     map_sum id (\<lambda>job. \<lparr>pw_id = job_id, pw_job = job, pw_finishing = False\<rparr>)
       (pg_read C e ''update_progress conn'' ''update_progress'' job_id
          (\<lambda>job. job\<lparr>jb_progress := progress, jb_updated_at := ce_now e\<rparr>) rows)"

definition read_finish ::
    "job_codec \<Rightarrow> call_env \<Rightarrow> string \<Rightarrow> job_status \<Rightarrow> string option \<Rightarrow> pg_row list \<Rightarrow> pg_write job_result" where
  "read_finish C e job_id status err rows =
     map_sum id (\<lambda>job. \<lparr>pw_id = job_id, pw_job = job, pw_finishing = True\<rparr>)
       (pg_read C e ''finish conn'' ''finish'' job_id
          (\<lambda>job. job\<lparr>jb_status := status, jb_error := err, jb_updated_at := ce_now e\<rparr>) rows)"

definition write_back :: "job_codec \<Rightarrow> call_env \<Rightarrow> pg_write \<Rightarrow> pg_row list \<Rightarrow> pg_row list job_result" where
  "write_back C e w =
     write_job C e (if pw_finishing w then ''finish'' else ''update_progress'') (pw_job w)
       ((if pw_finishing w then set_status_row else set_progress_row) (pw_job w)) (pw_id w)"

section \<open>Interleavings\<close>

text \<open>The table and, for each client, the write it has prepared.\<close>

record pg_world =
  pg_rows :: "pg_row list"
  pg_open :: "nat \<Rightarrow> pg_write option"

datatype pg_step =
    PgEnqueue string string job_trigger "16 word"
  | PgClaim
  | PgReclaim int
  | PgReadProgress nat string job_progress
  | PgReadFinish nat string job_status "string option"
  | PgWrite nat

text \<open>What an observer sees: a job handed to a worker, a job made pending again.\<close>

datatype pg_event = Handed string | Reclaimed string

definition prepare :: "nat \<Rightarrow> pg_write job_result \<Rightarrow> pg_world \<Rightarrow> pg_world" where
  "prepare k r w = (case r of Inl er \<Rightarrow> w | Inr p \<Rightarrow> w\<lparr>pg_open := (pg_open w)(k \<mapsto> p)\<rparr>)"

fun pg_exec :: "job_codec \<Rightarrow> call_env \<times> pg_step \<Rightarrow> pg_world \<Rightarrow> pg_world \<times> pg_event list" where
  "pg_exec C (e, PgEnqueue jid c t p) w = (w\<lparr>pg_rows := fst (pg_enqueue C e jid c t p (pg_rows w))\<rparr>, [])"
| "pg_exec C (e, PgClaim) w =
     (let (rows, r) = pg_claim_next C e (pg_rows w)
      in (w\<lparr>pg_rows := rows\<rparr>, case r of Inr (Some j) \<Rightarrow> [Handed (jb_id j)] | _ \<Rightarrow> []))"
| "pg_exec C (e, PgReclaim timeout) w =
     (let (rows, r) = reclaim_orphans C e timeout (pg_rows w)
      in (w\<lparr>pg_rows := rows\<rparr>,
          case r of Inl er \<Rightarrow> [] | Inr n \<Rightarrow> map (Reclaimed \<circ> jr_id) (filter (is_stale_row e timeout) (pg_rows w))))"
| "pg_exec C (e, PgReadProgress k jid p) w = (prepare k (read_progress C e jid p (pg_rows w)) w, [])"
| "pg_exec C (e, PgReadFinish k jid s em) w = (prepare k (read_finish C e jid s em (pg_rows w)) w, [])"
| "pg_exec C (e, PgWrite k) w =
     (case pg_open w k of
        None \<Rightarrow> (w, [])
      | Some p \<Rightarrow>
          (w\<lparr>pg_rows := (case write_back C e p (pg_rows w) of Inl er \<Rightarrow> pg_rows w | Inr rows \<Rightarrow> rows),
             pg_open := (pg_open w)(k := None)\<rparr>, []))"

fun pg_run :: "job_codec \<Rightarrow> (call_env \<times> pg_step) list \<Rightarrow> pg_world \<Rightarrow> pg_world \<times> pg_event list" where
  "pg_run C [] w = (w, [])"
| "pg_run C (s # ss) w = (let (w1, es) = pg_exec C s w; (w2, es2) = pg_run C ss w1 in (w2, es @ es2))"

definition pg_empty :: pg_world where
  "pg_empty = \<lparr>pg_rows = [], pg_open = (\<lambda>k. None)\<rparr>"

text \<open>As the worker loop does, a job is finished with a terminal status.\<close>

fun step_terminal :: "pg_step \<Rightarrow> bool" where
  "step_terminal (PgReadFinish k jid s em) = is_terminal s"
| "step_terminal s = True"

text \<open>A job is held when it was handed out and not reclaimed since; a history is orderly when no job is
  handed out while it is held.\<close>

definition held :: "string \<Rightarrow> pg_event list \<Rightarrow> bool" where
  "held i evs \<longleftrightarrow> (\<exists>xs ys. evs = xs @ Handed i # ys \<and> Reclaimed i \<notin> set ys)"

definition orderly :: "pg_event list \<Rightarrow> bool" where
  "orderly evs \<longleftrightarrow> (\<forall>xs i ys zs. evs = xs @ Handed i # ys @ Handed i # zs \<longrightarrow> Reclaimed i \<in> set ys)"

text \<open>
  What holds in every interleaving: ids are unique and every blob, stored or about to be written, decodes to the
  job of its row. The status in the blob may be behind the status column.
\<close>

definition blob_ok :: "job_codec \<Rightarrow> pg_row \<Rightarrow> bool" where
  "blob_ok C r \<longleftrightarrow> (case jc_from C (jr_data r) of None \<Rightarrow> False | Some j \<Rightarrow> jb_id j = jr_id r)"

definition row_status :: "pg_row list \<Rightarrow> string \<Rightarrow> string option" where
  "row_status rows i = map_option jr_status (find (\<lambda>r. jr_id r = i) rows)"

definition world_ok :: "job_codec \<Rightarrow> pg_world \<Rightarrow> bool" where
  "world_ok C w \<longleftrightarrow> job_codec_ok C \<and> distinct (map jr_id (pg_rows w)) \<and> (\<forall>r \<in> set (pg_rows w). blob_ok C r)
     \<and> (\<forall>k p. pg_open w k = Some p \<longrightarrow> jb_id (pw_job p) = pw_id p \<and> (pw_finishing p \<longrightarrow> jb_status (pw_job p) \<noteq> Pending))"

text \<open>A held job is not pending.\<close>

definition held_ok :: "pg_world \<Rightarrow> pg_event list \<Rightarrow> bool" where
  "held_ok w evs \<longleftrightarrow> (\<forall>i. held i evs \<longrightarrow> (\<exists>s. row_status (pg_rows w) i = Some s \<and> s \<noteq> ''pending''))"

section \<open>Back to back\<close>

lemma rewrite_in_two_steps:
  "pg_update_progress C e i p rows =
     (case read_progress C e i p rows of
        Inl er \<Rightarrow> (rows, Inl er)
      | Inr w \<Rightarrow> (case write_back C e w rows of Inl er \<Rightarrow> (rows, Inl er) | Inr rows' \<Rightarrow> (rows', Inr ())))"
  "pg_finish C e i s em rows =
     (case read_finish C e i s em rows of
        Inl er \<Rightarrow> (rows, Inl er)
      | Inr w \<Rightarrow> (case write_back C e w rows of Inl er \<Rightarrow> (rows, Inl er) | Inr rows' \<Rightarrow> (rows', Inr ())))"
  by (auto simp: pg_update_progress_def pg_finish_def rewrite_job_def read_progress_def read_finish_def pg_read_def
      write_back_def split: option.splits sum.splits)

section \<open>Histories\<close>

lemma held_Nil [simp]: "\<not> held i []"
  by (simp add: held_def)

lemma held_snoc_iff: "held i (evs @ [ev]) \<longleftrightarrow> ev = Handed i \<or> held i evs \<and> ev \<noteq> Reclaimed i"
proof
  assume "held i (evs @ [ev])"
  then obtain xs ys where e: "evs @ [ev] = xs @ Handed i # ys" "Reclaimed i \<notin> set ys" by (auto simp: held_def)
  then show "ev = Handed i \<or> held i evs \<and> ev \<noteq> Reclaimed i"
    by (cases ys rule: rev_cases) (auto simp: held_def)
next
  assume "ev = Handed i \<or> held i evs \<and> ev \<noteq> Reclaimed i"
  then show "held i (evs @ [ev])"
  proof
    assume "held i evs \<and> ev \<noteq> Reclaimed i"
    then obtain xs ys where "evs = xs @ Handed i # ys" "Reclaimed i \<notin> set ys" "ev \<noteq> Reclaimed i" by (auto simp: held_def)
    then have "evs @ [ev] = xs @ Handed i # (ys @ [ev]) \<and> Reclaimed i \<notin> set (ys @ [ev])" by auto
    then show ?thesis unfolding held_def by blast
  next
    assume "ev = Handed i"
    then have "evs @ [ev] = evs @ Handed i # [] \<and> Reclaimed i \<notin> set []" by simp
    then show ?thesis unfolding held_def by blast
  qed
qed

lemma held_snoc [simp]:
  "held i (evs @ [Handed j]) \<longleftrightarrow> i = j \<or> held i evs"
  "held i (evs @ [Reclaimed j]) \<longleftrightarrow> i \<noteq> j \<and> held i evs"
  by (auto simp: held_snoc_iff)

lemma held_reclaimed: "held i (evs @ map Reclaimed is) \<longleftrightarrow> i \<notin> set is \<and> held i evs"
  by (induction "is" rule: rev_induct) (auto simp flip: append_assoc)

lemma orderly_snoc:
  assumes "orderly evs" and "\<And>i. ev = Handed i \<Longrightarrow> \<not> held i evs"
  shows "orderly (evs @ [ev])"
  unfolding orderly_def
proof (intro allI impI)
  fix xs i ys zs
  assume e: "evs @ [ev] = xs @ Handed i # ys @ Handed i # zs"
  show "Reclaimed i \<in> set ys"
  proof (cases zs rule: rev_cases)
    case Nil
    then have "evs = xs @ Handed i # ys" "ev = Handed i" using e by auto
    then show ?thesis using assms(2) by (auto simp: held_def)
  next
    case (snoc us u)
    then have "evs = xs @ Handed i # ys @ Handed i # us" using e by simp
    then show ?thesis using assms(1) by (auto simp: orderly_def)
  qed
qed

lemma orderly_reclaimed: "orderly evs \<Longrightarrow> orderly (evs @ map Reclaimed is)"
proof (induction "is" rule: rev_induct)
  case (snoc i "is")
  then show ?case using orderly_snoc [of "evs @ map Reclaimed is" "Reclaimed i"] by simp
qed simp

section \<open>Steps\<close>

lemma row_status_append:
  assumes "jr_id r \<notin> jr_id ` set rows"
  shows "row_status (rows @ [r]) = (row_status rows)(jr_id r \<mapsto> jr_status r)"
proof
  fix i
  show "row_status (rows @ [r]) i = ((row_status rows)(jr_id r \<mapsto> jr_status r)) i"
    using assms by (induction rows) (auto simp: row_status_def)
qed

lemma row_status_update:
  assumes "\<And>r. jr_id (f r) = jr_id r"
  shows "row_status (update_rows i f rows) j =
    (if j = i then map_option (jr_status \<circ> f) (find (\<lambda>r. jr_id r = i) rows) else row_status rows j)"
  by (induction rows) (use assms in \<open>auto simp: row_status_def comp_def\<close>)

lemma write_job_rows:
  assumes "job_codec_ok C" and "write_job C e what job f i rows = Inr rows'"
  obtains blob where "jc_from C blob = Some job" and "rows' = update_rows i (f blob) rows"
  using assms serialise_Inr [OF assms(1)] by (auto simp: write_job_def sql_update_def split: sum.splits option.splits)

lemma update_blobs_ok:
  assumes "\<forall>r \<in> set rows. blob_ok C r" and "jc_from C blob = Some job" and "jb_id job = i"
    and "\<And>r. jr_id (f r) = jr_id r \<and> jr_data (f r) = blob"
  shows "\<forall>r \<in> set (update_rows i f rows). blob_ok C r"
  using assms by (auto simp: blob_ok_def)

lemma map_ids_update: "(\<And>r. jr_id (f r) = jr_id r) \<Longrightarrow> map jr_id (update_rows i f rows) = map jr_id rows"
  by simp

lemmas row_setters = set_status_row_def set_progress_row_def set_claimed_row_def set_reclaimed_row_def

lemma enqueue_step:
  assumes "world_ok C w" and "pg_enqueue C e jid c t p (pg_rows w) = (rows, r)"
  shows "world_ok C (w\<lparr>pg_rows := rows\<rparr>) \<and>
    (rows = pg_rows w \<or> (row_status (pg_rows w) jid = None \<and> row_status rows = (row_status (pg_rows w))(jid \<mapsto> ''pending'')))"
proof (cases "rows = pg_rows w")
  case False
  have C: "job_codec_ok C" using assms(1) by (simp add: world_ok_def)
  let ?j = "new_job (ce_now e) jid c t p"
  obtain blob where b: "serialise C ?j = Inr blob" "jid \<notin> jr_id ` set (pg_rows w)"
    "rows = pg_rows w @ [\<lparr>jr_id = jb_id ?j, jr_corpus_id = jb_corpus_id ?j, jr_status = status_str (jb_status ?j),
       jr_created_at = cast_signed (jb_created_at ?j), jr_updated_at = cast_signed (jb_updated_at ?j), jr_data = blob,
       jr_priority = jb_priority ?j, jr_claimed_at = None\<rparr>]" (is "_ = _ @ [?row]")
    using assms(2) False
    by (auto simp: pg_enqueue_def Let_def sql_insert_def new_job_def split: sum.splits option.splits if_splits)
  have row: "jr_id ?row = jid" "jr_status ?row = ''pending''" by (simp_all add: new_job_def)
  have "blob_ok C ?row" using serialise_Inr [OF C b(1)] by (simp add: blob_ok_def)
  moreover have "row_status (pg_rows w) jid = None" using b(2) by (simp add: row_status_def find_row_None)
  moreover have "row_status rows = (row_status (pg_rows w))(jid \<mapsto> ''pending'')"
    unfolding b(3) using b(2) row by (subst row_status_append) simp_all
  moreover have "distinct (map jr_id rows)" using assms(1) b(2) row unfolding b(3) by (simp add: world_ok_def)
  ultimately show ?thesis using assms(1) unfolding b(3) by (auto simp: world_ok_def)
qed (use assms in simp)

lemma claim_step:
  assumes "world_ok C w" and "pg_claim_next C e (pg_rows w) = (rows, r)"
  shows "world_ok C (w\<lparr>pg_rows := rows\<rparr>) \<and>
    (case r of
       Inr (Some j) \<Rightarrow> row_status (pg_rows w) (jb_id j) = Some ''pending''
         \<and> row_status rows = (row_status (pg_rows w))(jb_id j \<mapsto> ''running'')
     | _ \<Rightarrow> rows = pg_rows w)"
proof (cases "\<exists>j. r = Inr (Some j)")
  case False
  then have "rows = pg_rows w"
    using assms(2) by (auto simp: pg_claim_next_def Let_def split: option.splits sum.splits)
  then show ?thesis using False assms(1) by (auto split: sum.splits option.splits)
next
  case True
  then obtain j where r: "r = Inr (Some j)" by blast
  have C: "job_codec_ok C" and d: "distinct (map jr_id (pg_rows w))" and blobs: "\<forall>r \<in> set (pg_rows w). blob_ok C r"
    using assms(1) by (simp_all add: world_ok_def)
  obtain x j0 where x: "min_by (\<lambda>a b. pg_claim_key b < pg_claim_key a)
        (filter (\<lambda>r. jr_status r = ''pending'' \<and> jr_id r \<notin> set (ce_locked e)) (pg_rows w)) = Some x"
      "jc_from C (jr_data x) = Some j0" "j = j0\<lparr>jb_status := Running, jb_updated_at := ce_now e\<rparr>"
      "write_job C e ''claim update'' j (set_claimed_row (ce_server_now e) j) (jr_id x) (pg_rows w) = Inr rows"
    using assms(2) r by (auto simp: pg_claim_next_def Let_def deserialise_def split: option.splits sum.splits)
  from x(1) have mem: "x \<in> set (pg_rows w)" "jr_status x = ''pending''" using min_by_mem by force+
  have id: "jb_id j = jr_id x" using blobs mem(1) x(2,3) by (auto simp: blob_ok_def)
  obtain blob where b: "jc_from C blob = Some j" "rows = update_rows (jr_id x) (set_claimed_row (ce_server_now e) j blob) (pg_rows w)"
    using write_job_rows [OF C x(4)] .
  have "\<forall>r \<in> set rows. blob_ok C r"
    unfolding b(2) by (rule update_blobs_ok [OF blobs b(1) id]) (simp add: row_setters)
  moreover have "map jr_id rows = map jr_id (pg_rows w)" unfolding b(2) by (rule map_ids_update) (simp add: row_setters)
  ultimately have "world_ok C (w\<lparr>pg_rows := rows\<rparr>)" using assms(1) by (simp add: world_ok_def)
  moreover have find: "find (\<lambda>r. jr_id r = jr_id x) (pg_rows w) = Some x" using mem d by (simp add: find_row)
  then have "row_status rows = (row_status (pg_rows w))(jr_id x \<mapsto> ''running'')"
    unfolding b(2) using row_status_update [of "set_claimed_row (ce_server_now e) j blob" "jr_id x" "pg_rows w"]
    by (auto simp: fun_eq_iff row_setters x(3))
  moreover have "row_status (pg_rows w) (jr_id x) = Some ''pending''" by (simp add: row_status_def find mem)
  ultimately show ?thesis by (simp add: r id)
qed

lemma reclaim_loop_step:
  assumes "job_codec_ok C" and "distinct (map jr_id cur)" and "\<forall>r \<in> set cur. blob_ok C r" and "\<forall>r \<in> set stale. blob_ok C r"
    and "reclaim_loop C e stale n cur = Inr (rows, m)"
  shows "distinct (map jr_id rows) \<and> (\<forall>r \<in> set rows. blob_ok C r) \<and>
    (\<forall>i. i \<notin> jr_id ` set stale \<longrightarrow> row_status rows i = row_status cur i)"
  using assms
proof (induction stale arbitrary: n cur)
  case (Cons r stale)
  obtain j0 where j0: "jc_from C (jr_data r) = Some j0" "jb_id j0 = jr_id r"
    using Cons.prems(4) by (auto simp: blob_ok_def split: option.splits)
  let ?j = "j0\<lparr>jb_status := Pending, jb_updated_at := ce_now e\<rparr>"
  obtain cur' where w: "write_job C e ''reclaim update'' ?j (set_reclaimed_row ?j) (jr_id r) cur = Inr cur'"
    and rest: "reclaim_loop C e stale (n + 1) cur' = Inr (rows, m)"
    using Cons.prems(5) by (auto simp: deserialise_def j0 Let_def split: sum.splits)
  obtain blob where b: "jc_from C blob = Some ?j" "cur' = update_rows (jr_id r) (set_reclaimed_row ?j blob) cur"
    using write_job_rows [OF assms(1) w] .
  have "\<forall>r \<in> set cur'. blob_ok C r"
    unfolding b(2) by (rule update_blobs_ok [OF Cons.prems(3) b(1)]) (simp_all add: row_setters j0)
  moreover have "map jr_id cur' = map jr_id cur" unfolding b(2) by (rule map_ids_update) (simp add: row_setters)
  moreover have "row_status cur' i = row_status cur i" if "i \<noteq> jr_id r" for i
    unfolding b(2) using that by (subst row_status_update) (simp_all add: row_setters)
  ultimately show ?case using Cons.IH [OF assms(1) _ _ _ rest] Cons.prems by auto
qed simp

lemma reclaim_step:
  assumes "world_ok C w" and "reclaim_orphans C e timeout (pg_rows w) = (rows, r)"
  shows "world_ok C (w\<lparr>pg_rows := rows\<rparr>) \<and>
    (case r of Inl er \<Rightarrow> rows = pg_rows w
     | Inr n \<Rightarrow> (\<forall>i. i \<notin> jr_id ` set (filter (is_stale_row e timeout) (pg_rows w)) \<longrightarrow> row_status rows i = row_status (pg_rows w) i))"
proof (cases r)
  case (Inl er)
  then have "rows = pg_rows w"
    using assms(2) by (auto simp: reclaim_orphans_def split: option.splits sum.splits)
  then show ?thesis using Inl assms(1) by simp
next
  case (Inr n)
  then have "\<exists>m. reclaim_loop C e (filter (is_stale_row e timeout) (pg_rows w)) 0 (pg_rows w) = Inr (rows, m)"
    using assms(2) by (auto simp: reclaim_orphans_def split: option.splits sum.splits)
  then show ?thesis using reclaim_loop_step [of C "pg_rows w" "filter (is_stale_row e timeout) (pg_rows w)" e 0 rows] assms(1) Inr
    by (auto simp: world_ok_def)
qed

lemma read_step:
  assumes "world_ok C w"
  shows "world_ok C (prepare k (read_progress C e jid p (pg_rows w)) w)"
    and "s \<noteq> Pending \<Longrightarrow> world_ok C (prepare k (read_finish C e jid s em (pg_rows w)) w)"
proof -
  have ids: "jb_id j = i" if "find (\<lambda>r. jr_id r = i) (pg_rows w) = Some r" "jc_from C (jr_data r) = Some j" for i r j
    using that assms find_row [of "pg_rows w" i r] by (auto simp: world_ok_def blob_ok_def)
  have keep: "world_ok C (prepare k r w)"
    if "\<And>q. r = Inr q \<Longrightarrow> jb_id (pw_job q) = pw_id q \<and> (pw_finishing q \<longrightarrow> jb_status (pw_job q) \<noteq> Pending)" for r
    using that assms by (cases r) (auto simp: prepare_def world_ok_def)
  show "world_ok C (prepare k (read_progress C e jid p (pg_rows w)) w)" using ids
    by (intro keep) (auto simp: read_progress_def pg_read_def read_job_def sql_select_def deserialise_def map_sum_def id_def
        split: option.splits sum.splits)
  show "world_ok C (prepare k (read_finish C e jid s em (pg_rows w)) w)" if "s \<noteq> Pending" using ids that
    by (intro keep) (auto simp: read_finish_def pg_read_def read_job_def sql_select_def deserialise_def map_sum_def id_def
        split: option.splits sum.splits)
qed

lemma prepare_rows [simp]: "pg_rows (prepare k r w) = pg_rows w"
  by (simp add: prepare_def split: sum.split)

lemma write_step:
  assumes "world_ok C w" and "pg_open w k = Some p" and "write_back C e p (pg_rows w) = Inr rows"
  shows "world_ok C (w\<lparr>pg_rows := rows, pg_open := (pg_open w)(k := None)\<rparr>)"
    and "row_status (pg_rows w) i = Some s \<Longrightarrow> s \<noteq> ''pending'' \<Longrightarrow> \<exists>s'. row_status rows i = Some s' \<and> s' \<noteq> ''pending''"
proof -
  have C: "job_codec_ok C" and blobs: "\<forall>r \<in> set (pg_rows w). blob_ok C r"
    and p: "jb_id (pw_job p) = pw_id p" "pw_finishing p \<longrightarrow> jb_status (pw_job p) \<noteq> Pending"
    using assms(1,2) by (auto simp: world_ok_def)
  let ?f = "(if pw_finishing p then set_status_row else set_progress_row) (pw_job p)"
  obtain blob where b: "jc_from C blob = Some (pw_job p)" "rows = update_rows (pw_id p) (?f blob) (pg_rows w)"
    using write_job_rows [OF C assms(3) [unfolded write_back_def]] .
  have "\<forall>r \<in> set rows. blob_ok C r"
    unfolding b(2) by (rule update_blobs_ok [OF blobs b(1) p(1)]) (simp add: row_setters)
  moreover have "map jr_id rows = map jr_id (pg_rows w)" unfolding b(2) by (rule map_ids_update) (simp add: row_setters)
  ultimately show "world_ok C (w\<lparr>pg_rows := rows, pg_open := (pg_open w)(k := None)\<rparr>)" using assms(1) by (auto simp: world_ok_def)
  assume "row_status (pg_rows w) i = Some s" "s \<noteq> ''pending''"
  then show "\<exists>s'. row_status rows i = Some s' \<and> s' \<noteq> ''pending''"
    unfolding b(2) using p(2)
    by (subst row_status_update) (auto simp: row_setters row_status_def status_str_pending)
qed

lemma pg_exec_step:
  assumes "world_ok C w" and "held_ok w evs" and "orderly evs" and "step_terminal (snd s)" and "pg_exec C s w = (w', es)"
  shows "world_ok C w' \<and> held_ok w' (evs @ es) \<and> orderly (evs @ es)"
proof -
  obtain e st where s: "s = (e, st)" by (cases s)
  show ?thesis
  proof (cases st)
    case (PgEnqueue jid c t p)
    obtain rows r where run: "pg_enqueue C e jid c t p (pg_rows w) = (rows, r)" by (cases "pg_enqueue C e jid c t p (pg_rows w)")
    have "held_ok (w\<lparr>pg_rows := rows\<rparr>) evs"
      using enqueue_step [OF assms(1) run] assms(2) by (fastforce simp: held_ok_def)
    then show ?thesis using enqueue_step [OF assms(1) run] assms by (auto simp: s PgEnqueue run)
  next
    case PgClaim
    obtain rows r where run: "pg_claim_next C e (pg_rows w) = (rows, r)" by (cases "pg_claim_next C e (pg_rows w)")
    note step = claim_step [OF assms(1) run]
    show ?thesis
    proof (cases "\<exists>j. r = Inr (Some j)")
      case False
      then have "w' = w\<lparr>pg_rows := rows\<rparr>" "es = []" "rows = pg_rows w"
        using assms(5) step by (auto simp: s PgClaim run split: sum.splits option.splits)
      then show ?thesis using assms(1-3) by simp
    next
      case True
      then obtain j where j: "r = Inr (Some j)" by blast
      then have w': "w' = w\<lparr>pg_rows := rows\<rparr>" "es = [Handed (jb_id j)]" using assms(5) by (simp_all add: s PgClaim run)
      have "\<not> held (jb_id j) evs" using assms(2) step by (auto simp: j held_ok_def)
      then have "orderly (evs @ es)" unfolding w' by (intro orderly_snoc assms(3)) simp
      moreover have "held_ok w' (evs @ es)" using assms(2) step by (auto simp: j w' held_ok_def)
      ultimately show ?thesis using step w' by blast
    qed
  next
    case (PgReclaim timeout)
    obtain rows r where run: "reclaim_orphans C e timeout (pg_rows w) = (rows, r)" by (cases "reclaim_orphans C e timeout (pg_rows w)")
    note step = reclaim_step [OF assms(1) run]
    show ?thesis
    proof (cases r)
      case (Inl er)
      then show ?thesis using assms step by (auto simp: s PgReclaim run)
    next
      case (Inr n)
      define ids where "ids = map jr_id (filter (is_stale_row e timeout) (pg_rows w))"
      have w': "w' = w\<lparr>pg_rows := rows\<rparr>" "es = map Reclaimed ids"
        using assms(5) Inr by (auto simp: s PgReclaim run ids_def)
      have "row_status rows i = row_status (pg_rows w) i" if "i \<notin> set ids" for i
        using step that by (simp add: Inr ids_def)
      then have "held_ok w' (evs @ es)" using assms(2) by (auto simp: w' held_ok_def held_reclaimed)
      then show ?thesis using step assms(3) by (simp add: w' orderly_reclaimed)
    qed
  next
    case (PgReadProgress k jid p)
    then show ?thesis using assms read_step(1) [OF assms(1)] by (auto simp: s held_ok_def)
  next
    case (PgReadFinish k jid f em)
    moreover have "f \<noteq> Pending" using assms(4) by (auto simp: s PgReadFinish)
    ultimately show ?thesis using assms read_step(2) [OF assms(1)] by (auto simp: s held_ok_def)
  next
    case (PgWrite k)
    show ?thesis
    proof (cases "pg_open w k")
      case (Some p)
      show ?thesis
      proof (cases "write_back C e p (pg_rows w)")
        case (Inl er)
        then have "w' = w\<lparr>pg_open := (pg_open w)(k := None)\<rparr>" "es = []" using assms(5) by (auto simp: s PgWrite Some)
        then show ?thesis using assms(1-3) by (auto simp: world_ok_def held_ok_def)
      next
        case (Inr rows)
        then have w': "w' = w\<lparr>pg_rows := rows, pg_open := (pg_open w)(k := None)\<rparr>" "es = []"
          using assms(5) by (auto simp: s PgWrite Some)
        show ?thesis using write_step [OF assms(1) Some Inr] assms(2,3) unfolding w' held_ok_def by fastforce
      qed
    qed (use assms in \<open>simp add: s PgWrite\<close>)
  qed
qed

lemma pg_run_steps:
  assumes "world_ok C w" and "held_ok w evs" and "orderly evs" and "\<forall>s \<in> set ss. step_terminal (snd s)" and "pg_run C ss w = (w', es)"
  shows "world_ok C w' \<and> held_ok w' (evs @ es) \<and> orderly (evs @ es)"
  using assms
proof (induction ss arbitrary: w evs es)
  case (Cons s ss)
  obtain w1 es1 es2 where run: "pg_exec C s w = (w1, es1)" "pg_run C ss w1 = (w', es2)" "es = es1 @ es2"
    using Cons.prems(5) by (auto split: prod.splits)
  have "world_ok C w1 \<and> held_ok w1 (evs @ es1) \<and> orderly (evs @ es1)"
    using Cons.prems by (intro pg_exec_step [OF _ _ _ _ run(1)]) simp_all
  then have "world_ok C w' \<and> held_ok w' ((evs @ es1) @ es2) \<and> orderly ((evs @ es1) @ es2)"
    using Cons.prems(4) by (intro Cons.IH [OF _ _ _ _ run(2)]) simp_all
  then show ?case by (simp add: run(3))
qed simp

section \<open>Properties\<close>

text \<open>
  C3. On Postgres, in every interleaving of any number of clients and workers over an initially empty queue, with
  the statements of \<open>update_progress\<close> and \<open>finish\<close> separate, whichever statements fail and including the sweeps of
  \<open>reclaim_orphans\<close>: if jobs are only finished with a terminal status and the serializer round-trips, a job that is
  handed out twice was made pending by a sweep in between; and a job handed out and not reclaimed since has a
  row whose status column is not pending.
\<close>

theorem postgres_claims_once:
  assumes "job_codec_ok C" and "\<forall>s \<in> set ss. step_terminal (snd s)" and "pg_run C ss pg_empty = (w, evs)"
  shows "(\<forall>xs i ys zs. evs = xs @ Handed i # ys @ Handed i # zs \<longrightarrow> Reclaimed i \<in> set ys)
    \<and> (\<forall>xs i ys. evs = xs @ Handed i # ys \<and> Reclaimed i \<notin> set ys \<longrightarrow>
         (\<exists>r \<in> set (pg_rows w). jr_id r = i \<and> jr_status r \<noteq> ''pending''))"
proof -
  have "world_ok C pg_empty" "held_ok pg_empty []" "orderly []"
    using assms(1) by (simp_all add: world_ok_def pg_empty_def held_ok_def orderly_def)
  from pg_run_steps [OF this assms(2,3)] have ok: "world_ok C w" "held_ok w evs" "orderly evs" by simp_all
  have "\<exists>r \<in> set (pg_rows w). jr_id r = i \<and> jr_status r \<noteq> ''pending''" if "held i evs" for i
    using ok(1,2) that find_row [of "pg_rows w" i] by (fastforce simp: held_ok_def row_status_def world_ok_def)
  then show ?thesis using ok(3) unfolding orderly_def held_def by blast
qed

text \<open>A job whose worker is thought dead: its late progress report is written after the job was reclaimed and
  handed to another worker.\<close>

definition late_env :: "nat \<Rightarrow> call_env" where
  "late_env now = (calm_env now)\<lparr>ce_server_now := int now * 1000000\<rparr>"

definition late_steps :: "(call_env \<times> pg_step) list" where
  "late_steps =
     [(late_env 1, PgEnqueue ''a'' ''c'' Manual 0), (late_env 2, PgClaim),
      (late_env 3, PgReadProgress 0 ''a'' \<lparr>jp_stage = ''parse'', jp_total_files = 2, jp_processed_files = 1, jp_current_file = None, jp_sections_done = 0, jp_embeddings_total = 0, jp_embeddings_done = 0\<rparr>),
      (late_env 9, PgReclaim 5), (late_env 10, PgClaim), (late_env 11, PgWrite 0), (late_env 12, PgClaim)]"

lemma postgres_claims_once_witness:
  "\<exists>w. pg_run netstring_job_codec late_steps pg_empty = (w, [Handed ''a'', Reclaimed ''a'', Handed ''a'']) \<and>
     (\<exists>r \<in> set (pg_rows w). jr_id r = ''a'' \<and> jr_status r \<noteq> ''pending'')"
proof -
  obtain w evs where run: "pg_run netstring_job_codec late_steps pg_empty = (w, evs)" by (cases "pg_run netstring_job_codec late_steps pg_empty")
  have "snd (pg_run netstring_job_codec late_steps pg_empty) = [Handed ''a'', Reclaimed ''a'', Handed ''a'']" by code_simp
  then have evs: "evs = [Handed ''a'', Reclaimed ''a''] @ Handed ''a'' # []" using run by simp
  have "\<forall>s \<in> set late_steps. step_terminal (snd s)" by (simp add: late_steps_def)
  from postgres_claims_once [OF netstring_job_codec_ok this run] show ?thesis
    using run evs by (metis append_Cons append_Nil empty_iff empty_set)
qed

end
