(* ===== verification/Prefetch.thy ===== *)
theory Prefetch
  imports Prelude Float_Model Identity Memory Database
begin

text \<open>
  The prefetch engine, \<open>ministr-core/src/session/prefetch/mod.rs\<close>, and its priority cache,
  \<open>prefetch/priority.rs\<close>: entries warmed by a strategy, scored by confidence, recency and
  frequency, evicted lowest score first, and served to a later read. The eight counters a metric
  has per strategy, and the eight weights, are functions of the strategy. \<open>powf\<close> and \<open>log2\<close>
  are arguments (\<open>prefetch_math\<close>, with the order in which the hash map of entries is iterated), and so is the
  tokenizer, whose encoder is a third-party package.
\<close>

section \<open>Entries and metrics\<close>

datatype prefetch_strategy =
    Sequential | Topical | Structural | CrossSession | SurveyExpand | AgentPlan | SymbolSearch | ReferenceFollow

record prefetch_math = libm +
  m_log2 :: "f64 \<Rightarrow> f64"
  m_powf32 :: "f32 \<Rightarrow> f32 \<Rightarrow> f32"
  m_slot :: "string list \<Rightarrow> string \<Rightarrow> nat"

record cache_entry =
  pe_content_id :: string
  pe_text :: string
  pe_token_count :: nat
  pe_heading_path :: "string list option"
  pe_summary :: "string option"
  pe_resolution :: resolution
  pe_claims_available :: nat
  pe_strategy :: prefetch_strategy

record prefetch_metrics =
  pm_hits :: nat
  pm_misses :: nat
  pm_strategy_hits :: "prefetch_strategy \<Rightarrow> nat"
  pm_prefetches_issued :: nat
  pm_prefetches_never_consumed :: nat
  pm_tokens_saved :: nat
  pm_bytes_saved :: nat
  pm_latency_saved_ms :: nat
  pm_strategy_issued :: "prefetch_strategy \<Rightarrow> nat"

definition prefetch_metrics_default :: prefetch_metrics where
  "prefetch_metrics_default =
     \<lparr>pm_hits = 0, pm_misses = 0, pm_strategy_hits = (\<lambda>s. 0), pm_prefetches_issued = 0,
      pm_prefetches_never_consumed = 0, pm_tokens_saved = 0, pm_bytes_saved = 0,
      pm_latency_saved_ms = 0, pm_strategy_issued = (\<lambda>s. 0)\<rparr>"

definition hit_rate :: "prefetch_metrics \<Rightarrow> f64" where
  "hit_rate m =
     (let total = add_u64 (pm_hits m) (pm_misses m)
      in if total = 0 then 0 else fdiv (f64_of_nat (pm_hits m)) (f64_of_nat total))"

definition strategy_hit_rate :: "prefetch_strategy \<Rightarrow> prefetch_metrics \<Rightarrow> f64" where
  "strategy_hit_rate strategy m =
     (let total = add_u64 (pm_hits m) (pm_misses m)
      in if total = 0 then 0 else fdiv (f64_of_nat (pm_strategy_hits m strategy)) (f64_of_nat total))"

definition waste_rate :: "prefetch_metrics \<Rightarrow> f64" where
  "waste_rate m =
     (if pm_prefetches_issued m = 0 then 0
      else fdiv (f64_of_nat (pm_prefetches_never_consumed m)) (f64_of_nat (pm_prefetches_issued m)))"

section \<open>The priority cache\<close>

type_synonym strategy_weights = "prefetch_strategy \<Rightarrow> f32"

fun default_weights :: strategy_weights where
  "default_weights Sequential = 1"
| "default_weights Structural = rnd32 (8 / 10)"
| "default_weights Topical = rnd32 (7 / 10)"
| "default_weights CrossSession = rnd32 (6 / 10)"
| "default_weights SurveyExpand = rnd32 (9 / 10)"
| "default_weights AgentPlan = rnd32 (5 / 10)"
| "default_weights SymbolSearch = 1"
| "default_weights ReferenceFollow = rnd32 (95 / 100)"

record priority_cache_entry =
  pce_entry :: cache_entry
  pce_priority :: f64
  pce_insert_turn :: nat
  pce_access_count :: nat
  pce_confidence :: f32

record priority_cache =
  pc_entries :: "(string \<times> priority_cache_entry) list"
  pc_capacity :: nat
  pc_metrics :: prefetch_metrics
  pc_current_turn :: nat
  pc_weights :: strategy_weights

definition RECENCY_DECAY :: f64 where
  "RECENCY_DECAY = rnd64 (95 / 100)"

definition compute_priority ::
    "prefetch_math \<Rightarrow> strategy_weights \<Rightarrow> nat \<Rightarrow> f32 \<Rightarrow> prefetch_strategy \<Rightarrow> nat \<Rightarrow> nat \<Rightarrow> f64" where
  "compute_priority L weights current_turn confidence strategy insert_turn access_count =
     (let weight = weights strategy;
          turns_since = f64_of_nat (current_turn - insert_turn);
          recency = m_powf L RECENCY_DECAY turns_since;
          frequency = fadd 1 (m_log2 L (fadd 1 (f64_of_nat access_count)))
      in fmul (fmul (fmul confidence weight) recency) frequency)"

definition cache_with_weights :: "nat \<Rightarrow> strategy_weights \<Rightarrow> priority_cache" where
  "cache_with_weights capacity weights =
     \<lparr>pc_entries = [], pc_capacity = capacity, pc_metrics = prefetch_metrics_default,
      pc_current_turn = 0, pc_weights = weights\<rparr>"

definition cache_new :: "nat \<Rightarrow> priority_cache" where
  "cache_new capacity = cache_with_weights capacity default_weights"

definition cache_advance_turn :: "priority_cache \<Rightarrow> priority_cache" where
  "cache_advance_turn c = c\<lparr>pc_current_turn := add_u32 (pc_current_turn c) 1\<rparr>"

definition section_key :: "json_codec \<Rightarrow> string \<Rightarrow> string" where
  "section_key J key = storage_key J (di_new PRIMARY_CORPUS_ID key ''section_full'')"

definition actual_get_key :: "json_codec \<Rightarrow> string \<Rightarrow> priority_cache \<Rightarrow> string" where
  "actual_get_key J key c =
     (if map_of (pc_entries c) key \<noteq> None then key
      else
        (let structured = from_storage_key J key ''section_full''
         in if storage_key J structured = key then
              (if di_corpus_id structured = PRIMARY_CORPUS_ID then di_content_id structured else key)
            else section_key J key))"

definition count_hit :: "priority_cache_entry \<Rightarrow> prefetch_metrics \<Rightarrow> prefetch_metrics" where
  "count_hit e m =
     (let s = pe_strategy (pce_entry e)
      in m\<lparr>pm_hits := add_u64 (pm_hits m) 1,
           pm_tokens_saved := add_u64 (pm_tokens_saved m) (pe_token_count (pce_entry e)),
           pm_bytes_saved := add_u64 (pm_bytes_saved m) (length (pe_text (pce_entry e))),
           pm_latency_saved_ms := add_u64 (pm_latency_saved_ms m) 50,
           pm_strategy_hits := (pm_strategy_hits m)(s := add_u64 (pm_strategy_hits m s) 1)\<rparr>)"

definition cache_get :: "prefetch_math \<Rightarrow> json_codec \<Rightarrow> string \<Rightarrow> priority_cache \<Rightarrow> priority_cache \<times> cache_entry option" where
  "cache_get L J key c =
     (let actual_key = actual_get_key J key c in
      case map_of (pc_entries c) actual_key of
        Some e \<Rightarrow>
          (let n = add_u32 (pce_access_count e) 1;
               e' = e\<lparr>pce_access_count := n,
                      pce_priority := compute_priority L (pc_weights c) (pc_current_turn c) (pce_confidence e)
                        (pe_strategy (pce_entry e)) (pce_insert_turn e) n\<rparr>
           in (c\<lparr>pc_metrics := count_hit e (pc_metrics c), pc_entries := AList.update actual_key e' (pc_entries c)\<rparr>,
               Some (pce_entry e)))
      | None \<Rightarrow>
          (c\<lparr>pc_metrics := (pc_metrics c)\<lparr>pm_misses := add_u64 (pm_misses (pc_metrics c)) 1\<rparr>\<rparr>, None))"

definition cache_peek :: "json_codec \<Rightarrow> string \<Rightarrow> priority_cache \<Rightarrow> cache_entry option" where
  "cache_peek J key c =
     map_option pce_entry
       (case map_of (pc_entries c) key of
          Some e \<Rightarrow> Some e
        | None \<Rightarrow> map_of (pc_entries c) (section_key J key))"

definition actual_remove_key :: "json_codec \<Rightarrow> string \<Rightarrow> priority_cache \<Rightarrow> string" where
  "actual_remove_key J key c = (if map_of (pc_entries c) key \<noteq> None then key else section_key J key)"

definition cache_remove :: "json_codec \<Rightarrow> string \<Rightarrow> priority_cache \<Rightarrow> priority_cache \<times> cache_entry option" where
  "cache_remove J key c =
     (let actual_key = actual_remove_key J key c in
      case map_of (pc_entries c) actual_key of
        None \<Rightarrow> (c, None)
      | Some e \<Rightarrow>
          (let m = pc_metrics c
           in (c\<lparr>pc_entries := AList.delete actual_key (pc_entries c),
                 pc_metrics :=
                   (if pce_access_count e = 0
                    then m\<lparr>pm_prefetches_never_consumed := add_u64 (pm_prefetches_never_consumed m) 1\<rparr>
                    else m)\<rparr>,
               Some (pce_entry e))))"

text \<open>The priority an entry has now, as eviction recomputes it.\<close>

definition priority_now :: "prefetch_math \<Rightarrow> priority_cache \<Rightarrow> priority_cache_entry \<Rightarrow> f64" where
  "priority_now L c e =
     compute_priority L (pc_weights c) (pc_current_turn c) (pce_confidence e)
       (pe_strategy (pce_entry e)) (pce_insert_turn e) (pce_access_count e)"

text \<open>The hash map of entries is iterated in the order of the slots of its keys, which decides among entries of the same priority.\<close>

definition lowest_priority_key :: "prefetch_math \<Rightarrow> priority_cache \<Rightarrow> string option" where
  "lowest_priority_key L c =
     map_option fst (min_by (\<lambda>a b. priority_now L c (snd b) < priority_now L c (snd a))
       (sort_key (\<lambda>p. m_slot L (map fst (pc_entries c)) (fst p)) (pc_entries c)))"

definition evict_lowest :: "prefetch_math \<Rightarrow> json_codec \<Rightarrow> priority_cache \<Rightarrow> priority_cache" where
  "evict_lowest L J c =
     (case lowest_priority_key L c of None \<Rightarrow> c | Some key \<Rightarrow> fst (cache_remove J key c))"

definition count_issued :: "prefetch_strategy \<Rightarrow> prefetch_metrics \<Rightarrow> prefetch_metrics" where
  "count_issued s m =
     m\<lparr>pm_prefetches_issued := add_u64 (pm_prefetches_issued m) 1,
       pm_strategy_issued := (pm_strategy_issued m)(s := add_u64 (pm_strategy_issued m s) 1)\<rparr>"

definition cache_insert ::
    "prefetch_math \<Rightarrow> json_codec \<Rightarrow> string \<Rightarrow> cache_entry \<Rightarrow> f32 \<Rightarrow> priority_cache \<Rightarrow> priority_cache" where
  "cache_insert L J key entry confidence c =
     (if pc_capacity c = 0 then c
      else
        (case map_of (pc_entries c) key of
           Some existing \<Rightarrow>
             c\<lparr>pc_entries := AList.update key
                 (existing\<lparr>pce_entry := entry, pce_confidence := confidence,
                    pce_priority := compute_priority L (pc_weights c) (pc_current_turn c) confidence
                      (pe_strategy entry) (pce_insert_turn existing) (pce_access_count existing)\<rparr>)
                 (pc_entries c)\<rparr>
         | None \<Rightarrow>
             (let c1 = (if pc_capacity c \<le> length (pc_entries c) then evict_lowest L J c else c)
              in c1\<lparr>pc_entries := AList.update key
                      \<lparr>pce_entry = entry,
                       pce_priority = compute_priority L (pc_weights c1) (pc_current_turn c1) confidence
                         (pe_strategy entry) (pc_current_turn c1) 0,
                       pce_insert_turn = pc_current_turn c1, pce_access_count = 0,
                       pce_confidence = confidence\<rparr>
                      (pc_entries c1),
                    pc_metrics := count_issued (pe_strategy entry) (pc_metrics c1)\<rparr>)))"

definition insert_default :: "prefetch_math \<Rightarrow> json_codec \<Rightarrow> string \<Rightarrow> cache_entry \<Rightarrow> priority_cache \<Rightarrow> priority_cache" where
  "insert_default L J key entry c = cache_insert L J key entry 1 c"

definition cache_invalidate :: "json_codec \<Rightarrow> string list \<Rightarrow> priority_cache \<Rightarrow> priority_cache" where
  "cache_invalidate J stale_ids c = fold (\<lambda>i c. fst (cache_remove J i c)) stale_ids c"

definition cache_clear :: "priority_cache \<Rightarrow> priority_cache" where
  "cache_clear c =
     (let m = pc_metrics c;
          n = length (filter (\<lambda>e. pce_access_count e = 0) (map snd (pc_entries c)))
      in c\<lparr>pc_metrics := m\<lparr>pm_prefetches_never_consumed := add_u64 (pm_prefetches_never_consumed m) n\<rparr>,
           pc_entries := []\<rparr>)"

definition cache_record_miss :: "priority_cache \<Rightarrow> priority_cache" where
  "cache_record_miss c =
     c\<lparr>pc_metrics := (pc_metrics c)\<lparr>pm_misses := add_u64 (pm_misses (pc_metrics c)) 1\<rparr>\<rparr>"

definition cache_reset_metrics :: "priority_cache \<Rightarrow> priority_cache" where
  "cache_reset_metrics c = c\<lparr>pc_metrics := prefetch_metrics_default\<rparr>"

section \<open>Topic and intent\<close>

record topic_tracker =
  tt_recent_vectors :: "f32 list list"
  tt_max_history :: nat
  tt_alpha :: f32

definition topic_tracker_new :: "nat \<Rightarrow> f32 \<Rightarrow> topic_tracker" where
  "topic_tracker_new max_history alpha =
     \<lparr>tt_recent_vectors = [], tt_max_history = max_history, tt_alpha = alpha\<rparr>"

definition topic_tracker_default :: topic_tracker where
  "topic_tracker_default = topic_tracker_new 5 (rnd32 (3 / 10))"

definition topic_record_access :: "f32 list \<Rightarrow> topic_tracker \<Rightarrow> topic_tracker" where
  "topic_record_access embedding t =
     (if tt_recent_vectors t \<noteq> [] \<and> length (hd (tt_recent_vectors t)) \<noteq> length embedding then t
      else
        t\<lparr>tt_recent_vectors :=
            (if tt_max_history t \<le> length (tt_recent_vectors t) then tl (tt_recent_vectors t)
             else tt_recent_vectors t) @ [embedding]\<rparr>)"

text \<open>\<open>result[j] += v * weight\<close> for the components both vectors have.\<close>

fun accumulate :: "f32 \<Rightarrow> f32 list \<Rightarrow> f32 list \<Rightarrow> f32 list" where
  "accumulate weight (r # rs) (v # vs) = fadd32 r (fmul32 v weight) # accumulate weight rs vs"
| "accumulate weight rs _ = rs"

fun topic_loop :: "prefetch_math \<Rightarrow> f32 \<Rightarrow> nat \<Rightarrow> f32 list list \<Rightarrow> f32 list \<Rightarrow> f32 \<Rightarrow> f32 list \<times> f32" where
  "topic_loop L alpha n [] result weight_sum = (result, weight_sum)"
| "topic_loop L alpha n (vec # vecs) result weight_sum =
     (let age = f32_of_nat (length vecs);
          weight = m_powf32 L (fsub32 1 alpha) age
      in topic_loop L alpha n vecs (accumulate weight result vec) (fadd32 weight_sum weight))"

definition topic_vector :: "prefetch_math \<Rightarrow> topic_tracker \<Rightarrow> f32 list option" where
  "topic_vector L t =
     (case tt_recent_vectors t of
        [] \<Rightarrow> None
      | v # vs \<Rightarrow>
          (let dim = length v;
               (result, weight_sum) =
                 topic_loop L (tt_alpha t) (length (v # vs)) (v # vs) (replicate dim 0) 0
           in Some (if 0 < weight_sum then map (\<lambda>x. fdiv32 x weight_sum) result else result)))"

definition MAX_INTENT_HISTORY :: nat where
  "MAX_INTENT_HISTORY = 20"

record intent_tracker =
  in_recent_calls :: "(string \<times> string) list"
  in_pending_survey_ids :: "delivery_identity list"

definition record_call :: "string \<Rightarrow> string \<Rightarrow> intent_tracker \<Rightarrow> intent_tracker" where
  "record_call tool_name key_arg t =
     (let calls = in_recent_calls t @ [(tool_name, key_arg)]
      in t\<lparr>in_recent_calls := (if MAX_INTENT_HISTORY < length calls then tl calls else calls)\<rparr>)"

section \<open>The engine\<close>

record section_detail =
  dt_section_id :: string
  dt_heading_path :: "string list"
  dt_text :: string
  dt_summary :: "string option"
  dt_claims_available :: nat

text \<open>The fields of a symbol definition the engine reads; the others ride along.\<close>

record symbol_definition =
  sd_id :: string
  sd_doc_comment :: "string option"
  sd_heading_path :: "string list"
  sd_source_context :: string

record 'd prefetch_engine =
  en_cache :: priority_cache
  en_topic_tracker :: topic_tracker
  en_intent_tracker :: intent_tracker
  en_definition_cache :: "(string \<times> 'd symbol_definition_scheme) list"

definition DEFAULT_CACHE_CAPACITY :: nat where
  "DEFAULT_CACHE_CAPACITY = 50"

definition MAX_STRUCTURAL_PREFETCH :: nat where
  "MAX_STRUCTURAL_PREFETCH = 3"

definition MAX_INTENT_PREFETCH :: nat where
  "MAX_INTENT_PREFETCH = 5"

definition engine_new :: "nat \<Rightarrow> 'd prefetch_engine" where
  "engine_new cache_capacity =
     \<lparr>en_cache = cache_new cache_capacity, en_topic_tracker = topic_tracker_default,
      en_intent_tracker = \<lparr>in_recent_calls = [], in_pending_survey_ids = []\<rparr>,
      en_definition_cache = []\<rparr>"

definition engine_with_default_capacity :: "'d prefetch_engine" where
  "engine_with_default_capacity = engine_new DEFAULT_CACHE_CAPACITY"

definition engine_advance_turn :: "'d prefetch_engine \<Rightarrow> 'd prefetch_engine" where
  "engine_advance_turn en = en\<lparr>en_cache := cache_advance_turn (en_cache en)\<rparr>"

definition try_serve_identity ::
    "prefetch_math \<Rightarrow> json_codec \<Rightarrow> delivery_identity \<Rightarrow> 'd prefetch_engine \<Rightarrow> 'd prefetch_engine \<times> cache_entry option" where
  "try_serve_identity L J d en =
     (let (c, r) = cache_get L J (storage_key J d) (en_cache en) in (en\<lparr>en_cache := c\<rparr>, r))"

definition try_serve ::
    "prefetch_math \<Rightarrow> json_codec \<Rightarrow> string \<Rightarrow> 'd prefetch_engine \<Rightarrow> 'd prefetch_engine \<times> cache_entry option" where
  "try_serve L J section_id en = try_serve_identity L J (di_new PRIMARY_CORPUS_ID section_id ''section_full'') en"

definition definition_key :: "json_codec \<Rightarrow> string \<Rightarrow> string \<Rightarrow> string" where
  "definition_key J corpus_id symbol_id = storage_key J (di_new corpus_id symbol_id ''symbol_definition_default'')"

definition try_serve_definition ::
    "prefetch_math \<Rightarrow> json_codec \<Rightarrow> string \<Rightarrow> string \<Rightarrow> 'd prefetch_engine
      \<Rightarrow> 'd prefetch_engine \<times> 'd symbol_definition_scheme option" where
  "try_serve_definition L J corpus_id symbol_id en =
     (let key = definition_key J corpus_id symbol_id; (c, r) = cache_get L J key (en_cache en)
      in (en\<lparr>en_cache := c\<rparr>,
          case r of None \<Rightarrow> None | Some _ \<Rightarrow> map_of (en_definition_cache en) key))"

definition has_definition :: "json_codec \<Rightarrow> string \<Rightarrow> string \<Rightarrow> 'd prefetch_engine \<Rightarrow> bool" where
  "has_definition J corpus_id symbol_id en = (cache_peek J (definition_key J corpus_id symbol_id) (en_cache en) \<noteq> None)"

definition prefetch_definition ::
    "prefetch_math \<Rightarrow> json_codec \<Rightarrow> (string \<Rightarrow> nat) \<Rightarrow> string \<Rightarrow> 'd symbol_definition_scheme \<Rightarrow> prefetch_strategy
      \<Rightarrow> 'd prefetch_engine \<Rightarrow> 'd prefetch_engine" where
  "prefetch_definition L J count_tokens corpus_id df strategy en =
     (let key = definition_key J corpus_id (sd_id df)
      in if cache_peek J key (en_cache en) \<noteq> None then en
         else
           (let entry = \<lparr>pe_content_id = sd_id df, pe_text = sd_source_context df,
                  pe_token_count = count_tokens (sd_source_context df),
                  pe_heading_path = Some (sd_heading_path df), pe_summary = sd_doc_comment df,
                  pe_resolution = SymbolFull, pe_claims_available = 0, pe_strategy = strategy\<rparr>;
                c = insert_default L J key entry (en_cache en)
            in en\<lparr>en_cache := c,
                  en_definition_cache :=
                    filter (\<lambda>(k, _). cache_peek J k c \<noteq> None) (AList.update key df (en_definition_cache en))\<rparr>))"

definition prefetch_section_detail ::
    "prefetch_math \<Rightarrow> json_codec \<Rightarrow> (string \<Rightarrow> nat) \<Rightarrow> string \<Rightarrow> section_detail \<Rightarrow> prefetch_strategy
      \<Rightarrow> 'd prefetch_engine \<Rightarrow> 'd prefetch_engine" where
  "prefetch_section_detail L J count_tokens corpus_id detail strategy en =
     (let key = storage_key J (di_new corpus_id (dt_section_id detail) ''section_full'')
      in if cache_peek J key (en_cache en) \<noteq> None then en
         else
           en\<lparr>en_cache := insert_default L J key
             \<lparr>pe_content_id = dt_section_id detail, pe_text = dt_text detail,
              pe_token_count = count_tokens (dt_text detail), pe_heading_path = Some (dt_heading_path detail),
              pe_summary = dt_summary detail, pe_resolution = Section,
              pe_claims_available = dt_claims_available detail, pe_strategy = strategy\<rparr> (en_cache en)\<rparr>)"

definition engine_record_miss :: "'d prefetch_engine \<Rightarrow> 'd prefetch_engine" where
  "engine_record_miss en = en\<lparr>en_cache := cache_record_miss (en_cache en)\<rparr>"

definition section_entry ::
    "(string \<Rightarrow> nat) \<Rightarrow> prefetch_strategy \<Rightarrow> (string \<rightharpoonup> nat) \<Rightarrow> section_record \<Rightarrow> cache_entry" where
  "section_entry count_tokens strategy claims_counts s =
     \<lparr>pe_content_id = sr_id s, pe_text = sr_text s, pe_token_count = count_tokens (sr_text s),
      pe_heading_path = Some (sr_heading_path s), pe_summary = sr_summary s, pe_resolution = Section,
      pe_claims_available = (case claims_counts (sr_id s) of None \<Rightarrow> 0 | Some n \<Rightarrow> n), pe_strategy = strategy\<rparr>"

text \<open>The loop of \<open>prefetch_sections_for\<close>, over the cache; \<open>left\<close> is \<open>limit - inserted\<close>.\<close>

fun prefetch_loop ::
    "prefetch_math \<Rightarrow> json_codec \<Rightarrow> (string \<Rightarrow> nat) \<Rightarrow> string \<Rightarrow> prefetch_strategy \<Rightarrow> (string \<rightharpoonup> nat) \<Rightarrow> nat
      \<Rightarrow> section_record list \<Rightarrow> priority_cache \<Rightarrow> priority_cache" where
  "prefetch_loop L J ct corpus_id strategy counts left [] c = c"
| "prefetch_loop L J ct corpus_id strategy counts left (s # ss) c =
     (if left = 0 then c
      else
        (let key = storage_key J (di_new corpus_id (sr_id s) ''section_full'')
         in if cache_peek J key c \<noteq> None \<or> cache_peek J (sr_id s) c \<noteq> None then
              prefetch_loop L J ct corpus_id strategy counts left ss c
            else
              prefetch_loop L J ct corpus_id strategy counts (left - 1) ss
                (insert_default L J key (section_entry ct strategy counts s) c)))"

definition prefetch_sections_for ::
    "prefetch_math \<Rightarrow> json_codec \<Rightarrow> (string \<Rightarrow> nat) \<Rightarrow> string \<Rightarrow> prefetch_strategy \<Rightarrow> section_record list
      \<Rightarrow> (string \<rightharpoonup> nat) \<Rightarrow> nat \<Rightarrow> 'd prefetch_engine \<Rightarrow> 'd prefetch_engine" where
  "prefetch_sections_for L J ct corpus_id strategy sections counts limit en =
     en\<lparr>en_cache := prefetch_loop L J ct corpus_id strategy counts limit sections (en_cache en)\<rparr>"

definition prefetch_sequential_for ::
    "prefetch_math \<Rightarrow> json_codec \<Rightarrow> (string \<Rightarrow> nat) \<Rightarrow> string \<Rightarrow> section_record option \<Rightarrow> nat option
      \<Rightarrow> 'd prefetch_engine \<Rightarrow> 'd prefetch_engine" where
  "prefetch_sequential_for L J ct corpus_id next_section claims_count en =
     (case next_section of
        None \<Rightarrow> en
      | Some s \<Rightarrow>
          prefetch_sections_for L J ct corpus_id Sequential [s]
            [sr_id s \<mapsto> (case claims_count of None \<Rightarrow> 0 | Some n \<Rightarrow> n)] 1 en)"

definition prefetch_sequential ::
    "prefetch_math \<Rightarrow> json_codec \<Rightarrow> (string \<Rightarrow> nat) \<Rightarrow> section_record option \<Rightarrow> nat option
      \<Rightarrow> 'd prefetch_engine \<Rightarrow> 'd prefetch_engine" where
  "prefetch_sequential L J ct = prefetch_sequential_for L J ct PRIMARY_CORPUS_ID"

definition prefetch_structural where
  "prefetch_structural L J ct siblings counts en =
     prefetch_sections_for L J ct PRIMARY_CORPUS_ID Structural siblings counts MAX_STRUCTURAL_PREFETCH en"

definition prefetch_topical where
  "prefetch_topical L J ct candidates counts en =
     prefetch_sections_for L J ct PRIMARY_CORPUS_ID Topical candidates counts u64_max en"

definition prefetch_cross_session where
  "prefetch_cross_session L J ct candidates counts en =
     prefetch_sections_for L J ct PRIMARY_CORPUS_ID CrossSession candidates counts u64_max en"

definition prefetch_survey_expand where
  "prefetch_survey_expand L J ct sections counts en =
     prefetch_sections_for L J ct PRIMARY_CORPUS_ID SurveyExpand sections counts u64_max en"

definition prefetch_from_intent where
  "prefetch_from_intent L J ct sections counts en =
     prefetch_sections_for L J ct PRIMARY_CORPUS_ID AgentPlan sections counts MAX_INTENT_PREFETCH en"

definition record_topic_access :: "f32 list \<Rightarrow> 'd prefetch_engine \<Rightarrow> 'd prefetch_engine" where
  "record_topic_access embedding en =
     en\<lparr>en_topic_tracker := topic_record_access embedding (en_topic_tracker en)\<rparr>"

definition record_tool_call :: "string \<Rightarrow> string \<Rightarrow> 'd prefetch_engine \<Rightarrow> 'd prefetch_engine" where
  "record_tool_call tool_name key_arg en =
     en\<lparr>en_intent_tracker := record_call tool_name key_arg (en_intent_tracker en)\<rparr>"

definition record_survey_identities :: "delivery_identity list \<Rightarrow> 'd prefetch_engine \<Rightarrow> 'd prefetch_engine" where
  "record_survey_identities ids en =
     en\<lparr>en_intent_tracker := (en_intent_tracker en)\<lparr>in_pending_survey_ids := ids\<rparr>\<rparr>"

definition record_survey_results :: "string list \<Rightarrow> 'd prefetch_engine \<Rightarrow> 'd prefetch_engine" where
  "record_survey_results section_ids en =
     record_survey_identities (map (\<lambda>i. di_new PRIMARY_CORPUS_ID i ''section_full'') section_ids) en"

definition predicted_section_ids :: "'d prefetch_engine \<Rightarrow> string list" where
  "predicted_section_ids en = map di_content_id (in_pending_survey_ids (en_intent_tracker en))"

definition engine_invalidate_identities :: "json_codec \<Rightarrow> delivery_identity list \<Rightarrow> 'd prefetch_engine \<Rightarrow> 'd prefetch_engine" where
  "engine_invalidate_identities J stale en =
     en\<lparr>en_cache := fold (\<lambda>d c. fst (cache_remove J (storage_key J d) c)) stale (en_cache en)\<rparr>"

definition engine_invalidate :: "json_codec \<Rightarrow> string list \<Rightarrow> 'd prefetch_engine \<Rightarrow> 'd prefetch_engine" where
  "engine_invalidate J stale_ids en =
     engine_invalidate_identities J (map (\<lambda>i. di_new PRIMARY_CORPUS_ID i ''section_full'') stale_ids) en"

definition clear_cache :: "'d prefetch_engine \<Rightarrow> 'd prefetch_engine" where
  "clear_cache en = en\<lparr>en_cache := cache_clear (en_cache en)\<rparr>"

section \<open>Runs and invariant\<close>

text \<open>
  The operations of the engine as one alphabet. \<open>op_lookups\<close> bounds how many counters an operation
  bumps, so that a run below the machine bound does not wrap.
\<close>

datatype 'd engine_op =
    EAdvance
  | EServe delivery_identity
  | EServeDefinition string string
  | EDefinition string "'d symbol_definition_scheme" prefetch_strategy
  | EDetail string section_detail prefetch_strategy
  | EMiss
  | ESections string prefetch_strategy "section_record list" "string \<rightharpoonup> nat" nat
  | ETopic "f32 list"
  | ETool string string
  | ESurvey "delivery_identity list"
  | EInvalidate "delivery_identity list"
  | EClear

fun engine_step ::
    "prefetch_math \<Rightarrow> json_codec \<Rightarrow> (string \<Rightarrow> nat) \<Rightarrow> 'd engine_op \<Rightarrow> 'd prefetch_engine \<Rightarrow> 'd prefetch_engine" where
  "engine_step L J ct EAdvance en = engine_advance_turn en"
| "engine_step L J ct (EServe d) en = fst (try_serve_identity L J d en)"
| "engine_step L J ct (EServeDefinition c i) en = fst (try_serve_definition L J c i en)"
| "engine_step L J ct (EDefinition c df st) en = prefetch_definition L J ct c df st en"
| "engine_step L J ct (EDetail c dt st) en = prefetch_section_detail L J ct c dt st en"
| "engine_step L J ct EMiss en = engine_record_miss en"
| "engine_step L J ct (ESections c st ss counts limit) en = prefetch_sections_for L J ct c st ss counts limit en"
| "engine_step L J ct (ETopic v) en = record_topic_access v en"
| "engine_step L J ct (ETool a b) en = record_tool_call a b en"
| "engine_step L J ct (ESurvey ds) en = record_survey_identities ds en"
| "engine_step L J ct (EInvalidate ds) en = engine_invalidate_identities J ds en"
| "engine_step L J ct EClear en = clear_cache en"

fun op_lookups :: "'d engine_op \<Rightarrow> nat" where
  "op_lookups (ESections c st ss counts limit) = length ss"
| "op_lookups _ = 1"

definition all_strategies :: "prefetch_strategy list" where
  "all_strategies = [Sequential, Topical, Structural, CrossSession, SurveyExpand, AgentPlan, SymbolSearch, ReferenceFollow]"

definition metrics_ok :: "nat \<Rightarrow> nat \<Rightarrow> prefetch_metrics \<Rightarrow> bool" where
  "metrics_ok N live m \<longleftrightarrow>
     pm_hits m + pm_misses m \<le> N \<and> pm_prefetches_issued m \<le> N
     \<and> pm_hits m = sum_list (map (pm_strategy_hits m) all_strategies)
     \<and> pm_prefetches_issued m = sum_list (map (pm_strategy_issued m) all_strategies)
     \<and> pm_prefetches_never_consumed m + live \<le> pm_prefetches_issued m"

definition cache_ok :: "nat \<Rightarrow> priority_cache \<Rightarrow> bool" where
  "cache_ok N c \<longleftrightarrow>
     distinct (map fst (pc_entries c)) \<and> length (pc_entries c) \<le> pc_capacity c
     \<and> metrics_ok N (length (pc_entries c)) (pc_metrics c)"

definition structured :: "json_codec \<Rightarrow> priority_cache \<Rightarrow> bool" where
  "structured J c \<longleftrightarrow> (\<forall>k \<in> fst ` set (pc_entries c). \<exists>d. k = storage_key J d)"

definition topic_ok :: "topic_tracker \<Rightarrow> bool" where
  "topic_ok t \<longleftrightarrow>
     length (tt_recent_vectors t) \<le> max 1 (tt_max_history t)
     \<and> (\<forall>v \<in> set (tt_recent_vectors t). length v = length (hd (tt_recent_vectors t)))"

definition engine_ok :: "json_codec \<Rightarrow> nat \<Rightarrow> 'd prefetch_engine \<Rightarrow> bool" where
  "engine_ok J N en \<longleftrightarrow>
     cache_ok N (en_cache en) \<and> structured J (en_cache en) \<and> topic_ok (en_topic_tracker en)
     \<and> length (in_recent_calls (en_intent_tracker en)) \<le> MAX_INTENT_HISTORY"

text \<open>Sample data for the concrete instances of the properties.\<close>

definition sample_section :: "string \<Rightarrow> section_record" where
  "sample_section i =
     \<lparr>sr_id = i, sr_document_id = ''d'', sr_heading_path = [''h''], sr_depth = 1, sr_text = ''text'', sr_summary = None,
      sr_position = 0\<rparr>"

definition sample_math :: prefetch_math where
  "sample_math = \<lparr>m_exp = (\<lambda>x. 1), m_powf = (\<lambda>x y. 1), m_log2 = (\<lambda>x. 0), m_powf32 = (\<lambda>x y. 1), m_slot = (\<lambda>ks k. length k)\<rparr>"

definition sample_cached :: "string \<Rightarrow> prefetch_strategy \<Rightarrow> priority_cache_entry" where
  "sample_cached i st =
     \<lparr>pce_entry = \<lparr>pe_content_id = i, pe_text = ''text'', pe_token_count = 4, pe_heading_path = None, pe_summary = None,
        pe_resolution = Section, pe_claims_available = 0, pe_strategy = st\<rparr>,
      pce_priority = 1, pce_insert_turn = 0, pce_access_count = 0, pce_confidence = 1\<rparr>"

definition sample_cache :: priority_cache where
  "sample_cache =
     (cache_new 2)\<lparr>pc_entries := [(''a'', sample_cached ''a'' Structural), (''b'', sample_cached ''b'' Sequential)]\<rparr>"

section \<open>Lemmas\<close>

lemma all_strategies_upd:
  fixes f :: "prefetch_strategy \<Rightarrow> nat"
  shows "sum_list (map (f(s := f s + 1)) all_strategies) = Suc (sum_list (map f all_strategies))"
  by (cases s) (simp_all add: all_strategies_def)

lemma strategy_le_sum:
  fixes f :: "prefetch_strategy \<Rightarrow> nat"
  shows "f s \<le> sum_list (map f all_strategies)"
  by (cases s) (simp_all add: all_strategies_def)

lemma strategy_issued_le: "metrics_ok N n m \<Longrightarrow> pm_strategy_issued m s \<le> N"
  using strategy_le_sum [of "pm_strategy_issued m" s] by (simp add: metrics_ok_def)

lemma strategy_hits_le: "metrics_ok N n m \<Longrightarrow> pm_strategy_hits m s \<le> N"
  using strategy_le_sum [of "pm_strategy_hits m" s] by (simp add: metrics_ok_def)

lemma add_u64_bump: "x \<le> N \<Longrightarrow> Suc N \<le> u64_max \<Longrightarrow> add_u64 x (Suc 0) = Suc x"
  using add_u64_exact [of x "Suc 0"] by simp

lemma count_issued_ok:
  assumes "metrics_ok N n m" and "Suc N \<le> u64_max"
  shows "metrics_ok (Suc N) (Suc n) (count_issued s m)"
proof -
  have "add_u64 (pm_prefetches_issued m) (Suc 0) = Suc (pm_prefetches_issued m)"
    using assms by (intro add_u64_bump [of _ N]) (simp_all add: metrics_ok_def)
  moreover have "add_u64 (pm_strategy_issued m s) (Suc 0) = Suc (pm_strategy_issued m s)"
    using add_u64_bump [OF strategy_issued_le [OF assms(1)] assms(2)] .
  ultimately show ?thesis using assms(1) by (simp add: metrics_ok_def count_issued_def all_strategies_upd [simplified])
qed

lemma count_hit_ok:
  assumes "metrics_ok N n m" and "Suc N \<le> u64_max"
  shows "metrics_ok (Suc N) n (count_hit e m)"
proof -
  have "add_u64 (pm_hits m) (Suc 0) = Suc (pm_hits m)"
    using assms by (intro add_u64_bump [of _ N]) (simp_all add: metrics_ok_def)
  moreover have "add_u64 (pm_strategy_hits m s) (Suc 0) = Suc (pm_strategy_hits m s)" for s
    using add_u64_bump [OF strategy_hits_le [OF assms(1)] assms(2)] .
  ultimately show ?thesis using assms(1) by (simp add: metrics_ok_def count_hit_def Let_def all_strategies_upd [simplified])
qed

lemma metrics_ok_mono: "metrics_ok N n m \<Longrightarrow> N \<le> N' \<Longrightarrow> n' \<le> n \<Longrightarrow> metrics_ok N' n' m"
  by (auto simp: metrics_ok_def)

lemma miss_ok:
  assumes "metrics_ok N n m" and "Suc N \<le> u64_max"
  shows "metrics_ok (Suc N) n (m\<lparr>pm_misses := add_u64 (pm_misses m) 1\<rparr>)"
proof -
  have "add_u64 (pm_misses m) (Suc 0) = Suc (pm_misses m)"
    using assms by (intro add_u64_bump [of _ N]) (simp_all add: metrics_ok_def)
  then show ?thesis using assms(1) by (simp add: metrics_ok_def)
qed

lemma unconsumed_ok:
  assumes "metrics_ok N n m" and "N \<le> u64_max" and "k \<le> n"
  shows "metrics_ok N (n - k) (m\<lparr>pm_prefetches_never_consumed := add_u64 (pm_prefetches_never_consumed m) k\<rparr>)"
proof -
  have "add_u64 (pm_prefetches_never_consumed m) k = pm_prefetches_never_consumed m + k"
    using assms by (auto intro!: add_u64_exact simp: metrics_ok_def)
  then show ?thesis using assms(1,3) by (simp add: metrics_ok_def)
qed

lemma update_present_length: "map_of xs k \<noteq> None \<Longrightarrow> length (AList.update k v xs) = length xs"
  by (induction xs) (auto split: if_splits)

lemma update_absent: "map_of xs k = None \<Longrightarrow> AList.update k v xs = xs @ [(k, v)]"
  by (induction xs) (auto split: if_splits)

lemma delete_present_length:
  assumes "distinct (map fst xs)" and "map_of xs k \<noteq> None"
  shows "Suc (length (AList.delete k xs)) = length xs"
  using assms
proof (induction xs)
  case (Cons p xs)
  obtain a b where p: "p = (a, b)" by fastforce
  show ?case
  proof (cases "a = k")
    case True
    then have "k \<notin> fst ` set xs" using Cons.prems(1) by (simp add: p)
    then have "AList.delete k xs = xs" by (intro delete_id) simp
    then show ?thesis using True by (simp add: p)
  next
    case False
    then show ?thesis using Cons by (simp add: p)
  qed
qed simp

lemma cache_remove_ok:
  assumes "cache_ok N c" and "N \<le> u64_max"
  shows "cache_ok N (fst (cache_remove J key c))"
proof -
  define k where "k = actual_remove_key J key c"
  show ?thesis
  proof (cases "map_of (pc_entries c) k")
    case None
    then show ?thesis using assms(1) by (simp add: cache_remove_def k_def Let_def)
  next
    case (Some e)
    let ?es = "AList.delete k (pc_entries c)"
    have d: "distinct (map fst (pc_entries c))" and m: "metrics_ok N (length (pc_entries c)) (pc_metrics c)"
      using assms(1) by (auto simp: cache_ok_def)
    have len: "Suc (length ?es) = length (pc_entries c)" using delete_present_length [OF d, of k] Some by simp
    have "metrics_ok N (length ?es)
        (if pce_access_count e = 0
         then (pc_metrics c)\<lparr>pm_prefetches_never_consumed := add_u64 (pm_prefetches_never_consumed (pc_metrics c)) 1\<rparr>
         else pc_metrics c)"
      using unconsumed_ok [OF m assms(2), of 1] metrics_ok_mono [OF m le_refl, of "length ?es"] len [symmetric] by simp
    moreover have "length ?es \<le> pc_capacity c" using assms(1) len by (simp add: cache_ok_def)
    ultimately show ?thesis using Some distinct_delete [OF d, of k]
      by (simp add: cache_remove_def k_def [symmetric] cache_ok_def Let_def)
  qed
qed

lemma cache_remove_sel [simp]:
  "pc_capacity (fst (cache_remove J key c)) = pc_capacity c"
  "pc_current_turn (fst (cache_remove J key c)) = pc_current_turn c"
  "pc_weights (fst (cache_remove J key c)) = pc_weights c"
  by (simp_all add: cache_remove_def Let_def split: option.splits)

lemma cache_remove_entries: "set (pc_entries (fst (cache_remove J key c))) \<subseteq> set (pc_entries c)"
  by (auto simp: cache_remove_def Let_def AList.delete_eq split: option.splits)

lemma cache_remove_key:
  assumes "map_of (pc_entries c) key = Some e"
  shows "pc_entries (fst (cache_remove J key c)) = AList.delete key (pc_entries c)"
  using assms by (simp add: cache_remove_def Let_def actual_remove_key_def)

text \<open>The entry eviction removes.\<close>

lemma evict_lowest_entries:
  assumes "distinct (map fst (pc_entries c))" and "pc_entries c \<noteq> []"
  obtains k e where "map_of (pc_entries c) k = Some e"
    "pc_entries (evict_lowest L J c) = AList.delete k (pc_entries c)"
    "\<forall>(i, f) \<in> set (pc_entries c). priority_now L c e \<le> priority_now L c f"
    "evict_lowest L J c = fst (cache_remove J k c)"
proof -
  let ?order = "sort_key (\<lambda>p. m_slot L (map fst (pc_entries c)) (fst p)) (pc_entries c)"
  have "?order \<noteq> []" using assms(2) by (metis length_0_conv length_sort)
  then obtain p where p: "min_by (\<lambda>a b. priority_now L c (snd b) < priority_now L c (snd a)) ?order = Some p"
    by (metis min_by_None not_Some_eq)
  obtain k e where ke: "p = (k, e)" by fastforce
  have "(k, e) \<in> set (pc_entries c)" using min_by_mem [OF p] by (simp add: ke)
  then have m: "map_of (pc_entries c) k = Some e" using assms(1) by simp
  have "\<forall>(i, f) \<in> set (pc_entries c). priority_now L c e \<le> priority_now L c f"
    using min_by_least [OF p] by (auto simp: ke)
  then show thesis
    using that [OF m] cache_remove_key [OF m] by (simp add: evict_lowest_def lowest_priority_key_def p ke)
qed

lemma evict_lowest_ok:
  assumes "cache_ok N c" and "N \<le> u64_max" and "pc_entries c \<noteq> []"
  shows "cache_ok N (evict_lowest L J c) \<and> Suc (length (pc_entries (evict_lowest L J c))) = length (pc_entries c)
    \<and> pc_capacity (evict_lowest L J c) = pc_capacity c"
proof -
  have d: "distinct (map fst (pc_entries c))" using assms(1) by (simp add: cache_ok_def)
  obtain k e where k: "map_of (pc_entries c) k = Some e"
    "pc_entries (evict_lowest L J c) = AList.delete k (pc_entries c)" "evict_lowest L J c = fst (cache_remove J k c)"
    using evict_lowest_entries [OF d assms(3)] by metis
  show ?thesis using delete_present_length [OF d, of k] k cache_remove_ok [OF assms(1,2)] by simp
qed

lemma evict_lowest_subset: "set (pc_entries (evict_lowest L J c)) \<subseteq> set (pc_entries c)"
  using cache_remove_entries [of J _ c] by (auto simp: evict_lowest_def split: option.splits)

lemma cache_insert_new:
  assumes "pc_capacity c \<noteq> 0" and "map_of (pc_entries c) key = None"
    and "c1 = (if pc_capacity c \<le> length (pc_entries c) then evict_lowest L J c else c)"
  shows "map_of (pc_entries c1) key = None" (is ?A)
    and "cache_insert L J key entry conf c =
      c1\<lparr>pc_entries := pc_entries c1 @ [(key,
           \<lparr>pce_entry = entry,
            pce_priority = compute_priority L (pc_weights c1) (pc_current_turn c1) conf (pe_strategy entry) (pc_current_turn c1) 0,
            pce_insert_turn = pc_current_turn c1, pce_access_count = 0, pce_confidence = conf\<rparr>)],
         pc_metrics := count_issued (pe_strategy entry) (pc_metrics c1)\<rparr>" (is ?B)
proof -
  have "set (pc_entries c1) \<subseteq> set (pc_entries c)" using evict_lowest_subset by (auto simp: assms(3))
  moreover have "key \<notin> fst ` set (pc_entries c)" using assms(2) by (simp add: map_of_eq_None_iff)
  ultimately show ?A unfolding map_of_eq_None_iff by auto
  with assms show ?B by (simp add: cache_insert_def Let_def update_absent)
qed

lemma cache_insert_ok:
  assumes "cache_ok N c" and "Suc N \<le> u64_max"
  shows "cache_ok (Suc N) (cache_insert L J key entry conf c)"
proof (cases "pc_capacity c = 0")
  case True
  then show ?thesis using assms metrics_ok_mono [of N _ _ "Suc N"] by (auto simp: cache_insert_def cache_ok_def)
next
  case cap: False
  show ?thesis
  proof (cases "map_of (pc_entries c) key")
    case (Some e)
    then show ?thesis using assms cap metrics_ok_mono [of N _ _ "Suc N"]
      by (auto simp: cache_insert_def cache_ok_def distinct_update update_present_length)
  next
    case None
    define c1 where "c1 = (if pc_capacity c \<le> length (pc_entries c) then evict_lowest L J c else c)"
    have "cache_ok N c1 \<and> length (pc_entries c1) < pc_capacity c \<and> pc_capacity c1 = pc_capacity c"
    proof (cases "pc_capacity c \<le> length (pc_entries c)")
      case True
      then have "pc_entries c \<noteq> []" using cap by auto
      then have "cache_ok N c1 \<and> Suc (length (pc_entries c1)) = length (pc_entries c) \<and> pc_capacity c1 = pc_capacity c"
        using evict_lowest_ok [OF assms(1), of L J] assms(2) True by (simp add: c1_def)
      moreover have "length (pc_entries c) \<le> pc_capacity c" using assms(1) by (simp add: cache_ok_def)
      ultimately show ?thesis by linarith
    qed (use assms in \<open>simp add: c1_def\<close>)
    then have c1: "cache_ok N c1" "length (pc_entries c1) < pc_capacity c" "pc_capacity c1 = pc_capacity c" by auto
    note new = cache_insert_new [OF cap None c1_def]
    show ?thesis
      using c1 new(1) count_issued_ok [of N "length (pc_entries c1)" "pc_metrics c1"] assms(2)
      by (simp add: new(2) cache_ok_def map_of_eq_None_iff)
  qed
qed

lemma cache_get_ok:
  assumes "cache_ok N c" and "Suc N \<le> u64_max"
  shows "cache_ok (Suc N) (fst (cache_get L J key c))"
  using assms count_hit_ok [of N] miss_ok [of N]
  by (auto simp: cache_get_def Let_def cache_ok_def distinct_update update_present_length split: option.splits)

lemma cache_clear_ok:
  assumes "cache_ok N c" and "N \<le> u64_max"
  shows "cache_ok N (cache_clear c)"
proof -
  let ?n = "length (filter (\<lambda>e. pce_access_count e = 0) (map snd (pc_entries c)))"
  have m: "metrics_ok N (length (pc_entries c)) (pc_metrics c)" using assms(1) by (simp add: cache_ok_def)
  have le: "?n \<le> length (pc_entries c)" by (metis length_filter_le length_map)
  have "metrics_ok N 0 ((pc_metrics c)\<lparr>pm_prefetches_never_consumed := add_u64 (pm_prefetches_never_consumed (pc_metrics c)) ?n\<rparr>)"
    by (rule metrics_ok_mono [OF unconsumed_ok [OF m assms(2) le]]) simp_all
  then show ?thesis by (simp add: cache_clear_def Let_def cache_ok_def)
qed

lemma cache_ok_mono: "cache_ok N c \<Longrightarrow> N \<le> N' \<Longrightarrow> cache_ok N' c"
  by (auto simp: cache_ok_def intro: metrics_ok_mono)

lemma prefetch_loop_ok:
  "cache_ok N c \<Longrightarrow> N + length ss \<le> u64_max \<Longrightarrow> cache_ok (N + length ss) (prefetch_loop L J ct corpus st counts left ss c)"
proof (induction L J ct corpus st counts left ss c arbitrary: N rule: prefetch_loop.induct)
  case (2 L J ct corpus st counts left s ss c)
  show ?case
  proof (cases "left = 0")
    case True
    then show ?thesis using cache_ok_mono [OF "2.prems"(1)] by simp
  next
    case False
    let ?key = "storage_key J (di_new corpus (sr_id s) ''section_full'')"
    show ?thesis
    proof (cases "cache_peek J ?key c \<noteq> None \<or> cache_peek J (sr_id s) c \<noteq> None")
      case True
      then have "cache_ok (N + length ss) (prefetch_loop L J ct corpus st counts left ss c)"
        using "2.IH"(1) [OF False refl True "2.prems"(1)] "2.prems"(2) by simp
      then show ?thesis using False True cache_ok_mono by (auto simp: Let_def)
    next
      case miss: False
      have "cache_ok (Suc N) (insert_default L J ?key (section_entry ct st counts s) c)"
        using cache_insert_ok "2.prems" by (simp add: insert_default_def)
      then have "cache_ok (Suc N + length ss) (prefetch_loop L J ct corpus st counts (left - 1) ss
          (insert_default L J ?key (section_entry ct st counts s) c))"
        using "2.IH"(2) [OF False refl miss, of "Suc N"] "2.prems"(2) by simp
      then show ?thesis using False miss by (auto simp: Let_def)
    qed
  qed
qed simp

lemma fold_remove_ok:
  "cache_ok N c \<Longrightarrow> N \<le> u64_max \<Longrightarrow> cache_ok N (fold (\<lambda>d c. fst (cache_remove J (storage_key J d) c)) ds c)"
  by (induction ds arbitrary: c) (simp_all add: cache_remove_ok)

lemma structured_subset: "structured J c \<Longrightarrow> fst ` set (pc_entries c') \<subseteq> insert (storage_key J d) (fst ` set (pc_entries c)) \<Longrightarrow> structured J c'"
  unfolding structured_def by blast

lemma cache_insert_keys:
  "fst ` set (pc_entries (cache_insert L J key entry conf c)) \<subseteq> insert key (fst ` set (pc_entries c))"
proof -
  have "fst ` set (pc_entries (evict_lowest L J c)) \<subseteq> fst ` set (pc_entries c)"
    by (rule image_mono [OF evict_lowest_subset])
  then show ?thesis
    by (auto simp: cache_insert_def Let_def dom_update split: option.splits)
qed

lemma cache_get_keys: "fst ` set (pc_entries (fst (cache_get L J key c))) = fst ` set (pc_entries c)"
  by (auto simp: cache_get_def Let_def dom_update split: option.splits dest!: map_of_SomeD intro: rev_image_eqI)

lemma prefetch_loop_structured:
  "structured J c \<Longrightarrow> structured J (prefetch_loop L J ct corpus st counts left ss c)"
proof (induction L J ct corpus st counts left ss c rule: prefetch_loop.induct)
  case (2 L J ct corpus st counts left s ss c)
  let ?key = "storage_key J (di_new corpus (sr_id s) ''section_full'')"
  have "structured J (insert_default L J ?key (section_entry ct st counts s) c)"
    using structured_subset [OF "2.prems" cache_insert_keys] by (simp add: insert_default_def)
  then show ?case using "2.IH" "2.prems" by (auto simp: Let_def)
qed simp

lemma fold_remove_subset:
  "set (pc_entries (fold (\<lambda>d c. fst (cache_remove J (storage_key J d) c)) ds c)) \<subseteq> set (pc_entries c)"
proof (induction ds arbitrary: c)
  case (Cons d ds)
  show ?case using Cons [of "fst (cache_remove J (storage_key J d) c)"] cache_remove_entries [of J "storage_key J d" c]
    by simp
qed simp

lemma topic_record_ok: "topic_ok t \<Longrightarrow> topic_ok (topic_record_access v t)"
proof -
  assume t: "topic_ok t"
  obtain vs where vs: "tt_recent_vectors t = vs" by blast
  show ?thesis
  proof (cases vs)
    case Nil
    then show ?thesis using vs by (simp add: topic_ok_def topic_record_access_def)
  next
    case (Cons u us)
    then show ?thesis using t vs by (cases us) (auto simp: topic_ok_def topic_record_access_def)
  qed
qed

lemma cache_ok_cong:
  "pc_entries c' = pc_entries c \<Longrightarrow> pc_capacity c' = pc_capacity c \<Longrightarrow> pc_metrics c' = pc_metrics c \<Longrightarrow> cache_ok N c' = cache_ok N c"
  by (simp add: cache_ok_def)

lemma cache_capacity [simp]:
  "pc_capacity (cache_insert L J key entry conf c) = pc_capacity c"
  "pc_capacity (fst (cache_get L J key c)) = pc_capacity c"
  by (simp_all add: cache_insert_def cache_get_def evict_lowest_def Let_def split: option.splits)

lemma prefetch_loop_capacity [simp]:
  "pc_capacity (prefetch_loop L J ct corpus st counts left ss c) = pc_capacity c"
  by (induction L J ct corpus st counts left ss c rule: prefetch_loop.induct) (simp_all add: Let_def insert_default_def)

lemma fold_remove_capacity [simp]:
  "pc_capacity (fold (\<lambda>d c. fst (cache_remove J (storage_key J d) c)) ds c) = pc_capacity c"
  by (induction ds arbitrary: c) simp_all

lemma engine_step_capacity [simp]: "pc_capacity (en_cache (engine_step L J ct oper en)) = pc_capacity (en_cache en)"
  by (cases oper) (simp_all add: engine_advance_turn_def cache_advance_turn_def try_serve_identity_def
      try_serve_definition_def prefetch_definition_def prefetch_section_detail_def insert_default_def engine_record_miss_def
      cache_record_miss_def prefetch_sections_for_def record_topic_access_def record_tool_call_def record_survey_identities_def
      engine_invalidate_identities_def clear_cache_def cache_clear_def Let_def case_prod_beta)

lemma cache_step_ok:
  assumes "cache_ok N (en_cache en)" and "N + op_lookups oper \<le> u64_max"
  shows "cache_ok (N + op_lookups oper) (en_cache (engine_step L J ct oper en))"
proof (cases oper)
  case (ESections c st ss counts limit)
  then show ?thesis using prefetch_loop_ok assms by (simp add: prefetch_sections_for_def)
next
  case (EInvalidate ds)
  then show ?thesis using cache_ok_mono [OF fold_remove_ok [OF assms(1)]] assms(2)
    by (simp add: engine_invalidate_identities_def)
next
  case EClear
  then show ?thesis using cache_ok_mono [OF cache_clear_ok [OF assms(1)]] assms(2) by (simp add: clear_cache_def)
next
  case EMiss
  then show ?thesis using assms miss_ok by (simp add: engine_record_miss_def cache_record_miss_def cache_ok_def)
next
  case EAdvance
  then show ?thesis using cache_ok_mono [OF assms(1), of "N + op_lookups oper"]
    by (simp add: engine_advance_turn_def cache_advance_turn_def cache_ok_def)
qed (use assms cache_ok_mono [OF assms(1)] cache_get_ok [OF assms(1)] cache_insert_ok [OF assms(1)] in
    \<open>simp_all add: try_serve_identity_def try_serve_definition_def prefetch_definition_def prefetch_section_detail_def
      insert_default_def record_topic_access_def record_tool_call_def record_survey_identities_def Let_def case_prod_beta\<close>)

lemma structured_step:
  assumes "structured J (en_cache en)"
  shows "structured J (en_cache (engine_step L J ct oper en))"
proof -
  have get: "structured J (fst (cache_get L J key (en_cache en)))" for key
    using assms by (simp add: structured_def cache_get_keys)
  have ins: "structured J (cache_insert L J (storage_key J d) entry conf (en_cache en))" for d entry conf
    using structured_subset [OF assms cache_insert_keys] .
  show ?thesis
  proof (cases oper)
    case (EInvalidate ds)
    have "fst ` set (pc_entries (fold (\<lambda>d c. fst (cache_remove J (storage_key J d) c)) ds (en_cache en)))
        \<subseteq> fst ` set (pc_entries (en_cache en))"
      by (rule image_mono [OF fold_remove_subset])
    then have "structured J (fold (\<lambda>d c. fst (cache_remove J (storage_key J d) c)) ds (en_cache en))"
      using assms unfolding structured_def by blast
    then show ?thesis by (simp add: EInvalidate engine_invalidate_identities_def)
  next
    case (ESections c st ss counts limit)
    then show ?thesis using prefetch_loop_structured [OF assms] by (simp add: prefetch_sections_for_def)
  qed (use assms get ins in \<open>simp_all add: try_serve_identity_def try_serve_definition_def prefetch_definition_def
      prefetch_section_detail_def insert_default_def record_topic_access_def record_tool_call_def record_survey_identities_def
      engine_advance_turn_def cache_advance_turn_def engine_record_miss_def cache_record_miss_def clear_cache_def cache_clear_def
      definition_key_def structured_def Let_def case_prod_beta\<close>)
qed

lemma engine_step_ok:
  assumes "engine_ok J N en" and "N + op_lookups oper \<le> u64_max"
  shows "engine_ok J (N + op_lookups oper) (engine_step L J ct oper en)"
proof -
  have "topic_ok (en_topic_tracker (engine_step L J ct oper en))
    \<and> length (in_recent_calls (en_intent_tracker (engine_step L J ct oper en))) \<le> MAX_INTENT_HISTORY"
    using assms(1) topic_record_ok
    by (cases oper) (auto simp: engine_ok_def try_serve_identity_def try_serve_definition_def prefetch_definition_def
      prefetch_section_detail_def record_topic_access_def record_tool_call_def record_survey_identities_def
      engine_advance_turn_def engine_record_miss_def clear_cache_def prefetch_sections_for_def record_call_def
      engine_invalidate_identities_def Let_def case_prod_beta)
  then show ?thesis using assms cache_step_ok structured_step unfolding engine_ok_def by blast
qed

lemma engine_run_ok:
  "engine_ok J N en \<Longrightarrow> N + sum_list (map op_lookups ops) \<le> u64_max \<Longrightarrow>
   engine_ok J (N + sum_list (map op_lookups ops)) (fold (engine_step L J ct) ops en)"
proof (induction ops arbitrary: N en)
  case (Cons oper ops)
  have "engine_ok J (N + op_lookups oper) (engine_step L J ct oper en)" using Cons.prems by (intro engine_step_ok) auto
  then show ?case using Cons.IH [of "N + op_lookups oper"] Cons.prems(2) by (simp add: add.assoc)
qed simp

lemma engine_new_ok: "engine_ok J 0 (engine_new cap)"
  by (simp add: engine_ok_def engine_new_def cache_new_def cache_with_weights_def cache_ok_def metrics_ok_def
      prefetch_metrics_default_def structured_def topic_ok_def topic_tracker_default_def topic_tracker_new_def all_strategies_def)

lemma rates_unit:
  assumes "metrics_ok N n m" and "N \<le> u64_max"
  shows "0 \<le> hit_rate m \<and> hit_rate m \<le> 1 \<and> 0 \<le> waste_rate m \<and> waste_rate m \<le> 1"
proof -
  have t: "add_u64 (pm_hits m) (pm_misses m) = pm_hits m + pm_misses m"
    using assms by (intro add_u64_exact) (simp add: metrics_ok_def)
  have frac: "0 \<le> fdiv (f64_of_nat a) (f64_of_nat b) \<and> fdiv (f64_of_nat a) (f64_of_nat b) \<le> 1" if "a \<le> b" "b \<noteq> 0" for a b
  proof -
    have "0 < f64_of_nat b" using f64_of_nat_ge_1 [of b] that(2) by (simp add: order_less_le_trans)
    then show ?thesis using f64_of_nat_mono [OF that(1)] by (simp add: fdiv_nonneg fdiv_le_1)
  qed
  have "0 \<le> hit_rate m \<and> hit_rate m \<le> 1"
    using frac [of "pm_hits m" "pm_hits m + pm_misses m"] by (auto simp: hit_rate_def t)
  moreover have "pm_prefetches_never_consumed m \<le> pm_prefetches_issued m"
    using assms(1) unfolding metrics_ok_def by linarith
  then have "0 \<le> waste_rate m \<and> waste_rate m \<le> 1"
    using frac [of "pm_prefetches_never_consumed m" "pm_prefetches_issued m"] by (auto simp: waste_rate_def)
  ultimately show ?thesis by blast
qed

section \<open>Properties\<close>

text \<open>
  C36. Over any run of the prefetch engine: the cache never exceeds its capacity and holds a key
  once; the hits and the issued prefetches are the sums of their per-strategy counters; what
  was discarded unused and what is still cached together never exceed what was issued, so that the hit
  and waste rates stay within zero and one; the topic window and the call history stay bounded.
\<close>

theorem prefetch_run_ok:
  assumes "sum_list (map op_lookups ops) \<le> u64_max"
    and "en = fold (engine_step L J ct) ops (engine_new cap)" and "c = en_cache en"
  shows "length (pc_entries c) \<le> cap \<and> distinct (map fst (pc_entries c))
    \<and> pm_hits (pc_metrics c) = sum_list (map (pm_strategy_hits (pc_metrics c)) all_strategies)
    \<and> pm_prefetches_issued (pc_metrics c) = sum_list (map (pm_strategy_issued (pc_metrics c)) all_strategies)
    \<and> pm_prefetches_never_consumed (pc_metrics c) + length (pc_entries c) \<le> pm_prefetches_issued (pc_metrics c)
    \<and> 0 \<le> hit_rate (pc_metrics c) \<and> hit_rate (pc_metrics c) \<le> 1
    \<and> 0 \<le> waste_rate (pc_metrics c) \<and> waste_rate (pc_metrics c) \<le> 1
    \<and> length (tt_recent_vectors (en_topic_tracker en)) \<le> max 1 (tt_max_history (en_topic_tracker en))
    \<and> length (in_recent_calls (en_intent_tracker en)) \<le> MAX_INTENT_HISTORY"
proof -
  let ?n = "sum_list (map op_lookups ops)"
  have "engine_ok J ?n en"
    using engine_run_ok [OF engine_new_ok, of ops] assms(1) by (simp add: assms(2))
  then have ok: "cache_ok ?n c" "topic_ok (en_topic_tracker en)"
    "length (in_recent_calls (en_intent_tracker en)) \<le> MAX_INTENT_HISTORY"
    by (auto simp: engine_ok_def assms(3))
  have "pc_capacity (en_cache (fold (engine_step L J ct) ops e)) = pc_capacity (en_cache e)" for e
    by (induction ops arbitrary: e) simp_all
  then have "pc_capacity c = cap" by (simp add: assms(2,3) engine_new_def cache_new_def cache_with_weights_def)
  then show ?thesis using ok rates_unit [of ?n _ "pc_metrics c"] assms(1)
    by (auto simp: cache_ok_def metrics_ok_def topic_ok_def)
qed

lemma prefetch_run_ok_witness:
  "let ops = [ESections ''primary'' Structural [sample_section ''a'', sample_section ''b''] (\<lambda>i. None) 3,
        EServe (di_new ''primary'' ''b'' ''section_full''), EMiss, EAdvance,
        ESections ''primary'' Topical [sample_section ''c''] (\<lambda>i. None) 3 :: unit engine_op];
       c = en_cache (fold (engine_step sample_math netstring_codec length) ops (engine_new 2))
   in length (pc_entries c) \<le> 2 \<and> pm_prefetches_never_consumed (pc_metrics c) + length (pc_entries c) \<le> pm_prefetches_issued (pc_metrics c)
     \<and> waste_rate (pc_metrics c) \<le> 1"
proof -
  define ops :: "unit engine_op list" where "ops = [ESections ''primary'' Structural [sample_section ''a'', sample_section ''b''] (\<lambda>i. None) 3,
        EServe (di_new ''primary'' ''b'' ''section_full''), EMiss, EAdvance,
        ESections ''primary'' Topical [sample_section ''c''] (\<lambda>i. None) 3]"
  define c where "c = en_cache (fold (engine_step sample_math netstring_codec length) ops (engine_new 2))"
  have "sum_list (map op_lookups ops) \<le> u64_max" by (simp add: ops_def u64_max_def)
  from prefetch_run_ok [OF this refl c_def]
  have "length (pc_entries c) \<le> 2 \<and> pm_prefetches_never_consumed (pc_metrics c) + length (pc_entries c) \<le> pm_prefetches_issued (pc_metrics c)
     \<and> waste_rate (pc_metrics c) \<le> 1" by blast
  then show ?thesis unfolding Let_def ops_def [symmetric] c_def [symmetric] by blast
qed

text \<open>
  Inserting a new key below capacity changes nothing else. At capacity it displaces exactly
  one entry, one of least priority as of the current turn, and keeps every other entry.
\<close>

theorem insert_evicts_lowest:
  assumes "distinct (map fst (pc_entries c))" and "0 < pc_capacity c" and "map_of (pc_entries c) key = None"
  shows "map_option pce_entry (map_of (pc_entries (cache_insert L J key entry conf c)) key) = Some entry
    \<and> (length (pc_entries c) < pc_capacity c \<longrightarrow>
         (\<forall>i. i \<noteq> key \<longrightarrow> map_of (pc_entries (cache_insert L J key entry conf c)) i = map_of (pc_entries c) i))
    \<and> (pc_capacity c \<le> length (pc_entries c) \<longrightarrow>
         (\<exists>v e. map_of (pc_entries c) v = Some e
           \<and> (\<forall>i f. map_of (pc_entries c) i = Some f \<longrightarrow> priority_now L c e \<le> priority_now L c f)
           \<and> (\<forall>i. i \<noteq> key \<longrightarrow> map_of (pc_entries (cache_insert L J key entry conf c)) i
                = (if i = v then None else map_of (pc_entries c) i))))"
proof -
  define c1 where "c1 = (if pc_capacity c \<le> length (pc_entries c) then evict_lowest L J c else c)"
  have cap: "pc_capacity c \<noteq> 0" using assms(2) by simp
  note new = cache_insert_new [OF cap assms(3) c1_def]
  have key: "map_option pce_entry (map_of (pc_entries (cache_insert L J key entry conf c)) key) = Some entry"
    using new(1) by (simp add: new(2) map_add_def)
  have other: "map_of (pc_entries (cache_insert L J key entry conf c)) i = map_of (pc_entries c1) i" if "i \<noteq> key" for i
    using that by (simp add: new(2) map_add_def split: option.splits)
  have "\<exists>v e. map_of (pc_entries c) v = Some e
      \<and> (\<forall>i f. map_of (pc_entries c) i = Some f \<longrightarrow> priority_now L c e \<le> priority_now L c f)
      \<and> (\<forall>i. map_of (pc_entries c1) i = (if i = v then None else map_of (pc_entries c) i))"
    if full: "pc_capacity c \<le> length (pc_entries c)"
  proof -
    have ne: "pc_entries c \<noteq> []" using full cap by auto
    obtain v e where v: "map_of (pc_entries c) v = Some e"
      "pc_entries (evict_lowest L J c) = AList.delete v (pc_entries c)"
      "\<forall>(i, f) \<in> set (pc_entries c). priority_now L c e \<le> priority_now L c f"
      using evict_lowest_entries [OF assms(1) ne, of L J] by metis
    then have "\<forall>i f. map_of (pc_entries c) i = Some f \<longrightarrow> priority_now L c e \<le> priority_now L c f"
      by (blast dest: map_of_SomeD)
    moreover have "map_of (pc_entries c1) i = (if i = v then None else map_of (pc_entries c) i)" for i
      using full v(2) by (simp add: c1_def delete_conv')
    ultimately show ?thesis using v(1) by blast
  qed
  then have "\<exists>v e. map_of (pc_entries c) v = Some e
      \<and> (\<forall>i f. map_of (pc_entries c) i = Some f \<longrightarrow> priority_now L c e \<le> priority_now L c f)
      \<and> (\<forall>i. i \<noteq> key \<longrightarrow> map_of (pc_entries (cache_insert L J key entry conf c)) i
           = (if i = v then None else map_of (pc_entries c) i))"
    if "pc_capacity c \<le> length (pc_entries c)"
    using other that by (metis (no_types, lifting))
  moreover have "pc_entries c1 = pc_entries c" if "length (pc_entries c) < pc_capacity c"
    using that by (simp add: c1_def)
  ultimately show ?thesis using key other by simp
qed

lemma insert_evicts_lowest_witness:
  "let c = sample_cache; e = pce_entry (sample_cached ''k'' Sequential)
   in map_option pce_entry (map_of (pc_entries (cache_insert sample_math netstring_codec ''k'' e 1 c)) ''k'') = Some e
     \<and> (\<exists>v f. map_of (pc_entries c) v = Some f \<and> map_of (pc_entries (cache_insert sample_math netstring_codec ''k'' e 1 c)) v = None)"
proof -
  have hyps: "distinct (map fst (pc_entries sample_cache))" "0 < pc_capacity sample_cache"
    "map_of (pc_entries sample_cache) ''k'' = None" "pc_capacity sample_cache \<le> length (pc_entries sample_cache)"
    by (simp_all add: sample_cache_def cache_new_def cache_with_weights_def)
  note inst = insert_evicts_lowest [OF hyps(1-3), of sample_math netstring_codec "pce_entry (sample_cached ''k'' Sequential)" 1]
  then obtain v f where v: "map_of (pc_entries sample_cache) v = Some f"
    "\<forall>i. i \<noteq> ''k'' \<longrightarrow> map_of (pc_entries (cache_insert sample_math netstring_codec ''k''
        (pce_entry (sample_cached ''k'' Sequential)) 1 sample_cache)) i
      = (if i = v then None else map_of (pc_entries sample_cache) i)"
    using hyps(4) by blast
  have "v \<noteq> ''k''" using v(1) hyps(3) by auto
  then have "map_of (pc_entries (cache_insert sample_math netstring_codec ''k''
      (pce_entry (sample_cached ''k'' Sequential)) 1 sample_cache)) v = None" using v(2) by simp
  then show ?thesis using conjunct1 [OF inst] v(1) unfolding Let_def by blast
qed

lemma remove_absent:
  assumes "map_of (pc_entries c) k = None"
  shows "map_of (pc_entries (fst (cache_remove J key c))) k = None"
  using assms cache_remove_entries [of J key c] unfolding map_of_eq_None_iff by auto

lemma remove_removes: "map_of (pc_entries (fst (cache_remove J key c))) key = None"
proof (cases "map_of (pc_entries c) key")
  case None
  then show ?thesis by (rule remove_absent)
next
  case (Some e)
  then show ?thesis by (simp add: cache_remove_key delete_conv')
qed

lemma fold_remove_removes:
  "d \<in> set ds \<Longrightarrow> map_of (pc_entries (fold (\<lambda>d c. fst (cache_remove J (storage_key J d) c)) ds c)) (storage_key J d) = None"
proof (induction ds arbitrary: c)
  case (Cons x ds)
  let ?c = "fst (cache_remove J (storage_key J x) c)"
  have keep: "map_of (pc_entries (fold (\<lambda>d c. fst (cache_remove J (storage_key J d) c)) ds c)) k = None"
    if "map_of (pc_entries c) k = None" for k c
    using that by (induction ds arbitrary: c) (simp_all add: remove_absent)
  show ?case
  proof (cases "d = x")
    case True
    then show ?thesis using keep [OF remove_removes] by simp
  next
    case False
    then show ?thesis using Cons by simp
  qed
qed simp

lemma get_structured:
  assumes "codec_ok J" and "structured J c" and "of_json J (di_content_id d) = None"
  shows "snd (cache_get L J (storage_key J d) c) = map_option pce_entry (map_of (pc_entries c) (storage_key J d))"
proof (cases "map_of (pc_entries c) (storage_key J d)")
  case None
  have "map_of (pc_entries c) (di_content_id d) = None"
  proof (rule ccontr)
    assume "map_of (pc_entries c) (di_content_id d) \<noteq> None"
    then have "di_content_id d \<in> fst ` set (pc_entries c)" by (simp add: map_of_eq_None_iff)
    then obtain d' where "di_content_id d = storage_key J d'" using assms(2) unfolding structured_def by blast
    then show False using assms(1,3) by (simp add: codec_ok_def storage_key_def)
  qed
  then show ?thesis using None assms(1)
    by (simp add: cache_get_def actual_get_key_def Let_def split: option.splits)
next
  case (Some e)
  then show ?thesis by (simp add: cache_get_def actual_get_key_def Let_def)
qed

text \<open>
  C37. What was invalidated is not served: after an invalidation, whatever was prefetched or
  looked up before, a read of an invalidated identity misses the cache. The content id must not
  itself be the serialization of an identity.
\<close>

theorem invalidated_not_served:
  assumes "codec_ok J" and "sum_list (map op_lookups ops) \<le> u64_max"
    and "d \<in> set stale" and "of_json J (di_content_id d) = None"
  shows "snd (try_serve_identity L J d
    (engine_invalidate_identities J stale (fold (engine_step L J ct) ops (engine_new cap)))) = None"
proof -
  define en where "en = fold (engine_step L J ct) ops (engine_new cap)"
  have "engine_ok J (sum_list (map op_lookups ops)) en"
    using engine_run_ok [OF engine_new_ok, of ops] assms(2) by (simp add: en_def)
  then have "structured J (en_cache (engine_step L J ct (EInvalidate stale) en))"
    by (intro structured_step) (simp add: engine_ok_def)
  then have "structured J (fold (\<lambda>d c. fst (cache_remove J (storage_key J d) c)) stale (en_cache en))"
    by (simp add: engine_invalidate_identities_def)
  from get_structured [OF assms(1) this assms(4), of L] show ?thesis
    unfolding en_def [symmetric]
    by (simp add: try_serve_identity_def engine_invalidate_identities_def case_prod_beta fold_remove_removes [OF assms(3)])
qed

lemma invalidated_not_served_witness:
  "let ops = [ESections ''primary'' Structural [sample_section ''a''] (\<lambda>i. None) 3 :: unit engine_op];
       en = fold (engine_step sample_math netstring_codec length) ops (engine_new 2);
       d = di_new ''primary'' ''a'' ''section_full''
   in snd (try_serve_identity sample_math netstring_codec d (engine_invalidate_identities netstring_codec [d] en)) = None"
proof -
  define ops :: "unit engine_op list" where "ops = [ESections ''primary'' Structural [sample_section ''a''] (\<lambda>i. None) 3]"
  have "sum_list (map op_lookups ops) \<le> u64_max" by (simp add: ops_def u64_max_def)
  moreover have "of_json netstring_codec (di_content_id (di_new ''primary'' ''a'' ''section_full'')) = None" by code_simp
  ultimately show ?thesis
    unfolding Let_def ops_def [symmetric]
    by (intro invalidated_not_served netstring_codec_ok) auto
qed

text \<open>
  A section cached for the primary corpus keeps a section with the same id of any other corpus
  out: the second guard of the loop looks the bare id up, which falls back to the primary key.
\<close>

lemma primary_blocks_linked:
  assumes "map_of (pc_entries (en_cache en)) (section_key J (sr_id s)) \<noteq> None"
  shows "prefetch_sections_for L J ct corpus strategy [s] counts limit en = en"
  using assms by (auto simp: prefetch_sections_for_def cache_peek_def Let_def split: option.splits)

text \<open>
  A section that was not cached and is warmed by sequential prefetch is served by the next read
  of it, with the text and claim count it was warmed with.
\<close>

theorem sequential_then_serve:
  assumes "codec_ok J" and "0 < pc_capacity (en_cache en)"
    and "cache_peek J (storage_key J (di_new corpus (sr_id s) ''section_full'')) (en_cache en) = None"
    and "cache_peek J (sr_id s) (en_cache en) = None"
  shows "snd (try_serve_identity L J (di_new corpus (sr_id s) ''section_full'')
      (prefetch_sequential_for L J ct corpus (Some s) claims en))
    = Some \<lparr>pe_content_id = sr_id s, pe_text = sr_text s, pe_token_count = ct (sr_text s),
        pe_heading_path = Some (sr_heading_path s), pe_summary = sr_summary s, pe_resolution = Section,
        pe_claims_available = (case claims of None \<Rightarrow> 0 | Some n \<Rightarrow> n), pe_strategy = Sequential\<rparr>"
proof -
  let ?key = "storage_key J (di_new corpus (sr_id s) ''section_full'')"
  let ?n = "case claims of None \<Rightarrow> 0 | Some n \<Rightarrow> n"
  let ?entry = "section_entry ct Sequential [sr_id s \<mapsto> ?n] s"
  let ?c = "cache_insert L J ?key ?entry 1 (en_cache en)"
  have absent: "map_of (pc_entries (en_cache en)) ?key = None"
    using assms(3) by (auto simp: cache_peek_def split: option.splits)
  have cap: "pc_capacity (en_cache en) \<noteq> 0" using assms(2) by simp
  note new = cache_insert_new [OF cap absent refl, of L J]
  have "map_option pce_entry (map_of (pc_entries ?c) ?key) = Some ?entry"
    using new(1) by (simp add: new(2) map_add_def)
  then obtain e where e: "map_of (pc_entries ?c) ?key = Some e" "pce_entry e = ?entry" by auto
  have "en_cache (prefetch_sequential_for L J ct corpus (Some s) claims en) = ?c"
    using assms(3,4) by (simp add: prefetch_sequential_for_def prefetch_sections_for_def Let_def insert_default_def)
  then have "snd (try_serve_identity L J (di_new corpus (sr_id s) ''section_full'')
      (prefetch_sequential_for L J ct corpus (Some s) claims en)) = Some ?entry"
    using e by (simp add: try_serve_identity_def case_prod_beta cache_get_def actual_get_key_def Let_def)
  then show ?thesis by (simp add: section_entry_def)
qed

lemma sequential_then_serve_witness:
  "snd (try_serve_identity sample_math netstring_codec (di_new ''other'' ''a'' ''section_full'')
      (prefetch_sequential_for sample_math netstring_codec length ''other'' (Some (sample_section ''a'')) (Some 7)
         (engine_new 2 :: unit prefetch_engine)))
   = Some \<lparr>pe_content_id = ''a'', pe_text = ''text'', pe_token_count = 4, pe_heading_path = Some [''h''],
       pe_summary = None, pe_resolution = Section, pe_claims_available = 7, pe_strategy = Sequential\<rparr>"
  using sequential_then_serve [of netstring_codec "engine_new 2 :: unit prefetch_engine" "''other''" "sample_section ''a''"
      sample_math length "Some 7"] netstring_codec_ok
  by (simp add: engine_new_def cache_new_def cache_with_weights_def cache_peek_def sample_section_def)

end
