(* ===== verification/Inverted.thy ===== *)
theory Inverted
  imports Identity Float_Model "HOL-Library.Product_Lexorder"
begin

text \<open>
  The two indexes behind retrieval that the repository implements itself:
  \<open>InvertedIndex\<close> (\<open>ministr-core/src/index/inverted.rs\<close>), posting lists with tombstones and
  a JSON sidecar, and \<open>ExactScanIndex\<close> (\<open>index/exact.rs\<close>), the brute-force vector index.
  The contract of the trait \<open>SparseIndex\<close> is the locale \<open>sparse_index\<close>: the index is a map
  from document ids to the weights of their terms, and a search is the brute-force ranking of that map.

  A lock is poisoned only when a holder panics, which no operation here does; the
  branches that report it are left out. The iteration order of a hash map is the argument \<open>it\<close>.
\<close>

datatype index_error =
    EmbeddingFailed string
  | QueryFailed string
  | LoadFailed string string
  | VectorNotFound string
  | ModelMismatch string nat nat "string option" string

type_synonym 'a index_result = "index_error + 'a"

section \<open>The inverted index\<close>

record posting =
  po_doc_idx :: nat
  po_weight :: f32

record inverted_index =
  ix_postings :: "(nat, posting list) btree"
  ix_doc_ids :: "string list"
  ix_doc_id_map :: "(string \<times> nat) list"
  ix_deleted :: "nat list"

definition inverted_new :: inverted_index where
  "inverted_new = \<lparr>ix_postings = [], ix_doc_ids = [], ix_doc_id_map = [], ix_deleted = []\<rparr>"

definition rebuild_doc_id_map :: "inverted_index \<Rightarrow> inverted_index" where
  "rebuild_doc_id_map ix =
     ix\<lparr>ix_doc_id_map := fold (\<lambda>(i, d). AList.update d i) (enumerate 0 (ix_doc_ids ix)) []\<rparr>"

definition doc_index :: "string \<Rightarrow> inverted_index \<Rightarrow> inverted_index \<times> nat" where
  "doc_index d ix =
     (case map_of (ix_doc_id_map ix) d of
        Some i \<Rightarrow> (ix, i)
      | None \<Rightarrow>
          (let i = length (ix_doc_ids ix)
           in (ix\<lparr>ix_doc_ids := ix_doc_ids ix @ [d], ix_doc_id_map := AList.update d i (ix_doc_id_map ix)\<rparr>, i)))"

definition postings_of :: "nat \<Rightarrow> (nat, posting list) btree \<Rightarrow> posting list" where
  "postings_of t ps = (case map_of ps t of None \<Rightarrow> [] | Some l \<Rightarrow> l)"

definition strip_doc :: "nat \<Rightarrow> (nat, posting list) btree \<Rightarrow> (nat, posting list) btree" where
  "strip_doc i ps = map (\<lambda>(t, l). (t, filter (\<lambda>p. po_doc_idx p \<noteq> i) l)) ps"

fun push_postings :: "nat \<Rightarrow> (nat \<times> f32) list \<Rightarrow> (nat, posting list) btree \<Rightarrow> (nat, posting list) btree" where
  "push_postings i [] ps = ps"
| "push_postings i ((t, w) # tws) ps =
     push_postings i tws (bt_insert t (postings_of t ps @ [\<lparr>po_doc_idx = i, po_weight = w\<rparr>]) ps)"

definition insert_sparse :: "string \<Rightarrow> nat list \<Rightarrow> f32 list \<Rightarrow> inverted_index \<Rightarrow> inverted_index" where
  "insert_sparse d indices values ix =
     (let ix1 = (case map_of (ix_doc_id_map ix) d of
                   Some i \<Rightarrow> ix\<lparr>ix_postings := strip_doc i (ix_postings ix)\<rparr>
                 | None \<Rightarrow> ix);
          (ix2, i) = doc_index d ix1
      in ix2\<lparr>ix_deleted := hs_remove i (ix_deleted ix2),
             ix_postings := push_postings i (zip indices values) (ix_postings ix2)\<rparr>)"

definition score_posting :: "f32 \<Rightarrow> posting \<Rightarrow> (nat \<times> f32) list \<Rightarrow> (nat \<times> f32) list" where
  "score_posting qw p scores =
     AList.update (po_doc_idx p)
       (fadd32 (case map_of scores (po_doc_idx p) of None \<Rightarrow> 0 | Some s \<Rightarrow> s) (fmul32 qw (po_weight p))) scores"

definition accumulate_scores :: "inverted_index \<Rightarrow> (nat \<times> f32) list \<Rightarrow> (nat \<times> f32) list" where
  "accumulate_scores ix query =
     fold (\<lambda>(t, qw) scores.
             case map_of (ix_postings ix) t of
               None \<Rightarrow> scores
             | Some l \<Rightarrow> fold (score_posting qw) l scores)
       query []"

record sparse_search_result =
  ss_id :: string
  ss_score :: f32

definition search_sparse ::
    "((nat \<times> f32) list \<Rightarrow> (nat \<times> f32) list) \<Rightarrow> nat list \<Rightarrow> f32 list \<Rightarrow> nat \<Rightarrow> inverted_index \<Rightarrow> sparse_search_result list" where
  "search_sparse it query_indices query_values k ix =
     (let results = it (accumulate_scores ix (zip query_indices query_values));
          sorted = sort_key (\<lambda>(i, s). (- s, ix_doc_ids ix ! i)) results
      in map (\<lambda>(i, s). \<lparr>ss_id = ix_doc_ids ix ! i, ss_score = s\<rparr>) (take k sorted))"

definition delete_sparse :: "string \<Rightarrow> inverted_index \<Rightarrow> inverted_index \<times> bool" where
  "delete_sparse d ix =
     (case map_of (ix_doc_id_map ix) d of
        None \<Rightarrow> (ix, False)
      | Some i \<Rightarrow>
          if i \<in> set (ix_deleted ix) then (ix, False)
          else
            (ix\<lparr>ix_postings := filter (\<lambda>(t, l). l \<noteq> []) (strip_doc i (ix_postings ix)),
                ix_deleted := hs_insert i (ix_deleted ix)\<rparr>, True))"

definition len_sparse :: "inverted_index \<Rightarrow> nat" where
  "len_sparse ix = length (ix_doc_ids ix) - length (ix_deleted ix)"

definition doc_frequency :: "nat \<Rightarrow> inverted_index \<Rightarrow> nat" where
  "doc_frequency t ix = (case map_of (ix_postings ix) t of None \<Rightarrow> 0 | Some l \<Rightarrow> length l)"

definition doc_count :: "inverted_index \<Rightarrow> nat" where
  "doc_count ix = len_sparse ix"

subsection \<open>The sidecar file\<close>

text \<open>
  The serialized part of the index (\<open>doc_id_map\<close> is skipped), the serializer, the files by
  path, and the errors the file system reports; a write that fails leaves what it left.
\<close>

record inverted_data =
  xd_postings :: "(nat, posting list) btree"
  xd_doc_ids :: "string list"
  xd_deleted :: "nat list"

record inverted_codec =
  xc_to_string :: "inverted_data \<Rightarrow> string"
  xc_from_str :: "string \<Rightarrow> inverted_data option"

definition inverted_codec_ok :: "inverted_codec \<Rightarrow> bool" where
  "inverted_codec_ok C \<longleftrightarrow> (\<forall>x. xc_from_str C (xc_to_string C x) = Some x)"

text \<open>A serializer with the round trip, for concrete instances.\<close>

definition enc_rat :: "rat \<Rightarrow> string" where
  "enc_rat r =
     (let (n, d) = quotient_of r
      in enc_all [if n < 0 then ''-'' else [], show_nat (nat \<bar>n\<bar>), show_nat (nat d)])"

definition dec_rat :: "string \<Rightarrow> rat" where
  "dec_rat s =
     (case dec_all s of
        [sg, n, d] \<Rightarrow> (if sg = [] then 1 else - 1) * of_nat (digits_value n) / of_nat (digits_value d)
      | _ \<Rightarrow> 0)"

definition enc_posting :: "posting \<Rightarrow> string" where
  "enc_posting p = enc_all [show_nat (po_doc_idx p), enc_rat (po_weight p)]"

definition dec_posting :: "string \<Rightarrow> posting" where
  "dec_posting s = (let l = dec_all s in \<lparr>po_doc_idx = digits_value (l ! 0), po_weight = dec_rat (l ! 1)\<rparr>)"

definition netstring_inverted_codec :: inverted_codec where
  "netstring_inverted_codec =
     \<lparr>xc_to_string = (\<lambda>x. enc_all
        [enc_all (map (\<lambda>(t, l). enc_all [show_nat t, enc_all (map enc_posting l)]) (xd_postings x)),
         enc_all (xd_doc_ids x), enc_all (map show_nat (xd_deleted x))]),
      xc_from_str = (\<lambda>s.
        case dec_all s of
          [ps, ds, del] \<Rightarrow>
            Some \<lparr>xd_postings = map (\<lambda>e. let l = dec_all e in (digits_value (l ! 0), map dec_posting (dec_all (l ! 1)))) (dec_all ps),
                  xd_doc_ids = dec_all ds, xd_deleted = map digits_value (dec_all del)\<rparr>
        | _ \<Rightarrow> None)\<rparr>"

type_synonym disk = "string \<rightharpoonup> string"

record disk_io =
  io_create_dir :: "string \<Rightarrow> string option"
  io_write :: "string \<Rightarrow> (string \<times> string option) option"
  io_read :: "string \<Rightarrow> string option"
  io_parse_error :: "string \<Rightarrow> string"

definition SPARSE_INDEX_FILE :: string where
  "SPARSE_INDEX_FILE = ''sparse_index.json''"

definition path_join :: "string \<Rightarrow> string \<Rightarrow> string" where
  "path_join dir file =
     (if dir = [] then file else if last dir = CHR ''/'' then dir @ file else dir @ ''/'' @ file)"

definition inverted_data_of :: "inverted_index \<Rightarrow> inverted_data" where
  "inverted_data_of ix =
     \<lparr>xd_postings = ix_postings ix, xd_doc_ids = ix_doc_ids ix, xd_deleted = ix_deleted ix\<rparr>"

definition persist_sparse ::
    "inverted_codec \<Rightarrow> disk_io \<Rightarrow> string \<Rightarrow> inverted_index \<Rightarrow> disk \<Rightarrow> disk \<times> unit index_result" where
  "persist_sparse C io dir ix fs =
     (let path = path_join dir SPARSE_INDEX_FILE in
      case io_create_dir io dir of
        Some e \<Rightarrow> (fs, Inl (LoadFailed dir (''failed to create directory: '' @ e)))
      | None \<Rightarrow>
          (case io_write io path of
             Some (e, left) \<Rightarrow> (fs(path := left), Inl (LoadFailed path (''failed to write sparse index: '' @ e)))
           | None \<Rightarrow> (fs(path \<mapsto> xc_to_string C (inverted_data_of ix)), Inr ())))"

definition load_sparse ::
    "inverted_codec \<Rightarrow> disk_io \<Rightarrow> string \<Rightarrow> disk \<Rightarrow> inverted_index index_result" where
  "load_sparse C io dir fs =
     (let path = path_join dir SPARSE_INDEX_FILE in
      case fs path of
        None \<Rightarrow> Inr inverted_new
      | Some json \<Rightarrow>
          (case io_read io path of
             Some e \<Rightarrow> Inl (LoadFailed path (''failed to read sparse index: '' @ e))
           | None \<Rightarrow>
               (case xc_from_str C json of
                  None \<Rightarrow> Inl (LoadFailed path (''failed to deserialize sparse index: '' @ io_parse_error io json))
                | Some x \<Rightarrow>
                    Inr (rebuild_doc_id_map
                      \<lparr>ix_postings = xd_postings x, ix_doc_ids = xd_doc_ids x, ix_doc_id_map = [],
                       ix_deleted = xd_deleted x\<rparr>))))"

section \<open>The exact vector index\<close>

record exact_index =
  ex_dim :: nat
  ex_vectors :: "(string, f32 list) btree"

record search_result =
  rr_id :: string
  rr_distance :: f32

definition exact_new :: "nat \<Rightarrow> exact_index" where
  "exact_new dm = \<lparr>ex_dim = dm, ex_vectors = []\<rparr>"

text \<open>\<open>sq\<close> is the square root of the floating-point unit.\<close>

definition cosine_distance :: "(f32 \<Rightarrow> f32) \<Rightarrow> f32 list \<Rightarrow> f32 list \<Rightarrow> f32" where
  "cosine_distance sq a b =
     (let (dt, na, nb) =
            fold (\<lambda>(x, y) (dt, na, nb).
                    (fadd32 dt (fmul32 x y), fadd32 na (fmul32 x x), fadd32 nb (fmul32 y y)))
              (zip a b) (0, 0, 0)
      in if na = 0 \<or> nb = 0 then 1 else fsub32 1 (fdiv32 dt (fmul32 (sq na) (sq nb))))"

definition exact_insert :: "string \<Rightarrow> f32 list \<Rightarrow> exact_index \<Rightarrow> exact_index \<times> unit index_result" where
  "exact_insert d vector ex =
     (if length vector \<noteq> ex_dim ex then
        (ex, Inl (EmbeddingFailed
           (''dimension mismatch: '' @ show_nat (length vector) @ '' != '' @ show_nat (ex_dim ex))))
      else if list_all (\<lambda>v. v = 0) vector then (ex, Inr ())
      else (ex\<lparr>ex_vectors := bt_insert d vector (ex_vectors ex)\<rparr>, Inr ()))"

definition exact_search_knn :: "(f32 \<Rightarrow> f32) \<Rightarrow> f32 list \<Rightarrow> nat \<Rightarrow> exact_index \<Rightarrow> search_result list" where
  "exact_search_knn sq query k ex =
     take k (sort_key (\<lambda>r. (rr_distance r, rr_id r))
       (map (\<lambda>(d, v). \<lparr>rr_id = d, rr_distance = cosine_distance sq query v\<rparr>) (ex_vectors ex)))"

definition exact_delete :: "string \<Rightarrow> exact_index \<Rightarrow> exact_index \<times> bool" where
  "exact_delete d ex =
     (ex\<lparr>ex_vectors := bt_remove d (ex_vectors ex)\<rparr>, map_of (ex_vectors ex) d \<noteq> None)"

definition exact_len :: "exact_index \<Rightarrow> nat" where
  "exact_len ex = length (ex_vectors ex)"

section \<open>The specification of a sparse index\<close>

text \<open>
  A document is the list of weights it has for each term, in the order they were given.
  \<open>dot\<close> adds the products up in query order, as floating-point addition needs.
\<close>

type_synonym sparse_doc = "nat \<Rightarrow> f32 list"

definition doc_of :: "nat list \<Rightarrow> f32 list \<Rightarrow> sparse_doc" where
  "doc_of indices values = (\<lambda>t. map snd (filter (\<lambda>(t', w). t' = t) (zip indices values)))"

definition dot_step :: "sparse_doc \<Rightarrow> nat \<times> f32 \<Rightarrow> f32 \<Rightarrow> f32" where
  "dot_step w tq s = fold (\<lambda>x s. fadd32 s (fmul32 (snd tq) x)) (w (fst tq)) s"

definition dot :: "(nat \<times> f32) list \<Rightarrow> sparse_doc \<Rightarrow> f32" where
  "dot query w = fold (dot_step w) query 0"

definition has_term :: "(nat \<times> f32) list \<Rightarrow> sparse_doc \<Rightarrow> bool" where
  "has_term query w \<longleftrightarrow> (\<exists>(t, qw) \<in> set query. w t \<noteq> [])"

definition ranked :: "string list \<Rightarrow> (string \<rightharpoonup> sparse_doc) \<Rightarrow> (nat \<times> f32) list \<Rightarrow> (string \<times> f32) list" where
  "ranked ids docs query =
     sort_key (\<lambda>(d, s). (- s, d))
       (map (\<lambda>d. (d, dot query (the (docs d)))) (filter (\<lambda>d. has_term query (the (docs d))) ids))"

definition search_ref ::
    "(string \<rightharpoonup> sparse_doc) \<Rightarrow> nat list \<Rightarrow> f32 list \<Rightarrow> nat \<Rightarrow> sparse_search_result list" where
  "search_ref docs query_indices query_values k =
     map (\<lambda>(d, s). \<lparr>ss_id = d, ss_score = s\<rparr>)
       (take k (ranked (sorted_list_of_set (dom docs)) docs (zip query_indices query_values)))"

text \<open>The documents an inverted index holds, and its invariant.\<close>

definition weights_of :: "inverted_index \<Rightarrow> nat \<Rightarrow> sparse_doc" where
  "weights_of ix i = (\<lambda>t. map po_weight (filter (\<lambda>p. po_doc_idx p = i) (postings_of t (ix_postings ix))))"

definition documents :: "inverted_index \<Rightarrow> string \<rightharpoonup> sparse_doc" where
  "documents ix d =
     (case map_of (ix_doc_id_map ix) d of
        None \<Rightarrow> None
      | Some i \<Rightarrow> if i \<in> set (ix_deleted ix) then None else Some (weights_of ix i))"

definition inverted_ok :: "inverted_index \<Rightarrow> bool" where
  "inverted_ok ix \<longleftrightarrow>
     bt_ok (ix_postings ix) \<and> distinct (ix_doc_ids ix) \<and> distinct (ix_deleted ix)
     \<and> (\<forall>i \<in> set (ix_deleted ix). i < length (ix_doc_ids ix))
     \<and> (\<forall>d i. map_of (ix_doc_id_map ix) d = Some i \<longleftrightarrow> i < length (ix_doc_ids ix) \<and> ix_doc_ids ix ! i = d)
     \<and> (\<forall>t. \<forall>p \<in> set (postings_of t (ix_postings ix)).
          po_doc_idx p < length (ix_doc_ids ix) \<and> po_doc_idx p \<notin> set (ix_deleted ix))"

text \<open>A history of writes, on an index given by its operations and on the documents themselves.\<close>

datatype sparse_op = SInsert string "nat list" "f32 list" | SDelete string

fun sparse_exec ::
    "(string \<Rightarrow> nat list \<Rightarrow> f32 list \<Rightarrow> 's \<Rightarrow> 's) \<Rightarrow> (string \<Rightarrow> 's \<Rightarrow> 's \<times> bool) \<Rightarrow> sparse_op \<Rightarrow> 's \<Rightarrow> 's" where
  "sparse_exec ins del (SInsert d qi qv) s = ins d qi qv s"
| "sparse_exec ins del (SDelete d) s = fst (del d s)"

fun docs_exec :: "sparse_op \<Rightarrow> (string \<rightharpoonup> sparse_doc) \<Rightarrow> (string \<rightharpoonup> sparse_doc)" where
  "docs_exec (SInsert d qi qv) m = m(d \<mapsto> doc_of qi qv)"
| "docs_exec (SDelete d) m = m(d := None)"

text \<open>The vectors an exact index serves, and a specification of nearest-neighbour search.\<close>

definition exact_ok :: "exact_index \<Rightarrow> bool" where
  "exact_ok ex \<longleftrightarrow>
     bt_ok (ex_vectors ex) \<and> (\<forall>(d, v) \<in> set (ex_vectors ex). length v = ex_dim ex \<and> (\<exists>x \<in> set v. x \<noteq> 0))"

definition knn_ref :: "(f32 list \<Rightarrow> f32 list \<Rightarrow> f32) \<Rightarrow> (string \<rightharpoonup> f32 list) \<Rightarrow> f32 list \<Rightarrow> nat \<Rightarrow> search_result list" where
  "knn_ref distance vectors query k =
     take k (sort_key (\<lambda>r. (rr_distance r, rr_id r))
       (map (\<lambda>d. \<lparr>rr_id = d, rr_distance = distance query (the (vectors d))\<rparr>) (sorted_list_of_set (dom vectors))))"

datatype vector_op = VInsert string "f32 list" | VDelete string

fun vector_exec ::
    "(string \<Rightarrow> f32 list \<Rightarrow> 's \<Rightarrow> 's \<times> unit index_result) \<Rightarrow> (string \<Rightarrow> 's \<Rightarrow> 's \<times> bool) \<Rightarrow> vector_op \<Rightarrow> 's \<Rightarrow> 's" where
  "vector_exec ins del (VInsert d v) s = fst (ins d v s)"
| "vector_exec ins del (VDelete d) s = fst (del d s)"

fun vectors_exec :: "nat \<Rightarrow> vector_op \<Rightarrow> (string \<rightharpoonup> f32 list) \<Rightarrow> (string \<rightharpoonup> f32 list)" where
  "vectors_exec dm (VInsert d v) m = (if length v = dm \<and> (\<exists>x \<in> set v. x \<noteq> 0) then m(d \<mapsto> v) else m)"
| "vectors_exec dm (VDelete d) m = m(d := None)"

section \<open>Posting lists\<close>

lemma postings_of_strip [simp]:
  "postings_of t (strip_doc i ps) = filter (\<lambda>p. po_doc_idx p \<noteq> i) (postings_of t ps)"
  unfolding postings_of_def strip_doc_def by (induction ps) auto

lemma postings_of_insert [simp]: "postings_of t (bt_insert t' l ps) = (if t = t' then l else postings_of t ps)"
  by (simp add: postings_of_def map_of_bt_insert)

lemma postings_of_push [simp]:
  "postings_of t (push_postings i tws ps) =
     postings_of t ps @ map (\<lambda>(t, w). \<lparr>po_doc_idx = i, po_weight = w\<rparr>) (filter (\<lambda>(t', w). t' = t) tws)"
  by (induction i tws ps rule: push_postings.induct) auto

lemma postings_of_nonempty [simp]:
  "bt_ok ps \<Longrightarrow> postings_of t (filter (\<lambda>(t, l). l \<noteq> []) ps) = postings_of t ps"
  unfolding postings_of_def by (induction ps) (fastforce simp: bt_ok_Cons split: option.splits dest: map_of_SomeD)+

lemma bt_ok_strip [simp]: "bt_ok (strip_doc i ps) = bt_ok ps"
  unfolding strip_doc_def bt_ok_def by (simp add: comp_def case_prod_beta)

lemma bt_ok_push [simp]: "bt_ok ps \<Longrightarrow> bt_ok (push_postings i tws ps)"
  by (induction i tws ps rule: push_postings.induct) (simp_all add: bt_ok_insert)

section \<open>Scores\<close>

lemma fold_score_posting:
  "map_of (fold (score_posting qw) l scores) i =
     (if \<exists>p \<in> set l. po_doc_idx p = i
      then Some (fold (\<lambda>x s. fadd32 s (fmul32 qw x)) (map po_weight (filter (\<lambda>p. po_doc_idx p = i) l))
             (case map_of scores i of None \<Rightarrow> 0 | Some s \<Rightarrow> s))
      else map_of scores i)"
  by (induction l arbitrary: scores) (auto simp: score_posting_def update_conv')

lemma accumulate_scores_postings:
  "accumulate_scores ix query = fold (\<lambda>(t, qw). fold (score_posting qw) (postings_of t (ix_postings ix))) query []"
  unfolding accumulate_scores_def postings_of_def
  by (intro arg_cong [where f = "\<lambda>f. fold f query []"] ext) (auto split: option.splits)

lemma fold_score_term:
  "map_of (fold (score_posting qw) (postings_of t (ix_postings ix)) scores) i =
     (if weights_of ix i t = [] then map_of scores i
      else Some (dot_step (weights_of ix i) (t, qw) (case map_of scores i of None \<Rightarrow> 0 | Some s \<Rightarrow> s)))"
  by (auto simp: fold_score_posting weights_of_def dot_step_def filter_empty_conv)

lemma has_term_simps [simp]:
  "\<not> has_term [] w" "has_term ((t, qw) # query) w \<longleftrightarrow> w t \<noteq> [] \<or> has_term query w"
  by (auto simp: has_term_def)

lemma fold_dot_absent: "\<not> has_term query w \<Longrightarrow> fold (dot_step w) query s = s"
  by (induction query) (auto simp: dot_step_def)

lemma fold_score_query:
  "map_of (fold (\<lambda>(t, qw). fold (score_posting qw) (postings_of t (ix_postings ix))) query scores) i =
     (if has_term query (weights_of ix i)
      then Some (fold (dot_step (weights_of ix i)) query (case map_of scores i of None \<Rightarrow> 0 | Some s \<Rightarrow> s))
      else map_of scores i)"
proof (induction query arbitrary: scores)
  case (Cons tq query)
  obtain t qw where tq: "tq = (t, qw)" by fastforce
  have "dot_step (weights_of ix i) (t, qw) s = s" if "weights_of ix i t = []" for s
    using that by (simp add: dot_step_def)
  then show ?case unfolding tq by (simp add: Cons.IH fold_score_term fold_dot_absent)
qed simp

lemma accumulate_scores_lookup:
  "map_of (accumulate_scores ix query) i =
     (if has_term query (weights_of ix i) then Some (dot query (weights_of ix i)) else None)"
  by (simp add: accumulate_scores_postings fold_score_query dot_def)

lemma accumulate_scores_distinct: "distinct (map fst (accumulate_scores ix query))"
proof -
  have 1: "distinct (map fst (fold (score_posting qw) l s))" if "distinct (map fst s)" for qw l and s :: "(nat \<times> f32) list"
    using that by (induction l arbitrary: s) (simp_all add: score_posting_def distinct_update)
  have "distinct (map fst (fold (\<lambda>(t, qw). fold (score_posting qw) (postings_of t (ix_postings ix))) query s))"
    if "distinct (map fst s)" for s :: "(nat \<times> f32) list"
    using that by (induction query arbitrary: s) (auto simp: 1)
  then show ?thesis by (simp add: accumulate_scores_postings)
qed

section \<open>The inverted index meets the specification\<close>

lemma sort_key_cong_mset:
  assumes "mset xs = mset ys" and "inj_on f (set xs)"
  shows "sort_key f xs = sort_key f ys"
  using assms by (intro sort_key_inj_key_eq) simp_all

lemma inverted_ok_live:
  assumes "inverted_ok ix"
  shows "map_of (ix_doc_id_map ix) d = Some i \<longleftrightarrow> i < length (ix_doc_ids ix) \<and> ix_doc_ids ix ! i = d"
    and "p \<in> set (postings_of t (ix_postings ix)) \<Longrightarrow> po_doc_idx p < length (ix_doc_ids ix) \<and> po_doc_idx p \<notin> set (ix_deleted ix)"
    and "i < length (ix_doc_ids ix) \<Longrightarrow> j < length (ix_doc_ids ix) \<Longrightarrow> ix_doc_ids ix ! i = ix_doc_ids ix ! j \<longleftrightarrow> i = j"
  using assms by (auto simp: inverted_ok_def nth_eq_iff_index_eq)

lemma has_term_live:
  assumes "inverted_ok ix" and "has_term query (weights_of ix i)"
  shows "i < length (ix_doc_ids ix) \<and> i \<notin> set (ix_deleted ix)"
proof -
  obtain t qw where "weights_of ix i t \<noteq> []" using assms(2) by (auto simp: has_term_def)
  then obtain p where "p \<in> set (postings_of t (ix_postings ix))" "po_doc_idx p = i"
    by (auto simp: weights_of_def filter_empty_conv)
  then show ?thesis using inverted_ok_live(2) [OF assms(1)] by blast
qed

lemma documents_Some:
  assumes "inverted_ok ix"
  shows "documents ix d = Some w \<longleftrightarrow>
    (\<exists>i < length (ix_doc_ids ix). i \<notin> set (ix_deleted ix) \<and> ix_doc_ids ix ! i = d \<and> w = weights_of ix i)"
proof -
  have "documents ix d = Some w \<longleftrightarrow>
      (\<exists>i. map_of (ix_doc_id_map ix) d = Some i \<and> i \<notin> set (ix_deleted ix) \<and> w = weights_of ix i)"
    by (auto simp: documents_def split: option.splits)
  then show ?thesis unfolding inverted_ok_live(1) [OF assms] by blast
qed

lemma documents_nth:
  assumes "inverted_ok ix" and "i < length (ix_doc_ids ix)" and "i \<notin> set (ix_deleted ix)"
  shows "documents ix (ix_doc_ids ix ! i) = Some (weights_of ix i)"
  using assms by (auto simp: documents_Some)

lemma documents_dom:
  assumes "inverted_ok ix"
  shows "dom (documents ix) = (\<lambda>i. ix_doc_ids ix ! i) ` ({..<length (ix_doc_ids ix)} - set (ix_deleted ix))"
  using documents_Some [OF assms] by (auto simp: dom_def)

lemma documents_finite: "inverted_ok ix \<Longrightarrow> finite (dom (documents ix))"
  by (simp add: documents_dom)

lemma len_sparse_documents:
  assumes "inverted_ok ix"
  shows "len_sparse ix = card (dom (documents ix))"
proof -
  have "inj_on (\<lambda>i. ix_doc_ids ix ! i) ({..<length (ix_doc_ids ix)} - set (ix_deleted ix))"
    using inverted_ok_live(3) [OF assms] by (auto simp: inj_on_def)
  moreover have "set (ix_deleted ix) \<subseteq> {..<length (ix_doc_ids ix)}" "distinct (ix_deleted ix)"
    using assms by (auto simp: inverted_ok_def)
  ultimately show ?thesis
    by (simp add: documents_dom [OF assms] len_sparse_def card_image card_Diff_subset distinct_card)
qed

lemma search_sparse_ref:
  assumes "inverted_ok ix" and "\<And>xs. mset (it xs) = mset xs"
  shows "search_sparse it qi qv k ix = search_ref (documents ix) qi qv k"
proof -
  let ?q = "zip qi qv" and ?acc = "accumulate_scores ix (zip qi qv)"
  let ?g = "\<lambda>(i, s). (ix_doc_ids ix ! i, s :: f32)" and ?key = "\<lambda>(d :: string, s :: f32). (- s, d)"
  let ?ref = "map (\<lambda>d. (d, dot ?q (the (documents ix d))))
    (filter (\<lambda>d. has_term ?q (the (documents ix d))) (sorted_list_of_set (dom (documents ix))))"
  have acc: "(i, s) \<in> set ?acc \<longleftrightarrow> has_term ?q (weights_of ix i) \<and> s = dot ?q (weights_of ix i)" for i s
    unfolding map_of_eq_Some_iff [OF accumulate_scores_distinct, symmetric] accumulate_scores_lookup by auto
  have live: "has_term ?q (weights_of ix i) \<Longrightarrow> documents ix (ix_doc_ids ix ! i) = Some (weights_of ix i)" for i
    using has_term_live [OF assms(1)] documents_nth [OF assms(1)] by blast
  have "inj_on ?g (set ?acc)"
    using has_term_live [OF assms(1)] inverted_ok_live(3) [OF assms(1)] by (fastforce simp: inj_on_def acc)
  then have "distinct (map ?g ?acc)"
    using accumulate_scores_distinct [of ix ?q] by (simp add: distinct_map)
  moreover have "distinct ?ref" by (auto simp: distinct_map inj_on_def)
  moreover have "set (map ?g ?acc) = set ?ref"
  proof (intro set_eqI iffI)
    fix x assume "x \<in> set (map ?g ?acc)"
    then show "x \<in> set ?ref" using live by (force simp: acc documents_finite [OF assms(1)])
  next
    fix x assume "x \<in> set ?ref"
    then obtain d w where d: "documents ix d = Some w" "has_term ?q w" "x = (d, dot ?q w)"
      by (auto simp: documents_finite [OF assms(1)])
    then show "x \<in> set (map ?g ?acc)" unfolding documents_Some [OF assms(1)] by (force simp: acc)
  qed
  ultimately have "mset (map ?g ?acc) = mset ?ref"
    using set_eq_iff_mset_eq_distinct by blast
  then have "mset (map ?g (it ?acc)) = mset ?ref" using assms(2) by (simp only: mset_map)
  then have "sort_key ?key (map ?g (it ?acc)) = sort_key ?key ?ref"
    by (intro sort_key_cong_mset) (auto simp: inj_on_def)
  moreover have "sort_key ?key (map ?g (it ?acc)) = map ?g (sort_key (\<lambda>(i, s). (- s, ix_doc_ids ix ! i)) (it ?acc))"
    unfolding sort_key_map by (intro arg_cong2 [where f = map] refl arg_cong2 [where f = sort_key]) auto
  ultimately have "map ?g (sort_key (\<lambda>(i, s). (- s, ix_doc_ids ix ! i)) (it ?acc)) = ranked (sorted_list_of_set (dom (documents ix))) (documents ix) ?q"
    by (simp add: ranked_def)
  moreover have "map (\<lambda>(i, s). \<lparr>ss_id = ix_doc_ids ix ! i, ss_score = s\<rparr>) (take k xs) =
      map (\<lambda>(d, s). \<lparr>ss_id = d, ss_score = s\<rparr>) (take k (map ?g xs))" for xs
    by (simp add: take_map case_prod_beta comp_def)
  ultimately show ?thesis by (simp only: search_sparse_def search_ref_def Let_def)
qed

lemma insert_sparse_fields:
  assumes "inverted_ok ix"
  obtains i where
    "ix_doc_ids (insert_sparse d qi qv ix) = (if i < length (ix_doc_ids ix) then ix_doc_ids ix else ix_doc_ids ix @ [d])"
    "i \<le> length (ix_doc_ids ix)" "i < length (ix_doc_ids ix) \<Longrightarrow> ix_doc_ids ix ! i = d"
    "i = length (ix_doc_ids ix) \<Longrightarrow> d \<notin> set (ix_doc_ids ix)"
    "map_of (ix_doc_id_map (insert_sparse d qi qv ix)) = (map_of (ix_doc_id_map ix))(d \<mapsto> i)"
    "ix_deleted (insert_sparse d qi qv ix) = hs_remove i (ix_deleted ix)"
    "bt_ok (ix_postings (insert_sparse d qi qv ix))"
    "\<And>t. postings_of t (ix_postings (insert_sparse d qi qv ix)) =
       filter (\<lambda>p. po_doc_idx p \<noteq> i) (postings_of t (ix_postings ix))
         @ map (\<lambda>w. \<lparr>po_doc_idx = i, po_weight = w\<rparr>) (doc_of qi qv t)"
proof (cases "map_of (ix_doc_id_map ix) d")
  case None
  have bt: "bt_ok (ix_postings ix)" using assms by (simp add: inverted_ok_def)
  have "filter (\<lambda>p. po_doc_idx p \<noteq> length (ix_doc_ids ix)) (postings_of t (ix_postings ix)) = postings_of t (ix_postings ix)" for t
    using inverted_ok_live(2) [OF assms] by (intro filter_True) fastforce
  moreover have "d \<notin> set (ix_doc_ids ix)"
    using None inverted_ok_live(1) [OF assms] by (metis in_set_conv_nth option.distinct(1))
  ultimately show ?thesis using None bt
    by (intro that [of "length (ix_doc_ids ix)"])
      (simp_all add: insert_sparse_def doc_index_def Let_def update_conv' doc_of_def comp_def case_prod_beta)
next
  case (Some i)
  have "bt_ok (ix_postings ix)" using assms by (simp add: inverted_ok_def)
  moreover have "i < length (ix_doc_ids ix) \<and> ix_doc_ids ix ! i = d" using Some inverted_ok_live(1) [OF assms] by blast
  ultimately show ?thesis using Some
    by (intro that [of i])
      (auto simp: insert_sparse_def doc_index_def Let_def doc_of_def comp_def case_prod_beta)
qed

lemma filter_other_doc:
  "i \<noteq> j \<Longrightarrow> filter (\<lambda>p. po_doc_idx p \<noteq> i \<and> po_doc_idx p = j) l = filter (\<lambda>p. po_doc_idx p = j) l"
  by (intro filter_cong) auto

lemma insert_sparse_ok:
  assumes "inverted_ok ix"
  shows "inverted_ok (insert_sparse d qi qv ix)"
    and "documents (insert_sparse d qi qv ix) = (documents ix)(d \<mapsto> doc_of qi qv)"
proof -
  obtain i where i:
    "ix_doc_ids (insert_sparse d qi qv ix) = (if i < length (ix_doc_ids ix) then ix_doc_ids ix else ix_doc_ids ix @ [d])"
    "i \<le> length (ix_doc_ids ix)" "i < length (ix_doc_ids ix) \<Longrightarrow> ix_doc_ids ix ! i = d"
    "i = length (ix_doc_ids ix) \<Longrightarrow> d \<notin> set (ix_doc_ids ix)"
    "map_of (ix_doc_id_map (insert_sparse d qi qv ix)) = (map_of (ix_doc_id_map ix))(d \<mapsto> i)"
    "ix_deleted (insert_sparse d qi qv ix) = hs_remove i (ix_deleted ix)"
    "bt_ok (ix_postings (insert_sparse d qi qv ix))"
    "\<And>t. postings_of t (ix_postings (insert_sparse d qi qv ix)) =
       filter (\<lambda>p. po_doc_idx p \<noteq> i) (postings_of t (ix_postings ix))
         @ map (\<lambda>w. \<lparr>po_doc_idx = i, po_weight = w\<rparr>) (doc_of qi qv t)"
    using insert_sparse_fields [OF assms] by blast
  let ?ix = "insert_sparse d qi qv ix"
  have len: "j < length (ix_doc_ids ?ix) \<longleftrightarrow> j < length (ix_doc_ids ix) \<or> j = i"
    and nth: "j < length (ix_doc_ids ix) \<Longrightarrow> ix_doc_ids ?ix ! j = ix_doc_ids ix ! j" "ix_doc_ids ?ix ! i = d" for j
    using i(1-3) by (auto simp: nth_append)
  have distinct: "distinct (ix_doc_ids ix)" "distinct (ix_deleted ix)"
    and deleted: "\<And>j. j \<in> set (ix_deleted ix) \<Longrightarrow> j < length (ix_doc_ids ix)"
    using assms by (auto simp: inverted_ok_def)
  have "map_of (ix_doc_id_map ?ix) e = Some j \<longleftrightarrow> j < length (ix_doc_ids ?ix) \<and> ix_doc_ids ?ix ! j = e" for e j
    unfolding i(5) len fun_upd_apply using inverted_ok_live(1,3) [OF assms] nth i(2,3,4)
    by (metis le_neq_implies_less nth_mem option.inject)
  moreover have "po_doc_idx p < length (ix_doc_ids ?ix) \<and> po_doc_idx p \<notin> set (ix_deleted ?ix)"
    if "p \<in> set (postings_of t (ix_postings ?ix))" for p t
    using that inverted_ok_live(2) [OF assms] unfolding i(6,8) len by auto
  ultimately show ok: "inverted_ok ?ix"
    unfolding inverted_ok_def using i(1,2,4,6,7) distinct deleted len by auto
  have w: "weights_of ?ix j = (if j = i then doc_of qi qv else weights_of ix j)" for j
    unfolding weights_of_def i(8) by (auto simp: comp_def filter_other_doc intro!: ext)
  show "documents ?ix = (documents ix)(d \<mapsto> doc_of qi qv)"
  proof
    fix e
    have "i \<noteq> j" if "map_of (ix_doc_id_map ix) e = Some j" "e \<noteq> d" for j
      using that i(3) by (auto simp: inverted_ok_live(1) [OF assms])
    then show "documents ?ix e = ((documents ix)(d \<mapsto> doc_of qi qv)) e"
      by (auto simp: documents_def i(5,6) w split: option.splits)
  qed
qed

lemma delete_sparse_ok:
  assumes "inverted_ok ix"
  shows "inverted_ok (fst (delete_sparse d ix))"
    and "documents (fst (delete_sparse d ix)) = (documents ix)(d := None)"
    and "snd (delete_sparse d ix) \<longleftrightarrow> documents ix d \<noteq> None"
proof -
  note bt = bt_ok_filter [of "strip_doc i (ix_postings ix)" for i]
  have P: "bt_ok (ix_postings ix)" using assms by (simp add: inverted_ok_def)
  have live: "i < length (ix_doc_ids ix)" if "map_of (ix_doc_id_map ix) d = Some i" for i
    using that inverted_ok_live(1) [OF assms] by blast
  show "inverted_ok (fst (delete_sparse d ix))"
    using assms live by (auto simp: delete_sparse_def inverted_ok_def bt P split: option.splits)
  show "snd (delete_sparse d ix) \<longleftrightarrow> documents ix d \<noteq> None"
    by (simp add: delete_sparse_def documents_def split: option.splits)
  have other: "i \<noteq> j" if "map_of (ix_doc_id_map ix) d = Some i" "map_of (ix_doc_id_map ix) e = Some j" "e \<noteq> d" for i j e
    using that by (auto simp: inverted_ok_live(1) [OF assms])
  have w: "weights_of (ix\<lparr>ix_postings := filter (\<lambda>(t, l). l \<noteq> []) (strip_doc i (ix_postings ix)), ix_deleted := D\<rparr>) j
      = weights_of ix j" if "i \<noteq> j" for i j D
    using that by (simp add: weights_of_def P filter_other_doc)
  show "documents (fst (delete_sparse d ix)) = (documents ix)(d := None)"
  proof
    fix e
    show "documents (fst (delete_sparse d ix)) e = ((documents ix)(d := None)) e"
    proof (cases "map_of (ix_doc_id_map ix) d")
      case None
      then show ?thesis by (simp add: delete_sparse_def documents_def)
    next
      case (Some i)
      show ?thesis
      proof (cases "i \<in> set (ix_deleted ix)")
        case True
        then show ?thesis by (simp add: delete_sparse_def documents_def Some)
      next
        case False
        have "i \<noteq> j" if "map_of (ix_doc_id_map ix) e = Some j" "e \<noteq> d" for j using other [OF Some that] .
        then show ?thesis using False w by (auto simp: delete_sparse_def documents_def Some split: option.splits)
      qed
    qed
  qed
qed

lemma inverted_new_ok: "inverted_ok inverted_new" "documents inverted_new = Map.empty"
  by (auto simp: inverted_ok_def inverted_new_def documents_def postings_of_def)

section \<open>The contract of a sparse index\<close>

locale sparse_index =
  fixes inv :: "'s \<Rightarrow> bool"
    and docs :: "'s \<Rightarrow> string \<rightharpoonup> sparse_doc"
    and new :: 's
    and ins :: "string \<Rightarrow> nat list \<Rightarrow> f32 list \<Rightarrow> 's \<Rightarrow> 's"
    and del :: "string \<Rightarrow> 's \<Rightarrow> 's \<times> bool"
    and srch :: "nat list \<Rightarrow> f32 list \<Rightarrow> nat \<Rightarrow> 's \<Rightarrow> sparse_search_result list"
    and len :: "'s \<Rightarrow> nat"
  assumes new_ok: "inv new" and new_docs: "docs new = Map.empty"
    and ins_ok: "inv s \<Longrightarrow> inv (ins d qi qv s)"
    and ins_docs: "inv s \<Longrightarrow> docs (ins d qi qv s) = (docs s)(d \<mapsto> doc_of qi qv)"
    and del_ok: "inv s \<Longrightarrow> inv (fst (del d s))"
    and del_docs: "inv s \<Longrightarrow> docs (fst (del d s)) = (docs s)(d := None)"
    and del_result: "inv s \<Longrightarrow> snd (del d s) \<longleftrightarrow> docs s d \<noteq> None"
    and srch_ref: "inv s \<Longrightarrow> srch qi qv k s = search_ref (docs s) qi qv k"
    and len_docs: "inv s \<Longrightarrow> len s = card (dom (docs s))"
    and finite_docs: "inv s \<Longrightarrow> finite (dom (docs s))"
begin

lemma run_ok: "inv s \<Longrightarrow> inv (fold (sparse_exec ins del) ops s)"
proof (induction ops arbitrary: s)
  case (Cons oper ops)
  then show ?case by (cases oper) (simp_all add: ins_ok del_ok)
qed simp

lemma run_docs: "inv s \<Longrightarrow> docs (fold (sparse_exec ins del) ops s) = fold docs_exec ops (docs s)"
proof (induction ops arbitrary: s)
  case (Cons oper ops)
  then show ?case by (cases oper) (simp_all add: ins_ok del_ok ins_docs del_docs fun_upd_def)
qed simp

lemma run_search:
  "srch qi qv k (fold (sparse_exec ins del) ops new) = search_ref (fold docs_exec ops Map.empty) qi qv k"
  using run_docs [OF new_ok] srch_ref [OF run_ok [OF new_ok]] by (simp add: new_docs)

lemma run_len: "len (fold (sparse_exec ins del) ops new) = card (dom (fold docs_exec ops Map.empty))"
  using run_docs [OF new_ok] len_docs [OF run_ok [OF new_ok]] by (simp add: new_docs)

lemma run_delete: "snd (del d (fold (sparse_exec ins del) ops new)) \<longleftrightarrow> fold docs_exec ops Map.empty d \<noteq> None"
  using run_docs [OF new_ok] del_result [OF run_ok [OF new_ok]] by (simp add: new_docs)

end

lemma inverted_sparse_index:
  assumes "hash_order it"
  shows "sparse_index inverted_ok documents inverted_new insert_sparse delete_sparse (search_sparse it) len_sparse"
  using assms by unfold_locales
    (auto simp: inverted_new_ok insert_sparse_ok delete_sparse_ok search_sparse_ref hash_order_def len_sparse_documents
      documents_finite)

interpretation inverted: sparse_index inverted_ok documents inverted_new insert_sparse delete_sparse
    "search_sparse (\<lambda>xs. xs)" len_sparse
  by (rule inverted_sparse_index) (simp add: hash_order_def)

section \<open>The contract of a vector index\<close>

locale vector_index =
  fixes inv :: "'s \<Rightarrow> bool"
    and dm :: nat
    and distance :: "f32 list \<Rightarrow> f32 list \<Rightarrow> f32"
    and vectors :: "'s \<Rightarrow> string \<rightharpoonup> f32 list"
    and new :: 's
    and ins :: "string \<Rightarrow> f32 list \<Rightarrow> 's \<Rightarrow> 's \<times> unit index_result"
    and del :: "string \<Rightarrow> 's \<Rightarrow> 's \<times> bool"
    and knn :: "f32 list \<Rightarrow> nat \<Rightarrow> 's \<Rightarrow> search_result list"
  assumes new_ok: "inv new" and new_vectors: "vectors new = Map.empty"
    and ins_ok: "inv s \<Longrightarrow> inv (fst (ins d v s))"
    and ins_vectors: "inv s \<Longrightarrow> vectors (fst (ins d v s)) = vectors_exec dm (VInsert d v) (vectors s)"
    and del_ok: "inv s \<Longrightarrow> inv (fst (del d s))"
    and del_vectors: "inv s \<Longrightarrow> vectors (fst (del d s)) = (vectors s)(d := None)"
    and knn_ref: "inv s \<Longrightarrow> knn q k s = knn_ref distance (vectors s) q k"
begin

lemma run_vectors:
  "inv s \<Longrightarrow> inv (fold (vector_exec ins del) ops s)
    \<and> vectors (fold (vector_exec ins del) ops s) = fold (vectors_exec dm) ops (vectors s)"
proof (induction ops arbitrary: s)
  case (Cons oper ops)
  then show ?case using ins_vectors by (cases oper) (simp_all add: ins_ok del_ok del_vectors fun_upd_def)
qed simp

lemma run_knn: "knn q k (fold (vector_exec ins del) ops new) = knn_ref distance (fold (vectors_exec dm) ops Map.empty) q k"
  using run_vectors [OF new_ok, of ops] by (simp add: knn_ref new_vectors)

end

lemma bt_keys: "bt_ok m \<Longrightarrow> map fst m = sorted_list_of_set (dom (map_of m))"
  by (rule sorted_distinct_set_unique)
    (auto simp: bt_ok_def strict_sorted_iff dom_map_of_conv_image_fst)

lemma exact_knn_ref:
  assumes "exact_ok ex"
  shows "exact_search_knn sq q k ex = knn_ref (cosine_distance sq) (map_of (ex_vectors ex)) q k"
proof -
  have bt: "bt_ok (ex_vectors ex)" using assms by (simp add: exact_ok_def)
  have "map (\<lambda>(d, v). \<lparr>rr_id = d, rr_distance = cosine_distance sq q v\<rparr>) (ex_vectors ex) =
      map (\<lambda>d. \<lparr>rr_id = d, rr_distance = cosine_distance sq q (the (map_of (ex_vectors ex) d))\<rparr>) (map fst (ex_vectors ex))"
    using map_of_bt [OF bt] by (auto simp: comp_def) (metis option.sel)
  then show ?thesis by (simp only: exact_search_knn_def knn_ref_def bt_keys [OF bt, symmetric])
qed

lemma exact_insert_ok:
  assumes "exact_ok ex"
  shows "exact_ok (fst (exact_insert d v ex))"
    and "map_of (ex_vectors (fst (exact_insert d v ex))) = vectors_exec (ex_dim ex) (VInsert d v) (map_of (ex_vectors ex))"
    and "ex_dim (fst (exact_insert d v ex)) = ex_dim ex"
  using assms set_bt_insert_subset [of d v "ex_vectors ex"]
  by (auto simp: exact_insert_def exact_ok_def bt_ok_insert map_of_bt_insert list_all_iff)

lemma exact_delete_ok:
  assumes "exact_ok ex"
  shows "exact_ok (fst (exact_delete d ex))"
    and "map_of (ex_vectors (fst (exact_delete d ex))) = (map_of (ex_vectors ex))(d := None)"
    and "ex_dim (fst (exact_delete d ex)) = ex_dim ex"
  using assms by (auto simp: exact_delete_def exact_ok_def bt_ok_remove map_of_bt_remove set_bt_remove)

lemma exact_new_ok: "exact_ok (exact_new dm)" "ex_dim (exact_new dm) = dm" "ex_vectors (exact_new dm) = []"
  by (simp_all add: exact_ok_def exact_new_def)

interpretation exact: vector_index "\<lambda>ex. exact_ok ex \<and> ex_dim ex = dm" dm "cosine_distance sq" "\<lambda>ex. map_of (ex_vectors ex)"
    "exact_new dm" exact_insert exact_delete "exact_search_knn sq"
  for dm :: nat and sq :: "f32 \<Rightarrow> f32"
  by unfold_locales
    (auto simp del: vectors_exec.simps simp: exact_insert_ok exact_delete_ok exact_knn_ref exact_new_ok)

section \<open>Document frequency\<close>

lemma distinct_doc_idx:
  "(\<And>i. length (filter (\<lambda>p. po_doc_idx p = i) l) \<le> 1) \<Longrightarrow> distinct (map po_doc_idx l)"
proof (induction l)
  case (Cons p l)
  have "length (filter (\<lambda>q. po_doc_idx q = i) l) \<le> 1" for i
    using Cons.prems [of i] by (simp split: if_splits)
  moreover have "filter (\<lambda>q. po_doc_idx q = po_doc_idx p) l = []" using Cons.prems [of "po_doc_idx p"] by simp
  ultimately show ?case using Cons.IH by (auto simp: filter_empty_conv)
qed simp

lemma doc_frequency_postings: "doc_frequency t ix = length (postings_of t (ix_postings ix))"
  by (simp add: doc_frequency_def postings_of_def split: option.splits)

lemma doc_frequency_documents:
  assumes ok: "inverted_ok ix" and one: "\<forall>d w. documents ix d = Some w \<longrightarrow> length (w t) \<le> 1"
  shows "doc_frequency t ix = card {d. \<exists>w. documents ix d = Some w \<and> w t \<noteq> []}"
proof -
  let ?l = "postings_of t (ix_postings ix)" and ?nth = "\<lambda>i. ix_doc_ids ix ! i"
  have live: "i < length (ix_doc_ids ix) \<and> i \<notin> set (ix_deleted ix) \<and> documents ix (?nth i) = Some (weights_of ix i)"
    if "i \<in> po_doc_idx ` set ?l" for i
    using that inverted_ok_live(2) [OF ok] documents_nth [OF ok] by blast
  have "length (filter (\<lambda>p. po_doc_idx p = i) ?l) \<le> 1" for i
  proof (cases "i \<in> po_doc_idx ` set ?l")
    case True
    then have "length (weights_of ix i t) \<le> 1" using live one by blast
    then show ?thesis by (simp add: weights_of_def)
  next
    case False
    then have "filter (\<lambda>p. po_doc_idx p = i) ?l = []" by (auto simp: filter_empty_conv)
    then show ?thesis by simp
  qed
  then have "length ?l = card (po_doc_idx ` set ?l)"
    using distinct_card [OF distinct_doc_idx] by (metis length_map list.set_map)
  also have "\<dots> = card (?nth ` po_doc_idx ` set ?l)"
    using live inverted_ok_live(3) [OF ok] by (intro card_image [symmetric] inj_onI) blast
  also have "?nth ` po_doc_idx ` set ?l = {d. \<exists>w. documents ix d = Some w \<and> w t \<noteq> []}" (is "?A = ?B")
  proof (intro set_eqI iffI)
    fix d assume "d \<in> ?A"
    then obtain p where p: "p \<in> set ?l" "d = ?nth (po_doc_idx p)" by blast
    then have "weights_of ix (po_doc_idx p) t \<noteq> []" by (auto simp: weights_of_def filter_empty_conv)
    then show "d \<in> ?B" using live [of "po_doc_idx p"] p by blast
  next
    fix d assume "d \<in> ?B"
    then obtain i where "d = ?nth i" "weights_of ix i t \<noteq> []" unfolding documents_Some [OF ok] by blast
    then show "d \<in> ?A" by (force simp: weights_of_def filter_empty_conv)
  qed
  finally show ?thesis by (simp add: doc_frequency_postings)
qed

lemma doc_frequency_le:
  assumes "inverted_ok ix" and "\<forall>d w. documents ix d = Some w \<longrightarrow> length (w t) \<le> 1"
  shows "doc_frequency t ix \<le> doc_count ix"
proof -
  have "card {d. \<exists>w. documents ix d = Some w \<and> w t \<noteq> []} \<le> card (dom (documents ix))"
    by (intro card_mono documents_finite [OF assms(1)]) auto
  then show ?thesis using doc_frequency_documents [OF assms] by (simp add: doc_count_def len_sparse_documents [OF assms(1)])
qed

section \<open>Loading the sidecar\<close>

lemma dec_enc_rat [simp]: "dec_rat (enc_rat r) = r"
proof -
  obtain n d where q: "quotient_of r = (n, d)" by fastforce
  have "0 < d" using quotient_of_denom_pos [OF q] .
  then have "dec_rat (enc_rat r) = of_int n / of_int d"
    by (simp add: dec_rat_def enc_rat_def q digits_value_show)
  then show ?thesis using quotient_of_div [OF q] by simp
qed

lemma dec_enc_posting [simp]: "dec_posting (enc_posting p) = p"
  by (simp add: dec_posting_def enc_posting_def Let_def digits_value_show)

lemma netstring_inverted_codec_ok: "inverted_codec_ok netstring_inverted_codec"
  unfolding inverted_codec_ok_def
  by (simp add: netstring_inverted_codec_def comp_def case_prod_beta Let_def digits_value_show)

lemma rebuild_map:
  assumes "distinct ds"
  shows "map_of (fold (\<lambda>(i, d). AList.update d i) (enumerate n ds) m) d = Some i \<longleftrightarrow>
    (n \<le> i \<and> i < n + length ds \<and> ds ! (i - n) = d) \<or> (d \<notin> set ds \<and> map_of m d = Some i)"
  using assms
proof (induction ds arbitrary: n m)
  case (Cons e ds)
  have "(n \<le> i \<and> i < n + length (e # ds) \<and> (e # ds) ! (i - n) = d) \<longleftrightarrow>
      (i = n \<and> d = e) \<or> (Suc n \<le> i \<and> i < Suc n + length ds \<and> ds ! (i - Suc n) = d)"
    by (auto simp: nth_Cons' not_less_eq_eq)
  then show ?case using Cons by (auto simp: update_conv')
qed auto

lemma load_sparse_ok:
  assumes "inverted_ok ix" and "ix' = rebuild_doc_id_map (ix\<lparr>ix_doc_id_map := []\<rparr>)"
  shows "inverted_ok ix' \<and> documents ix' = documents ix"
proof -
  have "distinct (ix_doc_ids ix)" using assms(1) by (simp add: inverted_ok_def)
  then have iff: "map_of (ix_doc_id_map ix') d = Some i \<longleftrightarrow> map_of (ix_doc_id_map ix) d = Some i" for d i
    using rebuild_map [of "ix_doc_ids ix" 0 "[]"] by (auto simp: assms(2) rebuild_doc_id_map_def inverted_ok_live(1) [OF assms(1)])
  have "map_of (ix_doc_id_map ix') d = map_of (ix_doc_id_map ix) d" for d
    using iff by (metis not_Some_eq)
  then have m: "map_of (ix_doc_id_map ix') = map_of (ix_doc_id_map ix)" by blast
  have f: "ix_postings ix' = ix_postings ix" "ix_doc_ids ix' = ix_doc_ids ix" "ix_deleted ix' = ix_deleted ix"
    by (simp_all add: assms(2) rebuild_doc_id_map_def)
  have w: "weights_of ix' = weights_of ix" by (intro ext) (simp add: weights_of_def f)
  have "inverted_ok ix'" using assms(1) by (simp add: inverted_ok_def m f)
  moreover have "documents ix' = documents ix" unfolding documents_def m f w .. 
  ultimately show ?thesis ..
qed

section \<open>Properties\<close>

text \<open>
  C5. The inverted index refines the map of documents: after any history of inserts, replacements
  and deletions, and in whatever order the hash map of scores is iterated, a search is the
  brute-force ranking of the documents that remain, bit for bit; the count is theirs, and a deletion
  reports whether its document was there.
\<close>

theorem inverted_refines:
  assumes "hash_order it"
  shows "let ix = fold (sparse_exec insert_sparse delete_sparse) ops inverted_new; docs = fold docs_exec ops Map.empty
    in search_sparse it qi qv k ix = search_ref docs qi qv k
      \<and> len_sparse ix = card (dom docs) \<and> (snd (delete_sparse d ix) \<longleftrightarrow> docs d \<noteq> None)"
proof -
  note spec = inverted_sparse_index [OF assms]
  show ?thesis
    unfolding Let_def
    using sparse_index.run_search [OF spec] inverted.run_len inverted.run_delete by blast
qed

lemma inverted_refines_witness:
  "let ix = fold (sparse_exec insert_sparse delete_sparse)
         [SInsert ''a'' [1, 2] [1, 1], SInsert ''b'' [2] [3], SDelete ''a''] inverted_new
   in search_sparse rev [2] [1] 5 ix
      = search_ref (fold docs_exec [SInsert ''a'' [1, 2] [1, 1], SInsert ''b'' [2] [3], SDelete ''a''] Map.empty) [2] [1] 5
     \<and> len_sparse ix = 1"
proof -
  let ?ops = "[SInsert ''a'' [1, 2] [1, 1], SInsert ''b'' [2] [3], SDelete ''a'']"
  have "hash_order (rev :: (nat \<times> f32) list \<Rightarrow> _)" by (simp add: hash_order_def)
  note inst = inverted_refines [OF this, of ?ops "[2]" "[1]" 5 "''a''"]
  have "dom (fold docs_exec ?ops Map.empty) = {''b''}" by auto
  then show ?thesis using inst by (simp only: Let_def) simp
qed

text \<open>
  C39. An index that any history of inserts and deletes built, written to its sidecar and loaded again, goes on as if it
  had never left memory, when the serializer round-trips, the write succeeds and the file can be read: after any
  further inserts and deletes the loaded index and the original count the same documents, answer every search alike and
  report alike whether a delete finds its document. This needs the id map, which is not serialized, to be rebuilt.
\<close>

theorem persist_load_search:
  assumes "inverted_codec_ok C" and "hash_order it" and "io_read io (path_join dir SPARSE_INDEX_FILE) = None"
    and "ix = fold (sparse_exec insert_sparse delete_sparse) ops inverted_new"
    and "persist_sparse C io dir ix fs = (fs', Inr ())"
  shows "\<exists>ix'. load_sparse C io dir fs' = Inr ix' \<and> (\<forall>t. doc_frequency t ix' = doc_frequency t ix)
    \<and> (\<forall>more. let loaded = fold (sparse_exec insert_sparse delete_sparse) more ix';
                  kept = fold (sparse_exec insert_sparse delete_sparse) more ix
         in len_sparse loaded = len_sparse kept
           \<and> (\<forall>qi qv k. search_sparse it qi qv k loaded = search_sparse it qi qv k kept)
           \<and> (\<forall>d. snd (delete_sparse d loaded) = snd (delete_sparse d kept)))"
proof -
  have fs': "fs' (path_join dir SPARSE_INDEX_FILE) = Some (xc_to_string C (inverted_data_of ix))"
    using assms(5) by (auto simp: persist_sparse_def Let_def split: option.splits prod.splits)
  define ix' where "ix' = rebuild_doc_id_map (ix\<lparr>ix_doc_id_map := []\<rparr>)"
  have eq: "\<lparr>ix_postings = ix_postings ix, ix_doc_ids = ix_doc_ids ix, ix_doc_id_map = [], ix_deleted = ix_deleted ix\<rparr> = ix\<lparr>ix_doc_id_map := []\<rparr>"
    by simp
  have load: "load_sparse C io dir fs' = Inr ix'"
    using fs' assms(1,3) unfolding ix'_def eq [symmetric] by (simp add: load_sparse_def Let_def inverted_codec_ok_def inverted_data_of_def)
  have ok: "inverted_ok ix" unfolding assms(4) by (rule inverted.run_ok [OF inverted.new_ok])
  note loaded = load_sparse_ok [OF ok ix'_def]
  have same: "len_sparse a = len_sparse b \<and> (\<forall>qi qv k. search_sparse it qi qv k a = search_sparse it qi qv k b)
      \<and> (\<forall>d. snd (delete_sparse d a) = snd (delete_sparse d b))"
    if "inverted_ok a" "inverted_ok b" "documents a = documents b" for a b
    using that sparse_index.srch_ref [OF inverted_sparse_index [OF assms(2)]] len_sparse_documents inverted.del_result by simp
  have "let loaded = fold (sparse_exec insert_sparse delete_sparse) more ix'; kept = fold (sparse_exec insert_sparse delete_sparse) more ix
      in len_sparse loaded = len_sparse kept \<and> (\<forall>qi qv k. search_sparse it qi qv k loaded = search_sparse it qi qv k kept)
        \<and> (\<forall>d. snd (delete_sparse d loaded) = snd (delete_sparse d kept))" for more
    unfolding Let_def by (rule same) (use ok loaded in \<open>simp_all add: inverted.run_ok inverted.run_docs\<close>)
  moreover have "doc_frequency t ix' = doc_frequency t ix" for t
    by (simp add: doc_frequency_def ix'_def rebuild_doc_id_map_def)
  ultimately show ?thesis using load by blast
qed

lemma persist_load_search_witness:
  "let io = \<lparr>io_create_dir = (\<lambda>d. None), io_write = (\<lambda>p. None), io_read = (\<lambda>p. None), io_parse_error = (\<lambda>s. [])\<rparr>;
       ix = fold (sparse_exec insert_sparse delete_sparse) [SInsert ''a'' [1] [1], SInsert ''b'' [1] [2], SDelete ''a''] inverted_new
   in \<exists>ix'. load_sparse netstring_inverted_codec io ''d''
          (fst (persist_sparse netstring_inverted_codec io ''d'' ix Map.empty)) = Inr ix'
       \<and> search_sparse rev [1] [1] 5 (fst (delete_sparse ''b'' ix')) = search_sparse rev [1] [1] 5 (fst (delete_sparse ''b'' ix))"
proof -
  define io where "io = \<lparr>io_create_dir = (\<lambda>d. None), io_write = (\<lambda>p. None), io_read = (\<lambda>p. None), io_parse_error = (\<lambda>s. [])\<rparr>"
  define ix where "ix = fold (sparse_exec insert_sparse delete_sparse)
    [SInsert ''a'' [1] [1], SInsert ''b'' [1] [2], SDelete ''a''] inverted_new"
  have order: "hash_order (rev :: (nat \<times> f32) list \<Rightarrow> _)" by (simp add: hash_order_def)
  have read: "io_read io p = None" for p by (simp add: io_def)
  have "persist_sparse netstring_inverted_codec io ''d'' ix Map.empty
      = (fst (persist_sparse netstring_inverted_codec io ''d'' ix Map.empty), Inr ())"
    by (simp add: persist_sparse_def io_def Let_def)
  from persist_load_search [OF netstring_inverted_codec_ok order read ix_def this]
  obtain ix' where "load_sparse netstring_inverted_codec io ''d'' (fst (persist_sparse netstring_inverted_codec io ''d'' ix Map.empty)) = Inr ix'"
    "\<forall>more. search_sparse rev [1] [1] 5 (fold (sparse_exec insert_sparse delete_sparse) more ix')
       = search_sparse rev [1] [1] 5 (fold (sparse_exec insert_sparse delete_sparse) more ix)"
    unfolding Let_def by blast
  moreover from this(2) [rule_format, of "[SDelete ''b'']"]
  have "search_sparse rev [1] [1] 5 (fst (delete_sparse ''b'' ix')) = search_sparse rev [1] [1] 5 (fst (delete_sparse ''b'' ix))" by simp
  ultimately show ?thesis unfolding Let_def io_def [symmetric] ix_def [symmetric] by blast
qed

text \<open>
  After any history in which each inserted document names a term at most once, the length of a
  posting list is the number of live documents that have the term, and so at most the document count.
\<close>

theorem doc_frequency_exact:
  assumes "\<forall>d qi qv. SInsert d qi qv \<in> set ops \<longrightarrow> distinct qi"
    and "ix = fold (sparse_exec insert_sparse delete_sparse) ops inverted_new" and "docs = fold docs_exec ops Map.empty"
  shows "doc_frequency t ix = card {d. \<exists>w. docs d = Some w \<and> w t \<noteq> []} \<and> doc_frequency t ix \<le> doc_count ix"
proof -
  have one: "length (doc_of qi qv t) \<le> 1" if "distinct qi" for qi qv
  proof -
    have "distinct (map fst (filter (\<lambda>(t', w). t' = t) (zip qi qv)))"
      using that by (induction qi arbitrary: qv) (auto simp: zip_Cons1 dest: set_zip_leftD split: list.splits)
    moreover have "set (map fst (filter (\<lambda>(t', w). t' = t) (zip qi qv))) \<subseteq> {t}" by auto
    ultimately have "length (map fst (filter (\<lambda>(t', w). t' = t) (zip qi qv))) \<le> card {t}"
      using distinct_card [of "map fst (filter (\<lambda>(t', w). t' = t) (zip qi qv))"] card_mono [of "{t}"] by (metis finite.emptyI finite.insertI)
    then show ?thesis by (simp add: doc_of_def)
  qed
  have keep: "\<forall>d w. m d = Some w \<longrightarrow> length (w t) \<le> 1 \<Longrightarrow>
      \<forall>d w. fold docs_exec ops m d = Some w \<longrightarrow> length (w t) \<le> 1" for m
    using assms(1)
  proof (induction ops arbitrary: m)
    case (Cons oper ops)
    have "\<forall>d w. docs_exec oper m d = Some w \<longrightarrow> length (w t) \<le> 1"
      using Cons.prems one by (cases oper) auto
    then have "\<forall>d w. fold docs_exec ops (docs_exec oper m) d = Some w \<longrightarrow> length (w t) \<le> 1"
      by (rule Cons.IH) (use Cons.prems(2) in auto)
    then show ?case by simp
  qed simp
  have ok: "inverted_ok ix" unfolding assms(2) by (rule inverted.run_ok [OF inverted.new_ok])
  have docs: "documents ix = docs"
    using inverted.run_docs [OF inverted.new_ok, of ops] by (simp add: assms(2,3) inverted.new_docs)
  have "\<forall>d w. documents ix d = Some w \<longrightarrow> length (w t) \<le> 1"
    using keep [of Map.empty] by (simp add: docs assms(3))
  from doc_frequency_documents [OF ok this] doc_frequency_le [OF ok this] show ?thesis by (simp add: docs)
qed

lemma doc_frequency_exact_witness:
  "doc_frequency 2 (fold (sparse_exec insert_sparse delete_sparse)
     [SInsert ''a'' [1, 2] [1, 1], SInsert ''b'' [2] [3], SInsert ''a'' [2] [1]] inverted_new) = 2"
proof -
  let ?ops = "[SInsert ''a'' [1, 2] [1, 1], SInsert ''b'' [2] [3], SInsert ''a'' [2] [1]]"
  have hyp: "\<forall>d qi qv. SInsert d qi qv \<in> set ?ops \<longrightarrow> distinct qi" by auto
  have "{d. \<exists>w. fold docs_exec ?ops Map.empty d = Some w \<and> w 2 \<noteq> []} = {''a'', ''b''}"
    by (auto simp: doc_of_def)
  then show ?thesis using doc_frequency_exact [OF hyp refl refl, of 2] by simp
qed

end
