(* ===== verification/Sparse_Encoder.thy ===== *)
theory Sparse_Encoder
  imports Text Inverted "HOL-Library.Word"
begin

unbundle bit_operations_syntax

text \<open>
  \<open>AstSparseEncoder\<close> (\<open>ministr-core/src/embedding/ast_sparse.rs\<close>), the lexical encoder of hybrid
  search: words and their parts are hashed to term ids, documents weighted by the role of the
  field they occur in, queries by the document frequencies of the inverted index. The natural
  logarithm on \<open>f32\<close> is an argument.
\<close>

definition W_NAME :: f32 where
  "W_NAME = 3"

definition W_DOC :: f32 where
  "W_DOC = 2"

definition W_SIG :: f32 where
  "W_SIG = 3 / 2"

definition W_BODY :: f32 where
  "W_BODY = 1 / 2"

definition fnv1a :: "string \<Rightarrow> 32 word" where
  "fnv1a token = fold (\<lambda>b h. (h XOR word_of_nat (of_char b)) * 0x01000193) token 0x811c9dc5"

definition term_id :: "string \<Rightarrow> nat" where
  "term_id token = unat (fnv1a token)"

section \<open>The analyzer\<close>

text \<open>The loop of \<open>subtokens\<close>: the parts found, the current part, whether a lower-case character or a digit came last.\<close>

fun subtoken_loop :: "char_tables \<Rightarrow> string list \<Rightarrow> string list \<Rightarrow> string \<Rightarrow> bool \<Rightarrow> string list" where
  "subtoken_loop T [] out cur prev_lower = (if cur \<noteq> [] then out @ [st_to_lower T cur] else out)"
| "subtoken_loop T (ch # cs) out cur prev_lower =
     (if ch = ''_'' then
        subtoken_loop T cs (if cur \<noteq> [] then out @ [st_to_lower T cur] else out) [] False
      else if ch_uppercase T ch \<and> prev_lower then
        subtoken_loop T cs (out @ [st_to_lower T cur]) ch False
      else
        subtoken_loop T cs out (cur @ ch) (ch_lowercase T ch \<or> (length ch = 1 \<and> is_ascii_digit (hd ch))))"

definition subtokens :: "char_tables \<Rightarrow> string \<Rightarrow> string list" where
  "subtokens T ident =
     remdups_adj (subtoken_loop T (utf8_chars ident) [st_to_lower T ident] [] False)"

definition is_word_boundary :: "char_tables \<Rightarrow> string \<Rightarrow> bool" where
  "is_word_boundary T c \<longleftrightarrow> \<not> ch_alphanumeric T c \<and> c \<noteq> ''_''"

definition analyze :: "char_tables \<Rightarrow> string \<Rightarrow> string list" where
  "analyze T text =
     concat (map (\<lambda>raw. if raw = [] then [] else filter (\<lambda>t. 1 < length t) (subtokens T raw))
       (split_where (is_word_boundary T) text))"

definition SOURCE_PREFIXES :: "string list" where
  "SOURCE_PREFIXES =
     [''///'', ''//!'', ''//'', ''#'', ''/*'', ''* '', ''pub '', ''fn '', ''def '', ''class '', ''func '',
      ''function '', ''struct '', ''impl '', ''public '', ''private '', ''type '', ''@'', ''package '',
      ''import '', ''use '', ''template'']"

definition starts_with :: "string \<Rightarrow> string \<Rightarrow> bool" where
  "starts_with s p \<longleftrightarrow> take (length p) s = p"

definition looks_source :: "string \<Rightarrow> bool" where
  "looks_source line = list_ex (starts_with (trim_start line)) SOURCE_PREFIXES"

record role_split =
  ro_doc :: string
  ro_sig :: string
  ro_body :: string
  ro_in_source :: bool

definition role_line :: "string \<Rightarrow> role_split \<Rightarrow> role_split" where
  "role_line line r =
     (if \<not> ro_in_source r \<and> looks_source line then r\<lparr>ro_in_source := True, ro_sig := line\<rparr>
      else if ro_in_source r then r\<lparr>ro_body := ro_body r @ line @ '' ''\<rparr>
      else r\<lparr>ro_doc := ro_doc r @ line @ '' ''\<rparr>)"

definition split_roles :: "string \<Rightarrow> string \<times> string \<times> string" where
  "split_roles text =
     (let r = fold role_line (str_lines text) \<lparr>ro_doc = [], ro_sig = [], ro_body = [], ro_in_source = False\<rparr>
      in (ro_doc r, ro_sig r, ro_body r))"

definition name_from_id :: "string \<Rightarrow> string" where
  "name_from_id d =
     (let anchor = (case rsplit_once ''#'' d of
                      Some (_, a) \<Rightarrow> a
                    | None \<Rightarrow> (case rsplit_once ''::'' d of Some (_, a) \<Rightarrow> a | None \<Rightarrow> d))
      in str_replace ''::'' '' '' anchor)"

section \<open>Document and query vectors\<close>

type_synonym term_weights = "(nat, f32) btree"

definition bump :: "nat \<Rightarrow> f32 \<Rightarrow> term_weights \<Rightarrow> term_weights" where
  "bump t x m = bt_insert t (fadd32 (case map_of m t of None \<Rightarrow> 0 | Some v \<Rightarrow> v) x) m"

definition term_frequencies :: "char_tables \<Rightarrow> string \<Rightarrow> term_weights" where
  "term_frequencies T field = fold (\<lambda>tok. bump (term_id tok) 1) (analyze T field) []"

definition add_field :: "char_tables \<Rightarrow> f32 \<times> string \<Rightarrow> term_weights \<Rightarrow> term_weights" where
  "add_field T fld acc =
     fold (\<lambda>(t, f). bump t (fdiv32 (fmul32 (fst fld) f) (fadd32 1 f))) (term_frequencies T (snd fld)) acc"

record sparse_vector =
  sv_indices :: "nat list"
  sv_values :: "f32 list"

definition unzip_vector :: "term_weights \<Rightarrow> sparse_vector" where
  "unzip_vector m = \<lparr>sv_indices = map fst m, sv_values = map snd m\<rparr>"

definition doc_vector :: "char_tables \<Rightarrow> string \<Rightarrow> string \<Rightarrow> string \<Rightarrow> string \<Rightarrow> sparse_vector" where
  "doc_vector T name doc sig body =
     unzip_vector (fold (add_field T) [(W_NAME, name), (W_DOC, doc), (W_SIG, sig), (W_BODY, body)] [])"

definition embed_sparse :: "char_tables \<Rightarrow> string list \<Rightarrow> sparse_vector list" where
  "embed_sparse T texts = map (\<lambda>t. let (doc, sig, body) = split_roles t in doc_vector T [] doc sig body) texts"

definition embed_sparse_docs :: "char_tables \<Rightarrow> (string \<times> string) list \<Rightarrow> sparse_vector list" where
  "embed_sparse_docs T entries =
     map (\<lambda>(d, t). let (doc, sig, body) = split_roles t in doc_vector T (name_from_id d) doc sig body) entries"

definition idf :: "(f32 \<Rightarrow> f32) \<Rightarrow> inverted_index \<Rightarrow> nat \<Rightarrow> f32" where
  "idf lg ix t =
     (let n_docs = f32_of_nat (doc_count ix); df = f32_of_nat (doc_frequency t ix)
      in lg (fadd32 1 (fdiv32 (fadd32 (fsub32 n_docs df) (1 / 2)) (fadd32 df (1 / 2)))))"

definition or_insert :: "'k::linorder \<Rightarrow> 'v \<Rightarrow> ('k, 'v) btree \<Rightarrow> ('k, 'v) btree" where
  "or_insert k v m = (if map_of m k = None then bt_insert k v m else m)"

definition query_vector :: "char_tables \<Rightarrow> (f32 \<Rightarrow> f32) \<Rightarrow> inverted_index \<Rightarrow> string \<Rightarrow> sparse_vector" where
  "query_vector T lg ix text =
     unzip_vector (fold (\<lambda>tok. or_insert (term_id tok) (idf lg ix (term_id tok))) (analyze T text) [])"

definition embed_sparse_query :: "char_tables \<Rightarrow> (f32 \<Rightarrow> f32) \<Rightarrow> inverted_index \<Rightarrow> string list \<Rightarrow> sparse_vector list" where
  "embed_sparse_query T lg ix texts = map (query_vector T lg ix) texts"

section \<open>A corpus and its searches\<close>

text \<open>
  A history of a corpus: a text ingested under an id, or an id deleted. \<open>lexical_search\<close> is what
  the search pipeline does with this encoder: encode the query against the index, search the index.
\<close>

type_synonym corpus_history = "(string \<times> string option) list"

definition doc_encoding :: "char_tables \<Rightarrow> string \<Rightarrow> string \<Rightarrow> sparse_vector" where
  "doc_encoding T d text = hd (embed_sparse_docs T [(d, text)])"

fun corpus_op :: "char_tables \<Rightarrow> string \<times> string option \<Rightarrow> sparse_op" where
  "corpus_op T (d, Some text) = SInsert d (sv_indices (doc_encoding T d text)) (sv_values (doc_encoding T d text))"
| "corpus_op T (d, None) = SDelete d"

definition corpus_index :: "char_tables \<Rightarrow> corpus_history \<Rightarrow> inverted_index" where
  "corpus_index T h = fold (sparse_exec insert_sparse delete_sparse) (map (corpus_op T) h) inverted_new"

definition corpus_texts :: "corpus_history \<Rightarrow> string \<rightharpoonup> string" where
  "corpus_texts h = fold (\<lambda>(d, t) m. m(d := t)) h Map.empty"

definition lexical_search ::
    "char_tables \<Rightarrow> (f32 \<Rightarrow> f32) \<Rightarrow> ((nat \<times> f32) list \<Rightarrow> (nat \<times> f32) list) \<Rightarrow> string \<Rightarrow> nat \<Rightarrow> inverted_index
      \<Rightarrow> sparse_search_result list" where
  "lexical_search T lg it query k ix =
     (let v = hd (embed_sparse_query T lg ix [query]) in search_sparse it (sv_indices v) (sv_values v) k ix)"

text \<open>What is used of the logarithm: it is not negative from one on.\<close>

definition log_ok :: "(f32 \<Rightarrow> f32) \<Rightarrow> bool" where
  "log_ok lg \<longleftrightarrow> (\<forall>x \<ge> 1. 0 \<le> lg x)"

text \<open>The terms of a document: those of its name, and of the three parts of its text.\<close>

definition doc_tokens :: "char_tables \<Rightarrow> string \<Rightarrow> string \<Rightarrow> string list" where
  "doc_tokens T d text =
     (let (doc, sig, body) = split_roles text
      in analyze T (name_from_id d) @ analyze T doc @ analyze T sig @ analyze T body)"

section \<open>Term weights\<close>

lemma map_of_bump: "map_of (bump t x m) = (map_of m)(t \<mapsto> fadd32 (case map_of m t of None \<Rightarrow> 0 | Some v \<Rightarrow> v) x)"
  by (simp add: bump_def map_of_bt_insert)

lemma fadd32_ge: "0 \<le> a \<Longrightarrow> rnd32 b = b \<Longrightarrow> b \<le> fadd32 a b"
  using rnd32_mono [of b "a + b"] by (simp add: fadd32_def)

lemma fold_bump:
  assumes "bt_ok m" and "0 \<le> c" and "\<forall>v \<in> ran (map_of m). c \<le> v" and "\<forall>(t, x) \<in> set l. c \<le> x \<and> rnd32 x = x"
  shows "bt_ok (fold (\<lambda>(t, x). bump t x) l m)
    \<and> dom (map_of (fold (\<lambda>(t, x). bump t x) l m)) = dom (map_of m) \<union> fst ` set l
    \<and> (\<forall>v \<in> ran (map_of (fold (\<lambda>(t, x). bump t x) l m)). c \<le> v)"
  using assms
proof (induction l arbitrary: m)
  case (Cons tx l)
  obtain t x where tx: "tx = (t, x)" by fastforce
  let ?old = "case map_of m t of None \<Rightarrow> 0 | Some v \<Rightarrow> v"
  have "0 \<le> ?old"
    using Cons.prems(2,3) by (auto simp: ran_def split: option.splits intro: order_trans)
  then have "c \<le> fadd32 ?old x" using Cons.prems(4) fadd32_ge [of ?old x] by (auto simp: tx intro: order_trans)
  then have "\<forall>v \<in> ran (map_of (bump t x m)). c \<le> v" using Cons.prems(3) by (auto simp: map_of_bump ran_def)
  moreover have "bt_ok (bump t x m)" using Cons.prems(1) by (simp add: bump_def bt_ok_insert)
  ultimately have "bt_ok (fold (\<lambda>(t, x). bump t x) l (bump t x m))
      \<and> dom (map_of (fold (\<lambda>(t, x). bump t x) l (bump t x m))) = dom (map_of (bump t x m)) \<union> fst ` set l
      \<and> (\<forall>v \<in> ran (map_of (fold (\<lambda>(t, x). bump t x) l (bump t x m))). c \<le> v)"
    using Cons.prems(2,4) by (intro Cons.IH) auto
  moreover have "dom (map_of (bump t x m)) = insert t (dom (map_of m))" by (auto simp: map_of_bump)
  ultimately show ?case by (simp add: tx)
qed simp

lemma term_frequencies_ok:
  "bt_ok (term_frequencies T field) \<and> dom (map_of (term_frequencies T field)) = term_id ` set (analyze T field)
    \<and> (\<forall>v \<in> ran (map_of (term_frequencies T field)). 1 \<le> v)"
  using fold_bump [of "[]" 1 "map (\<lambda>tok. (term_id tok, 1)) (analyze T field)"]
  by (auto simp: term_frequencies_def fold_map comp_def image_image)

lemma contribution_pos:
  assumes "1 / 2 \<le> w" and "1 \<le> f"
  shows "1 / 32 \<le> fdiv32 (fmul32 w f) (fadd32 1 f)"
proof -
  have "1 / 2 * 1 \<le> w * f" using assms by (intro mult_mono) auto
  moreover have "1 / 2 * f \<le> w * f" using assms by (intro mult_right_mono) auto
  ultimately have a: "f / 4 \<le> fmul32 w f" using rnd32_bounds(1) [OF pow2_tiny, of "w * f"] by (simp add: fmul32_def)
  have "fadd32 1 f \<le> 2 * (1 + f)" unfolding fadd32_def by (rule rnd32_bounds(2) [OF pow2_tiny]) (use assms in simp)
  then have b: "fadd32 1 f \<le> 4 * f" using assms(2) by simp
  have c: "0 < fadd32 1 f" using rnd32_bounds(1) [OF pow2_tiny, of "1 + f"] assms(2) by (simp add: fadd32_def)
  have "1 / 16 * fadd32 1 f \<le> f / 4" using b by simp
  then have q: "1 / 16 \<le> fmul32 w f / fadd32 1 f" using a c by (simp add: pos_le_divide_eq)
  have "x / 2 < rnd32 x" if "1 / 16 \<le> x" for x by (intro rnd32_bounds(1) pow2_tiny) (use that in simp)
  then have "1 / 32 \<le> rnd32 x" if "1 / 16 \<le> x" for x using that by fastforce
  then show ?thesis using q unfolding fdiv32_def by blast
qed

lemma add_field_ok:
  assumes "bt_ok acc" and "\<forall>v \<in> ran (map_of acc). 1 / 32 \<le> v" and "1 / 2 \<le> fst fld"
  shows "bt_ok (add_field T fld acc)
    \<and> dom (map_of (add_field T fld acc)) = dom (map_of acc) \<union> term_id ` set (analyze T (snd fld))
    \<and> (\<forall>v \<in> ran (map_of (add_field T fld acc)). 1 / 32 \<le> v)"
proof -
  let ?tf = "term_frequencies T (snd fld)"
  let ?l = "map (\<lambda>(t, f). (t, fdiv32 (fmul32 (fst fld) f) (fadd32 1 f))) ?tf"
  note tf = term_frequencies_ok [of T "snd fld"]
  have "1 \<le> f" if "(t, f) \<in> set ?tf" for t f
    using that tf map_of_bt [of ?tf t f] by (auto simp: ran_def)
  then have "\<forall>(t, x) \<in> set ?l. 1 / 32 \<le> x \<and> rnd32 x = x"
    using contribution_pos [OF assms(3)] by (auto simp: fdiv32_def)
  moreover have "fst ` set ?l = term_id ` set (analyze T (snd fld))"
    using tf by (auto simp: dom_map_of_conv_image_fst image_image case_prod_beta)
  moreover have "add_field T fld acc = fold (\<lambda>(t, x). bump t x) ?l acc"
    by (simp add: add_field_def fold_map comp_def case_prod_unfold)
  ultimately show ?thesis using fold_bump [of acc "1 / 32" ?l] assms(1,2) by simp
qed

lemma doc_vector_map:
  assumes "v = doc_vector T name doc sig body"
  obtains m where "v = unzip_vector m" "bt_ok m" "\<forall>x \<in> ran (map_of m). 1 / 32 \<le> x"
    "dom (map_of m) = term_id ` set (analyze T name @ analyze T doc @ analyze T sig @ analyze T body)"
proof -
  define m1 where "m1 = add_field T (W_NAME, name) []"
  define m2 where "m2 = add_field T (W_DOC, doc) m1"
  define m3 where "m3 = add_field T (W_SIG, sig) m2"
  define m4 where "m4 = add_field T (W_BODY, body) m3"
  note ws = W_NAME_def W_DOC_def W_SIG_def W_BODY_def
  have 1: "bt_ok m1 \<and> dom (map_of m1) = term_id ` set (analyze T name) \<and> (\<forall>x \<in> ran (map_of m1). 1 / 32 \<le> x)"
    using add_field_ok [of "[]" "(W_NAME, name)" T] by (simp add: m1_def ws)
  then have 2: "bt_ok m2 \<and> dom (map_of m2) = dom (map_of m1) \<union> term_id ` set (analyze T doc) \<and> (\<forall>x \<in> ran (map_of m2). 1 / 32 \<le> x)"
    using add_field_ok [of m1 "(W_DOC, doc)" T] by (simp add: m2_def ws)
  then have 3: "bt_ok m3 \<and> dom (map_of m3) = dom (map_of m2) \<union> term_id ` set (analyze T sig) \<and> (\<forall>x \<in> ran (map_of m3). 1 / 32 \<le> x)"
    using add_field_ok [of m2 "(W_SIG, sig)" T] by (simp add: m3_def ws)
  then have 4: "bt_ok m4 \<and> dom (map_of m4) = dom (map_of m3) \<union> term_id ` set (analyze T body) \<and> (\<forall>x \<in> ran (map_of m4). 1 / 32 \<le> x)"
    using add_field_ok [of m3 "(W_BODY, body)" T] by (simp add: m4_def ws)
  have "v = unzip_vector m4" by (simp add: assms doc_vector_def m1_def m2_def m3_def m4_def)
  then show ?thesis using 1 2 3 4 by (intro that [of m4]) (auto simp: image_Un)
qed

lemma doc_encoding_map:
  obtains m where "doc_encoding T d text = unzip_vector m" "bt_ok m" "\<forall>x \<in> ran (map_of m). 1 / 32 \<le> x"
    "dom (map_of m) = term_id ` set (doc_tokens T d text)"
proof -
  obtain doc sig body where r: "split_roles text = (doc, sig, body)" by (metis prod_cases3)
  have e: "doc_encoding T d text = doc_vector T (name_from_id d) doc sig body"
    by (simp add: doc_encoding_def embed_sparse_docs_def r)
  show ?thesis using doc_vector_map [OF e] that by (auto simp: doc_tokens_def r)
qed

lemma query_vector_map:
  obtains m where "query_vector T lg ix text = unzip_vector m" "bt_ok m"
    "dom (map_of m) = term_id ` set (analyze T text)" "\<forall>t \<in> dom (map_of m). map_of m t = Some (idf lg ix t)"
proof -
  let ?f = "\<lambda>tok. or_insert (term_id tok) (idf lg ix (term_id tok))"
  have run: "bt_ok (fold ?f toks m) \<and> dom (map_of (fold ?f toks m)) = dom (map_of m) \<union> term_id ` set toks
      \<and> (\<forall>t \<in> dom (map_of (fold ?f toks m)). map_of (fold ?f toks m) t = Some (idf lg ix t))"
    if "bt_ok m" "\<forall>t \<in> dom (map_of m). map_of m t = Some (idf lg ix t)" for toks m
    using that
  proof (induction toks arbitrary: m)
    case (Cons tok toks)
    have step: "bt_ok (?f tok m)" "\<forall>t \<in> dom (map_of (?f tok m)). map_of (?f tok m) t = Some (idf lg ix t)"
      "dom (map_of (?f tok m)) = insert (term_id tok) (dom (map_of m))"
      using Cons.prems by (auto simp: or_insert_def bt_ok_insert map_of_bt_insert)
    show ?case using Cons.IH [OF step(1,2)] unfolding fold_Cons comp_apply step(3) list.set image_insert by blast
  qed simp
  show ?thesis using run [of "[]" "analyze T text"]
    by (intro that [of "fold ?f (analyze T text) []"]) (simp_all add: query_vector_def)
qed

lemma unzip_zip [simp]: "zip (sv_indices (unzip_vector m)) (sv_values (unzip_vector m)) = m"
  by (simp add: unzip_vector_def zip_map_fst_snd)

lemma unzip_distinct: "bt_ok m \<Longrightarrow> distinct (sv_indices (unzip_vector m))"
  by (simp add: unzip_vector_def bt_ok_distinct)

lemma doc_of_unzip:
  assumes "bt_ok m"
  shows "doc_of (sv_indices (unzip_vector m)) (sv_values (unzip_vector m)) t = (case map_of m t of None \<Rightarrow> [] | Some w \<Rightarrow> [w])"
proof -
  have "map snd (filter (\<lambda>(t', w). t' = t) m) = (case map_of m t of None \<Rightarrow> [] | Some w \<Rightarrow> [w])"
    using bt_ok_distinct [OF assms]
  proof (induction m)
    case (Cons p m)
    have "filter (\<lambda>(t', w). t' = t) m = []" if "fst p = t"
      using Cons.prems that unfolding filter_empty_conv by (auto simp: image_iff case_prod_unfold)
    then show ?case using Cons by (cases p) auto
  qed simp
  then show ?thesis by (simp add: doc_of_def)
qed

section \<open>The documents of a corpus\<close>

definition encoded_doc :: "char_tables \<Rightarrow> string \<Rightarrow> string \<Rightarrow> sparse_doc" where
  "encoded_doc T d text = doc_of (sv_indices (doc_encoding T d text)) (sv_values (doc_encoding T d text))"

lemma corpus_docs:
  "fold docs_exec (map (corpus_op T) h) Map.empty = (\<lambda>d. map_option (encoded_doc T d) (corpus_texts h d))"
proof -
  have "fold docs_exec (map (corpus_op T) h) (\<lambda>d. map_option (encoded_doc T d) (m d))
      = (\<lambda>d. map_option (encoded_doc T d) (fold (\<lambda>(d, t) m. m(d := t)) h m d))" for m
  proof (induction h arbitrary: m)
    case (Cons x h)
    obtain d t where x: "x = (d, t)" by fastforce
    have "docs_exec (corpus_op T (d, t)) (\<lambda>d. map_option (encoded_doc T d) (m d))
        = (\<lambda>e. map_option (encoded_doc T e) ((m(d := t)) e))"
      by (cases t) (auto simp: fun_eq_iff encoded_doc_def)
    then show ?case using Cons.IH [of "m(d := t)"] by (simp add: x)
  qed simp
  from this [of Map.empty] show ?thesis by (simp add: corpus_texts_def)
qed

lemma encoded_doc_term: "encoded_doc T d text t \<noteq> [] \<longleftrightarrow> t \<in> term_id ` set (doc_tokens T d text)"
proof -
  obtain m where m: "doc_encoding T d text = unzip_vector m" "bt_ok m" "dom (map_of m) = term_id ` set (doc_tokens T d text)"
    using doc_encoding_map by metis
  show ?thesis
    unfolding m(3) [symmetric] encoded_doc_def m(1) doc_of_unzip [OF m(2)] by (auto split: option.splits)
qed

lemma encoded_doc_pos: "\<forall>w \<in> set (encoded_doc T d text t). 0 \<le> w"
proof -
  obtain m where m: "doc_encoding T d text = unzip_vector m" "bt_ok m" "\<forall>x \<in> ran (map_of m). 1 / 32 \<le> x"
    using doc_encoding_map by metis
  have "0 \<le> w" if "map_of m t = Some w" for w
    using m(3) that by (fastforce simp: ran_def)
  then show ?thesis unfolding encoded_doc_def m(1) doc_of_unzip [OF m(2)] by (auto split: option.splits)
qed

lemma has_term_query:
  assumes "length qi = length qv"
  shows "has_term (zip qi qv) w \<longleftrightarrow> (\<exists>t \<in> set qi. w t \<noteq> [])"
proof -
  have "set qi = fst ` set (zip qi qv)" using assms by (metis map_fst_zip list.set_map)
  then show ?thesis by (force simp: has_term_def)
qed

lemma dot_nonneg:
  assumes "\<forall>(t, q) \<in> set query. 0 \<le> q" and "\<forall>t. \<forall>x \<in> set (w t). 0 \<le> x"
  shows "0 \<le> dot query w"
proof -
  have step: "0 \<le> fold (\<lambda>x s. fadd32 s (fmul32 q x)) xs s" if "0 \<le> q" "\<forall>x \<in> set xs. 0 \<le> x" "0 \<le> s" for q xs s
    using that by (induction xs arbitrary: s) (simp_all add: fadd32_def fmul32_def rnd32_nonneg)
  have "0 \<le> fold (dot_step w) query s" if "0 \<le> s" for s
    using that assms by (induction query arbitrary: s) (auto simp: dot_step_def step)
  then show ?thesis by (simp add: dot_def)
qed

text \<open>The whole ranking, when as many results are asked for as there are documents.\<close>

lemma search_ref_all:
  assumes "finite (dom docs)" and "card (dom docs) \<le> k"
  shows "set (search_ref docs qi qv k) =
    {\<lparr>ss_id = d, ss_score = dot (zip qi qv) w\<rparr> | d w. docs d = Some w \<and> has_term (zip qi qv) w}"
proof -
  let ?q = "zip qi qv"
  have "length (ranked (sorted_list_of_set (dom docs)) docs ?q) \<le> card (dom docs)"
    by (simp add: ranked_def) (metis length_filter_le sorted_list_of_set.length_sorted_key_list_of_set)
  then have "take k (ranked (sorted_list_of_set (dom docs)) docs ?q) = ranked (sorted_list_of_set (dom docs)) docs ?q"
    using assms(2) by simp
  moreover have "set (ranked (sorted_list_of_set (dom docs)) docs ?q) = {(d, dot ?q w) | d w. docs d = Some w \<and> has_term ?q w}"
    using assms(1) by (auto simp: ranked_def image_iff)
  ultimately show ?thesis unfolding search_ref_def by (auto simp: image_iff)
qed

lemma corpus_count: "doc_count (corpus_index T h) = card (dom (corpus_texts h))"
proof -
  have "dom (\<lambda>d. map_option (encoded_doc T d) (corpus_texts h d)) = dom (corpus_texts h)" by (auto simp: dom_def)
  then show ?thesis unfolding doc_count_def corpus_index_def inverted.run_len corpus_docs by simp
qed

section \<open>Words survive the analyzer\<close>

lemma subtoken_loop_keeps: "set out \<subseteq> set (subtoken_loop T cs out cur prev)"
proof (induction T cs out cur prev rule: subtoken_loop.induct)
  case (2 T ch cs out cur prev)
  then show ?case by (auto split: if_splits)
qed auto

lemma raw_word_kept:
  assumes "w \<in> set (split_where (is_word_boundary T) text)" and "w \<noteq> []" and "1 < length (st_to_lower T w)"
  shows "st_to_lower T w \<in> set (analyze T text)"
proof -
  have "st_to_lower T w \<in> set (subtokens T w)"
    using subtoken_loop_keeps [of "[st_to_lower T w]"] by (auto simp: subtokens_def)
  then show ?thesis using assms by (force simp: analyze_def)
qed

lemma idf_nonneg:
  assumes "log_ok lg" and "doc_frequency t ix \<le> doc_count ix"
  shows "0 \<le> idf lg ix t"
proof -
  let ?n = "f32_of_nat (doc_count ix)" and ?df = "f32_of_nat (doc_frequency t ix)"
  have "0 \<le> fsub32 ?n ?df" unfolding fsub32_def using f32_of_nat_mono [OF assms(2)] by (intro rnd32_nonneg) simp
  then have "0 \<le> fdiv32 (fadd32 (fsub32 ?n ?df) (1 / 2)) (fadd32 ?df (1 / 2))"
    unfolding fdiv32_def fadd32_def by (intro rnd32_nonneg divide_nonneg_nonneg) simp_all
  then have "1 \<le> fadd32 1 (fdiv32 (fadd32 (fsub32 ?n ?df) (1 / 2)) (fadd32 ?df (1 / 2)))"
    unfolding fadd32_def [of 1] by (intro rnd32_ge_1) simp
  then show ?thesis using assms(1) unfolding idf_def Let_def log_ok_def by blast
qed

lemma corpus_frequency: "doc_frequency t (corpus_index T h) \<le> doc_count (corpus_index T h)"
proof -
  have ok: "inverted_ok (corpus_index T h)"
    unfolding corpus_index_def by (rule inverted.run_ok [OF inverted.new_ok])
  have docs: "documents (corpus_index T h) = (\<lambda>d. map_option (encoded_doc T d) (corpus_texts h d))"
    unfolding corpus_index_def corpus_docs [symmetric] using inverted.run_docs [OF inverted.new_ok] by (simp add: inverted.new_docs)
  have "length (encoded_doc T d tx t) \<le> 1" for d tx
  proof -
    obtain m where m: "doc_encoding T d tx = unzip_vector m" "bt_ok m" using doc_encoding_map by metis
    then show ?thesis unfolding encoded_doc_def m(1) doc_of_unzip [OF m(2)] by (simp split: option.splits)
  qed
  then show ?thesis by (intro doc_frequency_le [OF ok]) (auto simp: docs)
qed

lemma search_ref_sorted:
  "distinct (map ss_id (search_ref docs qi qv k))
    \<and> sorted_wrt (\<lambda>a b. ss_score b < ss_score a \<or> ss_score a = ss_score b \<and> ss_id a \<le> ss_id b) (search_ref docs qi qv k)"
proof -
  let ?r = "ranked (sorted_list_of_set (dom docs)) docs (zip qi qv)"
  have "sorted (map (\<lambda>(d, s). (- s, d)) ?r)" unfolding ranked_def by (rule sorted_sort_key)
  then have "sorted_wrt (\<lambda>a b. snd b < snd a \<or> snd a = snd b \<and> fst a \<le> fst b) ?r"
    unfolding sorted_wrt_map by (rule sorted_wrt_mono_rel [rotated]) (auto simp: less_eq_prod_def)
  then have "sorted_wrt (\<lambda>a b. ss_score b < ss_score a \<or> ss_score a = ss_score b \<and> ss_id a \<le> ss_id b) (search_ref docs qi qv k)"
    unfolding search_ref_def sorted_wrt_map by (intro sorted_wrt_take) (simp add: case_prod_unfold)
  moreover have "distinct (map fst ?r)"
  proof -
    have "mset (map fst ?r) = mset (filter (\<lambda>d. has_term (zip qi qv) (the (docs d))) (sorted_list_of_set (dom docs)))"
      by (simp add: ranked_def image_mset.compositionality comp_def)
    then show ?thesis by (metis distinct_filter distinct_sorted_list_of_set mset_eq_imp_distinct_iff)
  qed
  then have "distinct (map ss_id (search_ref docs qi qv k))"
    by (simp add: search_ref_def comp_def case_prod_unfold take_map [symmetric])
  ultimately show ?thesis by blast
qed

lemma lexical_results:
  assumes "hash_order it" and "log_ok lg"
    and "ix = corpus_index T h" and "doc_count ix \<le> k" and "rs = lexical_search T lg it query k ix"
  shows "ss_id ` set rs =
      {d. \<exists>text. corpus_texts h d = Some text \<and> term_id ` set (analyze T query) \<inter> term_id ` set (doc_tokens T d text) \<noteq> {}}
    \<and> (\<forall>r \<in> set rs. 0 \<le> ss_score r) \<and> distinct (map ss_id rs)
    \<and> sorted_wrt (\<lambda>a b. ss_score b < ss_score a \<or> ss_score a = ss_score b \<and> ss_id a \<le> ss_id b) rs"
proof -
  obtain m where m: "query_vector T lg ix query = unzip_vector m" "bt_ok m"
    "dom (map_of m) = term_id ` set (analyze T query)" "\<forall>t \<in> dom (map_of m). map_of m t = Some (idf lg ix t)"
    using query_vector_map by metis
  let ?docs = "\<lambda>d. map_option (encoded_doc T d) (corpus_texts h d)"
  let ?v = "unzip_vector m"
  let ?ref = "search_ref ?docs (sv_indices ?v) (sv_values ?v) k"
  note spec = inverted_sparse_index [OF assms(1)]
  have ok: "inverted_ok ix" unfolding assms(3) corpus_index_def by (rule inverted.run_ok [OF inverted.new_ok])
  have docs: "documents ix = ?docs"
    unfolding assms(3) corpus_index_def corpus_docs [symmetric] using inverted.run_docs [OF inverted.new_ok]
    by (simp add: inverted.new_docs)
  have "search_sparse it (sv_indices ?v) (sv_values ?v) k ix = ?ref"
    using sparse_index.srch_ref [OF spec ok] by (simp add: docs)
  then have rs: "rs = ?ref" by (simp add: assms(5) lexical_search_def embed_sparse_query_def m(1) Let_def)
  have card: "card (dom ?docs) \<le> k" "finite (dom ?docs)"
    using assms(4) len_sparse_documents [OF ok] documents_finite [OF ok] by (simp_all add: doc_count_def docs)
  have q: "has_term m w \<longleftrightarrow> (\<exists>t \<in> term_id ` set (analyze T query). w t \<noteq> [])" for w
    unfolding m(3) [symmetric] by (force simp: has_term_def dom_map_of_conv_image_fst)
  define share where "share d tx \<longleftrightarrow> term_id ` set (analyze T query) \<inter> term_id ` set (doc_tokens T d tx) \<noteq> {}" for d tx
  have "has_term m (encoded_doc T d tx) \<longleftrightarrow> share d tx" for d tx
    unfolding q share_def encoded_doc_term by blast
  then have set: "set rs = {\<lparr>ss_id = d, ss_score = dot m (encoded_doc T d tx)\<rparr> | d tx. corpus_texts h d = Some tx \<and> share d tx}"
    unfolding rs search_ref_all [OF card(2,1)] by auto
  have "0 \<le> dot m (encoded_doc T d tx)" for d tx
  proof (rule dot_nonneg)
    have "0 \<le> q" if "(t, q) \<in> set m" for t q
    proof -
      have "map_of m t = Some q" using that map_of_bt [OF m(2)] by simp
      moreover from this have "map_of m t = Some (idf lg ix t)" using m(4) by blast
      ultimately have "q = idf lg ix t" by simp
      then show ?thesis unfolding assms(3) using idf_nonneg [OF assms(2) corpus_frequency] by simp
    qed
    then show "\<forall>(t, q) \<in> set m. 0 \<le> q" by blast
  qed (simp add: encoded_doc_pos)
  then have "\<forall>r \<in> set rs. 0 \<le> ss_score r" by (auto simp: set)
  moreover have "ss_id ` set rs = {d. \<exists>tx. corpus_texts h d = Some tx \<and> share d tx}" unfolding set by force
  moreover have "distinct (map ss_id rs) \<and> sorted_wrt (\<lambda>a b. ss_score b < ss_score a \<or> ss_score a = ss_score b \<and> ss_id a \<le> ss_id b) rs"
    unfolding rs by (rule search_ref_sorted)
  ultimately show ?thesis unfolding share_def by blast
qed

text \<open>The live documents that share a term with the query, and how limits cut the list of them.\<close>

definition sharing :: "char_tables \<Rightarrow> corpus_history \<Rightarrow> string \<Rightarrow> string set" where
  "sharing T h query =
     {d. \<exists>text. corpus_texts h d = Some text \<and> term_id ` set (analyze T query) \<inter> term_id ` set (doc_tokens T d text) \<noteq> {}}"

lemma lexical_search_mono:
  "k \<le> K \<Longrightarrow> lexical_search T lg it query k ix = take k (lexical_search T lg it query K ix)"
  by (simp add: lexical_search_def search_sparse_def Let_def take_map)

lemma lexical_search_take:
  assumes "hash_order it" and "log_ok lg" and "ix = corpus_index T h"
  shows "lexical_search T lg it query k ix = take k (lexical_search T lg it query (doc_count ix) ix)" (is "?s k = take k (?s ?n)")
proof -
  let ?K = "max k ?n"
  note res = lexical_results [OF assms _ refl, of _ query]
  have "length (?s j) = card (sharing T h query)" if "?n \<le> j" for j
  proof -
    have "distinct (map ss_id (?s j))" using res [OF that] by blast
    then have "length (?s j) = card (ss_id ` set (?s j))" using distinct_card [of "map ss_id (?s j)"] by simp
    also have "ss_id ` set (?s j) = sharing T h query" unfolding sharing_def by (rule conjunct1 [OF res [OF that]])
    finally show ?thesis .
  qed
  then have len: "length (?s ?K) = length (?s ?n)" by simp
  have all: "?s ?n = take ?n (?s ?K)" by (rule lexical_search_mono) simp
  have "length (take ?n (?s ?K)) = length (?s ?K)" unfolding all [symmetric] len ..
  then have "take ?n (?s ?K) = ?s ?K" by simp
  then have same: "?s ?n = ?s ?K" unfolding all .
  have "?s k = take k (?s ?K)" by (rule lexical_search_mono) simp
  then show ?thesis unfolding same .
qed

lemma lexical_search_sharing:
  assumes "hash_order it" and "log_ok lg" and "ix = corpus_index T h" and "card (sharing T h query) \<le> k"
  shows "ss_id ` set (lexical_search T lg it query k ix) = sharing T h query"
proof -
  let ?full = "lexical_search T lg it query (doc_count ix) ix"
  note res = lexical_results [OF assms(1-3) order_refl refl, of query]
  have ids: "ss_id ` set ?full = sharing T h query" unfolding sharing_def by (rule conjunct1 [OF res])
  have "distinct (map ss_id ?full)" using res by blast
  then have "length ?full = card (ss_id ` set ?full)" using distinct_card [of "map ss_id ?full"] by simp
  then have "length ?full \<le> k" using assms(4) ids by simp
  then show ?thesis using ids lexical_search_take [OF assms(1-3), of query k] by simp
qed

lemma quoted_sharing:
  assumes "corpus_texts h d = Some text" and "split_roles text = (doc, sig, body)"
    and "field \<in> {name_from_id d, doc, sig, body}"
    and "w \<in> set (split_where (is_word_boundary T) field)" and "w \<in> set (split_where (is_word_boundary T) query)"
    and "w \<noteq> []" and "1 < length (st_to_lower T w)"
  shows "d \<in> sharing T h query"
proof -
  have "st_to_lower T w \<in> set (analyze T field)" "st_to_lower T w \<in> set (analyze T query)"
    using raw_word_kept assms(4-7) by blast+
  moreover have "set (analyze T field) \<subseteq> set (doc_tokens T d text)"
    using assms(2,3) by (auto simp: doc_tokens_def)
  ultimately show ?thesis using assms(1) unfolding sharing_def by blast
qed

section \<open>Properties\<close>

text \<open>
  C24. Lexical search is exact up to the limit: over any history of ingested, replaced and deleted texts, for any
  iteration order of the hash maps and a logarithm that is not negative from one on, there is one ranked list of which a
  search with limit \<open>k\<close> returns the first \<open>k\<close> entries; its ids are those of the live documents with a token whose
  hash is the hash of a query token, each once, ranked by score and then id, and its scores are not negative.
\<close>

theorem lexical_search_exact:
  assumes "hash_order it" and "log_ok lg" and "ix = corpus_index T h"
  shows "\<exists>full. (\<forall>k. lexical_search T lg it query k ix = take k full)
    \<and> ss_id ` set full =
      {d. \<exists>text. corpus_texts h d = Some text \<and> term_id ` set (analyze T query) \<inter> term_id ` set (doc_tokens T d text) \<noteq> {}}
    \<and> (\<forall>r \<in> set full. 0 \<le> ss_score r) \<and> distinct (map ss_id full)
    \<and> sorted_wrt (\<lambda>a b. ss_score b < ss_score a \<or> ss_score a = ss_score b \<and> ss_id a \<le> ss_id b) full"
  using lexical_results [OF assms order_refl refl, of query] lexical_search_take [OF assms, of query] by blast

text \<open>
  An identifier quoted verbatim in a query is found: a document that has the word in its
  name or its text is among the results, whatever else was indexed or deleted, when no more documents share a term
  with the query than results are asked for.
\<close>

theorem quoted_word_found:
  assumes "hash_order it" and "log_ok lg"
    and "corpus_texts h d = Some text" and "split_roles text = (doc, sig, body)"
    and "field \<in> {name_from_id d, doc, sig, body}"
    and "w \<in> set (split_where (is_word_boundary T) field)" and "w \<in> set (split_where (is_word_boundary T) query)"
    and "w \<noteq> []" and "1 < length (st_to_lower T w)" and "card (sharing T h query) \<le> k"
  shows "d \<in> ss_id ` set (lexical_search T lg it query k (corpus_index T h))"
  using quoted_sharing [OF assms(3-9)] lexical_search_sharing [OF assms(1,2) refl assms(10)] by simp

lemma lexical_search_exact_witness:
  "let h = [(''section::a.rs#retry'', Some ''fn retry()''), (''section::b.rs#x'', Some ''fn other()''), (''section::b.rs#x'', None)];
       ix = corpus_index ascii_tables h
   in lexical_search ascii_tables (\<lambda>x. x) rev ''retry'' 1 ix = take 1 (lexical_search ascii_tables (\<lambda>x. x) rev ''retry'' 2 ix)"
proof -
  have "hash_order (rev :: (nat \<times> f32) list \<Rightarrow> _)" "log_ok (\<lambda>x. x)" by (auto simp: hash_order_def log_ok_def)
  from lexical_search_exact [OF this refl, where T = ascii_tables and h = "[(''section::a.rs#retry'', Some ''fn retry()''), (''section::b.rs#x'', Some ''fn other()''), (''section::b.rs#x'', None)]" and query = "''retry''"]
  show ?thesis unfolding Let_def by auto
qed

end
