(* ===== verification/Search.thy ===== *)
theory Search
  imports Sparse_Encoder
begin

text \<open>
  The query pipeline \<open>MultiResolutionSearch\<close> (\<open>ministr-core/src/search.rs\<close>): dense candidates,
  reciprocal-rank fusion with the sparse ones, the best vector per content, the top results. The
  embedders and the indexes are trait objects, here the functions of \<open>search_env\<close>, each of which
  may fail; the iteration order of the hash map of fused scores is the argument \<open>it\<close>. Also the
  \<open>HybridEmbedder\<close> (\<open>embedding/hybrid.rs\<close>), which routes texts to one of two models.
\<close>

section \<open>Results\<close>

record score_explanation =
  xp_dense_rank :: "nat option"
  xp_dense_score :: "f32 option"
  xp_sparse_rank :: "nat option"
  xp_sparse_score :: "f32 option"
  xp_rrf_score :: "f32 option"
  xp_exact_match :: bool
  xp_prefix_match :: bool
  xp_identifier_match :: bool
  xp_intent :: "string option"
  xp_intent_boost :: "f32 option"
  xp_reranked :: bool
  xp_matryoshka :: bool
  xp_diversity_selected :: bool
  xp_quota_selected :: bool
  xp_graph_expanded :: bool
  xp_final_score :: f32

definition score_explanation_default :: score_explanation where
  "score_explanation_default =
     \<lparr>xp_dense_rank = None, xp_dense_score = None, xp_sparse_rank = None, xp_sparse_score = None,
      xp_rrf_score = None, xp_exact_match = False, xp_prefix_match = False, xp_identifier_match = False,
      xp_intent = None, xp_intent_boost = None, xp_reranked = False, xp_matryoshka = False,
      xp_diversity_selected = False, xp_quota_selected = False, xp_graph_expanded = False, xp_final_score = 0\<rparr>"

record scored_result =
  sc_vector_id :: vector_id
  sc_raw_distance :: f32
  sc_resolution :: resolution
  sc_score :: f32
  sc_explanation :: score_explanation

record search_config =
  cf_raw_k :: nat
  cf_top_k :: nat
  cf_sparse_weight :: f32
  cf_rerank_top_k :: "nat option"

definition search_config_default :: search_config where
  "search_config_default = \<lparr>cf_raw_k = 30, cf_top_k = 10, cf_sparse_weight = 0, cf_rerank_top_k = None\<rparr>"

text \<open>\<open>resolution()\<close> cannot panic here: a parsed id has a known prefix (lemma \<open>vid_parse_resolution\<close>).\<close>

definition score_result :: "search_result \<Rightarrow> scored_result option" where
  "score_result raw =
     Option.bind (vid_parse (rr_id raw)) (\<lambda>v.
       Option.bind (vid_resolution v) (\<lambda>resolution.
         (let score = fsub32 1 (fdiv32 (rr_distance raw) 2)
          in Some \<lparr>sc_vector_id = v, sc_raw_distance = rr_distance raw, sc_resolution = resolution,
                   sc_score = score,
                   sc_explanation = score_explanation_default\<lparr>xp_dense_score := Some score, xp_final_score := score\<rparr>\<rparr>)))"

definition set_dense_rank :: "nat \<Rightarrow> scored_result \<Rightarrow> scored_result" where
  "set_dense_rank rank r = r\<lparr>sc_explanation := (sc_explanation r)\<lparr>xp_dense_rank := Some (rank + 1)\<rparr>\<rparr>"

definition dense_results :: "search_result list \<Rightarrow> scored_result list" where
  "dense_results raws = map (\<lambda>(rank, r). set_dense_rank rank r) (enumerate 0 (List.map_filter score_result raws))"

section \<open>Rank fusion\<close>

definition RRF_K :: f32 where
  "RRF_K = 60"

definition rrf_term :: "f32 \<Rightarrow> nat \<Rightarrow> f32" where
  "rrf_term weight rank = fdiv32 weight (fadd32 (fadd32 RRF_K (f32_of_nat rank)) 1)"

type_synonym fusion = "(string \<times> f32) list \<times> (string \<times> scored_result) list"

definition rrf_add :: "string \<Rightarrow> f32 \<Rightarrow> (string \<times> f32) list \<Rightarrow> (string \<times> f32) list" where
  "rrf_add i x scores = AList.update i (fadd32 (case map_of scores i of None \<Rightarrow> 0 | Some s \<Rightarrow> s) x) scores"

definition fuse_dense :: "f32 \<Rightarrow> nat \<times> scored_result \<Rightarrow> fusion \<Rightarrow> fusion" where
  "fuse_dense dense_weight = (\<lambda>(rank, r) (scores, results).
     (let i = sc_vector_id r
      in (rrf_add i (rrf_term dense_weight rank) scores,
          if map_of results i = None then AList.update i r results else results)))"

definition fuse_sparse :: "f32 \<Rightarrow> nat \<times> sparse_search_result \<Rightarrow> fusion \<Rightarrow> fusion" where
  "fuse_sparse sparse_weight = (\<lambda>(rank, r) (scores, results).
     (case Option.bind (vid_parse (ss_id r)) (\<lambda>v. map_option (Pair v) (vid_resolution v)) of
        None \<Rightarrow> (scores, results)
      | Some (v, resolution) \<Rightarrow>
          (let i = ss_id r;
               entry = (case map_of results i of
                          Some e \<Rightarrow> e
                        | None \<Rightarrow>
                            \<lparr>sc_vector_id = v, sc_raw_distance = 0, sc_resolution = resolution, sc_score = 0,
                             sc_explanation = score_explanation_default\<rparr>)
           in (rrf_add i (rrf_term sparse_weight rank) scores,
               AList.update i
                 (entry\<lparr>sc_explanation := (sc_explanation entry)
                    \<lparr>xp_sparse_rank := Some (rank + 1), xp_sparse_score := Some (ss_score r)\<rparr>\<rparr>) results))))"

definition set_rrf_score :: "f32 \<Rightarrow> scored_result \<Rightarrow> scored_result" where
  "set_rrf_score s r =
     r\<lparr>sc_score := s,
       sc_explanation := (sc_explanation r)\<lparr>xp_rrf_score := Some s, xp_final_score := s\<rparr>\<rparr>"

definition rrf_fuse ::
    "((string \<times> f32) list \<Rightarrow> (string \<times> f32) list) \<Rightarrow> scored_result list \<Rightarrow> sparse_search_result list \<Rightarrow> f32
      \<Rightarrow> scored_result list" where
  "rrf_fuse it dense sparse sparse_weight =
     (let dense_weight = fsub32 1 sparse_weight;
          f1 = fold (fuse_dense dense_weight) (enumerate 0 dense) ([], []);
          (scores, results) = fold (fuse_sparse sparse_weight) (enumerate 0 sparse) f1
      in List.map_filter (\<lambda>(i, s). map_option (set_rrf_score s) (map_of results i)) (it scores))"

section \<open>The pipeline\<close>

record search_env =
  en_embed :: "string list \<Rightarrow> f32 list list index_result"
  en_search_knn :: "f32 list \<Rightarrow> nat \<Rightarrow> search_result list index_result"
  en_sparse_embedder :: "(string list \<Rightarrow> sparse_vector list index_result) option"
  en_sparse_index :: "(nat list \<Rightarrow> f32 list \<Rightarrow> nat \<Rightarrow> sparse_search_result list index_result) option"

definition content_of :: "scored_result \<Rightarrow> string" where
  "content_of r = vid_content_id (sc_vector_id r)"

text \<open>\<open>retain\<close> with the set of contents seen: the first result of each content stays.\<close>

fun pool :: "string list \<Rightarrow> scored_result list \<Rightarrow> scored_result list" where
  "pool seen [] = []"
| "pool seen (r # rs) =
     (if content_of r \<in> set seen then pool seen rs else r # pool (content_of r # seen) rs)"

definition rank_results :: "nat \<Rightarrow> scored_result list \<Rightarrow> scored_result list" where
  "rank_results top_k scored = take top_k (pool [] (sort_key (\<lambda>r. (- sc_score r, content_of r)) scored))"

fun first_or :: "string \<Rightarrow> 'a list \<Rightarrow> 'a index_result" where
  "first_or reason [] = Inl (EmbeddingFailed reason)"
| "first_or reason (x # xs) = Inr x"

fun and_then :: "'a index_result \<Rightarrow> ('a \<Rightarrow> 'b index_result) \<Rightarrow> 'b index_result" where
  "and_then (Inl e) f = Inl e"
| "and_then (Inr x) f = f x"

definition sparse_pair ::
    "search_env \<Rightarrow> search_config \<Rightarrow> ((string list \<Rightarrow> sparse_vector list index_result)
      \<times> (nat list \<Rightarrow> f32 list \<Rightarrow> nat \<Rightarrow> sparse_search_result list index_result)) option" where
  "sparse_pair env config =
     (if 0 < cf_sparse_weight config then
        (case (en_sparse_embedder env, en_sparse_index env) of (Some e, Some x) \<Rightarrow> Some (e, x) | _ \<Rightarrow> None)
      else None)"

definition search ::
    "((string \<times> f32) list \<Rightarrow> (string \<times> f32) list) \<Rightarrow> search_env \<Rightarrow> string \<Rightarrow> search_config \<Rightarrow> scored_result list index_result" where
  "search it env query config =
     and_then (en_embed env [query]) (\<lambda>query_vectors.
     and_then (first_or ''embedder returned no vectors'' query_vectors) (\<lambda>query_vector.
     and_then (en_search_knn env query_vector (cf_raw_k config)) (\<lambda>raw_results.
     and_then
       (case sparse_pair env config of
          None \<Rightarrow> Inr (dense_results raw_results)
        | Some (semb, sidx) \<Rightarrow>
            and_then (semb [query]) (\<lambda>sparse_vecs.
            and_then (first_or ''sparse embedder returned no vectors'' sparse_vecs) (\<lambda>sparse_vec.
            and_then (sidx (sv_indices sparse_vec) (sv_values sparse_vec) (cf_raw_k config)) (\<lambda>sparse_results.
              Inr (rrf_fuse it (dense_results raw_results) sparse_results (cf_sparse_weight config))))))
       (\<lambda>scored. Inr (rank_results (cf_top_k config) scored)))))"

section \<open>The hybrid embedder\<close>

definition CODE_MARKERS :: "string list" where
  "CODE_MARKERS =
     [''fn '', ''def '', ''class '', ''pub '', ''import '', ''#include'', ''struct '', ''enum '', ''impl '', ''trait '',
      ''module '', ''package '', ''func '', ''var '', ''let '', ''const '', ''async '', ''await '', ''return '',
      ''if ('', ''for ('', ''while ('', ''match '', ''->'', ''=>'', ''::'', ''self.'', ''this.'']"

definition CODE_CHARS :: string where
  "CODE_CHARS = ''{}();<>''"

definition contains_str :: "string \<Rightarrow> string \<Rightarrow> bool" where
  "contains_str haystack needle = list_ex (\<lambda>n. take (length needle) (drop n haystack) = needle) [0..<Suc (length haystack)]"

definition looks_like_code :: "string \<Rightarrow> bool" where
  "looks_like_code text =
     (if list_ex (contains_str text) CODE_MARKERS then True
      else
        (let lines = str_lines text
         in if lines = [] then False
            else
              (let code_lines = length (filter (\<lambda>line. list_ex (\<lambda>c. c \<in> set (str_trim line)) CODE_CHARS) lines)
               in rnd64 (3 / 10) \<le> fdiv (f64_of_nat code_lines) (f64_of_nat (length lines)))))"

record embedder =
  em_embed :: "string list \<Rightarrow> f32 list list index_result"
  em_dimension :: nat

record hybrid_embedder =
  hy_code :: embedder
  hy_docs :: embedder
  hy_dim :: nat

definition hybrid_new :: "embedder \<Rightarrow> embedder \<Rightarrow> hybrid_embedder index_result" where
  "hybrid_new code docs =
     (if em_dimension code \<noteq> em_dimension docs then
        Inl (EmbeddingFailed (''code embedder dimension ('' @ show_nat (em_dimension code)
          @ '') != docs embedder dimension ('' @ show_nat (em_dimension docs) @ '')''))
      else Inr \<lparr>hy_code = code, hy_docs = docs, hy_dim = em_dimension code\<rparr>)"

definition fill_slots :: "(nat \<times> f32 list) list \<Rightarrow> f32 list list \<Rightarrow> f32 list list" where
  "fill_slots svs results = fold (\<lambda>(slot, v) rs. rs[slot := v]) svs results"

definition hybrid_embed :: "hybrid_embedder \<Rightarrow> string list \<Rightarrow> f32 list list index_result" where
  "hybrid_embed hy texts =
     (if texts = [] then Inr []
      else
        (let code_part = filter (\<lambda>(i, t). looks_like_code t) (enumerate 0 texts);
             docs_part = filter (\<lambda>(i, t). \<not> looks_like_code t) (enumerate 0 texts)
         in and_then (if code_part = [] then Inr [] else em_embed (hy_code hy) (map snd code_part)) (\<lambda>code_vecs.
            and_then (if docs_part = [] then Inr [] else em_embed (hy_docs hy) (map snd docs_part)) (\<lambda>docs_vecs.
              Inr (fill_slots (zip (map fst docs_part) docs_vecs)
                (fill_slots (zip (map fst code_part) code_vecs) (replicate (length texts) [])))))))"

section \<open>Specifications\<close>

text \<open>
  The contributions an id gets from the two lists, in the order they are added, and the fused
  scores of all ids. \<open>pool_ref\<close> ranks contents by the best score any of their vectors has.
\<close>

definition contributions :: "f32 \<Rightarrow> scored_result list \<Rightarrow> sparse_search_result list \<Rightarrow> string \<Rightarrow> f32 list" where
  "contributions w dense sparse i =
     map (\<lambda>(rank, r). rrf_term (fsub32 1 w) rank) (filter (\<lambda>(rank, r). sc_vector_id r = i) (enumerate 0 dense))
     @ map (\<lambda>(rank, r). rrf_term w rank)
         (filter (\<lambda>(rank, r). ss_id r = i \<and> vid_parse i \<noteq> None) (enumerate 0 sparse))"

definition fused_ref :: "f32 \<Rightarrow> scored_result list \<Rightarrow> sparse_search_result list \<Rightarrow> (string \<times> f32) list" where
  "fused_ref w dense sparse =
     map (\<lambda>i. (i, fold (\<lambda>x s. fadd32 s x) (contributions w dense sparse i) 0))
       (remdups (map sc_vector_id dense @ filter (\<lambda>i. vid_parse i \<noteq> None) (map ss_id sparse)))"

definition best :: "(string \<times> f32) list \<Rightarrow> string \<Rightarrow> f32" where
  "best ps c = Max (snd ` {p \<in> set ps. fst p = c})"

definition pool_ref :: "(string \<times> f32) list \<Rightarrow> nat \<Rightarrow> (string \<times> f32) list" where
  "pool_ref ps k = take k (sort_key (\<lambda>(c, s). (- s, c)) (map (\<lambda>c. (c, best ps c)) (remdups (map fst ps))))"

section \<open>Pooling\<close>

lemma pool_subset: "set (pool seen xs) \<subseteq> set xs"
  by (induction seen xs rule: pool.induct) auto

lemma pool_contents:
  "distinct (map content_of (pool seen xs))"
  "content_of ` set (pool seen xs) = content_of ` set xs - set seen"
  by (induction seen xs rule: pool.induct) auto

lemma sorted_pool: "sorted_wrt P xs \<Longrightarrow> sorted_wrt P (pool seen xs)"
proof (induction seen xs rule: pool.induct)
  case (2 seen r rs)
  then show ?case using pool_subset [of "content_of r # seen" rs] by auto
qed simp

lemma pool_best:
  assumes "sorted_wrt (\<lambda>a b. sc_score b \<le> sc_score a) xs" and "r \<in> set (pool seen xs)"
    and "r' \<in> set xs" and "content_of r' = content_of r"
  shows "sc_score r' \<le> sc_score r"
  using assms
proof (induction seen xs rule: pool.induct)
  case (2 seen x xs)
  have notin: "content_of r \<notin> set seen" if "r \<in> set (pool seen ys)" for seen ys
    using pool_contents(2) [of seen ys] that by blast
  show ?case
  proof (cases "content_of x \<in> set seen")
    case True
    then have "r \<in> set (pool seen xs)" "r' \<noteq> x" using "2.prems" notin by auto
    then show ?thesis using "2.IH"(1) [OF True] "2.prems" by simp
  next
    case False
    show ?thesis
    proof (cases "r = x")
      case True
      then show ?thesis using "2.prems"(1,3) by auto
    next
      case neq: False
      then have r: "r \<in> set (pool (content_of x # seen) xs)" using "2.prems"(2) False by simp
      then have "r' \<noteq> x" using notin [OF r] "2.prems"(4) by auto
      then show ?thesis using "2.IH"(2) [OF False] r "2.prems" by simp
    qed
  qed
qed simp

abbreviation scored_content :: "scored_result \<Rightarrow> string \<times> f32" where
  "scored_content r \<equiv> (content_of r, sc_score r)"

lemma sort_key_unique:
  assumes "set xs = set ys" and "distinct xs" and "distinct ys" and "inj_on f (set xs)" and "sorted (map f ys)"
  shows "sort_key f xs = ys"
  using assms set_eq_iff_mset_eq_distinct [of xs ys] by (intro sort_key_inj_key_eq) auto

lemma rank_results_ref: "map scored_content (rank_results k cs) = pool_ref (map scored_content cs) k"
proof -
  let ?key = "\<lambda>(c :: string, s :: f32). (- s, c)" and ?ps = "map scored_content cs"
  let ?xs = "sort_key (\<lambda>r. (- sc_score r, content_of r)) cs"
  let ?p = "pool [] ?xs" and ?ref = "map (\<lambda>c. (c, best (map scored_content cs) c)) (remdups (map fst (map scored_content cs)))"
  have sorted: "sorted_wrt (\<lambda>a b. (- sc_score a, content_of a) \<le> (- sc_score b, content_of b)) ?xs"
    using sorted_sort_key [of "\<lambda>r. (- sc_score r, content_of r)" cs] by (simp add: sorted_map)
  then have desc: "sorted_wrt (\<lambda>a b. sc_score b \<le> sc_score a) ?xs"
    by (rule sorted_wrt_mono_rel [rotated]) (auto simp: less_eq_prod_def)
  have best: "sc_score r = best ?ps (content_of r)" if "r \<in> set ?p" for r
  proof -
    have r: "r \<in> set cs" using that pool_subset [of "[]" ?xs] by auto
    have "sc_score r' \<le> sc_score r" if "r' \<in> set cs" "content_of r' = content_of r" for r'
      using pool_best [OF desc \<open>r \<in> set ?p\<close>] that by simp
    moreover have "scored_content r \<in> {p \<in> set ?ps. fst p = content_of r}" using r by simp
    then have "sc_score r \<in> snd ` {p \<in> set ?ps. fst p = content_of r}" by (rule image_eqI [rotated]) simp
    ultimately show ?thesis unfolding best_def by (intro Max_eqI [symmetric]) auto
  qed
  have contents: "content_of ` set ?p = content_of ` set cs" using pool_contents(2) [of "[]" ?xs] by simp
  have "sort_key ?key ?ref = map scored_content ?p"
  proof (rule sort_key_unique)
    have "set (map scored_content ?p) = (\<lambda>c. (c, best ?ps c)) ` content_of ` set ?p"
      using best by (auto simp: image_iff)
    then show "set ?ref = set (map scored_content ?p)" unfolding contents by (simp add: image_image)
    show "distinct ?ref" by (simp add: distinct_map inj_on_def)
    have "distinct (map fst (map scored_content ?p))" using pool_contents(1) [of "[]" ?xs] by (simp add: comp_def)
    then show "distinct (map scored_content ?p)" unfolding distinct_map by blast
    show "sorted (map ?key (map scored_content ?p))"
      using sorted_pool [OF sorted, of "[]"] by (simp add: sorted_map comp_def)
  qed (auto simp: inj_on_def)
  then show ?thesis by (simp add: rank_results_def pool_ref_def take_map [symmetric])
qed

lemma pool_ref_cong:
  assumes "set ps = set qs"
  shows "pool_ref ps k = pool_ref qs k"
proof -
  have "best ps = best qs" by (simp add: best_def assms fun_eq_iff)
  moreover have "mset (remdups (map fst ps)) = mset (remdups (map fst qs))"
    using assms by (metis distinct_remdups list.set_map set_eq_iff_mset_eq_distinct set_remdups)
  ultimately have "sort_key (\<lambda>(c, s). (- s, c)) (map (\<lambda>c. (c, best ps c)) (remdups (map fst ps)))
      = sort_key (\<lambda>(c, s). (- s, c)) (map (\<lambda>c. (c, best qs c)) (remdups (map fst qs)))"
    by (intro sort_key_cong_mset) (simp_all add: inj_on_def case_prod_unfold)
  then show ?thesis by (simp add: pool_ref_def)
qed

section \<open>Fusion\<close>

lemma vid_parse_resolution:
  assumes "vid_parse s = Some v"
  shows "v = s \<and> (\<exists>r. vid_resolution v = Some r)"
proof (cases "split_once ''::'' s")
  case (Some pr)
  obtain p rest where pr: "pr = (p, rest)" by fastforce
  have p: "p \<in> {''doc-summary'', ''sec-summary'', ''section'', ''claim'', ''symbol-stub'', ''symbol-full''}" and v: "v = s"
    using assms unfolding vid_parse_def Some pr by (simp_all split: if_splits)
  have "vid_resolution s \<noteq> None"
    using p unfolding vid_resolution_def Some pr option.map fst_conv option.case by (elim insertE emptyE) simp_all
  then show ?thesis using v by blast
qed (use assms in \<open>simp add: vid_parse_def\<close>)

abbreviation add_all :: "f32 list \<Rightarrow> f32 \<Rightarrow> f32" where
  "add_all \<equiv> fold (\<lambda>x s. fadd32 s x)"

definition fusion_ok :: "fusion \<Rightarrow> bool" where
  "fusion_ok f \<longleftrightarrow> distinct (map fst (fst f)) \<and> dom (map_of (fst f)) = dom (map_of (snd f))
     \<and> (\<forall>i r. map_of (snd f) i = Some r \<longrightarrow> sc_vector_id r = i)"

definition add_to :: "f32 list \<Rightarrow> f32 option \<Rightarrow> f32 option" where
  "add_to xs old = (if xs = [] then old else Some (add_all xs (case old of None \<Rightarrow> 0 | Some s \<Rightarrow> s)))"

lemma add_to_simps [simp]:
  "add_to [] old = old" "add_to (x # xs) old = add_to xs (Some (fadd32 (case old of None \<Rightarrow> 0 | Some s \<Rightarrow> s) x))"
  by (simp_all add: add_to_def)

lemma add_to_append: "add_to (xs @ ys) old = add_to ys (add_to xs old)"
  by (induction xs arbitrary: old) simp_all

lemma map_of_rrf_add: "map_of (rrf_add i x sc) j = (if j = i then add_to [x] (map_of sc i) else map_of sc j)"
  by (simp add: rrf_add_def update_conv')

lemma fuse_dense_ok: "fusion_ok f \<Longrightarrow> fusion_ok (fuse_dense w p f)"
  by (cases f; cases p)
    (auto simp: fusion_ok_def fuse_dense_def rrf_add_def Let_def update_conv' distinct_update split: if_splits)

lemma fuse_sparse_ok: "fusion_ok f \<Longrightarrow> fusion_ok (fuse_sparse w p f)"
proof (cases f; cases p)
  fix sc rm rank r assume ok: "fusion_ok f" and f: "f = (sc, rm)" and p: "p = (rank, r)"
  show "fusion_ok (fuse_sparse w p f)"
  proof (cases "vid_parse (ss_id r)")
    case None
    then show ?thesis using ok by (simp add: fuse_sparse_def f p)
  next
    case (Some v)
    then obtain res where v: "v = ss_id r" "vid_resolution v = Some res" using vid_parse_resolution by blast
    show ?thesis using ok Some v
      by (auto simp: fusion_ok_def fuse_sparse_def rrf_add_def Let_def f p update_conv' distinct_update split: option.splits if_splits)
  qed
qed

lemma fuse_dense_score:
  "map_of (fst (fold (fuse_dense w) xs f)) i
   = add_to (map (\<lambda>(rank, r). rrf_term w rank) (filter (\<lambda>(rank, r). sc_vector_id r = i) xs)) (map_of (fst f) i)"
proof (induction xs arbitrary: f)
  case (Cons p xs)
  then show ?case by (cases f; cases p) (auto simp: fuse_dense_def Let_def map_of_rrf_add)
qed simp

lemma fuse_sparse_score:
  "map_of (fst (fold (fuse_sparse w) xs f)) i
   = add_to (map (\<lambda>(rank, r). rrf_term w rank) (filter (\<lambda>(rank, r). ss_id r = i \<and> vid_parse i \<noteq> None) xs)) (map_of (fst f) i)"
proof (induction xs arbitrary: f)
  case (Cons p xs)
  obtain sc rm where f: "f = (sc, rm)" by fastforce
  obtain rank r where p: "p = (rank, r)" by fastforce
  have "map_of (fst (fuse_sparse w p f)) i =
      (if ss_id r = i \<and> vid_parse i \<noteq> None then add_to [rrf_term w rank] (map_of sc i) else map_of sc i)"
    using vid_parse_resolution [of "ss_id r"]
    by (cases "vid_parse (ss_id r)") (fastforce simp: fuse_sparse_def Let_def f p map_of_rrf_add)+
  then show ?case using Cons.IH [of "fuse_sparse w p f"] by (auto simp: f p)
qed simp

lemma fold_invariant: "P s \<Longrightarrow> (\<And>x s. P s \<Longrightarrow> P (g x s)) \<Longrightarrow> P (fold g xs s)"
  by (induction xs arbitrary: s) auto

lemma set_rrf_score_simps [simp]:
  "sc_score (set_rrf_score s r) = s" "sc_vector_id (set_rrf_score s r) = sc_vector_id r"
  by (simp_all add: set_rrf_score_def)

lemma filter_enumerate: "filter (\<lambda>(n, x). P x) (enumerate m xs) = [] \<longleftrightarrow> (\<forall>x \<in> set xs. \<not> P x)"
  by (induction xs arbitrary: m) auto

lemma rrf_fuse_scores:
  assumes "hash_order it" and "ys = rrf_fuse it dense sparse w"
  shows "set (map (\<lambda>r. (sc_vector_id r, sc_score r)) ys) = set (fused_ref w dense sparse)"
proof -
  define f where "f = fold (fuse_sparse w) (enumerate 0 sparse) (fold (fuse_dense (fsub32 1 w)) (enumerate 0 dense) ([], []))"
  have "fusion_ok ([], [])" by (simp add: fusion_ok_def)
  then have ok: "fusion_ok f" unfolding f_def
    by (intro fold_invariant [where P = fusion_ok]) (simp_all add: fuse_dense_ok fuse_sparse_ok)
  have look: "map_of (fst f) i = add_to (contributions w dense sparse i) None" for i
    by (simp add: f_def fuse_sparse_score fuse_dense_score contributions_def add_to_append)
  have ne: "contributions w dense sparse i \<noteq> [] \<longleftrightarrow>
      i \<in> set (map sc_vector_id dense @ filter (\<lambda>i. vid_parse i \<noteq> None) (map ss_id sparse))" for i
    by (auto simp: contributions_def filter_enumerate)
  have "(i, s) \<in> set (fst f) \<longleftrightarrow> (i, s) \<in> set (fused_ref w dense sparse)" for i s
  proof -
    have "(i, s) \<in> set (fst f) \<longleftrightarrow> map_of (fst f) i = Some s" using ok by (simp add: fusion_ok_def map_of_eq_Some_iff)
    also have "\<dots> \<longleftrightarrow> contributions w dense sparse i \<noteq> [] \<and> s = add_all (contributions w dense sparse i) 0"
      by (auto simp: look add_to_def)
    finally show ?thesis unfolding ne by (auto simp: fused_ref_def)
  qed
  then have set: "set (it (fst f)) = set (fused_ref w dense sparse)"
    using assms(1) by (metis hash_order_def mset_eq_setD surj_pair subset_antisym subrelI)
  have entry: "\<exists>r. map_of (snd f) i = Some r \<and> sc_vector_id r = i" if "(i, s) \<in> set (it (fst f))" for i s
  proof -
    have "(i, s) \<in> set (fst f)" using that assms(1) by (metis hash_order_def mset_eq_setD)
    then have "i \<in> dom (map_of (fst f))" by (simp add: dom_map_of_conv_image_fst image_iff) force
    then show ?thesis using ok unfolding fusion_ok_def by blast
  qed
  have ys: "ys = List.map_filter (\<lambda>(i, s). map_option (set_rrf_score s) (map_of (snd f) i)) (it (fst f))"
    by (simp add: assms(2) rrf_fuse_def Let_def f_def case_prod_unfold)
  have proj: "map (\<lambda>r. (sc_vector_id r, sc_score r))
      (List.map_filter (\<lambda>(i, s). map_option (set_rrf_score s) (map_of (snd f) i)) l) = l"
    if "\<And>i s. (i, s) \<in> set l \<Longrightarrow> \<exists>r. map_of (snd f) i = Some r \<and> sc_vector_id r = i" for l
    using that
  proof (induction l)
    case (Cons p l)
    obtain i s where p: "p = (i, s)" by fastforce
    obtain r where "map_of (snd f) i = Some r" "sc_vector_id r = i" using Cons.prems [of i s] p by auto
    moreover have "map (\<lambda>r. (sc_vector_id r, sc_score r))
        (List.map_filter (\<lambda>(i, s). map_option (set_rrf_score s) (map_of (snd f) i)) l) = l"
      by (rule Cons.IH) (use Cons.prems in auto)
    ultimately show ?case by (simp add: p List.map_filter_simps)
  qed (simp add: List.map_filter_simps)
  have "map (\<lambda>r. (sc_vector_id r, sc_score r)) ys = it (fst f)"
    unfolding ys by (rule proj) (rule entry)
  then show ?thesis using set by simp
qed

lemma rrf_ranking:
  assumes "hash_order it"
  shows "map scored_content (rank_results k (rrf_fuse it dense sparse w))
    = pool_ref (map (\<lambda>(i, s). (vid_content_id i, s)) (fused_ref w dense sparse)) k"
proof -
  let ?ys = "rrf_fuse it dense sparse w"
  have "set (map scored_content ?ys) = (\<lambda>(i, s). (vid_content_id i, s)) ` set (map (\<lambda>r. (sc_vector_id r, sc_score r)) ?ys)"
    by (auto simp: content_of_def image_iff)
  also have "\<dots> = set (map (\<lambda>(i, s). (vid_content_id i, s)) (fused_ref w dense sparse))"
    using rrf_fuse_scores [OF assms refl] by simp
  finally show ?thesis unfolding rank_results_ref by (rule pool_ref_cong)
qed

lemma rank_results_shape: "distinct (map content_of (rank_results k cs)) \<and> length (rank_results k cs) \<le> k"
  unfolding rank_results_def using pool_contents(1) by (simp add: take_map [symmetric])

lemma dense_results_content:
  "map scored_content (dense_results raws) = map (\<lambda>r. (vid_content_id (rr_id r), fsub32 1 (fdiv32 (rr_distance r) 2)))
     (filter (\<lambda>r. vid_parse (rr_id r) \<noteq> None) raws)"
proof -
  have rank: "map scored_content (map (\<lambda>(rank, r). set_dense_rank rank r) (enumerate n rs)) = map scored_content rs" for n rs
    by (induction rs arbitrary: n) (simp_all add: set_dense_rank_def content_of_def)
  have "map scored_content (List.map_filter score_result rs) =
      map (\<lambda>r. (vid_content_id (rr_id r), fsub32 1 (fdiv32 (rr_distance r) 2))) (filter (\<lambda>r. vid_parse (rr_id r) \<noteq> None) rs)" for rs
  proof (induction rs)
    case (Cons r rs)
    show ?case
    proof (cases "vid_parse (rr_id r)")
      case None
      then show ?thesis using Cons by (simp add: List.map_filter_simps score_result_def)
    next
      case (Some v)
      then obtain res where v: "v = rr_id r" "vid_resolution v = Some res" using vid_parse_resolution by blast
      then have "score_result r = Some \<lparr>sc_vector_id = v, sc_raw_distance = rr_distance r, sc_resolution = res,
          sc_score = fsub32 1 (fdiv32 (rr_distance r) 2), sc_explanation = score_explanation_default
            \<lparr>xp_dense_score := Some (fsub32 1 (fdiv32 (rr_distance r) 2)), xp_final_score := fsub32 1 (fdiv32 (rr_distance r) 2)\<rparr>\<rparr>"
        using Some by (simp add: score_result_def Let_def)
      then show ?thesis using Cons Some v by (simp add: List.map_filter_simps content_of_def)
    qed
  qed (simp add: List.map_filter_simps)
  then show ?thesis unfolding dense_results_def rank .
qed

section \<open>The hybrid embedder\<close>

lemma fill_slots_length [simp]: "length (fill_slots svs rs) = length rs"
  unfolding fill_slots_def by (induction svs arbitrary: rs) auto

lemma fill_slots_nth:
  assumes "distinct (map fst svs)" and "i < length rs"
  shows "fill_slots svs rs ! i = (case map_of svs i of None \<Rightarrow> rs ! i | Some v \<Rightarrow> v)"
  using assms
proof (induction svs arbitrary: rs)
  case (Cons p svs)
  obtain slot v where p: "p = (slot, v)" by fastforce
  have "fill_slots (p # svs) rs = fill_slots svs (rs[slot := v])" by (simp add: fill_slots_def p)
  moreover have "map_of svs slot = None" using Cons.prems(1) by (simp add: p map_of_eq_None_iff)
  ultimately show ?case using Cons by (auto simp: p nth_list_update split: option.splits)
qed (simp add: fill_slots_def)

lemma map_of_part:
  assumes "i < length texts"
  shows "map_of (zip (map fst (filter (\<lambda>(i, t). P t) (enumerate 0 texts))) (map (g \<circ> snd) (filter (\<lambda>(i, t). P t) (enumerate 0 texts)))) i
    = (if P (texts ! i) then Some (g (texts ! i)) else None)"
proof -
  have gen: "map_of (zip (map fst (filter (\<lambda>(i, t). P t) (enumerate n ts))) (map (g \<circ> snd) (filter (\<lambda>(i, t). P t) (enumerate n ts)))) i
    = (if n \<le> i \<and> i < n + length ts \<and> P (ts ! (i - n)) then Some (g (ts ! (i - n))) else None)" for n ts
  proof (induction ts arbitrary: n)
    case (Cons t ts)
    have idx: "(n \<le> i \<and> i < n + length (t # ts) \<and> P ((t # ts) ! (i - n))) \<longleftrightarrow>
        (i = n \<and> P t) \<or> (Suc n \<le> i \<and> i < Suc n + length ts \<and> P (ts ! (i - Suc n)))"
      "Suc n \<le> i \<Longrightarrow> (t # ts) ! (i - n) = ts ! (i - Suc n)"
      by (auto simp: nth_Cons' not_less_eq_eq)
    have lhs: "map_of (zip (map fst (filter (\<lambda>(i, t). P t) (enumerate n (t # ts)))) (map (g \<circ> snd) (filter (\<lambda>(i, t). P t) (enumerate n (t # ts))))) i
        = (if P t \<and> i = n then Some (g t)
           else map_of (zip (map fst (filter (\<lambda>(i, t). P t) (enumerate (Suc n) ts)))
                  (map (g \<circ> snd) (filter (\<lambda>(i, t). P t) (enumerate (Suc n) ts)))) i)"
      by simp
    show ?case unfolding lhs Cons.IH idx(1) using idx(2) by auto
  qed simp
  show ?thesis using gen [of 0 texts] assms by simp
qed

lemma hybrid_embed_map:
  assumes "\<And>ts. em_embed (hy_code hy) ts = Inr (map ce ts)" and "\<And>ts. em_embed (hy_docs hy) ts = Inr (map de ts)"
  shows "hybrid_embed hy texts = Inr (map (\<lambda>t. if looks_like_code t then ce t else de t) texts)"
proof (cases "texts = []")
  case False
  let ?c = "filter (\<lambda>(i, t). looks_like_code t) (enumerate 0 texts)" and ?d = "filter (\<lambda>(i, t). \<not> looks_like_code t) (enumerate 0 texts)"
  let ?r = "fill_slots (zip (map fst ?d) (map (de \<circ> snd) ?d)) (fill_slots (zip (map fst ?c) (map (ce \<circ> snd) ?c)) (replicate (length texts) []))"
  have dist: "distinct (map fst (filter Q (enumerate 0 texts)))" for Q :: "nat \<times> string \<Rightarrow> bool"
    by (rule distinct_map_filter) simp
  have "?r = map (\<lambda>t. if looks_like_code t then ce t else de t) texts"
  proof (rule nth_equalityI)
    fix i assume "i < length ?r"
    then have i: "i < length texts" by simp
    show "?r ! i = map (\<lambda>t. if looks_like_code t then ce t else de t) texts ! i"
      using i dist by (simp add: fill_slots_nth map_of_part [OF i])
  qed simp
  moreover have "hybrid_embed hy texts = Inr ?r"
    using False by (simp add: hybrid_embed_def assms Let_def)
  ultimately show ?thesis by simp
qed (simp add: hybrid_embed_def)

section \<open>Results of the pipeline\<close>

lemma hybrid_result:
  assumes "hash_order it" and "0 < cf_sparse_weight cfg"
    and "en_sparse_embedder env = Some semb" and "en_sparse_index env = Some sidx"
    and "en_embed env [query] = Inr (v # vs)" and "en_search_knn env v (cf_raw_k cfg) = Inr raws"
    and "semb [query] = Inr (sv # svs)" and "sidx (sv_indices sv) (sv_values sv) (cf_raw_k cfg) = Inr sparse"
  shows "\<exists>rs. search it env query cfg = Inr rs
    \<and> map scored_content rs
      = pool_ref (map (\<lambda>(i, s). (vid_content_id i, s)) (fused_ref (cf_sparse_weight cfg) (dense_results raws) sparse)) (cf_top_k cfg)
    \<and> distinct (map content_of rs) \<and> length rs \<le> cf_top_k cfg"
proof -
  let ?rs = "rank_results (cf_top_k cfg) (rrf_fuse it (dense_results raws) sparse (cf_sparse_weight cfg))"
  have "search it env query cfg = Inr ?rs" using assms(2-8) by (simp add: search_def sparse_pair_def)
  then show ?thesis using rrf_ranking [OF assms(1)] rank_results_shape by blast
qed

text \<open>A candidate is left out only when the results are as many as asked for and none scores below it.\<close>

lemma take_sorted_or_beaten:
  fixes f :: "'a \<Rightarrow> 'b::linorder"
  assumes "x \<in> set xs"
  shows "x \<in> set (take k (sort_key f xs)) \<or>
    length (take k (sort_key f xs)) = k \<and> (\<forall>y \<in> set (take k (sort_key f xs)). f y \<le> f x)"
proof (cases "x \<in> set (take k (sort_key f xs))")
  case False
  let ?l = "sort_key f xs"
  have x: "x \<in> set (drop k ?l)"
    using assms False append_take_drop_id [of k ?l] by (metis Un_iff set_append set_sort)
  have "sorted_wrt (\<lambda>a b. f a \<le> f b) (take k ?l @ drop k ?l)"
    unfolding append_take_drop_id using sorted_sort_key [of f xs] by (simp add: sorted_wrt_map)
  then have "\<forall>y \<in> set (take k ?l). f y \<le> f x" using x unfolding sorted_wrt_append by blast
  moreover have "length (take k ?l) = k" using x by (cases "k \<le> length ?l") auto
  ultimately show ?thesis by blast
qed simp

lemma pool_ref_beaten:
  assumes "(c, s) \<in> set ps"
  shows "c \<in> fst ` set (pool_ref ps k) \<or>
    length (pool_ref ps k) = k \<and> (\<forall>(c', s') \<in> set (pool_ref ps k). s \<le> s')"
proof -
  let ?l = "map (\<lambda>c. (c, best ps c)) (remdups (map fst ps))"
  have "(c, best ps c) \<in> set ?l" using assms by force
  from take_sorted_or_beaten [OF this, of k "\<lambda>(c, s). (- s, c)"]
  have "(c, best ps c) \<in> set (pool_ref ps k) \<or>
      length (pool_ref ps k) = k \<and> (\<forall>y \<in> set (pool_ref ps k). (\<lambda>(c, s). (- s, c)) y \<le> (- best ps c, c))"
    unfolding pool_ref_def by simp
  moreover have "s \<le> best ps c"
    unfolding best_def using assms by (intro Max_ge) (auto intro!: image_eqI [of _ snd "(c, s)"])
  ultimately show ?thesis by (force simp: less_eq_prod_def)
qed

section \<open>Properties\<close>

text \<open>
  C25. Hybrid search ranks contents by fused score: when every stage succeeds, the results are, in
  order, the contents with the best reciprocal-rank sums over their vectors, at most the number
  asked for, each content once; the order in which the hash map is iterated has no influence on the
  contents and scores returned.
\<close>

theorem hybrid_search_ranking:
  assumes "hash_order it" and "0 < cf_sparse_weight cfg"
    and "en_sparse_embedder env = Some semb" and "en_sparse_index env = Some sidx"
    and "en_embed env [query] = Inr (v # vs)" and "en_search_knn env v (cf_raw_k cfg) = Inr raws"
    and "semb [query] = Inr (sv # svs)" and "sidx (sv_indices sv) (sv_values sv) (cf_raw_k cfg) = Inr sparse"
  shows "\<exists>rs. search it env query cfg = Inr rs
    \<and> map scored_content rs
      = pool_ref (map (\<lambda>(i, s). (vid_content_id i, s)) (fused_ref (cf_sparse_weight cfg) (dense_results raws) sparse)) (cf_top_k cfg)
    \<and> distinct (map content_of rs) \<and> length rs \<le> cf_top_k cfg"
  using hybrid_result [OF assms] .

text \<open>
  Dense search ranks contents by the similarity of their nearest vector, each content once,
  at most the number asked for; ids that are no vector ids are left out.
\<close>

theorem dense_search_ranking:
  assumes "sparse_pair env cfg = None"
    and "en_embed env [query] = Inr (v # vs)" and "en_search_knn env v (cf_raw_k cfg) = Inr raws"
  shows "\<exists>rs. search it env query cfg = Inr rs
    \<and> map scored_content rs
      = pool_ref (map (\<lambda>r. (vid_content_id (rr_id r), fsub32 1 (fdiv32 (rr_distance r) 2)))
          (filter (\<lambda>r. vid_parse (rr_id r) \<noteq> None) raws)) (cf_top_k cfg)
    \<and> distinct (map content_of rs) \<and> length rs \<le> cf_top_k cfg"
proof -
  let ?rs = "rank_results (cf_top_k cfg) (dense_results raws)"
  have "search it env query cfg = Inr ?rs" using assms by (simp add: search_def)
  then show ?thesis using rank_results_ref [of _ "dense_results raws"] rank_results_shape
    unfolding dense_results_content by blast
qed

text \<open>
  The hybrid embedder returns one vector per text, in the order of the texts, each from the model
  its text is routed to, however the texts are interleaved.
\<close>

theorem hybrid_embed_pointwise:
  assumes "\<And>ts. em_embed code ts = Inr (map ce ts)" and "\<And>ts. em_embed docs ts = Inr (map de ts)"
    and "hybrid_new code docs = Inr hy"
  shows "hybrid_embed hy texts = Inr (map (\<lambda>t. if looks_like_code t then ce t else de t) texts)"
  using assms by (intro hybrid_embed_map) (auto simp: hybrid_new_def split: if_splits)

section \<open>Concrete instances\<close>

lemma hybrid_search_ranking_witness:
  "let env = \<lparr>en_embed = (\<lambda>ts. Inr [[1]]), en_search_knn = (\<lambda>q k. Inr [\<lparr>rr_id = ''section::x'', rr_distance = 0\<rparr>]),
         en_sparse_embedder = Some (\<lambda>ts. Inr [\<lparr>sv_indices = [1], sv_values = [1]\<rparr>]),
         en_sparse_index = Some (\<lambda>qi qv k. Inr [\<lparr>ss_id = ''claim::x'', ss_score = 1\<rparr>])\<rparr>
   in \<exists>rs. search rev env ''q'' (search_config_default\<lparr>cf_sparse_weight := 1 / 2\<rparr>) = Inr rs \<and> distinct (map content_of rs) \<and> length rs \<le> 10"
proof -
  define semb where "semb = (\<lambda>ts :: string list. Inr [\<lparr>sv_indices = [1], sv_values = [1]\<rparr>] :: sparse_vector list index_result)"
  define sidx where "sidx = (\<lambda>(qi :: nat list) (qv :: f32 list) (k :: nat). Inr [\<lparr>ss_id = ''claim::x'', ss_score = 1\<rparr>] :: sparse_search_result list index_result)"
  define env where "env = \<lparr>en_embed = (\<lambda>ts. Inr [[1]]), en_search_knn = (\<lambda>q k. Inr [\<lparr>rr_id = ''section::x'', rr_distance = 0\<rparr>]),
         en_sparse_embedder = Some semb, en_sparse_index = Some sidx\<rparr>"
  define cfg where "cfg = search_config_default\<lparr>cf_sparse_weight := 1 / 2\<rparr>"
  have 1: "hash_order (rev :: (string \<times> f32) list \<Rightarrow> _)" by (simp add: hash_order_def)
  have 2: "0 < cf_sparse_weight cfg" "cf_top_k cfg = 10" by (simp_all add: cfg_def search_config_default_def)
  have 3: "en_sparse_embedder env = Some semb" "en_sparse_index env = Some sidx" "en_embed env [''q''] = Inr [[1]]"
    "en_search_knn env [1] (cf_raw_k cfg) = Inr [\<lparr>rr_id = ''section::x'', rr_distance = 0\<rparr>]" by (simp_all add: env_def)
  have 4: "semb [''q''] = Inr [\<lparr>sv_indices = [1], sv_values = [1]\<rparr>]" by (simp add: semb_def)
  have 5: "sidx qi qv k = Inr [\<lparr>ss_id = ''claim::x'', ss_score = 1\<rparr>]" for qi qv k by (simp add: sidx_def)
  show ?thesis
    unfolding Let_def semb_def [symmetric] sidx_def [symmetric] env_def [symmetric] cfg_def [symmetric]
    using hybrid_search_ranking [OF 1 2(1) 3 4 5] unfolding 2(2) by blast
qed

lemma dense_search_ranking_witness:
  "\<exists>rs. search rev \<lparr>en_embed = (\<lambda>ts. Inr [[1]]), en_search_knn = (\<lambda>q k. Inr [\<lparr>rr_id = ''section::x'', rr_distance = 1\<rparr>]),
         en_sparse_embedder = None, en_sparse_index = None\<rparr> ''q'' search_config_default = Inr rs \<and> length rs \<le> 10"
proof -
  define env where "env = \<lparr>en_embed = (\<lambda>ts. Inr [[1]]), en_search_knn = (\<lambda>q k. Inr [\<lparr>rr_id = ''section::x'', rr_distance = 1\<rparr>]),
         en_sparse_embedder = None, en_sparse_index = None\<rparr>"
  have 1: "sparse_pair env search_config_default = None" "cf_top_k search_config_default = 10"
    by (simp_all add: sparse_pair_def search_config_default_def)
  have 2: "en_embed env [''q''] = Inr [[1]]"
    "en_search_knn env [1] (cf_raw_k search_config_default) = Inr [\<lparr>rr_id = ''section::x'', rr_distance = 1\<rparr>]"
    by (simp_all add: env_def)
  show ?thesis unfolding env_def [symmetric] using dense_search_ranking [OF 1(1) 2] unfolding 1(2) by blast
qed

lemma hybrid_embed_pointwise_witness:
  "let e = (\<lambda>n. \<lparr>em_embed = (\<lambda>ts. Inr (map (\<lambda>t. [of_nat n]) ts)), em_dimension = 1\<rparr>)
   in \<exists>hy. hybrid_new (e 1) (e 2) = Inr hy \<and> hybrid_embed hy [''fn main()'', ''some prose''] = Inr [[1], [2]]"
proof -
  let ?e = "\<lambda>n. \<lparr>em_embed = (\<lambda>ts. Inr (map (\<lambda>t. [of_nat n]) ts)), em_dimension = 1\<rparr>"
  obtain hy where hy: "hybrid_new (?e 1) (?e 2) = Inr hy" by (simp add: hybrid_new_def)
  have "looks_like_code ''fn main()''" "\<not> looks_like_code ''some prose''" by code_simp+
  then have "hybrid_embed hy [''fn main()'', ''some prose''] = Inr [[1], [2]]"
    using hybrid_embed_pointwise [OF _ _ hy, of "\<lambda>t. [1]" "\<lambda>t. [2]"] by simp
  then show ?thesis using hy unfolding Let_def by blast
qed

text \<open>
  A tie is not broken: two vectors of one content with the same fused score are returned in the order
  the hash map yields them, so the resolution an agent is shown depends on it.
\<close>

lemma fused_tie_depends_on_order:
  "let d = \<lparr>sc_vector_id = ''section::x'', sc_raw_distance = 0, sc_resolution = Section, sc_score = 1,
         sc_explanation = score_explanation_default\<rparr>;
       s = \<lparr>ss_id = ''sec-summary::x'', ss_score = 1\<rparr>
   in map sc_resolution (rank_results 1 (rrf_fuse (\<lambda>xs. xs) [d] [s] (1 / 2))) = [Section]
     \<and> map sc_resolution (rank_results 1 (rrf_fuse rev [d] [s] (1 / 2))) = [Summary]"
  by code_simp

end
