(* ===== verification/Bridge.thy ===== *)
theory Bridge
  imports Text Float_Model Identity
begin

text \<open>
  Cross-language bridges (\<open>ministr-core/src/code/bridge/mod.rs\<close>, \<open>linker.rs\<close>,
  \<open>semantic.rs\<close>): endpoints found by language-specific extractors are joined into links, by equal
  binding keys, then by keys equal after case conversion, then by similar names. The extractors
  walk syntax trees of a library and are arguments, like the embedding model and the square
  root; the iteration orders of the two hash maps are the arguments \<open>it\<close> and \<open>it'\<close>.
\<close>

section \<open>Kinds, endpoints and links\<close>

datatype bridge_kind =
    TauriCommand | TauriEvent | Napi | WasmBindgen | PyO3 | HttpRoute | Ffi | Cgo | Jni | UniFfi
  | Grpc | FlutterChannel | ElectronIpc

fun bridge_kind_str :: "bridge_kind \<Rightarrow> string" where
  "bridge_kind_str TauriCommand = ''tauri_command''"
| "bridge_kind_str TauriEvent = ''tauri_event''"
| "bridge_kind_str Napi = ''napi''"
| "bridge_kind_str WasmBindgen = ''wasm_bindgen''"
| "bridge_kind_str PyO3 = ''pyo3''"
| "bridge_kind_str HttpRoute = ''http_route''"
| "bridge_kind_str Ffi = ''ffi''"
| "bridge_kind_str Cgo = ''cgo''"
| "bridge_kind_str Jni = ''jni''"
| "bridge_kind_str UniFfi = ''uniffi''"
| "bridge_kind_str Grpc = ''grpc''"
| "bridge_kind_str FlutterChannel = ''flutter_channel''"
| "bridge_kind_str ElectronIpc = ''electron_ipc''"

definition bridge_kind_parse :: "string \<Rightarrow> bridge_kind option" where
  "bridge_kind_parse s =
     (if s = ''tauri_command'' then Some TauriCommand
      else if s = ''tauri_event'' then Some TauriEvent
      else if s = ''napi'' then Some Napi
      else if s = ''wasm_bindgen'' then Some WasmBindgen
      else if s = ''pyo3'' then Some PyO3
      else if s = ''http_route'' then Some HttpRoute
      else if s = ''ffi'' then Some Ffi
      else if s = ''cgo'' then Some Cgo
      else if s = ''jni'' then Some Jni
      else if s = ''uniffi'' then Some UniFfi
      else if s = ''grpc'' then Some Grpc
      else if s = ''flutter_channel'' then Some FlutterChannel
      else if s = ''electron_ipc'' then Some ElectronIpc
      else None)"

datatype endpoint_role = Export | Import

datatype confidence_level = Exact | RegistrationValidated | CaseTransformed | Fuzzy

fun confidence_score :: "confidence_level \<Rightarrow> f32" where
  "confidence_score Exact = 1"
| "confidence_score RegistrationValidated = 1"
| "confidence_score CaseTransformed = rnd32 (9 / 10)"
| "confidence_score Fuzzy = rnd32 (7 / 10)"

record bridge_endpoint =
  be_binding_key :: string
  be_kind :: bridge_kind
  be_role :: endpoint_role
  be_language :: string
  be_file_path :: string
  be_line :: nat
  be_symbol_name :: string
  be_confidence :: f32

record bridge_link =
  bl_export :: bridge_endpoint
  bl_import :: bridge_endpoint
  bl_kind :: bridge_kind
  bl_confidence :: f32

text \<open>
  \<open>BridgeLink::new\<close>: what it asserts of its arguments, a panic in debug builds when it does not hold, and the link it
  returns when no assertion fails or assertions are compiled out.
\<close>

definition link_asserts :: "bridge_endpoint \<Rightarrow> bridge_endpoint \<Rightarrow> bool" where
  "link_asserts ex im \<longleftrightarrow> be_kind ex = be_kind im \<and> be_binding_key ex = be_binding_key im \<and> be_role ex = Export \<and> be_role im = Import"

definition link_new :: "bridge_endpoint \<Rightarrow> bridge_endpoint \<Rightarrow> bridge_link" where
  "link_new ex im =
     \<lparr>bl_export = ex, bl_import = im, bl_kind = be_kind ex, bl_confidence = min (be_confidence ex) (be_confidence im)\<rparr>"

section \<open>Case conversion\<close>

definition capitalize :: "char_tables \<Rightarrow> string \<Rightarrow> string" where
  "capitalize T segment =
     (case utf8_chars segment of [] \<Rightarrow> [] | c # cs \<Rightarrow> ch_to_upper T c @ concat cs)"

text \<open>The segments after the first are capitalized, also when the first is empty.\<close>

definition snake_to_camel :: "char_tables \<Rightarrow> string \<Rightarrow> string" where
  "snake_to_camel T s =
     (case split_on (CHR ''_'') s of [] \<Rightarrow> [] | w # ws \<Rightarrow> w @ concat (map (capitalize T) ws))"

fun camel_loop :: "char_tables \<Rightarrow> string list \<Rightarrow> bool \<Rightarrow> string" where
  "camel_loop T [] prev_lower = []"
| "camel_loop T (ch # cs) prev_lower =
     (if ch_uppercase T ch \<and> prev_lower then ''_'' else []) @ ch_to_lower T ch @ camel_loop T cs (ch_lowercase T ch)"

definition camel_to_snake :: "char_tables \<Rightarrow> string \<Rightarrow> string" where
  "camel_to_snake T s = camel_loop T (utf8_chars s) False"

definition normalize_binding_key :: "char_tables \<Rightarrow> string \<Rightarrow> string" where
  "normalize_binding_key T key = (if CHR ''_'' \<in> set key then key else camel_to_snake T key)"

section \<open>The linker\<close>

record 't source_file =
  sf_file_path :: string
  sf_language :: string
  sf_tree :: 't
  sf_source :: string

record 't bridge_extractor =
  bx_applicable_languages :: "string list"
  bx_extract_endpoints :: "'t \<Rightarrow> string \<Rightarrow> string \<Rightarrow> string \<Rightarrow> bridge_endpoint list"

definition extract_all :: "'t bridge_extractor list \<Rightarrow> 't source_file list \<Rightarrow> bridge_endpoint list" where
  "extract_all extractors files =
     concat (map (\<lambda>file. concat (map (\<lambda>x.
       if sf_language file \<in> set (bx_applicable_languages x)
       then bx_extract_endpoints x (sf_tree file) (sf_source file) (sf_file_path file) (sf_language file)
       else []) extractors)) files)"

type_synonym endpoint_group = "bridge_endpoint list \<times> bridge_endpoint list"

fun add_endpoint :: "bridge_endpoint \<Rightarrow> endpoint_group \<Rightarrow> endpoint_group" where
  "add_endpoint ep (exports, imports) =
     (case be_role ep of Export \<Rightarrow> (exports @ [ep], imports) | Import \<Rightarrow> (exports, imports @ [ep]))"

definition group_endpoints ::
    "(bridge_endpoint \<Rightarrow> bridge_kind \<times> string) \<Rightarrow> bridge_endpoint list \<Rightarrow> ((bridge_kind \<times> string) \<times> endpoint_group) list" where
  "group_endpoints key eps =
     fold (\<lambda>ep g. AList.update (key ep) (add_endpoint ep (case map_of g (key ep) of None \<Rightarrow> ([], []) | Some v \<Rightarrow> v)) g)
       eps []"

definition exact_key :: "bridge_endpoint \<Rightarrow> bridge_kind \<times> string" where
  "exact_key ep = (be_kind ep, be_binding_key ep)"

definition normal_key :: "char_tables \<Rightarrow> bridge_endpoint \<Rightarrow> bridge_kind \<times> string" where
  "normal_key T ep = (be_kind ep, normalize_binding_key T (be_binding_key ep))"

definition case_link :: "char_tables \<Rightarrow> bridge_endpoint \<Rightarrow> bridge_endpoint \<Rightarrow> bridge_link" where
  "case_link T ex im =
     (let normalized_key = normalize_binding_key T (be_binding_key ex);
          cap = confidence_score CaseTransformed
      in link_new
           (ex\<lparr>be_binding_key := normalized_key, be_confidence := min (be_confidence ex) cap\<rparr>)
           (im\<lparr>be_binding_key := normalized_key, be_confidence := min (be_confidence im) cap\<rparr>))"

definition link_exact :: "endpoint_group \<Rightarrow> bridge_link list" where
  "link_exact g = concat (map (\<lambda>ex. map (link_new ex) (snd g)) (fst g))"

definition link_normalized :: "char_tables \<Rightarrow> endpoint_group \<Rightarrow> bridge_link list" where
  "link_normalized T g =
     concat (map (\<lambda>ex. map (case_link T ex) (filter (\<lambda>im. be_binding_key ex \<noteq> be_binding_key im) (snd g))) (fst g))"

type_synonym group_order = "((bridge_kind \<times> string) \<times> endpoint_group) list \<Rightarrow> ((bridge_kind \<times> string) \<times> endpoint_group) list"

text \<open>The two sets of matched keys of the source hold the same keys; here they are one list.\<close>

definition link :: "group_order \<Rightarrow> group_order \<Rightarrow> char_tables \<Rightarrow> bridge_endpoint list \<Rightarrow> bridge_link list" where
  "link it it' T endpoints =
     (let groups = it (group_endpoints exact_key endpoints);
          both = filter (\<lambda>(k, g). fst g \<noteq> [] \<and> snd g \<noteq> []) groups;
          exact_matched = map fst both;
          links = concat (map (\<lambda>(k, g). link_exact g) both);
          rest = filter (\<lambda>ep. exact_key ep \<notin> set exact_matched) endpoints;
          normalized_groups = it' (group_endpoints (normal_key T) rest)
      in sort_key (\<lambda>l. - bl_confidence l)
           (links @ concat (map (\<lambda>(k, g). link_normalized T g) normalized_groups)))"

definition extract_and_link ::
    "group_order \<Rightarrow> group_order \<Rightarrow> char_tables \<Rightarrow> 't bridge_extractor list \<Rightarrow> 't source_file list \<Rightarrow> bridge_link list" where
  "extract_and_link it it' T extractors files = link it it' T (extract_all extractors files)"

section \<open>The semantic fallback\<close>

datatype semantic_error = DimensionMismatch nat nat | EmptyVectors | Embedding string

definition sum32 :: "f32 list \<Rightarrow> f32" where
  "sum32 xs = fold (\<lambda>x s. fadd32 s x) xs 0"

definition cosine_similarity :: "(f32 \<Rightarrow> f32) \<Rightarrow> f32 list \<Rightarrow> f32 list \<Rightarrow> f32" where
  "cosine_similarity sq a b =
     (if length a \<noteq> length b \<or> a = [] then 0
      else
        (let dt = sum32 (map (\<lambda>(x, y). fmul32 x y) (zip a b));
             norm_a = sq (sum32 (map (\<lambda>x. fmul32 x x) a));
             norm_b = sq (sum32 (map (\<lambda>x. fmul32 x x) b))
         in if norm_a = 0 \<or> norm_b = 0 then 0 else fdiv32 dt (fmul32 norm_a norm_b)))"

definition fuzzy_link :: "bridge_endpoint \<Rightarrow> bridge_endpoint \<Rightarrow> bridge_link" where
  "fuzzy_link ex im =
     (let fuzzy = confidence_score Fuzzy
      in link_new (ex\<lparr>be_confidence := fuzzy\<rparr>) (im\<lparr>be_binding_key := be_binding_key ex, be_confidence := fuzzy\<rparr>))"

definition find_matches ::
    "(f32 \<Rightarrow> f32) \<Rightarrow> f32 \<Rightarrow> (string list \<Rightarrow> semantic_error + f32 list list) \<Rightarrow> bridge_endpoint list \<Rightarrow> bridge_endpoint list
      \<Rightarrow> semantic_error + bridge_link list" where
  "find_matches sq threshold embed_batch unmatched_exports unmatched_imports =
     (if unmatched_exports = [] \<or> unmatched_imports = [] then Inr []
      else
        (let all_names = map be_symbol_name unmatched_exports @ map be_symbol_name unmatched_imports in
         case embed_batch all_names of
           Inl e \<Rightarrow> Inl e
         | Inr embeddings \<Rightarrow>
             if length embeddings \<noteq> length all_names then
               Inl (DimensionMismatch (length all_names) (length embeddings))
             else
               (let export_embeddings = take (length unmatched_exports) embeddings;
                    import_embeddings = drop (length unmatched_exports) embeddings
                in Inr (sort_key (\<lambda>l. - bl_confidence l)
                     (concat (map (\<lambda>(ex, ee). map (\<lambda>(im, ie). fuzzy_link ex im)
                        (filter (\<lambda>(im, ie). threshold \<le> cosine_similarity sq ee ie) (zip unmatched_imports import_embeddings)))
                       (zip unmatched_exports export_embeddings)))))))"

definition endpoint_site :: "bridge_endpoint \<Rightarrow> string \<times> string \<times> nat" where
  "endpoint_site ep = (be_file_path ep, be_binding_key ep, be_line ep)"

definition collect_unmatched ::
    "bridge_endpoint list \<Rightarrow> bridge_link list \<Rightarrow> bridge_endpoint list \<times> bridge_endpoint list" where
  "collect_unmatched endpoints links =
     (let matched = fold (\<lambda>l m. hs_insert (endpoint_site (bl_import l)) (hs_insert (endpoint_site (bl_export l)) m)) links [];
          free = filter (\<lambda>ep. endpoint_site ep \<notin> set matched) endpoints
      in (filter (\<lambda>ep. be_role ep = Export) free, filter (\<lambda>ep. be_role ep = Import) free))"

definition link_with_fallback ::
    "group_order \<Rightarrow> group_order \<Rightarrow> char_tables \<Rightarrow> (f32 \<Rightarrow> f32) \<Rightarrow> f32 \<Rightarrow> (string list \<Rightarrow> semantic_error + f32 list list)
      \<Rightarrow> bridge_endpoint list \<Rightarrow> semantic_error + bridge_link list" where
  "link_with_fallback it it' T sq threshold embed_batch endpoints =
     (let links = link it it' T endpoints;
          (unmatched_exports, unmatched_imports) = collect_unmatched endpoints links
      in if unmatched_exports \<noteq> [] \<and> unmatched_imports \<noteq> [] then
           (case find_matches sq threshold embed_batch unmatched_exports unmatched_imports of
              Inl e \<Rightarrow> Inl e
            | Inr semantic_links \<Rightarrow> Inr (links @ semantic_links))
         else Inr links)"

section \<open>Specification\<close>

text \<open>
  The links without hash maps: exports with the imports of the same kind and key; then, of the
  endpoints whose key has no counterpart, exports with the imports whose key is another spelling.
\<close>

definition endpoints_of :: "endpoint_role \<Rightarrow> bridge_endpoint list \<Rightarrow> bridge_endpoint list" where
  "endpoints_of role eps = filter (\<lambda>ep. be_role ep = role) eps"

definition has_counterpart :: "bridge_endpoint list \<Rightarrow> bridge_endpoint \<Rightarrow> bool" where
  "has_counterpart eps ep \<longleftrightarrow>
     (\<exists>e \<in> set eps. be_role e = Export \<and> exact_key e = exact_key ep)
     \<and> (\<exists>i \<in> set eps. be_role i = Import \<and> exact_key i = exact_key ep)"

definition exact_links :: "bridge_endpoint list \<Rightarrow> bridge_link list" where
  "exact_links eps =
     concat (map (\<lambda>ex. map (link_new ex) (filter (\<lambda>im. exact_key im = exact_key ex) (endpoints_of Import eps)))
       (endpoints_of Export eps))"

definition spelled_links :: "char_tables \<Rightarrow> bridge_endpoint list \<Rightarrow> bridge_link list" where
  "spelled_links T eps =
     (let rest = filter (\<lambda>ep. \<not> has_counterpart eps ep) eps
      in concat (map (\<lambda>ex. map (case_link T ex)
             (filter (\<lambda>im. normal_key T im = normal_key T ex \<and> be_binding_key ex \<noteq> be_binding_key im) (endpoints_of Import rest)))
           (endpoints_of Export rest)))"

text \<open>What \<open>BridgeLink::new\<close> asserts of a link, all but the equality of the kinds.\<close>

definition link_shape :: "bridge_link \<Rightarrow> bool" where
  "link_shape l \<longleftrightarrow>
     be_role (bl_export l) = Export \<and> be_role (bl_import l) = Import
     \<and> be_binding_key (bl_export l) = be_binding_key (bl_import l) \<and> bl_kind l = be_kind (bl_export l)
     \<and> bl_confidence l = min (be_confidence (bl_export l)) (be_confidence (bl_import l))"

definition link_ref :: "char_tables \<Rightarrow> bridge_endpoint list \<Rightarrow> bridge_link list" where
  "link_ref T eps = exact_links eps @ spelled_links T eps"

section \<open>Grouping\<close>

lemma group_endpoints_snoc:
  "group_endpoints key (eps @ [ep]) = AList.update (key ep)
     (add_endpoint ep (case map_of (group_endpoints key eps) (key ep) of None \<Rightarrow> ([], []) | Some v \<Rightarrow> v)) (group_endpoints key eps)"
  by (simp add: group_endpoints_def)

lemma group_distinct: "distinct (map fst (group_endpoints key eps))"
  by (induction eps rule: rev_induct) (simp_all add: group_endpoints_snoc distinct_update, simp add: group_endpoints_def)

definition members :: "(bridge_endpoint \<Rightarrow> bridge_kind \<times> string) \<Rightarrow> bridge_endpoint list \<Rightarrow> bridge_kind \<times> string \<Rightarrow> endpoint_group" where
  "members key eps k =
     (filter (\<lambda>ep. key ep = k) (endpoints_of Export eps), filter (\<lambda>ep. key ep = k) (endpoints_of Import eps))"

lemma group_lookup:
  "map_of (group_endpoints key eps) k = (if k \<in> key ` set eps then Some (members key eps k) else None)"
proof (induction eps arbitrary: k rule: rev_induct)
  case Nil
  show ?case by (simp add: group_endpoints_def)
next
  case (snoc ep eps)
  have "members key eps (key ep) = ([], [])" if "key ep \<notin> key ` set eps"
    using that by (auto simp: members_def endpoints_of_def filter_empty_conv intro: rev_image_eqI)
  then have "(case map_of (group_endpoints key eps) (key ep) of None \<Rightarrow> ([], []) | Some v \<Rightarrow> v) = members key eps (key ep)"
    by (simp add: snoc)
  then show ?case
    by (cases "be_role ep") (auto simp: group_endpoints_snoc update_conv' snoc members_def endpoints_of_def)
qed

lemma group_entries: "group_endpoints key eps = map (\<lambda>k. (k, members key eps k)) (map fst (group_endpoints key eps))"
proof -
  have "g = members key eps k" if "(k, g) \<in> set (group_endpoints key eps)" for k g
  proof -
    have "map_of (group_endpoints key eps) k = Some g" using that by (simp add: map_of_eq_Some_iff [OF group_distinct])
    then show ?thesis by (simp add: group_lookup split: if_splits)
  qed
  then show ?thesis by (auto simp: comp_def intro!: map_idI [symmetric])
qed

lemma group_keys: "set (map fst (group_endpoints key eps)) = key ` set eps"
proof -
  have "set (map fst (group_endpoints key eps)) = dom (map_of (group_endpoints key eps))"
    by (simp add: dom_map_of_conv_image_fst)
  also have "\<dots> = key ` set eps" by (simp add: dom_def group_lookup)
  finally show ?thesis .
qed

section \<open>Links as a multiset\<close>

lemma mset_concat_map: "mset (concat (map f xs)) = (\<Sum>x \<in># mset xs. mset (f x))"
  by (induction xs) simp_all

lemma concat_map_order: "hash_order it \<Longrightarrow> mset (concat (map f (it xs))) = mset (concat (map f xs))"
  by (simp only: mset_concat_map hash_order_def)

lemma concat_map_filter: "(\<And>x. x \<in> set xs \<Longrightarrow> \<not> P x \<Longrightarrow> f x = []) \<Longrightarrow> concat (map f (filter P xs)) = concat (map f xs)"
  by (induction xs) auto

lemma mset_partition:
  assumes "distinct ks" and "key ` set xs \<subseteq> set ks"
  shows "mset (concat (map (\<lambda>k. concat (map h (filter (\<lambda>x. key x = k) xs))) ks)) = mset (concat (map h xs))"
  using assms(2)
proof (induction xs)
  case Nil
  show ?case by (induction ks) simp_all
next
  case (Cons x xs)
  have one: "mset (concat (map (\<lambda>k. (if key x = k then h x else []) @ r k) ks)) = mset (h x) + mset (concat (map r ks))"
    if "distinct ks" "key x \<in> set ks" for r ks
    using that
  proof (induction ks)
    case (Cons k ks)
    show ?case
    proof (cases "key x = k")
      case True
      then have "map (\<lambda>k. (if key x = k then h x else []) @ r k) ks = map r ks"
        using Cons.prems(1) by (intro map_cong refl) auto
      from arg_cong [OF this, of concat] show ?thesis using True
        by (simp only: list.map concat.simps mset_append) simp
    next
      case False
      then show ?thesis using Cons by simp
    qed
  qed simp
  have "mset (concat (map (\<lambda>k. concat (map h (filter (\<lambda>y. key y = k) (x # xs)))) ks))
      = mset (concat (map (\<lambda>k. (if key x = k then h x else []) @ concat (map h (filter (\<lambda>y. key y = k) xs))) ks))"
    by (intro arg_cong [where f = "\<lambda>l. mset (concat l)"] map_cong) auto
  then show ?case using Cons one [OF assms(1)] by simp
qed

lemma grouped_links:
  assumes "\<And>g. f g = concat (map (\<lambda>ex. h ex (snd g)) (fst g))"
  shows "mset (concat (map (\<lambda>(k, g). f g) (group_endpoints key eps)))
    = mset (concat (map (\<lambda>ex. h ex (filter (\<lambda>im. key im = key ex) (endpoints_of Import eps))) (endpoints_of Export eps)))"
proof -
  let ?ks = "map fst (group_endpoints key eps)" and ?ex = "endpoints_of Export eps"
  let ?h = "\<lambda>ex. h ex (filter (\<lambda>im. key im = key ex) (endpoints_of Import eps))"
  have "concat (map (\<lambda>(k, g). f g) (group_endpoints key eps)) = concat (map (\<lambda>k. f (members key eps k)) ?ks)"
    by (subst group_entries) (simp add: comp_def)
  also have "\<dots> = concat (map (\<lambda>k. concat (map ?h (filter (\<lambda>x. key x = k) ?ex))) ?ks)"
    by (intro arg_cong [where f = concat] map_cong refl) (auto simp: assms members_def intro!: arg_cong [where f = concat] map_cong)
  finally show ?thesis
    using mset_partition [OF group_distinct, of key ?ex key eps ?h] group_keys [of key eps] by (auto simp: endpoints_of_def)
qed

lemma link_mset:
  assumes "hash_order it" and "hash_order it'"
  shows "mset (link it it' T eps) = mset (link_ref T eps)"
proof -
  let ?groups = "group_endpoints exact_key eps"
  let ?both = "filter (\<lambda>(k, g). fst g \<noteq> [] \<and> snd g \<noteq> []) (it ?groups)"
  have "concat (map (\<lambda>(k, g). link_exact g) ?both) = concat (map (\<lambda>(k, g). link_exact g) (it ?groups))"
    by (rule concat_map_filter) (auto simp: link_exact_def)
  then have exact: "mset (concat (map (\<lambda>(k, g). link_exact g) ?both)) = mset (exact_links eps)"
    using grouped_links [of link_exact "\<lambda>ex. map (link_new ex)" exact_key eps]
    by (simp add: concat_map_order [OF assms(1)] link_exact_def exact_links_def)
  have mem: "set (it ?groups) = set ?groups" using assms(1) by (metis hash_order_def mset_eq_setD)
  have matched: "exact_key ep \<in> set (map fst ?both) \<longleftrightarrow> has_counterpart eps ep" if "ep \<in> set eps" for ep
  proof -
    have "exact_key ep \<in> set (map fst ?both) \<longleftrightarrow> (\<exists>g. (exact_key ep, g) \<in> set ?groups \<and> fst g \<noteq> [] \<and> snd g \<noteq> [])"
      unfolding set_map set_filter mem by (auto intro: rev_image_eqI) blast
    also have "\<dots> \<longleftrightarrow> (\<exists>g. map_of ?groups (exact_key ep) = Some g \<and> fst g \<noteq> [] \<and> snd g \<noteq> [])"
      by (simp add: map_of_eq_Some_iff [OF group_distinct])
    also have "\<dots> \<longleftrightarrow> has_counterpart eps ep"
      using that by (auto simp: group_lookup members_def endpoints_of_def filter_empty_conv has_counterpart_def)
    finally show ?thesis .
  qed
  have rest: "filter (\<lambda>ep. exact_key ep \<notin> set (map fst ?both)) eps = filter (\<lambda>ep. \<not> has_counterpart eps ep) eps"
    by (intro filter_cong refl) (simp add: matched del: set_map)
  have "mset (concat (map (\<lambda>(k, g). link_normalized T g) (it' (group_endpoints (normal_key T) rs))))
      = mset (concat (map (\<lambda>ex. map (case_link T ex)
          (filter (\<lambda>im. normal_key T im = normal_key T ex \<and> be_binding_key ex \<noteq> be_binding_key im) (endpoints_of Import rs)))
          (endpoints_of Export rs)))" for rs
    using grouped_links [of "link_normalized T" "\<lambda>ex ims. map (case_link T ex) (filter (\<lambda>im. be_binding_key ex \<noteq> be_binding_key im) ims)"
        "normal_key T" rs]
    by (simp add: concat_map_order [OF assms(2)] link_normalized_def conj_commute)
  then show ?thesis
    unfolding link_def Let_def link_ref_def spelled_links_def rest by (simp add: exact del: set_map)
qed


section \<open>Shape of the links\<close>

lemma set_exact_links:
  "set (exact_links eps) = {link_new ex im | ex im. ex \<in> set eps \<and> im \<in> set eps \<and> be_role ex = Export \<and> be_role im = Import
     \<and> exact_key im = exact_key ex}"
  by (auto simp: exact_links_def endpoints_of_def)

lemma set_spelled_links:
  "set (spelled_links T eps) = {case_link T ex im | ex im. ex \<in> set eps \<and> im \<in> set eps \<and> be_role ex = Export \<and> be_role im = Import
     \<and> \<not> has_counterpart eps ex \<and> \<not> has_counterpart eps im \<and> normal_key T im = normal_key T ex
     \<and> be_binding_key ex \<noteq> be_binding_key im}"
  by (auto simp: spelled_links_def endpoints_of_def Let_def)

lemma set_link:
  assumes "hash_order it" and "hash_order it'"
  shows "set (link it it' T eps) = set (exact_links eps) \<union> set (spelled_links T eps)"
  using mset_eq_setD [OF link_mset [OF assms]] by (simp add: link_ref_def)

lemma link_new_shape: "be_role ex = Export \<Longrightarrow> be_role im = Import \<Longrightarrow> be_binding_key ex = be_binding_key im \<Longrightarrow> link_shape (link_new ex im)"
  by (simp add: link_shape_def link_new_def)

lemma link_shape_link:
  assumes "hash_order it" and "hash_order it'" and "l \<in> set (link it it' T eps)"
  shows "link_shape l \<and> be_kind (bl_export l) = be_kind (bl_import l)"
  using assms(3) unfolding set_link [OF assms(1,2)] set_exact_links set_spelled_links
  by (auto simp: case_link_def Let_def exact_key_def normal_key_def link_shape_def link_new_def)

lemma find_matches_Inr:
  assumes "find_matches sq th embed_batch exs ims = Inr ls" and "l \<in> set ls"
  shows "\<exists>ex \<in> set exs. \<exists>im \<in> set ims. l = fuzzy_link ex im"
  using assms by (auto simp: find_matches_def Let_def split: if_splits sum.splits dest!: set_zip_leftD) blast

lemma collect_unmatched_roles:
  assumes "collect_unmatched eps ls = (exs, ims)"
  shows "ex \<in> set exs \<Longrightarrow> be_role ex = Export \<and> ex \<in> set eps" "im \<in> set ims \<Longrightarrow> be_role im = Import \<and> im \<in> set eps"
  using assms by (auto simp: collect_unmatched_def Let_def)

lemma with_fallback_Inr:
  assumes "link_with_fallback it it' T sq th embed_batch eps = Inr ls" and "l \<in> set ls" and "l \<notin> set (link it it' T eps)"
  shows "\<exists>ex \<in> set eps. \<exists>im \<in> set eps. be_role ex = Export \<and> be_role im = Import \<and> l = fuzzy_link ex im"
proof -
  obtain exs ims where cu: "collect_unmatched eps (link it it' T eps) = (exs, ims)" by fastforce
  from assms cu obtain sl where sl: "find_matches sq th embed_batch exs ims = Inr sl" "l \<in> set sl"
    by (auto simp: link_with_fallback_def Let_def split: if_splits sum.splits)
  from find_matches_Inr [OF this] collect_unmatched_roles [OF cu] show ?thesis by blast
qed

section \<open>Spelling of keys\<close>

definition lower_word :: "nat \<Rightarrow> string \<Rightarrow> bool" where
  "lower_word n w \<longleftrightarrow> n \<le> length w \<and> list_all ascii_lower w"

lemma ascii_lower_facts:
  assumes "ascii_lower c"
  shows "utf8_len c = 1" "to_ascii_lower c = c" "\<not> ascii_upper c" "c \<noteq> CHR ''_''"
    "ascii_upper (to_ascii_upper c)" "to_ascii_lower (to_ascii_upper c) = c" "utf8_len (to_ascii_upper c) = 1"
    "\<not> ascii_lower (to_ascii_upper c)" "to_ascii_upper c \<noteq> CHR ''_''"
proof -
  obtain n where n: "of_char c = (n :: nat)" "97 \<le> n" "n \<le> 122" using assms by (auto simp: ascii_lower_def)
  then have up: "of_char (to_ascii_upper c) = n - 32" using assms by (simp add: to_ascii_upper_def)
  show "utf8_len c = 1" using n by (simp add: utf8_len_def Let_def)
  show "\<not> ascii_upper c" using n by (simp add: ascii_upper_def)
  then show "to_ascii_lower c = c" by (simp add: to_ascii_lower_def)
  show "c \<noteq> CHR ''_''" using n by auto
  show upper: "ascii_upper (to_ascii_upper c)" using n up by (auto simp: ascii_upper_def)
  have "char_of n = c" using n(1) by (metis char_of_char)
  then show "to_ascii_lower (to_ascii_upper c) = c" using n by (simp add: to_ascii_lower_def upper up)
  show "utf8_len (to_ascii_upper c) = 1" using n up by (auto simp: utf8_len_def Let_def)
  show "\<not> ascii_lower (to_ascii_upper c)" using n up by (auto simp: ascii_lower_def)
  show "to_ascii_upper c \<noteq> CHR ''_''" using n up by auto
qed

lemma utf8_chars_ascii: "(\<And>c. c \<in> set s \<Longrightarrow> utf8_len c = 1) \<Longrightarrow> utf8_chars s = map (\<lambda>c. [c]) s"
  by (induction s) simp_all

lemma capitalize_word: "ascii_lower c \<Longrightarrow> capitalize ascii_tables (c # w) = to_ascii_upper c # w"
  by (simp add: capitalize_def ascii_tables_def ascii_lower_facts concat_utf8_chars)

lemma camel_lower:
  "list_all ascii_lower w \<Longrightarrow> w \<noteq> [] \<Longrightarrow>
     camel_loop ascii_tables (map (\<lambda>c. [c]) w @ cs) b = w @ camel_loop ascii_tables cs True"
proof (induction w arbitrary: b)
  case (Cons c w)
  then show ?case by (cases w) (auto simp: ascii_tables_def ascii_lower_facts)
qed simp

lemma camel_words:
  assumes "list_all (lower_word 2) ws"
  shows "camel_loop ascii_tables (map (\<lambda>c. [c]) (concat (map (capitalize ascii_tables) ws))) True
    = concat (map ((#) (CHR ''_'')) ws)"
  using assms
proof (induction ws)
  case (Cons w ws)
  then obtain c v where w: "w = c # v" "v \<noteq> []" by (cases w; cases "tl w") (auto simp: lower_word_def)
  have low: "list_all ascii_lower v" "ascii_lower c" using Cons.prems by (auto simp: w lower_word_def)
  have up: "ch_uppercase ascii_tables [to_ascii_upper c]" "ch_to_lower ascii_tables [to_ascii_upper c] = [c]"
    using low(2) by (simp_all add: ascii_tables_def ascii_lower_facts)
  show ?case using Cons by (simp add: w(1) capitalize_word [OF low(2)] up camel_lower [OF low(1) w(2)])
qed simp

lemma split_on_words:
  assumes "list_all (\<lambda>w. c \<notin> set w) (w # ws)"
  shows "split_on c (w @ concat (map ((#) c) ws)) = w # ws"
  using assms
proof (induction ws arbitrary: w)
  case Nil
  then show ?case by (induction w) auto
next
  case (Cons v ws)
  then have "split_on c (v @ concat (map ((#) c) ws)) = v # ws" by simp
  with Cons.prems show ?case by (induction w) auto
qed

lemma camel_round_trip:
  assumes "lower_word 1 w" and "list_all (lower_word 2) ws" and "key = w @ concat (map ((#) (CHR ''_'')) ws)"
  shows "snake_to_camel ascii_tables key = w @ concat (map (capitalize ascii_tables) ws)
    \<and> camel_to_snake ascii_tables (snake_to_camel ascii_tables key) = key"
proof -
  have no: "list_all (\<lambda>w. CHR ''_'' \<notin> set w) (w # ws)"
    using assms(1,2) ascii_lower_facts(4) by (auto simp: list_all_iff lower_word_def)
  have lw: "list_all ascii_lower w" "w \<noteq> []" using assms(1) by (auto simp: lower_word_def)
  have camel: "snake_to_camel ascii_tables key = w @ concat (map (capitalize ascii_tables) ws)"
    by (simp add: snake_to_camel_def assms(3) split_on_words [OF no])
  have one: "utf8_len c = 1" if "c \<in> set (capitalize ascii_tables v)" "lower_word 2 v" for c v
    using that by (cases v) (auto simp: lower_word_def list_all_iff capitalize_word ascii_lower_facts)
  have "utf8_chars (w @ concat (map (capitalize ascii_tables) ws)) = map (\<lambda>c. [c]) (w @ concat (map (capitalize ascii_tables) ws))"
    using assms(1,2) one by (intro utf8_chars_ascii) (auto simp: lower_word_def list_all_iff ascii_lower_facts(1))
  then have "camel_to_snake ascii_tables (snake_to_camel ascii_tables key) = w @ concat (map ((#) (CHR ''_'')) ws)"
    using camel_words [OF assms(2)] camel_lower [OF lw] by (simp add: camel camel_to_snake_def)
  with camel assms(3) show ?thesis by simp
qed

lemma no_underscore_words:
  assumes "lower_word 1 w" and "list_all (lower_word 2) ws"
  shows "CHR ''_'' \<notin> set (w @ concat (map (capitalize ascii_tables) ws))"
proof -
  have "CHR ''_'' \<notin> set (capitalize ascii_tables v)" if "lower_word 2 v" for v
    using that ascii_lower_facts by (cases v) (fastforce simp: lower_word_def list_all_iff capitalize_word)+
  then show ?thesis using assms ascii_lower_facts(4) by (auto simp: lower_word_def list_all_iff)
qed

lemma normalize_spelling:
  assumes "lower_word 1 w" and "list_all (lower_word 2) ws" and "ws \<noteq> []" and "key = w @ concat (map ((#) (CHR ''_'')) ws)"
  shows "normalize_binding_key ascii_tables key = key"
    "normalize_binding_key ascii_tables (snake_to_camel ascii_tables key) = key"
    "snake_to_camel ascii_tables key \<noteq> key"
proof -
  have under: "CHR ''_'' \<in> set key" using assms(3,4) by (cases ws) auto
  show "normalize_binding_key ascii_tables key = key" using under by (simp add: normalize_binding_key_def)
  note rt = camel_round_trip [OF assms(1,2,4)] and no = no_underscore_words [OF assms(1,2)]
  from rt no have nocamel: "CHR ''_'' \<notin> set (snake_to_camel ascii_tables key)" by metis
  then show "normalize_binding_key ascii_tables (snake_to_camel ascii_tables key) = key"
    unfolding normalize_binding_key_def using conjunct2 [OF rt] by (simp only: if_False)
  show "snake_to_camel ascii_tables key \<noteq> key" using under nocamel by metis
qed

section \<open>Theorems\<close>

text \<open>
  C26. Linking equals its specification: whatever the iteration orders of the two hash maps, the links
  are, as a multiset, every export with every import of the same kind and key, and, of the
  endpoints whose key has no counterpart, every export with every import whose key is another
  spelling of the same name; they come sorted by descending confidence.
\<close>

theorem link_exact_spec:
  assumes "hash_order it" and "hash_order it'"
  shows "mset (link it it' T endpoints) = mset (link_ref T endpoints)
    \<and> sorted_wrt (\<lambda>a b. bl_confidence b \<le> bl_confidence a) (link it it' T endpoints)"
proof -
  have "sorted (map (\<lambda>l. - bl_confidence l) (link it it' T endpoints))" by (simp add: link_def Let_def)
  then have "sorted_wrt (\<lambda>a b. bl_confidence b \<le> bl_confidence a) (link it it' T endpoints)"
    by (simp add: sorted_map)
  with link_mset [OF assms] show ?thesis by simp
qed

text \<open>
  C27. The linker meets the contract of \<open>BridgeLink::new\<close>: every link it returns, matched by the exact key or by another
  spelling of it, in any iteration order of its maps, was built from endpoints that satisfy all the assertions of the
  constructor (the same kind, the same key, an export and an import), so a debug build does not panic in it; its kind is
  that of both endpoints and its confidence the smaller of the two.
\<close>

theorem links_well_typed:
  assumes "hash_order it" and "hash_order it'" and "l \<in> set (link it it' T endpoints)"
  shows "link_asserts (bl_export l) (bl_import l) \<and> l = link_new (bl_export l) (bl_import l)
    \<and> bl_kind l = be_kind (bl_export l) \<and> bl_kind l = be_kind (bl_import l)
    \<and> bl_confidence l = min (be_confidence (bl_export l)) (be_confidence (bl_import l))"
  using link_shape_link [OF assms] by (simp add: link_shape_def link_asserts_def link_new_def)

text \<open>
  With the fallback: every link joins an export with an import under one key; the kinds agree unless the link was
  suggested by the similarity of names, which is marked by the fuzzy confidence.
\<close>

lemma fallback_links_shape:
  assumes "hash_order it" and "hash_order it'"
    and "link_with_fallback it it' T sq threshold embed_batch endpoints = Inr links" and "l \<in> set links"
  shows "link_shape l \<and> (be_kind (bl_import l) = bl_kind l \<or> bl_confidence l = confidence_score Fuzzy)"
proof (cases "l \<in> set (link it it' T endpoints)")
  case True
  then show ?thesis using link_shape_link [OF assms(1,2) True] by (simp add: link_shape_def)
next
  case False
  from with_fallback_Inr [OF assms(3,4) False] show ?thesis
    by (auto simp: fuzzy_link_def Let_def link_shape_def link_new_def)
qed

text \<open>
  A command in snake case and a call in camel case find each other: when the words of the key are
  lower-case letters, at least two after the first word, and neither spelling has a
  counterpart of its own, the pair is linked with a confidence of at most \<open>0.9\<close>.
\<close>

theorem camel_call_linked:
  assumes "hash_order it" and "hash_order it'"
    and "lower_word 1 w" and "list_all (lower_word 2) ws" and "ws \<noteq> []" and "key = w @ concat (map ((#) (CHR ''_'')) ws)"
    and "ex \<in> set endpoints" "im \<in> set endpoints" "be_role ex = Export" "be_role im = Import" "be_kind im = be_kind ex"
    and "be_binding_key ex = key" and "be_binding_key im = snake_to_camel ascii_tables key"
    and "\<not> has_counterpart endpoints ex" "\<not> has_counterpart endpoints im"
  shows "\<exists>l \<in> set (link it it' ascii_tables endpoints).
    bl_kind l = be_kind ex \<and> be_file_path (bl_export l) = be_file_path ex \<and> be_line (bl_export l) = be_line ex
    \<and> be_file_path (bl_import l) = be_file_path im \<and> be_line (bl_import l) = be_line im
    \<and> bl_confidence l \<le> rnd32 (9 / 10)"
proof -
  note sp = normalize_spelling [OF assms(3-6)]
  have "case_link ascii_tables ex im \<in> set (link it it' ascii_tables endpoints)"
    unfolding set_link [OF assms(1,2)] set_spelled_links
    using assms(7-15) sp by (intro UnI2 CollectI exI [of _ ex] exI [of _ im]) (auto simp: normal_key_def)
  then show ?thesis
    by (rule bexI [rotated]) (simp add: case_link_def Let_def link_new_def min.coboundedI1)
qed


definition demo_endpoint :: "string \<Rightarrow> bridge_kind \<Rightarrow> endpoint_role \<Rightarrow> string \<Rightarrow> nat \<Rightarrow> bridge_endpoint" where
  "demo_endpoint key k r file n =
     \<lparr>be_binding_key = key, be_kind = k, be_role = r, be_language = ''rust'', be_file_path = file, be_line = n,
      be_symbol_name = key, be_confidence = 1\<rparr>"

definition demo_endpoints :: "bridge_endpoint list" where
  "demo_endpoints =
     [demo_endpoint ''get_user'' TauriCommand Export ''a.rs'' 3, demo_endpoint ''getUser'' TauriCommand Import ''b.ts'' 7,
      demo_endpoint ''ping'' Grpc Export ''c.rs'' 1, demo_endpoint ''ping'' Grpc Import ''d.go'' 2]"

lemmas demo_defs = demo_endpoints_def demo_endpoint_def

lemma hash_order_rev: "hash_order rev"
  by (simp add: hash_order_def)

theorem link_exact_spec_witness:
  "mset (link rev rev ascii_tables demo_endpoints) = mset (link_ref ascii_tables demo_endpoints) \<and> length (link_ref ascii_tables demo_endpoints) = 2"
proof -
  have "length (link_ref ascii_tables demo_endpoints) = 2" by code_simp
  then show ?thesis using link_exact_spec [OF hash_order_rev hash_order_rev, of ascii_tables demo_endpoints] by simp
qed

definition unit_embedding :: "string list \<Rightarrow> semantic_error + f32 list list" where
  "unit_embedding names = Inr (map (\<lambda>_. [1]) names)"

definition mixed_endpoints :: "bridge_endpoint list" where
  "mixed_endpoints = [demo_endpoint ''ping'' Grpc Export ''c.rs'' 1, demo_endpoint ''pong'' Jni Import ''d.go'' 2]"

lemma similarity_unit: "cosine_similarity (\<lambda>x. x) [1] [1] = 1"
  by (simp add: cosine_similarity_def sum32_def fadd32_def fmul32_def fdiv32_def)

lemma no_links: "link rev rev ascii_tables mixed_endpoints = []"
  by code_simp

lemma mixed_links:
  "link_with_fallback rev rev ascii_tables (\<lambda>x. x) (1 / 2) unit_embedding mixed_endpoints
     = Inr [fuzzy_link (mixed_endpoints ! 0) (mixed_endpoints ! 1)]"
proof -
  have "collect_unmatched mixed_endpoints [] = ([mixed_endpoints ! 0], [mixed_endpoints ! 1])" by code_simp
  then show ?thesis
    by (simp add: link_with_fallback_def no_links find_matches_def unit_embedding_def similarity_unit)
qed

theorem links_well_typed_witness:
  "link rev rev ascii_tables demo_endpoints \<noteq> []
   \<and> (let l = hd (link rev rev ascii_tables demo_endpoints) in link_asserts (bl_export l) (bl_import l))"
proof -
  have "link rev rev ascii_tables demo_endpoints \<noteq> []" by code_simp
  then show ?thesis using links_well_typed [OF hash_order_rev hash_order_rev hd_in_set] by (simp add: Let_def)
qed

text \<open>
  The fallback compares names only: a link can join two mechanisms, against what \<open>BridgeLink::new\<close>
  asserts in debug builds and what the field \<open>kind\<close> documents.
\<close>

lemma fuzzy_link_mixes_kinds:
  "\<exists>l. link_with_fallback rev rev ascii_tables (\<lambda>x. x) (1 / 2) unit_embedding mixed_endpoints = Inr [l]
     \<and> be_kind (bl_import l) \<noteq> bl_kind l \<and> \<not> link_asserts (bl_export l) (bl_import l)"
  unfolding mixed_links by (simp add: link_asserts_def fuzzy_link_def Let_def link_new_def mixed_endpoints_def demo_endpoint_def)

text \<open>
  A pair linked under another spelling keeps its rewritten key in the link, so it counts as
  unmatched and the fallback may link it again.
\<close>

lemma spelled_pair_still_unmatched:
  "length (link rev rev ascii_tables (take 2 demo_endpoints)) = 1
   \<and> collect_unmatched (take 2 demo_endpoints) (link rev rev ascii_tables (take 2 demo_endpoints)) = ([], [demo_endpoints ! 1])"
  by code_simp

text \<open>One-letter words and digits before an underscore are not restored.\<close>

lemma short_words_not_restored:
  "normalize_binding_key ascii_tables (snake_to_camel ascii_tables ''get_x_y'') = ''get_xy''
   \<and> normalize_binding_key ascii_tables (snake_to_camel ascii_tables ''get2_user'') = ''get2user''"
  by code_simp

theorem camel_call_linked_witness:
  "\<exists>l \<in> set (link rev rev ascii_tables demo_endpoints). bl_kind l = TauriCommand \<and> bl_confidence l \<le> rnd32 (9 / 10)"
proof -
  let ?ex = "demo_endpoints ! 0" and ?im = "demo_endpoints ! 1"
  have "lower_word 1 ''get''" "list_all (lower_word 2) [''user'']" by code_simp+
  moreover have "be_binding_key ?im = snake_to_camel ascii_tables ''get_user''" by code_simp
  moreover have "\<not> has_counterpart demo_endpoints ?ex" "\<not> has_counterpart demo_endpoints ?im" by code_simp+
  ultimately have "\<exists>l \<in> set (link rev rev ascii_tables demo_endpoints).
    bl_kind l = be_kind ?ex \<and> be_file_path (bl_export l) = be_file_path ?ex \<and> be_line (bl_export l) = be_line ?ex
    \<and> be_file_path (bl_import l) = be_file_path ?im \<and> be_line (bl_import l) = be_line ?im
    \<and> bl_confidence l \<le> rnd32 (9 / 10)"
    by (intro camel_call_linked [of rev rev "''get''" "[''user'']" "''get_user''"] hash_order_rev) (simp_all add: demo_defs)
  then show ?thesis by (simp add: demo_defs) blast
qed

end
