(* ===== verification/Base64.thy ===== *)
theory Base64
  imports Prelude
begin

unbundle bit_operations_syntax

text \<open>
  Identifiers of the OAuth server (\<open>ministr-mcp/src/auth/util.rs\<close>): the URL-safe base-64
  encoder and the generator of codes and tokens. SHA-256 is the argument \<open>sha\<close>; the timestamp and the
  stack address it is fed with are the pair \<open>seed\<close>.
\<close>

definition triple :: "nat \<Rightarrow> nat \<Rightarrow> nat \<Rightarrow> nat" where
  "triple b0 b1 b2 = push_bit 16 b0 OR push_bit 8 b1 OR b2"

definition ALPHABET :: string where
  "ALPHABET = ''ABCDEFGHIJKLMNOPQRSTUVWXYZabcdefghijklmnopqrstuvwxyz0123456789-_''"

definition digit64 :: "nat \<Rightarrow> nat \<Rightarrow> char" where
  "digit64 k t = ALPHABET ! (drop_bit k t AND 0x3F)"

fun base64_url_encode :: "string \<Rightarrow> string" where
  "base64_url_encode [] = []"
| "base64_url_encode [a] =
     (let t = triple (of_char a) 0 0 in [digit64 18 t, digit64 12 t])"
| "base64_url_encode [a, b] =
     (let t = triple (of_char a) (of_char b) 0 in [digit64 18 t, digit64 12 t, digit64 6 t])"
| "base64_url_encode (a # b # c # data) =
     (let t = triple (of_char a) (of_char b) (of_char c)
      in [digit64 18 t, digit64 12 t, digit64 6 t, digit64 0 t] @ base64_url_encode data)"

definition le_bytes :: "nat \<Rightarrow> nat \<Rightarrow> string" where
  "le_bytes n x = map (\<lambda>i. char_of (x div 256 ^ i)) [0..<n]"

definition generate_id :: "(string \<Rightarrow> string) \<Rightarrow> nat \<times> nat \<Rightarrow> string" where
  "generate_id sha seed =
     (let timestamp = fst seed; entropy = snd seed
      in base64_url_encode (take 16 (sha (le_bytes 16 timestamp @ le_bytes 8 entropy))))"

section \<open>The encoder can be undone\<close>

text \<open>The decoder of RFC 4648.\<close>

definition value64 :: "char \<Rightarrow> nat" where
  "value64 c = (case position (\<lambda>x. x = c) ALPHABET of None \<Rightarrow> 0 | Some i \<Rightarrow> i)"

fun base64_url_decode :: "string \<Rightarrow> string" where
  "base64_url_decode (p # q # r # s # enc) =
     char_of (value64 p * 4 + value64 q div 16) # char_of (value64 q mod 16 * 16 + value64 r div 4)
     # char_of (value64 r mod 4 * 64 + value64 s) # base64_url_decode enc"
| "base64_url_decode [p, q, r] =
     [char_of (value64 p * 4 + value64 q div 16), char_of (value64 q mod 16 * 16 + value64 r div 4)]"
| "base64_url_decode [p, q] = [char_of (value64 p * 4 + value64 q div 16)]"
| "base64_url_decode _ = []"

lemma or_push_bit: "b < 2 ^ n \<Longrightarrow> push_bit n a OR b = a * 2 ^ n + b" for a b :: nat
proof -
  assume b: "b < 2 ^ n"
  have "int (push_bit n a OR b) = concat_bit n (int b) (int a)"
    using b by (simp add: concat_bit_def of_nat_or_eq of_nat_push_bit take_bit_int_eq_self or.commute)
  also have "\<dots> = int (a * 2 ^ n + b)"
    using b by (simp add: concat_bit_eq take_bit_int_eq_self push_bit_eq_mult)
  finally show ?thesis by (simp only: of_nat_eq_iff)
qed

lemma triple_sum: "b1 < 256 \<Longrightarrow> b2 < 256 \<Longrightarrow> triple b0 b1 b2 = b0 * 65536 + b1 * 256 + b2"
proof -
  assume b: "b1 < 256" "b2 < 256"
  have "push_bit 8 b1 OR b2 = b1 * 256 + b2" using or_push_bit [of b2 8 b1] b by simp
  moreover have "push_bit 16 b0 OR (b1 * 256 + b2) = b0 * 65536 + (b1 * 256 + b2)"
    using or_push_bit [of "b1 * 256 + b2" 16 b0] b by simp
  ultimately show ?thesis unfolding triple_def by (simp add: or.assoc)
qed

lemma and_63: "n AND 63 = n mod 64" for n :: nat
  using take_bit_eq_mask [of 6 n] by (simp add: mask_eq_exp_minus_1 take_bit_eq_mod)

lemma alphabet_distinct: "distinct ALPHABET" "length ALPHABET = 64"
  by (simp_all add: ALPHABET_def)

lemma position_nth: "distinct xs \<Longrightarrow> i < length xs \<Longrightarrow> position (\<lambda>x. x = xs ! i) xs = Some i"
proof (induction xs arbitrary: i)
  case (Cons y ys)
  then show ?case by (cases i) (auto simp: in_set_conv_nth)
qed simp

lemma value64_digit: "value64 (digit64 k t) = t div 2 ^ k mod 64"
  using position_nth [OF alphabet_distinct(1), of "t div 2 ^ k mod 64"]
  by (simp add: value64_def digit64_def and_63 drop_bit_eq_div alphabet_distinct(2))

lemma scale_split: "n div d * (d * k) + n mod d * k = n * k" for n d k :: nat
  by (metis add_mult_distrib div_mult_mod_eq mult.assoc)

lemma fields:
  assumes "b0 < 256" "b1 < 256" "b2 < 256" and t: "t = triple b0 b1 b2"
  shows "t div 2 ^ 18 mod 64 = b0 div 4" "t div 2 ^ 12 mod 64 = b0 mod 4 * 16 + b1 div 16"
    "t div 2 ^ 6 mod 64 = b1 mod 16 * 4 + b2 div 64" "t div 2 ^ 0 mod 64 = b2 mod 64"
proof -
  have t': "t = b0 * 65536 + b1 * 256 + b2" using t triple_sum assms(2,3) by simp
  have q: "n div k = q" if "n = q * k + r" "r < k" for n k q r :: nat using that by simp
  have m: "n mod k = r" if "n = q * k + r" "r < k" for n k q r :: nat using that by simp
  have "t div 2 ^ 18 = b0 div 4" 
  proof (rule q [of _ _ _ "b0 mod 4 * 65536 + b1 * 256 + b2"])
    show "t = b0 div 4 * 2 ^ 18 + (b0 mod 4 * 65536 + b1 * 256 + b2)"
      using scale_split [of b0 4 65536] by (simp add: t')
    show "b0 mod 4 * 65536 + b1 * 256 + b2 < 2 ^ 18" using mod_less_divisor [of 4 b0] assms(2,3) by simp
  qed
  moreover have "b0 div 4 < 64" using assms(1) by simp
  ultimately show "t div 2 ^ 18 mod 64 = b0 div 4" by simp
  have "t div 2 ^ 12 = b0 * 16 + b1 div 16"
  proof (rule q [of _ _ _ "b1 mod 16 * 256 + b2"])
    show "b1 mod 16 * 256 + b2 < 2 ^ 12" using mod_less_divisor [of 16 b1] assms(3) by simp
  qed (use t' scale_split [of b1 16 256] in \<open>simp add: algebra_simps\<close>)
  moreover have "b1 div 16 < 16" using assms(2) by simp
  ultimately show "t div 2 ^ 12 mod 64 = b0 mod 4 * 16 + b1 div 16"
    using scale_split [of b0 4 16] mod_less_divisor [of 4 b0] by (intro m [of _ "b0 div 4"]) simp_all
  have "t div 2 ^ 6 = b0 * 1024 + b1 * 4 + b2 div 64"
    by (rule q [of _ _ _ "b2 mod 64"]) (use t' in \<open>auto simp: algebra_simps\<close>)
  moreover have "b2 div 64 < 4" using assms(3) by simp
  ultimately show "t div 2 ^ 6 mod 64 = b1 mod 16 * 4 + b2 div 64"
    using scale_split [of b1 16 4] mod_less_divisor [of 16 b1] by (intro m [of _ "b0 * 16 + b1 div 16"]) simp_all
  show "t div 2 ^ 0 mod 64 = b2 mod 64"
    by (rule m [of _ "b0 * 1024 + b1 * 4 + b2 div 64"]) (use t' in auto)
qed

lemma value64_fields:
  assumes "b0 < 256" "b1 < 256" "b2 < 256"
  shows "value64 (digit64 18 (triple b0 b1 b2)) = b0 div 4" "value64 (digit64 12 (triple b0 b1 b2)) = b0 mod 4 * 16 + b1 div 16"
    "value64 (digit64 6 (triple b0 b1 b2)) = b1 mod 16 * 4 + b2 div 64" "value64 (digit64 0 (triple b0 b1 b2)) = b2 mod 64"
  unfolding value64_digit by (rule fields [OF assms refl])+

lemma byte_joins:
  fixes b0 b1 b2 :: nat
  shows "b1 < 256 \<Longrightarrow> b0 div 4 * 4 + (b0 mod 4 * 16 + b1 div 16) div 16 = b0"
    "b1 < 256 \<Longrightarrow> b2 < 256 \<Longrightarrow> (b0 mod 4 * 16 + b1 div 16) mod 16 * 16 + (b1 mod 16 * 4 + b2 div 64) div 4 = b1"
    "b2 < 256 \<Longrightarrow> (b1 mod 16 * 4 + b2 div 64) mod 4 * 64 + b2 mod 64 = b2"
proof -
  show "b0 div 4 * 4 + (b0 mod 4 * 16 + b1 div 16) div 16 = b0" if "b1 < 256"
  proof -
    have "b1 div 16 < 16" using that by simp
    then show ?thesis by simp
  qed
  show "(b0 mod 4 * 16 + b1 div 16) mod 16 * 16 + (b1 mod 16 * 4 + b2 div 64) div 4 = b1" if "b1 < 256" "b2 < 256"
  proof -
    have "b1 div 16 < 16" "b2 div 64 < 4" using that by simp_all
    then show ?thesis by simp
  qed
  show "(b1 mod 16 * 4 + b2 div 64) mod 4 * 64 + b2 mod 64 = b2" if "b2 < 256"
  proof -
    have "b2 div 64 < 4" using that by simp
    then show ?thesis by simp
  qed
qed

lemma decode_encode: "base64_url_decode (base64_url_encode s) = s"
proof (induction s rule: base64_url_encode.induct)
  case (2 a)
  have b: "of_char a < (256 :: nat)" by simp
  note v = value64_fields [OF b, of 0 0] and j = byte_joins(1) [of 0 "of_char a"]
  show ?case using v j by (simp add: Let_def)
next
  case (3 a b)
  have b: "of_char a < (256 :: nat)" "of_char b < (256 :: nat)" by simp_all
  show ?case
    by (simp only: base64_url_encode.simps Let_def base64_url_decode.simps value64_fields [OF b, of 0, simplified zero_less_numeral]
        byte_joins [OF b(2), of "of_char a"] byte_joins(2) [OF b(2), of 0] zero_less_numeral char_of_char)
next
  case (4 a b c data)
  have b: "of_char a < (256 :: nat)" "of_char b < (256 :: nat)" "of_char c < (256 :: nat)" by simp_all
  show ?case
    by (simp only: base64_url_encode.simps Let_def append.simps base64_url_decode.simps value64_fields [OF b]
        byte_joins(1) [OF b(2)] byte_joins(2) [OF b(2,3)] byte_joins(3) [OF b(3)] char_of_char 4)
qed simp

lemma encode_alphabet: "set (base64_url_encode s) \<subseteq> set ALPHABET"
proof -
  have "digit64 k t \<in> set ALPHABET" for k t by (simp add: digit64_def and_63 alphabet_distinct(2))
  then show ?thesis by (induction s rule: base64_url_encode.induct) (simp_all add: Let_def)
qed
text \<open>
  Encoding loses nothing: the decoder of RFC 4648 restores the bytes, and the text uses the
  64 characters of the URL-safe alphabet only. So two hashes with one encoding are equal.
\<close>

theorem base64_url_roundtrip:
  "base64_url_decode (base64_url_encode s) = s \<and> set (base64_url_encode s) \<subseteq> set ALPHABET
   \<and> (base64_url_encode s = base64_url_encode s' \<longleftrightarrow> s = s')"
  using decode_encode encode_alphabet by metis

end
