(* ===== verification/Auth_Storage.thy ===== *)
theory Auth_Storage
  imports Database Text Identity
begin

text \<open>
  Storage of the OAuth server (\<open>ministr-mcp/src/auth/types.rs\<close>, \<open>storage/\<close>): registered
  clients, authorization codes and access tokens, in memory, in SQLite and in Postgres, behind the
  dispatcher \<open>OAuthBackend\<close>. A table is an association list from primary key to the other columns; the
  record is in the text column, serialized. A statement fails when the fault argument says so, and
  then has no effect; an uncommitted transaction has none either. The documented semantics of the
  trait is the locale \<open>oauth_storage\<close>.
\<close>

section \<open>Records\<close>

record registered_client =
  rc_client_id :: string
  rc_client_secret :: "string option"
  rc_redirect_uris :: "string list"
  rc_client_name :: "string option"
  rc_scope :: string
  rc_registered_at :: nat

record authorization_code =
  ac_code :: string
  ac_client_id :: string
  ac_redirect_uri :: string
  ac_scope :: string
  ac_code_challenge :: string
  ac_code_challenge_method :: string
  ac_expires_at :: nat

record access_token =
  at_token :: string
  at_client_id :: string
  at_scope :: string
  at_expires_at :: nat

datatype storage_error = Backend string | Serde

type_synonym 'a storage_result = "storage_error + 'a"

record oauth_codecs =
  oc_client :: "registered_client blob_codec"
  oc_code :: "authorization_code blob_codec"
  oc_token :: "access_token blob_codec"

definition codecs_ok :: "oauth_codecs \<Rightarrow> bool" where
  "codecs_ok K \<longleftrightarrow> blob_codec_ok (oc_client K) \<and> blob_codec_ok (oc_code K) \<and> blob_codec_ok (oc_token K)"

section \<open>In memory\<close>

record memory_storage =
  ms_clients :: "(string \<times> registered_client) list"
  ms_codes :: "(string \<times> authorization_code) list"
  ms_tokens :: "(string \<times> access_token) list"

definition memory_new :: memory_storage where
  "memory_new = \<lparr>ms_clients = [], ms_codes = [], ms_tokens = []\<rparr>"

definition memory_save_client :: "registered_client \<Rightarrow> memory_storage \<Rightarrow> memory_storage \<times> unit storage_result" where
  "memory_save_client c s = (s\<lparr>ms_clients := AList.update (rc_client_id c) c (ms_clients s)\<rparr>, Inr ())"

definition memory_get_client :: "string \<Rightarrow> memory_storage \<Rightarrow> registered_client option storage_result" where
  "memory_get_client client_id s = Inr (map_of (ms_clients s) client_id)"

definition memory_save_code :: "authorization_code \<Rightarrow> memory_storage \<Rightarrow> memory_storage \<times> unit storage_result" where
  "memory_save_code c s = (s\<lparr>ms_codes := AList.update (ac_code c) c (ms_codes s)\<rparr>, Inr ())"

definition memory_take_code :: "string \<Rightarrow> memory_storage \<Rightarrow> memory_storage \<times> authorization_code option storage_result" where
  "memory_take_code c s = (s\<lparr>ms_codes := AList.delete c (ms_codes s)\<rparr>, Inr (map_of (ms_codes s) c))"

definition memory_save_token :: "access_token \<Rightarrow> memory_storage \<Rightarrow> memory_storage \<times> unit storage_result" where
  "memory_save_token t s = (s\<lparr>ms_tokens := AList.update (at_token t) t (ms_tokens s)\<rparr>, Inr ())"

definition memory_get_token :: "string \<Rightarrow> memory_storage \<Rightarrow> access_token option storage_result" where
  "memory_get_token t s = Inr (map_of (ms_tokens s) t)"

section \<open>Tables\<close>

text \<open>Clients have the columns key and data; codes and tokens have \<open>expires_at\<close> between them.\<close>

record oauth_db =
  db_clients :: "(string \<times> string) list"
  db_codes :: "(string \<times> int \<times> string) list"
  db_tokens :: "(string \<times> int \<times> string) list"

definition ensure_schema :: oauth_db where
  "ensure_schema = \<lparr>db_clients = [], db_codes = [], db_tokens = []\<rparr>"

definition backend_err :: "string \<Rightarrow> string \<Rightarrow> storage_error" where
  "backend_err what e = Backend (what @ '': '' @ e)"

definition to_blob :: "'a blob_codec \<Rightarrow> 'a \<Rightarrow> string storage_result" where
  "to_blob B x = (case bc_to B x of None \<Rightarrow> Inl Serde | Some s \<Rightarrow> Inr s)"

definition from_blob :: "'a blob_codec \<Rightarrow> string option \<Rightarrow> 'a option storage_result" where
  "from_blob B blob =
     (case blob of
        None \<Rightarrow> Inr None
      | Some s \<Rightarrow> (case bc_from B s of None \<Rightarrow> Inl Serde | Some x \<Rightarrow> Inr (Some x)))"

text \<open>\<open>SELECT data ... WHERE key = ?\<close>.\<close>

definition sql_data :: "db_faults \<Rightarrow> string \<Rightarrow> string option \<Rightarrow> string option storage_result" where
  "sql_data f what blob = (case f Select of Some m \<Rightarrow> Inl (backend_err what m) | None \<Rightarrow> Inr blob)"

section \<open>SQLite\<close>

text \<open>A poisoned mutex or a failed join is a failed \<open>Connect\<close>.\<close>

definition sqlite_save_client ::
    "oauth_codecs \<Rightarrow> db_faults \<Rightarrow> registered_client \<Rightarrow> oauth_db \<Rightarrow> oauth_db \<times> unit storage_result" where
  "sqlite_save_client K f c db =
     (case f Connect of
        Some m \<Rightarrow> (db, Inl (backend_err ''mutex poisoned'' m))
      | None \<Rightarrow>
     (case to_blob (oc_client K) c of
        Inl e \<Rightarrow> (db, Inl e)
      | Inr blob \<Rightarrow>
     (case f Execute of
        Some m \<Rightarrow> (db, Inl (backend_err ''save_client'' m))
      | None \<Rightarrow> (db\<lparr>db_clients := AList.update (rc_client_id c) blob (db_clients db)\<rparr>, Inr ()))))"

definition sqlite_get_client ::
    "oauth_codecs \<Rightarrow> db_faults \<Rightarrow> string \<Rightarrow> oauth_db \<Rightarrow> registered_client option storage_result" where
  "sqlite_get_client K f client_id db =
     (case f Connect of
        Some m \<Rightarrow> Inl (backend_err ''mutex poisoned'' m)
      | None \<Rightarrow>
     (case sql_data f ''get_client'' (map_of (db_clients db) client_id) of
        Inl e \<Rightarrow> Inl e
      | Inr blob \<Rightarrow> from_blob (oc_client K) blob))"

definition sqlite_save_code ::
    "oauth_codecs \<Rightarrow> db_faults \<Rightarrow> authorization_code \<Rightarrow> oauth_db \<Rightarrow> oauth_db \<times> unit storage_result" where
  "sqlite_save_code K f c db =
     (case f Connect of
        Some m \<Rightarrow> (db, Inl (backend_err ''mutex poisoned'' m))
      | None \<Rightarrow>
     (case to_blob (oc_code K) c of
        Inl e \<Rightarrow> (db, Inl e)
      | Inr blob \<Rightarrow>
     (case f Execute of
        Some m \<Rightarrow> (db, Inl (backend_err ''save_code'' m))
      | None \<Rightarrow>
          (db\<lparr>db_codes := AList.update (ac_code c) (cast_signed (ac_expires_at c), blob) (db_codes db)\<rparr>, Inr ()))))"

definition sqlite_take_code ::
    "oauth_codecs \<Rightarrow> db_faults \<Rightarrow> string \<Rightarrow> oauth_db \<Rightarrow> oauth_db \<times> authorization_code option storage_result" where
  "sqlite_take_code K f c db =
     (case f Connect of
        Some m \<Rightarrow> (db, Inl (backend_err ''mutex poisoned'' m))
      | None \<Rightarrow>
     (case f Begin of
        Some m \<Rightarrow> (db, Inl (backend_err ''begin'' m))
      | None \<Rightarrow>
     (case sql_data f ''take_code select'' (map_option snd (map_of (db_codes db) c)) of
        Inl e \<Rightarrow> (db, Inl e)
      | Inr blob \<Rightarrow>
     (case (if blob = None then None else f Execute) of
        Some m \<Rightarrow> (db, Inl (backend_err ''take_code delete'' m))
      | None \<Rightarrow>
     (case f Commit of
        Some m \<Rightarrow> (db, Inl (backend_err ''commit'' m))
      | None \<Rightarrow>
          (if blob = None then db else db\<lparr>db_codes := AList.delete c (db_codes db)\<rparr>, from_blob (oc_code K) blob))))))"

definition sqlite_save_token ::
    "oauth_codecs \<Rightarrow> db_faults \<Rightarrow> access_token \<Rightarrow> oauth_db \<Rightarrow> oauth_db \<times> unit storage_result" where
  "sqlite_save_token K f t db =
     (case f Connect of
        Some m \<Rightarrow> (db, Inl (backend_err ''mutex poisoned'' m))
      | None \<Rightarrow>
     (case to_blob (oc_token K) t of
        Inl e \<Rightarrow> (db, Inl e)
      | Inr blob \<Rightarrow>
     (case f Execute of
        Some m \<Rightarrow> (db, Inl (backend_err ''save_token'' m))
      | None \<Rightarrow>
          (db\<lparr>db_tokens := AList.update (at_token t) (cast_signed (at_expires_at t), blob) (db_tokens db)\<rparr>, Inr ()))))"

definition sqlite_get_token ::
    "oauth_codecs \<Rightarrow> db_faults \<Rightarrow> string \<Rightarrow> oauth_db \<Rightarrow> access_token option storage_result" where
  "sqlite_get_token K f t db =
     (case f Connect of
        Some m \<Rightarrow> Inl (backend_err ''mutex poisoned'' m)
      | None \<Rightarrow>
     (case sql_data f ''get_token'' (map_option snd (map_of (db_tokens db) t)) of
        Inl e \<Rightarrow> Inl e
      | Inr blob \<Rightarrow> from_blob (oc_token K) blob))"

section \<open>Postgres\<close>

text \<open>Records are serialized before a connection is taken; \<open>DELETE ... RETURNING\<close> is one statement.\<close>

definition pg_save_client ::
    "oauth_codecs \<Rightarrow> db_faults \<Rightarrow> registered_client \<Rightarrow> oauth_db \<Rightarrow> oauth_db \<times> unit storage_result" where
  "pg_save_client K f c db =
     (case to_blob (oc_client K) c of
        Inl e \<Rightarrow> (db, Inl e)
      | Inr blob \<Rightarrow>
     (case f Connect of
        Some m \<Rightarrow> (db, Inl (backend_err ''save_client conn'' m))
      | None \<Rightarrow>
     (case f Execute of
        Some m \<Rightarrow> (db, Inl (backend_err ''save_client'' m))
      | None \<Rightarrow> (db\<lparr>db_clients := AList.update (rc_client_id c) blob (db_clients db)\<rparr>, Inr ()))))"

definition pg_get_client ::
    "oauth_codecs \<Rightarrow> db_faults \<Rightarrow> string \<Rightarrow> oauth_db \<Rightarrow> registered_client option storage_result" where
  "pg_get_client K f client_id db =
     (case f Connect of
        Some m \<Rightarrow> Inl (backend_err ''get_client conn'' m)
      | None \<Rightarrow>
     (case sql_data f ''get_client'' (map_of (db_clients db) client_id) of
        Inl e \<Rightarrow> Inl e
      | Inr blob \<Rightarrow> from_blob (oc_client K) blob))"

definition pg_save_code ::
    "oauth_codecs \<Rightarrow> db_faults \<Rightarrow> authorization_code \<Rightarrow> oauth_db \<Rightarrow> oauth_db \<times> unit storage_result" where
  "pg_save_code K f c db =
     (case to_blob (oc_code K) c of
        Inl e \<Rightarrow> (db, Inl e)
      | Inr blob \<Rightarrow>
     (case f Connect of
        Some m \<Rightarrow> (db, Inl (backend_err ''save_code conn'' m))
      | None \<Rightarrow>
     (case f Execute of
        Some m \<Rightarrow> (db, Inl (backend_err ''save_code'' m))
      | None \<Rightarrow>
          (db\<lparr>db_codes := AList.update (ac_code c) (cast_signed (ac_expires_at c), blob) (db_codes db)\<rparr>, Inr ()))))"

definition pg_take_code ::
    "oauth_codecs \<Rightarrow> db_faults \<Rightarrow> string \<Rightarrow> oauth_db \<Rightarrow> oauth_db \<times> authorization_code option storage_result" where
  "pg_take_code K f c db =
     (case f Connect of
        Some m \<Rightarrow> (db, Inl (backend_err ''take_code conn'' m))
      | None \<Rightarrow>
     (case f Execute of
        Some m \<Rightarrow> (db, Inl (backend_err ''take_code'' m))
      | None \<Rightarrow>
          (db\<lparr>db_codes := AList.delete c (db_codes db)\<rparr>,
           from_blob (oc_code K) (map_option snd (map_of (db_codes db) c)))))"

definition pg_save_token ::
    "oauth_codecs \<Rightarrow> db_faults \<Rightarrow> access_token \<Rightarrow> oauth_db \<Rightarrow> oauth_db \<times> unit storage_result" where
  "pg_save_token K f t db =
     (case to_blob (oc_token K) t of
        Inl e \<Rightarrow> (db, Inl e)
      | Inr blob \<Rightarrow>
     (case f Connect of
        Some m \<Rightarrow> (db, Inl (backend_err ''save_token conn'' m))
      | None \<Rightarrow>
     (case f Execute of
        Some m \<Rightarrow> (db, Inl (backend_err ''save_token'' m))
      | None \<Rightarrow>
          (db\<lparr>db_tokens := AList.update (at_token t) (cast_signed (at_expires_at t), blob) (db_tokens db)\<rparr>, Inr ()))))"

definition pg_get_token ::
    "oauth_codecs \<Rightarrow> db_faults \<Rightarrow> string \<Rightarrow> oauth_db \<Rightarrow> access_token option storage_result" where
  "pg_get_token K f t db =
     (case f Connect of
        Some m \<Rightarrow> Inl (backend_err ''get_token conn'' m)
      | None \<Rightarrow>
     (case sql_data f ''get_token'' (map_option snd (map_of (db_tokens db) t)) of
        Inl e \<Rightarrow> Inl e
      | Inr blob \<Rightarrow> from_blob (oc_token K) blob))"

section \<open>The dispatcher\<close>

datatype oauth_backend = InMemory memory_storage | Sqlite oauth_db | Postgres oauth_db

definition save_client ::
    "oauth_codecs \<Rightarrow> db_faults \<Rightarrow> registered_client \<Rightarrow> oauth_backend \<Rightarrow> oauth_backend \<times> unit storage_result" where
  "save_client K f c b =
     (case b of
        InMemory s \<Rightarrow> map_prod InMemory id (memory_save_client c s)
      | Sqlite s \<Rightarrow> map_prod Sqlite id (sqlite_save_client K f c s)
      | Postgres s \<Rightarrow> map_prod Postgres id (pg_save_client K f c s))"

definition get_client ::
    "oauth_codecs \<Rightarrow> db_faults \<Rightarrow> string \<Rightarrow> oauth_backend \<Rightarrow> registered_client option storage_result" where
  "get_client K f i b =
     (case b of
        InMemory s \<Rightarrow> memory_get_client i s
      | Sqlite s \<Rightarrow> sqlite_get_client K f i s
      | Postgres s \<Rightarrow> pg_get_client K f i s)"

definition save_code ::
    "oauth_codecs \<Rightarrow> db_faults \<Rightarrow> authorization_code \<Rightarrow> oauth_backend \<Rightarrow> oauth_backend \<times> unit storage_result" where
  "save_code K f c b =
     (case b of
        InMemory s \<Rightarrow> map_prod InMemory id (memory_save_code c s)
      | Sqlite s \<Rightarrow> map_prod Sqlite id (sqlite_save_code K f c s)
      | Postgres s \<Rightarrow> map_prod Postgres id (pg_save_code K f c s))"

definition take_code ::
    "oauth_codecs \<Rightarrow> db_faults \<Rightarrow> string \<Rightarrow> oauth_backend \<Rightarrow> oauth_backend \<times> authorization_code option storage_result" where
  "take_code K f c b =
     (case b of
        InMemory s \<Rightarrow> map_prod InMemory id (memory_take_code c s)
      | Sqlite s \<Rightarrow> map_prod Sqlite id (sqlite_take_code K f c s)
      | Postgres s \<Rightarrow> map_prod Postgres id (pg_take_code K f c s))"

definition save_token ::
    "oauth_codecs \<Rightarrow> db_faults \<Rightarrow> access_token \<Rightarrow> oauth_backend \<Rightarrow> oauth_backend \<times> unit storage_result" where
  "save_token K f t b =
     (case b of
        InMemory s \<Rightarrow> map_prod InMemory id (memory_save_token t s)
      | Sqlite s \<Rightarrow> map_prod Sqlite id (sqlite_save_token K f t s)
      | Postgres s \<Rightarrow> map_prod Postgres id (pg_save_token K f t s))"

definition get_token ::
    "oauth_codecs \<Rightarrow> db_faults \<Rightarrow> string \<Rightarrow> oauth_backend \<Rightarrow> access_token option storage_result" where
  "get_token K f t b =
     (case b of
        InMemory s \<Rightarrow> memory_get_token t s
      | Sqlite s \<Rightarrow> sqlite_get_token K f t s
      | Postgres s \<Rightarrow> pg_get_token K f t s)"

section \<open>The contract\<close>

abbreviation no_faults :: db_faults where
  "no_faults \<equiv> (\<lambda>_. None)"

lemma ok_unit: "\<not> isl (snd p) \<Longrightarrow> \<exists>s'. p = (s', Inr ())" for p :: "'s \<times> unit storage_result"
  by (cases p; cases "snd p") auto

text \<open>
  What the trait promises of its six operations over the stored maps: a write that succeeds is an
  upsert by primary key, one that fails has no effect; reads return the latest record; \<open>take_code\<close>
  removes what it returns in one step. Without faults nothing fails.
\<close>

locale oauth_storage =
  fixes inv :: "'s \<Rightarrow> bool"
    and clients :: "'s \<Rightarrow> string \<Rightarrow> registered_client option"
    and codes :: "'s \<Rightarrow> string \<Rightarrow> authorization_code option"
    and tokens :: "'s \<Rightarrow> string \<Rightarrow> access_token option"
    and put_client :: "db_faults \<Rightarrow> registered_client \<Rightarrow> 's \<Rightarrow> 's \<times> unit storage_result"
    and look_client :: "db_faults \<Rightarrow> string \<Rightarrow> 's \<Rightarrow> registered_client option storage_result"
    and put_code :: "db_faults \<Rightarrow> authorization_code \<Rightarrow> 's \<Rightarrow> 's \<times> unit storage_result"
    and pop_code :: "db_faults \<Rightarrow> string \<Rightarrow> 's \<Rightarrow> 's \<times> authorization_code option storage_result"
    and put_token :: "db_faults \<Rightarrow> access_token \<Rightarrow> 's \<Rightarrow> 's \<times> unit storage_result"
    and look_token :: "db_faults \<Rightarrow> string \<Rightarrow> 's \<Rightarrow> access_token option storage_result"
  assumes put_client: "inv s \<Longrightarrow> put_client f c s = (s', r) \<Longrightarrow> inv s' \<and> codes s' = codes s \<and> tokens s' = tokens s
      \<and> clients s' = (if isl r then clients s else (clients s)(rc_client_id c \<mapsto> c))"
    and look_client: "inv s \<Longrightarrow> look_client f i s = Inr x \<Longrightarrow> x = clients s i"
    and put_code: "inv s \<Longrightarrow> put_code f k s = (s', r) \<Longrightarrow> inv s' \<and> clients s' = clients s \<and> tokens s' = tokens s
      \<and> codes s' = (if isl r then codes s else (codes s)(ac_code k \<mapsto> k))"
    and pop_code: "inv s \<Longrightarrow> pop_code f i s = (s', q) \<Longrightarrow> inv s' \<and> clients s' = clients s \<and> tokens s' = tokens s
      \<and> (if isl q then codes s' = codes s else q = Inr (codes s i) \<and> codes s' = (codes s)(i := None))"
    and put_token: "inv s \<Longrightarrow> put_token f t s = (s', r) \<Longrightarrow> inv s' \<and> clients s' = clients s \<and> codes s' = codes s
      \<and> tokens s' = (if isl r then tokens s else (tokens s)(at_token t \<mapsto> t))"
    and look_token: "inv s \<Longrightarrow> look_token f i s = Inr y \<Longrightarrow> y = tokens s i"
    and available: "inv s \<Longrightarrow> \<not> isl (snd (put_client no_faults c s)) \<and> \<not> isl (look_client no_faults i s)
      \<and> \<not> isl (snd (put_code no_faults k s)) \<and> \<not> isl (snd (pop_code no_faults i s))
      \<and> \<not> isl (snd (put_token no_faults t s)) \<and> \<not> isl (look_token no_faults i s)"
begin

lemma look_client_now: "inv s \<Longrightarrow> look_client no_faults i s = Inr (clients s i)"
  using look_client [of s no_faults i] available [of s undefined i] by (cases "look_client no_faults i s") auto

lemma look_token_now: "inv s \<Longrightarrow> look_token no_faults i s = Inr (tokens s i)"
  using look_token [of s no_faults i] available [of s undefined i] by (cases "look_token no_faults i s") auto

lemma pop_code_now:
  assumes "inv s"
  obtains s' where "pop_code no_faults i s = (s', Inr (codes s i))"
  using pop_code [OF assms, of no_faults i] available [OF assms, of undefined i]
  by (cases "pop_code no_faults i s") (auto split: if_splits)

lemma put_now:
  assumes "inv s"
  shows "\<exists>s'. put_client no_faults c s = (s', Inr ())" "\<exists>s'. put_code no_faults k s = (s', Inr ())"
    "\<exists>s'. put_token no_faults t s = (s', Inr ())"
  using available [OF assms, of c undefined k t] ok_unit by blast+

text \<open>A code handed out is gone: another \<open>take_code\<close> of it finds nothing.\<close>

lemma popped_once:
  assumes "inv s" and "pop_code f i s = (s', Inr x)" and "pop_code g i s' = (s'', Inr y)"
  shows "y = None"
proof -
  have "inv s'" "codes s' i = None" using pop_code [OF assms(1,2)] by auto
  with pop_code [OF this(1) assms(3)] show ?thesis by simp
qed

end

section \<open>The back-ends keep it\<close>

definition clients_of :: "oauth_codecs \<Rightarrow> oauth_backend \<Rightarrow> string \<Rightarrow> registered_client option" where
  "clients_of K b i =
     (case b of
        InMemory s \<Rightarrow> map_of (ms_clients s) i
      | Sqlite db \<Rightarrow> Option.bind (map_of (db_clients db) i) (bc_from (oc_client K))
      | Postgres db \<Rightarrow> Option.bind (map_of (db_clients db) i) (bc_from (oc_client K)))"

definition codes_of :: "oauth_codecs \<Rightarrow> oauth_backend \<Rightarrow> string \<Rightarrow> authorization_code option" where
  "codes_of K b i =
     (case b of
        InMemory s \<Rightarrow> map_of (ms_codes s) i
      | Sqlite db \<Rightarrow> Option.bind (map_of (db_codes db) i) (bc_from (oc_code K) \<circ> snd)
      | Postgres db \<Rightarrow> Option.bind (map_of (db_codes db) i) (bc_from (oc_code K) \<circ> snd))"

definition tokens_of :: "oauth_codecs \<Rightarrow> oauth_backend \<Rightarrow> string \<Rightarrow> access_token option" where
  "tokens_of K b i =
     (case b of
        InMemory s \<Rightarrow> map_of (ms_tokens s) i
      | Sqlite db \<Rightarrow> Option.bind (map_of (db_tokens db) i) (bc_from (oc_token K) \<circ> snd)
      | Postgres db \<Rightarrow> Option.bind (map_of (db_tokens db) i) (bc_from (oc_token K) \<circ> snd))"

definition readable :: "'a blob_codec \<Rightarrow> string option \<Rightarrow> bool" where
  "readable B blob \<longleftrightarrow> (case blob of None \<Rightarrow> True | Some s \<Rightarrow> bc_from B s \<noteq> None)"

definition db_ok :: "oauth_codecs \<Rightarrow> oauth_db \<Rightarrow> bool" where
  "db_ok K db \<longleftrightarrow>
     (\<forall>i. readable (oc_client K) (map_of (db_clients db) i)
        \<and> readable (oc_code K) (map_option snd (map_of (db_codes db) i))
        \<and> readable (oc_token K) (map_option snd (map_of (db_tokens db) i)))"

definition storage_ok :: "oauth_codecs \<Rightarrow> oauth_backend \<Rightarrow> bool" where
  "storage_ok K b \<longleftrightarrow> codecs_ok K \<and> (case b of InMemory s \<Rightarrow> True | Sqlite db \<Rightarrow> db_ok K db | Postgres db \<Rightarrow> db_ok K db)"

lemma from_blob_readable:
  "readable B blob \<Longrightarrow> from_blob B blob = Inr (Option.bind blob (bc_from B))"
  by (auto simp: readable_def from_blob_def split: option.splits)

lemma to_blob_ok:
  assumes "blob_codec_ok B"
  obtains s where "to_blob B x = Inr s" "bc_from B s = Some x"
  using assms unfolding blob_codec_ok_def to_blob_def by (metis option.simps(5))

lemmas storage_defs = save_client_def get_client_def save_code_def take_code_def save_token_def get_token_def
  memory_save_client_def memory_get_client_def memory_save_code_def memory_take_code_def memory_save_token_def memory_get_token_def
  sqlite_save_client_def sqlite_get_client_def sqlite_save_code_def sqlite_take_code_def sqlite_save_token_def sqlite_get_token_def
  pg_save_client_def pg_get_client_def pg_save_code_def pg_take_code_def pg_save_token_def pg_get_token_def
  sql_data_def

lemmas view_defs = clients_of_def codes_of_def tokens_of_def

text \<open>What a successful write does to the tables, and a failed one does not.\<close>

fun put_blob_client :: "string \<Rightarrow> registered_client \<Rightarrow> oauth_backend \<Rightarrow> oauth_backend" where
  "put_blob_client blob c (InMemory s) = InMemory (s\<lparr>ms_clients := AList.update (rc_client_id c) c (ms_clients s)\<rparr>)"
| "put_blob_client blob c (Sqlite db) = Sqlite (db\<lparr>db_clients := AList.update (rc_client_id c) blob (db_clients db)\<rparr>)"
| "put_blob_client blob c (Postgres db) = Postgres (db\<lparr>db_clients := AList.update (rc_client_id c) blob (db_clients db)\<rparr>)"

fun put_blob_code :: "string \<Rightarrow> authorization_code \<Rightarrow> oauth_backend \<Rightarrow> oauth_backend" where
  "put_blob_code blob c (InMemory s) = InMemory (s\<lparr>ms_codes := AList.update (ac_code c) c (ms_codes s)\<rparr>)"
| "put_blob_code blob c (Sqlite db) = Sqlite (db\<lparr>db_codes := AList.update (ac_code c) (cast_signed (ac_expires_at c), blob) (db_codes db)\<rparr>)"
| "put_blob_code blob c (Postgres db) = Postgres (db\<lparr>db_codes := AList.update (ac_code c) (cast_signed (ac_expires_at c), blob) (db_codes db)\<rparr>)"

fun put_blob_token :: "string \<Rightarrow> access_token \<Rightarrow> oauth_backend \<Rightarrow> oauth_backend" where
  "put_blob_token blob t (InMemory s) = InMemory (s\<lparr>ms_tokens := AList.update (at_token t) t (ms_tokens s)\<rparr>)"
| "put_blob_token blob t (Sqlite db) = Sqlite (db\<lparr>db_tokens := AList.update (at_token t) (cast_signed (at_expires_at t), blob) (db_tokens db)\<rparr>)"
| "put_blob_token blob t (Postgres db) = Postgres (db\<lparr>db_tokens := AList.update (at_token t) (cast_signed (at_expires_at t), blob) (db_tokens db)\<rparr>)"

fun drop_code :: "string \<Rightarrow> oauth_backend \<Rightarrow> oauth_backend" where
  "drop_code i (InMemory s) = InMemory (s\<lparr>ms_codes := AList.delete i (ms_codes s)\<rparr>)"
| "drop_code i (Sqlite db) = Sqlite (db\<lparr>db_codes := AList.delete i (db_codes db)\<rparr>)"
| "drop_code i (Postgres db) = Postgres (db\<lparr>db_codes := AList.delete i (db_codes db)\<rparr>)"

lemma save_client_cases:
  assumes "to_blob (oc_client K) c = Inr blob" and "save_client K f c b = (b', r)"
  shows "isl r \<and> b' = b \<or> r = Inr () \<and> b' = put_blob_client blob c b"
  using assms by (cases b; cases "f Connect"; cases "f Execute") (auto simp: storage_defs)

lemma save_code_cases:
  assumes "to_blob (oc_code K) c = Inr blob" and "save_code K f c b = (b', r)"
  shows "isl r \<and> b' = b \<or> r = Inr () \<and> b' = put_blob_code blob c b"
  using assms by (cases b; cases "f Connect"; cases "f Execute") (auto simp: storage_defs)

lemma save_token_cases:
  assumes "to_blob (oc_token K) t = Inr blob" and "save_token K f t b = (b', r)"
  shows "isl r \<and> b' = b \<or> r = Inr () \<and> b' = put_blob_token blob t b"
  using assms by (cases b; cases "f Connect"; cases "f Execute") (auto simp: storage_defs)

lemma readable_update:
  "bc_from B blob = Some x \<Longrightarrow> (\<And>j. readable B (map_of al j)) \<Longrightarrow> readable B (map_of (AList.update i blob al) j)"
  by (simp add: update_conv' readable_def)

lemma readable_update_snd:
  "bc_from B blob = Some x \<Longrightarrow> (\<And>j. readable B (map_option snd (map_of al j))) \<Longrightarrow> readable B (map_option snd (map_of (AList.update i (t, blob) al) j))"
  by (simp add: update_conv' readable_def)

lemma readable_delete_snd:
  "(\<And>j. readable B (map_option snd (map_of al j))) \<Longrightarrow> readable B (map_option snd (map_of (AList.delete i al) j))"
  by (simp add: delete_conv' readable_def)

lemma view_put_client:
  "bc_from (oc_client K) blob = Some c \<Longrightarrow> clients_of K (put_blob_client blob c b) i = ((clients_of K b)(rc_client_id c \<mapsto> c)) i"
  "codes_of K (put_blob_client blob c b) i = codes_of K b i" "tokens_of K (put_blob_client blob c b) i = tokens_of K b i"
  by (cases b; simp add: view_defs update_conv')+

lemma view_put_code:
  "bc_from (oc_code K) blob = Some c \<Longrightarrow> codes_of K (put_blob_code blob c b) i = ((codes_of K b)(ac_code c \<mapsto> c)) i"
  "clients_of K (put_blob_code blob c b) i = clients_of K b i" "tokens_of K (put_blob_code blob c b) i = tokens_of K b i"
  by (cases b; simp add: view_defs update_conv')+

lemma view_put_token:
  "bc_from (oc_token K) blob = Some t \<Longrightarrow> tokens_of K (put_blob_token blob t b) i = ((tokens_of K b)(at_token t \<mapsto> t)) i"
  "clients_of K (put_blob_token blob t b) i = clients_of K b i" "codes_of K (put_blob_token blob t b) i = codes_of K b i"
  by (cases b; simp add: view_defs update_conv')+

lemma view_drop_code:
  "codes_of K (drop_code j b) i = ((codes_of K b)(j := None)) i"
  "clients_of K (drop_code j b) i = clients_of K b i" "tokens_of K (drop_code j b) i = tokens_of K b i"
  by (cases b; simp add: view_defs delete_conv')+

lemma storage_ok_put:
  assumes "storage_ok K b"
  shows "bc_from (oc_client K) blob = Some c \<Longrightarrow> storage_ok K (put_blob_client blob c b)"
    "bc_from (oc_code K) blob = Some k \<Longrightarrow> storage_ok K (put_blob_code blob k b)"
    "bc_from (oc_token K) blob = Some t \<Longrightarrow> storage_ok K (put_blob_token blob t b)"
    "storage_ok K (drop_code i b)"
  using assms by (cases b; simp add: storage_ok_def db_ok_def readable_update readable_update_snd readable_delete_snd)+

lemma take_code_cases:
  assumes "storage_ok K b" and "take_code K f i b = (b', q)"
  shows "isl q \<and> b' = b \<or> q = Inr (codes_of K b i) \<and> (b' = drop_code i b \<or> codes_of K b i = None \<and> b' = b)"
proof (cases b)
  case (InMemory s)
  then show ?thesis using assms(2) by (auto simp: storage_defs codes_of_def)
next
  case (Sqlite db)
  have "from_blob (oc_code K) (map_option snd (map_of (db_codes db) i)) = Inr (codes_of K b i)"
    using assms(1) by (simp add: Sqlite storage_ok_def db_ok_def from_blob_readable codes_of_def bind_map_option comp_def)
  then show ?thesis using assms(2) Sqlite
    by (cases "f Connect"; cases "f Begin"; cases "f Select"; cases "f Execute"; cases "f Commit"; cases "map_of (db_codes db) i")
      (auto simp: storage_defs from_blob_def)
next
  case (Postgres db)
  have "from_blob (oc_code K) (map_option snd (map_of (db_codes db) i)) = Inr (codes_of K b i)"
    using assms(1) by (simp add: Postgres storage_ok_def db_ok_def from_blob_readable codes_of_def bind_map_option comp_def)
  then show ?thesis using assms(2) Postgres by (cases "f Connect"; cases "f Execute") (auto simp: storage_defs)
qed

lemma get_client_law: "storage_ok K b \<Longrightarrow> get_client K f i b = Inr x \<Longrightarrow> x = clients_of K b i"
  by (cases b; cases "f Connect"; cases "f Select")
    (auto simp: storage_defs clients_of_def storage_ok_def db_ok_def from_blob_readable)

lemma get_token_law: "storage_ok K b \<Longrightarrow> get_token K f i b = Inr x \<Longrightarrow> x = tokens_of K b i"
  by (cases b; cases "f Connect"; cases "f Select")
    (auto simp: storage_defs tokens_of_def storage_ok_def db_ok_def from_blob_readable bind_map_option comp_def)

lemma blobs_exist:
  assumes "storage_ok K b"
  shows "\<exists>bl. to_blob (oc_client K) c = Inr bl \<and> bc_from (oc_client K) bl = Some c"
    "\<exists>bl. to_blob (oc_code K) k = Inr bl \<and> bc_from (oc_code K) bl = Some k"
    "\<exists>bl. to_blob (oc_token K) t = Inr bl \<and> bc_from (oc_token K) bl = Some t"
  using assms unfolding storage_ok_def codecs_ok_def by (metis to_blob_ok)+

lemma no_fault_available:
  assumes "storage_ok K b"
  shows "\<not> isl (snd (save_client K no_faults c b)) \<and> \<not> isl (get_client K no_faults i b)
      \<and> \<not> isl (snd (save_code K no_faults k b)) \<and> \<not> isl (snd (take_code K no_faults i b))
      \<and> \<not> isl (snd (save_token K no_faults t b)) \<and> \<not> isl (get_token K no_faults i b)"
proof -
  note bl = blobs_exist [OF assms]
  have "\<not> isl (snd (save_client K no_faults c b))" using bl(1) [of c] by (cases b) (auto simp: storage_defs)
  moreover have "\<not> isl (snd (save_code K no_faults k b))" using bl(2) [of k] by (cases b) (auto simp: storage_defs)
  moreover have "\<not> isl (snd (save_token K no_faults t b))" using bl(3) [of t] by (cases b) (auto simp: storage_defs)
  moreover have "\<not> isl (get_client K no_faults i b)" "\<not> isl (get_token K no_faults i b)" "\<not> isl (snd (take_code K no_faults i b))"
    using assms by (cases b; simp add: storage_defs storage_ok_def db_ok_def from_blob_readable)+
  ultimately show ?thesis by simp
qed

lemma dispatcher_storage:
  "oauth_storage (storage_ok K) (clients_of K) (codes_of K) (tokens_of K) (save_client K) (get_client K) (save_code K)
     (take_code K) (save_token K) (get_token K)"
proof
  fix b f c b' and r :: "unit storage_result"
  assume ok: "storage_ok K b" and op: "save_client K f c b = (b', r)"
  from blobs_exist(1) [OF ok] obtain bl where bl: "to_blob (oc_client K) c = Inr bl" "bc_from (oc_client K) bl = Some c" by blast
  from save_client_cases [OF bl(1) op]
  show "storage_ok K b' \<and> codes_of K b' = codes_of K b \<and> tokens_of K b' = tokens_of K b
    \<and> clients_of K b' = (if isl r then clients_of K b else (clients_of K b)(rc_client_id c \<mapsto> c))"
    using ok storage_ok_put(1) [OF ok bl(2)] view_put_client bl(2) by auto
next
  fix b f k b' and r :: "unit storage_result"
  assume ok: "storage_ok K b" and op: "save_code K f k b = (b', r)"
  from blobs_exist(2) [OF ok] obtain bl where bl: "to_blob (oc_code K) k = Inr bl" "bc_from (oc_code K) bl = Some k" by blast
  from save_code_cases [OF bl(1) op]
  show "storage_ok K b' \<and> clients_of K b' = clients_of K b \<and> tokens_of K b' = tokens_of K b
    \<and> codes_of K b' = (if isl r then codes_of K b else (codes_of K b)(ac_code k \<mapsto> k))"
    using ok storage_ok_put(2) [OF ok bl(2)] view_put_code bl(2) by auto
next
  fix b f t b' and r :: "unit storage_result"
  assume ok: "storage_ok K b" and op: "save_token K f t b = (b', r)"
  from blobs_exist(3) [OF ok] obtain bl where bl: "to_blob (oc_token K) t = Inr bl" "bc_from (oc_token K) bl = Some t" by blast
  from save_token_cases [OF bl(1) op]
  show "storage_ok K b' \<and> clients_of K b' = clients_of K b \<and> codes_of K b' = codes_of K b
    \<and> tokens_of K b' = (if isl r then tokens_of K b else (tokens_of K b)(at_token t \<mapsto> t))"
    using ok storage_ok_put(3) [OF ok bl(2)] view_put_token bl(2) by auto
next
  fix b f i b' q
  assume ok: "storage_ok K b" and op: "take_code K f i b = (b', q)"
  from take_code_cases [OF this]
  show "storage_ok K b' \<and> clients_of K b' = clients_of K b \<and> tokens_of K b' = tokens_of K b
    \<and> (if isl q then codes_of K b' = codes_of K b else q = Inr (codes_of K b i) \<and> codes_of K b' = (codes_of K b)(i := None))"
    using ok storage_ok_put(4) [OF ok] view_drop_code by (auto simp: fun_eq_iff)
next
  show "x = clients_of K b i" if "storage_ok K b" "get_client K f i b = Inr x" for b f i x
    using get_client_law that by blast
  show "x = tokens_of K b i" if "storage_ok K b" "get_token K f i b = Inr x" for b f i x
    using get_token_law that by blast
qed (rule no_fault_available)

interpretation backend: oauth_storage "storage_ok K" "clients_of K" "codes_of K" "tokens_of K" "save_client K" "get_client K"
  "save_code K" "take_code K" "save_token K" "get_token K" for K
  by (rule dispatcher_storage)

section \<open>A concrete serialization\<close>

definition netstring_codecs :: oauth_codecs where
  "netstring_codecs =
     \<lparr>oc_client =
        \<lparr>bc_to = (\<lambda>c. Some (enc_all [rc_client_id c, enc_opt (rc_client_secret c), enc_all (rc_redirect_uris c), enc_opt (rc_client_name c),
            rc_scope c, show_nat (rc_registered_at c)])),
         bc_from = (\<lambda>s. case dec_all s of
            [i, sec, uris, nm, sc, at] \<Rightarrow> Some \<lparr>rc_client_id = i, rc_client_secret = dec_opt sec, rc_redirect_uris = dec_all uris,
              rc_client_name = dec_opt nm, rc_scope = sc, rc_registered_at = digits_value at\<rparr> | _ \<Rightarrow> None)\<rparr>,
      oc_code =
        \<lparr>bc_to = (\<lambda>c. Some (enc_all [ac_code c, ac_client_id c, ac_redirect_uri c, ac_scope c, ac_code_challenge c,
            ac_code_challenge_method c, show_nat (ac_expires_at c)])),
         bc_from = (\<lambda>s. case dec_all s of
            [k, i, u, sc, ch, m, e] \<Rightarrow> Some \<lparr>ac_code = k, ac_client_id = i, ac_redirect_uri = u, ac_scope = sc, ac_code_challenge = ch,
              ac_code_challenge_method = m, ac_expires_at = digits_value e\<rparr> | _ \<Rightarrow> None)\<rparr>,
      oc_token =
        \<lparr>bc_to = (\<lambda>t. Some (enc_all [at_token t, at_client_id t, at_scope t, show_nat (at_expires_at t)])),
         bc_from = (\<lambda>s. case dec_all s of
            [k, i, sc, e] \<Rightarrow> Some \<lparr>at_token = k, at_client_id = i, at_scope = sc, at_expires_at = digits_value e\<rparr> | _ \<Rightarrow> None)\<rparr>\<rparr>"

lemma netstring_codecs_ok: "codecs_ok netstring_codecs"
  by (simp add: codecs_ok_def blob_codec_ok_def netstring_codecs_def digits_value_show)

end
