(* ===== verification/Auth.thy ===== *)
theory Auth
  imports Auth_Storage Base64
begin

text \<open>
  The OAuth server (\<open>ministr-mcp/src/auth/store.rs\<close>, \<open>handlers.rs\<close>,
  \<open>middleware.rs\<close>, \<open>tenant.rs\<close>): registration of clients, the authorization-code grant with PKCE,
  bearer tokens, and the middleware in front of the protected routes.

  SHA-256 is the argument \<open>sha\<close>. A request has an environment: the successive readings of the clock
  (\<open>re_clock\<close>), the timestamp and the address that each generated identifier hashes (\<open>re_seeds\<close>),
  and the faults of its successive storage calls (\<open>re_faults\<close>). The resolvers for API keys and
  plans, which a cloud deployment installs, are functions. Requests are served one after the other.
\<close>

section \<open>Tenants\<close>

datatype plan = Pro | Team | Enterprise

fun queue_priority :: "plan \<Rightarrow> 16 word" where
  "queue_priority Pro = 1"
| "queue_priority Team = 2"
| "queue_priority Enterprise = 4"

record tenant =
  tn_subject :: string
  tn_org_id :: "string option"
  tn_plan :: plan

definition tenant_local :: "string \<Rightarrow> tenant" where
  "tenant_local subject = \<lparr>tn_subject = subject, tn_org_id = None, tn_plan = Pro\<rparr>"

definition parse_plan_id :: "string \<Rightarrow> plan" where
  "parse_plan_id plan_id =
     (let p = map to_ascii_lower (str_trim plan_id)
      in if p = ''team'' then Team else if p = ''enterprise'' then Enterprise else Pro)"

section \<open>The store\<close>

record oauth_config =
  cf_issuer :: string
  cf_scopes_supported :: "string list"
  cf_token_ttl :: nat
  cf_code_ttl :: nat

definition oauth_config_default :: oauth_config where
  "oauth_config_default =
     \<lparr>cf_issuer = ''http://localhost:8080'',
      cf_scopes_supported = [''ministr:read'', ''ministr:write'', ''ministr:bundle:read'', ''ministr:bundle:write''],
      cf_token_ttl = 3600, cf_code_ttl = 600\<rparr>"

record resolved_api_key =
  rk_key_id :: string
  rk_subject :: string
  rk_org_id :: "string option"
  rk_plan_id :: string
  rk_scopes :: string

datatype api_key_error = Storage string

record oauth_store =
  st_config :: oauth_config
  st_backend :: oauth_backend
  st_api_key_resolver :: "(string \<Rightarrow> api_key_error + resolved_api_key option) option"
  st_plan_resolver :: "(string \<Rightarrow> string + string option) option"

definition store_new :: "oauth_config \<Rightarrow> oauth_store" where
  "store_new config =
     \<lparr>st_config = config, st_backend = InMemory memory_new, st_api_key_resolver = None, st_plan_resolver = None\<rparr>"

definition with_api_key_resolver ::
    "(string \<Rightarrow> api_key_error + resolved_api_key option) \<Rightarrow> oauth_store \<Rightarrow> oauth_store" where
  "with_api_key_resolver resolver st = st\<lparr>st_api_key_resolver := Some resolver\<rparr>"

definition with_plan_resolver :: "(string \<Rightarrow> string + string option) \<Rightarrow> oauth_store \<Rightarrow> oauth_store" where
  "with_plan_resolver resolver st = st\<lparr>st_plan_resolver := Some resolver\<rparr>"

record request_env =
  re_clock :: "nat \<Rightarrow> nat"
  re_seeds :: "nat \<Rightarrow> nat \<times> nat"
  re_faults :: "nat \<Rightarrow> db_faults"

definition set_backend :: "oauth_store \<Rightarrow> oauth_backend \<Rightarrow> oauth_store" where
  "set_backend st b = st\<lparr>st_backend := b\<rparr>"

definition issue_bearer_token ::
    "(string \<Rightarrow> string) \<Rightarrow> oauth_codecs \<Rightarrow> request_env \<Rightarrow> string \<Rightarrow> string \<Rightarrow> oauth_store \<Rightarrow> oauth_store \<times> (storage_error + string)" where
  "issue_bearer_token sha K E client_id scope st =
     (let token = generate_id sha (re_seeds E 0);
          access = \<lparr>at_token = token, at_client_id = client_id, at_scope = scope,
                    at_expires_at = add_u64 (re_clock E 0) (cf_token_ttl (st_config st))\<rparr>
      in case save_token K (re_faults E 0) access (st_backend st) of
           (b, Inl e) \<Rightarrow> (set_backend st b, Inl e)
         | (b, Inr _) \<Rightarrow> (set_backend st b, Inr token))"

text \<open>The lookups take the clock reading and the faults of their storage call.\<close>

definition validate_token :: "oauth_codecs \<Rightarrow> nat \<Rightarrow> db_faults \<Rightarrow> oauth_store \<Rightarrow> string \<Rightarrow> string option" where
  "validate_token K now f st token =
     (case get_token K f token (st_backend st) of
        Inr (Some access) \<Rightarrow> if now \<le> at_expires_at access then Some (at_client_id access) else None
      | Inr None \<Rightarrow> None
      | Inl e \<Rightarrow> None)"

definition validate_token_with_scope ::
    "oauth_codecs \<Rightarrow> nat \<Rightarrow> db_faults \<Rightarrow> oauth_store \<Rightarrow> string \<Rightarrow> string \<Rightarrow> string option" where
  "validate_token_with_scope K now f st token required_scope =
     (case get_token K f token (st_backend st) of
        Inr (Some access) \<Rightarrow>
          if now \<le> at_expires_at access then
            (if required_scope \<in> set (split_whitespace (at_scope access)) then Some (at_client_id access) else None)
          else None
      | Inr None \<Rightarrow> None
      | Inl e \<Rightarrow> None)"

definition tenant_from_oauth_subject :: "oauth_store \<Rightarrow> string \<Rightarrow> tenant" where
  "tenant_from_oauth_subject st subject =
     (case st_plan_resolver st of
        None \<Rightarrow> tenant_local subject
      | Some resolve \<Rightarrow>
          (case resolve subject of
             Inr (Some plan_id) \<Rightarrow> \<lparr>tn_subject = subject, tn_org_id = None, tn_plan = parse_plan_id plan_id\<rparr>
           | Inr None \<Rightarrow> tenant_local subject
           | Inl e \<Rightarrow> tenant_local subject))"

definition resolve_api_key :: "oauth_store \<Rightarrow> string \<Rightarrow> string option \<Rightarrow> tenant option" where
  "resolve_api_key st raw_token required_scope =
     (case st_api_key_resolver st of
        None \<Rightarrow> None
      | Some resolve \<Rightarrow>
          (case resolve raw_token of
             Inl e \<Rightarrow> None
           | Inr None \<Rightarrow> None
           | Inr (Some key_data) \<Rightarrow>
               if (case required_scope of None \<Rightarrow> False
                   | Some needed \<Rightarrow> needed \<notin> set (split_whitespace (rk_scopes key_data)))
               then None
               else Some \<lparr>tn_subject = rk_subject key_data, tn_org_id = rk_org_id key_data, tn_plan = parse_plan_id (rk_plan_id key_data)\<rparr>))"

definition resolve_tenant :: "oauth_codecs \<Rightarrow> nat \<Rightarrow> db_faults \<Rightarrow> oauth_store \<Rightarrow> string \<Rightarrow> tenant option" where
  "resolve_tenant K now f st token =
     (case validate_token K now f st token of
        Some client_id \<Rightarrow> Some (tenant_from_oauth_subject st client_id)
      | None \<Rightarrow> resolve_api_key st token None)"

definition resolve_tenant_with_scope ::
    "oauth_codecs \<Rightarrow> nat \<Rightarrow> db_faults \<Rightarrow> oauth_store \<Rightarrow> string \<Rightarrow> string \<Rightarrow> tenant option" where
  "resolve_tenant_with_scope K now f st token required_scope =
     (case validate_token_with_scope K now f st token required_scope of
        Some client_id \<Rightarrow> Some (tenant_from_oauth_subject st client_id)
      | None \<Rightarrow> resolve_api_key st token (Some required_scope))"

section \<open>Handlers\<close>

record registration_request =
  rq_redirect_uris :: "string list"
  rq_client_name :: "string option"
  rq_scope :: "string option"
  rq_token_endpoint_auth_method :: "string option"

record registration_response =
  rr_client_id :: string
  rr_client_secret :: "string option"
  rr_redirect_uris :: "string list"
  rr_client_name :: "string option"
  rr_token_endpoint_auth_method :: string

record token_request =
  tq_grant_type :: string
  tq_code :: "string option"
  tq_redirect_uri :: "string option"
  tq_client_id :: "string option"
  tq_code_verifier :: "string option"

record token_response =
  tr_access_token :: string
  tr_token_type :: string
  tr_expires_in :: nat
  tr_scope :: string

record authorize_query =
  aq_response_type :: string
  aq_client_id :: string
  aq_redirect_uri :: string
  aq_scope :: "string option"
  aq_state :: "string option"
  aq_code_challenge :: "string option"
  aq_code_challenge_method :: "string option"

definition register_client ::
    "(string \<Rightarrow> string) \<Rightarrow> oauth_codecs \<Rightarrow> request_env \<Rightarrow> registration_request \<Rightarrow> oauth_store
      \<Rightarrow> oauth_store \<times> (nat + registration_response)" where
  "register_client sha K E req st =
     (if rq_redirect_uris req = [] then (st, Inl 400)
      else
        (let client_id = generate_id sha (re_seeds E 0);
             is_public = (case rq_token_endpoint_auth_method req of None \<Rightarrow> ''none'' | Some m \<Rightarrow> m) = ''none'';
             client_secret = (if is_public then None else Some (generate_id sha (re_seeds E 1)));
             scope = (case rq_scope req of Some s \<Rightarrow> s | None \<Rightarrow> join '' '' (cf_scopes_supported (st_config st)));
             client = \<lparr>rc_client_id = client_id, rc_client_secret = client_secret, rc_redirect_uris = rq_redirect_uris req,
                       rc_client_name = rq_client_name req, rc_scope = scope, rc_registered_at = re_clock E 0\<rparr>
         in case save_client K (re_faults E 0) client (st_backend st) of
              (b, Inl e) \<Rightarrow> (set_backend st b, Inl 500)
            | (b, Inr _) \<Rightarrow>
                (set_backend st b,
                 Inr \<lparr>rr_client_id = client_id, rr_client_secret = client_secret, rr_redirect_uris = rq_redirect_uris req,
                      rr_client_name = rq_client_name req,
                      rr_token_endpoint_auth_method = (if is_public then ''none'' else ''client_secret_post'')\<rparr>)))"

definition hex_digit :: "nat \<Rightarrow> char" where
  "hex_digit d = ''0123456789ABCDEF'' ! d"

definition encode_issuer :: "string \<Rightarrow> string" where
  "encode_issuer issuer =
     concat (map (\<lambda>b.
       if ascii_upper b \<or> ascii_lower b \<or> ascii_digit b \<or> b \<in> set ''-_.~:/'' then [b]
       else ''%'' @ [hex_digit (of_char b div 16), hex_digit (of_char b mod 16)]) issuer)"

definition redirect_location :: "string \<Rightarrow> string \<Rightarrow> string option \<Rightarrow> string \<Rightarrow> string" where
  "redirect_location redirect_uri code state issuer =
     redirect_uri @ (if CHR ''?'' \<in> set redirect_uri then ''&'' else ''?'') @ ''code='' @ code
     @ (case state of None \<Rightarrow> [] | Some s \<Rightarrow> ''&state='' @ s) @ ''&iss='' @ encode_issuer issuer"

text \<open>The answer is a status and a body, or the location the user agent is sent to (status 302).\<close>

definition authorize ::
    "(string \<Rightarrow> string) \<Rightarrow> oauth_codecs \<Rightarrow> request_env \<Rightarrow> authorize_query \<Rightarrow> oauth_store
      \<Rightarrow> oauth_store \<times> ((nat \<times> string) + string)" where
  "authorize sha K E query st =
     (if aq_response_type query \<noteq> ''code'' then (st, Inl (400, ''unsupported response_type''))
      else
     (case get_client K (re_faults E 0) (aq_client_id query) (st_backend st) of
        Inl e \<Rightarrow> (st, Inl (500, ''storage unavailable''))
      | Inr None \<Rightarrow> (st, Inl (400, ''unknown client_id''))
      | Inr (Some client) \<Rightarrow>
          if aq_redirect_uri query \<notin> set (rc_redirect_uris client) then (st, Inl (400, ''invalid redirect_uri''))
          else
     (case aq_code_challenge query of
        None \<Rightarrow> (st, Inl (400, ''code_challenge required (PKCE)''))
      | Some code_challenge \<Rightarrow>
          (let code_challenge_method = (case aq_code_challenge_method query of None \<Rightarrow> ''S256'' | Some m \<Rightarrow> m) in
           if code_challenge_method \<noteq> ''S256'' then (st, Inl (400, ''only S256 code_challenge_method supported''))
           else
             (let code = generate_id sha (re_seeds E 0);
                  auth_code = \<lparr>ac_code = code, ac_client_id = aq_client_id query, ac_redirect_uri = aq_redirect_uri query,
                               ac_scope = (case aq_scope query of None \<Rightarrow> [] | Some s \<Rightarrow> s), ac_code_challenge = code_challenge,
                               ac_code_challenge_method = code_challenge_method,
                               ac_expires_at = add_u64 (re_clock E 0) (cf_code_ttl (st_config st))\<rparr>
              in case save_code K (re_faults E 1) auth_code (st_backend st) of
                   (b, Inl e) \<Rightarrow> (set_backend st b, Inl (500, ''storage unavailable''))
                 | (b, Inr _) \<Rightarrow>
                     (set_backend st b,
                      Inr (redirect_location (aq_redirect_uri query) code (aq_state query) (cf_issuer (st_config st)))))))))"

definition token ::
    "(string \<Rightarrow> string) \<Rightarrow> oauth_codecs \<Rightarrow> request_env \<Rightarrow> token_request \<Rightarrow> oauth_store
      \<Rightarrow> oauth_store \<times> (nat + token_response)" where
  "token sha K E req st =
     (if tq_grant_type req \<noteq> ''authorization_code'' then (st, Inl 400)
      else
     (case tq_code req of
        None \<Rightarrow> (st, Inl 400)
      | Some code_str \<Rightarrow>
     (case tq_code_verifier req of
        None \<Rightarrow> (st, Inl 400)
      | Some code_verifier \<Rightarrow>
     (case take_code K (re_faults E 0) code_str (st_backend st) of
        (b, Inl e) \<Rightarrow> (set_backend st b, Inl 500)
      | (b, Inr None) \<Rightarrow> (set_backend st b, Inl 400)
      | (b, Inr (Some auth_code)) \<Rightarrow>
          (let st1 = set_backend st b in
           if ac_expires_at auth_code < re_clock E 0 then (st1, Inl 400)
           else if base64_url_encode (sha code_verifier) \<noteq> ac_code_challenge auth_code then (st1, Inl 400)
           else if (case tq_client_id req of None \<Rightarrow> False | Some i \<Rightarrow> i \<noteq> ac_client_id auth_code) then (st1, Inl 400)
           else if (case tq_redirect_uri req of None \<Rightarrow> False | Some u \<Rightarrow> u \<noteq> ac_redirect_uri auth_code) then (st1, Inl 400)
           else
             (let tok = generate_id sha (re_seeds E 0);
                  expires_in = cf_token_ttl (st_config st);
                  token_record = \<lparr>at_token = tok, at_client_id = ac_client_id auth_code, at_scope = ac_scope auth_code,
                                  at_expires_at = add_u64 (re_clock E 1) expires_in\<rparr>
              in case save_token K (re_faults E 1) token_record b of
                   (b', Inl e) \<Rightarrow> (set_backend st b', Inl 500)
                 | (b', Inr _) \<Rightarrow>
                     (set_backend st b',
                      Inr \<lparr>tr_access_token = tok, tr_token_type = ''Bearer'', tr_expires_in = expires_in,
                           tr_scope = ac_scope auth_code\<rparr>)))))))"

section \<open>Middleware\<close>

text \<open>\<open>HeaderValue::to_str\<close> accepts visible ASCII and tabs.\<close>

definition header_text :: "string \<Rightarrow> string option" where
  "header_text raw =
     (if list_all (\<lambda>c. (32 \<le> (of_char c :: nat) \<and> (of_char c :: nat) < 127) \<or> of_char c = (9 :: nat)) raw then Some raw else None)"

definition extract_bearer :: "string option \<Rightarrow> string option" where
  "extract_bearer header =
     (case Option.bind header header_text of
        None \<Rightarrow> None
      | Some raw \<Rightarrow> if take 7 raw = ''Bearer '' then Some (drop 7 raw) else None)"

datatype denial = Unauthorized string | Forbidden string

definition unauthorized_response :: "oauth_config \<Rightarrow> denial" where
  "unauthorized_response config =
     Unauthorized (''Bearer resource_metadata='' @ [CHR 34] @ cf_issuer config @ ''/.well-known/oauth-protected-resource'' @ [CHR 34])"

definition validate_token_middleware :: "oauth_codecs \<Rightarrow> request_env \<Rightarrow> string option \<Rightarrow> oauth_store \<Rightarrow> denial + tenant" where
  "validate_token_middleware K E header st =
     (case extract_bearer header of
        None \<Rightarrow> Inl (unauthorized_response (st_config st))
      | Some tok \<Rightarrow>
          (case resolve_tenant K (re_clock E 0) (re_faults E 0) st tok of
             Some tenant \<Rightarrow> Inr tenant
           | None \<Rightarrow> Inl (unauthorized_response (st_config st))))"

definition validate_scope_middleware ::
    "oauth_codecs \<Rightarrow> request_env \<Rightarrow> string \<Rightarrow> string option \<Rightarrow> oauth_store \<Rightarrow> denial + tenant" where
  "validate_scope_middleware K E required_scope header st =
     (case extract_bearer header of
        None \<Rightarrow> Inl (unauthorized_response (st_config st))
      | Some tok \<Rightarrow>
          if resolve_tenant K (re_clock E 0) (re_faults E 0) st tok = None then Inl (unauthorized_response (st_config st))
          else
            (case resolve_tenant_with_scope K (re_clock E 1) (re_faults E 1) st tok required_scope of
               Some tenant \<Rightarrow> Inr tenant
             | None \<Rightarrow> Inl (Forbidden (''insufficient scope: requires '' @ required_scope))))"

section \<open>Serving requests\<close>

text \<open>
  Requests are served one after the other. The server runs handlers concurrently: two handlers can interleave between
  their storage calls, of which each makes at most two (\<open>authorize\<close> reads the client and saves the code, \<open>token\<close> takes the
  code and saves the token, each call atomic in its back-end). Such interleavings are not modelled. A storage call that
  fails has no effect.
\<close>

datatype request =
    Register registration_request | Authorize authorize_query | Token token_request
  | Access "string option" | ScopedAccess string "string option"

datatype response =
    Registered "nat + registration_response" | Redirected "(nat \<times> string) + string" | Issued "nat + token_response"
  | Admitted "denial + tenant"

fun serve :: "(string \<Rightarrow> string) \<Rightarrow> oauth_codecs \<Rightarrow> request_env \<Rightarrow> request \<Rightarrow> oauth_store \<Rightarrow> oauth_store \<times> response" where
  "serve sha K E (Register req) st = map_prod id Registered (register_client sha K E req st)"
| "serve sha K E (Authorize query) st = map_prod id Redirected (authorize sha K E query st)"
| "serve sha K E (Token req) st = map_prod id Issued (token sha K E req st)"
| "serve sha K E (Access header) st = (st, Admitted (validate_token_middleware K E header st))"
| "serve sha K E (ScopedAccess scope header) st = (st, Admitted (validate_scope_middleware K E scope header st))"

type_synonym auth_event = "request_env \<times> request \<times> response"

fun serve_all ::
    "(string \<Rightarrow> string) \<Rightarrow> oauth_codecs \<Rightarrow> (request_env \<times> request) list \<Rightarrow> oauth_store \<Rightarrow> oauth_store \<times> auth_event list" where
  "serve_all sha K [] st = (st, [])"
| "serve_all sha K ((E, r) # rs) st =
     (let (st1, p) = serve sha K E r st; (st2, h) = serve_all sha K rs st1 in (st2, (E, r, p) # h))"

section \<open>What a history grants\<close>

definition empty_backend :: "oauth_backend \<Rightarrow> bool" where
  "empty_backend b \<longleftrightarrow> b \<in> {InMemory memory_new, Sqlite ensure_schema, Postgres ensure_schema}"

text \<open>A client with the redirect URI was registered in \<open>h\<close>.\<close>

definition registered_in :: "auth_event list \<Rightarrow> string \<Rightarrow> string \<Rightarrow> bool" where
  "registered_in h client_id uri \<longleftrightarrow>
     (\<exists>E reg rr. (E, Register reg, Registered (Inr rr)) \<in> set h \<and> rr_client_id rr = client_id \<and> uri \<in> set (rq_redirect_uris reg))"

text \<open>An event in which the code \<open>code\<close> was exchanged for a token.\<close>

fun exchanged :: "string \<Rightarrow> auth_event \<Rightarrow> bool" where
  "exchanged code (E, Token req, Issued (Inr resp)) \<longleftrightarrow> tq_code req = Some code"
| "exchanged code _ \<longleftrightarrow> False"

text \<open>
  The last grant of \<open>code\<close> in \<open>h\<close>: an authorization request \<open>q\<close>, served under \<open>E\<close>, of a client registered
  before with that redirect URI, whose code was not exchanged since.
\<close>

definition open_grant :: "(string \<Rightarrow> string) \<Rightarrow> auth_event list \<Rightarrow> string \<Rightarrow> request_env \<Rightarrow> authorize_query \<Rightarrow> bool" where
  "open_grant sha h code E q \<longleftrightarrow>
     (\<exists>pre loc post. h = pre @ (E, Authorize q, Redirected (Inr loc)) # post \<and> code = generate_id sha (re_seeds E 0)
        \<and> registered_in pre (aq_client_id q) (aq_redirect_uri q) \<and> (\<forall>e \<in> set post. \<not> exchanged code e))"

text \<open>What the token endpoint has to check of a request before it answers with a token for \<open>client_id\<close>.\<close>

definition justified ::
    "(string \<Rightarrow> string) \<Rightarrow> oauth_config \<Rightarrow> auth_event list \<Rightarrow> request_env \<Rightarrow> token_request \<Rightarrow> token_response \<Rightarrow> string \<Rightarrow> bool" where
  "justified sha cfg h E req resp client_id \<longleftrightarrow>
     (\<exists>code v E' q. tq_code req = Some code \<and> tq_code_verifier req = Some v \<and> open_grant sha h code E' q
        \<and> aq_code_challenge q = Some (base64_url_encode (sha v))
        \<and> re_clock E 0 \<le> add_u64 (re_clock E' 0) (cf_code_ttl cfg)
        \<and> client_id = aq_client_id q \<and> tq_client_id req \<in> {None, Some (aq_client_id q)}
        \<and> tq_redirect_uri req \<in> {None, Some (aq_redirect_uri q)}
        \<and> tr_scope resp = (case aq_scope q of None \<Rightarrow> [] | Some sc \<Rightarrow> sc))"

section \<open>The handlers over the stored maps\<close>

abbreviation store_clients where "store_clients K st \<equiv> clients_of K (st_backend st)"
abbreviation store_codes where "store_codes K st \<equiv> codes_of K (st_backend st)"
abbreviation store_tokens where "store_tokens K st \<equiv> tokens_of K (st_backend st)"
abbreviation store_ok where "store_ok K st \<equiv> storage_ok K (st_backend st)"

lemma set_backend_simps [simp]:
  "st_backend (set_backend st b) = b" "st_config (set_backend st b) = st_config st"
  "st_api_key_resolver (set_backend st b) = st_api_key_resolver st" "st_plan_resolver (set_backend st b) = st_plan_resolver st"
  by (simp_all add: set_backend_def)

definition same_rest :: "oauth_store \<Rightarrow> oauth_store \<Rightarrow> bool" where
  "same_rest st st' \<longleftrightarrow> st_config st' = st_config st \<and> st_api_key_resolver st' = st_api_key_resolver st
     \<and> st_plan_resolver st' = st_plan_resolver st"

lemma register_effect:
  assumes "store_ok K st" and "register_client sha K E req st = (st', r)"
  shows "store_ok K st' \<and> same_rest st st' \<and> store_codes K st' = store_codes K st \<and> store_tokens K st' = store_tokens K st
    \<and> (case r of Inl n \<Rightarrow> store_clients K st' = store_clients K st
       | Inr rr \<Rightarrow> \<exists>c. store_clients K st' = (store_clients K st)(rr_client_id rr \<mapsto> c) \<and> rc_redirect_uris c = rq_redirect_uris req)"
  using assms
  by (auto simp: register_client_def Let_def same_rest_def split: if_splits prod.splits sum.splits
      dest!: backend.put_client [OF assms(1)])

text \<open>The record that a successful authorization request stores.\<close>

definition code_record :: "(string \<Rightarrow> string) \<Rightarrow> oauth_config \<Rightarrow> request_env \<Rightarrow> authorize_query \<Rightarrow> string \<Rightarrow> authorization_code" where
  "code_record sha cfg E q ch =
     \<lparr>ac_code = generate_id sha (re_seeds E 0), ac_client_id = aq_client_id q, ac_redirect_uri = aq_redirect_uri q,
      ac_scope = (case aq_scope q of None \<Rightarrow> [] | Some s \<Rightarrow> s), ac_code_challenge = ch, ac_code_challenge_method = ''S256'',
      ac_expires_at = add_u64 (re_clock E 0) (cf_code_ttl cfg)\<rparr>"

lemma authorize_effect:
  assumes "store_ok K st" and "authorize sha K E q st = (st', r)"
  shows "store_ok K st' \<and> same_rest st st' \<and> store_clients K st' = store_clients K st \<and> store_tokens K st' = store_tokens K st
    \<and> (case r of Inl n \<Rightarrow> store_codes K st' = store_codes K st
       | Inr loc \<Rightarrow> \<exists>ch c. aq_code_challenge q = Some ch \<and> store_clients K st (aq_client_id q) = Some c
            \<and> aq_redirect_uri q \<in> set (rc_redirect_uris c)
            \<and> store_codes K st' = (store_codes K st)(generate_id sha (re_seeds E 0) \<mapsto> code_record sha (st_config st) E q ch))"
proof (cases r)
  case (Inl n)
  then show ?thesis using assms
    by (auto simp: authorize_def Let_def same_rest_def split: if_splits prod.splits sum.splits option.splits
        dest!: backend.put_code [OF assms(1)])
next
  case (Inr loc)
  from assms(2) Inr obtain c ch b
    where c: "get_client K (re_faults E 0) (aq_client_id q) (st_backend st) = Inr (Some c)"
      and uri: "aq_redirect_uri q \<in> set (rc_redirect_uris c)" and ch: "aq_code_challenge q = Some ch"
      and m: "(case aq_code_challenge_method q of None \<Rightarrow> ''S256'' | Some m \<Rightarrow> m) = ''S256''"
      and b: "save_code K (re_faults E 1) (code_record sha (st_config st) E q ch) (st_backend st) = (b, Inr ())" "st' = set_backend st b"
    by (auto simp: authorize_def Let_def code_record_def split: if_splits prod.splits sum.splits option.splits)
  have "ac_code (code_record sha (st_config st) E q ch) = generate_id sha (re_seeds E 0)" by (simp add: code_record_def)
  with Inr uri ch b(2) backend.put_code [OF assms(1) b(1)] backend.look_client [OF assms(1) c, symmetric] show ?thesis
    by (auto simp: same_rest_def)
qed

definition token_record :: "(string \<Rightarrow> string) \<Rightarrow> oauth_config \<Rightarrow> request_env \<Rightarrow> authorization_code \<Rightarrow> access_token" where
  "token_record sha cfg E a =
     \<lparr>at_token = generate_id sha (re_seeds E 0), at_client_id = ac_client_id a, at_scope = ac_scope a,
      at_expires_at = add_u64 (re_clock E 1) (cf_token_ttl cfg)\<rparr>"

definition checks_pass :: "(string \<Rightarrow> string) \<Rightarrow> request_env \<Rightarrow> token_request \<Rightarrow> string \<Rightarrow> authorization_code \<Rightarrow> bool" where
  "checks_pass sha E req v a \<longleftrightarrow>
     re_clock E 0 \<le> ac_expires_at a \<and> base64_url_encode (sha v) = ac_code_challenge a
     \<and> tq_client_id req \<in> {None, Some (ac_client_id a)} \<and> tq_redirect_uri req \<in> {None, Some (ac_redirect_uri a)}"

lemma token_success:
  assumes "store_ok K st" and "token sha K E req st = (st', Inr resp)"
  obtains code v a where "tq_code req = Some code" "tq_code_verifier req = Some v" "store_codes K st code = Some a"
    "checks_pass sha E req v a" "store_ok K st'" "same_rest st st'" "store_clients K st' = store_clients K st"
    "store_codes K st' = (store_codes K st)(code := None)"
    "store_tokens K st' = (store_tokens K st)(generate_id sha (re_seeds E 0) \<mapsto> token_record sha (st_config st) E a)"
    "resp = \<lparr>tr_access_token = generate_id sha (re_seeds E 0), tr_token_type = ''Bearer'', tr_expires_in = cf_token_ttl (st_config st), tr_scope = ac_scope a\<rparr>"
proof -
  from assms(2) obtain code v b a b' where req: "tq_code req = Some code" "tq_code_verifier req = Some v"
    and pop: "take_code K (re_faults E 0) code (st_backend st) = (b, Inr (Some a))"
    and ok: "checks_pass sha E req v a"
    and save: "save_token K (re_faults E 1) (token_record sha (st_config st) E a) b = (b', Inr ())"
    and st': "st' = set_backend st b'"
    and resp: "resp = \<lparr>tr_access_token = generate_id sha (re_seeds E 0), tr_token_type = ''Bearer'', tr_expires_in = cf_token_ttl (st_config st), tr_scope = ac_scope a\<rparr>"
    by (auto simp: token_def Let_def token_record_def checks_pass_def not_less split: if_splits prod.splits sum.splits option.splits)
  note p = backend.pop_code [OF assms(1) pop]
  then have "storage_ok K b" by simp
  note q = backend.put_token [OF this save]
  have "at_token (token_record sha (st_config st) E a) = generate_id sha (re_seeds E 0)" by (simp add: token_record_def)
  with p q st' show ?thesis by (intro that [OF req _ ok _ _ _ _ _ resp]) (auto simp: same_rest_def)
qed

lemma token_failure:
  assumes "store_ok K st" and "token sha K E req st = (st', Inl n)"
  shows "store_ok K st' \<and> same_rest st st' \<and> store_clients K st' = store_clients K st \<and> store_tokens K st' = store_tokens K st
    \<and> (\<forall>i a. store_codes K st' i = Some a \<longrightarrow> store_codes K st i = Some a)"
proof -
  consider "st' = st"
    | f code b q where "take_code K f code (st_backend st) = (b, q)" "st' = set_backend st b"
    | f code b q t b' e where "take_code K f code (st_backend st) = (b, q)" "save_token K (re_faults E 1) t b = (b', Inl e)" "st' = set_backend st b'"
  proof (cases "tq_grant_type req = ''authorization_code'' \<and> tq_code req \<noteq> None \<and> tq_code_verifier req \<noteq> None")
    case False
    with assms(2) show ?thesis by (intro that(1)) (auto simp: token_def split: if_splits option.splits)
  next
    case True
    then obtain code v where req: "tq_grant_type req = ''authorization_code''" "tq_code req = Some code" "tq_code_verifier req = Some v" by auto
    obtain b q where pop: "take_code K (re_faults E 0) code (st_backend st) = (b, q)" by fastforce
    show ?thesis
    proof (cases "st' = set_backend st b")
      case True
      with pop that(2) show ?thesis by blast
    next
      case False
      with assms(2) pop obtain t b' e where "save_token K (re_faults E 1) t b = (b', Inl e)" "st' = set_backend st b'"
        by (simp add: token_def req Let_def split: if_splits prod.splits sum.splits option.splits)
      with pop that(3) show ?thesis by blast
    qed
  qed
  then show ?thesis
  proof cases
    case 1
    then show ?thesis using assms(1) by (simp add: same_rest_def)
  next
    case 2
    with backend.pop_code [OF assms(1) 2(1)] show ?thesis by (auto simp: same_rest_def split: if_splits)
  next
    case 3
    note p = backend.pop_code [OF assms(1) 3(1)]
    then have "storage_ok K b" by simp
    from backend.put_token [OF this 3(2)] p 3(3) show ?thesis by (auto simp: same_rest_def split: if_splits)
  qed
qed

section \<open>The history invariant\<close>

definition issued_in :: "(string \<Rightarrow> string) \<Rightarrow> oauth_config \<Rightarrow> auth_event list \<Rightarrow> access_token \<Rightarrow> bool" where
  "issued_in sha cfg h t \<longleftrightarrow>
     (\<exists>pre E req resp post. h = pre @ (E, Token req, Issued (Inr resp)) # post \<and> justified sha cfg pre E req resp (at_client_id t)
        \<and> at_token t = tr_access_token resp \<and> at_scope t = tr_scope resp \<and> at_expires_at t = add_u64 (re_clock E 1) (cf_token_ttl cfg))"

definition history_ok :: "(string \<Rightarrow> string) \<Rightarrow> oauth_codecs \<Rightarrow> oauth_config \<Rightarrow> auth_event list \<Rightarrow> oauth_store \<Rightarrow> bool" where
  "history_ok sha K cfg h st \<longleftrightarrow>
     store_ok K st \<and> st_config st = cfg
     \<and> (\<forall>i c uri. store_clients K st i = Some c \<longrightarrow> uri \<in> set (rc_redirect_uris c) \<longrightarrow> registered_in h i uri)
     \<and> (\<forall>i a. store_codes K st i = Some a \<longrightarrow>
          (\<exists>E q ch. open_grant sha h i E q \<and> aq_code_challenge q = Some ch \<and> a = code_record sha cfg E q ch))
     \<and> (\<forall>i t. store_tokens K st i = Some t \<longrightarrow> at_token t = i \<and> issued_in sha cfg h t)"

lemma registered_in_mono: "registered_in h i uri \<Longrightarrow> registered_in (h @ [e]) i uri"
  by (auto simp: registered_in_def)

lemma open_grant_mono: "open_grant sha h code E q \<Longrightarrow> \<not> exchanged code e \<Longrightarrow> open_grant sha (h @ [e]) code E q"
proof -
  assume "open_grant sha h code E q" and e: "\<not> exchanged code e"
  then obtain pre loc post where "h = pre @ (E, Authorize q, Redirected (Inr loc)) # post" "code = generate_id sha (re_seeds E 0)"
    "registered_in pre (aq_client_id q) (aq_redirect_uri q)" "\<forall>e \<in> set post. \<not> exchanged code e"
    unfolding open_grant_def by blast
  with e show ?thesis unfolding open_grant_def by (intro exI [of _ pre] exI [of _ loc] exI [of _ "post @ [e]"]) auto
qed

lemma issued_in_mono: "issued_in sha cfg h t \<Longrightarrow> issued_in sha cfg (h @ [e]) t"
  unfolding issued_in_def by (metis append.assoc append_Cons)

lemma history_okI:
  assumes "store_ok K st" and "st_config st = cfg"
    and "\<And>i c uri. store_clients K st i = Some c \<Longrightarrow> uri \<in> set (rc_redirect_uris c) \<Longrightarrow> registered_in h i uri"
    and "\<And>i a. store_codes K st i = Some a \<Longrightarrow> \<exists>E q ch. open_grant sha h i E q \<and> aq_code_challenge q = Some ch \<and> a = code_record sha cfg E q ch"
    and "\<And>i t. store_tokens K st i = Some t \<Longrightarrow> at_token t = i \<and> issued_in sha cfg h t"
  shows "history_ok sha K cfg h st"
  unfolding history_ok_def using assms by blast

lemma history_okD:
  assumes "history_ok sha K cfg h st"
  shows "store_ok K st" "st_config st = cfg"
    "store_clients K st i = Some c \<Longrightarrow> uri \<in> set (rc_redirect_uris c) \<Longrightarrow> registered_in h i uri"
    "store_codes K st i = Some a \<Longrightarrow> \<exists>E q ch. open_grant sha h i E q \<and> aq_code_challenge q = Some ch \<and> a = code_record sha cfg E q ch"
    "store_tokens K st i = Some t \<Longrightarrow> at_token t = i \<and> issued_in sha cfg h t"
  using assms unfolding history_ok_def by blast+

lemma history_ok_keep:
  assumes "history_ok sha K cfg h st" and "store_ok K st'" and "same_rest st st'" and "store_clients K st' = store_clients K st"
    and "store_tokens K st' = store_tokens K st" and "\<And>i a. store_codes K st' i = Some a \<Longrightarrow> store_codes K st i = Some a \<and> \<not> exchanged i e"
  shows "history_ok sha K cfg (h @ [e]) st'"
proof (rule history_okI)
  fix i a assume "store_codes K st' i = Some a"
  with assms(6) have "store_codes K st i = Some a" "\<not> exchanged i e" by blast+
  then show "\<exists>E q ch. open_grant sha (h @ [e]) i E q \<and> aq_code_challenge q = Some ch \<and> a = code_record sha cfg E q ch"
    using history_okD(4) [OF assms(1)] open_grant_mono by meson
next
  show "registered_in (h @ [e]) i uri" if "store_clients K st' i = Some c" "uri \<in> set (rc_redirect_uris c)" for i c uri
    using history_okD(3) [OF assms(1)] that assms(4) registered_in_mono by metis
  show "at_token t = i \<and> issued_in sha cfg (h @ [e]) t" if "store_tokens K st' i = Some t" for i t
    using history_okD(5) [OF assms(1)] that assms(5) issued_in_mono by metis
qed (use assms(2,3) history_okD(2) [OF assms(1)] in \<open>auto simp: same_rest_def\<close>)

lemma history_register:
  assumes "history_ok sha K cfg h st" and "register_client sha K E req st = (st', r)"
  shows "history_ok sha K cfg (h @ [(E, Register req, Registered r)]) st'"
proof (cases r)
  case (Inl n)
  with register_effect [OF _ assms(2)] assms(1) show ?thesis
    by (intro history_ok_keep [OF assms(1)]) (auto simp: history_ok_def)
next
  case (Inr rr)
  let ?e = "(E, Register req, Registered r)"
  from register_effect [OF _ assms(2)] assms(1) Inr obtain c
    where c: "store_ok K st'" "same_rest st st'" "store_codes K st' = store_codes K st" "store_tokens K st' = store_tokens K st"
      "store_clients K st' = (store_clients K st)(rr_client_id rr \<mapsto> c)" "rc_redirect_uris c = rq_redirect_uris req"
    by (auto simp: history_ok_def)
  have new: "registered_in (h @ [?e]) (rr_client_id rr) uri" if "uri \<in> set (rc_redirect_uris c)" for uri
    using that c(6) Inr by (auto simp: registered_in_def)
  show ?thesis
  proof (rule history_okI)
    show "registered_in (h @ [?e]) i uri" if "store_clients K st' i = Some c'" "uri \<in> set (rc_redirect_uris c')" for i c' uri
      using that new c(5) history_okD(3) [OF assms(1)] registered_in_mono by (auto split: if_splits)
    show "\<exists>E' q ch. open_grant sha (h @ [?e]) i E' q \<and> aq_code_challenge q = Some ch \<and> a = code_record sha cfg E' q ch"
      if "store_codes K st' i = Some a" for i a
      using history_okD(4) [OF assms(1)] that c(3) open_grant_mono [of sha h i _ _ ?e] by (metis exchanged.simps(2))
    show "at_token t = i \<and> issued_in sha cfg (h @ [?e]) t" if "store_tokens K st' i = Some t" for i t
      using history_okD(5) [OF assms(1)] that c(4) issued_in_mono by metis
  qed (use c(1,2) history_okD(2) [OF assms(1)] in \<open>auto simp: same_rest_def\<close>)
qed

lemma history_authorize:
  assumes "history_ok sha K cfg h st" and "authorize sha K E q st = (st', r)"
  shows "history_ok sha K cfg (h @ [(E, Authorize q, Redirected r)]) st'"
proof (cases r)
  case (Inl n)
  with authorize_effect [OF _ assms(2)] assms(1) show ?thesis
    by (intro history_ok_keep [OF assms(1)]) (auto simp: history_ok_def)
next
  case (Inr loc)
  let ?e = "(E, Authorize q, Redirected r)" and ?i = "generate_id sha (re_seeds E 0)"
  from authorize_effect [OF _ assms(2)] assms(1) Inr obtain ch c
    where c: "store_ok K st'" "same_rest st st'" "store_clients K st' = store_clients K st" "store_tokens K st' = store_tokens K st"
      "aq_code_challenge q = Some ch" "store_clients K st (aq_client_id q) = Some c" "aq_redirect_uri q \<in> set (rc_redirect_uris c)"
      "store_codes K st' = (store_codes K st)(?i \<mapsto> code_record sha cfg E q ch)"
    by (auto simp: history_ok_def)
  have "registered_in h (aq_client_id q) (aq_redirect_uri q)" using assms(1) c(6,7) by (simp add: history_ok_def)
  then have new: "open_grant sha (h @ [?e]) ?i E q"
    unfolding open_grant_def using Inr by (intro exI [of _ h] exI [of _ loc] exI [of _ "[]"]) simp
  have cod: "\<exists>E' q' ch'. open_grant sha (h @ [?e]) i E' q' \<and> aq_code_challenge q' = Some ch' \<and> a = code_record sha cfg E' q' ch'"
    if "store_codes K st' i = Some a" for i a
  proof (cases "i = ?i")
    case True
    with that new c(5,8) show ?thesis by auto
  next
    case False
    with that c(8) have "store_codes K st i = Some a" by simp
    with history_okD(4) [OF assms(1)] open_grant_mono [of sha h i _ _ ?e] show ?thesis by (metis exchanged.simps(3))
  qed
  show ?thesis
  proof (rule history_okI)
    show "registered_in (h @ [?e]) i uri" if "store_clients K st' i = Some c'" "uri \<in> set (rc_redirect_uris c')" for i c' uri
      using history_okD(3) [OF assms(1)] that c(3) registered_in_mono by metis
    show "at_token t = i \<and> issued_in sha cfg (h @ [?e]) t" if "store_tokens K st' i = Some t" for i t
      using history_okD(5) [OF assms(1)] that c(4) issued_in_mono by metis
  qed (use c(1,2) cod history_okD(2) [OF assms(1)] in \<open>auto simp: same_rest_def\<close>)
qed

lemma token_justified:
  assumes "history_ok sha K cfg h st" and "token sha K E req st = (st', Inr resp)" and "store_codes K st code = Some a"
    and "tq_code req = Some code" "tq_code_verifier req = Some v" "checks_pass sha E req v a" "tr_scope resp = ac_scope a"
  shows "justified sha cfg h E req resp (ac_client_id a)"
proof -
  from assms(1,3) obtain E' q ch where g: "open_grant sha h code E' q" "aq_code_challenge q = Some ch" "a = code_record sha cfg E' q ch"
    unfolding history_ok_def by blast
  then show ?thesis
    unfolding justified_def using assms(4-7)
    by (intro exI [of _ code] exI [of _ v] exI [of _ E'] exI [of _ q]) (auto simp: checks_pass_def code_record_def)
qed

lemma history_token:
  assumes "history_ok sha K cfg h st" and "token sha K E req st = (st', r)"
  shows "history_ok sha K cfg (h @ [(E, Token req, Issued r)]) st'"
proof (cases r)
  case (Inl n)
  with token_failure [of K st sha E req st' n] assms show ?thesis
    by (intro history_ok_keep [OF assms(1)]) (auto simp: history_ok_def)
next
  case (Inr resp)
  let ?e = "(E, Token req, Issued r)" and ?i = "generate_id sha (re_seeds E 0)"
  have ok: "store_ok K st" "st_config st = cfg" using assms(1) by (auto simp: history_ok_def)
  from assms(2) have tk: "token sha K E req st = (st', Inr resp)" by (simp add: Inr)
  from token_success [OF ok(1) tk] obtain code v a
    where req: "tq_code req = Some code" "tq_code_verifier req = Some v" "store_codes K st code = Some a" "checks_pass sha E req v a"
      and st': "store_ok K st'" "same_rest st st'" "store_clients K st' = store_clients K st"
        "store_codes K st' = (store_codes K st)(code := None)"
        "store_tokens K st' = (store_tokens K st)(?i \<mapsto> token_record sha cfg E a)"
      and resp: "tr_access_token resp = ?i" "tr_scope resp = ac_scope a"
    using ok(2) by (metis token_response.select_convs(1,4))
  note j = token_justified [OF assms(1) tk req(3,1,2,4) resp(2)]
  have new: "issued_in sha cfg (h @ [?e]) (token_record sha cfg E a)"
    unfolding issued_in_def using j resp Inr
    by (intro exI [of _ h] exI [of _ E] exI [of _ req] exI [of _ resp] exI [of _ "[]"]) (simp add: token_record_def)
  have tok: "at_token t = i \<and> issued_in sha cfg (h @ [?e]) t" if "store_tokens K st' i = Some t" for i t
    using that st'(5) new assms(1) issued_in_mono [of sha cfg h t ?e]
    by (auto simp: history_ok_def token_record_def split: if_splits)
  have cod: "\<exists>E' q ch. open_grant sha (h @ [?e]) i E' q \<and> aq_code_challenge q = Some ch \<and> a' = code_record sha cfg E' q ch"
    if "store_codes K st' i = Some a'" for i a'
  proof -
    have i: "i \<noteq> code" "store_codes K st i = Some a'" using that st'(4) by (auto split: if_splits)
    then have "\<not> exchanged i ?e" using req(1) Inr by simp
    with history_okD(4) [OF assms(1) i(2)] open_grant_mono [of sha h i _ _ ?e] show ?thesis by metis
  qed
  show ?thesis
  proof (rule history_okI)
    show "registered_in (h @ [?e]) i uri" if "store_clients K st' i = Some c'" "uri \<in> set (rc_redirect_uris c')" for i c' uri
      using history_okD(3) [OF assms(1)] that st'(3) registered_in_mono by metis
  qed (use st'(1,2) tok cod ok(2) in \<open>auto simp: same_rest_def\<close>)
qed

lemma history_serve:
  assumes "history_ok sha K cfg h st" and "serve sha K E r st = (st', p)"
  shows "history_ok sha K cfg (h @ [(E, r, p)]) st'"
proof (cases r)
  case (Register req)
  then show ?thesis using assms history_register by (cases "register_client sha K E req st") auto
next
  case (Authorize q)
  then show ?thesis using assms history_authorize by (cases "authorize sha K E q st") auto
next
  case (Token req)
  then show ?thesis using assms history_token by (cases "token sha K E req st") auto
qed (use assms history_okD(1) [OF assms(1)] in \<open>auto intro!: history_ok_keep [OF assms(1)] simp: same_rest_def\<close>)

lemma history_all:
  "history_ok sha K cfg h st \<Longrightarrow> serve_all sha K rs st = (st', h') \<Longrightarrow> history_ok sha K cfg (h @ h') st'"
proof (induction rs arbitrary: h h' st)
  case (Cons er rs)
  obtain E r where er: "er = (E, r)" by (cases er)
  obtain st1 p where 1: "serve sha K E r st = (st1, p)" by fastforce
  obtain h1 where 2: "serve_all sha K rs st1 = (st', h1)" "h' = (E, r, p) # h1"
    using Cons.prems(2) by (auto simp: er 1 split: prod.splits)
  from Cons.IH [OF history_serve [OF Cons.prems(1) 1] 2(1)] show ?case by (simp add: 2(2))
qed simp

lemma serve_all_append:
  "serve_all sha K (rs @ rs') st = (let (st1, h) = serve_all sha K rs st; (st2, h') = serve_all sha K rs' st1 in (st2, h @ h'))"
  by (induction rs arbitrary: st) (auto split: prod.splits)

lemma serve_all_length: "serve_all sha K rs st = (st', h) \<Longrightarrow> map (\<lambda>(E, r, p). (E, r)) h = rs"
  by (induction rs arbitrary: st h) (auto split: prod.splits)

text \<open>The state an event of a run was served in.\<close>

lemma event_served:
  assumes "serve_all sha K rs st = (st', pre @ (E, r, p) # post)"
  obtains st1 st2 rs1 where "serve_all sha K rs1 st = (st1, pre)" "serve sha K E r st1 = (st2, p)"
proof -
  have "\<exists>st1 st2 rs1. serve_all sha K rs1 st = (st1, pre) \<and> serve sha K E r st1 = (st2, p)"
    using assms
  proof (induction pre arbitrary: rs st)
    case Nil
    then obtain rs2 st2 where "rs = (E, r) # rs2" "serve sha K E r st = (st2, p)" by (cases rs) (auto split: prod.splits)
    then show ?case by (intro exI [of _ st] exI [of _ st2] exI [of _ "[]"]) simp
  next
    case (Cons e pre)
    then obtain E0 r0 rs0 where rs: "rs = (E0, r0) # rs0" by (cases rs) auto
    obtain s1 p0 where 1: "serve sha K E0 r0 st = (s1, p0)" by fastforce
    from Cons.prems have e: "e = (E0, r0, p0)" "serve_all sha K rs0 s1 = (st', pre @ (E, r, p) # post)" by (auto simp: rs 1 split: prod.splits)
    from Cons.IH [OF e(2)] obtain st1 st2 rs1 where "serve_all sha K rs1 s1 = (st1, pre)" "serve sha K E r st1 = (st2, p)" by blast
    then show ?case by (intro exI [of _ st1] exI [of _ st2] exI [of _ "(E0, r0) # rs1"]) (simp add: 1 e(1))
  qed
  with that show thesis by blast
qed

lemma empty_history:
  assumes "codecs_ok K" and "empty_backend (st_backend st)"
  shows "history_ok sha K (st_config st) [] st"
  using assms
  by (auto simp: history_ok_def empty_backend_def storage_ok_def db_ok_def readable_def ensure_schema_def memory_new_def
      clients_of_def codes_of_def tokens_of_def)

section \<open>Theorems\<close>

text \<open>
  C7. A token is issued for an open grant only: when, in any run of the server on any back-end,
  with any storage failures, the token endpoint answers with a token, then an authorization request
  before it was granted the code it names, for a client registered before with that redirect
  URI; the verifier hashes to the challenge of that request, the code has not expired and was
  not exchanged since, client, redirect URI and scope are those of the request.
\<close>

theorem token_only_for_open_grant:
  assumes "codecs_ok K" and "empty_backend (st_backend st)"
    and "serve_all sha K rs st = (st', pre @ (E, Token req, Issued (Inr resp)) # post)"
  shows "\<exists>client. justified sha (st_config st) pre E req resp client"
proof -
  from assms(3) obtain st1 st2 rs1 where 1: "serve_all sha K rs1 st = (st1, pre)" "serve sha K E (Token req) st1 = (st2, Issued (Inr resp))"
    by (rule event_served)
  have h: "history_ok sha K (st_config st) pre st1" using history_all [OF empty_history [OF assms(1,2)] 1(1)] by simp
  from 1(2) have tk: "token sha K E req st1 = (st2, Inr resp)" by (cases "token sha K E req st1") auto
  from token_success [OF history_okD(1) [OF h] tk] obtain code v a
    where "tq_code req = Some code" "tq_code_verifier req = Some v" "store_codes K st1 code = Some a" "checks_pass sha E req v a"
      "tr_scope resp = ac_scope a" by (metis token_response.select_convs(4))
  with token_justified [OF h tk] show ?thesis by blast
qed

text \<open>The OAuth path of the middleware, in terms of the stored tokens.\<close>

lemma validate_token_stored:
  assumes "store_ok K st" and "validate_token K now f st tok = Some client"
  shows "\<exists>t. store_tokens K st tok = Some t \<and> at_client_id t = client \<and> now \<le> at_expires_at t"
proof -
  from assms(2) obtain t where "get_token K f tok (st_backend st) = Inr (Some t)" "at_client_id t = client" "now \<le> at_expires_at t"
    by (auto simp: validate_token_def split: sum.splits option.splits if_splits)
  with backend.look_token [OF assms(1) this(1)] show ?thesis by metis
qed

lemma validate_scope_stored:
  assumes "store_ok K st" and "validate_token_with_scope K now f st tok sc = Some client"
  shows "\<exists>t. store_tokens K st tok = Some t \<and> at_client_id t = client \<and> now \<le> at_expires_at t
    \<and> sc \<in> set (split_whitespace (at_scope t))"
proof -
  from assms(2) obtain t where "get_token K f tok (st_backend st) = Inr (Some t)" "at_client_id t = client"
    "now \<le> at_expires_at t" "sc \<in> set (split_whitespace (at_scope t))"
    by (auto simp: validate_token_with_scope_def split: sum.splits option.splits if_splits)
  with backend.look_token [OF assms(1) this(1)] show ?thesis by metis
qed

lemma tenant_subject [simp]: "tn_subject (tenant_from_oauth_subject st client) = client"
  by (auto simp: tenant_from_oauth_subject_def tenant_local_def split: option.splits sum.splits)

lemma bearer_header: "extract_bearer header = Some tok \<Longrightarrow> header = Some (''Bearer '' @ tok)"
proof -
  assume "extract_bearer header = Some tok"
  then obtain raw where raw: "header = Some raw" "take 7 raw = ''Bearer ''" "tok = drop 7 raw"
    by (auto simp: extract_bearer_def header_text_def split: option.splits bind_splits if_splits)
  with append_take_drop_id [of 7 raw] show ?thesis by simp
qed

text \<open>The two ways in: an API key the installed resolver accepts, or a stored token.\<close>

definition key_admits :: "oauth_store \<Rightarrow> string option \<Rightarrow> string \<Rightarrow> tenant \<Rightarrow> bool" where
  "key_admits st required tok tn \<longleftrightarrow>
     (\<exists>resolve key. st_api_key_resolver st = Some resolve \<and> resolve tok = Inr (Some key)
        \<and> tn = \<lparr>tn_subject = rk_subject key, tn_org_id = rk_org_id key, tn_plan = parse_plan_id (rk_plan_id key)\<rparr>
        \<and> (case required of None \<Rightarrow> True | Some needed \<Rightarrow> needed \<in> set (split_whitespace (rk_scopes key))))"

lemma resolve_api_key_admits: "resolve_api_key st tok required = Some tn \<Longrightarrow> key_admits st required tok tn"
  by (auto simp: resolve_api_key_def key_admits_def split: option.splits sum.splits if_splits)

fun required_scope :: "request \<Rightarrow> string option" where
  "required_scope (ScopedAccess sc header) = Some sc"
| "required_scope r = None"

text \<open>The scope middleware looks the token up twice; the second reading of the clock decides.\<close>

fun deciding_clock :: "request_env \<Rightarrow> request \<Rightarrow> nat" where
  "deciding_clock E (ScopedAccess sc header) = re_clock E 1"
| "deciding_clock E r = re_clock E 0"

lemma admitted_stored:
  assumes "store_ok K st" and "serve sha K E r st = (st', Admitted (Inr tn))"
    and "r = Access header \<or> r = ScopedAccess sc header"
  shows "\<exists>tok. header = Some (''Bearer '' @ tok) \<and> (key_admits st (required_scope r) tok tn \<or>
    (\<exists>t. store_tokens K st tok = Some t \<and> tn_subject tn = at_client_id t
      \<and> deciding_clock E r \<le> at_expires_at t \<and> (r = Access header \<or> sc \<in> set (split_whitespace (at_scope t)))))"
  using assms(3)
proof
  assume r: "r = Access header"
  with assms(2) obtain tok where tok: "extract_bearer header = Some tok" "resolve_tenant K (re_clock E 0) (re_faults E 0) st tok = Some tn"
    by (auto simp: validate_token_middleware_def split: option.splits)
  show ?thesis
  proof (cases "validate_token K (re_clock E 0) (re_faults E 0) st tok")
    case (Some client)
    with tok have "tn_subject tn = client" by (auto simp: resolve_tenant_def)
    with validate_token_stored [OF assms(1) Some] bearer_header [OF tok(1)] r show ?thesis by auto
  qed (use tok r bearer_header resolve_api_key_admits in \<open>fastforce simp: resolve_tenant_def\<close>)
next
  assume r: "r = ScopedAccess sc header"
  with assms(2) obtain tok where tok: "extract_bearer header = Some tok"
    "resolve_tenant_with_scope K (re_clock E 1) (re_faults E 1) st tok sc = Some tn"
    by (auto simp: validate_scope_middleware_def split: option.splits if_splits)
  show ?thesis
  proof (cases "validate_token_with_scope K (re_clock E 1) (re_faults E 1) st tok sc")
    case (Some client)
    with tok have "tn_subject tn = client" by (auto simp: resolve_tenant_with_scope_def)
    with validate_scope_stored [OF assms(1) Some] bearer_header [OF tok(1)] r show ?thesis by auto
  qed (use tok r bearer_header resolve_api_key_admits in \<open>fastforce simp: resolve_tenant_with_scope_def\<close>)
qed

lemma serve_same_rest:
  assumes "store_ok K st" and "serve sha K E r st = (st', p)"
  shows "store_ok K st' \<and> same_rest st st'"
proof (cases r)
  case (Register req)
  then show ?thesis using assms(2) register_effect [OF assms(1)] by (cases "register_client sha K E req st") auto
next
  case (Authorize q)
  then show ?thesis using assms(2) authorize_effect [OF assms(1)] by (cases "authorize sha K E q st") auto
next
  case (Token req)
  then obtain q where q: "token sha K E req st = (st', q)" using assms(2) by (cases "token sha K E req st") auto
  show ?thesis
  proof (cases q)
    case (Inl n)
    with q token_failure [OF assms(1)] show ?thesis by simp
  next
    case (Inr resp)
    with token_success [OF assms(1)] q show ?thesis by metis
  qed
qed (use assms in \<open>auto simp: same_rest_def\<close>)

lemma serve_all_same_rest: "store_ok K st \<Longrightarrow> serve_all sha K rs st = (st', h) \<Longrightarrow> same_rest st st'"
proof (induction rs arbitrary: st h)
  case (Cons er rs)
  obtain E r where er: "er = (E, r)" by (cases er)
  obtain st1 p where 1: "serve sha K E r st = (st1, p)" by fastforce
  from Cons.prems(2) obtain h1 where "serve_all sha K rs st1 = (st', h1)" by (auto simp: er 1 split: prod.splits)
  with Cons.IH serve_same_rest [OF Cons.prems(1) 1] show ?case by (fastforce simp: same_rest_def)
qed (simp add: same_rest_def)

text \<open>
  C8. Nobody gets in without a credential. Requests are served one after the other from an empty store, with any storage
  faults, and the codecs round-trip. A request the middleware lets through carries a bearer credential, and either
  the API-key resolver of the deployment, if one is installed, accepted it for the tenant the request is attributed to,
  with the required scope entry behind the scope middleware; or it is a token that was issued before in the run for an
  open grant of the client the request is attributed to, that has not expired when it is checked and, behind the scope
  middleware, whose scope has the required entry.
\<close>

theorem access_only_with_issued_token:
  assumes "codecs_ok K" and "empty_backend (st_backend st)"
    and "serve_all sha K rs st = (st', pre @ (E, r, Admitted (Inr tn)) # post)"
    and "r = Access header \<or> r = ScopedAccess sc header"
  shows "\<exists>tok. header = Some (''Bearer '' @ tok) \<and>
    (key_admits st (required_scope r) tok tn \<or>
     (\<exists>pre1 E' req resp pre2. pre = pre1 @ (E', Token req, Issued (Inr resp)) # pre2
       \<and> tok = tr_access_token resp \<and> justified sha (st_config st) pre1 E' req resp (tn_subject tn)
       \<and> deciding_clock E r \<le> add_u64 (re_clock E' 1) (cf_token_ttl (st_config st))
       \<and> (r = Access header \<or> sc \<in> set (split_whitespace (tr_scope resp)))))"
proof -
  from assms(3) obtain st1 st2 rs1 where 1: "serve_all sha K rs1 st = (st1, pre)" "serve sha K E r st1 = (st2, Admitted (Inr tn))"
    by (rule event_served)
  note start = empty_history [OF assms(1,2)]
  have h: "history_ok sha K (st_config st) pre st1" using history_all [OF start 1(1)] by simp
  have "st_api_key_resolver st1 = st_api_key_resolver st"
    using serve_all_same_rest [OF history_okD(1) [OF start] 1(1)] by (simp add: same_rest_def)
  then have keys: "key_admits st1 = key_admits st" by (simp add: key_admits_def fun_eq_iff)
  from admitted_stored [OF history_okD(1) [OF h] 1(2) assms(4)] obtain tok
    where tok: "header = Some (''Bearer '' @ tok)"
      "key_admits st (required_scope r) tok tn \<or> (\<exists>t. store_tokens K st1 tok = Some t \<and> tn_subject tn = at_client_id t
        \<and> deciding_clock E r \<le> at_expires_at t \<and> (r = Access header \<or> sc \<in> set (split_whitespace (at_scope t))))"
    unfolding keys by blast
  show ?thesis
  proof (cases "key_admits st (required_scope r) tok tn")
    case False
    with tok(2) obtain t where t: "store_tokens K st1 tok = Some t" "tn_subject tn = at_client_id t"
      "deciding_clock E r \<le> at_expires_at t" "r = Access header \<or> sc \<in> set (split_whitespace (at_scope t))" by blast
    from history_okD(5) [OF h t(1)] have "at_token t = tok" "issued_in sha (st_config st) pre t" by auto
    with t tok(1) show ?thesis unfolding issued_in_def by metis
  qed (use tok(1) in blast)
qed

section \<open>Without faults\<close>

definition calm :: "request_env \<Rightarrow> bool" where
  "calm E \<longleftrightarrow> (\<forall>k. re_faults E k = no_faults)"

definition same_view :: "oauth_codecs \<Rightarrow> oauth_store \<Rightarrow> oauth_store \<Rightarrow> bool" where
  "same_view K st st' \<longleftrightarrow> store_ok K st \<and> store_ok K st' \<and> same_rest st st' \<and> store_clients K st' = store_clients K st
     \<and> store_codes K st' = store_codes K st \<and> store_tokens K st' = store_tokens K st"

lemma put_client_view:
  assumes "same_view K st st'"
  obtains b b' where "save_client K no_faults c (st_backend st) = (b, Inr ())" "save_client K no_faults c (st_backend st') = (b', Inr ())"
    "same_view K (set_backend st b) (set_backend st' b')"
proof -
  have ok: "store_ok K st" "store_ok K st'" using assms by (simp_all add: same_view_def)
  from backend.put_now(1) [OF ok(1), of c] backend.put_now(1) [OF ok(2), of c] obtain b b'
    where b: "save_client K no_faults c (st_backend st) = (b, Inr ())" "save_client K no_faults c (st_backend st') = (b', Inr ())" by blast
  from backend.put_client [OF ok(1) b(1)] backend.put_client [OF ok(2) b(2)] assms b that show thesis
    by (simp add: same_view_def same_rest_def)
qed

lemma put_code_view:
  assumes "same_view K st st'"
  obtains b b' where "save_code K no_faults c (st_backend st) = (b, Inr ())" "save_code K no_faults c (st_backend st') = (b', Inr ())"
    "same_view K (set_backend st b) (set_backend st' b')"
proof -
  have ok: "store_ok K st" "store_ok K st'" using assms by (simp_all add: same_view_def)
  from backend.put_now(2) [OF ok(1), of c] backend.put_now(2) [OF ok(2), of c] obtain b b'
    where b: "save_code K no_faults c (st_backend st) = (b, Inr ())" "save_code K no_faults c (st_backend st') = (b', Inr ())" by blast
  from backend.put_code [OF ok(1) b(1)] backend.put_code [OF ok(2) b(2)] assms b that show thesis
    by (simp add: same_view_def same_rest_def)
qed

lemma put_token_view:
  assumes "same_view K st st'"
  obtains b b' where "save_token K no_faults t (st_backend st) = (b, Inr ())" "save_token K no_faults t (st_backend st') = (b', Inr ())"
    "same_view K (set_backend st b) (set_backend st' b')"
proof -
  have ok: "store_ok K st" "store_ok K st'" using assms by (simp_all add: same_view_def)
  from backend.put_now(3) [OF ok(1), of t] backend.put_now(3) [OF ok(2), of t] obtain b b'
    where b: "save_token K no_faults t (st_backend st) = (b, Inr ())" "save_token K no_faults t (st_backend st') = (b', Inr ())" by blast
  from backend.put_token [OF ok(1) b(1)] backend.put_token [OF ok(2) b(2)] assms b that show thesis
    by (simp add: same_view_def same_rest_def)
qed

lemma pop_code_view:
  assumes "same_view K st st'"
  obtains b b' where "take_code K no_faults c (st_backend st) = (b, Inr (store_codes K st c))"
    "take_code K no_faults c (st_backend st') = (b', Inr (store_codes K st c))" "same_view K (set_backend st b) (set_backend st' b')"
proof -
  have ok: "store_ok K st" "store_ok K st'" using assms by (simp_all add: same_view_def)
  obtain b where b: "take_code K no_faults c (st_backend st) = (b, Inr (store_codes K st c))" by (rule backend.pop_code_now [OF ok(1)])
  obtain b' where b': "take_code K no_faults c (st_backend st') = (b', Inr (store_codes K st' c))" by (rule backend.pop_code_now [OF ok(2)])
  from backend.pop_code [OF ok(1) b] backend.pop_code [OF ok(2) b'] assms b b' that show thesis
    by (simp add: same_view_def same_rest_def)
qed

definition client_record :: "(string \<Rightarrow> string) \<Rightarrow> oauth_config \<Rightarrow> request_env \<Rightarrow> registration_request \<Rightarrow> registered_client" where
  "client_record sha cfg E req =
     \<lparr>rc_client_id = generate_id sha (re_seeds E 0),
      rc_client_secret = (if (case rq_token_endpoint_auth_method req of None \<Rightarrow> ''none'' | Some m \<Rightarrow> m) = ''none'' then None
        else Some (generate_id sha (re_seeds E 1))),
      rc_redirect_uris = rq_redirect_uris req, rc_client_name = rq_client_name req,
      rc_scope = (case rq_scope req of Some s \<Rightarrow> s | None \<Rightarrow> join '' '' (cf_scopes_supported cfg)), rc_registered_at = re_clock E 0\<rparr>"

lemma register_view:
  assumes "same_view K st st'" and "calm E"
  shows "\<exists>s s' r. register_client sha K E req st = (s, r) \<and> register_client sha K E req st' = (s', r) \<and> same_view K s s'"
proof (cases "rq_redirect_uris req = []")
  case True
  then show ?thesis using assms(1) by (simp add: register_client_def)
next
  case False
  have cfg: "st_config st' = st_config st" using assms(1) by (simp add: same_view_def same_rest_def)
  obtain b b' where b: "save_client K no_faults (client_record sha (st_config st) E req) (st_backend st) = (b, Inr ())"
    "save_client K no_faults (client_record sha (st_config st) E req) (st_backend st') = (b', Inr ())"
    "same_view K (set_backend st b) (set_backend st' b')"
    by (rule put_client_view [OF assms(1)])
  show ?thesis
    using b False assms(2) by (cases "rq_scope req") (simp_all add: register_client_def Let_def cfg calm_def client_record_def)
qed

lemma authorize_view:
  assumes "same_view K st st'" and "calm E"
  shows "\<exists>s s' r. authorize sha K E q st = (s, r) \<and> authorize sha K E q st' = (s', r) \<and> same_view K s s'"
proof -
  have ok: "store_ok K st" "store_ok K st'" and cfg: "st_config st' = st_config st" and cl: "store_clients K st' = store_clients K st"
    using assms(1) by (simp_all add: same_view_def same_rest_def)
  have f: "re_faults E k = no_faults" for k using assms(2) by (simp add: calm_def)
  note look = backend.look_client_now [OF ok(1)] backend.look_client_now [OF ok(2)]
  show ?thesis
  proof (cases "aq_response_type q = ''code'' \<and> (\<exists>c ch. store_clients K st (aq_client_id q) = Some c \<and> aq_redirect_uri q \<in> set (rc_redirect_uris c)
      \<and> aq_code_challenge q = Some ch \<and> (case aq_code_challenge_method q of None \<Rightarrow> ''S256'' | Some m \<Rightarrow> m) = ''S256'')")
    case False
    then have "\<exists>e. authorize sha K E q st = (st, Inl e) \<and> authorize sha K E q st' = (st', Inl e)"
      by (cases "aq_code_challenge q"; cases "store_clients K st (aq_client_id q)") (auto simp: authorize_def f look cl Let_def)
    then show ?thesis using assms(1) by blast
  next
    case True
    then obtain c ch where c: "aq_response_type q = ''code''" "store_clients K st (aq_client_id q) = Some c"
      "aq_redirect_uri q \<in> set (rc_redirect_uris c)" "aq_code_challenge q = Some ch"
      "(case aq_code_challenge_method q of None \<Rightarrow> ''S256'' | Some m \<Rightarrow> m) = ''S256''" by blast
    obtain b b' where "save_code K no_faults (code_record sha (st_config st) E q ch) (st_backend st) = (b, Inr ())"
      "save_code K no_faults (code_record sha (st_config st) E q ch) (st_backend st') = (b', Inr ())"
      "same_view K (set_backend st b) (set_backend st' b')"
      by (rule put_code_view [OF assms(1)])
    then show ?thesis by (simp add: authorize_def f look cl cfg c Let_def code_record_def)
  qed
qed

lemma token_view:
  assumes "same_view K st st'" and "calm E"
  shows "\<exists>s s' r. token sha K E req st = (s, r) \<and> token sha K E req st' = (s', r) \<and> same_view K s s'"
proof -
  have cfg: "st_config st' = st_config st" using assms(1) by (simp add: same_view_def same_rest_def)
  have f: "re_faults E k = no_faults" for k using assms(2) by (simp add: calm_def)
  show ?thesis
  proof (cases "tq_grant_type req = ''authorization_code'' \<and> (\<exists>code v. tq_code req = Some code \<and> tq_code_verifier req = Some v)")
    case False
    then have "token sha K E req st = (st, Inl 400) \<and> token sha K E req st' = (st', Inl 400)"
      by (auto simp: token_def split: option.splits)
    then show ?thesis using assms(1) by blast
  next
    case True
    then obtain code v where req: "tq_grant_type req = ''authorization_code''" "tq_code req = Some code" "tq_code_verifier req = Some v" by blast
    obtain b b' where b: "take_code K no_faults code (st_backend st) = (b, Inr (store_codes K st code))"
      "take_code K no_faults code (st_backend st') = (b', Inr (store_codes K st code))" "same_view K (set_backend st b) (set_backend st' b')"
      by (rule pop_code_view [OF assms(1)])
    show ?thesis
    proof (cases "\<exists>a. store_codes K st code = Some a \<and> checks_pass sha E req v a")
      case False
      then have "token sha K E req st = (set_backend st b, Inl 400) \<and> token sha K E req st' = (set_backend st' b', Inl 400)"
        by (cases "store_codes K st code") (auto simp: token_def req f b Let_def checks_pass_def not_less split: option.splits)
      then show ?thesis using b(3) by blast
    next
      case True
      then obtain a where a: "store_codes K st code = Some a" "checks_pass sha E req v a" by blast
      obtain c c' where c: "save_token K no_faults (token_record sha (st_config st) E a) b = (c, Inr ())"
        "save_token K no_faults (token_record sha (st_config st) E a) b' = (c', Inr ())"
        "same_view K (set_backend (set_backend st b) c) (set_backend (set_backend st' b') c')"
        using put_token_view [OF b(3), of "token_record sha (st_config st) E a"] by auto
      then have "token sha K E req st = (set_backend st c, Inr \<lparr>tr_access_token = generate_id sha (re_seeds E 0), tr_token_type = ''Bearer'',
            tr_expires_in = cf_token_ttl (st_config st), tr_scope = ac_scope a\<rparr>)
          \<and> token sha K E req st' = (set_backend st' c', Inr \<lparr>tr_access_token = generate_id sha (re_seeds E 0), tr_token_type = ''Bearer'',
            tr_expires_in = cf_token_ttl (st_config st), tr_scope = ac_scope a\<rparr>)"
        using a by (auto simp: token_def req f b cfg Let_def checks_pass_def token_record_def split: option.splits)
      moreover have "same_view K (set_backend st c) (set_backend st' c')" using c(3) by (simp add: set_backend_def)
      ultimately show ?thesis by blast
    qed
  qed
qed

lemma validate_view:
  assumes "same_view K st st'"
  shows "validate_token K now no_faults st' tok = validate_token K now no_faults st tok"
    "validate_token_with_scope K now no_faults st' tok sc = validate_token_with_scope K now no_faults st tok sc"
    "tenant_from_oauth_subject st' client = tenant_from_oauth_subject st client"
    "resolve_api_key st' tok need = resolve_api_key st tok need"
  using assms backend.look_token_now
  by (simp_all add: validate_token_def validate_token_with_scope_def tenant_from_oauth_subject_def resolve_api_key_def same_view_def same_rest_def)

lemma resolve_view:
  assumes "same_view K st st'"
  shows "resolve_tenant K now no_faults st' tok = resolve_tenant K now no_faults st tok"
    "resolve_tenant_with_scope K now no_faults st' tok sc = resolve_tenant_with_scope K now no_faults st tok sc"
  unfolding resolve_tenant_def resolve_tenant_with_scope_def validate_view [OF assms] by (rule refl)+

lemma middleware_view:
  assumes "same_view K st st'" and "calm E"
  shows "validate_token_middleware K E header st' = validate_token_middleware K E header st"
    "validate_scope_middleware K E sc header st' = validate_scope_middleware K E sc header st"
proof -
  have f: "re_faults E k = no_faults" for k using assms(2) by (simp add: calm_def)
  have cfg: "st_config st' = st_config st" using assms(1) by (simp add: same_view_def same_rest_def)
  show "validate_token_middleware K E header st' = validate_token_middleware K E header st"
    "validate_scope_middleware K E sc header st' = validate_scope_middleware K E sc header st"
    unfolding validate_token_middleware_def validate_scope_middleware_def f cfg resolve_view [OF assms(1)] by (rule refl)+
qed

lemma serve_view:
  assumes "same_view K st st'" and "calm E"
  shows "\<exists>s s' p. serve sha K E r st = (s, p) \<and> serve sha K E r st' = (s', p) \<and> same_view K s s'"
proof (cases r)
  case (Register req)
  then show ?thesis using register_view [OF assms, of sha req] by auto
next
  case (Authorize q)
  then show ?thesis using authorize_view [OF assms, of sha q] by auto
next
  case (Token req)
  then show ?thesis using token_view [OF assms, of sha req] by auto
next
  case (Access header)
  then show ?thesis using assms middleware_view [OF assms] by simp
next
  case (ScopedAccess sc header)
  then show ?thesis using assms middleware_view [OF assms] by simp
qed

lemma serve_all_view:
  assumes "same_view K st st'" and "\<forall>(E, r) \<in> set rs. calm E"
  shows "snd (serve_all sha K rs st) = snd (serve_all sha K rs st')"
  using assms
proof (induction rs arbitrary: st st')
  case (Cons er rs)
  obtain E r where er: "er = (E, r)" by (cases er)
  with serve_view [OF Cons.prems(1), of E sha r] Cons.prems(2) obtain s s' p
    where 1: "serve sha K E r st = (s, p)" "serve sha K E r st' = (s', p)" "same_view K s s'" by auto
  from Cons.IH [OF 1(3)] Cons.prems(2) show ?case by (auto simp: er 1 split: prod.splits)
qed simp

lemma empty_same_view:
  assumes "codecs_ok K" and "empty_backend b" and "empty_backend b'"
  shows "same_view K (set_backend st b) (set_backend st b')"
  using assms
  by (auto simp: same_view_def same_rest_def empty_backend_def storage_ok_def db_ok_def readable_def ensure_schema_def memory_new_def
      clients_of_def codes_of_def tokens_of_def fun_eq_iff)

text \<open>
  C38. The back-ends are interchangeable: over any sequence of requests without storage faults, the
  server answers alike on the in-memory, SQLite and Postgres back-ends.
\<close>

theorem backends_answer_alike:
  assumes "codecs_ok K" and "empty_backend b" and "empty_backend b'" and "\<forall>(E, r) \<in> set rs. calm E"
  shows "snd (serve_all sha K rs (set_backend st b)) = snd (serve_all sha K rs (set_backend st b'))"
  using serve_all_view [OF empty_same_view [OF assms(1-3)] assms(4)] .

lemma register_calm:
  assumes "store_ok K st" and "calm E" and "rq_redirect_uris reg \<noteq> []"
  obtains st1 rr where "register_client sha K E reg st = (st1, Inr rr)" "rr_client_id rr = generate_id sha (re_seeds E 0)"
    "store_ok K st1" "same_rest st st1" "store_clients K st1 (generate_id sha (re_seeds E 0)) = Some (client_record sha (st_config st) E reg)"
proof -
  obtain b where b: "save_client K no_faults (client_record sha (st_config st) E reg) (st_backend st) = (b, Inr ())"
    using backend.put_now(1) [OF assms(1)] by blast
  have "\<exists>rr. register_client sha K E reg st = (set_backend st b, Inr rr) \<and> rr_client_id rr = generate_id sha (re_seeds E 0)"
    using b assms(2,3) by (simp add: register_client_def Let_def calm_def client_record_def)
  moreover have "rc_client_id (client_record sha (st_config st) E reg) = generate_id sha (re_seeds E 0)" by (simp add: client_record_def)
  ultimately show thesis using backend.put_client [OF assms(1) b] that by (auto simp: same_rest_def)
qed

lemma authorize_calm:
  assumes "store_ok K st" and "calm E" and "aq_response_type q = ''code''" and "store_clients K st (aq_client_id q) = Some c"
    and "aq_redirect_uri q \<in> set (rc_redirect_uris c)" and "aq_code_challenge q = Some ch" and "aq_code_challenge_method q \<in> {None, Some ''S256''}"
  obtains st1 loc where "authorize sha K E q st = (st1, Inr loc)" "store_ok K st1" "same_rest st st1"
    "store_codes K st1 (generate_id sha (re_seeds E 0)) = Some (code_record sha (st_config st) E q ch)"
proof -
  obtain b where b: "save_code K no_faults (code_record sha (st_config st) E q ch) (st_backend st) = (b, Inr ())"
    using backend.put_now(2) [OF assms(1)] by blast
  have f: "re_faults E k = no_faults" for k using assms(2) by (simp add: calm_def)
  have "\<exists>loc. authorize sha K E q st = (set_backend st b, Inr loc)"
    using b assms(3-7) backend.look_client_now [OF assms(1)] by (auto simp: authorize_def Let_def f code_record_def)
  moreover have "ac_code (code_record sha (st_config st) E q ch) = generate_id sha (re_seeds E 0)" by (simp add: code_record_def)
  ultimately show thesis using backend.put_code [OF assms(1) b] that by (auto simp: same_rest_def)
qed

lemma token_calm:
  assumes "store_ok K st" and "calm E" and "tq_grant_type req = ''authorization_code''" and "tq_code req = Some code"
    and "tq_code_verifier req = Some v" and "store_codes K st code = Some a" and "checks_pass sha E req v a"
  obtains st1 resp where "token sha K E req st = (st1, Inr resp)" "tr_access_token resp = generate_id sha (re_seeds E 0)" "tr_scope resp = ac_scope a"
    "store_ok K st1" "same_rest st st1" "store_tokens K st1 (generate_id sha (re_seeds E 0)) = Some (token_record sha (st_config st) E a)"
proof -
  have f: "re_faults E k = no_faults" for k using assms(2) by (simp add: calm_def)
  obtain b where b: "take_code K no_faults code (st_backend st) = (b, Inr (Some a))"
    using backend.pop_code_now [OF assms(1), of code] assms(6) by metis
  have okb: "storage_ok K b" using backend.pop_code [OF assms(1) b] by simp
  obtain c where c: "save_token K no_faults (token_record sha (st_config st) E a) b = (c, Inr ())" using backend.put_now(3) [OF okb] by blast
  have "\<exists>resp. token sha K E req st = (set_backend st c, Inr resp) \<and> tr_access_token resp = generate_id sha (re_seeds E 0) \<and> tr_scope resp = ac_scope a"
    using c assms(3-7) by (auto simp: token_def f b Let_def checks_pass_def token_record_def split: option.splits)
  moreover have "at_token (token_record sha (st_config st) E a) = generate_id sha (re_seeds E 0)" by (simp add: token_record_def)
  ultimately show thesis using backend.put_token [OF okb c] that by (auto simp: same_rest_def)
qed

lemma visible_id: "header_text (''Bearer '' @ generate_id sha seed) = Some (''Bearer '' @ generate_id sha seed)"
proof -
  have "list_all (\<lambda>c. (32 \<le> (of_char c :: nat) \<and> (of_char c :: nat) < 127) \<or> of_char c = (9 :: nat)) ALPHABET"
    by (simp add: ALPHABET_def)
  then have "list_all (\<lambda>c. (32 \<le> (of_char c :: nat) \<and> (of_char c :: nat) < 127) \<or> of_char c = (9 :: nat)) (generate_id sha seed)"
    using encode_alphabet unfolding generate_id_def Let_def list_all_iff by blast
  then show ?thesis by (simp add: header_text_def)
qed

lemma flow_run:
  assumes "storage_ok K (st_backend st)" and "calm E1" "calm E2" "calm E3" "calm E4"
    and "uri \<in> set (rq_redirect_uris reg)"
    and "aq_response_type q = ''code''" "aq_client_id q = generate_id sha (re_seeds E1 0)" "aq_redirect_uri q = uri"
      "aq_code_challenge q = Some (base64_url_encode (sha secret))" "aq_code_challenge_method q \<in> {None, Some ''S256''}"
    and "tq_grant_type req = ''authorization_code''" "tq_code req = Some (generate_id sha (re_seeds E2 0))"
      "tq_code_verifier req = Some secret" "tq_client_id req \<in> {None, Some (aq_client_id q)}" "tq_redirect_uri req \<in> {None, Some uri}"
    and "re_clock E3 0 \<le> add_u64 (re_clock E2 0) (cf_code_ttl (st_config st))"
    and "re_clock E4 0 \<le> add_u64 (re_clock E3 1) (cf_token_ttl (st_config st))"
  shows "\<exists>rr loc resp tn. snd (serve_all sha K [(E1, Register reg), (E2, Authorize q), (E3, Token req),
        (E4, Access (Some (''Bearer '' @ generate_id sha (re_seeds E3 0))))] st)
      = [(E1, Register reg, Registered (Inr rr)), (E2, Authorize q, Redirected (Inr loc)), (E3, Token req, Issued (Inr resp)),
         (E4, Access (Some (''Bearer '' @ tr_access_token resp)), Admitted (Inr tn))]
    \<and> tn_subject tn = rr_client_id rr \<and> tr_scope resp = (case aq_scope q of None \<Rightarrow> [] | Some sc \<Rightarrow> sc)"
proof -
  have ne: "rq_redirect_uris reg \<noteq> []" using assms(6) by auto
  obtain st1 rr where 1: "register_client sha K E1 reg st = (st1, Inr rr)" "rr_client_id rr = generate_id sha (re_seeds E1 0)"
    "store_ok K st1" "same_rest st st1" "store_clients K st1 (generate_id sha (re_seeds E1 0)) = Some (client_record sha (st_config st) E1 reg)"
    by (rule register_calm [OF assms(1,2) ne])
  obtain st2 loc where 2: "authorize sha K E2 q st1 = (st2, Inr loc)" "store_ok K st2" "same_rest st1 st2"
    "store_codes K st2 (generate_id sha (re_seeds E2 0)) = Some (code_record sha (st_config st1) E2 q (base64_url_encode (sha secret)))"
    by (rule authorize_calm [OF 1(3) assms(3,7) _ _ assms(10,11)]) (use assms(6,8,9) 1(5) in \<open>auto simp: client_record_def\<close>)
  let ?a = "code_record sha (st_config st1) E2 q (base64_url_encode (sha secret))"
  have pass: "checks_pass sha E3 req secret ?a"
    using assms(9,15-17) 1(4) by (auto simp: checks_pass_def code_record_def same_rest_def)
  obtain st3 resp where 3: "token sha K E3 req st2 = (st3, Inr resp)" "tr_access_token resp = generate_id sha (re_seeds E3 0)"
    "tr_scope resp = ac_scope ?a" "store_ok K st3" "same_rest st2 st3" "store_tokens K st3 (generate_id sha (re_seeds E3 0)) = Some (token_record sha (st_config st2) E3 ?a)"
    by (rule token_calm [OF 2(2) assms(4,12,13,14) 2(4) pass])
  have cfg: "st_config st2 = st_config st" using 1(4) 2(3) by (simp add: same_rest_def)
  have "validate_token K (re_clock E4 0) (re_faults E4 0) st3 (generate_id sha (re_seeds E3 0)) = Some (rr_client_id rr)"
    using backend.look_token_now [OF 3(4)] 3(6) assms(5,8,18) 1(2) cfg
    by (simp add: validate_token_def calm_def token_record_def code_record_def)
  then have "\<exists>tn. validate_token_middleware K E4 (Some (''Bearer '' @ generate_id sha (re_seeds E3 0))) st3 = Inr tn \<and> tn_subject tn = rr_client_id rr"
    using visible_id [of sha "re_seeds E3 0"] by (simp add: validate_token_middleware_def extract_bearer_def resolve_tenant_def)
  moreover have "tr_scope resp = (case aq_scope q of None \<Rightarrow> [] | Some sc \<Rightarrow> sc)" using 3(3) by (simp add: code_record_def)
  ultimately show ?thesis using 1 2 3 by auto
qed


text \<open>
  A client that follows the protocol gets in: without storage faults, registration with at
  least one redirect URI, an authorization request to one of them with the hash of a secret, the
  exchange of the code with that secret before it expires, and a request with the
  token before it expires are all answered positively, and the last is attributed to the client.
\<close>

theorem grant_flow_admits:
  assumes "storage_ok K (st_backend st)" and "calm E1" "calm E2" "calm E3" "calm E4"
    and "uri \<in> set (rq_redirect_uris reg)"
    and "aq_response_type q = ''code''" "aq_client_id q = generate_id sha (re_seeds E1 0)" "aq_redirect_uri q = uri"
      "aq_code_challenge q = Some (base64_url_encode (sha secret))" "aq_code_challenge_method q \<in> {None, Some ''S256''}"
    and "tq_grant_type req = ''authorization_code''" "tq_code req = Some (generate_id sha (re_seeds E2 0))"
      "tq_code_verifier req = Some secret" "tq_client_id req \<in> {None, Some (aq_client_id q)}" "tq_redirect_uri req \<in> {None, Some uri}"
    and "re_clock E3 0 \<le> add_u64 (re_clock E2 0) (cf_code_ttl (st_config st))"
    and "re_clock E4 0 \<le> add_u64 (re_clock E3 1) (cf_token_ttl (st_config st))"
  shows "\<exists>rr loc resp tn. snd (serve_all sha K [(E1, Register reg), (E2, Authorize q), (E3, Token req),
        (E4, Access (Some (''Bearer '' @ generate_id sha (re_seeds E3 0))))] st)
      = [(E1, Register reg, Registered (Inr rr)), (E2, Authorize q, Redirected (Inr loc)), (E3, Token req, Issued (Inr resp)),
         (E4, Access (Some (''Bearer '' @ tr_access_token resp)), Admitted (Inr tn))]
    \<and> tn_subject tn = rr_client_id rr \<and> tr_scope resp = (case aq_scope q of None \<Rightarrow> [] | Some sc \<Rightarrow> sc)"
  using flow_run [OF assms] .

section \<open>Concrete runs\<close>

definition demo_env :: "nat \<Rightarrow> request_env" where
  "demo_env n = \<lparr>re_clock = (\<lambda>_. n), re_seeds = (\<lambda>k. (n, k)), re_faults = (\<lambda>_. no_faults)\<rparr>"

definition demo_registration :: registration_request where
  "demo_registration =
     \<lparr>rq_redirect_uris = [''http://a/cb''], rq_client_name = None, rq_scope = Some ''ministr:read'', rq_token_endpoint_auth_method = None\<rparr>"

definition demo_query :: authorize_query where
  "demo_query =
     \<lparr>aq_response_type = ''code'', aq_client_id = generate_id (\<lambda>s. s) (re_seeds (demo_env 1) 0), aq_redirect_uri = ''http://a/cb'',
      aq_scope = Some ''ministr:bundle:write'', aq_state = None, aq_code_challenge = Some (base64_url_encode ''secret''),
      aq_code_challenge_method = None\<rparr>"

definition demo_exchange :: token_request where
  "demo_exchange =
     \<lparr>tq_grant_type = ''authorization_code'', tq_code = Some (generate_id (\<lambda>s. s) (re_seeds (demo_env 2) 0)), tq_redirect_uri = None,
      tq_client_id = None, tq_code_verifier = Some ''secret''\<rparr>"

definition demo_header :: "string option" where
  "demo_header = Some (''Bearer '' @ generate_id (\<lambda>s. s) (re_seeds (demo_env 3) 0))"

definition demo_requests :: "(request_env \<times> request) list" where
  "demo_requests =
     [(demo_env 1, Register demo_registration), (demo_env 2, Authorize demo_query), (demo_env 3, Token demo_exchange),
      (demo_env 4, Access demo_header)]"

abbreviation demo_store :: oauth_store where
  "demo_store \<equiv> set_backend (store_new oauth_config_default) (Sqlite ensure_schema)"

lemma demo_ok: "storage_ok netstring_codecs (st_backend demo_store)" "empty_backend (st_backend demo_store)" "calm (demo_env n)"
proof -
  show "empty_backend (st_backend demo_store)" by (simp add: empty_backend_def)
  from history_okD(1) [OF empty_history [OF netstring_codecs_ok this]] show "storage_ok netstring_codecs (st_backend demo_store)" .
  show "calm (demo_env n)" by (simp add: calm_def demo_env_def)
qed

lemma demo_times: "re_clock (demo_env 3) 0 \<le> add_u64 (re_clock (demo_env 2) 0) (cf_code_ttl (st_config demo_store))"
  "re_clock (demo_env 4) 0 \<le> add_u64 (re_clock (demo_env 3) 1) (cf_token_ttl (st_config demo_store))"
  by (simp_all add: demo_env_def store_new_def oauth_config_default_def add_u64_exact u64_max_def)

lemmas demo_flow = flow_run [OF demo_ok(1) demo_ok(3) demo_ok(3) demo_ok(3) demo_ok(3), of "''http://a/cb''" demo_registration demo_query
    "\<lambda>s. s" 1 "''secret''" demo_exchange 2 3 4]

lemma demo_q:
  "aq_response_type demo_query = ''code''" "aq_client_id demo_query = generate_id (\<lambda>s. s) (re_seeds (demo_env 1) 0)"
  "aq_redirect_uri demo_query = ''http://a/cb''" "aq_code_challenge demo_query = Some (base64_url_encode ''secret'')"
  "aq_code_challenge_method demo_query \<in> {None, Some ''S256''}" "aq_scope demo_query = Some ''ministr:bundle:write''"
  by (simp_all add: demo_query_def)

lemma demo_t:
  "tq_grant_type demo_exchange = ''authorization_code''" "tq_code demo_exchange = Some (generate_id (\<lambda>s. s) (re_seeds (demo_env 2) 0))"
  "tq_code_verifier demo_exchange = Some ''secret''" "tq_client_id demo_exchange \<in> {None, Some (aq_client_id demo_query)}"
  "tq_redirect_uri demo_exchange \<in> {None, Some ''http://a/cb''}"
  by (simp_all add: demo_exchange_def)

lemma demo_uri: "''http://a/cb'' \<in> set (rq_redirect_uris demo_registration)"
  by (simp add: demo_registration_def)

lemma snd_pair: "snd p = y \<Longrightarrow> p = (fst p, y)"
  by auto

lemma demo_run:
  "\<exists>rr loc resp tn. snd (serve_all (\<lambda>s. s) netstring_codecs demo_requests demo_store)
      = [(demo_env 1, Register demo_registration, Registered (Inr rr)), (demo_env 2, Authorize demo_query, Redirected (Inr loc)),
         (demo_env 3, Token demo_exchange, Issued (Inr resp)), (demo_env 4, Access demo_header, Admitted (Inr tn))]
    \<and> tn_subject tn = rr_client_id rr \<and> tr_scope resp = ''ministr:bundle:write''"
proof -
  from demo_flow [OF demo_uri demo_q(1-5) demo_t demo_times] obtain rr loc resp tn
    where run: "snd (serve_all (\<lambda>s. s) netstring_codecs demo_requests demo_store)
      = [(demo_env 1, Register demo_registration, Registered (Inr rr)), (demo_env 2, Authorize demo_query, Redirected (Inr loc)),
         (demo_env 3, Token demo_exchange, Issued (Inr resp)), (demo_env 4, Access (Some (''Bearer '' @ tr_access_token resp)), Admitted (Inr tn))]"
      and sub: "tn_subject tn = rr_client_id rr" and sc: "tr_scope resp = ''ministr:bundle:write''"
    unfolding demo_requests_def demo_header_def demo_q(6) option.case by blast
  have "map (\<lambda>(E, r, p). (E, r)) (snd (serve_all (\<lambda>s. s) netstring_codecs demo_requests demo_store)) = demo_requests"
    by (rule serve_all_length [OF surjective_pairing])
  then have "Some (''Bearer '' @ tr_access_token resp) = demo_header" unfolding run by (simp add: demo_requests_def)
  note h = this
  show ?thesis using run sub sc unfolding h by blast
qed

theorem token_only_for_open_grant_witness:
  "\<exists>pre resp client. justified (\<lambda>s. s) oauth_config_default pre (demo_env 3) demo_exchange resp client \<and> tr_scope resp = ''ministr:bundle:write''"
proof -
  from demo_run obtain rr loc resp tn
    where run: "snd (serve_all (\<lambda>s. s) netstring_codecs demo_requests demo_store)
      = [(demo_env 1, Register demo_registration, Registered (Inr rr)), (demo_env 2, Authorize demo_query, Redirected (Inr loc))]
         @ (demo_env 3, Token demo_exchange, Issued (Inr resp)) # [(demo_env 4, Access demo_header, Admitted (Inr tn))]"
      and sc: "tr_scope resp = ''ministr:bundle:write''" by auto
  have cfg: "st_config demo_store = oauth_config_default" by (simp add: store_new_def)
  from token_only_for_open_grant [OF netstring_codecs_ok demo_ok(2) run [THEN snd_pair]] sc show ?thesis unfolding cfg by blast
qed

theorem access_only_with_issued_token_witness:
  "\<exists>pre E' req resp. \<exists>tn :: tenant. justified (\<lambda>s. s) oauth_config_default pre E' req resp (tn_subject tn)
     \<and> demo_header = Some (''Bearer '' @ tr_access_token resp)"
proof -
  from demo_run obtain rr loc resp tn
    where run: "snd (serve_all (\<lambda>s. s) netstring_codecs demo_requests demo_store)
      = [(demo_env 1, Register demo_registration, Registered (Inr rr)), (demo_env 2, Authorize demo_query, Redirected (Inr loc)),
         (demo_env 3, Token demo_exchange, Issued (Inr resp))] @ (demo_env 4, Access demo_header, Admitted (Inr tn)) # []" by auto
  have cfg: "st_config demo_store = oauth_config_default" by (simp add: store_new_def)
  have key: "\<not> key_admits demo_store s tok tn" for s tok by (simp add: key_admits_def store_new_def)
  have r: "Access demo_header = Access demo_header \<or> Access demo_header = ScopedAccess [] demo_header" by simp
  from access_only_with_issued_token [OF netstring_codecs_ok demo_ok(2) run [THEN snd_pair] r]
  obtain pre1 E' req resp' where "demo_header = Some (''Bearer '' @ tr_access_token resp')"
    "justified (\<lambda>s. s) oauth_config_default pre1 E' req resp' (tn_subject tn)"
    unfolding cfg using key by blast
  then show ?thesis by (intro exI [of _ pre1] exI [of _ E'] exI [of _ req] exI [of _ resp'] exI [of _ tn]) simp
qed

theorem grant_flow_admits_witness:
  "\<exists>rr loc resp tn. snd (serve_all (\<lambda>s. s) netstring_codecs demo_requests demo_store)
      = [(demo_env 1, Register demo_registration, Registered (Inr rr)), (demo_env 2, Authorize demo_query, Redirected (Inr loc)),
         (demo_env 3, Token demo_exchange, Issued (Inr resp)), (demo_env 4, Access (Some (''Bearer '' @ tr_access_token resp)), Admitted (Inr tn))]
    \<and> tn_subject tn = rr_client_id rr"
  using grant_flow_admits [OF demo_ok(1) demo_ok(3) demo_ok(3) demo_ok(3) demo_ok(3) demo_uri demo_q(1-5) demo_t demo_times]
  unfolding demo_requests_def demo_header_def by blast

theorem backends_answer_alike_witness:
  "snd (serve_all (\<lambda>s. s) netstring_codecs demo_requests (set_backend demo_store (Postgres ensure_schema)))
     = snd (serve_all (\<lambda>s. s) netstring_codecs demo_requests (set_backend demo_store (InMemory memory_new)))"
proof -
  have "\<forall>(E, r) \<in> set demo_requests. calm E" using demo_ok(3) by (auto simp: demo_requests_def)
  from backends_answer_alike [OF netstring_codecs_ok _ _ this] show ?thesis by (simp add: empty_backend_def)
qed

text \<open>
  The scope a client registers for is stored but never compared with the scope it asks for: a client
  registered for reading is issued a token for writing bundles.
\<close>

lemma scope_beyond_registration:
  "rq_scope demo_registration = Some ''ministr:read''
   \<and> (\<exists>h resp. snd (serve_all (\<lambda>s. s) netstring_codecs demo_requests demo_store) = h
        \<and> (demo_env 3, Token demo_exchange, Issued (Inr resp)) \<in> set h \<and> tr_scope resp = ''ministr:bundle:write'')"
proof -
  from demo_run have "\<exists>resp. (demo_env 3, Token demo_exchange, Issued (Inr resp)) \<in> set (snd (serve_all (\<lambda>s. s) netstring_codecs demo_requests demo_store))
      \<and> tr_scope resp = ''ministr:bundle:write''" by (metis list.set_intros)
  then show ?thesis by (simp add: demo_registration_def)
qed

end
