(* ===== verification/Sql.thy ===== *)
theory Sql
  imports Prelude
begin

text \<open>
  The calls of the content store (\<open>ministr-core/src/storage/sqlite.rs\<close>). A call runs SQL
  statements one after the other on a pooled connection; the statement with number \<open>n\<close> of a call
  fails with a message of the driver when the fault argument says so, and a statement that
  violates a constraint fails by itself. A failed statement has no effect. Outside a transaction every
  statement is committed when it succeeds, so a call that fails in the middle keeps the effects of the
  statements before; inside a savepoint or transaction they are rolled back, unless the rollback itself
  fails. The database of the model is what the connection of the call sees after it: what has been
  committed, and after a failed \<open>RELEASE\<close>, which leaves the savepoint open on the connection, its
  changes too. A table is the list of its rows in the order of their row
  numbers: an inserted row goes to the end, \<open>INSERT OR REPLACE\<close> removes the row it conflicts
  with and inserts, \<open>ON CONFLICT DO UPDATE\<close> changes the row in place, a query without \<open>ORDER BY\<close> scans in
  this order and \<open>ORDER BY\<close> sorts stably.
\<close>

section \<open>Errors and faults\<close>

text \<open>\<open>StorageError\<close>, the variants the store produces.\<close>

datatype store_error = DatabaseError string | SerializationError

type_synonym sql_faults = "nat \<Rightarrow> string option"

definition no_faults :: sql_faults where
  "no_faults = (\<lambda>n. None)"

section \<open>Statements\<close>

text \<open>A piece of a call: from the number of the next statement and the database to both and a result.\<close>

type_synonym ('d, 'a) sql = "nat \<Rightarrow> 'd \<Rightarrow> nat \<times> 'd \<times> (store_error + 'a)"

definition sql_ret :: "'a \<Rightarrow> ('d, 'a) sql" where
  "sql_ret a = (\<lambda>n d. (n, d, Inr a))"

definition sql_raise :: "store_error \<Rightarrow> ('d, 'a) sql" where
  "sql_raise e = (\<lambda>n d. (n, d, Inl e))"

definition sql_then :: "('d, 'a) sql \<Rightarrow> ('a \<Rightarrow> ('d, 'b) sql) \<Rightarrow> ('d, 'b) sql" where
  "sql_then m k =
     (\<lambda>n d. case m n d of (n', d', r) \<Rightarrow> (case r of Inl e \<Rightarrow> (n', d', Inl e) | Inr a \<Rightarrow> k a n' d'))"

text \<open>One statement: its error text, given the driver's message, and its effect, a message or the new
  database and a result.\<close>

definition sql_exec :: "sql_faults \<Rightarrow> (string \<Rightarrow> string) \<Rightarrow> ('d \<Rightarrow> string + 'd \<times> 'a) \<Rightarrow> ('d, 'a) sql" where
  "sql_exec f what st =
     (\<lambda>n d. case f n of
        Some m \<Rightarrow> (Suc n, d, Inl (DatabaseError (what m)))
      | None \<Rightarrow>
          (case st d of
             Inl m \<Rightarrow> (Suc n, d, Inl (DatabaseError (what m)))
           | Inr (d', a) \<Rightarrow> (Suc n, d', Inr a)))"

text \<open>A statement that violates nothing, and a query.\<close>

definition sql_write :: "sql_faults \<Rightarrow> (string \<Rightarrow> string) \<Rightarrow> ('d \<Rightarrow> 'd) \<Rightarrow> ('d, unit) sql" where
  "sql_write f what upd = sql_exec f what (\<lambda>d. Inr (upd d, ()))"

definition sql_query :: "sql_faults \<Rightarrow> ('d \<Rightarrow> 'a) \<Rightarrow> ('d, 'a) sql" where
  "sql_query f q = sql_exec f (\<lambda>m. m) (\<lambda>d. Inr (d, q d))"

text \<open>\<open>conn.prepare\<close>, which can fail but does nothing.\<close>

definition sql_prepare :: "sql_faults \<Rightarrow> (string \<Rightarrow> string) \<Rightarrow> ('d, unit) sql" where
  "sql_prepare f what = sql_write f what (\<lambda>d. d)"

primrec sql_each :: "('r \<Rightarrow> ('d, unit) sql) \<Rightarrow> 'r list \<Rightarrow> ('d, unit) sql" where
  "sql_each st [] = sql_ret ()"
| "sql_each st (r # rs) = sql_then (st r) (\<lambda>_. sql_each st rs)"

text \<open>
  A savepoint written out, as \<open>insert_document\<close>, \<open>replace_corpus_merkle_nodes\<close> and \<open>save_session\<close>
  have it: \<open>SAVEPOINT\<close>, the body, then \<open>RELEASE\<close>. When \<open>RELEASE\<close> fails the call returns its error with
  the savepoint open. When the body fails, \<open>ROLLBACK TO\<close> and \<open>RELEASE\<close> are run and their results
  ignored: if the rollback fails, what the body did stays.
\<close>

definition sql_savepoint :: "sql_faults \<Rightarrow> string \<Rightarrow> ('d, 'a) sql \<Rightarrow> ('d, 'a) sql" where
  "sql_savepoint f release_err body =
     (\<lambda>n d. case f n of
        Some m \<Rightarrow> (Suc n, d, Inl (DatabaseError (''failed to begin savepoint: '' @ m)))
      | None \<Rightarrow>
          (case body (Suc n) d of (n', d', r) \<Rightarrow>
             (case r of
                Inl e \<Rightarrow> (Suc (Suc n'), if f n' = None then d else d', Inl e)
              | Inr a \<Rightarrow>
                  (case f n' of
                     Some m \<Rightarrow> (Suc n', d', Inl (DatabaseError (release_err @ m)))
                   | None \<Rightarrow> (Suc n', d', Inr a)))))"

text \<open>
  \<open>unchecked_transaction\<close>, the body and \<open>commit\<close>: a transaction dropped on an error of the body or of
  \<open>COMMIT\<close> is rolled back, and an error of the rollback is ignored.
\<close>

definition sql_transaction :: "sql_faults \<Rightarrow> ('d, 'a) sql \<Rightarrow> ('d, 'a) sql" where
  "sql_transaction f body =
     (\<lambda>n d. case f n of
        Some m \<Rightarrow> (Suc n, d, Inl (DatabaseError m))
      | None \<Rightarrow>
          (case body (Suc n) d of (n', d', r) \<Rightarrow>
             (case r of
                Inl e \<Rightarrow> (Suc n', if f n' = None then d else d', Inl e)
              | Inr a \<Rightarrow>
                  (case f n' of
                     Some m \<Rightarrow> (Suc (Suc n'), if f (Suc n') = None then d else d', Inl (DatabaseError m))
                   | None \<Rightarrow> (Suc n', d', Inr a)))))"

text \<open>\<open>with_conn\<close>: number 0 stands for the blocking task, which fails when it cannot be joined.\<close>

definition with_conn :: "sql_faults \<Rightarrow> ('d, 'a) sql \<Rightarrow> 'd \<Rightarrow> 'd \<times> (store_error + 'a)" where
  "with_conn f body d =
     (case f 0 of
        Some m \<Rightarrow> (d, Inl (DatabaseError (''spawn_blocking join error: '' @ m)))
      | None \<Rightarrow> (case body 1 d of (n, d', r) \<Rightarrow> (d', r)))"

section \<open>Rows\<close>

text \<open>\<open>INSERT OR REPLACE\<close> and \<open>ON CONFLICT DO UPDATE\<close> on the rows with the same key.\<close>

definition replace_row :: "('r \<Rightarrow> 'k) \<Rightarrow> 'r \<Rightarrow> 'r list \<Rightarrow> 'r list" where
  "replace_row key r t = filter (\<lambda>x. key x \<noteq> key r) t @ [r]"

definition upsert_row :: "('r \<Rightarrow> 'k) \<Rightarrow> ('r \<Rightarrow> 'r) \<Rightarrow> 'r \<Rightarrow> 'r list \<Rightarrow> 'r list" where
  "upsert_row key merge r t =
     (if \<exists>x \<in> set t. key x = key r then map (\<lambda>x. if key x = key r then merge x else x) t else t @ [r])"

definition unique_by :: "('r \<Rightarrow> 'k) \<Rightarrow> 'r list \<Rightarrow> bool" where
  "unique_by key t \<longleftrightarrow> distinct (map key t)"

definition descending :: "('r \<Rightarrow> 'k::linorder) \<Rightarrow> 'r list \<Rightarrow> 'r list" where
  "descending key t = rev (sort_key key (rev t))"

text \<open>A piece that succeeds did what it does without faults.\<close>

definition settles :: "('d, 'a) sql \<Rightarrow> ('d, 'a) sql \<Rightarrow> bool" where
  "settles m m0 \<longleftrightarrow> (\<forall>n d n' d' a. m n d = (n', d', Inr a) \<longrightarrow> m0 n d = (n', d', Inr a))"

text \<open>A piece of a call uses up statement numbers, and as long as none of those it uses fails it does what
  it does without faults.\<close>

definition tracks :: "sql_faults \<Rightarrow> ('d, 'a) sql \<Rightarrow> ('d, 'a) sql \<Rightarrow> bool" where
  "tracks f m m0 \<longleftrightarrow> (\<forall>n d n' d' r. m n d = (n', d', r) \<longrightarrow>
     n \<le> n' \<and> ((\<forall>i. n \<le> i \<and> i < n' \<longrightarrow> f i = None) \<longrightarrow> m0 n d = (n', d', r)))"

text \<open>At most one statement of the call fails.\<close>

definition single_fault :: "sql_faults \<Rightarrow> bool" where
  "single_fault f \<longleftrightarrow> (\<forall>i j. f i \<noteq> None \<and> f j \<noteq> None \<longrightarrow> i = j)"

section \<open>Laws of the combinators\<close>

named_theorems sql_simps \<open>unfolding of the combinators\<close>

lemmas [sql_simps] = sql_ret_def sql_raise_def sql_then_def sql_exec_def sql_write_def sql_query_def

lemma sql_exec_free [simp]:
  "f n = None \<Longrightarrow> sql_exec f what st n d =
     (case st d of Inl m \<Rightarrow> (Suc n, d, Inl (DatabaseError (what m))) | Inr (d', a) \<Rightarrow> (Suc n, d', Inr a))"
  by (simp add: sql_exec_def)

lemma sql_write_free [simp]: "f n = None \<Longrightarrow> sql_write f what upd n d = (Suc n, upd d, Inr ())"
  by (simp add: sql_write_def)

lemma sql_prepare_free [simp]: "f n = None \<Longrightarrow> sql_prepare f what n d = (Suc n, d, Inr ())"
  by (simp add: sql_prepare_def)

lemma sql_query_free [simp]: "f n = None \<Longrightarrow> sql_query f q n d = (Suc n, d, Inr (q d))"
  by (simp add: sql_query_def)

text \<open>What every statement of a call respects, the call respects: an invariant, a counter that only
  grows, a table that is left alone.\<close>

locale sql_relation =
  fixes R :: "'d \<Rightarrow> 'd \<Rightarrow> bool"
  assumes R_refl: "R d d"
    and R_trans: "R a b \<Longrightarrow> R b c \<Longrightarrow> R a c"
begin

definition keeps :: "('d, 'a) sql \<Rightarrow> bool" where
  "keeps m \<longleftrightarrow> (\<forall>n d. R d (fst (snd (m n d))))"

lemma keepsD: "keeps m \<Longrightarrow> m n d = (n', d', r) \<Longrightarrow> R d d'"
  unfolding keeps_def by (metis fst_conv snd_conv)

lemma keeps_ret: "keeps (sql_ret a)"
  by (simp add: keeps_def sql_ret_def R_refl)

lemma keeps_raise: "keeps (sql_raise e)"
  by (simp add: keeps_def sql_raise_def R_refl)

lemma keeps_exec:
  assumes "\<And>d d' a. st d = Inr (d', a) \<Longrightarrow> R d d'"
  shows "keeps (sql_exec f what st)"
  using assms by (auto simp: keeps_def sql_exec_def R_refl split: option.splits sum.splits)

lemma keeps_write:
  assumes "\<And>d. R d (upd d)"
  shows "keeps (sql_write f what upd)"
  unfolding sql_write_def using assms by (auto intro: keeps_exec)

lemma keeps_query: "keeps (sql_query f q)"
  unfolding sql_query_def by (rule keeps_exec) (simp add: R_refl)

lemma keeps_prepare: "keeps (sql_prepare f what)"
  unfolding sql_prepare_def by (rule keeps_write) (rule R_refl)

lemma keeps_then:
  assumes "keeps m" and "\<And>a. keeps (k a)"
  shows "keeps (sql_then m k)"
  unfolding keeps_def
proof (intro allI)
  fix n d
  obtain n' d' r where m: "m n d = (n', d', r)" by (metis prod_cases3)
  note d = keepsD [OF assms(1) m]
  show "R d (fst (snd (sql_then m k n d)))"
  proof (cases r)
    case (Inr a)
    obtain n2 d2 r2 where k: "k a n' d' = (n2, d2, r2)" by (metis prod_cases3)
    show ?thesis using d keepsD [OF assms(2) k] by (simp add: sql_then_def m Inr k R_trans [of d d' d2])
  qed (simp add: sql_then_def m d)
qed

lemma keeps_each: "(\<And>r. r \<in> set rs \<Longrightarrow> keeps (st r)) \<Longrightarrow> keeps (sql_each st rs)"
  by (induction rs) (simp_all add: keeps_ret keeps_then)

lemma keeps_savepoint: "keeps m \<Longrightarrow> keeps (sql_savepoint f c m)"
  by (auto simp: keeps_def sql_savepoint_def R_refl split: option.splits sum.splits prod.splits)
    (metis fst_conv snd_conv)+

lemma keeps_transaction: "keeps m \<Longrightarrow> keeps (sql_transaction f m)"
  by (auto simp: keeps_def sql_transaction_def R_refl split: option.splits sum.splits prod.splits)
    (metis fst_conv snd_conv)+

lemma with_conn_keeps: "keeps m \<Longrightarrow> R d (fst (with_conn f m d))"
  by (auto simp: keeps_def with_conn_def R_refl split: option.splits prod.splits) (metis fst_conv snd_conv)

lemmas keeps_intros = keeps_ret keeps_raise keeps_exec keeps_write keeps_query keeps_prepare
  keeps_then keeps_each keeps_savepoint keeps_transaction

end

text \<open>A call without faults.\<close>

lemma no_fault: "no_faults n = None"
  by (simp add: no_faults_def)

lemma with_conn_no_faults [simp]: "with_conn no_faults m d = snd (m 1 d)"
  by (simp add: with_conn_def no_fault split: prod.splits)

lemma sql_no_faults [simp]:
  "sql_exec no_faults what st n d =
     (case st d of Inl m \<Rightarrow> (Suc n, d, Inl (DatabaseError (what m))) | Inr (d', a) \<Rightarrow> (Suc n, d', Inr a))"
  "sql_write no_faults what upd n d = (Suc n, upd d, Inr ())"
  "sql_query no_faults q n d = (Suc n, d, Inr (q d))"
  "sql_prepare no_faults what n d = (Suc n, d, Inr ())"
  by (simp_all add: no_fault)

lemma with_conn_query [simp]: "with_conn no_faults (sql_query no_faults q) d = (d, Inr (q d))"
  by simp

lemma sql_savepoint_no_faults:
  "sql_savepoint no_faults c m n d =
     (case m (Suc n) d of (n', d', r) \<Rightarrow> (case r of Inl e \<Rightarrow> (Suc (Suc n'), d, Inl e) | Inr a \<Rightarrow> (Suc n', d', Inr a)))"
  by (simp add: sql_savepoint_def no_fault split: prod.splits sum.splits)

lemma sql_transaction_no_faults:
  "sql_transaction no_faults m n d =
     (case m (Suc n) d of (n', d', r) \<Rightarrow> (case r of Inl e \<Rightarrow> (Suc n', d, Inl e) | Inr a \<Rightarrow> (Suc n', d', Inr a)))"
  by (simp add: sql_transaction_def no_fault split: prod.splits sum.splits)

section \<open>Laws of rows\<close>

lemma set_replace_row: "set (replace_row key r t) = {x \<in> set t. key x \<noteq> key r} \<union> {r}"
  by (auto simp: replace_row_def)

lemma unique_by_replace: "unique_by key t \<Longrightarrow> unique_by key (replace_row key r t)"
  by (auto simp: unique_by_def replace_row_def distinct_map_filter)

lemma upsert_row_keys: "(\<And>x. key (merge x) = key x) \<Longrightarrow>
    map key (upsert_row key merge r t) = (if key r \<in> key ` set t then map key t else map key t @ [key r])"
  by (auto simp: upsert_row_def image_iff) metis

lemma unique_by_upsert: "(\<And>x. key (merge x) = key x) \<Longrightarrow> unique_by key t \<Longrightarrow> unique_by key (upsert_row key merge r t)"
  by (auto simp: unique_by_def upsert_row_keys [of key merge])

lemma unique_by_filter [intro]: "unique_by key t \<Longrightarrow> unique_by key (filter P t)"
  by (simp add: unique_by_def distinct_map_filter)

lemma unique_by_append:
  "unique_by key t \<Longrightarrow> key r \<notin> key ` set t \<Longrightarrow> unique_by key (t @ [r])"
  by (simp add: unique_by_def)

lemma unique_byD: "unique_by key t \<Longrightarrow> x \<in> set t \<Longrightarrow> y \<in> set t \<Longrightarrow> key x = key y \<Longrightarrow> x = y"
  by (auto simp: unique_by_def distinct_map dest: inj_onD)

lemma unique_by_inject: "unique_by g t \<Longrightarrow> (\<And>x y. key x = key y \<Longrightarrow> g x = g y) \<Longrightarrow> unique_by key t"
  unfolding unique_by_def distinct_map inj_on_def by metis

lemma unique_by_split:
  assumes "unique_by key t" and "x \<in> key ` set t"
  shows "x \<notin> key ` {y \<in> set t. P y} \<longleftrightarrow> x \<in> key ` {y \<in> set t. \<not> P y}"
  using assms unique_byD [OF assms(1)] by blast

lemma find_unique:
  assumes "unique_by key t" and "x \<in> set t"
  shows "find (\<lambda>y. key y = key x) t = Some x"
  using assms
proof (induction t)
  case (Cons y t)
  then show ?case by (cases "y = x") (auto simp: unique_by_def)
qed simp

lemma set_descending [simp]: "set (descending key t) = set t"
  by (simp add: descending_def)

lemma length_descending [simp]: "length (descending key t) = length t"
  by (simp add: descending_def)

lemma sorted_descending: "sorted (rev (map key (descending key t)))"
  by (simp add: descending_def rev_map)

section \<open>Runs without faults\<close>

lemma settlesD: "settles m m0 \<Longrightarrow> m n d = (n', d', Inr a) \<Longrightarrow> m0 n d = (n', d', Inr a)"
  by (simp add: settles_def)

named_theorems settles_intros \<open>the combinators under faults and without\<close>

lemma settles_refl [settles_intros]: "settles m m"
  by (simp add: settles_def)

lemma settles_exec [settles_intros]: "settles (sql_exec f what st) (sql_exec no_faults what st)"
  by (auto simp: settles_def sql_exec_def no_fault split: option.splits)

lemma settles_write [settles_intros]: "settles (sql_write f what upd) (sql_write no_faults what upd)"
  unfolding sql_write_def by (rule settles_exec)

lemma settles_prepare [settles_intros]: "settles (sql_prepare f what) (sql_prepare no_faults what)"
  unfolding sql_prepare_def by (rule settles_write)

lemma settles_query [settles_intros]: "settles (sql_query f q) (sql_query no_faults q)"
  unfolding sql_query_def by (rule settles_exec)

lemma settles_then [settles_intros]:
  "settles m m0 \<Longrightarrow> (\<And>a. settles (k a) (k0 a)) \<Longrightarrow> settles (sql_then m k) (sql_then m0 k0)"
  by (auto simp: settles_def sql_then_def split: prod.splits sum.splits)

lemma settles_each [settles_intros]: "(\<And>r. settles (st r) (st0 r)) \<Longrightarrow> settles (sql_each st rs) (sql_each st0 rs)"
  by (induction rs) (simp_all add: settles_refl settles_then)

lemma settles_savepoint [settles_intros]: "settles m m0 \<Longrightarrow> settles (sql_savepoint f c m) (sql_savepoint no_faults c m0)"
  by (auto simp: settles_def sql_savepoint_def no_fault split: option.splits prod.splits sum.splits)

lemma settles_transaction [settles_intros]: "settles m m0 \<Longrightarrow> settles (sql_transaction f m) (sql_transaction no_faults m0)"
  by (auto simp: settles_def sql_transaction_def no_fault split: option.splits prod.splits sum.splits)

lemma conn_settles: "settles m m0 \<Longrightarrow> with_conn f m d = (d', Inr a) \<Longrightarrow> with_conn no_faults m0 d = (d', Inr a)"
  by (auto simp: with_conn_def no_fault split: option.splits prod.splits dest: settlesD)

lemma sql_each_writes:
  "(\<And>r n d. st r n d = (Suc n, g r d, Inr ())) \<Longrightarrow> sql_each st rs n d = (n + length rs, fold g rs d, Inr ())"
  by (induction rs arbitrary: n d) (simp_all add: sql_ret_def sql_then_def)

section \<open>Runs with one fault\<close>

lemma tracksD:
  assumes "tracks f m m0" and "m n d = (n', d', r)"
  shows "n \<le> n'" and "(\<And>i. n \<le> i \<Longrightarrow> i < n' \<Longrightarrow> f i = None) \<Longrightarrow> m0 n d = (n', d', r)"
  using assms unfolding tracks_def by blast+

named_theorems tracks_intros \<open>the combinators and the statements they use up\<close>

lemma tracks_ret [tracks_intros]: "tracks f (sql_ret a) (sql_ret a)"
  by (auto simp: tracks_def sql_ret_def)

lemma tracks_raise [tracks_intros]: "tracks f (sql_raise e) (sql_raise e)"
  by (auto simp: tracks_def sql_raise_def)

lemma tracks_exec [tracks_intros]: "tracks f (sql_exec f what st) (sql_exec no_faults what st)"
  by (auto simp: tracks_def sql_exec_def no_fault split: option.splits sum.splits)

lemma tracks_write [tracks_intros]: "tracks f (sql_write f what upd) (sql_write no_faults what upd)"
  unfolding sql_write_def by (rule tracks_exec)

lemma tracks_prepare [tracks_intros]: "tracks f (sql_prepare f what) (sql_prepare no_faults what)"
  unfolding sql_prepare_def by (rule tracks_write)

lemma tracks_then [tracks_intros]:
  assumes "tracks f m m0" and "\<And>a. tracks f (k a) (k0 a)"
  shows "tracks f (sql_then m k) (sql_then m0 k0)"
  unfolding tracks_def
proof (intro allI impI)
  fix n d n' d' r
  assume run: "sql_then m k n d = (n', d', r)"
  obtain n1 d1 r1 where m: "m n d = (n1, d1, r1)" by (metis prod_cases3)
  note first = tracksD [OF assms(1) m]
  show "n \<le> n' \<and> ((\<forall>i. n \<le> i \<and> i < n' \<longrightarrow> f i = None) \<longrightarrow> sql_then m0 k0 n d = (n', d', r))"
  proof (cases r1)
    case (Inr a)
    then have k: "k a n1 d1 = (n', d', r)" using run m by (simp add: sql_then_def)
    note second = tracksD [OF assms(2) k]
    have "sql_then m0 k0 n d = (n', d', r)" if free: "\<forall>i. n \<le> i \<and> i < n' \<longrightarrow> f i = None"
    proof -
      have "m0 n d = (n1, d1, r1)" using free second(1) by (intro first(2)) simp
      moreover have "k0 a n1 d1 = (n', d', r)" using free first(1) by (intro second(2)) simp
      ultimately show ?thesis using Inr by (simp add: sql_then_def)
    qed
    then show ?thesis using first(1) second(1) by auto
  qed (use run m first in \<open>auto simp: sql_then_def\<close>)
qed

lemma tracks_each [tracks_intros]: "(\<And>r. tracks f (st r) (st0 r)) \<Longrightarrow> tracks f (sql_each st rs) (sql_each st0 rs)"
  by (induction rs) (simp_all add: tracks_ret tracks_then)

text \<open>
  The savepoint calls when at most one statement fails: a call that would succeed has all of its effect or
  none, and all of it when it reports success; a call that a constraint or a serializer stops leaves the
  database as it was when nothing else fails.
\<close>

lemma savepoint_all_or_nothing:
  assumes "settles m m0" and "tracks f m m0" and "single_fault f"
    and free: "with_conn no_faults (sql_savepoint no_faults c m0) d = (d0, r0)"
    and run: "with_conn f (sql_savepoint f c m) d = (d', r)"
  shows "case r0 of Inl e \<Rightarrow> d0 = d
    | Inr a \<Rightarrow> (case r of Inl e \<Rightarrow> d' = d \<or> d' = d0 \<and> (\<exists>msg. e = DatabaseError (c @ msg)) | Inr b \<Rightarrow> d' = d0 \<and> b = a)"
proof -
  obtain n1 d1 r1 where m0: "m0 2 d = (n1, d1, r1)" by (metis prod_cases3)
  have d0: "(d0, r0) = (case r1 of Inl e \<Rightarrow> (d, Inl e) | Inr a \<Rightarrow> (d1, Inr a))"
    using free m0 by (auto simp: sql_savepoint_no_faults numeral_2_eq_2 split: sum.splits)
  show ?thesis
  proof (cases "f 0 = None \<and> f 1 = None")
    case False
    then have "d' = d \<and> (\<exists>e. r = Inl e)" using run by (auto simp: with_conn_def sql_savepoint_def split: option.splits)
    then show ?thesis using d0 by (auto split: sum.splits)
  next
    case True
    obtain n2 d2 r2 where m: "m 2 d = (n2, d2, r2)" by (metis prod_cases3)
    have d': "(d', r) = (case r2 of Inl e \<Rightarrow> (if f n2 = None then d else d2, Inl e)
        | Inr a \<Rightarrow> (case f n2 of Some msg \<Rightarrow> (d2, Inl (DatabaseError (c @ msg))) | None \<Rightarrow> (d2, Inr a)))"
      using run m True by (auto simp: with_conn_def sql_savepoint_def numeral_2_eq_2 split: sum.splits option.splits)
    show ?thesis
    proof (cases r2)
      case (Inr a)
      then have "r1 = Inr a \<and> d1 = d2" using settlesD [OF assms(1)] m m0 by fastforce
      then show ?thesis using d0 d' Inr by (auto split: option.splits)
    next
      case (Inl e)
      have "f n2 = None" if "r1 = Inr a" for a
      proof -
        have "m0 2 d \<noteq> (n2, d2, r2)" using that m0 Inl by simp
        then obtain i where "i < n2" "f i \<noteq> None" using tracksD(2) [OF assms(2) m] by blast
        then show ?thesis using assms(3) unfolding single_fault_def by (metis nat_less_le)
      qed
      then show ?thesis using d0 d' Inl by (auto split: sum.splits)
    qed
  qed
qed

end
