(* ===== verification/Content_Store.thy ===== *)
theory Content_Store
  imports Sql Database Identity Float_Model
begin

text \<open>
  The content tables of \<open>SqliteStorage\<close> (\<open>ministr-core/src/storage/sqlite.rs\<close>, \<open>schema.rs\<close>,
  \<open>traits.rs\<close>): corpus roots, documents, sections, claims and their relationships, file hashes
  and the stat fingerprints of a corpus. Every statement enforces the primary keys, \<open>UNIQUE\<close>
  constraints and foreign keys of the schema; deleting a row deletes what refers to it where the schema
  cascades. The columns no query reads (\<open>created_at\<close>, \<open>updated_at\<close>, \<open>last_indexed\<close>) are left out.
\<close>

section \<open>Records\<close>

record document_tree =
  dt_id :: string
  dt_title :: string
  dt_source_path :: string
  dt_sections :: "section_tree list"
  dt_doc_summary :: "string option"

record document_record =
  dc_id :: string
  dc_title :: string
  dc_source_path :: string
  dc_summary :: "string option"
  dc_root_id :: "string option"

record claim_record =
  cm_id :: string
  cm_section_id :: string
  cm_text :: string
  cm_position :: int

record claim_relationship =
  cx_source_claim_id :: string
  cx_target_claim_id :: string
  cx_relation_type :: relation_type
  cx_confidence :: f32

record related_claim_record =
  rk_claim_id :: string
  rk_text :: string
  rk_relation_type :: relation_type
  rk_section_id :: string
  rk_confidence :: f32

record file_hash_record =
  fh_path :: string
  fh_content_hash :: string
  fh_mtime_ns :: "int option"
  fh_extractor_version :: int
  fh_resolver_version :: int

record corpus_merkle_record =
  mk_corpus_id :: string
  mk_root_hash :: string
  mk_file_count :: int
  mk_last_indexed_ns :: int
  mk_extractor_version :: int

record corpus_merkle_node =
  mn_dir_path :: string
  mn_node_hash :: string
  mn_extractor_version :: int

record corpus_root =
  co_id :: string
  co_path :: string
  co_kind :: root_kind
  co_display_name :: "string option"
  co_file_count :: nat
  co_language_stats :: "(string \<times> nat) list"
  co_repo_url :: "string option"
  co_branch :: "string option"
  co_commit_sha :: "string option"
  co_clone_timestamp :: "string option"
  co_sparse_paths :: "string list"

section \<open>Tables\<close>

text \<open>The rows whose columns differ from the records: serialized lists, enumerations as text.\<close>

record section_row =
  sw_id :: string
  sw_document_id :: string
  sw_heading_path :: string
  sw_depth :: nat
  sw_text :: string
  sw_summary :: "string option"
  sw_position :: int

record relation_row =
  rw_source :: string
  rw_target :: string
  rw_type :: string
  rw_confidence :: f32

record root_row =
  rr_id :: string
  rr_path :: string
  rr_kind :: string
  rr_display_name :: "string option"
  rr_file_count :: int
  rr_language_stats :: string
  rr_repo_url :: "string option"
  rr_branch :: "string option"
  rr_commit_sha :: "string option"
  rr_clone_timestamp :: "string option"
  rr_sparse_paths :: string

record content_tables =
  ct_roots :: "root_row list"
  ct_documents :: "document_record list"
  ct_sections :: "section_row list"
  ct_claims :: "claim_record list"
  ct_relations :: "relation_row list"
  ct_file_hashes :: "file_hash_record list"
  ct_merkle :: "corpus_merkle_record list"
  ct_merkle_nodes :: "(string \<times> corpus_merkle_node) list"

text \<open>\<open>serde_json\<close> for a list of strings and for the language counts.\<close>

record content_codecs =
  cc_strings :: "string list blob_codec"
  cc_stats :: "(string \<times> nat) list blob_codec"

definition from_json_or_default :: "'a list blob_codec \<Rightarrow> string \<Rightarrow> 'a list" where
  "from_json_or_default B s = (case bc_from B s of None \<Rightarrow> [] | Some xs \<Rightarrow> xs)"

definition to_json_or_default :: "'a list blob_codec \<Rightarrow> 'a list \<Rightarrow> string" where
  "to_json_or_default B xs = (case bc_to B xs of None \<Rightarrow> [] | Some s \<Rightarrow> s)"

section \<open>Constraints and cascades\<close>

abbreviation fk_failed :: string where
  "fk_failed \<equiv> ''FOREIGN KEY constraint failed''"

definition sql_insert_document ::
    "document_record \<Rightarrow> 'a content_tables_scheme \<Rightarrow> string + 'a content_tables_scheme \<times> unit" where
  "sql_insert_document r d =
     (if dc_id r \<in> dc_id ` set (ct_documents d) then Inl ''UNIQUE constraint failed: documents.id''
      else if dc_source_path r \<in> dc_source_path ` set (ct_documents d)
      then Inl ''UNIQUE constraint failed: documents.source_path''
      else Inr (d\<lparr>ct_documents := ct_documents d @ [r]\<rparr>, ()))"

definition sql_insert_section ::
    "section_row \<Rightarrow> 'a content_tables_scheme \<Rightarrow> string + 'a content_tables_scheme \<times> unit" where
  "sql_insert_section r d =
     (if sw_id r \<in> sw_id ` set (ct_sections d) then Inl ''UNIQUE constraint failed: sections.id''
      else if \<exists>s \<in> set (ct_sections d). sw_document_id s = sw_document_id r \<and> sw_position s = sw_position r
      then Inl ''UNIQUE constraint failed: sections.document_id, sections.position''
      else if sw_document_id r \<notin> dc_id ` set (ct_documents d) then Inl fk_failed
      else Inr (d\<lparr>ct_sections := ct_sections d @ [r]\<rparr>, ()))"

definition sql_insert_claim ::
    "claim_record \<Rightarrow> 'a content_tables_scheme \<Rightarrow> string + 'a content_tables_scheme \<times> unit" where
  "sql_insert_claim r d =
     (if cm_id r \<in> cm_id ` set (ct_claims d) then Inl ''UNIQUE constraint failed: claims.id''
      else if \<exists>c \<in> set (ct_claims d). cm_section_id c = cm_section_id r \<and> cm_position c = cm_position r
      then Inl ''UNIQUE constraint failed: claims.section_id, claims.position''
      else if cm_section_id r \<notin> sw_id ` set (ct_sections d) then Inl fk_failed
      else Inr (d\<lparr>ct_claims := ct_claims d @ [r]\<rparr>, ()))"

abbreviation relation_key :: "relation_row \<Rightarrow> string \<times> string \<times> string" where
  "relation_key r \<equiv> (rw_source r, rw_target r, rw_type r)"

definition sql_replace_relation ::
    "relation_row \<Rightarrow> 'a content_tables_scheme \<Rightarrow> string + 'a content_tables_scheme \<times> unit" where
  "sql_replace_relation r d =
     (if rw_source r \<notin> cm_id ` set (ct_claims d) \<or> rw_target r \<notin> cm_id ` set (ct_claims d) then Inl fk_failed
      else Inr (d\<lparr>ct_relations := replace_row relation_key r (ct_relations d)\<rparr>, ()))"

text \<open>Deletion with \<open>ON DELETE CASCADE\<close>: documents, their sections, their claims, their relationships.\<close>

definition delete_claims_where :: "(claim_record \<Rightarrow> bool) \<Rightarrow> 'a content_tables_scheme \<Rightarrow> 'a content_tables_scheme" where
  "delete_claims_where P d =
     (let gone = map cm_id (filter P (ct_claims d))
      in d\<lparr>ct_claims := filter (\<lambda>c. \<not> P c) (ct_claims d),
           ct_relations := filter (\<lambda>r. rw_source r \<notin> set gone \<and> rw_target r \<notin> set gone) (ct_relations d)\<rparr>)"

definition delete_sections_where :: "(section_row \<Rightarrow> bool) \<Rightarrow> 'a content_tables_scheme \<Rightarrow> 'a content_tables_scheme" where
  "delete_sections_where P d =
     (let gone = map sw_id (filter P (ct_sections d))
      in delete_claims_where (\<lambda>c. cm_section_id c \<in> set gone)
           (d\<lparr>ct_sections := filter (\<lambda>s. \<not> P s) (ct_sections d)\<rparr>))"

definition delete_documents_where ::
    "(document_record \<Rightarrow> bool) \<Rightarrow> 'a content_tables_scheme \<Rightarrow> 'a content_tables_scheme" where
  "delete_documents_where P d =
     (let gone = map dc_id (filter P (ct_documents d))
      in delete_sections_where (\<lambda>s. sw_document_id s \<in> set gone)
           (d\<lparr>ct_documents := filter (\<lambda>x. \<not> P x) (ct_documents d)\<rparr>))"

section \<open>Documents\<close>

definition insert_claim_stmt ::
    "sql_faults \<Rightarrow> string \<Rightarrow> bool \<Rightarrow> nat \<times> claim \<Rightarrow> ('a content_tables_scheme, unit) sql" where
  "insert_claim_stmt f section_id deduped = (\<lambda>(claim_pos, c).
     let cid = (if deduped then section_id @ '':c'' @ show_nat claim_pos else claim_id c)
     in sql_exec f (\<lambda>m. ''failed to insert claim '' @ cid @ '': '' @ m)
          (sql_insert_claim \<lparr>cm_id = cid, cm_section_id = section_id, cm_text = claim_text c, cm_position = int claim_pos\<rparr>))"

fun insert_sections_recursive ::
    "sql_faults \<Rightarrow> content_codecs \<Rightarrow> string \<Rightarrow> section_tree list \<Rightarrow> nat \<Rightarrow> string list
       \<Rightarrow> ('a content_tables_scheme, nat \<times> string list) sql" where
  "insert_sections_recursive f K document_id [] pos seen_ids = sql_ret (pos, seen_ids)"
| "insert_sections_recursive f K document_id (MkSection i hp dep t ns ch cl sm # rest) pos seen_ids =
     (let deduped = i @ ''-'' @ show_nat pos;
          section_id = (if i \<in> set seen_ids then deduped else i)
      in if i \<in> set seen_ids \<and> deduped \<in> set seen_ids
         then insert_sections_recursive f K document_id rest (Suc pos) seen_ids
         else
           (case bc_to (cc_strings K) hp of
              None \<Rightarrow> sql_raise SerializationError
            | Some heading_json \<Rightarrow>
                sql_then
                  (sql_exec f (\<lambda>m. ''failed to insert section '' @ section_id @ '': '' @ m)
                     (sql_insert_section
                        \<lparr>sw_id = section_id, sw_document_id = document_id, sw_heading_path = heading_json,
                         sw_depth = dep, sw_text = t, sw_summary = sm, sw_position = int pos\<rparr>))
                  (\<lambda>_. sql_then (sql_each (insert_claim_stmt f section_id (section_id \<noteq> i)) (enumerate 0 cl))
                  (\<lambda>_. sql_then
                     (insert_sections_recursive f K document_id ch (Suc pos) (hs_insert section_id seen_ids))
                  (\<lambda>(pos', seen'). insert_sections_recursive f K document_id rest pos' seen')))))"

definition insert_document ::
    "sql_faults \<Rightarrow> content_codecs \<Rightarrow> document_tree \<Rightarrow> 'a content_tables_scheme
       \<Rightarrow> 'a content_tables_scheme \<times> (store_error + unit)" where
  "insert_document f K doc = with_conn f
     (sql_savepoint f ''failed to commit: ''
        (sql_then
           (sql_write f (\<lambda>m. ''failed to clean stale document '' @ dt_source_path doc @ '': '' @ m)
              (delete_documents_where (\<lambda>x. dc_source_path x = dt_source_path doc)))
        (\<lambda>_. sql_then
           (sql_exec f (\<lambda>m. ''failed to insert document '' @ dt_id doc @ '': '' @ m)
              (sql_insert_document
                 \<lparr>dc_id = dt_id doc, dc_title = dt_title doc, dc_source_path = dt_source_path doc,
                  dc_summary = dt_doc_summary doc, dc_root_id = None\<rparr>))
        (\<lambda>_. sql_then (insert_sections_recursive f K (dt_id doc) (dt_sections doc) 0 [])
        (\<lambda>_. sql_ret ())))))"

text \<open>A query of one statement, on a database it does not change.\<close>

definition run_query :: "sql_faults \<Rightarrow> ('d \<Rightarrow> 'a) \<Rightarrow> 'd \<Rightarrow> store_error + 'a" where
  "run_query f q d = snd (with_conn f (sql_query f q) d)"

definition get_document :: "sql_faults \<Rightarrow> string \<Rightarrow> 'a content_tables_scheme \<Rightarrow> store_error + document_record option" where
  "get_document f i = run_query f (\<lambda>d. find (\<lambda>x. dc_id x = i) (ct_documents d))"

definition document_count :: "sql_faults \<Rightarrow> 'a content_tables_scheme \<Rightarrow> store_error + nat" where
  "document_count f = run_query f (\<lambda>d. length (ct_documents d))"

definition section_count :: "sql_faults \<Rightarrow> 'a content_tables_scheme \<Rightarrow> store_error + nat" where
  "section_count f = run_query f (\<lambda>d. length (ct_sections d))"

definition list_documents :: "sql_faults \<Rightarrow> 'a content_tables_scheme \<Rightarrow> store_error + document_record list" where
  "list_documents f = run_query f (\<lambda>d. sort_key dc_title (ct_documents d))"

definition list_documents_by_root ::
    "sql_faults \<Rightarrow> string \<Rightarrow> 'a content_tables_scheme \<Rightarrow> store_error + document_record list" where
  "list_documents_by_root f root_id =
     run_query f (\<lambda>d. sort_key dc_title (filter (\<lambda>x. dc_root_id x = Some root_id) (ct_documents d)))"

definition delete_document ::
    "sql_faults \<Rightarrow> string \<Rightarrow> 'a content_tables_scheme \<Rightarrow> 'a content_tables_scheme \<times> (store_error + bool)" where
  "delete_document f i = with_conn f
     (sql_exec f (\<lambda>m. m)
        (\<lambda>d. Inr (delete_documents_where (\<lambda>x. dc_id x = i) d, i \<in> dc_id ` set (ct_documents d))))"

section \<open>Sections and claims\<close>

definition section_of_row :: "content_codecs \<Rightarrow> section_row \<Rightarrow> section_record" where
  "section_of_row K r =
     \<lparr>sr_id = sw_id r, sr_document_id = sw_document_id r,
      sr_heading_path = from_json_or_default (cc_strings K) (sw_heading_path r), sr_depth = sw_depth r,
      sr_text = sw_text r, sr_summary = sw_summary r, sr_position = sw_position r\<rparr>"

definition get_section ::
    "sql_faults \<Rightarrow> content_codecs \<Rightarrow> string \<Rightarrow> 'a content_tables_scheme \<Rightarrow> store_error + section_record option" where
  "get_section f K i = run_query f (\<lambda>d. map_option (section_of_row K) (find (\<lambda>x. sw_id x = i) (ct_sections d)))"

definition list_sections ::
    "sql_faults \<Rightarrow> content_codecs \<Rightarrow> string \<Rightarrow> 'a content_tables_scheme \<Rightarrow> store_error + section_record list" where
  "list_sections f K document_id = run_query f
     (\<lambda>d. map (section_of_row K) (sort_key sw_position (filter (\<lambda>x. sw_document_id x = document_id) (ct_sections d))))"

text \<open>The self join, \<open>ORDER BY s2.position LIMIT 1\<close>.\<close>

definition get_next_section ::
    "sql_faults \<Rightarrow> content_codecs \<Rightarrow> string \<Rightarrow> 'a content_tables_scheme \<Rightarrow> store_error + section_record option" where
  "get_next_section f K section_id = run_query f
     (\<lambda>d. case sort_key sw_position
            [s2. s1 \<leftarrow> ct_sections d, s2 \<leftarrow> ct_sections d,
                 sw_document_id s2 = sw_document_id s1 \<and> sw_position s1 < sw_position s2 \<and> sw_id s1 = section_id] of
            [] \<Rightarrow> None
          | r # _ \<Rightarrow> Some (section_of_row K r))"

definition get_document_for_section ::
    "sql_faults \<Rightarrow> string \<Rightarrow> 'a content_tables_scheme \<Rightarrow> store_error + document_record option" where
  "get_document_for_section f section_id = run_query f
     (\<lambda>d. case [x. x \<leftarrow> ct_documents d, s \<leftarrow> ct_sections d, sw_document_id s = dc_id x \<and> sw_id s = section_id] of
            [] \<Rightarrow> None | x # _ \<Rightarrow> Some x)"

definition get_claim :: "sql_faults \<Rightarrow> string \<Rightarrow> 'a content_tables_scheme \<Rightarrow> store_error + claim_record option" where
  "get_claim f i = run_query f (\<lambda>d. find (\<lambda>c. cm_id c = i) (ct_claims d))"

definition list_claims :: "sql_faults \<Rightarrow> string \<Rightarrow> 'a content_tables_scheme \<Rightarrow> store_error + claim_record list" where
  "list_claims f section_id =
     run_query f (\<lambda>d. sort_key cm_position (filter (\<lambda>c. cm_section_id c = section_id) (ct_claims d)))"

section \<open>Relationships\<close>

text \<open>One statement per relationship, each committed on its own.\<close>

definition insert_claim_relationships ::
    "sql_faults \<Rightarrow> claim_relationship list \<Rightarrow> 'a content_tables_scheme
       \<Rightarrow> 'a content_tables_scheme \<times> (store_error + unit)" where
  "insert_claim_relationships f rels = with_conn f
     (sql_then (sql_prepare f (\<lambda>m. ''failed to prepare relationship insert: '' @ m))
     (\<lambda>_. sql_each (\<lambda>rel. sql_exec f
          (\<lambda>m. ''failed to insert relationship '' @ cx_source_claim_id rel @ '' -> '' @ cx_target_claim_id rel @ '': '' @ m)
          (sql_replace_relation
             \<lparr>rw_source = cx_source_claim_id rel, rw_target = cx_target_claim_id rel,
              rw_type = relation_type_str (cx_relation_type rel), rw_confidence = cx_confidence rel\<rparr>)) rels))"

text \<open>Both directions, \<open>UNION ALL\<close>, \<open>ORDER BY confidence DESC\<close>; rows of an unknown type are skipped.\<close>

definition related_rows :: "string \<Rightarrow> 'a content_tables_scheme \<Rightarrow> (claim_record \<times> relation_row) list" where
  "related_rows cid d = descending (\<lambda>(c, r). rw_confidence r)
     ([(c, r). r \<leftarrow> ct_relations d, c \<leftarrow> ct_claims d, cm_id c = rw_target r \<and> rw_source r = cid] @
      [(c, r). r \<leftarrow> ct_relations d, c \<leftarrow> ct_claims d, cm_id c = rw_source r \<and> rw_target r = cid])"

definition get_related_claims ::
    "sql_faults \<Rightarrow> string \<Rightarrow> relation_type list option \<Rightarrow> 'a content_tables_scheme
       \<Rightarrow> store_error + related_claim_record list" where
  "get_related_claims f cid types = run_query f
     (\<lambda>d. List.map_filter (\<lambda>(c, r).
        case relation_type_parse (rw_type r) of
          None \<Rightarrow> None
        | Some ty \<Rightarrow>
            if (case types of None \<Rightarrow> False | Some tys \<Rightarrow> ty \<notin> set tys) then None
            else Some \<lparr>rk_claim_id = cm_id c, rk_text = cm_text c, rk_relation_type = ty,
                       rk_section_id = cm_section_id c, rk_confidence = rw_confidence r\<rparr>)
        (related_rows cid d))"

definition delete_relationships_for_section ::
    "sql_faults \<Rightarrow> string \<Rightarrow> 'a content_tables_scheme \<Rightarrow> 'a content_tables_scheme \<times> (store_error + unit)" where
  "delete_relationships_for_section f section_id = with_conn f
     (sql_write f (\<lambda>m. ''failed to delete relationships for section '' @ section_id @ '': '' @ m)
        (\<lambda>d. let ids = map cm_id (filter (\<lambda>c. cm_section_id c = section_id) (ct_claims d))
             in d\<lparr>ct_relations := filter (\<lambda>r. \<not> (rw_source r \<in> set ids \<or> rw_target r \<in> set ids)) (ct_relations d)\<rparr>))"

section \<open>File hashes and fingerprints\<close>

definition upsert_file_hash ::
    "sql_faults \<Rightarrow> file_hash_record \<Rightarrow> 'a content_tables_scheme \<Rightarrow> 'a content_tables_scheme \<times> (store_error + unit)" where
  "upsert_file_hash f record = with_conn f
     (sql_write f (\<lambda>m. ''failed to upsert file hash: '' @ m)
        (\<lambda>d. d\<lparr>ct_file_hashes := upsert_row fh_path (\<lambda>_. record) record (ct_file_hashes d)\<rparr>))"

definition get_file_hash :: "sql_faults \<Rightarrow> string \<Rightarrow> 'a content_tables_scheme \<Rightarrow> store_error + file_hash_record option" where
  "get_file_hash f path = run_query f (\<lambda>d. find (\<lambda>h. fh_path h = path) (ct_file_hashes d))"

definition delete_file_hash ::
    "sql_faults \<Rightarrow> string \<Rightarrow> 'a content_tables_scheme \<Rightarrow> 'a content_tables_scheme \<times> (store_error + bool)" where
  "delete_file_hash f path = with_conn f
     (sql_exec f (\<lambda>m. m)
        (\<lambda>d. Inr (d\<lparr>ct_file_hashes := filter (\<lambda>h. fh_path h \<noteq> path) (ct_file_hashes d)\<rparr>,
                  path \<in> fh_path ` set (ct_file_hashes d))))"

definition list_file_hashes :: "sql_faults \<Rightarrow> 'a content_tables_scheme \<Rightarrow> store_error + file_hash_record list" where
  "list_file_hashes f = run_query f (\<lambda>d. sort_key fh_path (ct_file_hashes d))"

definition clear_file_hashes ::
    "sql_faults \<Rightarrow> 'a content_tables_scheme \<Rightarrow> 'a content_tables_scheme \<times> (store_error + nat)" where
  "clear_file_hashes f = with_conn f
     (sql_then (sql_write f (\<lambda>m. m) (\<lambda>d. d\<lparr>ct_merkle_nodes := []\<rparr>))
     (\<lambda>_. sql_then (sql_write f (\<lambda>m. m) (\<lambda>d. d\<lparr>ct_merkle := []\<rparr>))
     (\<lambda>_. sql_exec f (\<lambda>m. m) (\<lambda>d. Inr (d\<lparr>ct_file_hashes := []\<rparr>, length (ct_file_hashes d))))))"

definition get_corpus_merkle ::
    "sql_faults \<Rightarrow> string \<Rightarrow> 'a content_tables_scheme \<Rightarrow> store_error + corpus_merkle_record option" where
  "get_corpus_merkle f cid = run_query f (\<lambda>d. find (\<lambda>m. mk_corpus_id m = cid) (ct_merkle d))"

definition upsert_corpus_merkle ::
    "sql_faults \<Rightarrow> corpus_merkle_record \<Rightarrow> 'a content_tables_scheme \<Rightarrow> 'a content_tables_scheme \<times> (store_error + unit)" where
  "upsert_corpus_merkle f record = with_conn f
     (sql_write f (\<lambda>m. ''failed to upsert corpus merkle: '' @ m)
        (\<lambda>d. d\<lparr>ct_merkle := upsert_row mk_corpus_id (\<lambda>_. record) record (ct_merkle d)\<rparr>))"

abbreviation delete_nodes :: "string \<Rightarrow> 'a content_tables_scheme \<Rightarrow> 'a content_tables_scheme" where
  "delete_nodes cid d \<equiv> d\<lparr>ct_merkle_nodes := filter (\<lambda>(c, _). c \<noteq> cid) (ct_merkle_nodes d)\<rparr>"

definition delete_corpus_merkle ::
    "sql_faults \<Rightarrow> string \<Rightarrow> 'a content_tables_scheme \<Rightarrow> 'a content_tables_scheme \<times> (store_error + bool)" where
  "delete_corpus_merkle f cid = with_conn f
     (sql_then (sql_write f (\<lambda>m. m) (delete_nodes cid))
     (\<lambda>_. sql_exec f (\<lambda>m. m)
        (\<lambda>d. Inr (d\<lparr>ct_merkle := filter (\<lambda>m. mk_corpus_id m \<noteq> cid) (ct_merkle d)\<rparr>,
                  cid \<in> mk_corpus_id ` set (ct_merkle d)))))"

definition get_corpus_merkle_nodes ::
    "sql_faults \<Rightarrow> string \<Rightarrow> 'a content_tables_scheme \<Rightarrow> store_error + corpus_merkle_node list" where
  "get_corpus_merkle_nodes f cid = run_query f (\<lambda>d. map snd (filter (\<lambda>(c, _). c = cid) (ct_merkle_nodes d)))"

abbreviation node_key :: "string \<times> corpus_merkle_node \<Rightarrow> string \<times> string" where
  "node_key x \<equiv> (fst x, mn_dir_path (snd x))"

definition sql_insert_node ::
    "string \<times> corpus_merkle_node \<Rightarrow> 'a content_tables_scheme \<Rightarrow> string + 'a content_tables_scheme \<times> unit" where
  "sql_insert_node r d =
     (if node_key r \<in> node_key ` set (ct_merkle_nodes d)
      then Inl ''UNIQUE constraint failed: corpus_merkle_nodes.corpus_id, corpus_merkle_nodes.dir_path''
      else Inr (d\<lparr>ct_merkle_nodes := ct_merkle_nodes d @ [r]\<rparr>, ()))"

definition replace_corpus_merkle_nodes ::
    "sql_faults \<Rightarrow> string \<Rightarrow> corpus_merkle_node list \<Rightarrow> 'a content_tables_scheme
       \<Rightarrow> 'a content_tables_scheme \<times> (store_error + unit)" where
  "replace_corpus_merkle_nodes f cid nodes = with_conn f
     (sql_savepoint f ''failed to release savepoint: ''
        (sql_then (sql_write f (\<lambda>m. m) (delete_nodes cid))
        (\<lambda>_. sql_then (sql_prepare f (\<lambda>m. m))
        (\<lambda>_. sql_each (\<lambda>node. sql_exec f (\<lambda>m. m) (sql_insert_node (cid, node))) nodes))))"

section \<open>Corpus roots\<close>

definition row_of_root :: "content_codecs \<Rightarrow> corpus_root \<Rightarrow> root_row" where
  "row_of_root K r =
     \<lparr>rr_id = co_id r, rr_path = co_path r, rr_kind = root_kind_as_str (co_kind r), rr_display_name = co_display_name r,
      rr_file_count = int (min (co_file_count r) (2 ^ 63 - 1)),
      rr_language_stats = to_json_or_default (cc_stats K) (co_language_stats r), rr_repo_url = co_repo_url r,
      rr_branch = co_branch r, rr_commit_sha = co_commit_sha r, rr_clone_timestamp = co_clone_timestamp r,
      rr_sparse_paths = to_json_or_default (cc_strings K) (co_sparse_paths r)\<rparr>"

definition parse_corpus_root_row :: "content_codecs \<Rightarrow> root_row \<Rightarrow> corpus_root" where
  "parse_corpus_root_row K r =
     \<lparr>co_id = rr_id r, co_path = rr_path r, co_kind = root_kind_parse (rr_kind r), co_display_name = rr_display_name r,
      co_file_count = (if 0 \<le> rr_file_count r then nat (rr_file_count r) else 0),
      co_language_stats = from_json_or_default (cc_stats K) (rr_language_stats r), co_repo_url = rr_repo_url r,
      co_branch = rr_branch r, co_commit_sha = rr_commit_sha r, co_clone_timestamp = rr_clone_timestamp r,
      co_sparse_paths = from_json_or_default (cc_strings K) (rr_sparse_paths r)\<rparr>"

definition sql_upsert_root :: "root_row \<Rightarrow> 'a content_tables_scheme \<Rightarrow> string + 'a content_tables_scheme \<times> unit" where
  "sql_upsert_root r d =
     (if \<exists>x \<in> set (ct_roots d). rr_path x = rr_path r \<and> rr_id x \<noteq> rr_id r
      then Inl ''UNIQUE constraint failed: corpus_roots.path''
      else Inr (d\<lparr>ct_roots := upsert_row rr_id (\<lambda>_. r) r (ct_roots d)\<rparr>, ()))"

definition upsert_corpus_root ::
    "sql_faults \<Rightarrow> content_codecs \<Rightarrow> corpus_root \<Rightarrow> 'a content_tables_scheme
       \<Rightarrow> 'a content_tables_scheme \<times> (store_error + unit)" where
  "upsert_corpus_root f K r = with_conn f (sql_exec f (\<lambda>m. m) (sql_upsert_root (row_of_root K r)))"

definition get_corpus_root ::
    "sql_faults \<Rightarrow> content_codecs \<Rightarrow> string \<Rightarrow> 'a content_tables_scheme \<Rightarrow> store_error + corpus_root option" where
  "get_corpus_root f K i =
     run_query f (\<lambda>d. map_option (parse_corpus_root_row K) (find (\<lambda>r. rr_id r = i) (ct_roots d)))"

definition list_corpus_roots ::
    "sql_faults \<Rightarrow> content_codecs \<Rightarrow> 'a content_tables_scheme \<Rightarrow> store_error + corpus_root list" where
  "list_corpus_roots f K = run_query f (\<lambda>d. map (parse_corpus_root_row K) (sort_key rr_path (ct_roots d)))"

text \<open>\<open>documents.root_id\<close> refers to the root without a cascade.\<close>

definition delete_corpus_root ::
    "sql_faults \<Rightarrow> string \<Rightarrow> 'a content_tables_scheme \<Rightarrow> 'a content_tables_scheme \<times> (store_error + bool)" where
  "delete_corpus_root f i = with_conn f
     (sql_exec f (\<lambda>m. m)
        (\<lambda>d. if i \<in> rr_id ` set (ct_roots d) \<and> (\<exists>x \<in> set (ct_documents d). dc_root_id x = Some i) then Inl fk_failed
             else Inr (d\<lparr>ct_roots := filter (\<lambda>r. rr_id r \<noteq> i) (ct_roots d)\<rparr>, i \<in> rr_id ` set (ct_roots d))))"

definition set_document_root ::
    "sql_faults \<Rightarrow> string \<Rightarrow> string \<Rightarrow> 'a content_tables_scheme \<Rightarrow> 'a content_tables_scheme \<times> (store_error + unit)" where
  "set_document_root f doc_id root_id = with_conn f
     (sql_exec f (\<lambda>m. m)
        (\<lambda>d. if doc_id \<in> dc_id ` set (ct_documents d) \<and> root_id \<notin> rr_id ` set (ct_roots d) then Inl fk_failed
             else Inr (d\<lparr>ct_documents := map (\<lambda>x. if dc_id x = doc_id then x\<lparr>dc_root_id := Some root_id\<rparr> else x)
                          (ct_documents d)\<rparr>, ())))"

section \<open>Runs\<close>

definition empty_content :: content_tables where
  "empty_content =
     \<lparr>ct_roots = [], ct_documents = [], ct_sections = [], ct_claims = [], ct_relations = [], ct_file_hashes = [],
      ct_merkle = [], ct_merkle_nodes = []\<rparr>"

text \<open>The calls that write.\<close>

datatype content_op =
    InsertDocument document_tree
  | DeleteDocument string
  | InsertClaimRelationships "claim_relationship list"
  | DeleteRelationshipsForSection string
  | UpsertFileHash file_hash_record
  | DeleteFileHash string
  | ClearFileHashes
  | UpsertCorpusMerkle corpus_merkle_record
  | DeleteCorpusMerkle string
  | ReplaceCorpusMerkleNodes string "corpus_merkle_node list"
  | UpsertCorpusRoot corpus_root
  | DeleteCorpusRoot string
  | SetDocumentRoot string string

primrec content_step ::
    "content_codecs \<Rightarrow> sql_faults \<Rightarrow> content_op \<Rightarrow> 'a content_tables_scheme \<Rightarrow> 'a content_tables_scheme" where
  "content_step K f (InsertDocument doc) d = fst (insert_document f K doc d)"
| "content_step K f (DeleteDocument i) d = fst (delete_document f i d)"
| "content_step K f (InsertClaimRelationships rels) d = fst (insert_claim_relationships f rels d)"
| "content_step K f (DeleteRelationshipsForSection i) d = fst (delete_relationships_for_section f i d)"
| "content_step K f (UpsertFileHash r) d = fst (upsert_file_hash f r d)"
| "content_step K f (DeleteFileHash p) d = fst (delete_file_hash f p d)"
| "content_step K f ClearFileHashes d = fst (clear_file_hashes f d)"
| "content_step K f (UpsertCorpusMerkle r) d = fst (upsert_corpus_merkle f r d)"
| "content_step K f (DeleteCorpusMerkle c) d = fst (delete_corpus_merkle f c d)"
| "content_step K f (ReplaceCorpusMerkleNodes c ns) d = fst (replace_corpus_merkle_nodes f c ns d)"
| "content_step K f (UpsertCorpusRoot r) d = fst (upsert_corpus_root f K r d)"
| "content_step K f (DeleteCorpusRoot i) d = fst (delete_corpus_root f i d)"
| "content_step K f (SetDocumentRoot i r) d = fst (set_document_root f i r d)"

definition content_run ::
    "content_codecs \<Rightarrow> (sql_faults \<times> content_op) list \<Rightarrow> 'a content_tables_scheme \<Rightarrow> 'a content_tables_scheme" where
  "content_run K ops d = fold (\<lambda>(f, op). content_step K f op) ops d"

section \<open>Specification\<close>

text \<open>The primary keys, \<open>UNIQUE\<close> constraints and foreign keys of the schema.\<close>

definition keys_ok :: "'a content_tables_scheme \<Rightarrow> bool" where
  "keys_ok d \<longleftrightarrow>
     unique_by rr_id (ct_roots d) \<and> unique_by rr_path (ct_roots d) \<and>
     unique_by dc_id (ct_documents d) \<and> unique_by dc_source_path (ct_documents d) \<and>
     unique_by sw_id (ct_sections d) \<and> unique_by (\<lambda>s. (sw_document_id s, sw_position s)) (ct_sections d) \<and>
     unique_by cm_id (ct_claims d) \<and> unique_by (\<lambda>c. (cm_section_id c, cm_position c)) (ct_claims d) \<and>
     unique_by relation_key (ct_relations d) \<and> unique_by fh_path (ct_file_hashes d) \<and>
     unique_by mk_corpus_id (ct_merkle d) \<and> unique_by node_key (ct_merkle_nodes d)"

definition references_ok :: "'a content_tables_scheme \<Rightarrow> bool" where
  "references_ok d \<longleftrightarrow>
     (\<forall>x \<in> set (ct_documents d). \<forall>r. dc_root_id x = Some r \<longrightarrow> r \<in> rr_id ` set (ct_roots d)) \<and>
     (\<forall>s \<in> set (ct_sections d). sw_document_id s \<in> dc_id ` set (ct_documents d)) \<and>
     (\<forall>c \<in> set (ct_claims d). cm_section_id c \<in> sw_id ` set (ct_sections d)) \<and>
     (\<forall>r \<in> set (ct_relations d). rw_source r \<in> cm_id ` set (ct_claims d) \<and> rw_target r \<in> cm_id ` set (ct_claims d))"

definition content_ok :: "'a content_tables_scheme \<Rightarrow> bool" where
  "content_ok d \<longleftrightarrow> keys_ok d \<and> references_ok d"

text \<open>The sections of a tree in document order, and their rows.\<close>

fun flatten_sections :: "section_tree list \<Rightarrow> section_tree list" where
  "flatten_sections [] = []"
| "flatten_sections (MkSection i hp dep t ns ch cl sm # rest) =
     MkSection i hp dep t ns ch cl sm # flatten_sections ch @ flatten_sections rest"

definition stored_section :: "string \<Rightarrow> nat \<times> section_tree \<Rightarrow> section_record" where
  "stored_section document_id = (\<lambda>(pos, s).
     \<lparr>sr_id = sec_id s, sr_document_id = document_id, sr_heading_path = sec_heading_path s, sr_depth = sec_depth s,
      sr_text = sec_text s, sr_summary = sec_summary s, sr_position = int pos\<rparr>)"

definition stored_claim :: "string \<Rightarrow> nat \<times> claim \<Rightarrow> claim_record" where
  "stored_claim section_id = (\<lambda>(pos, c).
     \<lparr>cm_id = claim_id c, cm_section_id = section_id, cm_text = claim_text c, cm_position = int pos\<rparr>)"

definition stored_claims :: "section_tree \<Rightarrow> claim_record list" where
  "stored_claims s = map (stored_claim (sec_id s)) (enumerate 0 (sec_claims s))"

definition section_row_of :: "content_codecs \<Rightarrow> string \<Rightarrow> nat \<times> section_tree \<Rightarrow> section_row" where
  "section_row_of K document_id = (\<lambda>(pos, s).
     \<lparr>sw_id = sec_id s, sw_document_id = document_id, sw_heading_path = to_json_or_default (cc_strings K) (sec_heading_path s),
      sw_depth = sec_depth s, sw_text = sec_text s, sw_summary = sec_summary s, sw_position = int pos\<rparr>)"

definition claim_ids :: "section_tree list \<Rightarrow> string list" where
  "claim_ids ts = concat (map (\<lambda>s. map claim_id (sec_claims s)) (flatten_sections ts))"

text \<open>The ids of a document are not in use.\<close>

definition ids_free :: "document_tree \<Rightarrow> 'a content_tables_scheme \<Rightarrow> bool" where
  "ids_free doc d \<longleftrightarrow>
     dt_id doc \<notin> dc_id ` set (ct_documents d) \<and>
     set (all_ids (dt_sections doc)) \<inter> sw_id ` set (ct_sections d) = {} \<and>
     distinct (claim_ids (dt_sections doc)) \<and> set (claim_ids (dt_sections doc)) \<inter> cm_id ` set (ct_claims d) = {}"

text \<open>The claims of a document.\<close>

definition in_document :: "string \<Rightarrow> 'a content_tables_scheme \<Rightarrow> claim_record \<Rightarrow> bool" where
  "in_document i d c \<longleftrightarrow> cm_section_id c \<in> sw_id ` set (filter (\<lambda>s. sw_document_id s = i) (ct_sections d))"

text \<open>A serializer and documents to instantiate the statements with.\<close>

definition example_codecs :: content_codecs where
  "example_codecs =
     \<lparr>cc_strings = \<lparr>bc_to = (\<lambda>xs. Some (enc_all xs)), bc_from = (\<lambda>s. Some (dec_all s))\<rparr>,
      cc_stats = \<lparr>bc_to = (\<lambda>_. None), bc_from = (\<lambda>_. None)\<rparr>\<rparr>"

definition example_sections :: "section_tree list" where
  "example_sections =
     [MkSection ''a'' [''A''] 1 ''x'' [] [MkSection ''b'' [''A'', ''B''] 2 ''y'' [] [] [\<lparr>claim_id = ''b:c0'', claim_text = ''p'', claim_section_id = ''b''\<rparr>] None]
        [\<lparr>claim_id = ''a:c0'', claim_text = ''q'', claim_section_id = ''a''\<rparr>] None]"

definition example_document :: document_tree where
  "example_document =
     \<lparr>dt_id = ''a.md'', dt_title = ''A'', dt_source_path = ''a.md'', dt_sections = example_sections, dt_doc_summary = None\<rparr>"

definition example_store :: content_tables where
  "example_store = content_run example_codecs
     [(no_faults, InsertDocument example_document),
      (no_faults, InsertClaimRelationships [\<lparr>cx_source_claim_id = ''a:c0'', cx_target_claim_id = ''b:c0'',
         cx_relation_type = References, cx_confidence = 1\<rparr>])] empty_content"

section \<open>Integrity\<close>

lemma keys_okD:
  assumes "keys_ok d"
  shows "unique_by rr_id (ct_roots d)" "unique_by rr_path (ct_roots d)" "unique_by dc_id (ct_documents d)"
    "unique_by dc_source_path (ct_documents d)" "unique_by sw_id (ct_sections d)"
    "unique_by (\<lambda>s. (sw_document_id s, sw_position s)) (ct_sections d)" "unique_by cm_id (ct_claims d)"
    "unique_by (\<lambda>c. (cm_section_id c, cm_position c)) (ct_claims d)" "unique_by relation_key (ct_relations d)"
    "unique_by fh_path (ct_file_hashes d)" "unique_by mk_corpus_id (ct_merkle d)" "unique_by node_key (ct_merkle_nodes d)"
  using assms by (simp_all add: keys_ok_def)

lemma keys_ok_delete_claims: "keys_ok d \<Longrightarrow> keys_ok (delete_claims_where P d)"
  by (simp add: keys_ok_def delete_claims_where_def Let_def unique_by_filter)

lemma keys_ok_delete_sections: "keys_ok d \<Longrightarrow> keys_ok (delete_sections_where P d)"
  unfolding delete_sections_where_def Let_def
  by (rule keys_ok_delete_claims) (simp add: keys_ok_def unique_by_filter)

lemma keys_ok_delete_documents: "keys_ok d \<Longrightarrow> keys_ok (delete_documents_where P d)"
  unfolding delete_documents_where_def Let_def
  by (rule keys_ok_delete_sections) (simp add: keys_ok_def unique_by_filter)

lemma delete_claims_tables [simp]:
  "ct_roots (delete_claims_where P d) = ct_roots d" "ct_documents (delete_claims_where P d) = ct_documents d"
  "ct_sections (delete_claims_where P d) = ct_sections d" "ct_file_hashes (delete_claims_where P d) = ct_file_hashes d"
  "ct_merkle (delete_claims_where P d) = ct_merkle d" "ct_merkle_nodes (delete_claims_where P d) = ct_merkle_nodes d"
  "ct_claims (delete_claims_where P d) = filter (\<lambda>c. \<not> P c) (ct_claims d)"
  by (simp_all add: delete_claims_where_def Let_def)

lemma delete_sections_tables [simp]:
  "ct_roots (delete_sections_where P d) = ct_roots d" "ct_documents (delete_sections_where P d) = ct_documents d"
  "ct_sections (delete_sections_where P d) = filter (\<lambda>s. \<not> P s) (ct_sections d)"
  "ct_file_hashes (delete_sections_where P d) = ct_file_hashes d"
  "ct_merkle (delete_sections_where P d) = ct_merkle d" "ct_merkle_nodes (delete_sections_where P d) = ct_merkle_nodes d"
  by (simp_all add: delete_sections_where_def Let_def)

lemma delete_documents_tables [simp]:
  "ct_roots (delete_documents_where P d) = ct_roots d"
  "ct_documents (delete_documents_where P d) = filter (\<lambda>x. \<not> P x) (ct_documents d)"
  "ct_sections (delete_documents_where P d) =
     filter (\<lambda>s. sw_document_id s \<notin> dc_id ` {x \<in> set (ct_documents d). P x}) (ct_sections d)"
  "ct_file_hashes (delete_documents_where P d) = ct_file_hashes d"
  "ct_merkle (delete_documents_where P d) = ct_merkle d" "ct_merkle_nodes (delete_documents_where P d) = ct_merkle_nodes d"
  by (simp_all add: delete_documents_where_def Let_def)

text \<open>What a cascade leaves of the claims and the relationships, once the references are in order.\<close>

lemma delete_sections_claims:
  assumes "keys_ok d" and "references_ok d"
  shows "ct_claims (delete_sections_where P d) =
    filter (\<lambda>c. cm_section_id c \<in> sw_id ` {s \<in> set (ct_sections d). \<not> P s}) (ct_claims d)"
proof -
  have "cm_section_id c \<in> sw_id ` set (ct_sections d)" if "c \<in> set (ct_claims d)" for c
    using that assms(2) by (auto simp: references_ok_def)
  note split = unique_by_split [OF keys_okD(5) [OF assms(1)] this]
  show ?thesis by (simp add: delete_sections_where_def Let_def split cong: filter_cong)
qed

lemma delete_claims_relations:
  assumes "keys_ok d"
    and "\<forall>r \<in> set (ct_relations d). rw_source r \<in> cm_id ` set (ct_claims d) \<and> rw_target r \<in> cm_id ` set (ct_claims d)"
  shows "ct_relations (delete_claims_where P d) =
    filter (\<lambda>r. rw_source r \<in> cm_id ` {c \<in> set (ct_claims d). \<not> P c} \<and> rw_target r \<in> cm_id ` {c \<in> set (ct_claims d). \<not> P c})
      (ct_relations d)"
proof -
  have "rw_source r \<in> cm_id ` set (ct_claims d)" "rw_target r \<in> cm_id ` set (ct_claims d)" if "r \<in> set (ct_relations d)" for r
    using that assms(2) by auto
  note split = this [THEN unique_by_split [OF keys_okD(7) [OF assms(1)]]]
  show ?thesis by (simp add: delete_claims_where_def Let_def split cong: filter_cong)
qed

text \<open>The part of the references below documents, which the cascade restores.\<close>

lemma references_delete_sections:
  assumes "keys_ok d" and "references_ok d"
  shows "\<forall>c \<in> set (ct_claims (delete_sections_where P d)). cm_section_id c \<in> sw_id ` set (ct_sections (delete_sections_where P d))"
    and "\<forall>r \<in> set (ct_relations (delete_sections_where P d)). rw_source r \<in> cm_id ` set (ct_claims (delete_sections_where P d)) \<and>
      rw_target r \<in> cm_id ` set (ct_claims (delete_sections_where P d))"
proof -
  let ?d = "d\<lparr>ct_sections := filter (\<lambda>s. \<not> P s) (ct_sections d)\<rparr>"
  have "keys_ok ?d" using assms by (simp add: keys_ok_def unique_by_filter)
  note relations = delete_claims_relations [OF this]
  show "\<forall>r \<in> set (ct_relations (delete_sections_where P d)). rw_source r \<in> cm_id ` set (ct_claims (delete_sections_where P d)) \<and>
      rw_target r \<in> cm_id ` set (ct_claims (delete_sections_where P d))"
    using assms(2) by (simp add: delete_sections_where_def Let_def relations references_ok_def)
  show "\<forall>c \<in> set (ct_claims (delete_sections_where P d)). cm_section_id c \<in> sw_id ` set (ct_sections (delete_sections_where P d))"
    by (simp add: delete_sections_claims [OF assms])
qed

lemma content_ok_delete_documents:
  assumes "content_ok d"
  shows "content_ok (delete_documents_where P d)"
proof -
  let ?d = "d\<lparr>ct_documents := filter (\<lambda>x. \<not> P x) (ct_documents d)\<rparr>"
  let ?Q = "\<lambda>s. sw_document_id s \<in> dc_id ` {x \<in> set (ct_documents d). P x}"
  have k: "keys_ok d" and r: "references_ok d" using assms by (simp_all add: content_ok_def)
  have e: "delete_documents_where P d = (delete_sections_where ?Q d)\<lparr>ct_documents := filter (\<lambda>x. \<not> P x) (ct_documents d)\<rparr>"
    by (simp add: delete_documents_where_def delete_sections_where_def delete_claims_where_def Let_def)
  have s: "sw_document_id s \<in> dc_id ` {x \<in> set (ct_documents d). \<not> P x}"
    if "s \<in> set (ct_sections d)" "\<not> ?Q s" for s
    using that r unique_by_split [OF keys_okD(3) [OF k], of "sw_document_id s" P] by (auto simp: references_ok_def)
  have "references_ok (delete_documents_where P d)"
    using references_delete_sections [OF k r, of ?Q] r s unfolding e references_ok_def by auto
  then show ?thesis using keys_ok_delete_documents [OF k] by (simp add: content_ok_def)
qed

lemma content_ok_files:
  "content_ok d \<Longrightarrow> unique_by fh_path t \<Longrightarrow> content_ok (d\<lparr>ct_file_hashes := t\<rparr>)"
  "content_ok d \<Longrightarrow> unique_by mk_corpus_id ms \<Longrightarrow> content_ok (d\<lparr>ct_merkle := ms\<rparr>)"
  "content_ok d \<Longrightarrow> unique_by node_key ns \<Longrightarrow> content_ok (d\<lparr>ct_merkle_nodes := ns\<rparr>)"
  by (simp_all add: content_ok_def keys_ok_def references_ok_def)

lemma content_ok_filesD:
  assumes "content_ok d"
  shows "unique_by fh_path (ct_file_hashes d)" "unique_by mk_corpus_id (ct_merkle d)" "unique_by node_key (ct_merkle_nodes d)"
  using assms by (simp_all add: content_ok_def keys_ok_def)

lemma content_ok_insert_document:
  "content_ok d \<Longrightarrow> dc_root_id r = None \<Longrightarrow> sql_insert_document r d = Inr (d', a) \<Longrightarrow> content_ok d'"
  by (auto simp: sql_insert_document_def content_ok_def keys_ok_def references_ok_def unique_by_append split: if_splits)

lemma sql_insert_section_iff:
  "sql_insert_section r d = Inr (d', a) \<longleftrightarrow>
     sw_id r \<notin> sw_id ` set (ct_sections d) \<and>
     (sw_document_id r, sw_position r) \<notin> (\<lambda>s. (sw_document_id s, sw_position s)) ` set (ct_sections d) \<and>
     sw_document_id r \<in> dc_id ` set (ct_documents d) \<and> d' = d\<lparr>ct_sections := ct_sections d @ [r]\<rparr>"
  by (simp add: sql_insert_section_def image_iff) (metis Inl_Inr_False Pair_inject old.unit.exhaust sum.inject(2))

lemma sql_insert_claim_iff:
  "sql_insert_claim r d = Inr (d', a) \<longleftrightarrow>
     cm_id r \<notin> cm_id ` set (ct_claims d) \<and>
     (cm_section_id r, cm_position r) \<notin> (\<lambda>c. (cm_section_id c, cm_position c)) ` set (ct_claims d) \<and>
     cm_section_id r \<in> sw_id ` set (ct_sections d) \<and> d' = d\<lparr>ct_claims := ct_claims d @ [r]\<rparr>"
  by (simp add: sql_insert_claim_def image_iff) (metis Inl_Inr_False Pair_inject old.unit.exhaust sum.inject(2))

lemma content_ok_insert_section:
  "content_ok d \<Longrightarrow> sql_insert_section r d = Inr (d', a) \<Longrightarrow> content_ok d'"
  by (auto simp: sql_insert_section_iff content_ok_def keys_ok_def references_ok_def intro!: unique_by_append)

lemma content_ok_insert_claim:
  "content_ok d \<Longrightarrow> sql_insert_claim r d = Inr (d', a) \<Longrightarrow> content_ok d'"
  by (auto simp: sql_insert_claim_iff content_ok_def keys_ok_def references_ok_def intro!: unique_by_append)

lemma content_ok_replace_relation:
  "content_ok d \<Longrightarrow> sql_replace_relation r d = Inr (d', a) \<Longrightarrow> content_ok d'"
  by (auto simp: sql_replace_relation_def content_ok_def keys_ok_def references_ok_def set_replace_row unique_by_replace
      split: if_splits)

lemma content_ok_insert_node:
  "content_ok d \<Longrightarrow> sql_insert_node r d = Inr (d', a) \<Longrightarrow> content_ok d'"
  by (auto simp: sql_insert_node_def split: if_splits intro!: content_ok_files(3) unique_by_append content_ok_filesD(3))

interpretation content: sql_relation "\<lambda>d d'. content_ok d \<longrightarrow> content_ok d'"
  by unfold_locales auto

lemma content_keeps_stmt:
  "content.keeps (sql_exec f what (sql_insert_section sr))" "content.keeps (sql_exec f what (sql_insert_claim cr))"
  "content.keeps (sql_exec f what (sql_replace_relation rr))" "content.keeps (sql_exec f what (sql_insert_node nr))"
  "dc_root_id dr = None \<Longrightarrow> content.keeps (sql_exec f what (sql_insert_document dr))"
  by (rule content.keeps_exec, blast dest: content_ok_insert_section content_ok_insert_claim content_ok_replace_relation
      content_ok_insert_node content_ok_insert_document)+

lemma content_keeps_claim: "content.keeps (insert_claim_stmt f sid b x)"
  by (cases x) (simp add: insert_claim_stmt_def Let_def content_keeps_stmt)

lemma content_keeps_sections: "content.keeps (insert_sections_recursive f K i ts pos seen)"
proof (induction f K i ts pos seen rule: insert_sections_recursive.induct)
  case (2 f K i j hp dep t ns ch cl sm rest pos seen)
  show ?case
  proof (cases "j \<in> set seen \<and> j @ ''-'' @ show_nat pos \<in> set seen")
    case False
    note ih = 2(2) [OF refl refl False] 2(3) [OF refl refl False]
    show ?thesis
    proof (cases "bc_to (cc_strings K) hp")
      case (Some hj)
      show ?thesis using False unfolding insert_sections_recursive.simps Let_def Some option.case if_not_P [OF False]
        by (intro content.keeps_then content.keeps_each content_keeps_claim content_keeps_stmt ih [OF Some])
          (simp split: prod.split add: ih(2) [OF Some])
    qed (use False in \<open>auto simp: Let_def content.keeps_raise\<close>)
  qed (use 2 in simp)
qed (simp add: content.keeps_ret)

lemma unique_by_upsert_other:
  assumes "unique_by key t" and "unique_by g t" and "\<And>x. x \<in> set t \<Longrightarrow> g x = g r \<Longrightarrow> key x = key r"
  shows "unique_by g (upsert_row key (\<lambda>_. r) r t)"
proof (cases "\<exists>x \<in> set t. key x = key r")
  case True
  have "inj_on (\<lambda>x. g (if key x = key r then r else x)) (set t)"
  proof (rule inj_onI)
    fix x y
    assume xy: "x \<in> set t" "y \<in> set t" "g (if key x = key r then r else x) = g (if key y = key r then r else y)"
    then show "x = y" using assms(3) [of x] assms(3) [of y] unique_byD [OF assms(1), of x y] unique_byD [OF assms(2), of x y]
      by (auto split: if_splits)
  qed
  then show ?thesis using True assms(2) by (simp add: unique_by_def upsert_row_def distinct_map o_def)
next
  case False
  then have "g r \<notin> g ` set t" using assms(3) by force
  then show ?thesis using False assms(2) by (auto simp: upsert_row_def intro!: unique_by_append)
qed

lemma upsert_row_refs: "key ` set t \<subseteq> key ` set (upsert_row key (\<lambda>_. r) r t)"
proof
  fix k
  assume "k \<in> key ` set t"
  then obtain x where "x \<in> set t" "k = key x" by blast
  then show "k \<in> key ` set (upsert_row key (\<lambda>_. r) r t)"
    by (cases "key x = key r") (auto simp: upsert_row_def intro!: image_eqI [of _ key x])
qed

lemma content_ok_upsert_root:
  assumes "content_ok d" and "sql_upsert_root r d = Inr (d', a)"
  shows "content_ok d'"
proof -
  have d': "d' = d\<lparr>ct_roots := upsert_row rr_id (\<lambda>_. r) r (ct_roots d)\<rparr>"
    and p: "\<And>x. x \<in> set (ct_roots d) \<Longrightarrow> rr_path x = rr_path r \<Longrightarrow> rr_id x = rr_id r"
    using assms(2) by (auto simp: sql_upsert_root_def split: if_splits)
  have k: "keys_ok d" using assms(1) by (simp add: content_ok_def)
  have "unique_by rr_id (ct_roots d')" "unique_by rr_path (ct_roots d')"
    unfolding d' using unique_by_upsert_other [OF keys_okD(1) [OF k] keys_okD(1) [OF k]]
      unique_by_upsert_other [OF keys_okD(1) [OF k] keys_okD(2) [OF k]] p by simp_all
  moreover have "rr_id ` set (ct_roots d) \<subseteq> rr_id ` set (ct_roots d')"
    by (simp add: d' upsert_row_refs)
  ultimately show ?thesis using assms(1) unfolding d'
    by (auto simp: content_ok_def keys_ok_def references_ok_def)
qed

lemma content_ok_delete_root:
  assumes "content_ok d" and "\<not> (i \<in> rr_id ` set (ct_roots d) \<and> (\<exists>x \<in> set (ct_documents d). dc_root_id x = Some i))"
  shows "content_ok (d\<lparr>ct_roots := filter (\<lambda>r. rr_id r \<noteq> i) (ct_roots d)\<rparr>)"
proof -
  have "r \<in> rr_id ` {x \<in> set (ct_roots d). rr_id x \<noteq> i}" if "x \<in> set (ct_documents d)" "dc_root_id x = Some r" for x r
  proof -
    have "r \<in> rr_id ` set (ct_roots d)" using that assms(1) by (auto simp: content_ok_def references_ok_def)
    moreover have "r \<noteq> i" using calculation that assms(2) by auto
    ultimately show ?thesis by auto
  qed
  then show ?thesis using assms(1) by (simp add: content_ok_def keys_ok_def references_ok_def unique_by_filter)
qed

lemma content_ok_set_root:
  assumes "content_ok d" and "i \<in> dc_id ` set (ct_documents d) \<longrightarrow> r \<in> rr_id ` set (ct_roots d)"
  shows "content_ok (d\<lparr>ct_documents := map (\<lambda>x. if dc_id x = i then x\<lparr>dc_root_id := Some r\<rparr> else x) (ct_documents d)\<rparr>)"
proof -
  let ?g = "\<lambda>x. if dc_id x = i then x\<lparr>dc_root_id := Some r\<rparr> else x"
  have cols: "dc_id (?g x) = dc_id x" "dc_source_path (?g x) = dc_source_path x" for x by simp_all
  have "unique_by dc_id (map ?g (ct_documents d)) = unique_by dc_id (ct_documents d)"
    "unique_by dc_source_path (map ?g (ct_documents d)) = unique_by dc_source_path (ct_documents d)"
    "dc_id ` set (map ?g (ct_documents d)) = dc_id ` set (ct_documents d)"
    unfolding unique_by_def set_map image_image map_map o_def cols by (rule refl)+
  then show ?thesis using assms by (auto simp: content_ok_def keys_ok_def references_ok_def)
qed

lemma content_ok_step: "content_ok d \<Longrightarrow> content_ok (content_step K f op d)"
proof (induction op)
  case (InsertDocument doc)
  have "content_ok d \<longrightarrow> content_ok (fst (insert_document f K doc d))"
    unfolding insert_document_def
    by (intro content.with_conn_keeps content.keeps_savepoint content.keeps_then content.keeps_write content.keeps_ret
        content_keeps_stmt content_keeps_sections) (simp_all add: content_ok_delete_documents)
  then show ?case using InsertDocument by simp
next
  case (DeleteDocument i)
  have "content_ok d \<longrightarrow> content_ok (fst (delete_document f i d))"
    unfolding delete_document_def
    by (intro content.with_conn_keeps content.keeps_exec) (auto simp: content_ok_delete_documents)
  then show ?case using DeleteDocument by simp
next
  case (InsertClaimRelationships rels)
  have "content_ok d \<longrightarrow> content_ok (fst (insert_claim_relationships f rels d))"
    unfolding insert_claim_relationships_def
    by (intro content.with_conn_keeps content.keeps_then content.keeps_prepare content.keeps_each content_keeps_stmt)
  then show ?case using InsertClaimRelationships by simp
next
  case (DeleteRelationshipsForSection i)
  have "content_ok d \<longrightarrow> content_ok (fst (delete_relationships_for_section f i d))"
    unfolding delete_relationships_for_section_def Let_def
    by (intro content.with_conn_keeps content.keeps_write)
      (auto simp: content_ok_def keys_ok_def references_ok_def unique_by_filter)
  then show ?case using DeleteRelationshipsForSection by simp
next
  case (UpsertFileHash r)
  have "content_ok d \<longrightarrow> content_ok (fst (upsert_file_hash f r d))"
    unfolding upsert_file_hash_def
    by (intro content.with_conn_keeps content.keeps_write)
      (auto intro!: content_ok_files(1) unique_by_upsert_other content_ok_filesD(1))
  then show ?case using UpsertFileHash by simp
next
  case (DeleteFileHash p)
  have "content_ok d \<longrightarrow> content_ok (fst (delete_file_hash f p d))"
    unfolding delete_file_hash_def
    by (intro content.with_conn_keeps content.keeps_exec) (auto intro!: content_ok_files(1) unique_by_filter content_ok_filesD(1))
  then show ?case using DeleteFileHash by simp
next
  case ClearFileHashes
  have "content_ok d \<longrightarrow> content_ok (fst (clear_file_hashes f d))"
    unfolding clear_file_hashes_def
    by (intro content.with_conn_keeps content.keeps_then content.keeps_write content.keeps_exec)
      (auto intro!: content_ok_files simp: unique_by_def)
  then show ?case using ClearFileHashes by simp
next
  case (UpsertCorpusMerkle r)
  have "content_ok d \<longrightarrow> content_ok (fst (upsert_corpus_merkle f r d))"
    unfolding upsert_corpus_merkle_def
    by (intro content.with_conn_keeps content.keeps_write)
      (auto intro!: content_ok_files(2) unique_by_upsert_other content_ok_filesD(2))
  then show ?case using UpsertCorpusMerkle by simp
next
  case (DeleteCorpusMerkle c)
  have "content_ok d \<longrightarrow> content_ok (fst (delete_corpus_merkle f c d))"
    unfolding delete_corpus_merkle_def
    by (intro content.with_conn_keeps content.keeps_then content.keeps_write content.keeps_exec)
      (auto intro!: content_ok_files unique_by_filter content_ok_filesD)
  then show ?case using DeleteCorpusMerkle by simp
next
  case (ReplaceCorpusMerkleNodes c ns)
  have "content_ok d \<longrightarrow> content_ok (fst (replace_corpus_merkle_nodes f c ns d))"
    unfolding replace_corpus_merkle_nodes_def
    by (intro content.with_conn_keeps content.keeps_savepoint content.keeps_then content.keeps_write content.keeps_prepare
        content.keeps_each content_keeps_stmt)
      (auto intro!: content_ok_files unique_by_filter content_ok_filesD)
  then show ?case using ReplaceCorpusMerkleNodes by simp
next
  case (UpsertCorpusRoot r)
  have "content_ok d \<longrightarrow> content_ok (fst (upsert_corpus_root f K r d))"
    unfolding upsert_corpus_root_def
    by (intro content.with_conn_keeps content.keeps_exec) (auto dest: content_ok_upsert_root)
  then show ?case using UpsertCorpusRoot by simp
next
  case (DeleteCorpusRoot i)
  have "content_ok d \<longrightarrow> content_ok (fst (delete_corpus_root f i d))"
    unfolding delete_corpus_root_def
    by (intro content.with_conn_keeps content.keeps_exec) (auto split: if_splits intro!: content_ok_delete_root)
  then show ?case using DeleteCorpusRoot by simp
next
  case (SetDocumentRoot i r)
  have "content_ok d \<longrightarrow> content_ok (fst (set_document_root f i r d))"
    unfolding set_document_root_def
    by (intro content.with_conn_keeps content.keeps_exec) (auto split: if_splits intro!: content_ok_set_root)
  then show ?case using SetDocumentRoot by simp
qed

lemma content_ok_run: "content_ok d \<Longrightarrow> content_ok (content_run K ops d)"
  unfolding content_run_def by (induction ops arbitrary: d) (auto intro: content_ok_step)

lemma content_ok_empty: "content_ok empty_content"
  by (simp add: content_ok_def keys_ok_def references_ok_def empty_content_def unique_by_def)

text \<open>
  C12. The content database stays consistent: after any sequence of writing calls, whichever of their
  statements fail and with whatever message, every primary key and \<open>UNIQUE\<close> constraint holds, every section
  has its document, every claim its section, every relationship both its claims and every assigned root exists.
\<close>

theorem content_run_ok: "content_ok (content_run K ops empty_content)"
  by (rule content_ok_run [OF content_ok_empty])

section \<open>Storing a document\<close>

lemma flatten_ids: "map sec_id (flatten_sections ts) = all_ids ts"
  by (induction ts rule: flatten_sections.induct) simp_all

lemma claim_ids_simps [simp]:
  "claim_ids [] = []"
  "claim_ids (MkSection i hp dep t ns ch cl sm # rest) = map claim_id cl @ claim_ids ch @ claim_ids rest"
  by (simp_all add: claim_ids_def)

lemma section_row_of_simps [simp]:
  "sw_id (section_row_of K i x) = sec_id (snd x)" "sw_document_id (section_row_of K i x) = i"
  "sw_position (section_row_of K i x) = int (fst x)"
  by (simp_all add: section_row_of_def split: prod.split)

lemma stored_claim_simps [simp]:
  "cm_id (stored_claim sid x) = claim_id (snd x)" "cm_section_id (stored_claim sid x) = sid"
  "cm_position (stored_claim sid x) = int (fst x)"
  by (simp_all add: stored_claim_def split: prod.split)

lemma snd_enumerate: "snd ` set (enumerate k xs) = set xs"
  by (metis list.set_map map_snd_enumerate)

lemma snd_image_enumerate: "(\<lambda>x. g (snd x)) ` set (enumerate k xs) = g ` set xs"
  using image_image [of g snd "set (enumerate k xs)"] by (simp add: snd_enumerate)

lemma stored_claims_ids: "cm_id ` set (stored_claims s) = claim_id ` set (sec_claims s)"
  by (simp add: stored_claims_def image_image snd_image_enumerate)

lemma enumerate_sndD: "(k, x) \<in> set (enumerate n xs) \<Longrightarrow> x \<in> set xs"
  by (metis image_eqI list.set_map map_snd_enumerate snd_conv)

lemma enumerate_fstD: "(k, x) \<in> set (enumerate n xs) \<Longrightarrow> n \<le> k \<and> k < n + length xs"
  by (auto simp: in_set_enumerate_eq)

lemma insert_claims_run:
  assumes "sid \<in> sw_id ` set (ct_sections d)" and "distinct (map claim_id cl)"
    and "claim_id ` set cl \<inter> cm_id ` set (ct_claims d) = {}"
    and "\<forall>c \<in> set (ct_claims d). cm_section_id c = sid \<longrightarrow> cm_position c < int k"
  shows "\<exists>n'. sql_each (insert_claim_stmt no_faults sid False) (enumerate k cl) n d =
    (n', d\<lparr>ct_claims := ct_claims d @ map (stored_claim sid) (enumerate k cl)\<rparr>, Inr ())"
  using assms
proof (induction cl arbitrary: k n d)
  case (Cons c cl)
  let ?r = "stored_claim sid (k, c)"
  let ?d = "d\<lparr>ct_claims := ct_claims d @ [?r]\<rparr>"
  have "sql_insert_claim ?r d = Inr (?d, ())"
    unfolding sql_insert_claim_iff using Cons.prems by (auto simp: stored_claim_def)
  then have step: "insert_claim_stmt no_faults sid False (k, c) n d = (Suc n, ?d, Inr ())"
    by (simp add: insert_claim_stmt_def stored_claim_def Let_def)
  have "\<exists>n'. sql_each (insert_claim_stmt no_faults sid False) (enumerate (Suc k) cl) (Suc n) ?d =
    (n', ?d\<lparr>ct_claims := ct_claims ?d @ map (stored_claim sid) (enumerate (Suc k) cl)\<rparr>, Inr ())"
    by (rule Cons.IH) (use Cons.prems in \<open>auto simp: stored_claim_def\<close>)
  then show ?case by (auto simp: sql_then_def step)
qed (simp add: sql_ret_def)

lemma stored_rows_ids:
  "sw_id ` section_row_of K i ` set (enumerate k (flatten_sections ts)) = set (all_ids ts)"
  "cm_id ` (\<Union>s \<in> set (flatten_sections ts). set (stored_claims s)) = set (claim_ids ts)"
  "cm_section_id ` (\<Union>s \<in> set (flatten_sections ts). set (stored_claims s)) \<subseteq> set (all_ids ts)"
  by (auto simp: image_image snd_image_enumerate claim_ids_def stored_claims_def image_UN simp flip: flatten_ids)

lemma insert_sections_run:
  assumes "blob_codec_ok (cc_strings K)"
    and "distinct (all_ids ts)" and "set (all_ids ts) \<inter> set seen = {}"
    and "set (all_ids ts) \<inter> sw_id ` set (ct_sections d) = {}" and "i \<in> dc_id ` set (ct_documents d)"
    and "\<forall>s \<in> set (ct_sections d). sw_document_id s = i \<longrightarrow> sw_position s < int pos"
    and "distinct (claim_ids ts)" and "set (claim_ids ts) \<inter> cm_id ` set (ct_claims d) = {}"
    and "\<forall>c \<in> set (ct_claims d). cm_section_id c \<in> sw_id ` set (ct_sections d)"
  shows "\<exists>n' seen'. insert_sections_recursive no_faults K i ts pos seen n d =
      (n', d\<lparr>ct_sections := ct_sections d @ map (section_row_of K i) (enumerate pos (flatten_sections ts)),
             ct_claims := ct_claims d @ concat (map stored_claims (flatten_sections ts))\<rparr>,
       Inr (pos + length (flatten_sections ts), seen')) \<and> set seen' = set seen \<union> set (all_ids ts)"
  using assms(2-)
proof (induction ts arbitrary: pos seen n d rule: flatten_sections.induct)
  case (2 j hp dep t ns ch cl sm rest)
  let ?s = "MkSection j hp dep t ns ch cl sm"
  let ?r = "section_row_of K i (pos, ?s)"
  obtain hj where hj: "bc_to (cc_strings K) hp = Some hj" using assms(1) by (auto simp: blob_codec_ok_def)
  have fresh: "j \<notin> set seen" using 2 by auto
  let ?d1 = "d\<lparr>ct_sections := ct_sections d @ [?r]\<rparr>"
  have ins: "sql_insert_section ?r d = Inr (?d1, ())"
    unfolding sql_insert_section_iff using 2(3-) by (auto simp: section_row_of_def)
  let ?d2 = "?d1\<lparr>ct_claims := ct_claims ?d1 @ stored_claims ?s\<rparr>"
  have "\<exists>n'. sql_each (insert_claim_stmt no_faults j False) (enumerate 0 cl) (Suc n) ?d1 =
      (n', ?d1\<lparr>ct_claims := ct_claims ?d1 @ map (stored_claim j) (enumerate 0 cl)\<rparr>, Inr ())"
    by (rule insert_claims_run) (use 2(3-) in \<open>auto simp: section_row_of_def\<close>)
  then obtain n2 where claims: "sql_each (insert_claim_stmt no_faults j False) (enumerate 0 cl) (Suc n) ?d1 = (n2, ?d2, Inr ())"
    by (auto simp: stored_claims_def)
  let ?cs = "concat (map stored_claims (flatten_sections ch))"
  let ?rows = "map (section_row_of K i) (enumerate (Suc pos) (flatten_sections ch))"
  let ?d3 = "?d2\<lparr>ct_sections := ct_sections ?d2 @ ?rows, ct_claims := ct_claims ?d2 @ ?cs\<rparr>"
  have "\<exists>n' seen'. insert_sections_recursive no_faults K i ch (Suc pos) (hs_insert j seen) n2 ?d2 =
      (n', ?d3, Inr (Suc pos + length (flatten_sections ch), seen')) \<and> set seen' = set (hs_insert j seen) \<union> set (all_ids ch)"
    by (rule 2(1)) (use 2(3-) in \<open>auto simp: stored_claims_def dest!: enumerate_sndD\<close>)
  then obtain n3 seen3 where children: "insert_sections_recursive no_faults K i ch (Suc pos) (hs_insert j seen) n2 ?d2 =
      (n3, ?d3, Inr (Suc pos + length (flatten_sections ch), seen3))" "set seen3 = set (hs_insert j seen) \<union> set (all_ids ch)"
    by blast
  have ids: "sw_id ` set (ct_sections ?d3) = insert j (sw_id ` set (ct_sections d) \<union> set (all_ids ch))"
    "cm_id ` set (ct_claims ?d3) = cm_id ` set (ct_claims d) \<union> claim_id ` set cl \<union> set (claim_ids ch)"
    by (simp_all add: image_Un stored_rows_ids stored_claims_ids) blast
  have "\<exists>n' seen'. insert_sections_recursive no_faults K i rest (Suc pos + length (flatten_sections ch)) seen3 n3 ?d3 =
      (n', ?d3\<lparr>ct_sections := ct_sections ?d3 @ map (section_row_of K i) (enumerate (Suc pos + length (flatten_sections ch)) (flatten_sections rest)),
               ct_claims := ct_claims ?d3 @ concat (map stored_claims (flatten_sections rest))\<rparr>,
       Inr (Suc pos + length (flatten_sections ch) + length (flatten_sections rest), seen')) \<and> set seen' = set seen3 \<union> set (all_ids rest)"
  proof (rule 2(2), goal_cases)
    case 3
    show ?case unfolding ids using 2(3-) by auto
  next
    case 5
    show ?case using 2(3-) by (auto dest!: enumerate_fstD)
  next
    case 7
    show ?case unfolding ids using 2(3-) by auto
  next
    case 8
    have "sec_id s \<in> set (all_ids ch)" if "s \<in> set (flatten_sections ch)" for s
      using that by (simp flip: flatten_ids)
    then show ?case unfolding ids(1) using 2(3-) by (auto simp: stored_claims_def)
  qed (use 2(3-) children(2) in auto)
  then obtain n4 seen4 where rest: "insert_sections_recursive no_faults K i rest (Suc pos + length (flatten_sections ch)) seen3 n3 ?d3 =
      (n4, ?d3\<lparr>ct_sections := ct_sections ?d3 @ map (section_row_of K i) (enumerate (Suc pos + length (flatten_sections ch)) (flatten_sections rest)),
               ct_claims := ct_claims ?d3 @ concat (map stored_claims (flatten_sections rest))\<rparr>,
       Inr (Suc pos + length (flatten_sections ch) + length (flatten_sections rest), seen4))" "set seen4 = set seen3 \<union> set (all_ids rest)"
    by blast
  have row: "\<lparr>sw_id = j, sw_document_id = i, sw_heading_path = hj, sw_depth = dep, sw_text = t, sw_summary = sm, sw_position = int pos\<rparr> = ?r"
    by (simp add: section_row_of_def to_json_or_default_def hj)
  show ?case
    using fresh children(2) rest(2)
    by (simp add: Let_def hj sql_then_def row ins claims [simplified] children(1) [simplified] rest(1) [simplified] enumerate_append_eq Un_assoc)
qed (simp add: sql_ret_def)

lemma filter_stored_claims:
  "distinct (map sec_id l) \<Longrightarrow> s \<in> set l \<Longrightarrow>
     filter (\<lambda>c. cm_section_id c = sec_id s) (concat (map stored_claims l)) = stored_claims s"
proof (induction l)
  case (Cons x l)
  have same: "filter (\<lambda>c. cm_section_id c = sec_id s) (stored_claims x) = (if sec_id x = sec_id s then stored_claims x else [])"
    for x by (simp add: stored_claims_def filter_map o_def)
  show ?case
  proof (cases "sec_id x = sec_id s")
    case True
    then have "filter (\<lambda>c. cm_section_id c = sec_id s) (concat (map stored_claims l)) = []"
      using Cons.prems(1) unfolding filter_empty_conv
      by (auto simp: stored_claims_def) (metis image_eqI)
    then show ?thesis using True Cons.prems same [of x] by (auto simp: rev_image_eqI)
  qed (use Cons same in auto)
qed simp

lemma json_roundtrip [simp]: "blob_codec_ok B \<Longrightarrow> from_json_or_default B (to_json_or_default B xs) = xs"
  unfolding blob_codec_ok_def from_json_or_default_def to_json_or_default_def by (metis option.simps(5))

lemma section_of_stored_row:
  "blob_codec_ok (cc_strings K) \<Longrightarrow> section_of_row K (section_row_of K i x) = stored_section i x"
  by (cases x) (simp add: section_of_row_def section_row_of_def stored_section_def)

lemma deduplicated_distinct:
  "deduplicate_ids raw = Some ss \<Longrightarrow> length (all_ids raw) + 2 \<le> u64_max \<Longrightarrow> distinct (all_ids ss)"
  using dedup_section_ids_ok [of "[]" raw] by (auto simp: deduplicate_ids_def)

lemma sorted_enumerate: "sorted (map (\<lambda>x. int (fst x)) (enumerate k xs))"
proof -
  have "map (\<lambda>x. int (fst x)) (enumerate k xs) = map int (map fst (enumerate k xs))" unfolding map_map o_def ..
  then show ?thesis by (simp only: map_fst_enumerate sorted_map) (simp add: sorted_wrt_iff_nth_less)
qed

lemma sort_stored_rows:
  "sort_key sw_position (map (section_row_of K i) (enumerate k l)) = map (section_row_of K i) (enumerate k l)"
  "sort_key cm_position (map (stored_claim sid) (enumerate k cl)) = map (stored_claim sid) (enumerate k cl)"
  by (intro sort_key_id_if_sorted; simp add: o_def sorted_enumerate)+

lemma insert_document_run:
  assumes "blob_codec_ok (cc_strings K)" and "content_ok d" and "distinct (all_ids (dt_sections doc))"
    and "d0 = delete_documents_where (\<lambda>x. dc_source_path x = dt_source_path doc) d" and "ids_free doc d0"
  shows "insert_document no_faults K doc d =
    (d0\<lparr>ct_documents := ct_documents d0 @ [\<lparr>dc_id = dt_id doc, dc_title = dt_title doc, dc_source_path = dt_source_path doc,
                  dc_summary = dt_doc_summary doc, dc_root_id = None\<rparr>],
        ct_sections := ct_sections d0 @ map (section_row_of K (dt_id doc)) (enumerate 0 (flatten_sections (dt_sections doc))),
        ct_claims := ct_claims d0 @ concat (map stored_claims (flatten_sections (dt_sections doc)))\<rparr>, Inr ())"
proof -
  let ?row = "\<lparr>dc_id = dt_id doc, dc_title = dt_title doc, dc_source_path = dt_source_path doc,
                  dc_summary = dt_doc_summary doc, dc_root_id = None\<rparr>"
  let ?d1 = "d0\<lparr>ct_documents := ct_documents d0 @ [?row]\<rparr>"
  have ok: "content_ok d0" unfolding assms(4) by (rule content_ok_delete_documents [OF assms(2)])
  have docs: "sql_insert_document ?row d0 = Inr (?d1, ())"
    using assms(5) by (auto simp: sql_insert_document_def ids_free_def assms(4))
  have none: "sw_document_id s \<noteq> dt_id doc" if "s \<in> set (ct_sections d0)" for s
    using that ok assms(5) unfolding content_ok_def references_ok_def ids_free_def by metis
  have "\<exists>n' seen'. insert_sections_recursive no_faults K (dt_id doc) (dt_sections doc) 0 [] (Suc (Suc (Suc (Suc 0)))) ?d1 =
      (n', ?d1\<lparr>ct_sections := ct_sections ?d1 @ map (section_row_of K (dt_id doc)) (enumerate 0 (flatten_sections (dt_sections doc))),
             ct_claims := ct_claims ?d1 @ concat (map stored_claims (flatten_sections (dt_sections doc)))\<rparr>,
       Inr (0 + length (flatten_sections (dt_sections doc)), seen')) \<and> set seen' = set [] \<union> set (all_ids (dt_sections doc))"
  proof (rule insert_sections_run [OF assms(1,3)], goal_cases)
    case 4
    show ?case using none by simp
  next
    case 7
    show ?case using ok by (simp add: content_ok_def references_ok_def)
  qed (use assms(5) in \<open>auto simp: ids_free_def\<close>)
  then obtain n' seen' where sections: "insert_sections_recursive no_faults K (dt_id doc) (dt_sections doc) 0 [] (Suc (Suc (Suc (Suc 0)))) ?d1 =
      (n', ?d1\<lparr>ct_sections := ct_sections ?d1 @ map (section_row_of K (dt_id doc)) (enumerate 0 (flatten_sections (dt_sections doc))),
             ct_claims := ct_claims ?d1 @ concat (map stored_claims (flatten_sections (dt_sections doc)))\<rparr>,
       Inr (0 + length (flatten_sections (dt_sections doc)), seen'))" by blast
  show ?thesis
    by (simp add: insert_document_def sql_savepoint_no_faults sql_then_def docs sql_ret_def sections [simplified]
        assms(4) [symmetric])
qed

lemma find_append_None: "find P xs = None \<Longrightarrow> find P (xs @ ys) = find P ys"
  by (induction xs) (auto split: if_splits)

text \<open>
  C12. A stored document reads back as it was. Suppose no statement fails, the serializer round-trips, the tables
  respect their keys and references, the ids of the tree were made unique by \<open>deduplicate_ids\<close> without overflow, and no
  document, section or claim outside the previous version (the document with the same source path) uses them. Then
  storing it succeeds and replaces that version: \<open>get_document\<close> returns its id, title, path and summary,
  \<open>list_sections\<close> the sections of the tree in document order, numbered from zero, \<open>list_claims\<close> the claims of each
  section in their order, and the sections of every document with another source path are what they were.
\<close>

theorem stored_document_reads_back:
  assumes "blob_codec_ok (cc_strings K)" and "content_ok d"
    and "deduplicate_ids raw = Some (dt_sections doc)" and "length (all_ids raw) + 2 \<le> u64_max"
    and "ids_free doc (delete_documents_where (\<lambda>x. dc_source_path x = dt_source_path doc) d)"
  shows "\<exists>d'. insert_document no_faults K doc d = (d', Inr ()) \<and>
    get_document no_faults (dt_id doc) d' =
      Inr (Some \<lparr>dc_id = dt_id doc, dc_title = dt_title doc, dc_source_path = dt_source_path doc,
                 dc_summary = dt_doc_summary doc, dc_root_id = None\<rparr>) \<and>
    list_sections no_faults K (dt_id doc) d' =
      Inr (map (stored_section (dt_id doc)) (enumerate 0 (flatten_sections (dt_sections doc)))) \<and>
    (\<forall>s \<in> set (flatten_sections (dt_sections doc)). list_claims no_faults (sec_id s) d' = Inr (stored_claims s)) \<and>
    (\<forall>x \<in> set (ct_documents d). dc_source_path x \<noteq> dt_source_path doc \<longrightarrow>
       list_sections no_faults K (dc_id x) d' = list_sections no_faults K (dc_id x) d)"
proof -
  define d0 where "d0 = delete_documents_where (\<lambda>x. dc_source_path x = dt_source_path doc) d"
  define l where "l = flatten_sections (dt_sections doc)"
  have distinct: "distinct (all_ids (dt_sections doc))" by (rule deduplicated_distinct [OF assms(3,4)])
  have free: "ids_free doc d0" using assms(5) by (simp add: d0_def)
  have ok: "content_ok d0" unfolding d0_def by (rule content_ok_delete_documents [OF assms(2)])
  note run = insert_document_run [OF assms(1,2) distinct d0_def free, folded l_def]
  let ?d' = "fst (insert_document no_faults K doc d)"
  have tables: "ct_sections ?d' = ct_sections d0 @ map (section_row_of K (dt_id doc)) (enumerate 0 l)"
    "ct_claims ?d' = ct_claims d0 @ concat (map stored_claims l)" by (simp_all add: run)
  have "find (\<lambda>x. dc_id x = dt_id doc) (ct_documents d0) = None"
    unfolding find_None_iff using free by (metis ids_free_def image_eqI)
  then have "get_document no_faults (dt_id doc) ?d' =
      Inr (Some \<lparr>dc_id = dt_id doc, dc_title = dt_title doc, dc_source_path = dt_source_path doc,
                 dc_summary = dt_doc_summary doc, dc_root_id = None\<rparr>)"
    by (simp add: get_document_def run_query_def run find_append_None)
  moreover have none: "filter (\<lambda>x. sw_document_id x = dt_id doc) (ct_sections d0) = []"
    using ok free unfolding content_ok_def references_ok_def ids_free_def filter_empty_conv by metis
  moreover have "list_sections no_faults K (dt_id doc) ?d' = Inr (map (stored_section (dt_id doc)) (enumerate 0 l))"
    using none
    by (simp add: list_sections_def run_query_def tables filter_map o_def sort_stored_rows section_of_stored_row [OF assms(1)])
  moreover have "list_claims no_faults (sec_id s) ?d' = Inr (stored_claims s)" if "s \<in> set l" for s
  proof -
    have "sec_id s \<in> set (all_ids (dt_sections doc))" using that by (simp add: l_def flip: flatten_ids)
    then have "sec_id s \<notin> sw_id ` set (ct_sections d0)" using free by (auto simp: ids_free_def)
    then have "filter (\<lambda>c. cm_section_id c = sec_id s) (ct_claims d0) = []"
      using ok unfolding content_ok_def references_ok_def filter_empty_conv by metis
    moreover have "filter (\<lambda>c. cm_section_id c = sec_id s) (concat (map stored_claims l)) = stored_claims s"
      using that distinct by (intro filter_stored_claims) (simp_all add: l_def flatten_ids)
    ultimately show ?thesis by (simp add: list_claims_def run_query_def tables stored_claims_def sort_stored_rows)
  qed
  moreover have "list_sections no_faults K (dc_id x) ?d' = list_sections no_faults K (dc_id x) d"
    if x: "x \<in> set (ct_documents d)" "dc_source_path x \<noteq> dt_source_path doc" for x
  proof -
    have "x \<in> set (ct_documents d0)" using x by (simp add: d0_def)
    then have "dc_id x \<noteq> dt_id doc" using free by (metis ids_free_def image_eqI)
    moreover have "dc_id x \<notin> dc_id ` {y \<in> set (ct_documents d). dc_source_path y = dt_source_path doc}"
      using x assms(2) by (auto simp: content_ok_def dest: unique_byD [OF keys_okD(3)])
    then have "filter (\<lambda>s. sw_document_id s = dc_id x) (ct_sections d0) = filter (\<lambda>s. sw_document_id s = dc_id x) (ct_sections d)"
      unfolding d0_def delete_documents_tables filter_filter by (intro filter_cong [OF refl]) metis
    ultimately show ?thesis by (simp add: list_sections_def run_query_def tables filter_map o_def)
  qed
  ultimately show ?thesis using run by (auto simp: l_def)
qed

lemma settles_sections [settles_intros]:
  "settles (insert_sections_recursive f K i ts pos seen) (insert_sections_recursive no_faults K i ts pos seen)"
proof (induction f K i ts pos seen rule: insert_sections_recursive.induct)
  case (2 f K i j hp dep t ns ch cl sm rest pos seen)
  show ?case
  proof (cases "j \<in> set seen \<and> j @ ''-'' @ show_nat pos \<in> set seen")
    case False
    note ih = 2(2) [OF refl refl False] 2(3) [OF refl refl False]
    have claims: "settles (insert_claim_stmt f sid b x) (insert_claim_stmt no_faults sid b x)" for sid b x
      by (cases x) (simp add: insert_claim_stmt_def Let_def settles_exec)
    show ?thesis
    proof (cases "bc_to (cc_strings K) hp")
      case (Some hj)
      show ?thesis unfolding insert_sections_recursive.simps Let_def Some option.case if_not_P [OF False]
        by (intro settles_then settles_exec settles_each claims ih [OF Some]) (simp split: prod.split add: ih(2) [OF Some])
    qed (use False in \<open>auto simp: Let_def settles_refl\<close>)
  qed (use 2 in simp)
qed (simp add: settles_refl)

lemma tracks_claim: "tracks f (insert_claim_stmt f sid b x) (insert_claim_stmt no_faults sid b x)"
  by (cases x) (simp add: insert_claim_stmt_def Let_def tracks_exec)

lemma tracks_sections [tracks_intros]:
  "tracks f (insert_sections_recursive f K i ts pos seen) (insert_sections_recursive no_faults K i ts pos seen)"
proof (induction f K i ts pos seen rule: insert_sections_recursive.induct)
  case (2 f K i j hp dep t ns ch cl sm rest pos seen)
  show ?case
  proof (cases "j \<in> set seen \<and> j @ ''-'' @ show_nat pos \<in> set seen")
    case False
    note ih = 2(2) [OF refl refl False] 2(3) [OF refl refl False]
    show ?thesis
    proof (cases "bc_to (cc_strings K) hp")
      case (Some hj)
      show ?thesis unfolding insert_sections_recursive.simps Let_def Some option.case if_not_P [OF False]
        by (intro tracks_then tracks_exec tracks_each tracks_claim ih [OF Some]) (simp split: prod.split add: ih(2) [OF Some])
    qed (use False in \<open>auto simp: Let_def tracks_raise\<close>)
  qed (use 2 in simp)
qed (simp add: tracks_ret)

text \<open>
  C13. Storing a document when at most one statement of the call fails, \<open>SAVEPOINT\<close>, \<open>ROLLBACK TO\<close> and
  \<open>RELEASE\<close> counted: if the call would succeed without faults, then its connection sees the whole new document
  or the database as it was, and the whole new document when the call reports success; when it reports an error and
  sees the new document, the error is that of the final \<open>RELEASE\<close>. If a constraint or the serializer stops the
  call and no statement fails, the database is left as it was.
\<close>

theorem insert_document_all_or_nothing:
  assumes "single_fault f" and "insert_document no_faults K doc d = (d0, r0)" and "insert_document f K doc d = (d', r)"
  shows "case r0 of
      Inl e \<Rightarrow> d0 = d
    | Inr _ \<Rightarrow> (case r of
        Inl e \<Rightarrow> d' = d \<or> d' = d0 \<and> (\<exists>msg. e = DatabaseError (''failed to commit: '' @ msg))
      | Inr _ \<Rightarrow> d' = d0)"
proof -
  note call = savepoint_all_or_nothing [OF _ _ assms(1) assms(2,3) [unfolded insert_document_def]]
  have "case r0 of Inl e \<Rightarrow> d0 = d
      | Inr a \<Rightarrow> (case r of
          Inl e \<Rightarrow> d' = d \<or> d' = d0 \<and> (\<exists>msg. e = DatabaseError (''failed to commit: '' @ msg))
        | Inr b \<Rightarrow> d' = d0 \<and> b = a)"
    by (rule call; intro settles_intros tracks_intros)
  then show ?thesis by (auto split: sum.splits)
qed

lemma replace_nodes_all_or_nothing:
  assumes "single_fault f" and "replace_corpus_merkle_nodes no_faults c ns d = (d0, r0)"
    and "replace_corpus_merkle_nodes f c ns d = (d', r)"
  shows "case r0 of Inl e \<Rightarrow> d0 = d | Inr a \<Rightarrow>
      (case r of Inl e \<Rightarrow> d' = d \<or> d' = d0 \<and> (\<exists>msg. e = DatabaseError (''failed to release savepoint: '' @ msg)) | Inr b \<Rightarrow> d' = d0 \<and> b = a)"
  by (rule savepoint_all_or_nothing [OF _ _ assms(1) assms(2,3) [unfolded replace_corpus_merkle_nodes_def]];
      intro settles_intros tracks_intros)

section \<open>Reading on\<close>

lemma concat_filter: "concat (map (\<lambda>x. if P x then [x] else []) xs) = filter P xs"
  by (induction xs) simp_all

lemma join_unique:
  assumes "unique_by key xs" and "a \<in> set xs"
  shows "concat (map (\<lambda>x. filter (\<lambda>y. P x y \<and> key x = key a) ys) xs) = filter (P a) ys"
  using assms
proof (induction xs)
  case (Cons x xs)
  show ?case
  proof (cases "key x = key a")
    case True
    then have "x = a" using Cons.prems by (auto dest: unique_byD)
    moreover have "\<forall>y \<in> set xs. key y \<noteq> key a" using Cons.prems(1) True by (auto simp: unique_by_def) (metis image_eqI)
    then have "concat (map (\<lambda>x. filter (\<lambda>y. P x y \<and> key x = key a) ys) xs) = []" by simp
    ultimately show ?thesis by simp
  next
    case False
    then show ?thesis using Cons by (auto simp: unique_by_def)
  qed
qed simp

lemma filter_after:
  fixes g :: "'a \<Rightarrow> 'b::linorder"
  assumes "sorted_wrt (<) (map g l)" and "k < length l"
  shows "filter (\<lambda>x. g (l ! k) < g x) l = drop (Suc k) l"
  using assms
proof (induction l arbitrary: k)
  case (Cons x l)
  then show ?case
  proof (cases k)
    case (Suc j)
    then have "g x < g (l ! j)" using Cons.prems by simp
    then have "\<not> g (l ! j) < g x" by simp
    then show ?thesis using Cons Suc by simp
  qed (auto simp: filter_id_conv)
qed simp

lemma positions_increase:
  assumes "unique_by (\<lambda>s. (sw_document_id s, sw_position s)) t"
  shows "sorted_wrt (<) (map sw_position (sort_key sw_position (filter (\<lambda>x. sw_document_id x = i) t)))"
proof -
  have "distinct (map sw_position (filter (\<lambda>x. sw_document_id x = i) t))"
    using assms by (induction t) (auto simp: unique_by_def, metis (mono_tags, lifting) image_eqI)
  then have "distinct (map sw_position (sort_key sw_position (filter (\<lambda>x. sw_document_id x = i) t)))"
    by (simp add: distinct_map)
  then show ?thesis by (simp add: strict_sorted_iff)
qed

text \<open>
  Reading on visits a document in order: for the section at index \<open>k\<close> of \<open>list_sections\<close>,
  \<open>get_next_section\<close> returns the section at index \<open>k + 1\<close>, and nothing for the last one.
\<close>

theorem next_section_follows:
  assumes "content_ok d" and "list_sections no_faults K i d = Inr l" and "k < length l"
  shows "get_next_section no_faults K (sr_id (l ! k)) d = Inr (if Suc k < length l then Some (l ! Suc k) else None)"
proof -
  define t where "t = ct_sections d"
  define L where "L = sort_key sw_position (filter (\<lambda>x. sw_document_id x = i) t)"
  have l: "l = map (section_of_row K) L" using assms(2) by (simp add: list_sections_def run_query_def L_def t_def)
  then have k: "k < length L" using assms(3) by simp
  then have a: "L ! k \<in> set t" "sw_document_id (L ! k) = i" using nth_mem [OF k] by (auto simp: L_def)
  have keys: "unique_by sw_id t" "unique_by (\<lambda>s. (sw_document_id s, sw_position s)) t"
    using assms(1) keys_okD [of d] by (simp_all add: content_ok_def t_def)
  have "[s2. s1 \<leftarrow> t, s2 \<leftarrow> t, sw_document_id s2 = sw_document_id s1 \<and> sw_position s1 < sw_position s2 \<and> sw_id s1 = sw_id (L ! k)]
      = filter (\<lambda>s2. sw_document_id s2 = i \<and> sw_position (L ! k) < sw_position s2) t"
    using join_unique [OF keys(1) a(1), of "\<lambda>s1 s2. sw_document_id s2 = sw_document_id s1 \<and> sw_position s1 < sw_position s2" t]
    by (simp add: concat_filter a(2) conj_assoc)
  moreover have "sort_key sw_position (filter (\<lambda>s2. sw_document_id s2 = i \<and> sw_position (L ! k) < sw_position s2) t) = drop (Suc k) L"
    using filter_after [OF positions_increase [OF keys(2), of i, folded L_def] k]
    by (simp add: L_def filter_sort conj_commute)
  ultimately have "get_next_section no_faults K (sw_id (L ! k)) d =
      Inr (case drop (Suc k) L of [] \<Rightarrow> None | r # _ \<Rightarrow> Some (section_of_row K r))"
    by (simp add: get_next_section_def run_query_def flip: t_def)
  then show ?thesis using k by (auto simp: l section_of_row_def Cons_nth_drop_Suc [symmetric] split: list.split)
qed

section \<open>Deleting\<close>

text \<open>
  C33. Deleting a document removes exactly what belongs to it: the document, its sections, the claims of
  those sections and every relationship with one of those claims at either end; nothing else changes. The
  result says whether there was such a document.
\<close>

theorem delete_document_exact:
  assumes "content_ok d"
  shows "delete_document no_faults i d =
    (d\<lparr>ct_documents := filter (\<lambda>x. dc_id x \<noteq> i) (ct_documents d),
       ct_sections := filter (\<lambda>s. sw_document_id s \<noteq> i) (ct_sections d),
       ct_claims := filter (\<lambda>c. \<not> in_document i d c) (ct_claims d),
       ct_relations := filter (\<lambda>r. rw_source r \<notin> cm_id ` set (filter (in_document i d) (ct_claims d)) \<and>
                                   rw_target r \<notin> cm_id ` set (filter (in_document i d) (ct_claims d))) (ct_relations d)\<rparr>,
     Inr (i \<in> dc_id ` set (ct_documents d)))"
proof -
  have sections: "sw_document_id s \<in> (\<lambda>x. i) ` {x \<in> set (ct_documents d). dc_id x = i} \<longleftrightarrow> sw_document_id s = i"
    if "s \<in> set (ct_sections d)" for s
    using that assms unfolding content_ok_def references_ok_def by (auto simp: image_iff) metis
  have claims: "cm_section_id c \<in> sw_id ` {s \<in> set (ct_sections d). sw_document_id s = i} \<longleftrightarrow> in_document i d c" for c
    by (simp add: in_document_def)
  have gone: "{s \<in> set (ct_sections d). sw_document_id s \<in> (\<lambda>x. i) ` {x \<in> set (ct_documents d). dc_id x = i}} =
      {s \<in> set (ct_sections d). sw_document_id s = i}" using sections by blast
  have "filter (\<lambda>s. sw_document_id s \<notin> (\<lambda>x. i) ` {x \<in> set (ct_documents d). dc_id x = i}) (ct_sections d) =
      filter (\<lambda>s. sw_document_id s \<noteq> i) (ct_sections d)" using sections by (intro filter_cong [OF refl]) blast
  then show ?thesis
    by (simp add: delete_document_def delete_documents_where_def delete_sections_where_def delete_claims_where_def Let_def gone claims)
qed

section \<open>Relationships\<close>

lemma related_rows_iff:
  "(c, r) \<in> set (related_rows a d) \<longleftrightarrow> r \<in> set (ct_relations d) \<and> c \<in> set (ct_claims d) \<and>
     (cm_id c = rw_target r \<and> rw_source r = a \<or> cm_id c = rw_source r \<and> rw_target r = a)"
  by (auto simp: related_rows_def)

lemma related_iff:
  "(\<exists>l. get_related_claims no_faults a None d = Inr l \<and> (\<exists>x \<in> set l. rk_claim_id x = b \<and> rk_relation_type x = ty)) \<longleftrightarrow>
   (\<exists>r \<in> set (ct_relations d). \<exists>c \<in> set (ct_claims d). cm_id c = b \<and> relation_type_parse (rw_type r) = Some ty \<and>
     (b = rw_target r \<and> rw_source r = a \<or> b = rw_source r \<and> rw_target r = a))"
  by (auto simp: get_related_claims_def run_query_def map_filter_def related_rows_iff Bex_def split: option.splits) force+

text \<open>
  Relationships are seen from both ends: when one stored claim is listed as related to another by some kind of
  relationship, the other is listed as related to the first by the same kind.
\<close>

theorem related_claims_symmetric:
  assumes "content_ok d" and "get_related_claims no_faults a None d = Inr la" and "get_related_claims no_faults b None d = Inr lb"
  shows "(\<exists>x \<in> set la. rk_claim_id x = b \<and> rk_relation_type x = ty) \<longleftrightarrow>
         (\<exists>x \<in> set lb. rk_claim_id x = a \<and> rk_relation_type x = ty)"
proof -
  have ends: "\<exists>c \<in> set (ct_claims d). cm_id c = rw_source r" "\<exists>c \<in> set (ct_claims d). cm_id c = rw_target r"
    if "r \<in> set (ct_relations d)" for r
    using that assms(1) unfolding content_ok_def references_ok_def by (metis imageE)+
  have "(\<exists>x \<in> set la. rk_claim_id x = b \<and> rk_relation_type x = ty) \<longleftrightarrow>
      (\<exists>r \<in> set (ct_relations d). relation_type_parse (rw_type r) = Some ty \<and>
        (b = rw_target r \<and> rw_source r = a \<or> b = rw_source r \<and> rw_target r = a))"
    if "get_related_claims no_faults a None d = Inr la" for a b la
    using related_iff [of a d b ty] that ends by auto
  note listed = this
  show ?thesis unfolding listed [OF assms(2)] listed [OF assms(3)] by blast
qed

section \<open>Instances\<close>

lemma example_store_ok: "content_ok example_store"
  unfolding example_store_def by (rule content_ok_run [OF content_ok_empty])

lemma example_codecs_ok: "blob_codec_ok (cc_strings example_codecs)"
  by (simp add: example_codecs_def blob_codec_ok_def)

lemma stored_document_reads_back_witness:
  "\<exists>d'. insert_document no_faults example_codecs example_document example_store = (d', Inr ()) \<and>
    list_sections no_faults example_codecs ''a.md'' d' =
      Inr (map (stored_section ''a.md'') (enumerate 0 (flatten_sections example_sections)))"
proof -
  have dedup: "deduplicate_ids example_sections = Some (dt_sections example_document)"
    "ids_free example_document (delete_documents_where (\<lambda>x. dc_source_path x = dt_source_path example_document) example_store)"
    by code_simp+
  have "length (all_ids example_sections) + 2 \<le> u64_max" by (simp add: example_sections_def u64_max_def)
  from stored_document_reads_back [OF example_codecs_ok example_store_ok dedup(1) this dedup(2)] show ?thesis
    by (auto simp: example_document_def)
qed

lemma insert_document_all_or_nothing_witness:
  "single_fault (\<lambda>n. if n = 5 then Some ''disk full'' else None) \<and>
   fst (insert_document (\<lambda>n. if n = 5 then Some ''disk full'' else None) example_codecs example_document empty_content) = empty_content"
proof -
  let ?f = "\<lambda>n. if n = 5 then Some ''disk full'' else None :: string option"
  have single: "single_fault ?f" by (simp add: single_fault_def)
  obtain d0 r0 d' r where runs: "insert_document no_faults example_codecs example_document empty_content = (d0, r0)"
    "insert_document ?f example_codecs example_document empty_content = (d', r)" by (metis surj_pair)
  have "snd (insert_document no_faults example_codecs example_document empty_content) = Inr ()"
    "snd (insert_document ?f example_codecs example_document empty_content) \<noteq> Inr ()"
    "ct_sections (fst (insert_document ?f example_codecs example_document empty_content)) \<noteq>
       ct_sections (fst (insert_document no_faults example_codecs example_document empty_content))" by code_simp+
  then have "d' = empty_content" using insert_document_all_or_nothing [OF single runs] runs by (auto split: sum.splits)
  then show ?thesis using single runs by simp
qed

text \<open>The error of \<open>ROLLBACK TO\<close> is ignored and the \<open>RELEASE\<close> after it commits: a section that cannot be
  inserted and a rollback that fails leave a document without its sections, and the previous version is gone.\<close>

lemma failed_rollback_keeps_part:
  "let (d, r) = insert_document (\<lambda>n. if n = 4 \<or> n = 5 then Some ''disk full'' else None) example_codecs example_document example_store
   in r \<noteq> Inr () \<and> ct_sections example_store \<noteq> [] \<and> map dc_id (ct_documents d) = [''a.md''] \<and> ct_sections d = []"
  by code_simp

lemma next_section_follows_witness:
  "\<exists>l. list_sections no_faults example_codecs ''a.md'' example_store = Inr l \<and> length l = 2 \<and>
     get_next_section no_faults example_codecs (sr_id (l ! 0)) example_store = Inr (Some (l ! 1))"
proof -
  define l where "l = projr (list_sections no_faults example_codecs ''a.md'' example_store)"
  have l: "list_sections no_faults example_codecs ''a.md'' example_store = Inr l"
    by (simp add: l_def list_sections_def run_query_def)
  have "length l = 2" unfolding l_def by code_simp
  then show ?thesis using l next_section_follows [OF example_store_ok l, of 0] by simp
qed

lemma delete_document_exact_witness:
  "fst (delete_document no_faults ''a.md'' example_store) =
     example_store\<lparr>ct_documents := [], ct_sections := [], ct_claims := [], ct_relations := []\<rparr>"
  unfolding delete_document_exact [OF example_store_ok] by code_simp

lemma related_claims_symmetric_witness:
  "\<exists>la lb. get_related_claims no_faults ''a:c0'' None example_store = Inr la \<and>
     get_related_claims no_faults ''b:c0'' None example_store = Inr lb \<and>
     (\<exists>x \<in> set la. rk_claim_id x = ''b:c0'' \<and> rk_relation_type x = References) \<and>
     (\<exists>x \<in> set lb. rk_claim_id x = ''a:c0'' \<and> rk_relation_type x = References)"
proof -
  define la where "la = projr (get_related_claims no_faults ''a:c0'' None example_store)"
  define lb where "lb = projr (get_related_claims no_faults ''b:c0'' None example_store)"
  have run: "get_related_claims no_faults ''a:c0'' None example_store = Inr la"
    "get_related_claims no_faults ''b:c0'' None example_store = Inr lb"
    by (simp_all add: la_def lb_def get_related_claims_def run_query_def)
  have "\<exists>x \<in> set la. rk_claim_id x = ''b:c0'' \<and> rk_relation_type x = References" unfolding la_def by code_simp
  then show ?thesis using run related_claims_symmetric [OF example_store_ok run] by blast
qed

lemma third_collision_drops_subtree:
  "let doc = example_document\<lparr>dt_sections := [MkSection ''a'' [] 1 ''x'' [] [] [] None, MkSection ''a-2'' [] 1 ''y'' [] [] [] None,
         MkSection ''a'' [] 1 ''z'' [] [MkSection ''k'' [] 2 ''w'' [] [] [] None] [] None]\<rparr>;
       (d, r) = insert_document no_faults example_codecs doc empty_content
   in r = Inr () \<and> map sw_text (ct_sections d) = [''x'', ''y'']"
  by code_simp

end
