(* ===== verification/Session_Store.thy ===== *)
theory Session_Store
  imports Content_Store Registry
begin

text \<open>
  The session tables of \<open>SqliteStorage\<close> (\<open>ministr-core/src/storage/sqlite.rs\<close>): sessions and their
  deliveries, access statistics, co-access counts and memory states. They have no references to the
  content tables and are a record of their own. A number that does not fit a signed column is an error of
  the driver. The time of a statement is an argument where a query returns it.
\<close>

section \<open>Tables\<close>

record session_row =
  sn_row_id :: string
  sn_context_budget :: nat
  sn_turn :: nat
  sn_metrics_json :: "string option"
  sn_recent_queries_json :: "string option"

record delivery_row =
  dv_session_id :: string
  dv_corpus_id :: string
  dv_content_id :: string
  dv_resolution :: string
  dv_index_resolution :: string
  dv_token_count :: nat
  dv_turn_delivered :: nat
  dv_content_hash :: string
  dv_position :: nat
  dv_compression_tier :: string
  dv_compressed_summary :: "string option"

record section_access_stat =
  as_section_id :: string
  as_access_count :: nat
  as_last_accessed :: string

record co_access_row =
  cp_section_a :: string
  cp_section_b :: string
  cp_co_count :: nat

record co_access_record =
  cr_section_id :: string
  cr_co_count :: nat

record corpus_stats =
  cs_total_accesses :: nat
  cs_unique_sections_accessed :: nat
  cs_co_access_pairs :: nat

record session_tables =
  st_sessions :: "session_row list"
  st_deliveries :: "delivery_row list"
  st_access :: "section_access_stat list"
  st_co_access :: "co_access_row list"
  st_memory :: "(string \<times> memory_state) list"

definition empty_sessions :: session_tables where
  "empty_sessions = \<lparr>st_sessions = [], st_deliveries = [], st_access = [], st_co_access = [], st_memory = []\<rparr>"

record session_codecs =
  sc_metrics :: "session_metrics blob_codec"
  sc_queries :: "string list blob_codec"

section \<open>Sessions\<close>

definition fits_i64 :: "nat \<Rightarrow> bool" where
  "fits_i64 n \<longleftrightarrow> n < 2 ^ 63"

abbreviation out_of_range :: string where
  "out_of_range \<equiv> ''out of range integral type conversion attempted''"

abbreviation delivery_key :: "delivery_row \<Rightarrow> string \<times> string \<times> string \<times> string" where
  "delivery_key r \<equiv> (dv_session_id r, dv_corpus_id r, dv_content_id r, dv_resolution r)"

definition sql_upsert_session :: "session_row \<Rightarrow> session_tables \<Rightarrow> string + session_tables \<times> unit" where
  "sql_upsert_session r d =
     (if \<not> fits_i64 (sn_context_budget r) then Inl out_of_range
      else Inr (d\<lparr>st_sessions := upsert_row sn_row_id (\<lambda>_. r) r (st_sessions d)\<rparr>, ()))"

definition sql_insert_delivery :: "delivery_row \<Rightarrow> session_tables \<Rightarrow> string + session_tables \<times> unit" where
  "sql_insert_delivery r d =
     (if \<not> fits_i64 (dv_token_count r) then Inl out_of_range
      else if delivery_key r \<in> delivery_key ` set (st_deliveries d)
      then Inl (''UNIQUE constraint failed: session_deliveries.session_id, session_deliveries.corpus_id, '' @
                ''session_deliveries.content_id, session_deliveries.resolution'')
      else if dv_session_id r \<notin> sn_row_id ` set (st_sessions d) then Inl fk_failed
      else Inr (d\<lparr>st_deliveries := st_deliveries d @ [r]\<rparr>, ()))"

text \<open>The position of each identity in the trajectory, the last one when it occurs more than once.\<close>

definition position_map :: "json_codec \<Rightarrow> delivery_identity list \<Rightarrow> (string \<times> nat) list" where
  "position_map J trajectory =
     fold (\<lambda>(pos, d). AList.update (storage_key J d) (min pos (2 ^ 63 - 1))) (enumerate 0 trajectory) []"

text \<open>The last position at which an identity occurs in a trajectory, zero when it does not.\<close>

definition last_position :: "'a list \<Rightarrow> 'a \<Rightarrow> nat" where
  "last_position t d = fold (\<lambda>(k, x) p. if x = d then k else p) (enumerate 0 t) 0"

text \<open>What of a trajectory the tables keep: the deliveries the session still has, in the order of their last access.\<close>

definition stored_trajectory :: "session \<Rightarrow> delivery_identity list" where
  "stored_trajectory s =
     (let ids = sort_key (last_position (s_trajectory s)) (map item_identity (delivered_values s))
      in drop (length ids - MAX_TRAJECTORY_LEN) ids)"

definition delivery_row_of :: "json_codec \<Rightarrow> string \<Rightarrow> (string \<times> nat) list \<Rightarrow> delivered_item \<Rightarrow> delivery_row" where
  "delivery_row_of J i positions it =
     (let d = item_identity it
      in \<lparr>dv_session_id = i, dv_corpus_id = it_corpus_id it, dv_content_id = it_content_id it,
          dv_resolution = di_resolution d, dv_index_resolution = resolution_str (it_resolution it),
          dv_token_count = it_token_count it, dv_turn_delivered = it_turn_delivered it,
          dv_content_hash = it_content_hash it,
          dv_position = (case map_of positions (storage_key J d) of None \<Rightarrow> 0 | Some p \<Rightarrow> p),
          dv_compression_tier = tier_as_str (it_compression_tier it), dv_compressed_summary = it_compressed_summary it\<rparr>)"

definition insert_delivery_stmt ::
    "sql_faults \<Rightarrow> json_codec \<Rightarrow> string \<Rightarrow> (string \<times> nat) list \<Rightarrow> delivered_item \<Rightarrow> (session_tables, unit) sql" where
  "insert_delivery_stmt f J i positions it =
     sql_exec f (\<lambda>m. ''failed to insert session delivery: '' @ m) (sql_insert_delivery (delivery_row_of J i positions it))"

definition save_session ::
    "sql_faults \<Rightarrow> json_codec \<Rightarrow> session_codecs \<Rightarrow> session \<Rightarrow> session_tables \<Rightarrow> session_tables \<times> (store_error + unit)" where
  "save_session f J K s =
     (let metrics_json = (case bc_to (sc_metrics K) (s_metrics s) of None \<Rightarrow> ''{}'' | Some j \<Rightarrow> j);
          recent_queries_json = (case bc_to (sc_queries K) (s_recent_queries s) of None \<Rightarrow> ''[]'' | Some j \<Rightarrow> j);
          row = \<lparr>sn_row_id = s_id s, sn_context_budget = s_agent_context_budget s, sn_turn = s_current_turn s,
                 sn_metrics_json = Some metrics_json, sn_recent_queries_json = Some recent_queries_json\<rparr>
      in with_conn f
        (sql_savepoint f ''failed to commit: ''
           (sql_then (sql_exec f (\<lambda>m. ''failed to upsert session: '' @ m) (sql_upsert_session row))
           (\<lambda>_. sql_then
              (sql_write f (\<lambda>m. ''failed to clear session deliveries: '' @ m)
                 (\<lambda>d. d\<lparr>st_deliveries := filter (\<lambda>r. dv_session_id r \<noteq> s_id s) (st_deliveries d)\<rparr>))
           (\<lambda>_. sql_each (insert_delivery_stmt f J (s_id s) (position_map J (s_trajectory s))) (delivered_values s))))))"

definition parse_index_resolution :: "string \<Rightarrow> resolution" where
  "parse_index_resolution s = (if s = ''summary'' then Summary else if s = ''claim'' then Claim else Section)"

definition item_of_row :: "delivery_row \<Rightarrow> delivered_item" where
  "item_of_row r =
     \<lparr>it_content_id = dv_content_id r, it_resolution = parse_index_resolution (dv_index_resolution r),
      it_corpus_id = dv_corpus_id r, it_delivery_resolution = dv_resolution r, it_token_count = dv_token_count r,
      it_turn_delivered = dv_turn_delivered r, it_content_hash = dv_content_hash r,
      it_compression_tier = tier_from_str_or_full (dv_compression_tier r),
      it_compressed_summary = dv_compressed_summary r\<rparr>"

definition identity_of_row :: "delivery_row \<Rightarrow> delivery_identity" where
  "identity_of_row r = di_new (dv_corpus_id r) (dv_content_id r) (dv_resolution r)"

definition restore_from_rows ::
    "json_codec \<Rightarrow> session_codecs \<Rightarrow> nat \<Rightarrow> session_row \<Rightarrow> delivery_row list \<Rightarrow> session" where
  "restore_from_rows J K now row rows =
     (let delivered = fold (\<lambda>r. bt_insert (storage_key J (identity_of_row r)) (item_of_row r)) rows [];
          s = session_restore J now (sn_row_id row) (sn_context_budget row) Fifo delivered (map identity_of_row rows) (sn_turn row);
          s = (case Option.bind (sn_metrics_json row) (bc_from (sc_metrics K)) of None \<Rightarrow> s | Some m \<Rightarrow> set_metrics m s)
      in (case Option.bind (sn_recent_queries_json row) (bc_from (sc_queries K)) of None \<Rightarrow> s | Some qs \<Rightarrow> set_recent_queries qs s))"

text \<open>Two queries: the session row, then its deliveries by position.\<close>

definition load_session ::
    "sql_faults \<Rightarrow> json_codec \<Rightarrow> session_codecs \<Rightarrow> nat \<Rightarrow> string \<Rightarrow> session_tables \<Rightarrow> store_error + session option" where
  "load_session f J K now i d = snd (with_conn f
     (sql_then (sql_query f (\<lambda>d. find (\<lambda>r. sn_row_id r = i) (st_sessions d)))
        (\<lambda>row. case row of
           None \<Rightarrow> sql_ret None
         | Some row \<Rightarrow>
             sql_then (sql_query f (\<lambda>d. sort_key dv_position (filter (\<lambda>r. dv_session_id r = sn_row_id row) (st_deliveries d))))
               (\<lambda>rows. sql_ret (Some (restore_from_rows J K now row rows))))) d)"

definition delete_session :: "sql_faults \<Rightarrow> string \<Rightarrow> session_tables \<Rightarrow> session_tables \<times> (store_error + bool)" where
  "delete_session f i = with_conn f
     (sql_exec f (\<lambda>m. m)
        (\<lambda>d. Inr (d\<lparr>st_sessions := filter (\<lambda>r. sn_row_id r \<noteq> i) (st_sessions d),
                    st_deliveries := (if i \<in> sn_row_id ` set (st_sessions d)
                       then filter (\<lambda>r. dv_session_id r \<noteq> i) (st_deliveries d) else st_deliveries d)\<rparr>,
                  i \<in> sn_row_id ` set (st_sessions d))))"

section \<open>Analytics\<close>

definition record_section_access ::
    "sql_faults \<Rightarrow> string \<Rightarrow> string \<Rightarrow> session_tables \<Rightarrow> session_tables \<times> (store_error + unit)" where
  "record_section_access f now i = with_conn f
     (sql_write f (\<lambda>m. m)
        (\<lambda>d. d\<lparr>st_access := upsert_row as_section_id
                 (\<lambda>x. x\<lparr>as_access_count := as_access_count x + 1, as_last_accessed := now\<rparr>)
                 \<lparr>as_section_id = i, as_access_count = 1, as_last_accessed = now\<rparr> (st_access d)\<rparr>))"

abbreviation co_key :: "co_access_row \<Rightarrow> string \<times> string" where
  "co_key r \<equiv> (cp_section_a r, cp_section_b r)"

definition bump_pair :: "string \<times> string \<Rightarrow> session_tables \<Rightarrow> session_tables" where
  "bump_pair p d = d\<lparr>st_co_access := upsert_row co_key (\<lambda>x. x\<lparr>cp_co_count := cp_co_count x + 1\<rparr>)
       \<lparr>cp_section_a = fst p, cp_section_b = snd p, cp_co_count = 1\<rparr> (st_co_access d)\<rparr>"

definition order_pair :: "string \<Rightarrow> string \<Rightarrow> string \<times> string" where
  "order_pair a b = (if a < b then (a, b) else (b, a))"

text \<open>The pairs of the double loop, self pairs skipped.\<close>

fun co_access_loop :: "string list \<Rightarrow> (string \<times> string) list" where
  "co_access_loop [] = []"
| "co_access_loop (i # ids) = map (order_pair i) (filter (\<lambda>j. i \<noteq> j) ids) @ co_access_loop ids"

definition bump_pairs :: "sql_faults \<Rightarrow> (string \<times> string) list \<Rightarrow> session_tables \<Rightarrow> session_tables \<times> (store_error + unit)" where
  "bump_pairs f ps = with_conn f (sql_transaction f (sql_each (\<lambda>p. sql_write f (\<lambda>m. m) (bump_pair p)) ps))"

definition record_co_accesses ::
    "sql_faults \<Rightarrow> string list \<Rightarrow> session_tables \<Rightarrow> session_tables \<times> (store_error + unit)" where
  "record_co_accesses f ids = bump_pairs f (co_access_loop ids)"

definition record_co_access_pairs ::
    "sql_faults \<Rightarrow> (string \<times> string) list \<Rightarrow> session_tables \<Rightarrow> session_tables \<times> (store_error + unit)" where
  "record_co_access_pairs f pairs d =
     (if pairs = [] then (d, Inr ())
      else let normalized = List.map_filter (\<lambda>(a, b). if a = b then None else Some (order_pair a b)) pairs
           in if normalized = [] then (d, Inr ()) else bump_pairs f normalized d)"

definition get_top_sections :: "sql_faults \<Rightarrow> nat \<Rightarrow> session_tables \<Rightarrow> store_error + section_access_stat list" where
  "get_top_sections f limit = run_query f (\<lambda>d. take limit (descending as_access_count (st_access d)))"

definition get_co_accessed :: "sql_faults \<Rightarrow> string \<Rightarrow> nat \<Rightarrow> session_tables \<Rightarrow> store_error + co_access_record list" where
  "get_co_accessed f i limit = run_query f
     (\<lambda>d. map (\<lambda>r. \<lparr>cr_section_id = (if cp_section_a r = i then cp_section_b r else cp_section_a r), cr_co_count = cp_co_count r\<rparr>)
        (take limit (descending cp_co_count (filter (\<lambda>r. cp_section_a r = i \<or> cp_section_b r = i) (st_co_access d)))))"

definition get_corpus_stats :: "sql_faults \<Rightarrow> session_tables \<Rightarrow> store_error + corpus_stats" where
  "get_corpus_stats f d = snd (with_conn f
     (sql_then (sql_query f (\<lambda>d. sum_list (map as_access_count (st_access d))))
     (\<lambda>total. sql_then (sql_query f (\<lambda>d. length (st_access d)))
     (\<lambda>unique. sql_then (sql_query f (\<lambda>d. length (st_co_access d)))
     (\<lambda>pairs. sql_ret \<lparr>cs_total_accesses = total, cs_unique_sections_accessed = unique, cs_co_access_pairs = pairs\<rparr>)))) d)"

section \<open>Memory states\<close>

definition save_memory_states ::
    "sql_faults \<Rightarrow> (string \<times> memory_state) list \<Rightarrow> session_tables \<Rightarrow> session_tables \<times> (store_error + unit)" where
  "save_memory_states f states = with_conn f
     (sql_transaction f
        (sql_each (\<lambda>r. sql_write f (\<lambda>m. m) (\<lambda>d. d\<lparr>st_memory := upsert_row fst (\<lambda>_. r) r (st_memory d)\<rparr>)) states))"

definition load_memory_states ::
    "sql_faults \<Rightarrow> nat \<Rightarrow> session_tables \<Rightarrow> store_error + (string \<times> memory_state) list" where
  "load_memory_states f limit = run_query f (\<lambda>d. take limit (descending (ms_access_count \<circ> snd) (st_memory d)))"

section \<open>A session and serializers\<close>

definition example_session :: session where
  "example_session = record_delivery netstring_codec ''a'' Section 10 1 ''h'' (session_new 0 ''s'' 200000 Fifo)"

definition metrics_columns :: "session_metrics \<Rightarrow> nat list" where
  "metrics_columns m =
     [sm_total_deliveries m, sm_cumulative_tokens_delivered m, sm_total_evictions m, sm_cumulative_tokens_evicted m,
      sm_total_compressions m, sm_cumulative_tokens_compressed m, sm_delta_updates m, sm_dedup_hits m,
      sm_cumulative_tokens_deduplicated m, sm_cumulative_bytes_deduplicated m]"

definition metrics_of_columns :: "nat list \<Rightarrow> session_metrics option" where
  "metrics_of_columns ns =
     (if length ns = 10
      then Some \<lparr>sm_total_deliveries = ns ! 0, sm_cumulative_tokens_delivered = ns ! 1, sm_total_evictions = ns ! 2,
        sm_cumulative_tokens_evicted = ns ! 3, sm_total_compressions = ns ! 4, sm_cumulative_tokens_compressed = ns ! 5,
        sm_delta_updates = ns ! 6, sm_dedup_hits = ns ! 7, sm_cumulative_tokens_deduplicated = ns ! 8,
        sm_cumulative_bytes_deduplicated = ns ! 9\<rparr>
      else None)"

definition example_session_codecs :: session_codecs where
  "example_session_codecs =
     \<lparr>sc_metrics = \<lparr>bc_to = (\<lambda>m. Some (enc_all (map (\<lambda>n. replicate n (CHR ''1'')) (metrics_columns m)))),
                    bc_from = (\<lambda>j. metrics_of_columns (map length (dec_all j)))\<rparr>,
      sc_queries = \<lparr>bc_to = (\<lambda>xs. Some (enc_all xs)), bc_from = (\<lambda>j. Some (dec_all j))\<rparr>\<rparr>"

section \<open>Specification of the counts\<close>

definition co_count :: "session_tables \<Rightarrow> string \<Rightarrow> string \<Rightarrow> nat" where
  "co_count d a b = sum_list (map cp_co_count (filter (\<lambda>r. co_key r = order_pair a b) (st_co_access d)))"

definition co_access_ok :: "session_tables \<Rightarrow> bool" where
  "co_access_ok d \<longleftrightarrow> unique_by co_key (st_co_access d) \<and> (\<forall>r \<in> set (st_co_access d). cp_section_a r < cp_section_b r)"

section \<open>Saving and loading\<close>

lemma set_bt_collect: "distinct (map fst ps) \<Longrightarrow> set (bt_collect ps) = set ps"
proof -
  assume d: "distinct (map fst ps)"
  have "(k, v) \<in> set (bt_collect ps) \<longleftrightarrow> (k, v) \<in> set ps" for k v
    using map_of_bt [OF bt_ok_collect, of ps k v] d
    by (simp add: map_of_bt_collect rev_map [symmetric])
  then show ?thesis by auto
qed

lemma bt_eqI: "bt_ok m \<Longrightarrow> bt_ok m' \<Longrightarrow> set m = set m' \<Longrightarrow> m = m'"
  by (rule map_sorted_distinct_set_unique [where f = fst])
    (auto simp: bt_ok_def strict_sorted_iff distinct_map)

lemma item_identities_distinct:
  assumes "delivered_ok J m"
  shows "distinct (map item_identity (map snd m))"
proof -
  have "map fst m = map (storage_key J) (map item_identity (map snd m))"
    using delivered_okD(2) [OF assms] by (auto simp: comp_def)
  then have "distinct (map (storage_key J) (map item_identity (map snd m)))"
    using bt_ok_distinct [OF delivered_okD(1) [OF assms]] by metis
  then show ?thesis unfolding distinct_map [of "storage_key J"] by blast
qed

lemma delivery_row_simps [simp]:
  "dv_session_id (delivery_row_of J i ps it) = i" "dv_token_count (delivery_row_of J i ps it) = it_token_count it"
  "identity_of_row (delivery_row_of J i ps it) = item_identity it"
  by (simp_all add: delivery_row_of_def identity_of_row_def Let_def item_identity_def)

lemma delivery_key_identity:
  "delivery_key r = delivery_key r' \<longleftrightarrow> dv_session_id r = dv_session_id r' \<and> identity_of_row r = identity_of_row r'"
  by (auto simp: identity_of_row_def di_new_def)

lemma item_of_delivery_row:
  "coarse (it_resolution it) \<Longrightarrow> it_delivery_resolution it \<noteq> [] \<Longrightarrow> item_of_row (delivery_row_of J i ps it) = it"
  using parse_resolution_iff [of "it_resolution it"]
  by (simp add: item_of_row_def delivery_row_of_def Let_def item_identity_def di_new_def parse_resolution_def parse_index_resolution_def)

lemma insert_deliveries_run:
  assumes "\<forall>it \<in> set items. fits_i64 (it_token_count it)" and "distinct (map item_identity items)"
    and "\<forall>r \<in> set (st_deliveries d). dv_session_id r = i \<longrightarrow> identity_of_row r \<notin> item_identity ` set items"
    and "i \<in> sn_row_id ` set (st_sessions d)"
  shows "\<exists>n'. sql_each (insert_delivery_stmt no_faults J i ps) items n d =
    (n', d\<lparr>st_deliveries := st_deliveries d @ map (delivery_row_of J i ps) items\<rparr>, Inr ())"
  using assms
proof (induction items arbitrary: n d)
  case (Cons it items)
  let ?r = "delivery_row_of J i ps it"
  let ?d = "d\<lparr>st_deliveries := st_deliveries d @ [?r]\<rparr>"
  have "delivery_key ?r \<notin> delivery_key ` set (st_deliveries d)"
  proof
    assume "delivery_key ?r \<in> delivery_key ` set (st_deliveries d)"
    then obtain r where "r \<in> set (st_deliveries d)" "delivery_key ?r = delivery_key r" by blast
    then show False using Cons.prems(3) unfolding delivery_key_identity by auto
  qed
  then have step: "sql_insert_delivery ?r d = Inr (?d, ())"
    using Cons.prems by (simp add: sql_insert_delivery_def)
  have "\<exists>n'. sql_each (insert_delivery_stmt no_faults J i ps) items (Suc n) ?d =
    (n', ?d\<lparr>st_deliveries := st_deliveries ?d @ map (delivery_row_of J i ps) items\<rparr>, Inr ())"
    by (rule Cons.IH) (use Cons.prems in auto)
  then show ?case by (auto simp: sql_then_def insert_delivery_stmt_def [of _ _ _ _ it] step)
qed (simp add: sql_ret_def)

lemma save_session_run:
  assumes "delivered_ok J (s_delivered s)" and "fits_i64 (s_agent_context_budget s)"
    and "\<forall>it \<in> set (delivered_values s). fits_i64 (it_token_count it)"
    and "bc_to (sc_metrics K) (s_metrics s) = Some mj" and "bc_to (sc_queries K) (s_recent_queries s) = Some qj"
  shows "save_session no_faults J K s d =
    (d\<lparr>st_sessions := upsert_row sn_row_id (\<lambda>_. \<lparr>sn_row_id = s_id s, sn_context_budget = s_agent_context_budget s, sn_turn = s_current_turn s,
                 sn_metrics_json = Some mj, sn_recent_queries_json = Some qj\<rparr>)
              \<lparr>sn_row_id = s_id s, sn_context_budget = s_agent_context_budget s, sn_turn = s_current_turn s,
                 sn_metrics_json = Some mj, sn_recent_queries_json = Some qj\<rparr> (st_sessions d),
       st_deliveries := filter (\<lambda>r. dv_session_id r \<noteq> s_id s) (st_deliveries d) @
         map (delivery_row_of J (s_id s) (position_map J (s_trajectory s))) (delivered_values s)\<rparr>, Inr ())"
    (is "_ = (d\<lparr>st_sessions := ?t, st_deliveries := ?old @ ?new\<rparr>, _)")
proof -
  let ?row = "\<lparr>sn_row_id = s_id s, sn_context_budget = s_agent_context_budget s, sn_turn = s_current_turn s,
                 sn_metrics_json = Some mj, sn_recent_queries_json = Some qj\<rparr>"
  let ?d = "d\<lparr>st_sessions := ?t, st_deliveries := ?old\<rparr>"
  have "s_id s \<in> sn_row_id ` set ?t"
    by (auto simp: upsert_row_def intro!: image_eqI [of _ sn_row_id ?row])
  then have "\<exists>n'. sql_each (insert_delivery_stmt no_faults J (s_id s) (position_map J (s_trajectory s))) (delivered_values s) 4 ?d =
    (n', ?d\<lparr>st_deliveries := st_deliveries ?d @ map (delivery_row_of J (s_id s) (position_map J (s_trajectory s))) (delivered_values s)\<rparr>, Inr ())"
    using assms(3) item_identities_distinct [OF assms(1)] by (intro insert_deliveries_run) auto
  then obtain n' where "sql_each (insert_delivery_stmt no_faults J (s_id s) (position_map J (s_trajectory s))) (delivered_values s) (Suc (Suc (Suc (Suc 0)))) ?d =
    (n', d\<lparr>st_sessions := ?t, st_deliveries := ?old @ ?new\<rparr>, Inr ())" by (auto simp: eval_nat_numeral)
  then show ?thesis
    by (simp add: save_session_def Let_def assms(2,4,5) sql_savepoint_no_faults sql_then_def sql_upsert_session_def)
qed

lemma load_session_rows:
  "load_session no_faults J K now i d = Inr (map_option (\<lambda>row. restore_from_rows J K now row
     (sort_key dv_position (filter (\<lambda>r. dv_session_id r = sn_row_id row) (st_deliveries d)))) (find (\<lambda>r. sn_row_id r = i) (st_sessions d)))"
  by (simp add: load_session_def sql_then_def sql_ret_def split: option.split)

lemma find_upsert_row:
  "find (\<lambda>x. key x = k) (upsert_row key (\<lambda>_. r) r t) = (if k = key r then Some r else find (\<lambda>x. key x = k) t)"
proof -
  have "find (\<lambda>x. key x = k) (map (\<lambda>x. if key x = key r then r else x) t) =
      (if k = key r \<and> (\<exists>x \<in> set t. key x = key r) then Some r else find (\<lambda>x. key x = k) t)"
    by (induction t) auto
  moreover have "find (\<lambda>x. key x = k) (t @ [r]) = (if k = key r then Some r else find (\<lambda>x. key x = k) t)"
    if "\<forall>x \<in> set t. key x \<noteq> key r"
    using that by (induction t) auto
  ultimately show ?thesis by (auto simp: upsert_row_def)
qed

lemma position_map_snoc:
  "position_map J (t @ [x]) = AList.update (storage_key J x) (min (length t) (2 ^ 63 - 1)) (position_map J t)"
  by (simp add: position_map_def enumerate_append_eq)

lemma last_position_snoc: "last_position (t @ [x]) d = (if x = d then length t else last_position t d)"
  by (simp add: last_position_def enumerate_append_eq)

lemma position_map_lookup:
  assumes "codec_ok J" and "length t \<le> MAX_TRAJECTORY_LEN"
  shows "(case map_of (position_map J t) (storage_key J d) of None \<Rightarrow> 0 | Some p \<Rightarrow> p) = last_position t d"
  using assms(2)
proof (induction t rule: rev_induct)
  case (snoc x t)
  then have "min (length t) (2 ^ 63 - 1) = length t" by (simp add: MAX_TRAJECTORY_LEN_def)
  then show ?case using snoc assms(1) by (simp add: position_map_snoc last_position_snoc update_conv')
qed (simp add: position_map_def last_position_def)

text \<open>Rows sorted by position list the deliveries in the order of their last access.\<close>

lemma sorted_rows_trajectory:
  assumes "codec_ok J" and "length t \<le> MAX_TRAJECTORY_LEN"
  shows "map identity_of_row (sort_key dv_position (map (delivery_row_of J i (position_map J t)) items)) =
    sort_key (last_position t) (map item_identity items)"
proof -
  have "dv_position (delivery_row_of J i (position_map J t) it) = last_position t (item_identity it)" for it
    using position_map_lookup [OF assms, of "item_identity it"] by (simp add: delivery_row_of_def Let_def)
  then show ?thesis by (simp add: sort_key_map comp_def)
qed

lemma last_position_nth: "distinct t \<Longrightarrow> k < length t \<Longrightarrow> last_position t (t ! k) = k"
  by (induction t arbitrary: k rule: rev_induct) (auto simp: last_position_snoc nth_append less_Suc_eq in_set_conv_nth)

lemma last_position_order:
  assumes "distinct t" and "distinct ids" and "set ids = set t"
  shows "sort_key (last_position t) ids = t"
proof (rule map_sorted_distinct_set_unique [where f = "last_position t"])
  have inj: "inj_on (last_position t) (set t)"
    using last_position_nth [OF assms(1)] by (auto simp: inj_on_def in_set_conv_nth)
  have t: "map (last_position t) t = [0..<length t]" by (intro nth_equalityI) (simp_all add: last_position_nth assms(1))
  show "distinct (map (last_position t) (sort_key (last_position t) ids))"
    using assms(2,3) inj by (simp add: distinct_map)
  show "sorted (map (last_position t) t)" "distinct (map (last_position t) t)" by (simp_all add: t)
  show "inj_on (last_position t) (set (sort_key (last_position t) ids) \<union> set t)" using inj assms(3) by simp
qed (simp_all add: assms(3))

lemma restored_delivered:
  fixes i ps
  assumes "delivered_ok J m" and "\<forall>it \<in> set (map snd m). coarse (it_resolution it) \<and> it_delivery_resolution it \<noteq> []"
    and "set rows = delivery_row_of J i ps ` set (map snd m)" and "distinct (map identity_of_row rows)" and "codec_ok J"
  shows "fold (\<lambda>r. bt_insert (storage_key J (identity_of_row r)) (item_of_row r)) rows [] = m"
proof -
  let ?ps = "map (\<lambda>r. (storage_key J (identity_of_row r), item_of_row r)) rows"
  have e: "fold (\<lambda>r. bt_insert (storage_key J (identity_of_row r)) (item_of_row r)) rows [] = bt_collect ?ps"
    by (simp add: bt_collect_def fold_map comp_def)
  have "distinct (map fst ?ps)"
    using assms(4,5) by (simp add: distinct_map inj_on_def comp_def)
  then have "set (bt_collect ?ps) = set ?ps" by (rule set_bt_collect)
  also have "\<dots> = set m"
  proof -
    have "set ?ps = (\<lambda>it. (storage_key J (item_identity it), it)) ` set (map snd m)"
      using assms(2,3) item_of_delivery_row by (force simp: image_image)
    also have "\<dots> = set m" using delivered_okD(2) [OF assms(1)] by (force simp: image_image)
    finally show ?thesis .
  qed
  finally show ?thesis unfolding e by (rule bt_eqI [OF bt_ok_collect delivered_okD(1) [OF assms(1)]])
qed

lemma set_recent_queries_short: "length qs \<le> MAX_RECENT_QUERIES \<Longrightarrow> fold (\<lambda>q qs. push_query qs q) qs [] = qs"
proof -
  have "length acc + length qs \<le> MAX_RECENT_QUERIES \<Longrightarrow> fold (\<lambda>q qs. push_query qs q) qs acc = acc @ qs" for acc
    by (induction qs arbitrary: acc) (simp_all add: push_query_def)
  then show "length qs \<le> MAX_RECENT_QUERIES \<Longrightarrow> ?thesis" by fastforce
qed


text \<open>So a repeated access and an access whose delivery was dropped are lost.\<close>

lemma stored_trajectory_forgets:
  assumes "session_ok J s"
  shows "distinct (stored_trajectory s)" and "set (stored_trajectory s) \<subseteq> item_identity ` set (delivered_values s)"
proof -
  have "distinct (map item_identity (delivered_values s))"
    using assms item_identities_distinct [of J "s_delivered s"] by (simp only: session_ok_def)
  then show "distinct (stored_trajectory s)" by (simp add: stored_trajectory_def Let_def distinct_map)
  show "set (stored_trajectory s) \<subseteq> item_identity ` set (delivered_values s)"
    unfolding stored_trajectory_def Let_def by (rule subset_trans [OF set_drop_subset]) (simp del: map_map)
qed

lemma settles_delivery [settles_intros]:
  "settles (insert_delivery_stmt f J i ps it) (insert_delivery_stmt no_faults J i ps it)"
  unfolding insert_delivery_stmt_def by (rule settles_exec)

lemma tracks_delivery [tracks_intros]:
  "tracks f (insert_delivery_stmt f J i ps it) (insert_delivery_stmt no_faults J i ps it)"
  unfolding insert_delivery_stmt_def by (rule tracks_exec)

text \<open>
  A save with at most one failing statement keeps the previously saved state in full or replaces it in full.
\<close>

lemma save_session_all_or_nothing:
  assumes "single_fault f" and "save_session no_faults J K s d = (d0, r0)" and "save_session f J K s d = (d', r)"
  shows "case r0 of Inl e \<Rightarrow> d0 = d | Inr a \<Rightarrow>
      (case r of Inl e \<Rightarrow> d' = d \<or> d' = d0 \<and> (\<exists>msg. e = DatabaseError (''failed to commit: '' @ msg)) | Inr b \<Rightarrow> d' = d0 \<and> b = a)"
  by (rule savepoint_all_or_nothing [OF _ _ assms(1) assms(2,3) [unfolded save_session_def Let_def]];
      intro settles_intros tracks_intros)

section \<open>Co-access counts\<close>

lemma order_pair_commute: "a \<noteq> b \<Longrightarrow> order_pair a b = order_pair b a"
  by (auto simp: order_pair_def)

lemma order_pair_eq: "a \<noteq> b \<Longrightarrow> c \<noteq> e \<Longrightarrow> order_pair a b = order_pair c e \<longleftrightarrow> {a, b} = {c, e}"
  by (auto simp: order_pair_def doubleton_eq_iff split: if_splits)

lemma bump_rows_count:
  "sum_list (map cp_co_count (filter (\<lambda>r. co_key r = q) (map (\<lambda>x. if co_key x = p then x\<lparr>cp_co_count := Suc (cp_co_count x)\<rparr> else x) t))) =
   sum_list (map cp_co_count (filter (\<lambda>r. co_key r = q) t)) + (if q = p then length (filter (\<lambda>r. co_key r = p) t) else 0)"
  by (induction t) auto

lemma unique_by_once:
  "unique_by key t \<Longrightarrow> x \<in> set t \<Longrightarrow> length (filter (\<lambda>y. key y = key x) t) = 1"
proof (induction t)
  case (Cons y t)
  then show ?case
  proof (cases "key y = key x")
    case True
    then have "filter (\<lambda>y. key y = key x) t = []" using Cons.prems(1) by (auto simp: unique_by_def filter_empty_conv) (metis image_eqI)
    then show ?thesis using True by simp
  qed (auto simp: unique_by_def)
qed simp

lemma bump_pair_count:
  assumes "unique_by co_key (st_co_access d)"
  shows "sum_list (map cp_co_count (filter (\<lambda>r. co_key r = q) (st_co_access (bump_pair p d)))) =
    sum_list (map cp_co_count (filter (\<lambda>r. co_key r = q) (st_co_access d))) + (if q = p then 1 else 0)"
proof (cases "\<exists>x \<in> set (st_co_access d). co_key x = p")
  case True
  then obtain x where "x \<in> set (st_co_access d)" "co_key x = p" by blast
  then have "length (filter (\<lambda>r. co_key r = p) (st_co_access d)) = 1" using unique_by_once [OF assms, of x] by simp
  then show ?thesis using True bump_rows_count [of q p "st_co_access d"]
    by (simp add: bump_pair_def upsert_row_def)
next
  case False
  then show ?thesis by (auto simp: bump_pair_def upsert_row_def)
qed

lemma co_access_ok_bump:
  assumes "co_access_ok d" and "a \<noteq> b"
  shows "co_access_ok (bump_pair (order_pair a b) d)"
proof -
  have "unique_by co_key (st_co_access (bump_pair (order_pair a b) d))"
    using assms(1) unfolding bump_pair_def by (simp add: co_access_ok_def unique_by_upsert)
  moreover have "\<forall>r \<in> set (st_co_access (bump_pair (order_pair a b) d)). cp_section_a r < cp_section_b r"
    using assms by (auto simp: co_access_ok_def bump_pair_def upsert_row_def order_pair_def split: if_splits)
  ultimately show ?thesis by (simp add: co_access_ok_def)
qed

text \<open>A batch of pairs: each counts for its unordered pair.\<close>

lemma bump_pairs_run:
  assumes "co_access_ok d" and "\<forall>p \<in> set ps. \<exists>a b. a \<noteq> b \<and> p = order_pair a b"
  shows "bump_pairs no_faults ps d = (fold bump_pair ps d, Inr ()) \<and> co_access_ok (fold bump_pair ps d) \<and>
    co_count (fold bump_pair ps d) x y = co_count d x y + count_list ps (order_pair x y)"
proof -
  have "\<exists>n'. sql_each (\<lambda>p. sql_write no_faults (\<lambda>m. m) (bump_pair p)) ps n d = (n', fold bump_pair ps d, Inr ())" for n
    by (induction ps arbitrary: n d) (simp_all add: sql_ret_def sql_then_def)
  then have "bump_pairs no_faults ps d = (fold bump_pair ps d, Inr ())"
    unfolding bump_pairs_def with_conn_no_faults sql_transaction_no_faults by (metis (no_types, lifting) case_prod_conv snd_conv sum.case(2))
  moreover have "co_access_ok (fold bump_pair ps d) \<and>
    co_count (fold bump_pair ps d) x y = co_count d x y + count_list ps (order_pair x y)"
    using assms
  proof (induction ps arbitrary: d)
    case (Cons p ps)
    then obtain a b where p: "a \<noteq> b" "p = order_pair a b" by auto
    then have "co_access_ok (bump_pair p d)" using co_access_ok_bump [OF Cons.prems(1)] by simp
    moreover have "co_count (bump_pair p d) x y = co_count d x y + (if order_pair x y = p then 1 else 0)"
      unfolding co_count_def using Cons.prems(1) by (intro bump_pair_count) (simp add: co_access_ok_def)
    ultimately show ?case using Cons.IH [of "bump_pair p d"] Cons.prems(2) by auto
  qed simp
  ultimately show ?thesis by blast
qed

lemma co_access_loop_count:
  "a \<noteq> b \<Longrightarrow> count_list (co_access_loop ids) (order_pair a b) = count_list ids a * count_list ids b"
proof (induction ids)
  case (Cons i ids)
  have "count_list (map (order_pair i) (filter (\<lambda>j. i \<noteq> j) js)) (order_pair a b) =
      (if i = a then count_list js b else if i = b then count_list js a else 0)" for js
    using Cons.prems by (induction js) (auto simp: order_pair_eq doubleton_eq_iff)
  then show ?case using Cons by (auto simp: algebra_simps)
qed simp

lemma co_access_loop_pairs: "p \<in> set (co_access_loop ids) \<Longrightarrow> \<exists>a b. a \<noteq> b \<and> p = order_pair a b"
  by (induction ids) auto

text \<open>
  Co-access counts are exact: recording a group of sections raises the count of two different sections by
  how often the group has the one times how often it has the other, so by one when the group has no repetition; a
  section is never paired with itself, and each unordered pair has one row.
\<close>

theorem record_co_accesses_exact:
  assumes "co_access_ok d" and "record_co_accesses no_faults ids d = (d', r)"
  shows "r = Inr () \<and> co_access_ok d' \<and>
    (\<forall>a b. a \<noteq> b \<longrightarrow> co_count d' a b = co_count d a b + count_list ids a * count_list ids b)"
proof -
  have pairs: "\<forall>p \<in> set (co_access_loop ids). \<exists>a b. a \<noteq> b \<and> p = order_pair a b" using co_access_loop_pairs by blast
  show ?thesis using bump_pairs_run [OF assms(1) pairs] assms(2) co_access_loop_count
    by (auto simp: record_co_accesses_def)
qed

section \<open>Instances\<close>

lemma record_co_accesses_exact_witness:
  "co_count (fst (record_co_accesses no_faults [''a'', ''b'', ''a''] empty_sessions)) ''b'' ''a'' = 2"
proof -
  have ok: "co_access_ok empty_sessions" by (simp add: co_access_ok_def empty_sessions_def unique_by_def)
  obtain d' r where run: "record_co_accesses no_faults [''a'', ''b'', ''a''] empty_sessions = (d', r)" by (cases "record_co_accesses no_faults [''a'', ''b'', ''a''] empty_sessions")
  have "co_count d' ''b'' ''a'' = co_count empty_sessions ''b'' ''a'' + 1 * 2"
    using record_co_accesses_exact [OF ok run] by (auto simp: numeral_2_eq_2)
  moreover have "co_count empty_sessions ''b'' ''a'' = 0" by (simp add: co_count_def empty_sessions_def)
  ultimately show ?thesis by (simp add: run)
qed


end
