(* ===== verification/Symbol_Store.thy ===== *)
theory Symbol_Store
  imports Content_Store Text "HOL-Library.Product_Lexorder" "HOL-Library.Sublist" "HOL-Library.Multiset"
begin

text \<open>
  The symbol tables of \<open>SqliteStorage\<close> (\<open>ministr-core/src/storage/sqlite.rs\<close>): symbols and references
  between them, occurrences, references waiting for their target, and the endpoints and links between languages. The
  database extends the content tables, whose calls work on it unchanged. A reference has foreign keys with
  cascade to both its symbols, so replacing a symbol drops its references. The fuzzy search tokenizes its query,
  matches with \<open>LIKE\<close> and ranks what it found.
\<close>

section \<open>Records and tables\<close>

record symbol_record =
  sy_id :: string
  sy_file_path :: string
  sy_name :: string
  sy_kind :: string
  sy_visibility :: string
  sy_signature :: string
  sy_doc_comment :: "string option"
  sy_module_path :: string
  sy_line_start :: nat
  sy_line_end :: nat
  sy_cyclomatic_complexity :: "nat option"

record symbol_ref_record =
  rf_from_symbol_id :: string
  rf_to_symbol_id :: string
  rf_ref_kind :: ref_kind

record ref_row =
  fr_from :: string
  fr_to :: string
  fr_kind :: string

record occurrence_record =
  oc_file_path :: string
  oc_name :: string
  oc_symbol_id :: string
  oc_byte_start :: nat
  oc_byte_end :: nat
  oc_line :: nat
  oc_col :: nat

record pending_ref_record =
  pr_from_symbol_id :: string
  pr_target_name :: string
  pr_kind :: string
  pr_file_path :: string
  pr_target_crate :: "string option"

record bridge_endpoint_record =
  be_id :: "nat option"
  be_file_path :: string
  be_binding_key :: string
  be_kind :: string
  be_role :: string
  be_language :: string
  be_line :: nat
  be_symbol_name :: string
  be_confidence :: f32

record bridge_link_record =
  bl_export_ep_id :: nat
  bl_import_ep_id :: nat
  bl_kind :: string
  bl_confidence :: f32

record bridge_link_detail =
  bd_kind :: string
  bd_confidence :: f32
  bd_export_file :: string
  bd_export_binding_key :: string
  bd_export_symbol :: string
  bd_export_language :: string
  bd_export_line :: nat
  bd_export_symbol_id :: "string option"
  bd_import_file :: string
  bd_import_binding_key :: string
  bd_import_symbol :: string
  bd_import_language :: string
  bd_import_line :: nat
  bd_import_symbol_id :: "string option"

record symbol_filter =
  sf_name :: "string option"
  sf_name_exact :: "string option"
  sf_kind :: "string option"
  sf_visibility :: "string option"
  sf_module :: "string option"
  sf_file_path :: "string option"

text \<open>Endpoint ids come from \<open>AUTOINCREMENT\<close>, which never reuses one: the table keeps the next.\<close>

record symbol_tables = content_tables +
  yt_symbols :: "symbol_record list"
  yt_refs :: "ref_row list"
  yt_occurrences :: "occurrence_record list"
  yt_pending :: "pending_ref_record list"
  yt_endpoints :: "(nat \<times> bridge_endpoint_record) list"
  yt_next_endpoint :: nat
  yt_links :: "bridge_link_record list"

section \<open>Symbols\<close>

definition delete_symbols_where :: "(symbol_record \<Rightarrow> bool) \<Rightarrow> 'a symbol_tables_scheme \<Rightarrow> 'a symbol_tables_scheme" where
  "delete_symbols_where P d =
     (let gone = map sy_id (filter P (yt_symbols d))
      in d\<lparr>yt_symbols := filter (\<lambda>s. \<not> P s) (yt_symbols d),
           yt_refs := filter (\<lambda>r. fr_from r \<notin> set gone \<and> fr_to r \<notin> set gone) (yt_refs d)\<rparr>)"

definition sql_replace_symbol :: "symbol_record \<Rightarrow> 'a symbol_tables_scheme \<Rightarrow> 'a symbol_tables_scheme" where
  "sql_replace_symbol s d =
     (let d = delete_symbols_where (\<lambda>x. sy_id x = sy_id s) d in d\<lparr>yt_symbols := yt_symbols d @ [s]\<rparr>)"

definition insert_symbol_stmt :: "sql_faults \<Rightarrow> symbol_record \<Rightarrow> ('a symbol_tables_scheme, unit) sql" where
  "insert_symbol_stmt f s = sql_write f (\<lambda>m. ''failed to insert symbol '' @ sy_id s @ '': '' @ m) (sql_replace_symbol s)"

definition insert_symbols ::
    "sql_faults \<Rightarrow> symbol_record list \<Rightarrow> 'a symbol_tables_scheme \<Rightarrow> 'a symbol_tables_scheme \<times> (store_error + unit)" where
  "insert_symbols f symbols = with_conn f
     (sql_then (sql_prepare f (\<lambda>m. m)) (\<lambda>_. sql_each (insert_symbol_stmt f) symbols))"

definition symbol_count :: "sql_faults \<Rightarrow> 'a symbol_tables_scheme \<Rightarrow> store_error + nat" where
  "symbol_count f = run_query f (\<lambda>d. length (yt_symbols d))"

definition get_symbol :: "sql_faults \<Rightarrow> string \<Rightarrow> 'a symbol_tables_scheme \<Rightarrow> store_error + symbol_record option" where
  "get_symbol f i = run_query f (\<lambda>d. find (\<lambda>s. sy_id s = i) (yt_symbols d))"

text \<open>Batches of 500 ids, each ordered by id.\<close>

definition BATCH_SIZE :: nat where
  "BATCH_SIZE = 500"

function get_symbols_loop :: "sql_faults \<Rightarrow> string list \<Rightarrow> ('a symbol_tables_scheme, symbol_record list) sql" where
  "get_symbols_loop f ids =
     (if ids = [] then sql_ret []
      else sql_then (sql_query f (\<lambda>d. sort_key sy_id (filter (\<lambda>s. sy_id s \<in> set (take BATCH_SIZE ids)) (yt_symbols d))))
        (\<lambda>ss. sql_then (get_symbols_loop f (drop BATCH_SIZE ids)) (\<lambda>rest. sql_ret (ss @ rest))))"
  by pat_completeness auto
termination
  by (relation "measure (\<lambda>(f, ids). length ids)") (auto simp: BATCH_SIZE_def)

declare get_symbols_loop.simps [simp del]

definition get_symbols ::
    "sql_faults \<Rightarrow> string list \<Rightarrow> 'a symbol_tables_scheme \<Rightarrow> store_error + symbol_record list" where
  "get_symbols f ids d = snd (with_conn f (get_symbols_loop f ids) d)"

definition delete_symbols_for_file ::
    "sql_faults \<Rightarrow> string \<Rightarrow> 'a symbol_tables_scheme \<Rightarrow> 'a symbol_tables_scheme \<times> (store_error + nat)" where
  "delete_symbols_for_file f path = with_conn f
     (sql_exec f (\<lambda>m. m)
        (\<lambda>d. Inr (delete_symbols_where (\<lambda>s. sy_file_path s = path) d,
                  length (filter (\<lambda>s. sy_file_path s = path) (yt_symbols d)))))"

section \<open>Fuzzy search\<close>

text \<open>\<open>LIKE\<close>: \<open>%\<close> matches any characters, \<open>_\<close> one, and letters of ASCII match in either case.\<close>

fun sql_like :: "string list \<Rightarrow> string list \<Rightarrow> bool" where
  "sql_like [] t = (t = [])"
| "sql_like (p # ps) [] = (p = ''%'' \<and> sql_like ps [])"
| "sql_like (p # ps) (c # cs) =
     (if p = ''%'' then sql_like ps (c # cs) \<or> sql_like (p # ps) cs
      else (p = ''_'' \<or> map to_ascii_lower p = map to_ascii_lower c) \<and> sql_like ps cs)"

definition like :: "string \<Rightarrow> string \<Rightarrow> bool" where
  "like pat t = sql_like (utf8_chars pat) (utf8_chars t)"

text \<open>Split at the upper case characters.\<close>

fun camel_split_loop :: "char_tables \<Rightarrow> string list \<Rightarrow> string \<Rightarrow> string list" where
  "camel_split_loop T [] current = (if current = [] then [] else [st_to_lower T current])"
| "camel_split_loop T (c # cs) current =
     (if ch_uppercase T c \<and> current \<noteq> [] then st_to_lower T current # camel_split_loop T cs c
      else camel_split_loop T cs (current @ c))"

definition split_camel_case :: "char_tables \<Rightarrow> string \<Rightarrow> string list" where
  "split_camel_case T word = camel_split_loop T (utf8_chars word) []"

definition word_tokens :: "char_tables \<Rightarrow> string \<Rightarrow> string list" where
  "word_tokens T word =
     (let snake_parts = filter (\<lambda>s. s \<noteq> []) (split_on (CHR ''_'') word)
      in if 1 < length snake_parts then concat (map (split_camel_case T) snake_parts) else split_camel_case T word)"

definition tokenize_symbol_query :: "char_tables \<Rightarrow> string \<Rightarrow> string list" where
  "tokenize_symbol_query T query =
     filter (\<lambda>t. 2 \<le> length t) (remdups_adj (sort (concat (map (word_tokens T) (split_whitespace query)))))"

datatype token_mode = And | Or

definition name_matches :: "char_tables \<Rightarrow> token_mode \<Rightarrow> string \<Rightarrow> string \<Rightarrow> bool" where
  "name_matches T mode query n =
     (let tokens = tokenize_symbol_query T query
      in if length tokens \<le> 1
         then like (''%'' @ (case tokens of [] \<Rightarrow> query | t # _ \<Rightarrow> t) @ ''%'') n
         else (case mode of
                 And \<Rightarrow> list_all (\<lambda>t. like (''%'' @ t @ ''%'') n) tokens
               | Or \<Rightarrow> list_ex (\<lambda>t. like (''%'' @ t @ ''%'') n) tokens))"

definition symbol_matches :: "char_tables \<Rightarrow> token_mode \<Rightarrow> symbol_filter \<Rightarrow> symbol_record \<Rightarrow> bool" where
  "symbol_matches T mode q s \<longleftrightarrow>
     (case sf_name_exact q of
        Some e \<Rightarrow> sy_name s = e
      | None \<Rightarrow> (case sf_name q of None \<Rightarrow> True | Some n \<Rightarrow> name_matches T mode n (sy_name s))) \<and>
     (case sf_kind q of None \<Rightarrow> True | Some k \<Rightarrow> sy_kind s = k) \<and>
     (case sf_visibility q of None \<Rightarrow> True | Some v \<Rightarrow> sy_visibility s = v) \<and>
     (case sf_module q of None \<Rightarrow> True
      | Some m \<Rightarrow> sy_module_path s = m \<or> like (m @ ''::%'') (sy_module_path s) \<or> like (''%'' @ m @ ''%'') (sy_file_path s)) \<and>
     (case sf_file_path q of None \<Rightarrow> True | Some p \<Rightarrow> sy_file_path s = p)"

definition query_symbols ::
    "sql_faults \<Rightarrow> char_tables \<Rightarrow> symbol_filter \<Rightarrow> token_mode \<Rightarrow> ('a symbol_tables_scheme, symbol_record list) sql" where
  "query_symbols f T q mode = sql_query f
     (\<lambda>d. sort_key (\<lambda>s. (sy_file_path s, sy_line_start s)) (filter (symbol_matches T mode q) (yt_symbols d)))"

definition of_bool_nat :: "bool \<Rightarrow> nat" where
  "of_bool_nat b = (if b then 1 else 0)"

definition match_rank :: "char_tables \<Rightarrow> string \<Rightarrow> symbol_record \<Rightarrow> nat \<times> nat \<times> nat \<times> nat" where
  "match_rank T query s =
     (let query = map to_ascii_lower query; query_tokens = tokenize_symbol_query T query;
          n = map to_ascii_lower (sy_name s); name_tokens = tokenize_symbol_query T n
      in (of_bool_nat (n = query), of_bool_nat (take (length query) n = query),
          length (filter (\<lambda>t. t \<in> set name_tokens) query_tokens),
          length (filter (\<lambda>t. list_ex (\<lambda>u. take (length t) u = t) name_tokens) query_tokens)))"

text \<open>The comparator as a key: ranks fall, then length of the name, path and line grow.\<close>

definition rank_key :: "char_tables \<Rightarrow> string \<Rightarrow> symbol_record \<Rightarrow> (int \<times> int \<times> int \<times> int) \<times> nat \<times> string \<times> nat" where
  "rank_key T query s =
     (case match_rank T query s of (a, b, c, e) \<Rightarrow>
        ((- int a, - int b, - int c, - int e), length (sy_name s), sy_file_path s, sy_line_start s))"

definition rank_symbol_matches :: "char_tables \<Rightarrow> string \<Rightarrow> symbol_record list \<Rightarrow> symbol_record list" where
  "rank_symbol_matches T query results = sort_key (rank_key T query) results"

definition list_symbols ::
    "sql_faults \<Rightarrow> char_tables \<Rightarrow> symbol_filter \<Rightarrow> 'a symbol_tables_scheme \<Rightarrow> store_error + symbol_record list" where
  "list_symbols f T q d = snd (with_conn f
     (sql_then (query_symbols f T q And)
     (\<lambda>results. sql_then
        (if results = [] \<and> (case sf_name q of None \<Rightarrow> False | Some n \<Rightarrow> 1 < length (tokenize_symbol_query T n))
         then query_symbols f T q Or else sql_ret results)
     (\<lambda>results. sql_ret (case sf_name q of None \<Rightarrow> results | Some n \<Rightarrow> rank_symbol_matches T n results)))) d)"

section \<open>Occurrences\<close>

definition insert_occurrence_stmt :: "sql_faults \<Rightarrow> occurrence_record \<Rightarrow> ('a symbol_tables_scheme, unit) sql" where
  "insert_occurrence_stmt f x =
     sql_write f (\<lambda>m. ''failed to insert occurrence '' @ oc_name x @ '' in '' @ oc_file_path x @ '': '' @ m)
       (\<lambda>d. d\<lparr>yt_occurrences := yt_occurrences d @ [x]\<rparr>)"

definition insert_occurrences ::
    "sql_faults \<Rightarrow> occurrence_record list \<Rightarrow> 'a symbol_tables_scheme \<Rightarrow> 'a symbol_tables_scheme \<times> (store_error + unit)" where
  "insert_occurrences f xs = with_conn f
     (sql_then (sql_prepare f (\<lambda>m. m)) (\<lambda>_. sql_each (insert_occurrence_stmt f) xs))"

definition list_occurrences ::
    "sql_faults \<Rightarrow> string \<Rightarrow> 'a symbol_tables_scheme \<Rightarrow> store_error + occurrence_record list" where
  "list_occurrences f path =
     run_query f (\<lambda>d. sort_key oc_byte_start (filter (\<lambda>x. oc_file_path x = path) (yt_occurrences d)))"

definition delete_occurrences_for_file ::
    "sql_faults \<Rightarrow> string \<Rightarrow> 'a symbol_tables_scheme \<Rightarrow> 'a symbol_tables_scheme \<times> (store_error + nat)" where
  "delete_occurrences_for_file f path = with_conn f
     (sql_exec f (\<lambda>m. m)
        (\<lambda>d. Inr (d\<lparr>yt_occurrences := filter (\<lambda>x. oc_file_path x \<noteq> path) (yt_occurrences d)\<rparr>,
                  length (filter (\<lambda>x. oc_file_path x = path) (yt_occurrences d)))))"

section \<open>References\<close>

definition sql_replace_ref :: "ref_row \<Rightarrow> 'a symbol_tables_scheme \<Rightarrow> string + 'a symbol_tables_scheme \<times> unit" where
  "sql_replace_ref r d =
     (if fr_from r \<notin> sy_id ` set (yt_symbols d) \<or> fr_to r \<notin> sy_id ` set (yt_symbols d) then Inl fk_failed
      else Inr (d\<lparr>yt_refs := filter (\<lambda>x. x \<noteq> r) (yt_refs d) @ [r]\<rparr>, ()))"

definition ref_row_of :: "symbol_ref_record \<Rightarrow> ref_row" where
  "ref_row_of r = \<lparr>fr_from = rf_from_symbol_id r, fr_to = rf_to_symbol_id r, fr_kind = ref_kind_as_str (rf_ref_kind r)\<rparr>"

definition insert_ref_stmt :: "sql_faults \<Rightarrow> symbol_ref_record \<Rightarrow> ('a symbol_tables_scheme, unit) sql" where
  "insert_ref_stmt f r =
     sql_exec f (\<lambda>m. ''failed to insert symbol ref '' @ rf_from_symbol_id r @ '' -> '' @ rf_to_symbol_id r @ '': '' @ m)
       (sql_replace_ref (ref_row_of r))"

definition insert_symbol_refs ::
    "sql_faults \<Rightarrow> symbol_ref_record list \<Rightarrow> 'a symbol_tables_scheme \<Rightarrow> 'a symbol_tables_scheme \<times> (store_error + unit)" where
  "insert_symbol_refs f refs = with_conn f
     (sql_then (sql_prepare f (\<lambda>m. m)) (\<lambda>_. sql_each (insert_ref_stmt f) refs))"

definition query_refs ::
    "sql_faults \<Rightarrow> string \<Rightarrow> ref_kind option \<Rightarrow> 'a symbol_tables_scheme \<Rightarrow> store_error + symbol_ref_record list" where
  "query_refs f i kind = run_query f
     (\<lambda>d. map (\<lambda>r. \<lparr>rf_from_symbol_id = fr_from r, rf_to_symbol_id = fr_to r,
                     rf_ref_kind = (case ref_kind_parse (fr_kind r) of None \<Rightarrow> Uses | Some k \<Rightarrow> k)\<rparr>)
        (filter (\<lambda>r. (fr_from r = i \<or> fr_to r = i) \<and> (case kind of None \<Rightarrow> True | Some k \<Rightarrow> fr_kind r = ref_kind_as_str k))
           (yt_refs d)))"

definition delete_refs_for_file ::
    "sql_faults \<Rightarrow> string \<Rightarrow> 'a symbol_tables_scheme \<Rightarrow> 'a symbol_tables_scheme \<times> (store_error + unit)" where
  "delete_refs_for_file f path = with_conn f
     (sql_write f (\<lambda>m. m)
        (\<lambda>d. let ids = map sy_id (filter (\<lambda>s. sy_file_path s = path) (yt_symbols d))
             in d\<lparr>yt_refs := filter (\<lambda>r. \<not> (fr_from r \<in> set ids \<or> fr_to r \<in> set ids)) (yt_refs d)\<rparr>))"

text \<open>
  The recursive query: the callers at depth 1, then of every caller found at depth \<open>k\<close> its callers at
  depth \<open>k + 1\<close>, up to depth 10. \<open>UNION\<close> drops repeated pairs of symbol and depth.
\<close>

definition callers_of :: "string list \<Rightarrow> 'a symbol_tables_scheme \<Rightarrow> string list" where
  "callers_of ids d = remdups (map fr_from (filter (\<lambda>r. fr_to r \<in> set ids \<and> fr_kind r = ''calls'') (yt_refs d)))"

primrec caller_levels :: "nat \<Rightarrow> string list \<Rightarrow> 'a symbol_tables_scheme \<Rightarrow> string list" where
  "caller_levels 0 ids d = []"
| "caller_levels (Suc depth) ids d = (let level = callers_of ids d in level @ caller_levels depth level d)"

definition caller_count :: "string \<Rightarrow> 'a symbol_tables_scheme \<Rightarrow> nat" where
  "caller_count i d = length (remdups (caller_levels 10 [i] d))"

text \<open>A failed row counts as zero, as does a number that does not fit \<open>u32\<close>; symbols without callers are left out of the map.\<close>

primrec caller_counts_loop ::
    "sql_faults \<Rightarrow> string list \<Rightarrow> (string \<times> nat) list \<Rightarrow> ('a symbol_tables_scheme, (string \<times> nat) list) sql" where
  "caller_counts_loop f [] result = sql_ret result"
| "caller_counts_loop f (i # ids) result =
     (\<lambda>n d. let count = (case f n of Some _ \<Rightarrow> 0 | None \<Rightarrow> if caller_count i d < 2 ^ 32 then caller_count i d else 0)
            in caller_counts_loop f ids (if 0 < count then AList.update i count result else result) (Suc n) d)"

definition transitive_caller_counts ::
    "sql_faults \<Rightarrow> string list \<Rightarrow> 'a symbol_tables_scheme \<Rightarrow> store_error + (string \<times> nat) list" where
  "transitive_caller_counts f ids d =
     snd (with_conn f (sql_then (sql_prepare f (\<lambda>m. m)) (\<lambda>_. caller_counts_loop f ids [])) d)"

section \<open>Links between languages\<close>

primrec insert_endpoints_loop ::
    "sql_faults \<Rightarrow> bridge_endpoint_record list \<Rightarrow> ('a symbol_tables_scheme, nat list) sql" where
  "insert_endpoints_loop f [] = sql_ret []"
| "insert_endpoints_loop f (e # es) =
     sql_then
       (sql_exec f (\<lambda>m. ''failed to insert bridge endpoint '' @ [CHR 0x27] @ be_binding_key e @ [CHR 0x27] @ '': '' @ m)
          (\<lambda>d. Inr (d\<lparr>yt_endpoints := yt_endpoints d @ [(yt_next_endpoint d, e)], yt_next_endpoint := Suc (yt_next_endpoint d)\<rparr>,
                    yt_next_endpoint d)))
       (\<lambda>i. sql_then (insert_endpoints_loop f es) (\<lambda>ids. sql_ret (i # ids)))"

definition insert_bridge_endpoints ::
    "sql_faults \<Rightarrow> bridge_endpoint_record list \<Rightarrow> 'a symbol_tables_scheme \<Rightarrow> 'a symbol_tables_scheme \<times> (store_error + nat list)" where
  "insert_bridge_endpoints f es = with_conn f
     (sql_then (sql_prepare f (\<lambda>m. m)) (\<lambda>_. insert_endpoints_loop f es))"

abbreviation link_key :: "bridge_link_record \<Rightarrow> nat \<times> nat" where
  "link_key l \<equiv> (bl_export_ep_id l, bl_import_ep_id l)"

definition sql_replace_link :: "bridge_link_record \<Rightarrow> 'a symbol_tables_scheme \<Rightarrow> string + 'a symbol_tables_scheme \<times> unit" where
  "sql_replace_link l d =
     (if bl_export_ep_id l \<notin> fst ` set (yt_endpoints d) \<or> bl_import_ep_id l \<notin> fst ` set (yt_endpoints d) then Inl fk_failed
      else Inr (d\<lparr>yt_links := replace_row link_key l (yt_links d)\<rparr>, ()))"

definition insert_link_stmt :: "sql_faults \<Rightarrow> bridge_link_record \<Rightarrow> ('a symbol_tables_scheme, unit) sql" where
  "insert_link_stmt f l = sql_exec f (\<lambda>m. ''failed to insert bridge link: '' @ m) (sql_replace_link l)"

definition insert_bridge_links ::
    "sql_faults \<Rightarrow> bridge_link_record list \<Rightarrow> 'a symbol_tables_scheme \<Rightarrow> 'a symbol_tables_scheme \<times> (store_error + unit)" where
  "insert_bridge_links f ls = with_conn f
     (sql_then (sql_prepare f (\<lambda>m. m)) (\<lambda>_. sql_each (insert_link_stmt f) ls))"

definition endpoint_symbol :: "bridge_endpoint_record \<Rightarrow> 'a symbol_tables_scheme \<Rightarrow> string option" where
  "endpoint_symbol e d = map_option sy_id
     (find (\<lambda>s. sy_file_path s = be_file_path e \<and> sy_name s = be_symbol_name e \<and>
              sy_line_start s \<le> be_line e \<and> be_line e \<le> sy_line_end s) (yt_symbols d))"

definition link_detail ::
    "bridge_link_record \<Rightarrow> bridge_endpoint_record \<Rightarrow> bridge_endpoint_record \<Rightarrow> 'a symbol_tables_scheme \<Rightarrow> bridge_link_detail" where
  "link_detail l ex im d =
     \<lparr>bd_kind = bl_kind l, bd_confidence = bl_confidence l,
      bd_export_file = be_file_path ex, bd_export_binding_key = be_binding_key ex, bd_export_symbol = be_symbol_name ex,
      bd_export_language = be_language ex, bd_export_line = be_line ex, bd_export_symbol_id = endpoint_symbol ex d,
      bd_import_file = be_file_path im, bd_import_binding_key = be_binding_key im, bd_import_symbol = be_symbol_name im,
      bd_import_language = be_language im, bd_import_line = be_line im, bd_import_symbol_id = endpoint_symbol im d\<rparr>"

definition query_bridge_links ::
    "sql_faults \<Rightarrow> string option \<Rightarrow> string option \<Rightarrow> 'a symbol_tables_scheme \<Rightarrow> store_error + bridge_link_detail list" where
  "query_bridge_links f path kind = run_query f
     (\<lambda>d. map (\<lambda>(l, ex, im). link_detail l ex im d)
        (descending (\<lambda>(l, ex, im). bl_confidence l)
           [(l, ex, im). l \<leftarrow> yt_links d, (i, ex) \<leftarrow> yt_endpoints d, (j, im) \<leftarrow> yt_endpoints d,
              bl_export_ep_id l = i \<and> bl_import_ep_id l = j \<and>
              (case path of None \<Rightarrow> True | Some p \<Rightarrow> be_file_path ex = p \<or> be_file_path im = p) \<and>
              (case kind of None \<Rightarrow> True | Some k \<Rightarrow> bl_kind l = k)]))"

definition delete_bridge_data_for_file ::
    "sql_faults \<Rightarrow> string \<Rightarrow> 'a symbol_tables_scheme \<Rightarrow> 'a symbol_tables_scheme \<times> (store_error + unit)" where
  "delete_bridge_data_for_file f path = with_conn f
     (sql_then
        (sql_write f (\<lambda>m. m)
           (\<lambda>d. let ids = map fst (filter (\<lambda>(i, e). be_file_path e = path) (yt_endpoints d))
                in d\<lparr>yt_links := filter (\<lambda>l. \<not> (bl_export_ep_id l \<in> set ids \<or> bl_import_ep_id l \<in> set ids)) (yt_links d)\<rparr>))
     (\<lambda>_. sql_write f (\<lambda>m. m)
        (\<lambda>d. let ids = map fst (filter (\<lambda>(i, e). be_file_path e = path) (yt_endpoints d))
             in d\<lparr>yt_endpoints := filter (\<lambda>(i, e). be_file_path e \<noteq> path) (yt_endpoints d),
                  yt_links := filter (\<lambda>l. bl_export_ep_id l \<notin> set ids \<and> bl_import_ep_id l \<notin> set ids) (yt_links d)\<rparr>)))"

definition clear_bridge_data ::
    "sql_faults \<Rightarrow> 'a symbol_tables_scheme \<Rightarrow> 'a symbol_tables_scheme \<times> (store_error + unit)" where
  "clear_bridge_data f = with_conn f
     (sql_then (sql_write f (\<lambda>m. m) (\<lambda>d. d\<lparr>yt_links := []\<rparr>))
     (\<lambda>_. sql_write f (\<lambda>m. m) (\<lambda>d. d\<lparr>yt_endpoints := [], yt_links := []\<rparr>)))"

section \<open>Pending references\<close>

abbreviation pending_key :: "pending_ref_record \<Rightarrow> string \<times> string \<times> string" where
  "pending_key r \<equiv> (pr_from_symbol_id r, pr_target_name r, pr_kind r)"

definition upsert_pending_stmt :: "sql_faults \<Rightarrow> pending_ref_record \<Rightarrow> ('a symbol_tables_scheme, unit) sql" where
  "upsert_pending_stmt f r =
     sql_write f (\<lambda>m. ''failed to upsert pending ref '' @ [CHR 0x27] @ pr_target_name r @ [CHR 0x27] @ '': '' @ m)
       (\<lambda>d. d\<lparr>yt_pending := replace_row pending_key r (yt_pending d)\<rparr>)"

definition upsert_pending_refs ::
    "sql_faults \<Rightarrow> pending_ref_record list \<Rightarrow> 'a symbol_tables_scheme \<Rightarrow> 'a symbol_tables_scheme \<times> (store_error + unit)" where
  "upsert_pending_refs f refs = with_conn f
     (sql_then (sql_prepare f (\<lambda>m. m)) (\<lambda>_. sql_each (upsert_pending_stmt f) refs))"

definition list_pending_refs :: "sql_faults \<Rightarrow> 'a symbol_tables_scheme \<Rightarrow> store_error + pending_ref_record list" where
  "list_pending_refs f = run_query f yt_pending"

definition delete_pending_stmt :: "sql_faults \<Rightarrow> pending_ref_record \<Rightarrow> ('a symbol_tables_scheme, unit) sql" where
  "delete_pending_stmt f r =
     sql_write f (\<lambda>m. ''failed to delete pending ref '' @ [CHR 0x27] @ pr_target_name r @ [CHR 0x27] @ '': '' @ m)
       (\<lambda>d. d\<lparr>yt_pending := filter (\<lambda>x. pending_key x \<noteq> pending_key r) (yt_pending d)\<rparr>)"

definition delete_pending_refs ::
    "sql_faults \<Rightarrow> pending_ref_record list \<Rightarrow> 'a symbol_tables_scheme \<Rightarrow> 'a symbol_tables_scheme \<times> (store_error + unit)" where
  "delete_pending_refs f refs = with_conn f
     (sql_then (sql_prepare f (\<lambda>m. m)) (\<lambda>_. sql_each (delete_pending_stmt f) refs))"

section \<open>Runs\<close>

datatype symbol_op =
    InsertSymbols "symbol_record list"
  | DeleteSymbolsForFile string
  | InsertOccurrences "occurrence_record list"
  | DeleteOccurrencesForFile string
  | InsertSymbolRefs "symbol_ref_record list"
  | DeleteRefsForFile string
  | InsertBridgeEndpoints "bridge_endpoint_record list"
  | InsertBridgeLinks "bridge_link_record list"
  | DeleteBridgeDataForFile string
  | ClearBridgeData
  | UpsertPendingRefs "pending_ref_record list"
  | DeletePendingRefs "pending_ref_record list"

primrec symbol_step :: "sql_faults \<Rightarrow> symbol_op \<Rightarrow> 'a symbol_tables_scheme \<Rightarrow> 'a symbol_tables_scheme" where
  "symbol_step f (InsertSymbols ss) d = fst (insert_symbols f ss d)"
| "symbol_step f (DeleteSymbolsForFile p) d = fst (delete_symbols_for_file f p d)"
| "symbol_step f (InsertOccurrences xs) d = fst (insert_occurrences f xs d)"
| "symbol_step f (DeleteOccurrencesForFile p) d = fst (delete_occurrences_for_file f p d)"
| "symbol_step f (InsertSymbolRefs rs) d = fst (insert_symbol_refs f rs d)"
| "symbol_step f (DeleteRefsForFile p) d = fst (delete_refs_for_file f p d)"
| "symbol_step f (InsertBridgeEndpoints es) d = fst (insert_bridge_endpoints f es d)"
| "symbol_step f (InsertBridgeLinks ls) d = fst (insert_bridge_links f ls d)"
| "symbol_step f (DeleteBridgeDataForFile p) d = fst (delete_bridge_data_for_file f p d)"
| "symbol_step f ClearBridgeData d = fst (clear_bridge_data f d)"
| "symbol_step f (UpsertPendingRefs rs) d = fst (upsert_pending_refs f rs d)"
| "symbol_step f (DeletePendingRefs rs) d = fst (delete_pending_refs f rs d)"

definition empty_symbols :: symbol_tables where
  "empty_symbols =
     \<lparr>ct_roots = [], ct_documents = [], ct_sections = [], ct_claims = [], ct_relations = [], ct_file_hashes = [],
      ct_merkle = [], ct_merkle_nodes = [], yt_symbols = [], yt_refs = [], yt_occurrences = [], yt_pending = [],
      yt_endpoints = [], yt_next_endpoint = 1, yt_links = []\<rparr>"

definition symbol_run :: "(sql_faults \<times> symbol_op) list \<Rightarrow> 'a symbol_tables_scheme \<Rightarrow> 'a symbol_tables_scheme" where
  "symbol_run ops d = fold (\<lambda>(f, op). symbol_step f op) ops d"

section \<open>Specification\<close>

definition symbols_ok :: "'a symbol_tables_scheme \<Rightarrow> bool" where
  "symbols_ok d \<longleftrightarrow>
     unique_by sy_id (yt_symbols d) \<and> distinct (yt_refs d) \<and>
     (\<forall>r \<in> set (yt_refs d). fr_from r \<in> sy_id ` set (yt_symbols d) \<and> fr_to r \<in> sy_id ` set (yt_symbols d)) \<and>
     unique_by fst (yt_endpoints d) \<and> list_all (\<lambda>e. fst e < yt_next_endpoint d) (yt_endpoints d) \<and>
     unique_by link_key (yt_links d) \<and>
     (\<forall>l \<in> set (yt_links d). bl_export_ep_id l \<in> fst ` set (yt_endpoints d) \<and> bl_import_ep_id l \<in> fst ` set (yt_endpoints d)) \<and>
     unique_by pending_key (yt_pending d)"

text \<open>The call graph.\<close>

definition call_graph :: "'a symbol_tables_scheme \<Rightarrow> (string \<times> string) set" where
  "call_graph d = {(fr_from r, fr_to r) | r. r \<in> set (yt_refs d) \<and> fr_kind r = ''calls''}"

definition callers_within :: "nat \<Rightarrow> string \<Rightarrow> 'a symbol_tables_scheme \<Rightarrow> string set" where
  "callers_within n i d = {x. \<exists>k. 1 \<le> k \<and> k \<le> n \<and> (x, i) \<in> call_graph d ^^ k}"

text \<open>ASCII text, and tables that lower ASCII text as usual.\<close>

definition ascii_text :: "string \<Rightarrow> bool" where
  "ascii_text s \<longleftrightarrow> list_all (\<lambda>c. (of_char c :: nat) < 128) s"

definition lowers_ascii :: "char_tables \<Rightarrow> bool" where
  "lowers_ascii T \<longleftrightarrow> (\<forall>s. ascii_text s \<longrightarrow> st_to_lower T s = map to_ascii_lower s)"

definition example_symbol :: "string \<Rightarrow> string \<Rightarrow> symbol_record" where
  "example_symbol i n =
     \<lparr>sy_id = i, sy_file_path = ''a.rs'', sy_name = n, sy_kind = ''function'', sy_visibility = ''pub'', sy_signature = ''fn'',
      sy_doc_comment = None, sy_module_path = ''m'', sy_line_start = 1, sy_line_end = 2, sy_cyclomatic_complexity = None\<rparr>"

definition example_call :: "string \<Rightarrow> string \<Rightarrow> symbol_ref_record" where
  "example_call a b = \<lparr>rf_from_symbol_id = a, rf_to_symbol_id = b, rf_ref_kind = Calls\<rparr>"

definition example_symbols :: symbol_tables where
  "example_symbols =
     fst (insert_symbol_refs no_faults [example_call ''b'' ''a'', example_call ''c'' ''b'', example_call ''a'' ''c'']
       (fst (insert_symbols no_faults
          [example_symbol ''a'' ''parse_config'', example_symbol ''b'' ''ConfigParser'', example_symbol ''c'' ''run''] empty_symbols)))"

section \<open>The constraints hold\<close>

lemma symbols_ok_delete_where:
  assumes "symbols_ok d"
  shows "symbols_ok (delete_symbols_where P d)"
  using assms unique_by_split [of sy_id "yt_symbols d" _ P]
  by (auto simp: symbols_ok_def delete_symbols_where_def Let_def)

lemma symbols_ok_replace_symbol:
  assumes "symbols_ok d"
  shows "symbols_ok (sql_replace_symbol s d)"
proof -
  let ?d = "delete_symbols_where (\<lambda>x. sy_id x = sy_id s) d"
  have "symbols_ok ?d" using symbols_ok_delete_where [OF assms] .
  moreover have "sy_id s \<notin> sy_id ` set (yt_symbols ?d)" by (auto simp: delete_symbols_where_def Let_def)
  ultimately show ?thesis
    by (auto simp: symbols_ok_def sql_replace_symbol_def Let_def intro!: unique_by_append)
qed

lemma symbols_ok_replace_ref: "symbols_ok d \<Longrightarrow> sql_replace_ref r d = Inr (d', u) \<Longrightarrow> symbols_ok d'"
  by (auto simp: symbols_ok_def sql_replace_ref_def split: if_splits)

lemma symbols_ok_add_endpoint:
  "symbols_ok d \<Longrightarrow> symbols_ok (d\<lparr>yt_endpoints := yt_endpoints d @ [(yt_next_endpoint d, e)], yt_next_endpoint := Suc (yt_next_endpoint d)\<rparr>)"
  by (auto simp: symbols_ok_def list_all_iff less_SucI intro!: unique_by_append)

lemma symbols_ok_replace_link:
  assumes "symbols_ok d" and "sql_replace_link l d = Inr (d', u)"
  shows "symbols_ok d'"
proof -
  from assms(2) have "bl_export_ep_id l \<in> fst ` set (yt_endpoints d)" "bl_import_ep_id l \<in> fst ` set (yt_endpoints d)"
    and d': "d' = d\<lparr>yt_links := replace_row link_key l (yt_links d)\<rparr>"
    unfolding sql_replace_link_def by (simp_all split: if_split_asm)
  with assms(1) show ?thesis by (simp add: symbols_ok_def set_replace_row unique_by_replace)
qed

lemma symbols_ok_drop_links: "symbols_ok d \<Longrightarrow> symbols_ok (d\<lparr>yt_links := filter P (yt_links d)\<rparr>)"
  by (auto simp: symbols_ok_def)

lemma symbols_ok_drop_endpoints:
  assumes "symbols_ok d" and "ids = map fst (filter (\<lambda>(i, e). P e) (yt_endpoints d))"
  shows "symbols_ok (d\<lparr>yt_endpoints := filter (\<lambda>(i, e). \<not> P e) (yt_endpoints d),
     yt_links := filter (\<lambda>l. bl_export_ep_id l \<notin> set ids \<and> bl_import_ep_id l \<notin> set ids) (yt_links d)\<rparr>)"
  using assms(1) unique_by_split [of fst "yt_endpoints d" _ "\<lambda>(i, e). P e"]
  unfolding assms(2) by (auto simp: symbols_ok_def list_all_iff case_prod_beta' intro!: unique_by_filter)

interpretation symbols: sql_relation "\<lambda>d d'. symbols_ok d \<longrightarrow> symbols_ok d'"
  by unfold_locales auto

lemma symbols_keeps_stmt:
  "symbols.keeps (insert_symbol_stmt f s)" "symbols.keeps (insert_occurrence_stmt f x)" "symbols.keeps (insert_ref_stmt f r)"
  "symbols.keeps (insert_link_stmt f l)" "symbols.keeps (upsert_pending_stmt f p)" "symbols.keeps (delete_pending_stmt f p)"
proof -
  show "symbols.keeps (insert_symbol_stmt f s)"
    unfolding insert_symbol_stmt_def by (rule symbols.keeps_write) (simp add: symbols_ok_replace_symbol)
  show "symbols.keeps (insert_occurrence_stmt f x)"
    unfolding insert_occurrence_stmt_def by (rule symbols.keeps_write) (simp add: symbols_ok_def)
  show "symbols.keeps (insert_ref_stmt f r)"
    unfolding insert_ref_stmt_def by (rule symbols.keeps_exec) (blast dest: symbols_ok_replace_ref)
  show "symbols.keeps (insert_link_stmt f l)"
    unfolding insert_link_stmt_def by (rule symbols.keeps_exec) (blast dest: symbols_ok_replace_link)
  show "symbols.keeps (upsert_pending_stmt f p)"
    unfolding upsert_pending_stmt_def by (rule symbols.keeps_write) (simp add: symbols_ok_def unique_by_replace)
  show "symbols.keeps (delete_pending_stmt f p)"
    unfolding delete_pending_stmt_def by (rule symbols.keeps_write) (simp add: symbols_ok_def unique_by_filter)
qed

lemma symbols_keeps_endpoints: "symbols.keeps (insert_endpoints_loop f es)"
  by (induction es) (auto intro!: symbols.keeps_intros symbols_ok_add_endpoint)

lemma symbols_keeps_batch:
  "(\<And>r. symbols.keeps (st r)) \<Longrightarrow> symbols_ok d \<Longrightarrow>
     symbols_ok (fst (with_conn f (sql_then (sql_prepare f w) (\<lambda>_. sql_each st rs)) d))"
  using symbols.with_conn_keeps [of "sql_then (sql_prepare f w) (\<lambda>_. sql_each st rs)" d f]
  by (simp add: symbols.keeps_intros)

lemma symbols_keeps_deletions:
  assumes "symbols_ok d"
  shows "symbols_ok (fst (delete_symbols_for_file f p d))" "symbols_ok (fst (delete_occurrences_for_file f p d))"
    "symbols_ok (fst (delete_refs_for_file f p d))" "symbols_ok (fst (delete_bridge_data_for_file f p d))"
    "symbols_ok (fst (clear_bridge_data f d))"
proof -
  note conn = symbols.with_conn_keeps [THEN mp, OF _ assms]
  show "symbols_ok (fst (delete_symbols_for_file f p d))"
    unfolding delete_symbols_for_file_def by (intro conn symbols.keeps_exec) (auto intro: symbols_ok_delete_where)
  show "symbols_ok (fst (delete_occurrences_for_file f p d))"
    unfolding delete_occurrences_for_file_def by (intro conn symbols.keeps_exec) (auto simp: symbols_ok_def)
  show "symbols_ok (fst (delete_refs_for_file f p d))"
    unfolding delete_refs_for_file_def Let_def by (intro conn symbols.keeps_write) (auto simp: symbols_ok_def)
  show "symbols_ok (fst (delete_bridge_data_for_file f p d))"
    unfolding delete_bridge_data_for_file_def Let_def
    by (intro conn symbols.keeps_then symbols.keeps_write impI symbols_ok_drop_links symbols_ok_drop_endpoints refl)
  show "symbols_ok (fst (clear_bridge_data f d))"
    unfolding clear_bridge_data_def
    by (intro conn symbols.keeps_then symbols.keeps_write) (auto simp: symbols_ok_def unique_by_def)
qed

lemma symbols_ok_step: "symbols_ok d \<Longrightarrow> symbols_ok (symbol_step f op d)"
proof (cases op)
  case (InsertBridgeEndpoints es)
  assume ok: "symbols_ok d"
  have "symbols.keeps (sql_then (sql_prepare f (\<lambda>m. m)) (\<lambda>_. insert_endpoints_loop f es))"
    by (intro symbols.keeps_then symbols.keeps_prepare symbols_keeps_endpoints)
  from symbols.with_conn_keeps [THEN mp, OF this ok] show ?thesis
    by (simp add: InsertBridgeEndpoints insert_bridge_endpoints_def)
qed (simp_all add: symbols_keeps_deletions insert_symbols_def insert_occurrences_def insert_symbol_refs_def
    insert_bridge_links_def upsert_pending_refs_def delete_pending_refs_def symbols_keeps_batch symbols_keeps_stmt)

lemma symbols_ok_run: "symbols_ok d \<Longrightarrow> symbols_ok (symbol_run ops d)"
  unfolding symbol_run_def by (induction ops arbitrary: d) (auto intro: symbols_ok_step)

lemma symbols_ok_empty: "symbols_ok empty_symbols"
  by (simp add: symbols_ok_def empty_symbols_def unique_by_def)

text \<open>
  The symbol tables stay consistent: after any sequence of writing calls, whichever of their statements fail, symbol
  ids, references, endpoint ids, links and pending references are unique, a reference or link never outlives what it
  refers to, and no endpoint id is handed out twice.
\<close>

theorem symbol_run_ok: "symbols_ok (symbol_run ops empty_symbols)"
  using symbols_ok_run [OF symbols_ok_empty] .

section \<open>Lookup in batches\<close>

lemma get_symbols_loop_free:
  "\<exists>n' rs. get_symbols_loop no_faults ids n d = (n', d, Inr rs) \<and>
     (distinct ids \<longrightarrow> mset rs = mset (filter (\<lambda>s. sy_id s \<in> set ids) (yt_symbols d)))"
proof (induction "no_faults" ids arbitrary: n rule: get_symbols_loop.induct)
  case (1 ids)
  show ?case
  proof (cases "ids = []")
    case True
    then show ?thesis by (simp add: get_symbols_loop.simps sql_ret_def)
  next
    case False
    let ?a = "take BATCH_SIZE ids" and ?b = "drop BATCH_SIZE ids"
    from 1 [OF False, of "Suc n"] obtain n' rs where rest: "get_symbols_loop no_faults ?b (Suc n) d = (n', d, Inr rs)"
      "distinct ?b \<longrightarrow> mset rs = mset (filter (\<lambda>s. sy_id s \<in> set ?b) (yt_symbols d))" by blast
    have ids: "set ids = set ?a \<union> set ?b" "distinct ids \<longrightarrow> set ?a \<inter> set ?b = {} \<and> distinct ?b"
      by (metis append_take_drop_id set_append, metis append_take_drop_id distinct_append)
    have "distinct ids \<longrightarrow> mset (filter (\<lambda>s. sy_id s \<in> set ids) (yt_symbols d)) =
        mset (filter (\<lambda>s. sy_id s \<in> set ?a) (yt_symbols d)) + mset (filter (\<lambda>s. sy_id s \<in> set ?b) (yt_symbols d))"
      unfolding mset_filter ids(1) using ids(2)
      by (intro impI multiset_eqI) auto
    then show ?thesis using rest ids(2) False
      by (subst get_symbols_loop.simps) (simp add: sql_then_def sql_ret_def)
  qed
qed

text \<open>
  Looking symbols up in batches returns exactly the stored symbols with the given ids, each once, however many
  batches the ids take.
\<close>

theorem get_symbols_exact:
  assumes "distinct ids"
  shows "\<exists>rs. get_symbols no_faults ids d = Inr rs \<and> mset rs = mset (filter (\<lambda>s. sy_id s \<in> set ids) (yt_symbols d))"
  using get_symbols_loop_free [of ids 1 d] assms by (auto simp: get_symbols_def)

lemma get_symbols_exact_witness:
  "\<exists>rs. get_symbols no_faults [''c'', ''x'', ''a''] example_symbols = Inr rs \<and>
     mset rs = {#example_symbol ''a'' ''parse_config'', example_symbol ''c'' ''run''#}"
proof -
  have "filter (\<lambda>s. sy_id s \<in> set [''c'', ''x'', ''a'']) (yt_symbols example_symbols) =
      [example_symbol ''a'' ''parse_config'', example_symbol ''c'' ''run'']" by code_simp
  then show ?thesis using get_symbols_exact [of "[''c'', ''x'', ''a'']" example_symbols] by simp
qed

section \<open>Callers\<close>

lemma set_callers_of: "set (callers_of ids d) = {x. \<exists>y \<in> set ids. (x, y) \<in> call_graph d}"
  by (auto simp: callers_of_def call_graph_def image_iff)

lemma callers_within_0 [simp]: "callers_within 0 i d = {}"
  by (simp add: callers_within_def)

lemma callers_within_Suc:
  "callers_within (Suc n) i d = {x. (x, i) \<in> call_graph d} \<union> (\<Union>y \<in> {y. (y, i) \<in> call_graph d}. callers_within n y d)"
proof (intro equalityI subsetI)
  fix x assume "x \<in> callers_within (Suc n) i d"
  then obtain k where k: "1 \<le> k" "k \<le> Suc n" "(x, i) \<in> call_graph d ^^ k" by (auto simp: callers_within_def)
  then obtain k' where k': "k = Suc k'" by (cases k) auto
  with k(3) obtain y where "(x, y) \<in> call_graph d ^^ k'" "(y, i) \<in> call_graph d" by (auto elim: relpow_Suc_E)
  then show "x \<in> {x. (x, i) \<in> call_graph d} \<union> (\<Union>y \<in> {y. (y, i) \<in> call_graph d}. callers_within n y d)"
    using k k' by (cases "k' = 0") (auto simp: callers_within_def intro!: exI [of _ k'])
next
  fix x assume "x \<in> {x. (x, i) \<in> call_graph d} \<union> (\<Union>y \<in> {y. (y, i) \<in> call_graph d}. callers_within n y d)"
  then show "x \<in> callers_within (Suc n) i d"
  proof
    assume "x \<in> {x. (x, i) \<in> call_graph d}"
    then show ?thesis by (auto simp: callers_within_def intro!: exI [of _ 1])
  next
    assume "x \<in> (\<Union>y \<in> {y. (y, i) \<in> call_graph d}. callers_within n y d)"
    then obtain y k where "(y, i) \<in> call_graph d" "k \<le> n" "(x, y) \<in> call_graph d ^^ k" by (auto simp: callers_within_def)
    then show ?thesis by (auto simp: callers_within_def intro!: exI [of _ "Suc k"])
  qed
qed

lemma set_caller_levels: "set (caller_levels n ids d) = (\<Union>i \<in> set ids. callers_within n i d)"
  by (induction n arbitrary: ids) (auto simp: Let_def set_callers_of callers_within_Suc)

lemma caller_count_card: "caller_count i d = card (callers_within 10 i d)"
proof -
  have "caller_count i d = card (set (caller_levels 10 [i] d))"
    unfolding caller_count_def by (metis distinct_card distinct_remdups set_remdups)
  then show ?thesis by (simp add: set_caller_levels)
qed

lemma callers_are_sources: "callers_within n i d \<subseteq> fr_from ` set (yt_refs d)"
  by (induction n arbitrary: i) (auto simp: callers_within_Suc call_graph_def)

lemma caller_count_small: "caller_count i d \<le> length (yt_refs d)"
proof -
  have "card (callers_within 10 i d) \<le> card (fr_from ` set (yt_refs d))"
    by (rule card_mono) (simp_all add: callers_are_sources)
  also have "\<dots> \<le> length (yt_refs d)" by (metis card_length length_map list.set_map)
  finally show ?thesis by (simp add: caller_count_card)
qed

lemma caller_counts_loop_free:
  "caller_counts_loop no_faults ids m n d = (n', d', r) \<Longrightarrow>
     \<exists>m'. r = Inr m' \<and> map_of m' = (\<lambda>i. if i \<in> set ids \<and> 0 < caller_count i d \<and> caller_count i d < 2 ^ 32
       then Some (caller_count i d) else map_of m i)"
proof (induction ids arbitrary: m n)
  case Nil
  then show ?case by (auto simp: sql_ret_def)
next
  case (Cons i ids)
  show ?case using Cons.IH [OF Cons.prems [simplified caller_counts_loop.simps Let_def]]
    by (auto simp: no_fault update_conv fun_eq_iff split: if_splits)
qed

text \<open>
  C29. When no statement fails and there are fewer than \<open>2^32\<close> references, the caller count of a symbol is the number of
  symbols from which a path of at most ten calls leads to it, and symbols without callers are left out. All of these are
  transitive callers, so the count is the number of all transitive callers when each of them reaches the symbol in at most
  ten calls; farther callers are not counted, against what the trait and the service document.
\<close>

theorem caller_counts_exact:
  assumes "length (yt_refs d) < 2 ^ 32"
  shows "\<exists>m. transitive_caller_counts no_faults ids d = Inr m \<and>
    (\<forall>i. map_of m i =
       (if i \<in> set ids \<and> callers_within 10 i d \<noteq> {} then Some (card (callers_within 10 i d)) else None)) \<and>
    (\<forall>i. callers_within 10 i d \<subseteq> {x. (x, i) \<in> (call_graph d)\<^sup>+}) \<and>
    (\<forall>i. {x. (x, i) \<in> (call_graph d)\<^sup>+} \<subseteq> callers_within 10 i d \<longrightarrow>
       card (callers_within 10 i d) = card {x. (x, i) \<in> (call_graph d)\<^sup>+})"
proof -
  have sub: "callers_within 10 i d \<subseteq> {x. (x, i) \<in> (call_graph d)\<^sup>+}" for i
    by (auto simp: callers_within_def trancl_power Suc_le_eq)
  have small: "caller_count i d < 2 ^ 32" for i
    using caller_count_small [of i d] assms by linarith
  have pos: "0 < caller_count i d \<longleftrightarrow> callers_within 10 i d \<noteq> {}" for i
    using finite_subset [OF callers_are_sources [of 10 i d]] by (simp add: caller_count_card card_gt_0_iff)
  obtain n' d' r where run: "caller_counts_loop no_faults ids [] 2 d = (n', d', r)" by (metis prod_cases3)
  from caller_counts_loop_free [OF this] obtain m where
    m: "r = Inr m" "map_of m = (\<lambda>i. if i \<in> set ids \<and> callers_within 10 i d \<noteq> {} then Some (caller_count i d) else None)"
    using small by (auto simp: pos cong: if_cong)
  have "transitive_caller_counts no_faults ids d = Inr m"
    using run m(1) by (simp add: transitive_caller_counts_def sql_then_def numeral_2_eq_2)
  moreover have "card (callers_within 10 i d) = card {x. (x, i) \<in> (call_graph d)\<^sup>+}"
    if "{x. (x, i) \<in> (call_graph d)\<^sup>+} \<subseteq> callers_within 10 i d" for i
    using that sub [of i] by (metis subset_antisym)
  ultimately show ?thesis using m(2) sub by (auto simp: caller_count_card)
qed

text \<open>On a chain of eleven calls the farthest caller is not counted.\<close>

lemma eleventh_caller_not_counted:
  "let d = empty_symbols\<lparr>yt_refs := map (\<lambda>k. \<lparr>fr_from = show_nat (Suc k), fr_to = show_nat k, fr_kind = ''calls''\<rparr>) [0..<11]\<rparr>
   in caller_count ''0'' d = 10 \<and> card (callers_within 11 ''0'' d) = 11"
proof -
  define d where "d = empty_symbols\<lparr>yt_refs := map (\<lambda>k. \<lparr>fr_from = show_nat (Suc k), fr_to = show_nat k, fr_kind = ''calls''\<rparr>) [0..<11]\<rparr>"
  have "caller_count ''0'' d = 10" "length (remdups (caller_levels 11 [''0''] d)) = 11" unfolding d_def by code_simp+
  moreover have "card (callers_within 11 ''0'' d) = length (remdups (caller_levels 11 [''0''] d))"
    using set_caller_levels [of 11 "[''0'']" d] by (simp add: length_remdups_card_conv)
  ultimately show ?thesis unfolding d_def [symmetric] by (simp add: Let_def)
qed

lemma caller_counts_exact_witness:
  "\<exists>m. transitive_caller_counts no_faults [''a'', ''x''] example_symbols = Inr m \<and> map_of m ''a'' = Some 3 \<and> map_of m ''x'' = None"
proof -
  have "length (yt_refs example_symbols) = 3" by code_simp
  then have refs: "length (yt_refs example_symbols) < 2 ^ 32" by simp
  have "caller_count ''a'' example_symbols = 3" by code_simp
  then have a: "card (callers_within 10 ''a'' example_symbols) = 3" by (simp add: caller_count_card)
  then have "callers_within 10 ''a'' example_symbols \<noteq> {}" by auto
  moreover have "caller_levels 10 [''x''] example_symbols = []" by code_simp
  then have "callers_within 10 ''x'' example_symbols = {}"
    using set_caller_levels [of 10 "[''x'']" example_symbols] by simp
  ultimately show ?thesis using a caller_counts_exact [OF refs, of "[''a'', ''x'']"] by force
qed

section \<open>Search\<close>

lemma sql_like_any: "sql_like [''%''] cs"
  by (induction cs) simp_all

lemma sql_like_zero: "sql_like ps cs \<Longrightarrow> sql_like (''%'' # ps) cs"
  by (cases cs) simp_all

lemma sql_like_skip: "sql_like ps cs \<Longrightarrow> sql_like (''%'' # ps) (xs @ cs)"
  by (induction xs) (simp_all add: sql_like_zero)

lemma sql_like_literal:
  "map to_ascii_lower p = map to_ascii_lower t \<Longrightarrow> sql_like ps cs \<Longrightarrow>
     sql_like (map (\<lambda>c. [c]) p @ ps) (map (\<lambda>c. [c]) t @ cs)"
proof (induction p arbitrary: t)
  case (Cons a p)
  then obtain b t' where t: "t = b # t'" by (cases t) auto
  with Cons have "sql_like (map (\<lambda>c. [c]) p @ ps) (map (\<lambda>c. [c]) t' @ cs)" by simp
  then show ?case using Cons.prems(1) by (auto simp: t sql_like_zero)
qed simp

lemma to_ascii_lower_idem [simp]: "to_ascii_lower (to_ascii_lower c) = to_ascii_lower c"
  by (auto simp: to_ascii_lower_def ascii_upper_def)

lemma utf8_chars_text: "ascii_text s \<Longrightarrow> utf8_chars s = map (\<lambda>c. [c]) s"
  by (induction s) (simp_all add: ascii_text_def utf8_len_def)

lemma ascii_text_lower: "ascii_text s \<Longrightarrow> ascii_text (map to_ascii_lower s)"
  by (induction s) (auto simp: ascii_text_def to_ascii_lower_def ascii_upper_def)

lemma ascii_text_append: "ascii_text (s @ t) \<longleftrightarrow> ascii_text s \<and> ascii_text t"
  by (simp add: ascii_text_def)

lemma like_contains:
  assumes "ascii_text p" and "ascii_text n" and "sublist (map to_ascii_lower p) (map to_ascii_lower n)"
  shows "like (''%'' @ p @ ''%'') n"
proof -
  from assms(3) obtain a b where "map to_ascii_lower n = a @ map to_ascii_lower p @ b" by (auto simp: sublist_def)
  then obtain x y z where n: "n = x @ y @ z" "map to_ascii_lower y = map to_ascii_lower p"
    by (metis map_eq_append_conv)
  let ?s = "map (\<lambda>c. [c]) :: string \<Rightarrow> string list"
  have "sql_like (''%'' # (?s p @ [''%''])) (?s x @ ?s y @ ?s z)"
    by (intro sql_like_skip sql_like_literal sql_like_any n(2) [symmetric])
  moreover have "utf8_chars (''%'' @ p @ ''%'') = ''%'' # ?s p @ [''%'']"
    using assms(1) by (subst utf8_chars_text) (simp_all add: ascii_text_def)
  moreover have "utf8_chars n = ?s x @ ?s y @ ?s z" using utf8_chars_text [OF assms(2)] by (simp add: n(1))
  ultimately show ?thesis by (simp only: like_def append_Cons)
qed

lemma camel_split_pieces:
  "t \<in> set (camel_split_loop T cs cur) \<Longrightarrow> \<exists>u. sublist u (cur @ concat cs) \<and> t = st_to_lower T u"
proof (induction cs arbitrary: cur)
  case (Cons c cs)
  show ?case
  proof (cases "ch_uppercase T c \<and> cur \<noteq> []")
    case True
    with Cons.prems consider "t = st_to_lower T cur" | "t \<in> set (camel_split_loop T cs c)" by auto
    then show ?thesis
    proof cases
      case 2
      from Cons.IH [OF this] obtain u where "sublist u (concat (c # cs))" "t = st_to_lower T u" by auto
      then show ?thesis by (metis sublist_append)
    qed (auto intro: sublist_append_rightI)
  next
    case False
    with Cons.prems show ?thesis using Cons.IH [of "cur @ c"] by auto
  qed
qed (auto split: if_splits)

lemma split_on_pieces: "prefix (hd (split_on c w)) w \<and> (\<forall>p \<in> set (split_on c w). sublist p w)"
proof (induction w)
  case (Cons x w)
  obtain q qs where "split_on c w = q # qs" by (cases "split_on c w") auto
  with Cons show ?case by (auto simp: sublist_Cons_right)
qed simp

lemma camel_case_pieces: "t \<in> set (split_camel_case T w) \<Longrightarrow> \<exists>u. sublist u w \<and> t = st_to_lower T u"
  unfolding split_camel_case_def using camel_split_pieces [of t T "utf8_chars w" "[]"] by (simp add: concat_utf8_chars)

lemma word_tokens_pieces:
  assumes "t \<in> set (word_tokens T w)"
  shows "\<exists>u. sublist u w \<and> t = st_to_lower T u"
proof (cases "1 < length (filter (\<lambda>s. s \<noteq> []) (split_on (CHR ''_'') w))")
  case True
  with assms obtain p where "p \<in> set (split_on (CHR ''_'') w)" "t \<in> set (split_camel_case T p)"
    by (auto simp: word_tokens_def)
  then show ?thesis using split_on_pieces [of "CHR ''_''" w] camel_case_pieces [of t T p]
    by (meson sublist_order.order_trans)
next
  case False
  with assms show ?thesis by (intro camel_case_pieces) (simp add: word_tokens_def)
qed

lemma query_token_pieces:
  assumes "split_whitespace q = [q]" and "t \<in> set (tokenize_symbol_query T q)"
  shows "\<exists>u. sublist u q \<and> t = st_to_lower T u"
  using assms by (auto simp: tokenize_symbol_query_def dest: word_tokens_pieces)

lemma ascii_text_sublist: "ascii_text s \<Longrightarrow> sublist u s \<Longrightarrow> ascii_text u"
  by (auto simp: sublist_def ascii_text_append)

lemma contained_name_matches:
  assumes "lowers_ascii T" and "split_whitespace q = [q]" and "ascii_text q" and "ascii_text n"
    and "sublist (map to_ascii_lower q) (map to_ascii_lower n)"
  shows "name_matches T mode q n"
proof -
  have tok: "like (''%'' @ t @ ''%'') n" if t: "t \<in> set (tokenize_symbol_query T q)" for t
  proof -
    from query_token_pieces [OF assms(2) t] obtain u where u: "sublist u q" "t = st_to_lower T u" by blast
    have ut: "ascii_text u" using ascii_text_sublist [OF assms(3) u(1)] .
    with u(2) assms(1) have "t = map to_ascii_lower u" by (simp add: lowers_ascii_def)
    moreover have "sublist (map to_ascii_lower u) (map to_ascii_lower n)"
      using map_mono_sublist [OF u(1)] assms(5) by (rule sublist_order.order_trans)
    ultimately show ?thesis using like_contains [OF ascii_text_lower [OF ut] assms(4)] by (simp add: comp_def)
  qed
  show ?thesis
  proof (cases "tokenize_symbol_query T q")
    case Nil
    then show ?thesis using like_contains [OF assms(3,4,5)] by (simp add: name_matches_def)
  next
    case (Cons t ts)
    then show ?thesis using tok by (cases mode) (auto simp: name_matches_def list_all_iff)
  qed
qed

lemma list_symbols_free:
  assumes "sf_name q = Some n" and "s \<in> set (yt_symbols d)" and "symbol_matches T And q s"
  shows "list_symbols no_faults T q d =
     Inr (rank_symbol_matches T n (sort_key (\<lambda>s. (sy_file_path s, sy_line_start s)) (filter (symbol_matches T And q) (yt_symbols d))))"
proof -
  have "filter (symbol_matches T And q) (yt_symbols d) \<noteq> []" using assms(2,3) by (auto simp: filter_empty_conv)
  then have "sort_key (\<lambda>s. (sy_file_path s, sy_line_start s)) (filter (symbol_matches T And q) (yt_symbols d)) \<noteq> []"
    by (metis length_0_conv length_sort)
  then show ?thesis by (simp add: list_symbols_def query_symbols_def sql_then_def sql_ret_def assms(1))
qed

lemma rank_first:
  "map to_ascii_lower (sy_name b) = map to_ascii_lower q \<Longrightarrow> rank_key T q a \<le> rank_key T q b \<Longrightarrow>
     map to_ascii_lower (sy_name a) = map to_ascii_lower q"
  by (auto simp: rank_key_def match_rank_def Let_def of_bool_nat_def less_eq_prod_def split: if_splits)



text \<open>Replacing a symbol by itself drops the references of other symbols to it.\<close>

lemma replaced_symbol_loses_callers:
  "query_refs no_faults ''a'' None example_symbols = Inr [example_call ''b'' ''a'', example_call ''a'' ''c'']"
  "query_refs no_faults ''a'' None (fst (insert_symbols no_faults [example_symbol ''a'' ''parse_config''] example_symbols)) = Inr []"
  by code_simp+

end
