(* ===== verification/Cache_Store.thy ===== *)
theory Cache_Store
  imports Content_Store "HOL-Library.Word"
begin

text \<open>
  The derived tables of \<open>SqliteStorage\<close> (\<open>ministr-core/src/storage/sqlite.rs\<close>): cached answers with
  the sections they were made from, fetch metadata of web pages and clones, and the vectors of the
  nearest-neighbour index with their generation counter. None of the calls runs in a transaction. A vector is stored as the
  little-endian bytes of its elements, so an element is the bit pattern of an \<open>f32\<close> here.
\<close>

unbundle bit_operations_syntax

section \<open>Records and tables\<close>

record web_cache_record =
  wc_source_url :: string
  wc_fetch_timestamp :: string
  wc_etag :: "string option"
  wc_last_modified :: "string option"
  wc_content_hash :: string
  wc_content_type :: "string option"

record git_cache_record =
  gc_repo_url :: string
  gc_branch :: "string option"
  gc_commit_sha :: string
  gc_clone_timestamp :: string
  gc_clone_dir :: string
  gc_checked_out_paths :: "string list"

record cached_answer =
  ca_query_hash :: string
  ca_query_text :: string
  ca_answer :: string
  ca_model :: string
  ca_token_count :: nat
  ca_created_at :: string

record cached_answer_source =
  cas_section_id :: string
  cas_section_hash :: string

record vector_fingerprint =
  fp_count :: nat
  fp_generation :: nat

type_synonym f32_bits = "32 word"
type_synonym blob = "8 word list"

record git_row =
  gw_repo_url :: string
  gw_branch :: "string option"
  gw_commit_sha :: string
  gw_clone_timestamp :: string
  gw_clone_dir :: string
  gw_checked_out_paths :: string

text \<open>The columns of an answer; its token count is a signed integer.\<close>

record answer_row =
  an_query_hash :: string
  an_query_text :: string
  an_answer :: string
  an_model :: string
  an_token_count :: int
  an_created_at :: string

record source_row =
  so_query_hash :: string
  so_section_id :: string
  so_section_hash :: string

record vector_row =
  vr_vector_id :: string
  vr_vector :: blob
  vr_dimension :: nat

record cache_tables =
  kt_answers :: "answer_row list"
  kt_sources :: "source_row list"
  kt_web :: "web_cache_record list"
  kt_git :: "git_row list"
  kt_vectors :: "vector_row list"
  kt_full :: "vector_row list"
  kt_generation :: nat

definition empty_cache :: cache_tables where
  "empty_cache =
     \<lparr>kt_answers = [], kt_sources = [], kt_web = [], kt_git = [], kt_vectors = [], kt_full = [], kt_generation = 0\<rparr>"

section \<open>Answers\<close>

text \<open>\<open>as i64\<close> and back \<open>as usize\<close>.\<close>

definition usize_as_i64 :: "nat \<Rightarrow> int" where
  "usize_as_i64 n = sint (of_nat n :: 64 word)"

definition i64_as_usize :: "int \<Rightarrow> nat" where
  "i64_as_usize x = unat (of_int x :: 64 word)"

definition answer_of_row :: "answer_row \<Rightarrow> cached_answer" where
  "answer_of_row r =
     \<lparr>ca_query_hash = an_query_hash r, ca_query_text = an_query_text r, ca_answer = an_answer r, ca_model = an_model r,
      ca_token_count = i64_as_usize (an_token_count r), ca_created_at = an_created_at r\<rparr>"

definition named_query :: "sql_faults \<Rightarrow> string \<Rightarrow> ('d \<Rightarrow> 'a) \<Rightarrow> 'd \<Rightarrow> store_error + 'a" where
  "named_query f what q d = snd (with_conn f (sql_exec f (\<lambda>m. what @ m) (\<lambda>d. Inr (d, q d))) d)"

definition get_cached_answer :: "sql_faults \<Rightarrow> string \<Rightarrow> cache_tables \<Rightarrow> store_error + cached_answer option" where
  "get_cached_answer f h = named_query f ''get_cached_answer: ''
     (\<lambda>d. map_option answer_of_row (find (\<lambda>r. an_query_hash r = h) (kt_answers d)))"

definition get_cached_answer_sources ::
    "sql_faults \<Rightarrow> string \<Rightarrow> cache_tables \<Rightarrow> store_error + cached_answer_source list" where
  "get_cached_answer_sources f h = named_query f ''get_cached_answer_sources: ''
     (\<lambda>d. map (\<lambda>r. \<lparr>cas_section_id = so_section_id r, cas_section_hash = so_section_hash r\<rparr>)
        (filter (\<lambda>r. so_query_hash r = h) (kt_sources d)))"

text \<open>Deletion with the cascade to the sources.\<close>

definition delete_answers_where :: "(answer_row \<Rightarrow> bool) \<Rightarrow> cache_tables \<Rightarrow> cache_tables" where
  "delete_answers_where P d =
     (let gone = map an_query_hash (filter P (kt_answers d))
      in d\<lparr>kt_answers := filter (\<lambda>r. \<not> P r) (kt_answers d),
           kt_sources := filter (\<lambda>r. so_query_hash r \<notin> set gone) (kt_sources d)\<rparr>)"

definition sql_replace_answer :: "string \<Rightarrow> cached_answer \<Rightarrow> cache_tables \<Rightarrow> cache_tables" where
  "sql_replace_answer now a d =
     (let d = delete_answers_where (\<lambda>r. an_query_hash r = ca_query_hash a) d
      in d\<lparr>kt_answers := kt_answers d @
           [\<lparr>an_query_hash = ca_query_hash a, an_query_text = ca_query_text a, an_answer = ca_answer a,
             an_model = ca_model a, an_token_count = usize_as_i64 (ca_token_count a), an_created_at = now\<rparr>]\<rparr>)"

abbreviation source_key :: "source_row \<Rightarrow> string \<times> string" where
  "source_key r \<equiv> (so_query_hash r, so_section_id r)"

definition sql_replace_source :: "source_row \<Rightarrow> cache_tables \<Rightarrow> string + cache_tables \<times> unit" where
  "sql_replace_source r d =
     (if so_query_hash r \<notin> an_query_hash ` set (kt_answers d) then Inl fk_failed
      else Inr (d\<lparr>kt_sources := replace_row source_key r (kt_sources d)\<rparr>, ()))"

definition insert_source_stmt :: "sql_faults \<Rightarrow> string \<Rightarrow> cached_answer_source \<Rightarrow> (cache_tables, unit) sql" where
  "insert_source_stmt f h s = sql_exec f (\<lambda>m. ''insert answer_cache_sources: '' @ m)
     (sql_replace_source \<lparr>so_query_hash = h, so_section_id = cas_section_id s, so_section_hash = cas_section_hash s\<rparr>)"

definition insert_cached_answer ::
    "sql_faults \<Rightarrow> string \<Rightarrow> cached_answer \<Rightarrow> cached_answer_source list \<Rightarrow> cache_tables \<Rightarrow> cache_tables \<times> (store_error + unit)" where
  "insert_cached_answer f now a sources = with_conn f
     (sql_then (sql_write f (\<lambda>m. ''insert answer_cache: '' @ m) (sql_replace_answer now a))
     (\<lambda>_. sql_each (insert_source_stmt f (ca_query_hash a)) sources))"

definition depends_on :: "string list \<Rightarrow> cache_tables \<Rightarrow> answer_row \<Rightarrow> bool" where
  "depends_on ids d r \<longleftrightarrow> list_ex (\<lambda>s. so_query_hash s = an_query_hash r \<and> so_section_id s \<in> set ids) (kt_sources d)"

definition invalidate_answers_for_sections ::
    "sql_faults \<Rightarrow> string list \<Rightarrow> cache_tables \<Rightarrow> cache_tables \<times> (store_error + nat)" where
  "invalidate_answers_for_sections f ids d =
     (if ids = [] then (d, Inr 0)
      else with_conn f
        (sql_exec f (\<lambda>m. ''invalidate_answers_for_sections: '' @ m)
           (\<lambda>d. Inr (delete_answers_where (depends_on ids d) d, length (filter (depends_on ids d) (kt_answers d))))) d)"

section \<open>Web pages and clones\<close>

definition upsert_web_cache :: "sql_faults \<Rightarrow> web_cache_record \<Rightarrow> cache_tables \<Rightarrow> cache_tables \<times> (store_error + unit)" where
  "upsert_web_cache f r = with_conn f
     (sql_write f (\<lambda>m. ''failed to upsert web cache: '' @ m)
        (\<lambda>d. d\<lparr>kt_web := upsert_row wc_source_url (\<lambda>_. r) r (kt_web d)\<rparr>))"

definition get_web_cache :: "sql_faults \<Rightarrow> string \<Rightarrow> cache_tables \<Rightarrow> store_error + web_cache_record option" where
  "get_web_cache f url = run_query f (\<lambda>d. find (\<lambda>r. wc_source_url r = url) (kt_web d))"

definition list_web_cache :: "sql_faults \<Rightarrow> cache_tables \<Rightarrow> store_error + web_cache_record list" where
  "list_web_cache f = run_query f (\<lambda>d. descending wc_fetch_timestamp (kt_web d))"

definition delete_web_cache :: "sql_faults \<Rightarrow> string \<Rightarrow> cache_tables \<Rightarrow> cache_tables \<times> (store_error + bool)" where
  "delete_web_cache f url = with_conn f
     (sql_exec f (\<lambda>m. m)
        (\<lambda>d. Inr (d\<lparr>kt_web := filter (\<lambda>r. wc_source_url r \<noteq> url) (kt_web d)\<rparr>, url \<in> wc_source_url ` set (kt_web d))))"

definition row_of_git :: "content_codecs \<Rightarrow> git_cache_record \<Rightarrow> git_row" where
  "row_of_git K r =
     \<lparr>gw_repo_url = gc_repo_url r, gw_branch = gc_branch r, gw_commit_sha = gc_commit_sha r,
      gw_clone_timestamp = gc_clone_timestamp r, gw_clone_dir = gc_clone_dir r,
      gw_checked_out_paths = (case bc_to (cc_strings K) (gc_checked_out_paths r) of None \<Rightarrow> ''[]'' | Some j \<Rightarrow> j)\<rparr>"

definition git_of_row :: "content_codecs \<Rightarrow> git_row \<Rightarrow> git_cache_record" where
  "git_of_row K r =
     \<lparr>gc_repo_url = gw_repo_url r, gc_branch = gw_branch r, gc_commit_sha = gw_commit_sha r,
      gc_clone_timestamp = gw_clone_timestamp r, gc_clone_dir = gw_clone_dir r,
      gc_checked_out_paths = from_json_or_default (cc_strings K) (gw_checked_out_paths r)\<rparr>"

definition upsert_git_cache ::
    "sql_faults \<Rightarrow> content_codecs \<Rightarrow> git_cache_record \<Rightarrow> cache_tables \<Rightarrow> cache_tables \<times> (store_error + unit)" where
  "upsert_git_cache f K r = with_conn f
     (sql_write f (\<lambda>m. ''failed to upsert git cache: '' @ m)
        (\<lambda>d. d\<lparr>kt_git := upsert_row gw_repo_url (\<lambda>_. row_of_git K r) (row_of_git K r) (kt_git d)\<rparr>))"

definition get_git_cache ::
    "sql_faults \<Rightarrow> content_codecs \<Rightarrow> string \<Rightarrow> cache_tables \<Rightarrow> store_error + git_cache_record option" where
  "get_git_cache f K url = run_query f (\<lambda>d. map_option (git_of_row K) (find (\<lambda>r. gw_repo_url r = url) (kt_git d)))"

definition list_git_cache :: "sql_faults \<Rightarrow> content_codecs \<Rightarrow> cache_tables \<Rightarrow> store_error + git_cache_record list" where
  "list_git_cache f K = run_query f (\<lambda>d. map (git_of_row K) (descending gw_clone_timestamp (kt_git d)))"

definition delete_git_cache :: "sql_faults \<Rightarrow> string \<Rightarrow> cache_tables \<Rightarrow> cache_tables \<times> (store_error + bool)" where
  "delete_git_cache f url = with_conn f
     (sql_exec f (\<lambda>m. m)
        (\<lambda>d. Inr (d\<lparr>kt_git := filter (\<lambda>r. gw_repo_url r \<noteq> url) (kt_git d)\<rparr>, url \<in> gw_repo_url ` set (kt_git d))))"

section \<open>Vectors\<close>

definition to_le_bytes :: "f32_bits \<Rightarrow> blob" where
  "to_le_bytes w = map (\<lambda>k. ucast (drop_bit (8 * k) w)) [0, 1, 2, 3]"

definition from_le_bytes :: "8 word \<Rightarrow> 8 word \<Rightarrow> 8 word \<Rightarrow> 8 word \<Rightarrow> f32_bits" where
  "from_le_bytes a b c d =
     ucast a OR push_bit 8 (ucast b) OR push_bit 16 (ucast c) OR push_bit 24 (ucast d)"

definition encode_f32_blob :: "f32_bits list \<Rightarrow> blob" where
  "encode_f32_blob v = concat (map to_le_bytes v)"

fun decode_f32_blob :: "blob \<Rightarrow> f32_bits list" where
  "decode_f32_blob (a # b # c # d # rest) = from_le_bytes a b c d # decode_f32_blob rest"
| "decode_f32_blob _ = []"

definition vector_row_of :: "string \<times> f32_bits list \<Rightarrow> vector_row" where
  "vector_row_of e =
     \<lparr>vr_vector_id = fst e, vr_vector = encode_f32_blob (snd e), vr_dimension = (if int (length (snd e)) < 2 ^ 63 then length (snd e) else 0)\<rparr>"

definition put_vector :: "string \<times> f32_bits list \<Rightarrow> vector_row list \<Rightarrow> vector_row list" where
  "put_vector e t = replace_row vr_vector_id (vector_row_of e) t"

definition drop_vector :: "string \<Rightarrow> vector_row list \<Rightarrow> vector_row list" where
  "drop_vector i t = filter (\<lambda>r. vr_vector_id r \<noteq> i) t"

definition insert_vector_stmt :: "sql_faults \<Rightarrow> string \<times> f32_bits list \<Rightarrow> (cache_tables, unit) sql" where
  "insert_vector_stmt f e =
     sql_write f (\<lambda>m. ''insert indexed_vectors failed for '' @ fst e @ '': '' @ m)
       (\<lambda>d. d\<lparr>kt_vectors := put_vector e (kt_vectors d)\<rparr>)"

definition delete_vector_stmt :: "sql_faults \<Rightarrow> string \<Rightarrow> (cache_tables, unit) sql" where
  "delete_vector_stmt f i =
     sql_write f (\<lambda>m. ''delete indexed_vectors failed for '' @ i @ '': '' @ m)
       (\<lambda>d. d\<lparr>kt_vectors := drop_vector i (kt_vectors d)\<rparr>)"

definition bump_vector_generation :: "sql_faults \<Rightarrow> (cache_tables, unit) sql" where
  "bump_vector_generation f =
     sql_write f (\<lambda>m. ''bump vector_generation failed: '' @ m) (\<lambda>d. d\<lparr>kt_generation := kt_generation d + 1\<rparr>)"

definition store_vectors_body :: "sql_faults \<Rightarrow> (string \<times> f32_bits list) list \<Rightarrow> (cache_tables, unit) sql" where
  "store_vectors_body f entries =
     sql_then (sql_prepare f (\<lambda>m. ''prepare failed: '' @ m))
       (\<lambda>_. sql_then (sql_each (insert_vector_stmt f) entries) (\<lambda>_. bump_vector_generation f))"

definition store_indexed_vectors ::
    "sql_faults \<Rightarrow> (string \<times> f32_bits list) list \<Rightarrow> cache_tables \<Rightarrow> cache_tables \<times> (store_error + unit)" where
  "store_indexed_vectors f entries d =
     (if entries = [] then (d, Inr ())
      else with_conn f (store_vectors_body f entries) d)"

definition delete_vectors_body :: "sql_faults \<Rightarrow> string list \<Rightarrow> (cache_tables, unit) sql" where
  "delete_vectors_body f ids =
     sql_then (sql_prepare f (\<lambda>m. ''prepare failed: '' @ m))
       (\<lambda>_. sql_then (sql_each (delete_vector_stmt f) ids) (\<lambda>_. bump_vector_generation f))"

definition delete_indexed_vectors ::
    "sql_faults \<Rightarrow> string list \<Rightarrow> cache_tables \<Rightarrow> cache_tables \<times> (store_error + unit)" where
  "delete_indexed_vectors f ids d =
     (if ids = [] then (d, Inr ())
      else with_conn f (delete_vectors_body f ids) d)"

definition list_indexed_vectors :: "sql_faults \<Rightarrow> cache_tables \<Rightarrow> store_error + (string \<times> f32_bits list) list" where
  "list_indexed_vectors f = named_query f ''query indexed_vectors failed: ''
     (\<lambda>d. map (\<lambda>r. (vr_vector_id r, decode_f32_blob (vr_vector r))) (sort_key vr_vector_id (kt_vectors d)))"

definition indexed_vector_fingerprint :: "sql_faults \<Rightarrow> cache_tables \<Rightarrow> store_error + vector_fingerprint option" where
  "indexed_vector_fingerprint f d = snd (with_conn f
     (sql_then (sql_exec f (\<lambda>m. ''count indexed_vectors failed: '' @ m) (\<lambda>d. Inr (d, length (kt_vectors d))))
     (\<lambda>count. sql_then (sql_exec f (\<lambda>m. ''read vector_generation failed: '' @ m) (\<lambda>d. Inr (d, kt_generation d)))
     (\<lambda>generation. sql_ret (Some \<lparr>fp_count = count, fp_generation = generation\<rparr>)))) d)"

definition insert_full_stmt :: "sql_faults \<Rightarrow> string \<times> f32_bits list \<Rightarrow> (cache_tables, unit) sql" where
  "insert_full_stmt f e =
     sql_write f (\<lambda>m. ''insert full_dim_vectors failed for '' @ fst e @ '': '' @ m)
       (\<lambda>d. d\<lparr>kt_full := put_vector e (kt_full d)\<rparr>)"

definition store_full_dim_vectors ::
    "sql_faults \<Rightarrow> (string \<times> f32_bits list) list \<Rightarrow> cache_tables \<Rightarrow> cache_tables \<times> (store_error + unit)" where
  "store_full_dim_vectors f entries d =
     (if entries = [] then (d, Inr ())
      else with_conn f
        (sql_then (sql_prepare f (\<lambda>m. ''prepare failed: '' @ m)) (\<lambda>_. sql_each (insert_full_stmt f) entries)) d)"

text \<open>A row that cannot be read is skipped like one that does not exist.\<close>

primrec full_vectors_loop ::
    "sql_faults \<Rightarrow> string list \<Rightarrow> (cache_tables, (string \<times> f32_bits list) list) sql" where
  "full_vectors_loop f [] = sql_ret []"
| "full_vectors_loop f (i # ids) =
     (\<lambda>n d. let row = (case f n of Some _ \<Rightarrow> None | None \<Rightarrow> find (\<lambda>r. vr_vector_id r = i) (kt_full d))
            in sql_then (full_vectors_loop f ids)
                 (\<lambda>rest. sql_ret (case row of None \<Rightarrow> rest | Some r \<Rightarrow> (vr_vector_id r, decode_f32_blob (vr_vector r)) # rest))
                 (Suc n) d)"

definition get_full_dim_vectors ::
    "sql_faults \<Rightarrow> string list \<Rightarrow> cache_tables \<Rightarrow> store_error + (string \<times> f32_bits list) list" where
  "get_full_dim_vectors f ids d =
     (if ids = [] then Inr []
      else snd (with_conn f
        (sql_then (sql_prepare f (\<lambda>m. ''prepare failed: '' @ m)) (\<lambda>_. full_vectors_loop f ids)) d))"

definition delete_full_stmt :: "sql_faults \<Rightarrow> string \<Rightarrow> (cache_tables, unit) sql" where
  "delete_full_stmt f i =
     sql_write f (\<lambda>m. ''delete full_dim_vectors failed for '' @ i @ '': '' @ m)
       (\<lambda>d. d\<lparr>kt_full := drop_vector i (kt_full d)\<rparr>)"

definition delete_full_dim_vectors ::
    "sql_faults \<Rightarrow> string list \<Rightarrow> cache_tables \<Rightarrow> cache_tables \<times> (store_error + unit)" where
  "delete_full_dim_vectors f ids d =
     (if ids = [] then (d, Inr ())
      else with_conn f
        (sql_then (sql_prepare f (\<lambda>m. ''prepare failed: '' @ m)) (\<lambda>_. sql_each (delete_full_stmt f) ids)) d)"

section \<open>Runs\<close>

datatype cache_op =
    InsertCachedAnswer string cached_answer "cached_answer_source list"
  | InvalidateAnswers "string list"
  | UpsertWebCache web_cache_record
  | DeleteWebCache string
  | UpsertGitCache git_cache_record
  | DeleteGitCache string
  | StoreIndexedVectors "(string \<times> f32_bits list) list"
  | DeleteIndexedVectors "string list"
  | StoreFullDimVectors "(string \<times> f32_bits list) list"
  | DeleteFullDimVectors "string list"

text \<open>A call, with the error it reports.\<close>

definition dropped :: "'d \<times> (store_error + 'a) \<Rightarrow> 'd \<times> store_error option" where
  "dropped = (\<lambda>(d, r). (d, case r of Inl e \<Rightarrow> Some e | Inr _ \<Rightarrow> None))"

primrec cache_call :: "sql_faults \<Rightarrow> content_codecs \<Rightarrow> cache_op \<Rightarrow> cache_tables \<Rightarrow> cache_tables \<times> store_error option" where
  "cache_call f K (InsertCachedAnswer now a ss) d = dropped (insert_cached_answer f now a ss d)"
| "cache_call f K (InvalidateAnswers ids) d = dropped (invalidate_answers_for_sections f ids d)"
| "cache_call f K (UpsertWebCache r) d = dropped (upsert_web_cache f r d)"
| "cache_call f K (DeleteWebCache url) d = dropped (delete_web_cache f url d)"
| "cache_call f K (UpsertGitCache r) d = dropped (upsert_git_cache f K r d)"
| "cache_call f K (DeleteGitCache url) d = dropped (delete_git_cache f url d)"
| "cache_call f K (StoreIndexedVectors es) d = dropped (store_indexed_vectors f es d)"
| "cache_call f K (DeleteIndexedVectors ids) d = dropped (delete_indexed_vectors f ids d)"
| "cache_call f K (StoreFullDimVectors es) d = dropped (store_full_dim_vectors f es d)"
| "cache_call f K (DeleteFullDimVectors ids) d = dropped (delete_full_dim_vectors f ids d)"

definition cache_run :: "content_codecs \<Rightarrow> (sql_faults \<times> cache_op) list \<Rightarrow> cache_tables \<Rightarrow> cache_tables" where
  "cache_run K ops d = fold (\<lambda>(f, op) d. fst (cache_call f K op d)) ops d"

fun run_succeeds :: "content_codecs \<Rightarrow> (sql_faults \<times> cache_op) list \<Rightarrow> cache_tables \<Rightarrow> bool" where
  "run_succeeds K [] d = True"
| "run_succeeds K ((f, op) # ops) d =
     (case cache_call f K op d of (d', e) \<Rightarrow> e = None \<and> run_succeeds K ops d')"

section \<open>The cache stage of a question\<close>

text \<open>The text verification compares: that of the section or, when there is none with the id, of the symbol.\<close>

definition current_text :: "(string \<Rightarrow> string option) \<Rightarrow> (string \<Rightarrow> string option) \<Rightarrow> string \<Rightarrow> string option" where
  "current_text read_section symbol_text i = (case read_section i of Some t \<Rightarrow> Some t | None \<Rightarrow> symbol_text i)"

definition verify_sources ::
    "(string \<Rightarrow> string option) \<Rightarrow> (string \<Rightarrow> string option) \<Rightarrow> (string \<Rightarrow> string) \<Rightarrow> cached_answer_source list \<Rightarrow> bool" where
  "verify_sources read_section symbol_text content_hash sources = list_all
     (\<lambda>s. case current_text read_section symbol_text (cas_section_id s) of
        None \<Rightarrow> True
      | Some t \<Rightarrow> content_hash t = cas_section_hash s) sources"

text \<open>
  The cache stage of \<open>ask\<close>: three calls of the store, awaited one after the other, so that calls of other tasks may run in
  between. Each has its own faults. A cached answer is returned when the current text of each source that can still be
  read has the recorded hash; otherwise the answers over its sources are invalidated, and an error of that is ignored.
\<close>

record ask_env =
  ae_answer :: sql_faults
  ae_before_sources :: "(sql_faults \<times> cache_op) list"
  ae_sources :: sql_faults
  ae_before_invalidate :: "(sql_faults \<times> cache_op) list"
  ae_invalidate :: sql_faults

definition ask_cached ::
    "content_codecs \<Rightarrow> ask_env \<Rightarrow> (string \<Rightarrow> string option) \<Rightarrow> (string \<Rightarrow> string option) \<Rightarrow> (string \<Rightarrow> string) \<Rightarrow> string
       \<Rightarrow> cache_tables \<Rightarrow> cache_tables \<times> (store_error + cached_answer option)" where
  "ask_cached K E read_section symbol_text content_hash h d =
     (case get_cached_answer (ae_answer E) h d of
        Inl e \<Rightarrow> (d, Inl e)
      | Inr None \<Rightarrow> (d, Inr None)
      | Inr (Some cached) \<Rightarrow>
          (let d1 = cache_run K (ae_before_sources E) d
           in case get_cached_answer_sources (ae_sources E) h d1 of
             Inl e \<Rightarrow> (d1, Inl e)
           | Inr sources \<Rightarrow>
               if verify_sources read_section symbol_text content_hash sources then (d1, Inr (Some cached))
               else
                 (let d2 = cache_run K (ae_before_invalidate E) d1
                  in (fst (invalidate_answers_for_sections (ae_invalidate E) (map cas_section_id sources) d2), Inr None))))"

definition calm_ask :: ask_env where
  "calm_ask = \<lparr>ae_answer = no_faults, ae_before_sources = [], ae_sources = no_faults, ae_before_invalidate = [], ae_invalidate = no_faults\<rparr>"

definition invalidates :: "cache_op \<Rightarrow> bool" where
  "invalidates op \<longleftrightarrow> (case op of InvalidateAnswers _ \<Rightarrow> True | _ \<Rightarrow> False)"

section \<open>Specification\<close>

definition cache_ok :: "cache_tables \<Rightarrow> bool" where
  "cache_ok d \<longleftrightarrow>
     unique_by an_query_hash (kt_answers d) \<and> unique_by source_key (kt_sources d) \<and>
     (\<forall>s \<in> set (kt_sources d). so_query_hash s \<in> an_query_hash ` set (kt_answers d)) \<and>
     unique_by wc_source_url (kt_web d) \<and> unique_by gw_repo_url (kt_git d) \<and>
     unique_by vr_vector_id (kt_vectors d) \<and> unique_by vr_vector_id (kt_full d)"

text \<open>The vectors the store stands for.\<close>

definition vector_map :: "vector_row list \<Rightarrow> string \<rightharpoonup> f32_bits list" where
  "vector_map t = map_of (map (\<lambda>r. (vr_vector_id r, decode_f32_blob (vr_vector r))) t)"

definition inserts_answer :: "string \<Rightarrow> cache_op \<Rightarrow> bool" where
  "inserts_answer h op \<longleftrightarrow> (case op of InsertCachedAnswer _ a _ \<Rightarrow> ca_query_hash a = h | _ \<Rightarrow> False)"

text \<open>An answer is there with all its sources, or is not there.\<close>

definition sources_complete :: "string \<Rightarrow> source_row set \<Rightarrow> cache_tables \<Rightarrow> bool" where
  "sources_complete h rs d \<longleftrightarrow> (h \<in> an_query_hash ` set (kt_answers d) \<longrightarrow> rs \<subseteq> set (kt_sources d) \<and> so_query_hash ` rs \<subseteq> {h})"

definition source_rows :: "string \<Rightarrow> cached_answer_source list \<Rightarrow> source_row set" where
  "source_rows h ss = {\<lparr>so_query_hash = h, so_section_id = cas_section_id s, so_section_hash = cas_section_hash s\<rparr> |s. s \<in> set ss}"

definition example_answer :: cached_answer where
  "example_answer =
     \<lparr>ca_query_hash = ''q'', ca_query_text = ''Q'', ca_answer = ''A'', ca_model = ''m'', ca_token_count = 1, ca_created_at = []\<rparr>"

definition example_source :: cached_answer_source where
  "example_source = \<lparr>cas_section_id = ''s'', cas_section_hash = ''old''\<rparr>"

text \<open>The counter never falls, and the vectors are the same while it stands still.\<close>

definition generation_step :: "cache_tables \<Rightarrow> cache_tables \<Rightarrow> bool" where
  "generation_step d d' \<longleftrightarrow> kt_generation d \<le> kt_generation d' \<and> (kt_generation d = kt_generation d' \<longrightarrow> kt_vectors d = kt_vectors d')"

section \<open>The constraints hold\<close>

lemma unique_by_overwrite: "unique_by key t \<Longrightarrow> unique_by key (upsert_row key (\<lambda>_. r) r t)"
  by (simp add: unique_by_upsert_other)

lemma cache_ok_delete_answers:
  assumes "cache_ok d"
  shows "cache_ok (delete_answers_where P d)"
  using assms unique_by_split [of an_query_hash "kt_answers d" _ P]
  by (auto simp: cache_ok_def delete_answers_where_def Let_def intro!: unique_by_filter)

lemma cache_ok_replace_answer:
  assumes "cache_ok d"
  shows "cache_ok (sql_replace_answer now a d)"
proof -
  let ?d = "delete_answers_where (\<lambda>r. an_query_hash r = ca_query_hash a) d"
  have "cache_ok ?d" using cache_ok_delete_answers [OF assms] .
  moreover have "ca_query_hash a \<notin> an_query_hash ` set (kt_answers ?d)" by (auto simp: delete_answers_where_def Let_def)
  ultimately show ?thesis
    by (auto simp: cache_ok_def sql_replace_answer_def Let_def intro!: unique_by_append)
qed

lemma sql_replace_source_Inr:
  "sql_replace_source r d = Inr (d', u) \<longleftrightarrow>
     so_query_hash r \<in> an_query_hash ` set (kt_answers d) \<and> d' = d\<lparr>kt_sources := replace_row source_key r (kt_sources d)\<rparr>"
  by (auto simp: sql_replace_source_def)

lemma cache_ok_replace_source: "cache_ok d \<Longrightarrow> sql_replace_source r d = Inr (d', u) \<Longrightarrow> cache_ok d'"
  unfolding sql_replace_source_Inr by (simp add: cache_ok_def set_replace_row unique_by_replace)

interpretation cache: sql_relation "\<lambda>d d'. cache_ok d \<longrightarrow> cache_ok d'"
  by unfold_locales auto

lemma cache_keeps_stmt:
  "cache.keeps (insert_source_stmt f h s)" "cache.keeps (insert_vector_stmt f e)" "cache.keeps (delete_vector_stmt f i)"
  "cache.keeps (insert_full_stmt f e)" "cache.keeps (delete_full_stmt f i)" "cache.keeps (bump_vector_generation f)"
  unfolding insert_source_stmt_def insert_vector_stmt_def delete_vector_stmt_def insert_full_stmt_def delete_full_stmt_def
    bump_vector_generation_def
  by ((rule cache.keeps_exec, blast dest: cache_ok_replace_source)
      | (rule cache.keeps_write, simp add: cache_ok_def put_vector_def drop_vector_def unique_by_replace unique_by_filter))+

lemma fst_dropped [simp]: "fst (dropped r) = fst r"
  by (cases r) (simp add: dropped_def)

lemma snd_dropped [simp]: "snd (dropped r) = None \<longleftrightarrow> (\<exists>a. snd r = Inr a)"
  by (cases r) (simp add: dropped_def split: sum.splits)

lemma cache_ok_call:
  assumes "cache_ok d"
  shows "cache_ok (fst (cache_call f K op d))"
proof -
  note conn = cache.with_conn_keeps [THEN mp, OF _ assms]
  show ?thesis
  proof (cases op)
    case (InsertCachedAnswer now a ss)
    then show ?thesis
      by (simp add: insert_cached_answer_def)
        (intro conn cache.keeps_then cache.keeps_write cache.keeps_each cache_keeps_stmt impI cache_ok_replace_answer)
  next
    case (InvalidateAnswers ids)
    show ?thesis using assms unfolding InvalidateAnswers
      by (auto simp: invalidate_answers_for_sections_def intro!: conn cache.keeps_exec cache_ok_delete_answers)
  qed (auto simp: assms store_vectors_body_def delete_vectors_body_def upsert_web_cache_def delete_web_cache_def upsert_git_cache_def delete_git_cache_def
      store_indexed_vectors_def delete_indexed_vectors_def store_full_dim_vectors_def delete_full_dim_vectors_def
      intro!: conn cache.keeps_then cache.keeps_prepare cache.keeps_each cache_keeps_stmt cache.keeps_write cache.keeps_exec,
      auto simp: cache_ok_def intro!: unique_by_overwrite unique_by_filter)
qed

lemma cache_ok_run: "cache_ok d \<Longrightarrow> cache_ok (cache_run K ops d)"
  unfolding cache_run_def by (induction ops arbitrary: d) (auto intro: cache_ok_call)

lemma cache_ok_empty: "cache_ok empty_cache"
  by (simp add: cache_ok_def empty_cache_def unique_by_def)

section \<open>Calls that succeed\<close>

lemma fold_vectors: "fold (\<lambda>e d. d\<lparr>kt_vectors := g e (kt_vectors d)\<rparr>) es d = d\<lparr>kt_vectors := fold g es (kt_vectors d)\<rparr>"
  by (induction es arbitrary: d) simp_all

lemma store_vectors_effect:
  assumes "store_indexed_vectors f es d = (d', Inr ())" and "es \<noteq> []"
  shows "d' = d\<lparr>kt_vectors := fold put_vector es (kt_vectors d), kt_generation := kt_generation d + 1\<rparr>"
proof -
  have each: "sql_each (insert_vector_stmt no_faults) es n d = (n + length es, d\<lparr>kt_vectors := fold put_vector es (kt_vectors d)\<rparr>, Inr ())"
    for n d
    using sql_each_writes [of "insert_vector_stmt no_faults" "\<lambda>e d. d\<lparr>kt_vectors := put_vector e (kt_vectors d)\<rparr>" es n d]
    by (simp add: insert_vector_stmt_def fold_vectors)
  have "settles (store_vectors_body f es) (store_vectors_body no_faults es)"
    unfolding store_vectors_body_def insert_vector_stmt_def bump_vector_generation_def by (intro settles_intros)
  from conn_settles [OF this] assms have "with_conn no_faults (store_vectors_body no_faults es) d = (d', Inr ())"
    by (simp only: store_indexed_vectors_def if_False)
  then show ?thesis by (simp add: store_vectors_body_def sql_then_def each bump_vector_generation_def)
qed

lemma delete_vectors_effect:
  assumes "delete_indexed_vectors f ids d = (d', Inr ())" and "ids \<noteq> []"
  shows "d' = d\<lparr>kt_vectors := fold drop_vector ids (kt_vectors d), kt_generation := kt_generation d + 1\<rparr>"
proof -
  have each: "sql_each (delete_vector_stmt no_faults) ids n d = (n + length ids, d\<lparr>kt_vectors := fold drop_vector ids (kt_vectors d)\<rparr>, Inr ())"
    for n d
    using sql_each_writes [of "delete_vector_stmt no_faults" "\<lambda>e d. d\<lparr>kt_vectors := drop_vector e (kt_vectors d)\<rparr>" ids n d]
    by (simp add: delete_vector_stmt_def fold_vectors)
  have "settles (delete_vectors_body f ids) (delete_vectors_body no_faults ids)"
    unfolding delete_vectors_body_def delete_vector_stmt_def bump_vector_generation_def by (intro settles_intros)
  from conn_settles [OF this] assms have "with_conn no_faults (delete_vectors_body no_faults ids) d = (d', Inr ())"
    by (simp only: delete_indexed_vectors_def if_False)
  then show ?thesis by (simp add: delete_vectors_body_def sql_then_def each bump_vector_generation_def)
qed

section \<open>The generation counter\<close>

interpretation vectors_kept: sql_relation "\<lambda>d d'. kt_vectors d' = kt_vectors d \<and> kt_generation d' = kt_generation d"
  by unfold_locales auto

lemma answers_keep_vectors [simp]:
  "kt_vectors (delete_answers_where P d) = kt_vectors d" "kt_generation (delete_answers_where P d) = kt_generation d"
  "kt_vectors (sql_replace_answer now a d) = kt_vectors d" "kt_generation (sql_replace_answer now a d) = kt_generation d"
  by (simp_all add: delete_answers_where_def sql_replace_answer_def Let_def)

lemma vectors_kept_stmt:
  "vectors_kept.keeps (insert_source_stmt f h s)" "vectors_kept.keeps (insert_full_stmt f e)" "vectors_kept.keeps (delete_full_stmt f i)"
  unfolding insert_source_stmt_def insert_full_stmt_def delete_full_stmt_def
  by ((rule vectors_kept.keeps_exec, simp add: sql_replace_source_Inr) | (rule vectors_kept.keeps_write, simp))+

lemma other_calls_keep_vectors:
  assumes "\<not> (\<exists>es. op = StoreIndexedVectors es)" and "\<not> (\<exists>ids. op = DeleteIndexedVectors ids)"
  shows "kt_vectors (fst (cache_call f K op d)) = kt_vectors d \<and> kt_generation (fst (cache_call f K op d)) = kt_generation d"
  using assms
  by (cases op)
    (auto simp: insert_cached_answer_def invalidate_answers_for_sections_def upsert_web_cache_def delete_web_cache_def
      upsert_git_cache_def delete_git_cache_def store_full_dim_vectors_def delete_full_dim_vectors_def
      intro!: vectors_kept.with_conn_keeps [THEN conjunct1] vectors_kept.with_conn_keeps [THEN conjunct2]
        vectors_kept.keeps_then vectors_kept.keeps_prepare vectors_kept.keeps_each vectors_kept_stmt
        vectors_kept.keeps_write vectors_kept.keeps_exec)

lemma generation_call:
  assumes "snd (cache_call f K op d) = None"
  shows "generation_step d (fst (cache_call f K op d))"
proof (cases op)
  case (StoreIndexedVectors es)
  show ?thesis
  proof (cases "es = []")
    case False
    from assms StoreIndexedVectors have "store_indexed_vectors f es d = (fst (store_indexed_vectors f es d), Inr ())"
      by (cases "store_indexed_vectors f es d") auto
    from store_vectors_effect [OF this False] show ?thesis by (simp add: StoreIndexedVectors generation_step_def)
  qed (simp add: StoreIndexedVectors store_indexed_vectors_def generation_step_def)
next
  case (DeleteIndexedVectors ids)
  show ?thesis
  proof (cases "ids = []")
    case False
    from assms DeleteIndexedVectors have "delete_indexed_vectors f ids d = (fst (delete_indexed_vectors f ids d), Inr ())"
      by (cases "delete_indexed_vectors f ids d") auto
    from delete_vectors_effect [OF this False] show ?thesis by (simp add: DeleteIndexedVectors generation_step_def)
  qed (simp add: DeleteIndexedVectors delete_indexed_vectors_def generation_step_def)
qed (use other_calls_keep_vectors [of op f K d] in \<open>simp_all add: generation_step_def\<close>)

lemma generation_run: "run_succeeds K ops d \<Longrightarrow> generation_step d (cache_run K ops d)"
proof (induction ops arbitrary: d)
  case Nil
  then show ?case by (simp add: cache_run_def generation_step_def)
next
  case (Cons fop ops)
  obtain f op where fop: "fop = (f, op)" by (cases fop)
  from Cons.prems have "snd (cache_call f K op d) = None" "run_succeeds K ops (fst (cache_call f K op d))"
    by (auto simp: fop split: prod.splits)
  from generation_call [OF this(1)] Cons.IH [OF this(2)] show ?case
    by (auto simp: fop cache_run_def generation_step_def)
qed

lemma fingerprint_free [simp]:
  "indexed_vector_fingerprint no_faults d = Inr (Some \<lparr>fp_count = length (kt_vectors d), fp_generation = kt_generation d\<rparr>)"
  by (simp add: indexed_vector_fingerprint_def sql_then_def sql_ret_def)

lemma list_vectors_free [simp]:
  "list_indexed_vectors no_faults d =
     Inr (map (\<lambda>r. (vr_vector_id r, decode_f32_blob (vr_vector r))) (sort_key vr_vector_id (kt_vectors d)))"
  by (simp add: list_indexed_vectors_def named_query_def)

text \<open>
  The fingerprint of the vector store detects every change: after any sequence of successful calls, an equal
  fingerprint means that the stored vectors are the same.
\<close>

theorem fingerprint_detects_change:
  assumes "run_succeeds K ops d"
    and "indexed_vector_fingerprint no_faults (cache_run K ops d) = indexed_vector_fingerprint no_faults d"
  shows "list_indexed_vectors no_faults (cache_run K ops d) = list_indexed_vectors no_faults d"
  using generation_run [OF assms(1)] assms(2) by (simp add: generation_step_def)

section \<open>Vectors read back\<close>

lemma le_bytes_roundtrip: "from_le_bytes (ucast w) (ucast (drop_bit 8 w)) (ucast (drop_bit 16 w)) (ucast (drop_bit 24 w)) = w"
proof (rule bit_word_eqI)
  fix n assume n: "n < LENGTH(32)"
  then consider "n < 8" | "8 \<le> n" "n < 16" | "16 \<le> n" "n < 24" | "24 \<le> n" by linarith
  then show "bit (from_le_bytes (ucast w) (ucast (drop_bit 8 w)) (ucast (drop_bit 16 w)) (ucast (drop_bit 24 w))) n = bit w n"
    using n by cases (auto simp add: from_le_bytes_def bit_simps)
qed

lemma decode_encode_blob: "decode_f32_blob (encode_f32_blob v) = v"
  by (induction v) (simp_all add: encode_f32_blob_def to_le_bytes_def le_bytes_roundtrip)

lemma unique_put_vector: "unique_by vr_vector_id t \<Longrightarrow> unique_by vr_vector_id (put_vector e t)"
  by (simp add: put_vector_def unique_by_replace)

lemma unique_put_vectors: "unique_by vr_vector_id t \<Longrightarrow> unique_by vr_vector_id (fold put_vector es t)"
  by (induction es arbitrary: t) (simp_all add: unique_put_vector)

lemma vector_map_put: "unique_by vr_vector_id t \<Longrightarrow> vector_map (put_vector e t) = (vector_map t)(fst e \<mapsto> snd e)"
proof -
  have "map_of (map (\<lambda>r. (vr_vector_id r, g r)) (filter (\<lambda>r. vr_vector_id r \<noteq> k) t)) =
      (map_of (map (\<lambda>r. (vr_vector_id r, g r)) t))(k := None)" for k and g :: "vector_row \<Rightarrow> f32_bits list"
    by (induction t) (auto simp: fun_eq_iff)
  then show ?thesis
    by (auto simp: vector_map_def put_vector_def replace_row_def vector_row_of_def decode_encode_blob map_add_def fun_eq_iff
        split: option.splits)
qed

lemma vector_map_puts:
  "unique_by vr_vector_id t \<Longrightarrow> vector_map (fold put_vector es t) = vector_map t ++ map_of (rev es)"
proof (induction es arbitrary: t)
  case (Cons e es)
  then show ?case by (cases e) (auto simp: unique_put_vector vector_map_put map_add_def fun_eq_iff split: option.splits)
qed simp

lemma vector_map_sorted: "unique_by vr_vector_id t \<Longrightarrow> vector_map (sort_key vr_vector_id t) = vector_map t"
  unfolding vector_map_def by (subst map_of_inject_set) (simp_all add: unique_by_def comp_def distinct_map)

text \<open>
  C32. Vectors survive storage bit for bit: after storing a batch, listing the vectors gives each id of the batch its
  last vector and every other id the vector it had, in the order of the ids.
\<close>

theorem stored_vectors_read_back:
  assumes "cache_ok d" and "store_indexed_vectors f es d = (d', Inr ())"
  shows "\<exists>l l'. list_indexed_vectors no_faults d = Inr l \<and> list_indexed_vectors no_faults d' = Inr l' \<and>
    map_of l' = map_of l ++ map_of (rev es) \<and> sorted (map fst l')"
proof -
  have d': "kt_vectors d' = fold put_vector es (kt_vectors d)"
    using assms(2) store_vectors_effect [OF assms(2)] by (cases "es = []") (simp_all add: store_indexed_vectors_def)
  have u: "unique_by vr_vector_id (kt_vectors d)" using assms(1) by (simp add: cache_ok_def)
  then have u': "unique_by vr_vector_id (kt_vectors d')"
    unfolding d' by (rule unique_put_vectors)
  show ?thesis
    using vector_map_sorted [OF u'] vector_map_sorted [OF u] vector_map_puts [OF u, of es]
    by (simp add: vector_map_def comp_def d')
qed

section \<open>Stale answers\<close>

lemma sources_complete_delete:
  assumes "cache_ok d" and "sources_complete h rs d"
  shows "sources_complete h rs (delete_answers_where P d)"
  unfolding sources_complete_def
proof
  assume "h \<in> an_query_hash ` set (kt_answers (delete_answers_where P d))"
  then obtain r where r: "r \<in> set (kt_answers d)" "\<not> P r" "an_query_hash r = h"
    by (auto simp: delete_answers_where_def Let_def)
  then have "h \<notin> an_query_hash ` {r \<in> set (kt_answers d). P r}"
    using assms(1) unique_byD [of an_query_hash "kt_answers d"] unfolding cache_ok_def by blast
  then show "rs \<subseteq> set (kt_sources (delete_answers_where P d)) \<and> so_query_hash ` rs \<subseteq> {h}"
    using r assms(2) by (auto simp: sources_complete_def delete_answers_where_def Let_def)
qed

lemma sources_complete_replace_answer:
  assumes "cache_ok d" and "sources_complete h rs d" and "ca_query_hash a \<noteq> h"
  shows "sources_complete h rs (sql_replace_answer now a d)"
  using sources_complete_delete [OF assms(1,2), of "\<lambda>r. an_query_hash r = ca_query_hash a"] assms(3)
  by (simp add: sources_complete_def sql_replace_answer_def Let_def)

lemma sources_complete_replace_source:
  assumes "sources_complete h rs d" and "so_query_hash r \<noteq> h" and "sql_replace_source r d = Inr (d', u)"
  shows "sources_complete h rs d'"
  using assms by (auto simp: sources_complete_def sql_replace_source_Inr set_replace_row)

text \<open>The statements of calls that do not insert the answer with hash \<open>h\<close>.\<close>

interpretation sources: sql_relation
  "\<lambda>d d'. cache_ok d \<and> sources_complete h rs d \<longrightarrow> cache_ok d' \<and> sources_complete h rs d'" for h rs
  by unfold_locales auto

interpretation answers_kept: sql_relation "\<lambda>d d'. kt_answers d' = kt_answers d \<and> kt_sources d' = kt_sources d"
  by unfold_locales auto

lemma answers_kept_stmt:
  "answers_kept.keeps (insert_vector_stmt f e)" "answers_kept.keeps (delete_vector_stmt f i)"
  "answers_kept.keeps (insert_full_stmt f e)" "answers_kept.keeps (delete_full_stmt f i)" "answers_kept.keeps (bump_vector_generation f)"
  unfolding insert_vector_stmt_def delete_vector_stmt_def insert_full_stmt_def delete_full_stmt_def bump_vector_generation_def
  by (rule answers_kept.keeps_write, simp)+

lemma other_calls_keep_answers:
  assumes "\<not> (\<exists>now a ss. op = InsertCachedAnswer now a ss)" and "\<not> (\<exists>ids. op = InvalidateAnswers ids)"
  shows "kt_answers (fst (cache_call f K op d)) = kt_answers d \<and> kt_sources (fst (cache_call f K op d)) = kt_sources d"
  using assms
  by (cases op)
    (auto simp: upsert_web_cache_def delete_web_cache_def upsert_git_cache_def delete_git_cache_def store_indexed_vectors_def
      delete_indexed_vectors_def store_vectors_body_def delete_vectors_body_def store_full_dim_vectors_def delete_full_dim_vectors_def
      intro!: answers_kept.with_conn_keeps [THEN conjunct1] answers_kept.with_conn_keeps [THEN conjunct2]
        answers_kept.keeps_then answers_kept.keeps_prepare answers_kept.keeps_each answers_kept_stmt
        answers_kept.keeps_write answers_kept.keeps_exec)

lemma sources_call:
  assumes "cache_ok d" and "sources_complete h rs d" and "\<not> inserts_answer h op"
  shows "sources_complete h rs (fst (cache_call f K op d))"
proof -
  note conn = sources.with_conn_keeps [where h = h and rs = rs and d = d, THEN mp, OF _ conjI [OF assms(1,2)], THEN conjunct2]
  show ?thesis
  proof (cases op)
    case (InsertCachedAnswer now a ss)
    with assms(3) have a: "ca_query_hash a \<noteq> h" by (simp add: inserts_answer_def)
    have "sources.keeps h rs (insert_source_stmt f (ca_query_hash a) s)" for s
      unfolding insert_source_stmt_def
      by (rule sources.keeps_exec, intro impI conjI; elim conjE)
        (erule (1) cache_ok_replace_source, erule sources_complete_replace_source, use a in simp_all)
    then show ?thesis unfolding InsertCachedAnswer
      by (simp add: insert_cached_answer_def)
        (intro conn sources.keeps_then sources.keeps_write sources.keeps_each;
          simp add: a cache_ok_replace_answer sources_complete_replace_answer)
  next
    case (InvalidateAnswers ids)
    then show ?thesis using assms(2)
      by (auto simp: invalidate_answers_for_sections_def cache_ok_delete_answers sources_complete_delete
          intro!: conn sources.keeps_exec)
  qed (use assms(2) other_calls_keep_answers [of op f K d] in \<open>simp_all add: sources_complete_def\<close>)
qed

lemma sources_run:
  "cache_ok d \<Longrightarrow> sources_complete h rs d \<Longrightarrow> (\<And>f op. (f, op) \<in> set ops \<Longrightarrow> \<not> inserts_answer h op) \<Longrightarrow>
     sources_complete h rs (cache_run K ops d)"
proof (induction ops arbitrary: d)
  case (Cons fop ops)
  obtain f op where fop: "fop = (f, op)" by (cases fop)
  have "\<not> inserts_answer h op" "\<And>f op. (f, op) \<in> set ops \<Longrightarrow> \<not> inserts_answer h op"
    using Cons.prems(3) by (auto simp: fop)
  with Cons.IH [OF cache_ok_call [OF Cons.prems(1)] sources_call [OF Cons.prems(1,2)]] show ?case
    by (simp add: cache_run_def fop)
qed (simp add: cache_run_def)

lemma each_source_inserted:
  "sql_each (insert_source_stmt f h) ss n d = (n', d', Inr ()) \<Longrightarrow> distinct (map cas_section_id ss) \<Longrightarrow>
     source_rows h ss \<subseteq> set (kt_sources d') \<and>
     (\<forall>r \<in> set (kt_sources d). source_key r \<notin> Pair h ` cas_section_id ` set ss \<longrightarrow> r \<in> set (kt_sources d'))"
proof (induction ss arbitrary: n d)
  case Nil
  then show ?case by (simp add: source_rows_def sql_ret_def)
next
  case (Cons s ss)
  let ?r = "\<lparr>so_query_hash = h, so_section_id = cas_section_id s, so_section_hash = cas_section_hash s\<rparr>"
  obtain n1 d1 u where s: "insert_source_stmt f h s n d = (n1, d1, Inr u)" "sql_each (insert_source_stmt f h) ss n1 d1 = (n', d', Inr ())"
    using Cons.prems(1) by (auto simp: sql_then_def split: prod.splits sum.splits)
  then have d1: "set (kt_sources d1) = {x \<in> set (kt_sources d). source_key x \<noteq> source_key ?r} \<union> {?r}"
    by (auto simp: insert_source_stmt_def sql_exec_def sql_replace_source_Inr set_replace_row split: option.splits sum.splits prod.splits)
  have ih: "source_rows h ss \<subseteq> set (kt_sources d')"
    "\<And>r. r \<in> set (kt_sources d1) \<Longrightarrow> source_key r \<notin> Pair h ` cas_section_id ` set ss \<Longrightarrow> r \<in> set (kt_sources d')"
    using Cons.IH [OF s(2)] Cons.prems(2) by auto
  have "?r \<in> set (kt_sources d')" using ih(2) [of ?r] Cons.prems(2) d1 by auto
  moreover have "source_rows h (s # ss) = insert ?r (source_rows h ss)" by (auto simp: source_rows_def)
  ultimately show ?case using ih d1 by auto
qed

lemma inserted_sources:
  assumes "insert_cached_answer f now a ss d = (d', Inr ())" and "distinct (map cas_section_id ss)"
  shows "sources_complete (ca_query_hash a) (source_rows (ca_query_hash a) ss) d'"
proof -
  from assms(1) obtain n1 d1 n2 where "sql_each (insert_source_stmt f (ca_query_hash a)) ss n1 d1 = (n2, d', Inr ())"
    by (auto simp: insert_cached_answer_def with_conn_def sql_then_def split: option.splits prod.splits sum.splits)
  from each_source_inserted [OF this assms(2)] show ?thesis
    by (auto simp: sources_complete_def source_rows_def)
qed

text \<open>Calls that neither insert the answer nor invalidate answers keep its sources.\<close>

interpretation own_sources: sql_relation
  "\<lambda>d d'. \<forall>r \<in> set (kt_sources d). so_query_hash r = h \<longrightarrow> r \<in> set (kt_sources d')" for h
  by unfold_locales auto

lemma own_sources_call:
  assumes "\<not> inserts_answer h op" and "\<not> invalidates op" and "r \<in> set (kt_sources d)" and "so_query_hash r = h"
  shows "r \<in> set (kt_sources (fst (cache_call f K op d)))"
proof (cases "\<exists>now a ss. op = InsertCachedAnswer now a ss")
  case True
  then obtain now a ss where op: "op = InsertCachedAnswer now a ss" by blast
  with assms(1) have a: "ca_query_hash a \<noteq> h" by (simp add: inserts_answer_def)
  have "own_sources.keeps h (insert_source_stmt f (ca_query_hash a) s)" for s
    unfolding insert_source_stmt_def using a
    by (intro own_sources.keeps_exec) (auto simp: sql_replace_source_Inr set_replace_row)
  then have "\<forall>r \<in> set (kt_sources d). so_query_hash r = h \<longrightarrow> r \<in> set (kt_sources (fst (insert_cached_answer f now a ss d)))"
    unfolding insert_cached_answer_def using a
    by (intro own_sources.with_conn_keeps own_sources.keeps_then own_sources.keeps_write own_sources.keeps_each)
      (auto simp: sql_replace_answer_def delete_answers_where_def Let_def)
  then show ?thesis using assms(3,4) by (simp add: op)
next
  case False
  moreover have "\<not> (\<exists>ids. op = InvalidateAnswers ids)" using assms(2) by (auto simp: invalidates_def)
  ultimately show ?thesis using other_calls_keep_answers [of op f K d] assms(3) by simp
qed

lemma own_sources_run:
  "(\<And>f op. (f, op) \<in> set ops \<Longrightarrow> \<not> inserts_answer h op \<and> \<not> invalidates op) \<Longrightarrow> r \<in> set (kt_sources d) \<Longrightarrow> so_query_hash r = h \<Longrightarrow>
     r \<in> set (kt_sources (cache_run K ops d))"
proof (induction ops arbitrary: d)
  case (Cons fop ops)
  obtain f op where fop: "fop = (f, op)" by (cases fop)
  have "r \<in> set (kt_sources (fst (cache_call f K op d)))"
    by (rule own_sources_call) (use Cons.prems in \<open>auto simp: fop\<close>)
  then have "r \<in> set (kt_sources (cache_run K ops (fst (cache_call f K op d))))"
    by (rule Cons.IH [rotated]) (use Cons.prems in \<open>auto simp: fop\<close>)
  then show ?case by (simp add: cache_run_def fop)
qed (simp add: cache_run_def)

text \<open>
  C11. A changed source never goes unnoticed. Let an answer be cached successfully with sources whose ids are distinct. Whatever
  calls of the store follow and whichever of their statements fail, as long as the answer is not cached anew, the cache stage of
  the question, whose three calls have their own faults and may be interleaved with other calls, never returns a cached answer when
  the current text of one of these sources has another hash than the recorded one; the current text is that of the section with
  the id or, when no section with the id can be read, that of the symbol. Between the read of the answer and the read of its
  sources no other task may invalidate answers.
\<close>

theorem ask_never_serves_stale:
  assumes "cache_ok d" and "insert_cached_answer f now a ss d = (d1, Inr ())" and "distinct (map cas_section_id ss)"
    and "\<And>g op. (g, op) \<in> set ops \<Longrightarrow> \<not> inserts_answer (ca_query_hash a) op"
    and "\<And>g op. (g, op) \<in> set (ae_before_sources E) \<Longrightarrow> \<not> inserts_answer (ca_query_hash a) op \<and> \<not> invalidates op"
    and "s \<in> set ss" and "read_section (cas_section_id s) = Some t \<or> read_section (cas_section_id s) = None \<and> symbol_text (cas_section_id s) = Some t"
    and "content_hash t \<noteq> cas_section_hash s"
  shows "snd (ask_cached K E read_section symbol_text content_hash (ca_query_hash a) (cache_run K ops d1)) \<noteq> Inr (Some c)"
proof
  let ?h = "ca_query_hash a" and ?d = "cache_run K ops d1"
  let ?d2 = "cache_run K (ae_before_sources E) ?d"
  let ?r = "\<lparr>so_query_hash = ?h, so_section_id = cas_section_id s, so_section_hash = cas_section_hash s\<rparr>"
  assume hit: "snd (ask_cached K E read_section symbol_text content_hash ?h ?d) = Inr (Some c)"
  then obtain sources where c: "get_cached_answer (ae_answer E) ?h ?d = Inr (Some c)" "get_cached_answer_sources (ae_sources E) ?h ?d2 = Inr sources"
    "verify_sources read_section symbol_text content_hash sources"
    by (auto simp: ask_cached_def Let_def split: sum.splits option.splits if_splits)
  have d1: "cache_ok d1" using cache_ok_call [OF assms(1), of f K "InsertCachedAnswer now a ss"] assms(2) by simp
  have "?h \<in> an_query_hash ` set (kt_answers ?d)" using c(1)
    by (auto simp: get_cached_answer_def named_query_def with_conn_def sql_exec_def find_Some_iff split: option.splits)
      (metis imageI nth_mem)
  then have "source_rows ?h ss \<subseteq> set (kt_sources ?d)"
    using sources_run [OF d1 inserted_sources [OF assms(2,3)] assms(4)] by (simp add: sources_complete_def)
  then have "?r \<in> set (kt_sources ?d)" using assms(6) by (auto simp: source_rows_def)
  then have "?r \<in> set (kt_sources ?d2)" using own_sources_run [OF assms(5)] by simp
  then have "s \<in> set sources" using c(2)
    by (auto simp: get_cached_answer_sources_def named_query_def with_conn_def sql_exec_def image_iff split: option.splits intro!: exI [of _ ?r])
  moreover have "current_text read_section symbol_text (cas_section_id s) = Some t" using assms(7) by (auto simp: current_text_def)
  ultimately show False using c(3) assms(8) by (auto simp: verify_sources_def list_all_iff)
qed

section \<open>Instances\<close>

lemma ask_never_serves_stale_witness:
  "let d = fst (insert_cached_answer no_faults ''now'' example_answer [example_source] empty_cache)
   in get_cached_answer no_faults ''q'' d = Inr (Some (example_answer\<lparr>ca_created_at := ''now''\<rparr>)) \<and>
      snd (ask_cached example_codecs calm_ask (\<lambda>i. None) (\<lambda>i. Some ''new'') (\<lambda>t. t) ''q'' (cache_run example_codecs [(no_faults, DeleteWebCache ''u'')] d))
        \<noteq> Inr (Some (example_answer\<lparr>ca_created_at := ''now''\<rparr>))"
proof -
  define d where "d = fst (insert_cached_answer no_faults ''now'' example_answer [example_source] empty_cache)"
  have "snd (insert_cached_answer no_faults ''now'' example_answer [example_source] empty_cache) = Inr ()" by code_simp
  then have d: "insert_cached_answer no_faults ''now'' example_answer [example_source] empty_cache = (d, Inr ())"
    by (metis d_def prod.collapse)
  have "get_cached_answer no_faults ''q'' d = Inr (Some (example_answer\<lparr>ca_created_at := ''now''\<rparr>))" unfolding d_def by code_simp
  moreover have "snd (ask_cached example_codecs calm_ask (\<lambda>i. None) (\<lambda>i. Some ''new'') (\<lambda>t. t) (ca_query_hash example_answer)
      (cache_run example_codecs [(no_faults, DeleteWebCache ''u'')] d)) \<noteq> Inr (Some (example_answer\<lparr>ca_created_at := ''now''\<rparr>))"
    by (rule ask_never_serves_stale [OF cache_ok_empty d, where s = example_source and t = "''new''"])
      (auto simp: example_source_def inserts_answer_def calm_ask_def)
  ultimately show ?thesis by (simp add: d_def example_answer_def)
qed

lemma fingerprint_detects_change_witness:
  "let d = fst (store_indexed_vectors no_faults [(''a'', [1])] empty_cache);
       ops = [(no_faults, DeleteIndexedVectors []), (no_faults, StoreFullDimVectors [(''a'', [2])])]
   in run_succeeds example_codecs ops d \<and> list_indexed_vectors no_faults (cache_run example_codecs ops d) = list_indexed_vectors no_faults d"
proof -
  define d where "d = fst (store_indexed_vectors no_faults [(''a'', [1])] empty_cache)"
  define ops where "ops = [(no_faults, DeleteIndexedVectors []), (no_faults, StoreFullDimVectors [(''a'', [2])])]"
  have ok: "run_succeeds example_codecs ops d" unfolding ops_def d_def by code_simp
  have "indexed_vector_fingerprint no_faults (cache_run example_codecs ops d) = indexed_vector_fingerprint no_faults d"
    unfolding ops_def d_def by code_simp
  from fingerprint_detects_change [OF ok this] ok show ?thesis by (simp add: d_def ops_def)
qed

lemma stored_vectors_read_back_witness:
  "\<exists>d l. store_indexed_vectors no_faults [(''b'', [1, 2]), (''a'', [3]), (''b'', [4])] empty_cache = (d, Inr ()) \<and>
     list_indexed_vectors no_faults d = Inr l \<and> map_of l = [''a'' \<mapsto> [3], ''b'' \<mapsto> [4]]"
proof -
  let ?es = "[(''b'', [1, 2]), (''a'', [3]), (''b'', [4])]"
  have "snd (store_indexed_vectors no_faults ?es empty_cache) = Inr ()" by code_simp
  then obtain d where d: "store_indexed_vectors no_faults ?es empty_cache = (d, Inr ())" by (metis prod.collapse)
  have "list_indexed_vectors no_faults empty_cache = Inr []" by code_simp
  with stored_vectors_read_back [OF cache_ok_empty d] show ?thesis using d by (auto simp: fun_eq_iff)
qed

text \<open>
  A batch that fails in the middle leaves the vectors changed under an unchanged fingerprint, and an answer whose sources
  could not be written stays: no invalidation finds it, and it counts as verified.
\<close>

lemma partial_store_keeps_fingerprint:
  "let d = fst (store_indexed_vectors no_faults [(''a'', [1])] empty_cache);
       (d', r) = store_indexed_vectors (\<lambda>n. if n = 3 then Some ''database is locked'' else None) [(''a'', [2]), (''b'', [3])] d
   in isl r \<and> indexed_vector_fingerprint no_faults d' = indexed_vector_fingerprint no_faults d \<and>
      list_indexed_vectors no_faults d' \<noteq> list_indexed_vectors no_faults d"
  by code_simp

text \<open>An invalidation between the two reads deletes the sources of an answer that was already read: nothing is left to
  compare, and the stale answer is returned.\<close>

lemma invalidated_answer_served:
  "let d = fst (insert_cached_answer no_faults ''now'' example_answer [example_source] empty_cache);
       E = calm_ask\<lparr>ae_before_sources := [(no_faults, InvalidateAnswers [''s''])]\<rparr>
   in snd (ask_cached example_codecs E (\<lambda>i. Some ''new'') (\<lambda>i. None) (\<lambda>t. t) ''q'' d) = Inr (Some (example_answer\<lparr>ca_created_at := ''now''\<rparr>))"
  by code_simp

lemma partial_answer_stays:
  "let (d, r) = insert_cached_answer (\<lambda>n. if n = 2 then Some ''database is locked'' else None) ''now'' example_answer
         [example_source] empty_cache;
       d' = fst (invalidate_answers_for_sections no_faults [''s''] d)
   in isl r \<and> snd (ask_cached example_codecs calm_ask (\<lambda>i. None) (\<lambda>i. Some ''new'') (\<lambda>t. t) ''q'' d') = Inr (Some (example_answer\<lparr>ca_created_at := ''now''\<rparr>))"
  by code_simp

end
