(* ===== verification/Hnsw.thy ===== *)
theory Hnsw
  imports Cache_Store Inverted
begin

text \<open>
  The approximate vector index: \<open>HnswIndex\<close> (\<open>ministr-core/src/index/hnsw.rs\<close>), its persistence by
  directory renames, the health check (\<open>index/health.rs\<close>) and the seam that loads a persisted dump or rebuilds the
  index from the vector store (\<open>index/rebuild.rs\<close>). The graph library is the argument \<open>hnsw_lib\<close>, its
  dump and its loader included. A crash stops a persist in any of the states its run goes through, and every file-system call fails when the fault
  argument says so. Locks are not poisoned, as in \<open>Inverted\<close>.
\<close>

section \<open>Elements\<close>

text \<open>The value of the bits of a finite \<open>f32\<close>.\<close>

definition bits_finite :: "f32_bits \<Rightarrow> bool" where
  "bits_finite w \<longleftrightarrow> take_bit 8 (drop_bit 23 w) \<noteq> 255"

definition bits_value :: "f32_bits \<Rightarrow> f32" where
  "bits_value w =
     (let e = uint (take_bit 8 (drop_bit 23 w)); m = uint (take_bit 23 w);
          x = (if e = 0 then of_int m * pow2 (- 149) else of_int (2 ^ 23 + m) * pow2 (e - 150))
      in if bit w 31 then - x else x)"

definition norm_sq :: "f32 list \<Rightarrow> f32" where
  "norm_sq v = fold (\<lambda>x acc. fadd32 acc (fmul32 x x)) v 0"

text \<open>The squared norm is not finite, or below the floor.\<close>

definition MIN_NORM_SQ :: f32 where
  "MIN_NORM_SQ = rnd32 (1 / 10 ^ 12)"

definition degenerate :: "f32_bits list \<Rightarrow> bool" where
  "degenerate v \<longleftrightarrow>
     \<not> list_all bits_finite v \<or>
     (let n = norm_sq (map bits_value v) in 2 ^ 128 \<le> n \<or> n < MIN_NORM_SQ)"

section \<open>The index\<close>

record 'g hnsw_lib =
  hl_new :: "nat \<Rightarrow> nat \<Rightarrow> nat \<Rightarrow> nat \<Rightarrow> 'g"
  hl_insert :: "f32_bits list \<Rightarrow> nat \<Rightarrow> 'g \<Rightarrow> 'g"
  hl_search :: "f32_bits list \<Rightarrow> nat \<Rightarrow> nat \<Rightarrow> 'g \<Rightarrow> (nat \<times> f32) list"
  hl_dump :: "'g \<Rightarrow> string"
  hl_load :: "string \<Rightarrow> string + 'g"

record 'g hnsw_index =
  hn_graph :: 'g
  hn_id_to_int :: "(string \<times> nat) list"
  hn_int_to_id :: "(nat \<times> string) list"
  hn_deleted :: "nat list"
  hn_next_id :: nat
  hn_dim :: nat
  hn_ef_search :: nat
  hn_model_name :: "string option"

record hnsw_config =
  hc_dimension :: nat
  hc_max_elements :: nat
  hc_m :: nat
  hc_max_layer :: nat
  hc_ef_construction :: nat
  hc_ef_search :: nat

definition config_new :: "nat \<Rightarrow> nat \<Rightarrow> hnsw_config" where
  "config_new dm n =
     \<lparr>hc_dimension = dm, hc_max_elements = n, hc_m = 16, hc_max_layer = 16, hc_ef_construction = 200, hc_ef_search = 50\<rparr>"

definition with_config :: "'g hnsw_lib \<Rightarrow> hnsw_config \<Rightarrow> 'g hnsw_index index_result" where
  "with_config L cfg =
     (if hc_dimension cfg = 0 then Inl (EmbeddingFailed ''vector dimension must be > 0'')
      else Inr \<lparr>hn_graph = hl_new L (hc_m cfg) (hc_max_elements cfg) (hc_max_layer cfg) (hc_ef_construction cfg),
                hn_id_to_int = [], hn_int_to_id = [], hn_deleted = [], hn_next_id = 0, hn_dim = hc_dimension cfg,
                hn_ef_search = hc_ef_search cfg, hn_model_name = None\<rparr>)"

definition hnsw_new :: "'g hnsw_lib \<Rightarrow> nat \<Rightarrow> nat \<Rightarrow> 'g hnsw_index index_result" where
  "hnsw_new L dm n = with_config L (config_new dm n)"

definition set_model_name :: "string \<Rightarrow> 'g hnsw_index \<Rightarrow> 'g hnsw_index" where
  "set_model_name n ix = ix\<lparr>hn_model_name := Some n\<rparr>"

datatype model_compatibility = Compatible | IncompatibleModel string string | NoPreviousModel

definition check_model_compatibility :: "string \<Rightarrow> string option \<Rightarrow> model_compatibility" where
  "check_model_compatibility current stored =
     (case stored of
        None \<Rightarrow> NoPreviousModel
      | Some s \<Rightarrow> if s = current then Compatible else IncompatibleModel s current)"

definition check_compatible :: "nat \<Rightarrow> string \<Rightarrow> string \<Rightarrow> 'g hnsw_index \<Rightarrow> unit index_result" where
  "check_compatible expected_dim expected_model path ix =
     (if hn_dim ix \<noteq> expected_dim \<or>
         (case check_model_compatibility expected_model (hn_model_name ix) of IncompatibleModel _ _ \<Rightarrow> True | _ \<Rightarrow> False)
      then Inl (ModelMismatch path (hn_dim ix) expected_dim (hn_model_name ix) expected_model)
      else Inr ())"

definition hnsw_insert :: "'g hnsw_lib \<Rightarrow> string \<Rightarrow> f32_bits list \<Rightarrow> 'g hnsw_index \<Rightarrow> 'g hnsw_index \<times> unit index_result" where
  "hnsw_insert L i v ix =
     (if length v \<noteq> hn_dim ix
      then (ix, Inl (EmbeddingFailed
              (''vector dimension mismatch: expected '' @ show_nat (hn_dim ix) @ '', got '' @ show_nat (length v))))
      else if degenerate v then (ix, Inr ())
      else
        (let ix = (case map_of (hn_id_to_int ix) i of
                     Some old \<Rightarrow> ix\<lparr>hn_deleted := hs_insert old (hn_deleted ix), hn_int_to_id := AList.delete old (hn_int_to_id ix)\<rparr>
                   | None \<Rightarrow> ix);
             int_id = hn_next_id ix
         in (ix\<lparr>hn_next_id := int_id + 1, hn_id_to_int := AList.update i int_id (hn_id_to_int ix),
                hn_int_to_id := AList.update int_id i (hn_int_to_id ix), hn_graph := hl_insert L v int_id (hn_graph ix)\<rparr>,
             Inr ())))"

definition hnsw_search_knn :: "'g hnsw_lib \<Rightarrow> f32_bits list \<Rightarrow> nat \<Rightarrow> 'g hnsw_index \<Rightarrow> search_result list index_result" where
  "hnsw_search_knn L q k ix =
     (if length q \<noteq> hn_dim ix
      then Inl (QueryFailed (''query dimension mismatch: expected '' @ show_nat (hn_dim ix) @ '', got '' @ show_nat (length q)))
      else if hn_int_to_id ix = [] then Inr []
      else
        (let search_k = k + length (hn_deleted ix);
             neighbours = filter (\<lambda>n. fst n \<notin> set (hn_deleted ix)) (hl_search L q search_k (hn_ef_search ix) (hn_graph ix));
             results = take k (List.map_filter
               (\<lambda>(n, dist). map_option (\<lambda>i. \<lparr>rr_id = i, rr_distance = dist\<rparr>) (map_of (hn_int_to_id ix) n)) neighbours)
         in Inr (sort_key rr_distance results)))"

definition hnsw_delete :: "string \<Rightarrow> 'g hnsw_index \<Rightarrow> 'g hnsw_index \<times> bool" where
  "hnsw_delete i ix =
     (case map_of (hn_id_to_int ix) i of
        Some n \<Rightarrow>
          (ix\<lparr>hn_deleted := hs_insert n (hn_deleted ix), hn_int_to_id := AList.delete n (hn_int_to_id ix),
              hn_id_to_int := AList.delete i (hn_id_to_int ix)\<rparr>, True)
      | None \<Rightarrow> (ix, False))"

definition hnsw_len :: "'g hnsw_index \<Rightarrow> nat" where
  "hnsw_len ix = length (hn_int_to_id ix)"

section \<open>Persistence\<close>

record id_map_data =
  im_dim :: nat
  im_ef_search :: nat
  im_id_to_int :: "(string \<times> nat) list"
  im_deleted :: "nat list"
  im_next_id :: nat
  im_model_name :: "string option"

text \<open>
  The files of an index directory: the dump of the graph, the id map, the cache token, and whether anything else is in it,
  such as one of the two files of a half-removed dump; and the directory with its backup and the staging directory beside it.
\<close>

record index_files =
  xf_dump :: "string option"
  xf_id_map :: "string option"
  xf_token :: "string option"
  xf_other :: bool

record index_fs =
  xs_dir :: "index_files option"
  xs_bak :: "index_files option"
  xs_tmp :: "index_files option"

text \<open>
  Which calls fail. A persist removes up to four directories: a staging directory of the same name, the old backup, the
  staging directory after a failure, and the backup at the end. A removal that fails or is interrupted leaves what
  \<open>io_left\<close> says, an interrupted staging what \<open>io_partial\<close> says.
\<close>

datatype removal = TmpFirst | BakFirst | TmpLast | BakLast

record index_io =
  io_create_parent :: "string option"
  io_create_tmp :: "string option"
  io_stage :: "index_error option"
  io_aside :: "string option"
  io_swap :: "string option"
  io_back :: "string option"
  io_rm_fails :: "removal \<Rightarrow> bool"
  io_partial :: index_files
  io_left :: "removal \<Rightarrow> index_files \<Rightarrow> index_files"
  io_open :: "string option"
  io_token :: bool

definition has_id_map :: "index_files option \<Rightarrow> bool" where
  "has_id_map d = (case d of None \<Rightarrow> False | Some x \<Rightarrow> xf_id_map x \<noteq> None)"

definition id_map_of :: "'g hnsw_index \<Rightarrow> id_map_data" where
  "id_map_of ix =
     \<lparr>im_dim = hn_dim ix, im_ef_search = hn_ef_search ix, im_id_to_int = hn_id_to_int ix, im_deleted = hn_deleted ix,
      im_next_id = hn_next_id ix, im_model_name = hn_model_name ix\<rparr>"

text \<open>What staging leaves in the staging directory, or why it fails.\<close>

definition stage_index :: "'g hnsw_lib \<Rightarrow> id_map_data blob_codec \<Rightarrow> index_io \<Rightarrow> 'g hnsw_index \<Rightarrow> index_error + index_files" where
  "stage_index L B io ix =
     (case io_stage io of
        Some e \<Rightarrow> Inl e
      | None \<Rightarrow>
          (case bc_to B (id_map_of ix) of
             None \<Rightarrow> Inl (LoadFailed ''id_map.json'' ''failed to write ID map'')
           | Some j \<Rightarrow> Inr \<lparr>xf_dump = Some (hl_dump L (hn_graph ix)), xf_id_map = Some j, xf_token = None, xf_other = False\<rparr>))"

definition removing :: "(index_files \<Rightarrow> index_files) \<Rightarrow> index_files option \<Rightarrow> index_files option" where
  "removing left d = map_option left d"

definition rm_tmp :: "removal \<Rightarrow> index_io \<Rightarrow> index_fs \<Rightarrow> index_fs list" where
  "rm_tmp which io fs =
     fs\<lparr>xs_tmp := removing (io_left io which) (xs_tmp fs)\<rparr> # (if io_rm_fails io which then [] else [fs\<lparr>xs_tmp := None\<rparr>])"

definition rm_bak :: "removal \<Rightarrow> index_io \<Rightarrow> index_fs \<Rightarrow> index_fs list" where
  "rm_bak which io fs =
     fs\<lparr>xs_bak := removing (io_left io which) (xs_bak fs)\<rparr> # (if io_rm_fails io which then [] else [fs\<lparr>xs_bak := None\<rparr>])"

text \<open>A directory can be renamed onto one that is missing or empty.\<close>

definition rename_target :: "index_files option \<Rightarrow> bool" where
  "rename_target d =
     (case d of None \<Rightarrow> True
      | Some x \<Rightarrow> xf_dump x = None \<and> xf_id_map x = None \<and> xf_token x = None \<and> \<not> xf_other x)"

text \<open>The states a persist goes through, and its result.\<close>

definition persist :: "'g hnsw_lib \<Rightarrow> id_map_data blob_codec \<Rightarrow> index_io \<Rightarrow> string \<Rightarrow> 'g hnsw_index \<Rightarrow> index_fs \<Rightarrow> index_fs list \<times> unit index_result" where
  "persist L B io path ix fs =
     (case io_create_parent io of
        Some m \<Rightarrow> ([fs], Inl (LoadFailed path (''failed to create parent directory: '' @ m)))
      | None \<Rightarrow>
     let s1 = rm_tmp TmpFirst io fs; fs1 = last s1
     in case io_create_tmp io of
        Some m \<Rightarrow> (s1, Inl (LoadFailed path (''failed to create temp directory: '' @ m)))
      | None \<Rightarrow>
     let s2 = [fs1\<lparr>xs_tmp := Some (io_partial io)\<rparr>]
     in case stage_index L B io ix of
        Inl e \<Rightarrow> (s1 @ s2 @ rm_tmp TmpLast io (last s2), Inl e)
      | Inr files \<Rightarrow>
     let fs2 = fs1\<lparr>xs_tmp := Some files\<rparr>; s3 = fs2 # rm_bak BakFirst io fs2; fs3 = last s3; existed = xs_dir fs3 \<noteq> None
     in if existed \<and> (io_aside io \<noteq> None \<or> \<not> rename_target (xs_bak fs3))
        then (s1 @ s2 @ s3 @ rm_tmp TmpLast io fs3, Inl (LoadFailed path (''failed to move current index aside: '' @ (case io_aside io of None \<Rightarrow> ''directory not empty'' | Some m \<Rightarrow> m))))
        else
     let fs4 = (if existed then fs3\<lparr>xs_bak := xs_dir fs3, xs_dir := None\<rparr> else fs3)
     in case io_swap io of
        Some m \<Rightarrow>
          (let fs5 = (if existed \<and> io_back io = None then fs4\<lparr>xs_dir := xs_bak fs4, xs_bak := None\<rparr> else fs4)
           in (s1 @ s2 @ s3 @ [fs4, fs5] @ rm_tmp TmpLast io fs5, Inl (LoadFailed path (''failed to swap new index into place: '' @ m))))
      | None \<Rightarrow>
          (let fs5 = fs4\<lparr>xs_dir := xs_tmp fs4, xs_tmp := None\<rparr>
           in (s1 @ s2 @ s3 @ [fs4, fs5] @ rm_bak BakLast io fs5, Inr ())))"

definition load :: "'g hnsw_lib \<Rightarrow> id_map_data blob_codec \<Rightarrow> index_io \<Rightarrow> string \<Rightarrow> index_fs \<Rightarrow> 'g hnsw_index index_result" where
  "load L B io path fs =
     (case (if has_id_map (xs_dir fs) then xs_dir fs else if has_id_map (xs_bak fs) then xs_bak fs else None) of
        None \<Rightarrow> Inl (LoadFailed path ''no id_map.json in index directory or backup'')
      | Some src \<Rightarrow>
          (case io_open io of
             Some m \<Rightarrow> Inl (LoadFailed path (''failed to read ID map: '' @ m))
           | None \<Rightarrow>
               (case Option.bind (xf_id_map src) (bc_from B) of
                  None \<Rightarrow> Inl (LoadFailed path ''failed to parse ID map'')
                | Some im \<Rightarrow>
                    (case xf_dump src of
                       None \<Rightarrow> Inl (LoadFailed path ''failed to load HNSW'')
                     | Some dump \<Rightarrow>
                         (case hl_load L dump of
                            Inl m \<Rightarrow> Inl (LoadFailed path (''failed to load HNSW: '' @ m))
                          | Inr g \<Rightarrow>
                              Inr \<lparr>hn_graph = g, hn_id_to_int = im_id_to_int im,
                                   hn_int_to_id = fold (\<lambda>(k, v). AList.update v k) (im_id_to_int im) [],
                                   hn_deleted = fold hs_insert (im_deleted im) [], hn_next_id = im_next_id im, hn_dim = im_dim im,
                                   hn_ef_search = im_ef_search im, hn_model_name = im_model_name im\<rparr>)))))"

section \<open>Health\<close>

record vector_set_health =
  vh_total :: nat
  vh_degenerate :: nat
  vh_collapsed :: bool

definition health_live :: "vector_set_health \<Rightarrow> nat" where
  "health_live h = vh_total h - vh_degenerate h"

definition is_degenerate :: "vector_set_health \<Rightarrow> bool" where
  "is_degenerate h \<longleftrightarrow> 0 < vh_total h \<and> (vh_degenerate h = vh_total h \<or> vh_collapsed h)"

text \<open>The state of the pass: totals, whether all live vectors were parallel so far, and the first direction. \<open>sq\<close> is the square root.\<close>

definition analyze_step ::
    "(f32 \<Rightarrow> f32) \<Rightarrow> f32_bits list \<Rightarrow> nat \<times> nat \<times> nat \<times> bool \<times> f32 list option \<Rightarrow> nat \<times> nat \<times> nat \<times> bool \<times> f32 list option" where
  "analyze_step sq v = (\<lambda>(tot, degen, live, all_parallel, reference).
     if degenerate v then (tot + 1, degen + 1, live, all_parallel, reference)
     else if \<not> all_parallel then (tot + 1, degen, live + 1, all_parallel, reference)
     else
       (let inv_norm = fdiv32 1 (sq (norm_sq (map bits_value v)));
            dir = map (\<lambda>x. fmul32 (bits_value x) inv_norm) v
        in case reference of
             None \<Rightarrow> (tot + 1, degen, live + 1, all_parallel, Some dir)
           | Some r \<Rightarrow>
               (let cosine = fold (\<lambda>(a, b) acc. fadd32 acc (fmul32 a b)) (zip r dir) 0
                in (tot + 1, degen, live + 1, \<not> cosine < fsub32 1 (rnd32 (1 / 10 ^ 6)), Some r))))"

definition analyze_vectors :: "(f32 \<Rightarrow> f32) \<Rightarrow> f32_bits list list \<Rightarrow> vector_set_health" where
  "analyze_vectors sq vs =
     (case fold (analyze_step sq) vs (0, 0, 0, True, None) of (tot, degen, live, all_parallel, _) \<Rightarrow>
        \<lparr>vh_total = tot, vh_degenerate = degen, vh_collapsed = (2 \<le> live \<and> all_parallel)\<rparr>)"

section \<open>Rebuild or load\<close>

definition store_error_str :: "store_error \<Rightarrow> string" where
  "store_error_str e = (case e of DatabaseError r \<Rightarrow> ''database error: '' @ r | SerializationError \<Rightarrow> ''serialization error: '')"

fun insert_all :: "'g hnsw_lib \<Rightarrow> (string \<times> f32_bits list) list \<Rightarrow> 'g hnsw_index \<Rightarrow> 'g hnsw_index index_result" where
  "insert_all L [] ix = Inr ix"
| "insert_all L ((i, v) # vs) ix =
     (case hnsw_insert L i v ix of (ix', r) \<Rightarrow> (case r of Inl e \<Rightarrow> Inl e | Inr _ \<Rightarrow> insert_all L vs ix'))"

definition rebuild_hnsw_from_store ::
    "'g hnsw_lib \<Rightarrow> sql_faults \<Rightarrow> nat \<Rightarrow> string option \<Rightarrow> cache_tables \<Rightarrow> 'g hnsw_index index_result" where
  "rebuild_hnsw_from_store L f dm model d =
     (case list_indexed_vectors f d of
        Inl e \<Rightarrow> Inl (LoadFailed ''<indexed_vectors>'' (''failed to read indexed vectors from store: '' @ store_error_str e))
      | Inr vectors \<Rightarrow>
          (case with_config L (config_new dm (max (length vectors) 1)) of
             Inl e \<Rightarrow> Inl e
           | Inr ix \<Rightarrow> insert_all L vectors (case model of None \<Rightarrow> ix | Some n \<Rightarrow> set_model_name n ix)))"

record cache_token =
  ct_cache_version :: nat
  ct_model :: "string option"
  ct_dim :: nat
  ct_count :: nat
  ct_generation :: nat

definition HNSW_CACHE_VERSION :: nat where
  "HNSW_CACHE_VERSION = 1"

definition token_new :: "nat \<Rightarrow> string option \<Rightarrow> vector_fingerprint \<Rightarrow> cache_token" where
  "token_new dm model fp =
     \<lparr>ct_cache_version = HNSW_CACHE_VERSION, ct_model = model, ct_dim = dm, ct_count = fp_count fp, ct_generation = fp_generation fp\<rparr>"

definition read_cache_token :: "cache_token blob_codec \<Rightarrow> index_fs \<Rightarrow> cache_token option" where
  "read_cache_token T fs = (case xs_dir fs of None \<Rightarrow> None | Some x \<Rightarrow> Option.bind (xf_token x) (bc_from T))"

text \<open>A failed write leaves a file that does not parse, which reads like none.\<close>

definition write_cache_token :: "cache_token blob_codec \<Rightarrow> index_io \<Rightarrow> cache_token \<Rightarrow> index_fs \<Rightarrow> index_fs" where
  "write_cache_token T io tok fs =
     (case bc_to T tok of
        None \<Rightarrow> fs
      | Some j \<Rightarrow> fs\<lparr>xs_dir := map_option (\<lambda>x. x\<lparr>xf_token := if io_token io then None else Some j\<rparr>) (xs_dir fs)\<rparr>)"

definition persist_hnsw_cache ::
    "'g hnsw_lib \<Rightarrow> id_map_data blob_codec \<Rightarrow> cache_token blob_codec \<Rightarrow> sql_faults \<Rightarrow> index_io \<Rightarrow> string \<Rightarrow> 'g hnsw_index \<Rightarrow> string option
       \<Rightarrow> cache_tables \<Rightarrow> index_fs \<Rightarrow> index_fs \<times> unit index_result" where
  "persist_hnsw_cache L B T f io path ix model d fs =
     (let fp = (case indexed_vector_fingerprint f d of Inl _ \<Rightarrow> None | Inr fp \<Rightarrow> fp)
      in case persist L B io path ix fs of (states, r) \<Rightarrow>
           (case r of
              Inl e \<Rightarrow> (last states, Inl e)
            | Inr _ \<Rightarrow>
                (case fp of
                   None \<Rightarrow> (last states, Inr ())
                 | Some fp \<Rightarrow> (write_cache_token T io (token_new (hn_dim ix) model fp) (last states), Inr ()))))"

text \<open>The fast path: a dump with a matching token that loads and is compatible.\<close>

definition load_cached ::
    "'g hnsw_lib \<Rightarrow> id_map_data blob_codec \<Rightarrow> cache_token blob_codec \<Rightarrow> index_io \<Rightarrow> string \<Rightarrow> nat \<Rightarrow> string option
       \<Rightarrow> vector_fingerprint option \<Rightarrow> index_fs \<Rightarrow> 'g hnsw_index option" where
  "load_cached L B T io path dm model fp fs =
     (case fp of
        None \<Rightarrow> None
      | Some fp \<Rightarrow>
          if 0 < fp_count fp \<and> xs_dir fs \<noteq> None \<and> read_cache_token T fs = Some (token_new dm model fp)
          then (case load L B io path fs of
                  Inl _ \<Rightarrow> None
                | Inr ix \<Rightarrow>
                    if (case model of None \<Rightarrow> True | Some m \<Rightarrow> \<not> isl (check_compatible dm m path ix)) then Some ix else None)
          else None)"

definition load_cached_or_rebuild_hnsw ::
    "'g hnsw_lib \<Rightarrow> id_map_data blob_codec \<Rightarrow> cache_token blob_codec \<Rightarrow> sql_faults \<Rightarrow> index_io \<Rightarrow> string \<Rightarrow> nat \<Rightarrow> string option
       \<Rightarrow> cache_tables \<Rightarrow> index_fs \<Rightarrow> index_fs \<times> 'g hnsw_index option index_result" where
  "load_cached_or_rebuild_hnsw L B T f io path dm model d fs =
     (case indexed_vector_fingerprint f d of
        Inl e \<Rightarrow> (fs, Inl (LoadFailed ''<indexed_vectors>'' (''failed to fingerprint indexed vectors: '' @ store_error_str e)))
      | Inr fp \<Rightarrow>
          (case load_cached L B T io path dm model fp fs of
             Some ix \<Rightarrow> (fs, Inr (Some ix))
           | None \<Rightarrow>
               (case rebuild_hnsw_from_store L f dm model d of
                  Inl e \<Rightarrow> (fs, Inl e)
                | Inr rebuilt \<Rightarrow>
                    if hnsw_len rebuilt = 0 then (fs, Inr None)
                    else
                      (case fp of
                         None \<Rightarrow> (fs, Inr (Some rebuilt))
                       | Some fp \<Rightarrow>
                           (case persist L B io path rebuilt fs of (states, r) \<Rightarrow>
                              ((case r of
                                  Inl _ \<Rightarrow> last states
                                | Inr _ \<Rightarrow> write_cache_token T io (token_new dm model fp) (last states)),
                               Inr (Some rebuilt)))))))"

section \<open>Specification\<close>

text \<open>
  What the code relies on of the library, \<open>pts\<close> giving the points of a graph: an insertion adds its point, and a search
  returns at most as many points as asked for, each once.
\<close>

definition ann_ok :: "'g hnsw_lib \<Rightarrow> ('g \<Rightarrow> (nat \<times> f32_bits list) list) \<Rightarrow> bool" where
  "ann_ok L pts \<longleftrightarrow>
     (\<forall>a b c e. pts (hl_new L a b c e) = []) \<and> (\<forall>v n g. pts (hl_insert L v n g) = pts g @ [(n, v)]) \<and>
     (\<forall>q k ef g. fst ` set (hl_search L q k ef g) \<subseteq> fst ` set (pts g) \<and> distinct (map fst (hl_search L q k ef g)) \<and>
        length (hl_search L q k ef g) \<le> k)"

text \<open>A graph that is dumped and loaded again has the same points.\<close>

definition dump_ok :: "'g hnsw_lib \<Rightarrow> ('g \<Rightarrow> (nat \<times> f32_bits list) list) \<Rightarrow> bool" where
  "dump_ok L pts \<longleftrightarrow> (\<forall>g. \<exists>g'. hl_load L (hl_dump L g) = Inr g' \<and> pts g' = pts g)"

definition hnsw_ok :: "('g \<Rightarrow> (nat \<times> f32_bits list) list) \<Rightarrow> 'g hnsw_index \<Rightarrow> bool" where
  "hnsw_ok pts ix \<longleftrightarrow>
     distinct (map fst (hn_id_to_int ix)) \<and> distinct (map fst (hn_int_to_id ix)) \<and> distinct (hn_deleted ix) \<and>
     (\<forall>i n. map_of (hn_id_to_int ix) i = Some n \<longleftrightarrow> map_of (hn_int_to_id ix) n = Some i) \<and>
     (\<forall>i n. map_of (hn_id_to_int ix) i = Some n \<longrightarrow> n \<notin> set (hn_deleted ix) \<and> n \<in> fst ` set (pts (hn_graph ix))) \<and>
     distinct (map fst (pts (hn_graph ix))) \<and> (\<forall>n \<in> fst ` set (pts (hn_graph ix)). n < hn_next_id ix) \<and>
     (\<forall>n \<in> set (hn_deleted ix). n < hn_next_id ix)"

text \<open>The vectors an index holds, and those of the store that can be indexed.\<close>

definition live_vectors :: "('g \<Rightarrow> (nat \<times> f32_bits list) list) \<Rightarrow> 'g hnsw_index \<Rightarrow> string \<rightharpoonup> f32_bits list" where
  "live_vectors pts ix i = Option.bind (map_of (hn_id_to_int ix) i) (map_of (pts (hn_graph ix)))"

definition store_vectors :: "cache_tables \<Rightarrow> string \<rightharpoonup> f32_bits list" where
  "store_vectors d i = Option.bind (vector_map (kt_vectors d) i) (\<lambda>v. if degenerate v then None else Some v)"

datatype hnsw_op = HInsert string "f32_bits list" | HDelete string

primrec hnsw_exec :: "'g hnsw_lib \<Rightarrow> hnsw_op \<Rightarrow> 'g hnsw_index \<Rightarrow> 'g hnsw_index" where
  "hnsw_exec L (HInsert i v) ix = fst (hnsw_insert L i v ix)"
| "hnsw_exec L (HDelete i) ix = fst (hnsw_delete i ix)"

primrec map_exec :: "nat \<Rightarrow> hnsw_op \<Rightarrow> (string \<rightharpoonup> f32_bits list) \<Rightarrow> string \<rightharpoonup> f32_bits list" where
  "map_exec dm (HInsert i v) m = (if length v = dm \<and> \<not> degenerate v then m(i \<mapsto> v) else m)"
| "map_exec dm (HDelete i) m = m(i := None)"

text \<open>Equality up to the order of the hash containers and the edges of the graph.\<close>

definition same_index :: "('g \<Rightarrow> (nat \<times> f32_bits list) list) \<Rightarrow> 'g hnsw_index \<Rightarrow> 'g hnsw_index \<Rightarrow> bool" where
  "same_index pts a b \<longleftrightarrow>
     pts (hn_graph a) = pts (hn_graph b) \<and> hn_id_to_int a = hn_id_to_int b \<and> map_of (hn_int_to_id a) = map_of (hn_int_to_id b) \<and>
     length (hn_int_to_id a) = length (hn_int_to_id b) \<and> set (hn_deleted a) = set (hn_deleted b) \<and>
     length (hn_deleted a) = length (hn_deleted b) \<and> hn_next_id a = hn_next_id b \<and> hn_dim a = hn_dim b \<and>
     hn_ef_search a = hn_ef_search b \<and> hn_model_name a = hn_model_name b"

definition put_live :: "nat \<Rightarrow> string \<times> f32_bits list \<Rightarrow> (string \<rightharpoonup> f32_bits list) \<Rightarrow> string \<rightharpoonup> f32_bits list" where
  "put_live dm e m = map_exec dm (HInsert (fst e) (snd e)) m"

definition dims_ok :: "nat \<Rightarrow> cache_tables \<Rightarrow> bool" where
  "dims_ok dm d \<longleftrightarrow> (\<forall>r \<in> set (kt_vectors d). length (decode_f32_blob (vr_vector r)) = dm)"

text \<open>A directory holds the index when what is written there is what staging it writes.\<close>

definition holds_index :: "'g hnsw_lib \<Rightarrow> id_map_data blob_codec \<Rightarrow> 'g hnsw_index \<Rightarrow> index_files option \<Rightarrow> bool" where
  "holds_index L B ix d \<longleftrightarrow>
     (\<exists>x j. d = Some x \<and> xf_dump x = Some (hl_dump L (hn_graph ix)) \<and> xf_id_map x = Some j \<and> bc_from B j = Some (id_map_of ix))"

text \<open>The state after the insertion of a point, from one without its id.\<close>

definition add_point :: "'g hnsw_lib \<Rightarrow> string \<Rightarrow> f32_bits list \<Rightarrow> 'g hnsw_index \<Rightarrow> 'g hnsw_index" where
  "add_point L i v ix =
     ix\<lparr>hn_next_id := hn_next_id ix + 1, hn_id_to_int := AList.update i (hn_next_id ix) (hn_id_to_int ix),
        hn_int_to_id := AList.update (hn_next_id ix) i (hn_int_to_id ix), hn_graph := hl_insert L v (hn_next_id ix) (hn_graph ix)\<rparr>"

text \<open>The directory or, when it is missing, the backup holds one of two indexes.\<close>

definition held :: "index_files option \<Rightarrow> index_files option \<Rightarrow> index_fs \<Rightarrow> bool" where
  "held old new fs \<longleftrightarrow> xs_dir fs = old \<or> xs_dir fs = new \<or> (xs_dir fs = None \<and> xs_bak fs = old)"

text \<open>A library that scans all points, and serializers, to instantiate the statements with.\<close>

definition chars_of_blob :: "blob \<Rightarrow> string" where
  "chars_of_blob = map (\<lambda>b. char_of (unat b))"

definition blob_of_chars :: "string \<Rightarrow> blob" where
  "blob_of_chars = map (\<lambda>c. word_of_nat (of_char c))"

definition scan_lib :: "(nat \<times> f32_bits list) list hnsw_lib" where
  "scan_lib = \<lparr>hl_new = (\<lambda>a b c e. []), hl_insert = (\<lambda>v n g. g @ [(n, v)]),
     hl_search = (\<lambda>q k ef g. if distinct (map fst g) then take k (map (\<lambda>(n, v). (n, if v = q then 0 else 1)) g) else []),
     hl_dump = (\<lambda>g. enc_all (map (\<lambda>(n, v). enc_all [show_nat n, chars_of_blob (encode_f32_blob v)]) g)),
     hl_load = (\<lambda>s. Inr (map (\<lambda>e. let l = dec_all e in (digits_value (l ! 0), decode_f32_blob (blob_of_chars (l ! 1)))) (dec_all s)))\<rparr>"

definition enc_name :: "string option \<Rightarrow> string list" where
  "enc_name m = (case m of None \<Rightarrow> [] | Some n \<Rightarrow> [n])"

definition dec_name :: "string list \<Rightarrow> string option" where
  "dec_name xs = (case xs of [] \<Rightarrow> None | n # _ \<Rightarrow> Some n)"

definition id_map_codec :: "id_map_data blob_codec" where
  "id_map_codec =
     \<lparr>bc_to = (\<lambda>x. Some (enc_all [show_nat (im_dim x), show_nat (im_ef_search x),
        enc_all (map (\<lambda>(i, n). enc_all [i, show_nat n]) (im_id_to_int x)), enc_all (map show_nat (im_deleted x)),
        show_nat (im_next_id x), enc_all (enc_name (im_model_name x))])),
      bc_from = (\<lambda>s. case dec_all s of
          [dm, ef, ids, del, nx, nm] \<Rightarrow>
            Some \<lparr>im_dim = digits_value dm, im_ef_search = digits_value ef,
              im_id_to_int = map (\<lambda>e. let l = dec_all e in (l ! 0, digits_value (l ! 1))) (dec_all ids),
              im_deleted = map digits_value (dec_all del), im_next_id = digits_value nx, im_model_name = dec_name (dec_all nm)\<rparr>
        | _ \<Rightarrow> None)\<rparr>"

definition token_codec :: "cache_token blob_codec" where
  "token_codec =
     \<lparr>bc_to = (\<lambda>t. Some (enc_all [show_nat (ct_cache_version t), enc_all (enc_name (ct_model t)), show_nat (ct_dim t), show_nat (ct_count t), show_nat (ct_generation t)])),
      bc_from = (\<lambda>s. case dec_all s of
          [v, m, dm, c, g] \<Rightarrow>
            Some \<lparr>ct_cache_version = digits_value v, ct_model = dec_name (dec_all m), ct_dim = digits_value dm, ct_count = digits_value c, ct_generation = digits_value g\<rparr>
        | _ \<Rightarrow> None)\<rparr>"

definition no_io_faults :: "index_io" where
  "no_io_faults =
     \<lparr>io_create_parent = None, io_create_tmp = None, io_stage = None, io_aside = None, io_swap = None, io_back = None,
      io_rm_fails = (\<lambda>w. False), io_partial = \<lparr>xf_dump = None, xf_id_map = None, xf_token = None, xf_other = False\<rparr>, io_left = (\<lambda>w x. x),
      io_open = None, io_token = False\<rparr>"

definition no_files :: "index_fs" where
  "no_files = \<lparr>xs_dir = None, xs_bak = None, xs_tmp = None\<rparr>"

text \<open>The bits of 1 and of 2.\<close>

definition one_bits :: f32_bits where
  "one_bits = 0x3F800000"

definition two_bits :: f32_bits where
  "two_bits = 0x40000000"

definition example_index :: "(nat \<times> f32_bits list) list hnsw_index" where
  "example_index = fst (hnsw_insert scan_lib ''a'' [one_bits] (projr (hnsw_new scan_lib 1 10)))"

section \<open>The index refines a map\<close>

lemma with_config_ok:
  "ann_ok L pts \<Longrightarrow> with_config L cfg = Inr ix \<Longrightarrow> hnsw_ok pts ix \<and> live_vectors pts ix = Map.empty \<and> hn_dim ix = hc_dimension cfg"
  by (auto simp: with_config_def hnsw_ok_def ann_ok_def live_vectors_def fun_eq_iff split: if_splits)

lemma map_of_AList_delete: "map_of (AList.delete k xs) x = (if x = k then None else map_of xs x)"
  by (simp add: delete_conv')

lemma hnsw_okI:
  assumes "distinct (map fst (hn_id_to_int ix))" "distinct (map fst (hn_int_to_id ix))" "distinct (hn_deleted ix)"
    and "\<And>i n. map_of (hn_id_to_int ix) i = Some n \<Longrightarrow> map_of (hn_int_to_id ix) n = Some i"
    and "\<And>i n. map_of (hn_int_to_id ix) n = Some i \<Longrightarrow> map_of (hn_id_to_int ix) i = Some n"
    and "\<And>i n. map_of (hn_id_to_int ix) i = Some n \<Longrightarrow> n \<notin> set (hn_deleted ix)"
    and "\<And>i n. map_of (hn_id_to_int ix) i = Some n \<Longrightarrow> n \<in> fst ` set (pts (hn_graph ix))"
    and "distinct (map fst (pts (hn_graph ix)))" "\<And>n. n \<in> fst ` set (pts (hn_graph ix)) \<Longrightarrow> n < hn_next_id ix"
    and "\<And>n. n \<in> set (hn_deleted ix) \<Longrightarrow> n < hn_next_id ix"
  shows "hnsw_ok pts ix"
  unfolding hnsw_ok_def by (intro conjI allI ballI impI iffI) (rule assms; assumption)+

lemma hnsw_okD:
  assumes "hnsw_ok pts ix"
  shows "distinct (map fst (hn_id_to_int ix))" "distinct (map fst (hn_int_to_id ix))" "distinct (hn_deleted ix)"
    "\<And>i n. map_of (hn_id_to_int ix) i = Some n \<longleftrightarrow> map_of (hn_int_to_id ix) n = Some i"
    "\<And>i n. map_of (hn_id_to_int ix) i = Some n \<Longrightarrow> n \<notin> set (hn_deleted ix)"
    "\<And>i n. map_of (hn_id_to_int ix) i = Some n \<Longrightarrow> n \<in> fst ` set (pts (hn_graph ix))"
    "distinct (map fst (pts (hn_graph ix)))" "\<And>n. n \<in> fst ` set (pts (hn_graph ix)) \<Longrightarrow> n < hn_next_id ix"
    "\<And>n. n \<in> set (hn_deleted ix) \<Longrightarrow> n < hn_next_id ix"
  using assms unfolding hnsw_ok_def by blast+

lemma hnsw_ok_forget:
  assumes "hnsw_ok pts ix" and "map_of (hn_id_to_int ix) i = Some n"
  shows "hnsw_ok pts (ix\<lparr>hn_deleted := hs_insert n (hn_deleted ix), hn_int_to_id := AList.delete n (hn_int_to_id ix),
      hn_id_to_int := AList.delete i (hn_id_to_int ix)\<rparr>)"
proof -
  note ok = hnsw_okD [OF assms(1)]
  have inj: "n' = n \<longleftrightarrow> i' = i" if "map_of (hn_id_to_int ix) i' = Some n'" for i' n'
    using assms(2) that ok(4) by (metis option.inject)
  have "n < hn_next_id ix" using ok(6,8) assms(2) by blast
  then show ?thesis
    by (intro hnsw_okI) (auto simp del: map_of_eq_Some_iff Some_eq_map_of_iff simp: distinct_delete map_of_AList_delete ok(1-3,5,7-9) inj ok(4) [symmetric] dest: ok(5,6,8,9) split: if_splits)
qed

lemma hnsw_ok_add:
  assumes "hnsw_ok pts ix" and "ann_ok L pts" and "map_of (hn_id_to_int ix) i = None"
  shows "hnsw_ok pts (add_point L i v ix)"
proof -
  note ok = hnsw_okD [OF assms(1)]
  have pts: "pts (hl_insert L v n g) = pts g @ [(n, v)]" for n g using assms(2) by (simp add: ann_ok_def)
  have old: "map_of (hn_id_to_int ix) j \<noteq> Some (hn_next_id ix)" for j using ok(6,8) by blast
  then have fresh: "map_of (hn_int_to_id ix) (hn_next_id ix) \<noteq> Some j" for j using ok(4) by blast
  have i: "map_of (hn_int_to_id ix) n \<noteq> Some i" for n using ok(4) assms(3) by (metis option.distinct(1))
  have lt: "(a, b) \<in> set (pts (hn_graph ix)) \<Longrightarrow> a < Suc (hn_next_id ix)" for a b using ok(8) by (force intro: less_SucI)
  have nx: "(hn_next_id ix, b) \<notin> set (pts (hn_graph ix))" for b using ok(8) by force
  show ?thesis unfolding add_point_def
    by (intro hnsw_okI)
      (use old fresh in \<open>auto simp del: map_of_eq_Some_iff Some_eq_map_of_iff simp: assms(3) i lt nx distinct_update update_conv' pts ok(1-3,7) ok(4) [symmetric] less_SucI dest: ok(5,6,8,9) split: if_splits\<close>)
qed

lemma live_add:
  assumes "hnsw_ok pts ix" and "ann_ok L pts"
  shows "live_vectors pts (add_point L i v ix) = (live_vectors pts ix)(i \<mapsto> v)"
proof
  fix j
  have "hn_next_id ix \<notin> fst ` set (pts (hn_graph ix))" using assms(1) unfolding hnsw_ok_def by blast
  then have new: "map_of (pts (hn_graph ix)) (hn_next_id ix) = None" by (simp add: map_of_eq_None_iff)
  have "map_of (pts (hn_graph ix)) n \<noteq> None" if "map_of (hn_id_to_int ix) j = Some n" for n
    using assms(1) that unfolding hnsw_ok_def by (metis map_of_eq_None_iff)
  then show "live_vectors pts (add_point L i v ix) j = ((live_vectors pts ix)(i \<mapsto> v)) j"
    using assms(2) new by (cases "map_of (hn_id_to_int ix) j") (auto simp: live_vectors_def add_point_def ann_ok_def update_conv' map_add_def split: option.splits)
qed

lemma live_forget:
  "map_of (hn_id_to_int ix) i = Some n \<Longrightarrow>
   live_vectors pts (ix\<lparr>hn_deleted := ds, hn_int_to_id := xs, hn_id_to_int := AList.delete i (hn_id_to_int ix)\<rparr>) =
     (live_vectors pts ix)(i := None)"
  by (auto simp: live_vectors_def fun_eq_iff map_of_AList_delete)

lemma hnsw_ok_reorder:
  assumes "hnsw_ok pts ix" and "map_of xs = map_of (hn_id_to_int ix)" and "distinct (map fst xs)"
  shows "hnsw_ok pts (ix\<lparr>hn_id_to_int := xs\<rparr>)"
  using assms unfolding hnsw_ok_def by simp

text \<open>An insertion first forgets the id, then adds the point.\<close>

lemma hnsw_insert_points:
  assumes ok: "hnsw_ok pts ix" and L: "ann_ok L pts" and "length v = hn_dim ix" and "\<not> degenerate v"
  shows "hnsw_ok pts (fst (hnsw_insert L i v ix))" and "live_vectors pts (fst (hnsw_insert L i v ix)) = (live_vectors pts ix)(i \<mapsto> v)"
proof -
  have "hnsw_ok pts (fst (hnsw_insert L i v ix)) \<and> live_vectors pts (fst (hnsw_insert L i v ix)) = (live_vectors pts ix)(i \<mapsto> v)"
  proof (cases "map_of (hn_id_to_int ix) i")
    case None
    with assms(3,4) have "fst (hnsw_insert L i v ix) = add_point L i v ix" by (simp add: hnsw_insert_def add_point_def Let_def)
    then show ?thesis using hnsw_ok_add [OF ok L None] live_add [OF ok L] by simp
  next
    case (Some n)
    let ?f = "ix\<lparr>hn_deleted := hs_insert n (hn_deleted ix), hn_int_to_id := AList.delete n (hn_int_to_id ix),
      hn_id_to_int := AList.delete i (hn_id_to_int ix)\<rparr>"
    let ?xs = "AList.update i (hn_next_id ix) (hn_id_to_int ix)"
    have "fst (hnsw_insert L i v ix) = (add_point L i v ?f)\<lparr>hn_id_to_int := ?xs\<rparr>"
      using assms(3,4) Some by (simp add: hnsw_insert_def add_point_def Let_def)
    moreover have xs: "map_of ?xs = map_of (hn_id_to_int (add_point L i v ?f))"
      by (simp add: add_point_def update_conv' delete_conv' fun_eq_iff)
    have f: "hnsw_ok pts ?f" by (rule hnsw_ok_forget [OF ok Some])
    have "hnsw_ok pts (add_point L i v ?f)"
      by (rule hnsw_ok_add [OF f L]) (simp add: map_of_AList_delete)
    from hnsw_ok_reorder [OF this xs] have "hnsw_ok pts ((add_point L i v ?f)\<lparr>hn_id_to_int := ?xs\<rparr>)"
      using hnsw_okD(1) [OF ok] by (simp add: distinct_update)
    moreover have "live_vectors pts ((add_point L i v ?f)\<lparr>hn_id_to_int := ?xs\<rparr>) = live_vectors pts (add_point L i v ?f)"
      using xs by (simp add: live_vectors_def fun_eq_iff)
    ultimately show ?thesis using live_add [OF f L, of i v] live_forget [OF Some]
      by simp
  qed
  then show "hnsw_ok pts (fst (hnsw_insert L i v ix))" "live_vectors pts (fst (hnsw_insert L i v ix)) = (live_vectors pts ix)(i \<mapsto> v)"
    by blast+
qed

lemma hnsw_insert_dim [simp]: "hn_dim (fst (hnsw_insert L i v ix)) = hn_dim ix" "hn_model_name (fst (hnsw_insert L i v ix)) = hn_model_name ix"
  by (auto simp: hnsw_insert_def Let_def split: option.splits)

lemma hnsw_delete_dim [simp]: "hn_dim (fst (hnsw_delete i ix)) = hn_dim ix"
  by (auto simp: hnsw_delete_def split: option.splits)

lemma hnsw_insert_skips: "length v \<noteq> hn_dim ix \<or> degenerate v \<Longrightarrow> fst (hnsw_insert L i v ix) = ix"
  by (auto simp: hnsw_insert_def)

lemma hnsw_exec_refines:
  assumes "ann_ok L pts" and "hnsw_ok pts ix"
  shows "hnsw_ok pts (hnsw_exec L op ix) \<and> live_vectors pts (hnsw_exec L op ix) = map_exec (hn_dim ix) op (live_vectors pts ix) \<and>
    hn_dim (hnsw_exec L op ix) = hn_dim ix"
proof (cases op)
  case (HInsert i v)
  then show ?thesis using hnsw_insert_points [OF assms(2,1), of v i] assms(2)
    by (cases "length v = hn_dim ix \<and> \<not> degenerate v") (simp, auto simp: hnsw_insert_skips)
next
  case (HDelete i)
  show ?thesis
  proof (cases "map_of (hn_id_to_int ix) i")
    case None
    then show ?thesis using HDelete assms(2) by (auto simp: hnsw_delete_def live_vectors_def fun_eq_iff)
  next
    case (Some n)
    then show ?thesis using HDelete hnsw_ok_forget [OF assms(2) Some] live_forget [OF Some]
      by (simp add: hnsw_delete_def)
  qed
qed

lemma hnsw_run_refines:
  assumes "ann_ok L pts" and "hnsw_ok pts ix"
  shows "hnsw_ok pts (fold (hnsw_exec L) ops ix) \<and> hn_dim (fold (hnsw_exec L) ops ix) = hn_dim ix \<and>
    live_vectors pts (fold (hnsw_exec L) ops ix) = fold (map_exec (hn_dim ix)) ops (live_vectors pts ix)"
  using assms(2)
proof (induction ops arbitrary: ix)
  case (Cons op ops)
  from hnsw_exec_refines [OF assms(1) Cons.prems, of op] Cons.IH [of "hnsw_exec L op ix"] show ?case by simp
qed simp

section \<open>Search\<close>

lemma distinct_map_take: "distinct (map f xs) \<Longrightarrow> distinct (map f (take k xs))"
  by (metis distinct_take take_map)

lemma map_filter_hits:
  assumes "distinct (map fst ns)" and "\<And>n m i. g n = Some i \<Longrightarrow> g m = Some i \<Longrightarrow> n = m"
  shows "distinct (map rr_id (List.map_filter (\<lambda>(n, dist). map_option (\<lambda>i. \<lparr>rr_id = i, rr_distance = dist\<rparr>) (g n)) ns))"
  using assms
proof (induction ns)
  case (Cons nd ns)
  obtain n dist where nd: "nd = (n, dist)" by (cases nd)
  have "g n = Some i \<Longrightarrow> i \<notin> rr_id ` set (List.map_filter (\<lambda>(n, dist). map_option (\<lambda>i. \<lparr>rr_id = i, rr_distance = dist\<rparr>) (g n)) ns)" for i
    using Cons.prems by (force simp: nd map_filter_def)
  then show ?case using Cons by (cases "g n") (auto simp: nd List.map_filter_simps)
qed (simp add: List.map_filter_simps)

text \<open>
  C31. A search of the index returns only live vectors, each at most once, no more than asked for and by
  increasing distance, whatever was inserted, replaced and deleted before; and it refuses a query of another dimension.
\<close>

theorem hnsw_search_live:
  assumes "ann_ok L pts" and "hnsw_new L dm n = Inr ix0" and "ix = fold (hnsw_exec L) ops ix0" and "length q = dm"
  shows "\<exists>rs. hnsw_search_knn L q k ix = Inr rs \<and> rr_id ` set rs \<subseteq> dom (fold (map_exec dm) ops Map.empty) \<and>
    distinct (map rr_id rs) \<and> length rs \<le> k \<and> sorted (map rr_distance rs)"
proof -
  have new: "hnsw_ok pts ix0" "live_vectors pts ix0 = Map.empty" "hn_dim ix0 = dm"
    using with_config_ok [OF assms(1)] assms(2) by (auto simp: hnsw_new_def config_new_def)
  have ix: "hnsw_ok pts ix" "hn_dim ix = dm" "live_vectors pts ix = fold (map_exec dm) ops Map.empty"
    using hnsw_run_refines [OF assms(1) new(1), of ops] new assms(3) by simp_all
  note ok = hnsw_okD [OF ix(1)]
  let ?ns = "filter (\<lambda>n. fst n \<notin> set (hn_deleted ix)) (hl_search L q (k + length (hn_deleted ix)) (hn_ef_search ix) (hn_graph ix))"
  let ?hits = "List.map_filter (\<lambda>(n, dist). map_option (\<lambda>i. \<lparr>rr_id = i, rr_distance = dist\<rparr>) (map_of (hn_int_to_id ix) n)) ?ns"
  have live: "i \<in> dom (live_vectors pts ix)" if "map_of (hn_int_to_id ix) n = Some i" for i n
    using that ok(4,6) [of i n] by (auto simp: live_vectors_def dest: weak_map_of_SomeI)
  have sub: "rr_id ` set ?hits \<subseteq> dom (live_vectors pts ix)"
    using live by (fastforce simp: map_filter_def)
  have "distinct (map rr_id ?hits)"
  proof (rule map_filter_hits)
    show "distinct (map fst ?ns)" using assms(1) by (simp add: ann_ok_def distinct_map_filter)
    show "n = m" if "map_of (hn_int_to_id ix) n = Some i" "map_of (hn_int_to_id ix) m = Some i" for n m i
    proof -
      from that have "map_of (hn_id_to_int ix) i = Some n" "map_of (hn_id_to_int ix) i = Some m" by (simp_all only: ok(4))
      then show ?thesis by (simp only: option.inject)
    qed
  qed
  then have "distinct (map rr_id (take k ?hits))" by (rule distinct_map_take)
  then have "distinct (map rr_id (sort_key rr_distance (take k ?hits)))" by (simp add: distinct_map)
  moreover have "set (take k ?hits) \<subseteq> set ?hits" by (rule set_take_subset)
  with sub have "rr_id ` set (sort_key rr_distance (take k ?hits)) \<subseteq> dom (live_vectors pts ix)" by (simp only: set_sort) blast
  moreover have "length (sort_key rr_distance (take k ?hits)) \<le> k" "sorted (map rr_distance (sort_key rr_distance (take k ?hits)))" by simp_all
  moreover have "hnsw_search_knn L q k ix = Inr (if hn_int_to_id ix = [] then [] else sort_key rr_distance (take k ?hits))"
    using ix(2) assms(4) by (simp add: hnsw_search_knn_def Let_def)
  ultimately show ?thesis unfolding ix(3) by (cases "hn_int_to_id ix = []") simp_all
qed

section \<open>Persistence\<close>

lemma rm_ne [simp]: "rm_tmp w io fs \<noteq> []" "rm_bak w io fs \<noteq> []"
  by (simp_all add: rm_tmp_def rm_bak_def)

lemma rm_tmp_states: "x \<in> set (rm_tmp w io fs) \<Longrightarrow> xs_dir x = xs_dir fs \<and> xs_bak x = xs_bak fs"
  by (auto simp: rm_tmp_def split: if_splits)

lemma rm_bak_states: "x \<in> set (rm_bak w io fs) \<Longrightarrow> xs_dir x = xs_dir fs \<and> xs_tmp x = xs_tmp fs"
  by (auto simp: rm_bak_def split: if_splits)

lemmas rm_states = rm_tmp_states [THEN conjunct1] rm_tmp_states [THEN conjunct2] rm_bak_states [THEN conjunct1]

lemma rm_last [simp]:
  "xs_dir (last (rm_tmp w io fs)) = xs_dir fs" "xs_bak (last (rm_tmp w io fs)) = xs_bak fs"
  "xs_dir (last (rm_bak w io fs)) = xs_dir fs" "xs_tmp (last (rm_bak w io fs)) = xs_tmp fs"
  using rm_tmp_states [of "last (rm_tmp w io fs)" w io fs] rm_bak_states [of "last (rm_bak w io fs)" w io fs] by simp_all

lemma held_simps [simp]:
  "x \<in> set (rm_tmp w io fs) \<Longrightarrow> held old new x \<longleftrightarrow> held old new fs"
  "x \<in> set (rm_bak w io fs) \<Longrightarrow> xs_dir fs = old \<or> xs_dir fs = new \<Longrightarrow> held old new x"
  "held old new (last (rm_tmp w io fs)) \<longleftrightarrow> held old new fs"
  by (auto simp: held_def dest: rm_tmp_states rm_bak_states)

lemma persist_states:
  assumes "xs_dir fs \<noteq> None" and "persist L B io path ix fs = (states, r)"
  shows "(\<forall>x \<in> set states. held (xs_dir fs) (case stage_index L B io ix of Inl _ \<Rightarrow> xs_dir fs | Inr f \<Rightarrow> Some f) x) \<and>
    (isl r \<longrightarrow> held (xs_dir fs) (xs_dir fs) (last states)) \<and>
    (\<not> isl r \<longrightarrow> (\<exists>f. stage_index L B io ix = Inr f \<and> xs_dir (last states) = Some f))"
proof (cases "io_create_parent io = None \<and> io_create_tmp io = None \<and> \<not> isl (stage_index L B io ix)")
  case False
  with assms show ?thesis
    by (auto simp: persist_def Let_def held_def rm_states split: option.splits sum.splits)
next
  case True
  then obtain f where f: "io_create_parent io = None" "io_create_tmp io = None" "stage_index L B io ix = Inr f"
    by (cases "stage_index L B io ix") auto
  define fs2 where "fs2 = (last (rm_tmp TmpFirst io fs))\<lparr>xs_tmp := Some f\<rparr>"
  define fs3 where "fs3 = last (rm_bak BakFirst io fs2)"
  have fs2: "xs_dir fs2 = xs_dir fs" "xs_tmp fs2 = Some f" by (simp_all add: fs2_def)
  have fs3: "xs_dir fs3 = xs_dir fs" "xs_tmp fs3 = Some f" by (simp_all add: fs3_def fs2)
  note unf = assms(2) [unfolded persist_def Let_def, simplified f option.case sum.case, folded fs2_def, simplified last.simps rm_ne if_False, folded fs3_def]
  show ?thesis
    using unf assms(1) by (auto simp: f fs2 fs3 held_def rm_states split: if_splits option.splits)
qed

lemma length_distinct_keys: "distinct (map fst xs) \<Longrightarrow> length xs = card (dom (map_of xs))"
  by (metis distinct_card dom_map_of_conv_image_fst length_map set_map)

lemma fold_reverse_map:
  "distinct (map fst ys) \<Longrightarrow>
     distinct (map fst (fold (\<lambda>(k, v). AList.update v k) xs ys)) \<and>
     (inj_on snd (set xs) \<longrightarrow> distinct xs \<longrightarrow>
        (\<forall>n. map_of (fold (\<lambda>(k, v). AList.update v k) xs ys) n =
           (case find (\<lambda>e. snd e = n) xs of None \<Rightarrow> map_of ys n | Some e \<Rightarrow> Some (fst e))))"
proof (induction xs arbitrary: ys)
  case (Cons e xs)
  obtain k v where e: "e = (k, v)" by (cases e)
  have ih: "distinct (map fst (fold (\<lambda>(k, v). AList.update v k) xs (AList.update v k ys))) \<and>
     (inj_on snd (set xs) \<longrightarrow> distinct xs \<longrightarrow>
        (\<forall>n. map_of (fold (\<lambda>(k, v). AList.update v k) xs (AList.update v k ys)) n =
           (case find (\<lambda>e. snd e = n) xs of None \<Rightarrow> map_of (AList.update v k ys) n | Some e \<Rightarrow> Some (fst e))))"
    by (rule Cons.IH) (simp add: distinct_update Cons.prems)
  have "find (\<lambda>e. snd e = v) xs = None" if "inj_on snd (set (e # xs))" "distinct (e # xs)"
    using that by (fastforce simp: find_None_iff e inj_on_def)
  then show ?case using ih by (auto simp: e update_conv' inj_on_def split: option.splits)
qed simp

lemma reverse_map_exact:
  assumes "hnsw_ok pts ix"
  shows "map_of (fold (\<lambda>(k, v). AList.update v k) (hn_id_to_int ix) []) = map_of (hn_int_to_id ix)"
    and "length (fold (\<lambda>(k, v). AList.update v k) (hn_id_to_int ix) []) = length (hn_int_to_id ix)"
proof -
  note ok = hnsw_okD [OF assms]
  let ?r = "fold (\<lambda>(k, v). AList.update v k) (hn_id_to_int ix) []"
  have mem: "(i, n) \<in> set (hn_id_to_int ix) \<longleftrightarrow> map_of (hn_int_to_id ix) n = Some i" for i n
    using ok(1) ok(4) [of i n] by simp
  have inj: "inj_on snd (set (hn_id_to_int ix))" by (rule inj_onI) (auto simp: mem)
  have dist: "distinct (hn_id_to_int ix)" using ok(1) by (simp add: distinct_map)
  have r: "distinct (map fst ?r)" "map_of ?r n = map_option fst (find (\<lambda>e. snd e = n) (hn_id_to_int ix))" for n
    using fold_reverse_map [of "[]" "hn_id_to_int ix"] inj dist by (auto simp: option.case_eq_if split: option.splits)
  show eq: "map_of ?r = map_of (hn_int_to_id ix)"
  proof
    fix n
    show "map_of ?r n = map_of (hn_int_to_id ix) n"
    proof (cases "find (\<lambda>e. snd e = n) (hn_id_to_int ix)")
      case None
      then have "map_of (hn_int_to_id ix) n \<noteq> Some i" for i by (auto simp: find_None_iff mem [symmetric])
      then show ?thesis using None by (simp add: r(2)) (metis not_None_eq)
    next
      case (Some e)
      then have "e \<in> set (hn_id_to_int ix)" "snd e = n" by (auto simp: find_Some_iff)
      then have "map_of (hn_int_to_id ix) n = Some (fst e)" by (metis mem prod.collapse)
      then show ?thesis using Some by (simp add: r(2))
    qed
  qed
  show "length ?r = length (hn_int_to_id ix)" using length_distinct_keys [OF r(1)] length_distinct_keys [OF ok(2)] eq by simp
qed

lemma fold_hs_insert_length: "distinct xs \<Longrightarrow> set xs \<inter> set ys = {} \<Longrightarrow> length (fold hs_insert xs ys) = length xs + length ys"
  by (induction xs arbitrary: ys) (auto simp: hs_insert_def)

lemma load_held:
  assumes "dump_ok L pts" and "hnsw_ok pts ix" and "io_open io = None"
    and "holds_index L B ix (xs_dir fs) \<or> (xs_dir fs = None \<and> holds_index L B ix (xs_bak fs))"
  shows "\<exists>ix'. load L B io path fs = Inr ix' \<and> same_index pts ix' ix"
proof -
  obtain g where g: "hl_load L (hl_dump L (hn_graph ix)) = Inr g" "pts g = pts (hn_graph ix)"
    using assms(1) unfolding dump_ok_def by blast
  let ?ix = "\<lparr>hn_graph = g, hn_id_to_int = hn_id_to_int ix,
     hn_int_to_id = fold (\<lambda>(k, v). AList.update v k) (hn_id_to_int ix) [], hn_deleted = fold hs_insert (hn_deleted ix) [],
     hn_next_id = hn_next_id ix, hn_dim = hn_dim ix, hn_ef_search = hn_ef_search ix, hn_model_name = hn_model_name ix\<rparr>"
  have "load L B io path fs = Inr ?ix"
    using assms(3,4) by (auto simp: load_def holds_index_def has_id_map_def id_map_of_def g(1))
  moreover have "same_index pts ?ix ix"
    using reverse_map_exact [OF assms(2)] hnsw_okD(3) [OF assms(2)] by (simp add: same_index_def fold_hs_insert_length g(2))
  ultimately show ?thesis by blast
qed

lemma stage_holds: "blob_codec_ok B \<Longrightarrow> stage_index L B io ix = Inr f \<Longrightarrow> holds_index L B ix (Some f)"
  by (auto simp: stage_index_def holds_index_def blob_codec_ok_def split: option.splits) (metis option.inject)

text \<open>
  C10. Persisting an index is crash-safe from a directory that holds a complete index: when the serializer of the id map
  round-trips, a dumped graph loads with the same points and the files can be read at the time of loading, then in every
  state a persist goes through, whichever of its file operations fail, and wherever it is cut off, loading yields the old
  index or the new one; after a persist that reports success it yields the new one, after an error the old one. Indexes are
  compared up to the order of their hash containers and the edges of the graph.
\<close>

theorem persist_crash_safe:
  assumes "hnsw_ok pts old" and "hnsw_ok pts new" and "blob_codec_ok B" and "dump_ok L pts" and "holds_index L B old (xs_dir fs)"
    and "persist L B io path new fs = (states, r)" and "io_open io' = None"
  shows "(\<forall>x \<in> set states. \<exists>ix. load L B io' path x = Inr ix \<and> (same_index pts ix old \<or> same_index pts ix new)) \<and>
    (\<exists>ix. load L B io' path (last states) = Inr ix \<and> same_index pts ix (if isl r then old else new))"
proof -
  have "xs_dir fs \<noteq> None" using assms(5) by (auto simp: holds_index_def)
  note st = persist_states [OF this assms(6)]
  have held: "\<exists>ix. load L B io' path x = Inr ix \<and> (same_index pts ix old \<or> same_index pts ix new)"
    if "held (xs_dir fs) n x" "n = xs_dir fs \<or> holds_index L B new n" for x n
  proof (cases "holds_index L B new (xs_dir x)")
    case True
    with load_held [OF assms(4,2,7)] show ?thesis by blast
  next
    case False
    with that have "holds_index L B old (xs_dir x) \<or> (xs_dir x = None \<and> holds_index L B old (xs_bak x))"
      using assms(5) by (auto simp: held_def)
    with load_held [OF assms(4,1,7)] show ?thesis by blast
  qed
  have new: "(case stage_index L B io new of Inl _ \<Rightarrow> xs_dir fs | Inr f \<Rightarrow> Some f) = xs_dir fs \<or>
      holds_index L B new (case stage_index L B io new of Inl _ \<Rightarrow> xs_dir fs | Inr f \<Rightarrow> Some f)"
    using stage_holds [OF assms(3)] by (auto split: sum.splits)
  have "\<forall>x \<in> set states. \<exists>ix. load L B io' path x = Inr ix \<and> (same_index pts ix old \<or> same_index pts ix new)"
    using st held new by blast
  moreover have "\<exists>ix. load L B io' path (last states) = Inr ix \<and> same_index pts ix (if isl r then old else new)"
  proof (cases "isl r")
    case True
    then have "holds_index L B old (xs_dir (last states)) \<or> (xs_dir (last states) = None \<and> holds_index L B old (xs_bak (last states)))"
      using st assms(5) by (auto simp: held_def)
    from load_held [OF assms(4,1,7) this] True show ?thesis by simp
  next
    case False
    then have "holds_index L B new (xs_dir (last states))" using st stage_holds [OF assms(3)] by force
    from load_held [OF assms(4,2,7), of B "last states"] this False show ?thesis by simp
  qed
  ultimately show ?thesis by blast
qed

section \<open>The cache of the index\<close>

lemma insert_all_live:
  assumes "ann_ok L pts"
  shows "hnsw_ok pts ix \<Longrightarrow> list_all (\<lambda>e. length (snd e) = hn_dim ix) vs \<Longrightarrow>
    \<exists>ix'. insert_all L vs ix = Inr ix' \<and> hnsw_ok pts ix' \<and> hn_dim ix' = hn_dim ix \<and>
      live_vectors pts ix' = fold (put_live (hn_dim ix)) vs (live_vectors pts ix)"
proof (induction vs arbitrary: ix)
  case (Cons e vs)
  obtain i v where e: "e = (i, v)" by (cases e)
  let ?ix = "fst (hnsw_insert L i v ix)"
  have ins: "hnsw_insert L i v ix = (?ix, Inr ())" using Cons.prems(2) by (simp add: e hnsw_insert_def Let_def)
  have step: "hnsw_ok pts ?ix" "live_vectors pts ?ix = put_live (hn_dim ix) e (live_vectors pts ix)"
    using hnsw_exec_refines [OF assms Cons.prems(1), of "HInsert i v"] by (auto simp: e put_live_def)
  have "insert_all L (e # vs) ix = insert_all L vs ?ix" unfolding e insert_all.simps by (subst ins) simp
  then show ?case using Cons.IH [OF step(1)] Cons.prems(2) step(2) by simp
qed simp

lemma fold_put_live:
  "distinct (map fst vs) \<Longrightarrow> list_all (\<lambda>e. length (snd e) = dm) vs \<Longrightarrow>
   fold (put_live dm) vs m i = (case map_of vs i of None \<Rightarrow> m i | Some v \<Rightarrow> if degenerate v then m i else Some v)"
proof (induction vs arbitrary: m)
  case (Cons e vs)
  obtain j v where e: "e = (j, v)" by (cases e)
  have none: "map_of vs j = None" using Cons.prems(1) by (simp add: e map_of_eq_None_iff)
  have "fold (put_live dm) (e # vs) m i = (case map_of vs i of None \<Rightarrow> put_live dm e m i | Some v \<Rightarrow> if degenerate v then put_live dm e m i else Some v)"
    using Cons.IH [of "put_live dm e m"] Cons.prems by simp
  moreover have "put_live dm e m i = (if i = j \<and> \<not> degenerate v then Some v else m i)"
    using Cons.prems(2) by (simp add: e put_live_def)
  ultimately show ?case using none by (auto simp: e split: option.splits)
qed simp

lemma rebuild_live:
  assumes "ann_ok L pts" and "cache_ok d" and "0 < dm" and "dims_ok dm d"
  shows "\<exists>ix. rebuild_hnsw_from_store L no_faults dm model d = Inr ix \<and> hnsw_ok pts ix \<and> hn_dim ix = dm \<and> live_vectors pts ix = store_vectors d"
proof -
  let ?vs = "map (\<lambda>r. (vr_vector_id r, decode_f32_blob (vr_vector r))) (sort_key vr_vector_id (kt_vectors d))"
  obtain ix0 where new: "with_config L (config_new dm (max (length ?vs) 1)) = Inr ix0"
    using assms(3) by (auto simp: with_config_def config_new_def)
  let ?ix = "case model of None \<Rightarrow> ix0 | Some n \<Rightarrow> set_model_name n ix0"
  have ix: "hnsw_ok pts ?ix" "live_vectors pts ?ix = Map.empty" "hn_dim ?ix = dm"
    using with_config_ok [OF assms(1) new]
    by (auto simp: config_new_def set_model_name_def hnsw_ok_def live_vectors_def fun_eq_iff split: option.splits)
  have dims: "list_all (\<lambda>e. length (snd e) = dm) ?vs" using assms(4) by (simp add: dims_ok_def list_all_iff)
  have u: "unique_by vr_vector_id (kt_vectors d)" using assms(2) by (simp add: cache_ok_def)
  then have "distinct (map fst ?vs)" by (simp add: unique_by_def comp_def distinct_map)
  note ins = fold_put_live [OF this dims]
  obtain ix' where ix': "insert_all L ?vs ?ix = Inr ix'" "hnsw_ok pts ix'" "hn_dim ix' = dm"
    "live_vectors pts ix' = fold (put_live dm) ?vs Map.empty"
    using insert_all_live [OF assms(1) ix(1), of ?vs] dims unfolding ix by blast
  have "live_vectors pts ix' i = store_vectors d i" for i
    using vector_map_sorted [OF u] unfolding ix'(4) ins [of Map.empty i] store_vectors_def vector_map_def
    by (simp split: option.splits)
  then show ?thesis using ix' new by (auto simp: rebuild_hnsw_from_store_def)
qed

lemma same_index_live: "same_index pts a b \<Longrightarrow> live_vectors pts a = live_vectors pts b"
  by (simp add: same_index_def live_vectors_def fun_eq_iff)

lemma write_token_dir:
  assumes "blob_codec_ok T" and "xs_dir fs = Some x"
  shows "\<exists>t. xs_dir (write_cache_token T io tok fs) = Some (x\<lparr>xf_token := t\<rparr>) \<and>
    read_cache_token T (write_cache_token T io tok fs) = (if io_token io then None else Some tok)"
proof -
  obtain j where "bc_to T tok = Some j" "bc_from T j = Some tok" using assms(1) unfolding blob_codec_ok_def by blast
  then show ?thesis using assms(2) by (auto simp: read_cache_token_def write_cache_token_def)
qed

lemma holds_index_token: "holds_index L B ix (Some (x\<lparr>xf_token := t\<rparr>)) \<longleftrightarrow> holds_index L B ix (Some x)"
  by (simp add: holds_index_def)

lemma persist_success:
  assumes "persist L B io path ix fs = (states, Inr u)"
  shows "\<exists>f. stage_index L B io ix = Inr f \<and> xs_dir (last states) = Some f"
  using assms by (auto simp: persist_def Let_def split: option.splits sum.splits if_splits)

lemma load_Inr_open: "load L B io path fs = Inr ix \<Longrightarrow> io_open io = None"
  by (auto simp: load_def split: option.splits if_splits)

lemma empty_index_live: "hnsw_ok pts ix \<Longrightarrow> hnsw_len ix = 0 \<Longrightarrow> live_vectors pts ix = Map.empty"
proof
  fix i assume ok: "hnsw_ok pts ix" and len: "hnsw_len ix = 0"
  have "map_of (hn_id_to_int ix) i \<noteq> Some n" for n using len by (simp only: hnsw_okD(4) [OF ok]) (simp add: hnsw_len_def)
  then have "map_of (hn_id_to_int ix) i = None" by (metis not_None_eq)
  then show "live_vectors pts ix i = None" by (simp add: live_vectors_def)
qed

text \<open>What a persisted cache leaves, and what it takes for it to be used.\<close>

lemma persisted_cache:
  assumes "blob_codec_ok B" and "blob_codec_ok T" and "persist_hnsw_cache L B T no_faults io path ix model d fs = (fs', Inr ())"
  shows "holds_index L B ix (xs_dir fs')"
    and "read_cache_token T fs' \<in> {None, Some (token_new (hn_dim ix) model \<lparr>fp_count = length (kt_vectors d), fp_generation = kt_generation d\<rparr>)}"
proof -
  obtain states u where run: "persist L B io path ix fs = (states, Inr u)"
    and fs': "fs' = write_cache_token T io (token_new (hn_dim ix) model \<lparr>fp_count = length (kt_vectors d), fp_generation = kt_generation d\<rparr>) (last states)"
    using assms(3) by (auto simp: persist_hnsw_cache_def split: prod.splits sum.splits)
  obtain f where f: "stage_index L B io ix = Inr f" "xs_dir (last states) = Some f" using persist_success [OF run] by blast
  note stage_holds [OF assms(1) f(1)]
  with write_token_dir [OF assms(2) f(2)] show "holds_index L B ix (xs_dir fs')"
    "read_cache_token T fs' \<in> {None, Some (token_new (hn_dim ix) model \<lparr>fp_count = length (kt_vectors d), fp_generation = kt_generation d\<rparr>)}"
    unfolding fs' by (metis holds_index_token, metis insertCI)
qed

lemma load_cached_Some:
  assumes "load_cached L B T io path dm model (Some fp) fs = Some ix"
  shows "read_cache_token T fs = Some (token_new dm model fp)" and "load L B io path fs = Inr ix"
  using assms by (auto simp: load_cached_def split: if_splits sum.splits)

text \<open>
  C9. A cached index is never out of date. Suppose the graph library meets its contract, a dumped graph loads with the same
  points and the serializers round-trip; the index held exactly the non-degenerate vectors of the store when it was persisted,
  without statement faults, and that persist reported success; every call of the store since then succeeded, and all
  stored vectors have the dimension of the index. Then loading the cache or rebuilding the index, while the store answers,
  yields the non-degenerate vectors of the store at that time, or no index when there are none, whichever file operations
  of the loading fail.
\<close>

theorem cached_index_current:
  assumes "ann_ok L pts" and "dump_ok L pts" and "blob_codec_ok B" and "blob_codec_ok T" and "cache_ok d0"
    and "hnsw_ok pts ix" and "hn_dim ix = dm" and "live_vectors pts ix = store_vectors d0"
    and "persist_hnsw_cache L B T no_faults io path ix model d0 fs = (fs', Inr ())"
    and "run_succeeds K ops d0" and "d = cache_run K ops d0" and "0 < dm" and "dims_ok dm d"
  shows "\<exists>fs'' r. load_cached_or_rebuild_hnsw L B T no_faults io' path dm model d fs' = (fs'', Inr r) \<and>
    (case r of None \<Rightarrow> store_vectors d = Map.empty | Some ix' \<Rightarrow> live_vectors pts ix' = store_vectors d)"
proof -
  have d: "cache_ok d" using cache_ok_run [OF assms(5)] assms(11) by simp
  obtain rebuilt where re: "rebuild_hnsw_from_store L no_faults dm model d = Inr rebuilt" "hnsw_ok pts rebuilt"
    "live_vectors pts rebuilt = store_vectors d" using rebuild_live [OF assms(1) d assms(12,13)] by blast
  let ?fp = "\<lparr>fp_count = length (kt_vectors d), fp_generation = kt_generation d\<rparr>"
  show ?thesis
  proof (cases "load_cached L B T io' path dm model (Some ?fp) fs'")
    case None
    have "store_vectors d = Map.empty" if "hnsw_len rebuilt = 0" using empty_index_live [OF re(2) that] re(3) by simp
    with None re show ?thesis
      by (cases "hnsw_len rebuilt = 0") (simp_all add: load_cached_or_rebuild_hnsw_def split: prod.splits)
  next
    case (Some ix')
    note hit = load_cached_Some [OF Some]
    have "kt_generation d = kt_generation d0"
      using persisted_cache(2) [OF assms(3,4,9)] hit(1) by (auto simp: token_new_def)
    then have "kt_vectors d = kt_vectors d0" using generation_run [OF assms(10)] by (simp add: assms(11) generation_step_def)
    then have "store_vectors d = store_vectors d0" by (simp add: store_vectors_def fun_eq_iff)
    moreover obtain ix2 where "load L B io' path fs' = Inr ix2" "same_index pts ix2 ix"
      using load_held [OF assms(2,6) load_Inr_open [OF hit(2)]] persisted_cache(1) [OF assms(3,4,9)] by blast
    ultimately have "live_vectors pts ix' = store_vectors d" using hit(2) same_index_live [of pts ix2 ix] assms(8) by simp
    then show ?thesis using Some by (simp add: load_cached_or_rebuild_hnsw_def)
  qed
qed

section \<open>The health check counts\<close>

lemma analyze_fold:
  "\<exists>p r. fold (analyze_step sq) vs (t, g, l, p0, r0) =
     (t + length vs, g + length (filter degenerate vs), l + length (filter (\<lambda>v. \<not> degenerate v) vs), p, r)"
proof (induction vs arbitrary: t g l p0 r0)
  case (Cons v vs)
  have "\<exists>p1 r1. analyze_step sq v (t, g, l, p0, r0) =
      (t + 1, (if degenerate v then g + 1 else g), (if degenerate v then l else l + 1), p1, r1)"
    by (cases "degenerate v"; cases p0; cases r0) (simp_all add: analyze_step_def Let_def, blast+)
  then obtain p1 r1 where "analyze_step sq v (t, g, l, p0, r0) =
      (t + 1, (if degenerate v then g + 1 else g), (if degenerate v then l else l + 1), p1, r1)" by blast
  then show ?case
    using Cons.IH [of "Suc t" "Suc g" l p1 r1] Cons.IH [of "Suc t" g "Suc l" p1 r1] by (cases "degenerate v") simp_all
qed simp

lemma health_exact:
  "vh_total (analyze_vectors sq vs) = length vs" "vh_degenerate (analyze_vectors sq vs) = length (filter degenerate vs)"
  "vs \<noteq> [] \<Longrightarrow> list_all degenerate vs \<Longrightarrow> is_degenerate (analyze_vectors sq vs)"
  using analyze_fold [of sq vs 0 0 0 True None] by (auto simp: analyze_vectors_def is_degenerate_def list_all_iff filter_id_conv)

section \<open>Instances\<close>

lemma scan_lib_ok: "ann_ok scan_lib (\<lambda>g. g)"
  by (auto simp: ann_ok_def scan_lib_def comp_def case_prod_beta' take_map dest!: in_set_takeD intro: distinct_map_take rev_image_eqI)

lemma blob_of_chars_of_blob: "blob_of_chars (chars_of_blob b) = b"
proof -
  have "word_of_nat (of_char (char_of (unat w) :: char)) = w" for w :: "8 word"
    using unsigned_less [of w, where ?'a = nat] by simp
  then show ?thesis by (simp add: blob_of_chars_def chars_of_blob_def comp_def)
qed

lemma scan_dump_ok: "dump_ok scan_lib (\<lambda>g. g)"
  by (simp add: dump_ok_def scan_lib_def comp_def case_prod_beta Let_def decode_encode_blob digits_value_show blob_of_chars_of_blob)

lemma index_codecs_ok: "blob_codec_ok id_map_codec" "blob_codec_ok token_codec"
  by (auto simp: blob_codec_ok_def id_map_codec_def token_codec_def digits_value_show enc_name_def dec_name_def comp_def case_prod_beta Let_def
      split: option.splits)

lemma not_degenerate_examples: "\<not> degenerate [one_bits]" "\<not> degenerate [two_bits]" "degenerate [0]"
  by code_simp+

lemma example_index_exec: "\<exists>ix. hnsw_new scan_lib 1 10 = Inr ix \<and> example_index = fold (hnsw_exec scan_lib) [HInsert ''a'' [one_bits]] ix"
  by (simp add: example_index_def hnsw_new_def with_config_def config_new_def)

lemma example_index_ok:
  "hnsw_ok (\<lambda>g. g) example_index" "hn_dim example_index = 1" "live_vectors (\<lambda>g. g) example_index = [''a'' \<mapsto> [one_bits]]"
proof -
  obtain ix where ix: "hnsw_new scan_lib 1 10 = Inr ix" "example_index = fold (hnsw_exec scan_lib) [HInsert ''a'' [one_bits]] ix"
    using example_index_exec by blast
  from with_config_ok [OF scan_lib_ok, of "config_new 1 10" ix] ix(1)
  have "hnsw_ok (\<lambda>g. g) ix" "live_vectors (\<lambda>g. g) ix = Map.empty" "hn_dim ix = 1" by (simp_all add: hnsw_new_def config_new_def)
  with hnsw_run_refines [OF scan_lib_ok this(1), of "[HInsert ''a'' [one_bits]]"] show
    "hnsw_ok (\<lambda>g. g) example_index" "hn_dim example_index = 1" "live_vectors (\<lambda>g. g) example_index = [''a'' \<mapsto> [one_bits]]"
    unfolding ix(2) by (simp_all add: not_degenerate_examples)
qed

lemma hnsw_search_live_witness:
  "\<exists>rs. hnsw_search_knn scan_lib [one_bits] 3 example_index = Inr rs \<and> rr_id ` set rs \<subseteq> {''a''} \<and> length rs \<le> 3"
proof -
  obtain ix where ix: "hnsw_new scan_lib 1 10 = Inr ix" "example_index = fold (hnsw_exec scan_lib) [HInsert ''a'' [one_bits]] ix"
    using example_index_exec by blast
  from hnsw_search_live [OF scan_lib_ok ix, of "[one_bits]" 3] show ?thesis by (auto simp: not_degenerate_examples)
qed

lemma persist_crash_safe_witness:
  "let fs = no_files\<lparr>xs_dir := Some (projr (stage_index scan_lib id_map_codec no_io_faults example_index))\<rparr>;
       new = fst (hnsw_delete ''a'' example_index)
   in \<forall>x \<in> set (fst (persist scan_lib id_map_codec (no_io_faults\<lparr>io_swap := Some ''EACCES''\<rparr>) ''index'' new fs)).
        \<exists>ix. load scan_lib id_map_codec no_io_faults ''index'' x = Inr ix \<and> (same_index (\<lambda>g. g) ix example_index \<or> same_index (\<lambda>g. g) ix new)"
proof -
  define fs where "fs = no_files\<lparr>xs_dir := Some (projr (stage_index scan_lib id_map_codec no_io_faults example_index))\<rparr>"
  have new: "hnsw_ok (\<lambda>g. g) (fst (hnsw_delete ''a'' example_index))"
    using hnsw_exec_refines [OF scan_lib_ok example_index_ok(1), of "HDelete ''a''"] by simp
  have holds: "holds_index scan_lib id_map_codec example_index (xs_dir fs)"
    using stage_holds [OF index_codecs_ok(1), where L = scan_lib and io = no_io_faults and ix = example_index]
    by (simp add: fs_def stage_index_def no_io_faults_def id_map_codec_def)
  obtain states r where run: "persist scan_lib id_map_codec (no_io_faults\<lparr>io_swap := Some ''EACCES''\<rparr>) ''index'' (fst (hnsw_delete ''a'' example_index)) fs = (states, r)"
    by (metis prod.exhaust)
  have "io_open no_io_faults = None" by (simp add: no_io_faults_def)
  from persist_crash_safe [OF example_index_ok(1) new index_codecs_ok(1) scan_dump_ok holds run this] show ?thesis
    unfolding Let_def fs_def [symmetric] run by simp
qed

lemma cached_index_current_witness:
  "let d0 = fst (store_indexed_vectors no_faults [(''a'', [one_bits])] empty_cache);
       d = fst (store_indexed_vectors no_faults [(''b'', [two_bits])] d0);
       fs = fst (persist_hnsw_cache scan_lib id_map_codec token_codec no_faults no_io_faults ''index'' example_index None d0 no_files)
   in \<exists>fs' ix. load_cached_or_rebuild_hnsw scan_lib id_map_codec token_codec no_faults no_io_faults ''index'' 1 None d fs = (fs', Inr (Some ix)) \<and>
        live_vectors (\<lambda>g. g) ix ''b'' = Some [two_bits]"
proof -
  define d0 where "d0 = fst (store_indexed_vectors no_faults [(''a'', [one_bits])] empty_cache)"
  define ops where "ops = [(no_faults, StoreIndexedVectors [(''b'', [two_bits])])]"
  define d where "d = cache_run example_codecs ops d0"
  define fs where "fs = fst (persist_hnsw_cache scan_lib id_map_codec token_codec no_faults no_io_faults ''index'' example_index None d0 no_files)"
  have d0: "cache_ok d0" using cache_ok_call [OF cache_ok_empty, of no_faults example_codecs "StoreIndexedVectors [(''a'', [one_bits])]"] by (simp add: d0_def)
  have "vector_map (kt_vectors d0) = [''a'' \<mapsto> [one_bits]]"
    by (simp add: d0_def store_indexed_vectors_def store_vectors_body_def sql_then_def sql_ret_def insert_vector_stmt_def bump_vector_generation_def
        put_vector_def replace_row_def empty_cache_def vector_map_def vector_row_of_def decode_encode_blob)
  then have live: "live_vectors (\<lambda>g. g) example_index = store_vectors d0"
    by (auto simp: example_index_ok(3) store_vectors_def fun_eq_iff not_degenerate_examples)
  have "snd (persist_hnsw_cache scan_lib id_map_codec token_codec no_faults no_io_faults ''index'' example_index None d0 no_files) = Inr ()"
    by (simp add: persist_hnsw_cache_def persist_def Let_def no_io_faults_def no_files_def stage_index_def id_map_codec_def split: prod.splits)
  then have run: "persist_hnsw_cache scan_lib id_map_codec token_codec no_faults no_io_faults ''index'' example_index None d0 no_files = (fs, Inr ())"
    by (simp add: fs_def prod_eq_iff)
  have ok: "run_succeeds example_codecs ops d0" unfolding ops_def d0_def by code_simp
  have dims: "dims_ok 1 d" unfolding dims_ok_def d_def ops_def d0_def by code_simp
  have b: "vector_map (kt_vectors d) ''b'' = Some [two_bits]" unfolding d_def ops_def d0_def by code_simp
  from cached_index_current [OF scan_lib_ok scan_dump_ok index_codecs_ok d0 example_index_ok(1,2) live run ok d_def _ dims, of no_io_faults]
  obtain fs' r where r: "load_cached_or_rebuild_hnsw scan_lib id_map_codec token_codec no_faults no_io_faults ''index'' 1 None d fs = (fs', Inr r)"
    "case r of None \<Rightarrow> store_vectors d = Map.empty | Some ix \<Rightarrow> live_vectors (\<lambda>g. g) ix = store_vectors d" by auto
  have "store_vectors d ''b'' = Some [two_bits]" using b by (simp add: store_vectors_def not_degenerate_examples)
  then obtain ix where "r = Some ix" "live_vectors (\<lambda>g. g) ix ''b'' = Some [two_bits]" using r(2) by (cases r) auto
  moreover have "d = fst (store_indexed_vectors no_faults [(''b'', [two_bits])] d0)" by (simp add: d_def ops_def cache_run_def)
  ultimately show ?thesis using r(1) unfolding Let_def d0_def [symmetric] fs_def [symmetric] by auto
qed

text \<open>
  Two crashes in a row lose the index: the first leaves only the backup, which the next persist removes before its
  own index is in place.
\<close>

lemma second_crash_loses_index:
  "let fs = no_files\<lparr>xs_dir := Some (projr (stage_index scan_lib id_map_codec no_io_faults example_index))\<rparr>
   in list_ex (\<lambda>x. list_ex (\<lambda>y. isl (load scan_lib id_map_codec no_io_faults ''index'' y))
        (fst (persist scan_lib id_map_codec no_io_faults ''index'' example_index x))) (fst (persist scan_lib id_map_codec no_io_faults ''index'' example_index fs))"
  by code_simp

text \<open>A degenerate vector does not replace the vector of its id, which stays in the index.\<close>

lemma degenerate_update_keeps_old:
  "hnsw_insert scan_lib ''a'' [0] example_index = (example_index, Inr ())" "live_vectors (\<lambda>g. g) example_index ''a'' = Some [one_bits]"
  by (simp_all add: example_index_ok hnsw_insert_def not_degenerate_examples)

text \<open>A batch of vectors that fails in the middle: the cached index is loaded although a vector has changed.\<close>

lemma stale_cache_loaded:
  "let d0 = fst (store_indexed_vectors no_faults [(''a'', [one_bits])] empty_cache);
       fs = fst (persist_hnsw_cache scan_lib id_map_codec token_codec no_faults no_io_faults ''index'' example_index None d0 no_files);
       d = fst (store_indexed_vectors (\<lambda>n. if n = 3 then Some ''database is locked'' else None) [(''a'', [two_bits]), (''b'', [two_bits])] d0)
   in store_vectors d ''a'' = Some [two_bits] \<and>
      (case snd (load_cached_or_rebuild_hnsw scan_lib id_map_codec token_codec no_faults no_io_faults ''index'' 1 None d fs) of
         Inr (Some ix) \<Rightarrow> live_vectors (\<lambda>g. g) ix ''a'' = Some [one_bits] | _ \<Rightarrow> False)"
  by code_simp

end
