(* ===== verification/Sections.thy ===== *)
theory Sections
  imports Content_Store Text
begin

text \<open>
  The shaping of documents before they are stored: \<open>ministr-core/src/ingestion/sections.rs\<close> (splitting,
  coalescing, enriching), \<open>parser/section_id.rs\<close>, the assembly parser of \<open>parser/assembly.rs\<close> and, from
  \<open>ingestion/embedding.rs\<close>, which texts of a document are embedded and under which vector ids. The tokenizer
  (\<open>tiktoken-rs\<close>) and the claim and summary extractors (trait objects) are arguments.
\<close>

section \<open>Section ids\<close>

text \<open>\<open>str::starts_with\<close>, and \<open>str::split\<close> with a string.\<close>

definition begins_with :: "string \<Rightarrow> string \<Rightarrow> bool" where
  "begins_with s p \<longleftrightarrow> take (length p) s = p"

function split_str :: "string \<Rightarrow> string \<Rightarrow> string list" where
  "split_str sep s =
     (case split_once sep s of
        None \<Rightarrow> [s]
      | Some (a, b) \<Rightarrow> if sep = [] then [s] else a # split_str sep b)"
  by pat_completeness auto
termination
proof (relation "measure (\<lambda>(sep, s). length s)")
  fix sep s a b :: string and p
  assume "split_once sep s = Some p" "(a, b) = p" "sep \<noteq> []"
  then have "s = a @ sep @ b" using split_once_Some [of sep s a b] by simp
  with \<open>sep \<noteq> []\<close> show "((sep, b), (sep, s)) \<in> measure (\<lambda>(sep, s). length s)" by simp
qed simp

declare split_str.simps [simp del]

text \<open>The state of \<open>slugify\<close>: the slug so far and whether a separator came last.\<close>

definition slug_step :: "char_tables \<Rightarrow> string \<Rightarrow> string \<times> bool \<Rightarrow> string \<times> bool" where
  "slug_step T ch st =
     (case st of (slug, prev_was_separator) \<Rightarrow>
        if ch_alphanumeric T ch
        then (slug @ (if prev_was_separator \<and> slug \<noteq> [] then ''-'' else []) @ ch_to_lower T ch, False)
        else (slug, True))"

definition slugify :: "char_tables \<Rightarrow> string \<Rightarrow> string" where
  "slugify T t = fst (fold (slug_step T) (utf8_chars t) ([], False))"

definition generate_section_id :: "char_tables \<Rightarrow> string \<Rightarrow> string list \<Rightarrow> string" where
  "generate_section_id T source_path heading_path =
     (if heading_path = [] then source_path @ ''#root'' else source_path @ ''#'' @ join ''/'' (map (slugify T) heading_path))"

definition generate_code_section_id :: "string \<Rightarrow> string list \<Rightarrow> string \<Rightarrow> string" where
  "generate_code_section_id source_path module_path symbol_name =
     (if module_path = [] then source_path @ ''#'' @ symbol_name
      else source_path @ ''#'' @ join ''::'' module_path @ ''::'' @ symbol_name)"

section \<open>Assembly files\<close>

definition COMMENT_CHARS :: string where
  "COMMENT_CHARS = '';@''"

definition SECTION_DIRECTIVES :: "string list" where
  "SECTION_DIRECTIVES = [''section'', ''segment'', ''.section'', ''.text'', ''.data'', ''.bss'']"

definition is_assembly_extension :: "string \<Rightarrow> bool" where
  "is_assembly_extension ext \<longleftrightarrow> ext \<in> {''asm'', ''s'', ''S'', ''inc''}"

record asm_label =
  al_name :: string
  al_exported :: bool
  al_doc_comment :: "string option"
  al_text :: string
  al_line_start :: nat

definition label_name_char :: "char \<Rightarrow> bool" where
  "label_name_char b \<longleftrightarrow> ascii_upper b \<or> ascii_lower b \<or> ascii_digit b \<or> b \<in> {CHR ''_'', CHR ''@'', CHR ''$'', CHR ''.''}"

definition parse_label_line :: "string \<Rightarrow> (string \<times> bool) option" where
  "parse_label_line line =
     (let trimmed = trim_end line
      in if trimmed = [] then None
         else if \<not> (ascii_upper (hd trimmed) \<or> ascii_lower (hd trimmed)) \<and> hd trimmed \<noteq> CHR ''_'' then None
         else
           (case split_once '':'' trimmed of
              None \<Rightarrow> None
            | Some (name_part, rest) \<Rightarrow>
                if \<not> list_all label_name_char name_part then None
                else if map to_ascii_lower name_part \<in> set SECTION_DIRECTIVES then None
                else Some (name_part, rest \<noteq> [] \<and> hd rest = CHR '':'')))"

definition is_label :: "string \<Rightarrow> bool" where
  "is_label line \<longleftrightarrow> parse_label_line line \<noteq> None"

definition is_comment :: "string \<Rightarrow> bool" where
  "is_comment trimmed \<longleftrightarrow> trimmed \<noteq> [] \<and> hd trimmed \<in> set COMMENT_CHARS"

definition comment_body :: "string \<Rightarrow> string" where
  "comment_body trimmed = trim_start (tl trimmed)"

text \<open>The backward walk over the lines before a label, nearest first.\<close>

fun comment_block :: "string list \<Rightarrow> string list \<Rightarrow> string list" where
  "comment_block [] acc = acc"
| "comment_block (l # ls) acc =
     (let trimmed = str_trim l
      in if trimmed = [] then (if acc = [] then comment_block ls acc else acc)
         else if is_comment trimmed then comment_block ls (comment_body trimmed # acc)
         else acc)"

definition extract_preceding_comment :: "string list \<Rightarrow> nat \<Rightarrow> string option" where
  "extract_preceding_comment lines label_line =
     (let comment_lines = comment_block (rev (take label_line lines)) []
      in if comment_lines = [] then None else Some (join [CHR 0x0A] comment_lines))"

text \<open>\<open>rest\<close> are the lines from line \<open>i\<close> on.\<close>

function extract_labels_from :: "string list \<Rightarrow> nat \<Rightarrow> string list \<Rightarrow> asm_label list" where
  "extract_labels_from lines i [] = []"
| "extract_labels_from lines i (l # rest) =
     (case parse_label_line l of
        None \<Rightarrow> extract_labels_from lines (Suc i) rest
      | Some (name, exported) \<Rightarrow>
          (let body = takeWhile (\<lambda>x. \<not> is_label x) rest
           in \<lparr>al_name = name, al_exported = exported, al_doc_comment = extract_preceding_comment lines i,
               al_text = join [CHR 0x0A] (l # body), al_line_start = i\<rparr>
              # extract_labels_from lines (Suc (i + length body)) (dropWhile (\<lambda>x. \<not> is_label x) rest)))"
  by pat_completeness auto
termination
  by (relation "measure (\<lambda>(lines, i, rest). length rest)") (auto simp: le_imp_less_Suc length_dropWhile_le)

definition extract_labels :: "string list \<Rightarrow> asm_label list" where
  "extract_labels lines = extract_labels_from lines 0 lines"

definition extract_header :: "string list \<Rightarrow> asm_label list \<Rightarrow> string \<times> string option" where
  "extract_header lines labels =
     (let first_label_line = (case labels of [] \<Rightarrow> length lines | l # _ \<Rightarrow> al_line_start l);
          header = map str_trim (take first_label_line lines);
          doc_lines = map comment_body (filter is_comment header);
          other_lines = filter (\<lambda>t. \<not> is_comment t \<and> t \<noteq> []) header
      in (join [CHR 0x0A] other_lines, if doc_lines = [] then None else Some (join [CHR 0x0A] doc_lines)))"

abbreviation blank_line :: string where
  "blank_line \<equiv> [CHR 0x0A, CHR 0x0A]"

definition build_label_section :: "string \<Rightarrow> asm_label \<Rightarrow> section_tree" where
  "build_label_section source_path l =
     MkSection (generate_code_section_id source_path [] (al_name l))
       [source_path, (if al_exported l then ''export'' else ''label'') @ '' '' @ al_name l] 2
       (join blank_line ((case al_doc_comment l of None \<Rightarrow> [] | Some d \<Rightarrow> [d]) @ [al_text l])) [] [] [] None"

definition parse_assembly :: "char_tables \<Rightarrow> string \<Rightarrow> string \<Rightarrow> document_tree" where
  "parse_assembly T source_path content =
     (let lines = str_lines content; labels = extract_labels lines; (header_text, header_doc) = extract_header lines labels;
          listing = map (\<lambda>l. al_name l @ '':'' @ (if al_exported l then '' (exported)'' else [])) labels;
          overview_parts = (case header_doc of None \<Rightarrow> [] | Some d \<Rightarrow> [d]) @ (if header_text = [] then [] else [header_text]) @
            (if labels = [] then [] else [join [CHR 0x0A] listing])
      in \<lparr>dt_id = source_path, dt_title = source_path @ '' (source)'', dt_source_path = source_path,
          dt_sections = [MkSection (generate_section_id T source_path []) [source_path] 1 (join blank_line overview_parts) []
            (map (build_label_section source_path) labels) [] None],
          dt_doc_summary = None\<rparr>)"

section \<open>Splitting and coalescing\<close>

definition PARAGRAPH_SPLIT_THRESHOLD :: nat where
  "PARAGRAPH_SPLIT_THRESHOLD = 500"

definition split_large_headingless_section :: "section_tree \<Rightarrow> string \<Rightarrow> section_tree list" where
  "split_large_headingless_section s source_path =
     (if sec_depth s \<noteq> 0 \<or> split_whitespace_count (sec_text s) \<le> PARAGRAPH_SPLIT_THRESHOLD then [s]
      else
        (let paragraphs = filter (\<lambda>p. p \<noteq> []) (map str_trim (split_str blank_line (sec_text s)))
         in if length paragraphs \<le> 1 then [s]
            else map (\<lambda>(i, para). MkSection (source_path @ ''#paragraph-'' @ show_nat i) [] 0 para [] [] [] None)
                   (enumerate 0 paragraphs)))"

definition merge_into :: "section_tree \<Rightarrow> section_tree \<Rightarrow> section_tree" where
  "merge_into target src =
     (let heading = (if sec_heading_path src = [] then [] else last (sec_heading_path src));
          glue = (if heading = [] then blank_line else blank_line @ ''### '' @ heading @ blank_line)
      in MkSection (sec_id target) (sec_heading_path target) (sec_depth target) (sec_text target @ glue @ sec_text src)
           (sec_nodes target @ sec_nodes src) (sec_children target @ sec_children src) (sec_claims target) (sec_summary target))"

text \<open>The loop, \<open>result\<close> being what it has collected; \<open>count_tokens\<close> is the tokenizer.\<close>

fun coalesce_loop :: "(string \<Rightarrow> nat) \<Rightarrow> nat \<Rightarrow> section_tree list \<Rightarrow> section_tree list \<Rightarrow> section_tree list" where
  "coalesce_loop count_tokens min_tokens [] result = result"
| "coalesce_loop count_tokens min_tokens (MkSection i hp dep t ns ch cl sm # rest) result =
     (if count_tokens t < min_tokens \<and> result \<noteq> [] \<and> sec_depth (last result) = dep
         \<and> count_tokens (sec_text (last result)) < min_tokens
      then coalesce_loop count_tokens min_tokens rest
             (butlast result @ [merge_into (last result) (MkSection i hp dep t ns ch cl sm)])
      else coalesce_loop count_tokens min_tokens rest
             (result @ [MkSection i hp dep t ns (coalesce_loop count_tokens min_tokens ch []) cl sm]))"

definition coalesce_small_sections :: "(string \<Rightarrow> nat) \<Rightarrow> section_tree list \<Rightarrow> nat \<Rightarrow> section_tree list" where
  "coalesce_small_sections count_tokens sections min_tokens =
     (if min_tokens = 0 then sections else coalesce_loop count_tokens min_tokens sections [])"

section \<open>Claims and summaries\<close>

definition SUMMARY_MAX_SENTENCES :: nat where
  "SUMMARY_MAX_SENTENCES = 3"

text \<open>\<open>extract\<close> and \<open>summarize\<close> are the extractors the caller passes.\<close>

fun enrich_sections ::
    "(string \<Rightarrow> string \<Rightarrow> claim list) \<Rightarrow> (string \<Rightarrow> nat \<Rightarrow> string) \<Rightarrow> section_tree list \<Rightarrow> section_tree list \<times> nat \<times> nat" where
  "enrich_sections extract summarize [] = ([], 0, 0)"
| "enrich_sections extract summarize (MkSection i hp dep t ns ch cl sm # rest) =
     (let blank = (str_trim t = []); cl' = (if blank then cl else extract t i); summary = summarize t SUMMARY_MAX_SENTENCES;
          sm' = (if blank \<or> summary = [] then sm else Some summary)
      in case enrich_sections extract summarize ch of (ch', cs, cc) \<Rightarrow>
         case enrich_sections extract summarize rest of (rest', rs, rc) \<Rightarrow>
           (MkSection i hp dep t ns ch' cl' sm' # rest', 1 + cs + rs, (if blank then 0 else length cl') + cc + rc))"

definition collect_all_text :: "section_tree list \<Rightarrow> string" where
  "collect_all_text sections = join '' '' (filter (\<lambda>t. str_trim t \<noteq> []) (map sec_text (flatten_sections sections)))"

fun collect_all_claims :: "section_tree list \<Rightarrow> claim list" where
  "collect_all_claims [] = []"
| "collect_all_claims (MkSection i hp dep t ns ch cl sm # rest) = cl @ collect_all_claims ch @ collect_all_claims rest"

section \<open>What is embedded\<close>

text \<open>\<open>rsplit(['/', '\']).next()\<close>.\<close>

definition file_name_of :: "string \<Rightarrow> string" where
  "file_name_of h = rev (takeWhile (\<lambda>c. c \<noteq> CHR ''/'' \<and> c \<noteq> CHR 0x5C) (rev h))"

definition crumbs_of :: "string list \<Rightarrow> string list" where
  "crumbs_of heading_path =
     List.map_filter (\<lambda>(i, h0). let h = str_trim h0 in if h = [] then None else Some (if i = 0 then file_name_of h else h))
       (enumerate 0 heading_path)"

text \<open>The separator is a space, U+203A and a space.\<close>

definition contextualize_text :: "string list \<Rightarrow> string \<Rightarrow> string" where
  "contextualize_text heading_path t =
     (let crumbs = crumbs_of heading_path; pre = join [CHR 0x20, CHR 0xE2, CHR 0x80, CHR 0xBA, CHR 0x20] crumbs
      in if crumbs = [] \<or> begins_with t pre then t else pre @ blank_line @ t)"

definition embed_text :: "bool \<Rightarrow> string list \<Rightarrow> string \<Rightarrow> string" where
  "embed_text contextualize hp t = (if contextualize then contextualize_text hp t else t)"

fun collect_embeddable_items :: "bool \<Rightarrow> section_tree list \<Rightarrow> (vector_id \<times> string) list" where
  "collect_embeddable_items cx [] = []"
| "collect_embeddable_items cx (MkSection i hp dep t ns ch cl sm # rest) =
     (case sm of
        None \<Rightarrow> []
      | Some summary \<Rightarrow>
          if str_trim summary \<noteq> [] \<and> \<not> begins_with t summary then [(vid_sec_summary i, embed_text cx hp summary)] else []) @
     (if str_trim t \<noteq> [] then [(vid_section i, embed_text cx hp t)] else []) @
     map (\<lambda>c. (vid_claim (claim_id c), claim_text c)) (filter (\<lambda>c. str_trim (claim_text c) \<noteq> []) cl) @
     collect_embeddable_items cx ch @ collect_embeddable_items cx rest"

definition collect_document_embeddings :: "bool \<Rightarrow> document_tree \<Rightarrow> (vector_id \<times> string) list" where
  "collect_document_embeddings cx doc =
     (case dt_doc_summary doc of
        None \<Rightarrow> []
      | Some summary \<Rightarrow> if str_trim summary \<noteq> [] then [(vid_doc_summary (dt_id doc), summary)] else []) @
     collect_embeddable_items cx (dt_sections doc)"


section \<open>Specification\<close>

text \<open>A text is kept when it occurs in a text of the result.\<close>

definition occurs_in :: "string \<Rightarrow> string \<Rightarrow> bool" where
  "occurs_in t u \<longleftrightarrow> (\<exists>p q. u = p @ t @ q)"

text \<open>
  Coalescing without a loop: the siblings fall into groups of neighbours, each merged into its first section, whose
  children are coalesced. A section joins the group before it when both are small and of the same depth.
\<close>

definition coalesce_children :: "(string \<Rightarrow> nat) \<Rightarrow> nat \<Rightarrow> section_tree \<Rightarrow> section_tree" where
  "coalesce_children ct m s =
     MkSection (sec_id s) (sec_heading_path s) (sec_depth s) (sec_text s) (sec_nodes s)
       (coalesce_small_sections ct (sec_children s) m) (sec_claims s) (sec_summary s)"

definition merge_group :: "(string \<Rightarrow> nat) \<Rightarrow> nat \<Rightarrow> section_tree list \<Rightarrow> section_tree" where
  "merge_group ct m g = fold (\<lambda>s p. merge_into p s) (tl g) (coalesce_children ct m (hd g))"

definition joins :: "(string \<Rightarrow> nat) \<Rightarrow> nat \<Rightarrow> section_tree \<Rightarrow> section_tree \<Rightarrow> bool" where
  "joins ct m p s \<longleftrightarrow> ct (sec_text s) < m \<and> sec_depth p = sec_depth s \<and> ct (sec_text p) < m"

definition grouped :: "(string \<Rightarrow> nat) \<Rightarrow> nat \<Rightarrow> section_tree list list \<Rightarrow> bool" where
  "grouped ct m gs \<longleftrightarrow> [] \<notin> set gs
     \<and> (\<forall>g \<in> set gs. \<forall>k. 0 < k \<and> k < length g \<longrightarrow> joins ct m (merge_group ct m (take k g)) (g ! k))
     \<and> successively (\<lambda>g h. \<not> joins ct m (merge_group ct m g) (hd h)) gs"

definition kept_texts :: "section_tree list \<Rightarrow> section_tree list \<Rightarrow> bool" where
  "kept_texts ts us \<longleftrightarrow> (\<forall>s \<in> set (flatten_sections ts). \<exists>u \<in> set (flatten_sections us). occurs_in (sec_text s) (sec_text u))"

definition all_nodes :: "section_tree list \<Rightarrow> structural_node list" where
  "all_nodes ts = concat (map sec_nodes (flatten_sections ts))"

text \<open>The words of a heading: the maximal runs of its alphanumeric characters, in lower case.\<close>

fun cut_runs :: "('a \<Rightarrow> bool) \<Rightarrow> 'a list \<Rightarrow> 'a list list" where
  "cut_runs P [] = [[]]"
| "cut_runs P (x # xs) = (if P x then (x # hd (cut_runs P xs)) # tl (cut_runs P xs) else [] # cut_runs P xs)"

definition slug_words :: "char_tables \<Rightarrow> string \<Rightarrow> string list" where
  "slug_words T t =
     map (\<lambda>w. concat (map (ch_to_lower T) w)) (filter (\<lambda>w. w \<noteq> []) (cut_runs (ch_alphanumeric T) (utf8_chars t)))"

text \<open>What one section contributes to the index.\<close>

definition section_items :: "bool \<Rightarrow> section_tree \<Rightarrow> (vector_id \<times> string) list" where
  "section_items cx s =
     (case sec_summary s of
        None \<Rightarrow> []
      | Some summary \<Rightarrow>
          if str_trim summary \<noteq> [] \<and> \<not> begins_with (sec_text s) summary
          then [(vid_sec_summary (sec_id s), embed_text cx (sec_heading_path s) summary)] else []) @
     (if str_trim (sec_text s) \<noteq> [] then [(vid_section (sec_id s), embed_text cx (sec_heading_path s) (sec_text s))] else []) @
     map (\<lambda>c. (vid_claim (claim_id c), claim_text c)) (filter (\<lambda>c. str_trim (claim_text c) \<noteq> []) (sec_claims s))"

text \<open>The lines of each label, up to the next one.\<close>

function label_blocks :: "string list \<Rightarrow> string list list" where
  "label_blocks [] = []"
| "label_blocks (l # rest) =
     (if is_label l then (l # takeWhile (\<lambda>x. \<not> is_label x) rest) # label_blocks (dropWhile (\<lambda>x. \<not> is_label x) rest)
      else label_blocks rest)"
  by pat_completeness auto
termination
  by (relation "measure length") (auto simp: le_imp_less_Suc length_dropWhile_le)

section \<open>Lemmas\<close>

lemma join_split_str: "join sep (split_str sep s) = s"
proof (induction sep s rule: split_str.induct)
  case (1 sep s)
  show ?case
  proof (cases "split_once sep s")
    case None
    then show ?thesis by (simp add: split_str.simps [of sep s])
  next
    case (Some p)
    obtain a b where p: "p = (a, b)" by (cases p)
    have s: "s = a @ sep @ b" using split_once_Some [of sep s a b] Some p by simp
    show ?thesis
    proof (cases "sep = []")
      case False
      have "split_str sep b \<noteq> []" by (simp add: split_str.simps [of sep b] split: option.split)
      then have "join sep (a # split_str sep b) = a @ sep @ join sep (split_str sep b)" by (cases "split_str sep b") simp_all
      moreover have "split_str sep s = a # split_str sep b" using Some p False by (simp add: split_str.simps [of sep s])
      ultimately show ?thesis using 1 [OF Some p [symmetric] False] s by simp
    qed (simp add: split_str.simps [of "[]" s] split: option.split)
  qed
qed

text \<open>The assembly parser loses no line of a label.\<close>

lemma label_blocks_labels:
  "map al_text (extract_labels_from lines i rest) = map (join [CHR 0x0A]) (label_blocks rest)"
  by (induction lines i rest rule: extract_labels_from.induct) (auto simp: is_label_def Let_def split: option.splits)

lemma label_blocks_lines: "concat (label_blocks ls) = dropWhile (\<lambda>x. \<not> is_label x) ls"
  by (induction ls rule: label_blocks.induct) auto

lemma label_blocks_head: "b \<in> set (label_blocks ls) \<Longrightarrow> b \<noteq> [] \<and> is_label (hd b) \<and> list_all (\<lambda>l. \<not> is_label l) (tl b)"
proof (induction ls rule: label_blocks.induct)
  case (2 l rest)
  have "list_all (\<lambda>l. \<not> is_label l) (takeWhile (\<lambda>x. \<not> is_label x) rest)"
    using set_takeWhileD [of _ "\<lambda>x. \<not> is_label x" rest] unfolding list_all_iff by blast
  with 2 show ?case by (cases "is_label l") auto
qed simp

lemma first_label_line:
  "(case extract_labels_from lines i rest of [] \<Rightarrow> i + length rest | l # _ \<Rightarrow> al_line_start l)
     = i + length (takeWhile (\<lambda>x. \<not> is_label x) rest)"
proof (induction lines i rest rule: extract_labels_from.induct)
  case (2 lines i l rest)
  then show ?case
    by (cases "parse_label_line l"; cases "extract_labels_from lines (Suc i) rest") (auto simp: is_label_def Let_def)
qed simp

text \<open>Coalescing.\<close>

lemma flatten_append [simp]: "flatten_sections (a @ b) = flatten_sections a @ flatten_sections b"
  by (induction a rule: flatten_sections.induct) simp_all

lemma flatten_single: "flatten_sections [s] = s # flatten_sections (sec_children s)"
  by (cases s) simp

lemma occurs_in_refl [simp]: "occurs_in t t"
  unfolding occurs_in_def by (rule exI [of _ "[]"], rule exI [of _ "[]"]) simp

lemma occurs_in_extend: "occurs_in t u \<Longrightarrow> occurs_in t (p @ u @ q)"
  unfolding occurs_in_def by (metis append.assoc)

lemma kept_textsD: "kept_texts ts us \<Longrightarrow> s \<in> set (flatten_sections ts) \<Longrightarrow> \<exists>u \<in> set (flatten_sections us). occurs_in (sec_text s) (sec_text u)"
  by (simp add: kept_texts_def)

lemma kept_texts_refl [simp]: "kept_texts ts ts"
  unfolding kept_texts_def using occurs_in_refl by blast

lemma occurs_in_trans: "occurs_in a b \<Longrightarrow> occurs_in b c \<Longrightarrow> occurs_in a c"
  unfolding occurs_in_def by (metis append.assoc)

lemma kept_texts_trans: "kept_texts a b \<Longrightarrow> kept_texts b c \<Longrightarrow> kept_texts a c"
  unfolding kept_texts_def by (meson occurs_in_trans)

lemma kept_texts_append: "kept_texts a a' \<Longrightarrow> kept_texts b b' \<Longrightarrow> kept_texts (a @ b) (a' @ b')"
  by (fastforce simp: kept_texts_def)

lemma merge_flatten:
  "flatten_sections [merge_into a b] = merge_into a b # flatten_sections (sec_children a) @ flatten_sections (sec_children b)"
  by (simp add: flatten_single merge_into_def Let_def)

lemma merge_kept: "kept_texts (ts @ [a, b]) (ts @ [merge_into a b])"
proof -
  obtain g where g: "sec_text (merge_into a b) = sec_text a @ g @ sec_text b" by (simp add: merge_into_def Let_def)
  have "occurs_in (sec_text a) (sec_text (merge_into a b))" unfolding occurs_in_def g by (metis append_Nil)
  moreover have "occurs_in (sec_text b) (sec_text (merge_into a b))" unfolding occurs_in_def g by (metis append.assoc append_Nil2)
  ultimately have "kept_texts [a, b] [merge_into a b]"
    unfolding kept_texts_def merge_flatten using flatten_single [of a] flatten_single [of b] flatten_append [of "[a]" "[b]"]
    by auto (use occurs_in_refl in blast)+
  then show ?thesis by (rule kept_texts_append [OF kept_texts_refl])
qed

lemma merge_nodes: "mset (all_nodes [merge_into a b]) = mset (all_nodes [a]) + mset (all_nodes [b])"
  unfolding all_nodes_def merge_flatten flatten_single by (simp add: merge_into_def Let_def)

lemma all_nodes_append [simp]: "all_nodes (a @ b) = all_nodes a @ all_nodes b"
  by (simp add: all_nodes_def)

lemma all_ids_flatten: "all_ids ts = map sec_id (flatten_sections ts)"
  by (induction ts rule: flatten_sections.induct) simp_all

lemma last_split: "xs \<noteq> [] \<Longrightarrow> xs = butlast xs @ [last xs]"
  by simp

lemma node_step:
  assumes "mset (all_nodes ch') = mset (all_nodes ch)"
  shows "mset (all_nodes [MkSection i hp dep t ns ch' cl sm]) = mset (all_nodes [MkSection i hp dep t ns ch cl sm])"
  using assms by (simp add: all_nodes_def)

lemma keep_step:
  assumes "kept_texts ch ch'"
  shows "kept_texts [MkSection i hp dep t ns ch cl sm] [MkSection i hp dep t ns ch' cl sm]"
  using assms by (force simp: kept_texts_def)

lemma id_step:
  assumes "set (all_ids ch') \<subseteq> set (all_ids ch)"
  shows "set (all_ids [MkSection i hp dep t ns ch' cl sm]) \<subseteq> set (all_ids [MkSection i hp dep t ns ch cl sm])"
  using assms by auto

lemma all_ids_append [simp]: "all_ids (a @ b) = all_ids a @ all_ids b"
  by (simp add: all_ids_flatten)

lemma merge_ids: "set (all_ids [merge_into a b]) \<subseteq> set (all_ids [a]) \<union> set (all_ids [b])"
  unfolding all_ids_flatten merge_flatten flatten_single by (auto simp: merge_into_def Let_def)

lemma coalesce_loop_keeps:
  "kept_texts (result @ ts) (coalesce_loop ct m ts result) \<and>
   mset (all_nodes (coalesce_loop ct m ts result)) = mset (all_nodes (result @ ts)) \<and>
   set (all_ids (coalesce_loop ct m ts result)) \<subseteq> set (all_ids (result @ ts))"
proof (induction ct m ts result rule: coalesce_loop.induct)
  case (2 ct m i hp dep t ns ch cl sm rest result)
  let ?s = "MkSection i hp dep t ns ch cl sm"
  show ?case
  proof (cases "ct t < m \<and> result \<noteq> [] \<and> sec_depth (last result) = dep \<and> ct (sec_text (last result)) < m")
    case True
    let ?r = "butlast result @ [merge_into (last result) ?s]"
    note IH = 2(1) [OF True]
    have "kept_texts (butlast result @ [last result, ?s]) ?r" by (rule merge_kept)
    then have k: "kept_texts (result @ [?s]) ?r" 
      using True by (metis append.assoc append_Cons append_Nil append_butlast_last_id)
    have "kept_texts ((result @ [?s]) @ rest) (?r @ rest)" by (rule kept_texts_append [OF k kept_texts_refl])
    then have 1: "kept_texts (result @ ?s # rest) (coalesce_loop ct m rest ?r)" using IH kept_texts_trans by simp
    have "mset (all_nodes result) = mset (all_nodes (butlast result)) + mset (all_nodes [last result])"
      using True by (metis all_nodes_append last_split mset_append)
    then have 2: "mset (all_nodes (?r @ rest)) = mset (all_nodes (result @ ?s # rest))"
      using merge_nodes [of "last result" ?s] all_nodes_append [of "[?s]" rest]
        all_nodes_append [of "[merge_into (last result) ?s]" rest] by simp
    have "set (all_ids result) = set (all_ids (butlast result)) \<union> set (all_ids [last result])"
      using True by (metis all_ids_append last_split set_append)
    then have 3: "set (all_ids (?r @ rest)) \<subseteq> set (all_ids (result @ ?s # rest))"
      using merge_ids [of "last result" ?s] all_ids_append [of "[?s]" rest] all_ids_append [of "[merge_into (last result) ?s]" rest]
      by (auto simp del: all_ids.simps)
    show ?thesis using True IH 1 2 3 by simp blast
  next
    case False
    let ?n = "MkSection i hp dep t ns (coalesce_loop ct m ch []) cl sm"
    note IH = 2(2,3) [OF False]
    have "kept_texts [?s] [?n]" "mset (all_nodes [?n]) = mset (all_nodes [?s])" "set (all_ids [?n]) \<subseteq> set (all_ids [?s])"
      using IH(1) by (auto intro!: keep_step node_step id_step simp del: all_ids.simps)
    moreover have "kept_texts (result @ [?s] @ rest) (result @ [?n] @ rest)"
      by (intro kept_texts_append kept_texts_refl calculation(1))
    ultimately show ?thesis using IH(2) False all_nodes_append [of "[?s]" rest] all_nodes_append [of "[?n]" rest]
        all_ids_append [of "[?s]" rest] all_ids_append [of "[?n]" rest] kept_texts_trans
      by (auto simp del: all_ids.simps)
  qed
qed simp


text \<open>Slugs.\<close>

lemma cut_runs_ne [simp]: "cut_runs P xs \<noteq> []"
  by (induction xs) auto

lemma cut_runs_snoc:
  "cut_runs P (xs @ [x]) =
     (if P x then butlast (cut_runs P xs) @ [last (cut_runs P xs) @ [x]] else cut_runs P xs @ [[]])"
proof (induction xs)
  case (Cons a xs)
  then show ?case by (cases "cut_runs P xs") (auto simp: hd_append)
qed simp

lemma join_snoc: "join sep (ws @ [w]) = (if ws = [] then w else join sep ws @ sep @ w)"
proof (induction ws)
  case (Cons v ws)
  then show ?case by (cases ws) auto
qed simp

lemma slug_fold:
  assumes "\<And>c. ch_alphanumeric T c \<Longrightarrow> ch_to_lower T c \<noteq> []"
  shows "fst (fold (slug_step T) cs ([], False)) =
      join ''-'' (map (\<lambda>w. concat (map (ch_to_lower T) w)) (filter (\<lambda>w. w \<noteq> []) (cut_runs (ch_alphanumeric T) cs))) \<and>
    (snd (fold (slug_step T) cs ([], False)) \<longleftrightarrow> cs \<noteq> [] \<and> last (cut_runs (ch_alphanumeric T) cs) = [])"
proof (induction cs rule: rev_induct)
  case (snoc c cs)
  let ?st = "fold (slug_step T) cs ([], False)" and ?runs = "cut_runs (ch_alphanumeric T) cs"
  let ?low = "\<lambda>w. concat (map (ch_to_lower T) w)"
  let ?ws = "map ?low (filter (\<lambda>w. w \<noteq> []) (butlast ?runs))"
  have runs: "?runs = butlast ?runs @ [last ?runs]" by simp
  have words: "map ?low (filter (\<lambda>w. w \<noteq> []) ?runs) = ?ws @ (if last ?runs = [] then [] else [?low (last ?runs)])"
    by (subst runs) (simp del: append_butlast_last_id)
  have alnum: "w \<in> set (cut_runs (ch_alphanumeric T) cs) \<Longrightarrow> x \<in> set w \<Longrightarrow> ch_alphanumeric T x" for w x
  proof (induction cs arbitrary: w)
    case (Cons a cs)
    then show ?case by (cases "cut_runs (ch_alphanumeric T) cs") (auto split: if_splits, blast)
  qed simp
  have low: "w \<in> set ?runs \<Longrightarrow> w \<noteq> [] \<Longrightarrow> ?low w \<noteq> []" for w
    using alnum [of w "hd w"] assms [of "hd w"] by (cases w) auto
  have empty: "join ''-'' vs = [] \<longleftrightarrow> vs = []" if "[] \<notin> set vs" for vs :: "string list"
    using that by (induction vs rule: join.induct [of _ "''-''"]) auto
  have ne: "[] \<notin> set ?ws"
  proof
    assume "[] \<in> set ?ws"
    then obtain w where w: "w \<in> set (butlast ?runs)" "w \<noteq> []" "?low w = []" 
      unfolding set_map set_filter image_iff by (elim bexE CollectE conjE) (rule that, simp_all)
    with low [of w] show False by (blast dest: in_set_butlastD)
  qed
  obtain slug sep where st: "?st = (slug, sep)" by (cases ?st)
  show ?case
  proof (cases "ch_alphanumeric T c")
    case True
    then have step: "slug_step T c (x, y) = (x @ (if y \<and> x \<noteq> [] then ''-'' else []) @ ch_to_lower T c, False)" for x y
      by (simp add: slug_step_def)
    show ?thesis
    proof (cases "last ?runs = []")
      case e: True
      then have "fst ?st = join ''-'' ?ws" using snoc words by simp
      moreover have "snd ?st \<or> cs = []" using snoc e by auto
      ultimately show ?thesis using True e empty [OF ne]
        by (auto simp: st step cut_runs_snoc join_snoc)
    next
      case False
      then have "fst ?st = join ''-'' (?ws @ [?low (last ?runs)])" "\<not> snd ?st" using snoc words by auto
      then show ?thesis using True False
        by (auto simp: st step cut_runs_snoc join_snoc)
    qed
  next
    case False
    then have "slug_step T c (slug, sep) = (slug, True)" by (simp add: slug_step_def)
    then show ?thesis using snoc False by (simp add: st cut_runs_snoc)
  qed
qed simp

text \<open>A slug is the words of its heading in lower case, joined by hyphens.\<close>

lemma slugify_words:
  "(\<And>c. ch_alphanumeric T c \<Longrightarrow> ch_to_lower T c \<noteq> []) \<Longrightarrow> slugify T t = join ''-'' (slug_words T t)"
  using slug_fold [of T "utf8_chars t"] by (simp add: slugify_def slug_words_def)

text \<open>Enriching.\<close>

lemma enrich_shape:
  "map (\<lambda>s. (sec_id s, sec_text s, sec_heading_path s, sec_depth s, sec_nodes s))
       (flatten_sections (fst (enrich_sections ex su ts))) =
   map (\<lambda>s. (sec_id s, sec_text s, sec_heading_path s, sec_depth s, sec_nodes s)) (flatten_sections ts)"
  by (induction ex su ts rule: enrich_sections.induct) (auto simp: Let_def split: prod.splits)

lemma enrich_ids: "all_ids (fst (enrich_sections ex su ts)) = all_ids ts"
proof -
  have "map fst (map (\<lambda>s. (sec_id s, sec_text s, sec_heading_path s, sec_depth s, sec_nodes s))
       (flatten_sections (fst (enrich_sections ex su ts)))) = map fst (map (\<lambda>s. (sec_id s, sec_text s, sec_heading_path s, sec_depth s, sec_nodes s)) (flatten_sections ts))"
    by (simp only: enrich_shape)
  then show ?thesis by (simp add: all_ids_flatten o_def)
qed

lemma enrich_claims:
  "s \<in> set (flatten_sections (fst (enrich_sections ex su ts))) \<Longrightarrow> str_trim (sec_text s) \<noteq> [] \<Longrightarrow>
     sec_claims s = ex (sec_text s) (sec_id s)"
  by (induction ex su ts rule: enrich_sections.induct) (auto simp: Let_def split: prod.splits)

lemma enrich_section_count: "fst (snd (enrich_sections ex su ts)) = length (flatten_sections ts)"
  by (induction ex su ts rule: enrich_sections.induct) (auto simp: Let_def split: prod.splits)

lemma collect_claims_flatten: "collect_all_claims ts = concat (map sec_claims (flatten_sections ts))"
  by (induction ts rule: collect_all_claims.induct) simp_all

text \<open>What is embedded.\<close>

lemma embeddable_flatten: "collect_embeddable_items cx ts = concat (map (section_items cx) (flatten_sections ts))"
  by (induction cx ts rule: collect_embeddable_items.induct) (simp_all add: section_items_def split: option.splits)

lemma contextualize_idem: "contextualize_text hp (contextualize_text hp t) = contextualize_text hp t"
  by (simp add: contextualize_text_def Let_def begins_with_def)

lemma merge_group_snoc: "g \<noteq> [] \<Longrightarrow> merge_group ct m (g @ [s]) = merge_into (merge_group ct m g) s"
  by (simp add: merge_group_def)

lemma grouped_push:
  assumes "grouped ct m gs" and "gs \<noteq> [] \<Longrightarrow> \<not> joins ct m (merge_group ct m (last gs)) s"
  shows "grouped ct m (gs @ [[s]])"
  using assms by (auto simp: grouped_def successively_append_iff)

lemma grouped_join:
  assumes "grouped ct m (gs @ [g])" and "joins ct m (merge_group ct m g) s"
  shows "grouped ct m (gs @ [g @ [s]])"
proof -
  have g: "g \<noteq> []" using assms(1) by (auto simp: grouped_def)
  have "joins ct m (merge_group ct m (take k (g @ [s]))) ((g @ [s]) ! k)" if "0 < k" "k < length (g @ [s])" for k
  proof (cases "k < length g")
    case True
    then show ?thesis using that assms(1) by (simp add: grouped_def nth_append)
  next
    case False
    then have "k = length g" using that by simp
    then show ?thesis using assms(2) by simp
  qed
  then show ?thesis using assms(1) g by (auto simp: grouped_def successively_append_iff)
qed

lemma coalesce_loop_groups:
  assumes "0 < m" and "grouped ct m gs"
  shows "\<exists>gs'. concat gs' = concat gs @ ts \<and> grouped ct m gs' \<and>
    coalesce_loop ct m ts (map (merge_group ct m) gs) = map (merge_group ct m) gs'"
  using assms(2)
proof (induction ts arbitrary: gs)
  case (Cons s ts)
  obtain i hp dep t ns ch cl sm where s: "s = MkSection i hp dep t ns ch cl sm" by (cases s)
  let ?rs = "map (merge_group ct m) gs"
  show ?case
  proof (cases "gs \<noteq> [] \<and> joins ct m (merge_group ct m (last gs)) s")
    case True
    then obtain hs g where gs: "gs = hs @ [g]" by (cases gs rule: rev_cases) auto
    have g: "g \<noteq> []" using Cons.prems by (auto simp: gs grouped_def)
    have next_groups: "grouped ct m (hs @ [g @ [s]])" using True Cons.prems by (intro grouped_join) (simp_all add: gs)
    have "coalesce_loop ct m (s # ts) ?rs = coalesce_loop ct m ts (map (merge_group ct m) (hs @ [g @ [s]]))"
      using True g by (simp add: s gs joins_def merge_group_snoc)
    then show ?thesis using Cons.IH [OF next_groups] by (simp add: gs)
  next
    case False
    have next_groups: "grouped ct m (gs @ [[s]])" using False Cons.prems by (intro grouped_push) auto
    have "coalesce_loop ct m (s # ts) ?rs = coalesce_loop ct m ts (map (merge_group ct m) (gs @ [[s]]))"
      using False assms(1) by (auto simp: s joins_def last_map merge_group_def coalesce_children_def coalesce_small_sections_def)
    then show ?thesis using Cons.IH [OF next_groups] by simp
  qed
qed auto

text \<open>
  C15. Coalescing merges maximal groups of small neighbours and nothing else. With a threshold of zero the sections are returned
  as they are. With a positive one, whatever the tokenizer, the siblings in their order are cut into groups, and the
  result is one section per group: the first of the group with its children coalesced, the others merged into it in order
  (their text after their heading, their structural nodes and children appended; their claims are dropped). Every section after
  the first of its group has fewer tokens than the threshold, the depth of the first, and joins text that is still below
  the threshold; a section that starts a group could not join the one before. So the text of every section of the tree
  occurs in the text of a section of the result, and the structural nodes are the same up to their order.
\<close>

theorem coalesce_keeps_all:
  "coalesce_small_sections ct ts 0 = ts \<and>
   (0 < m \<longrightarrow> (\<exists>gs. concat gs = ts \<and> grouped ct m gs \<and> coalesce_small_sections ct ts m = map (merge_group ct m) gs)) \<and>
   kept_texts ts (coalesce_small_sections ct ts m) \<and>
   mset (all_nodes (coalesce_small_sections ct ts m)) = mset (all_nodes ts) \<and>
   set (all_ids (coalesce_small_sections ct ts m)) \<subseteq> set (all_ids ts)"
proof -
  have "grouped ct m []" by (simp add: grouped_def)
  from coalesce_loop_groups [OF _ this, of ts]
  have "0 < m \<longrightarrow> (\<exists>gs. concat gs = ts \<and> grouped ct m gs \<and> coalesce_small_sections ct ts m = map (merge_group ct m) gs)"
    by (simp add: coalesce_small_sections_def)
  then show ?thesis using coalesce_loop_keeps [of "[]" ts ct m] by (simp add: coalesce_small_sections_def)
qed

lemma coalesce_keeps_all_witness:
  "\<exists>gs. concat gs = [MkSection ''a'' [] 1 ''x'' [] [] [] None, MkSection ''b'' [] 1 ''y'' [] [] [] None] \<and> grouped length 50 gs \<and>
     coalesce_small_sections length [MkSection ''a'' [] 1 ''x'' [] [] [] None, MkSection ''b'' [] 1 ''y'' [] [] [] None] 50
       = map (merge_group length 50) gs"
  using coalesce_keeps_all [where ct = length and m = 50 and
      ts = "[MkSection ''a'' [] 1 ''x'' [] [] [] None, MkSection ''b'' [] 1 ''y'' [] [] [] None]"]
  by (elim conjE impE) (simp, assumption)

text \<open>The claims of a merged section are lost; the pipeline extracts claims after coalescing.\<close>

lemma merge_drops_claims: "sec_claims (merge_into a b) = sec_claims a"
  by (simp add: merge_into_def Let_def)

text \<open>
  The assembly parser loses no line: from the first label on the lines of the file are the lines of the labels' texts, one
  after the other, each starting with its label and going up to the next; the lines before are the header.
\<close>

theorem assembly_lossless:
  "\<exists>blocks. map al_text (extract_labels lines) = map (join [CHR 0x0A]) blocks \<and>
     lines = take (case extract_labels lines of [] \<Rightarrow> length lines | l # _ \<Rightarrow> al_line_start l) lines @ concat blocks \<and>
     list_all (\<lambda>b. b \<noteq> [] \<and> is_label (hd b) \<and> list_all (\<lambda>l. \<not> is_label l) (tl b)) blocks"
proof (rule exI [of _ "label_blocks lines"], intro conjI)
  show "map al_text (extract_labels lines) = map (join [CHR 0x0A]) (label_blocks lines)"
    by (simp add: extract_labels_def label_blocks_labels)
  have "lines = take (length (takeWhile (\<lambda>x. \<not> is_label x) lines)) lines @ dropWhile (\<lambda>x. \<not> is_label x) lines"
    by (metis takeWhile_dropWhile_id takeWhile_eq_take)
  then show "lines = take (case extract_labels lines of [] \<Rightarrow> length lines | l # _ \<Rightarrow> al_line_start l) lines @ concat (label_blocks lines)"
    using first_label_line [where lines = lines and i = 0 and rest = lines] by (simp only: extract_labels_def label_blocks_lines add_0)
  show "list_all (\<lambda>b. b \<noteq> [] \<and> is_label (hd b) \<and> list_all (\<lambda>l. \<not> is_label l) (tl b)) (label_blocks lines)"
    using label_blocks_head by (auto simp: list_all_iff)
qed

end
