(* ===== verification/Calls.thy ===== *)
theory Calls
  imports Sql
begin

text \<open>
  Procedures that make storage calls one after the other, as the ingestion code does. The procedure is a function of
  the number of calls made so far and the state, so that the call with number \<open>n\<close> has faults of its own,
  \<open>F n\<close>. \<open>call_try\<close> is the \<open>?\<close> operator; a call whose result is ignored (\<open>let _ = ...\<close>) is followed by \<open>call_then\<close>.
\<close>

section \<open>Procedures\<close>

type_synonym ('d, 'a) calls = "nat \<Rightarrow> 'd \<Rightarrow> nat \<times> 'd \<times> 'a"

definition call_ret :: "'a \<Rightarrow> ('d, 'a) calls" where
  "call_ret a = (\<lambda>n d. (n, d, a))"

definition call_then :: "('d, 'a) calls \<Rightarrow> ('a \<Rightarrow> ('d, 'b) calls) \<Rightarrow> ('d, 'b) calls" where
  "call_then m k = (\<lambda>n d. case m n d of (n', d', a) \<Rightarrow> k a n' d')"

definition call_try :: "('d, 'e + 'a) calls \<Rightarrow> ('a \<Rightarrow> ('d, 'e + 'b) calls) \<Rightarrow> ('d, 'e + 'b) calls" where
  "call_try m k = call_then m (\<lambda>r. case r of Inl e \<Rightarrow> call_ret (Inl e) | Inr a \<Rightarrow> k a)"

definition map_err :: "('e \<Rightarrow> 'f) \<Rightarrow> 'e + 'a \<Rightarrow> 'f + 'a" where
  "map_err g r = (case r of Inl e \<Rightarrow> Inl (g e) | Inr a \<Rightarrow> Inr a)"

text \<open>A step that makes no storage call.\<close>

definition call_do :: "('d \<Rightarrow> 'd \<times> 'a) \<Rightarrow> ('d, 'a) calls" where
  "call_do g = (\<lambda>n d. case g d of (d', a) \<Rightarrow> (n, d', a))"

text \<open>A storage call that writes, and one that only reads.\<close>

definition storage :: "(nat \<Rightarrow> sql_faults) \<Rightarrow> (sql_faults \<Rightarrow> 'd \<Rightarrow> 'd \<times> 'a) \<Rightarrow> ('d, 'a) calls" where
  "storage F op = (\<lambda>n d. case op (F n) d of (d', a) \<Rightarrow> (Suc n, d', a))"

definition storage_read :: "(nat \<Rightarrow> sql_faults) \<Rightarrow> (sql_faults \<Rightarrow> 'd \<Rightarrow> 'a) \<Rightarrow> ('d, 'a) calls" where
  "storage_read F q = storage F (\<lambda>f d. (d, q f d))"

text \<open>Loops: with a state of their own, and with early return of an error.\<close>

primrec call_fold :: "('r \<Rightarrow> 's \<Rightarrow> ('d, 's) calls) \<Rightarrow> 'r list \<Rightarrow> 's \<Rightarrow> ('d, 's) calls" where
  "call_fold st [] s = call_ret s"
| "call_fold st (r # rs) s = call_then (st r s) (call_fold st rs)"

primrec call_loop :: "('r \<Rightarrow> 's \<Rightarrow> ('d, 'e + 's) calls) \<Rightarrow> 'r list \<Rightarrow> 's \<Rightarrow> ('d, 'e + 's) calls" where
  "call_loop st [] s = call_ret (Inr s)"
| "call_loop st (r # rs) s = call_try (st r s) (call_loop st rs)"

definition all_fine :: "nat \<Rightarrow> sql_faults" where
  "all_fine n = no_faults"

section \<open>Laws\<close>

named_theorems call_simps \<open>unfolding of the combinators\<close>

lemmas [call_simps] = call_ret_def call_then_def call_try_def call_do_def storage_def storage_read_def map_err_def

lemma map_err_Inr [simp]: "map_err g r = Inr a \<longleftrightarrow> r = Inr a"
  by (cases r) (simp_all add: map_err_def)

lemma map_err_simps [simp]: "map_err g (Inl e) = Inl (g e)" "map_err g (Inr a) = Inr a"
  by (simp_all add: map_err_def)

text \<open>What every step of a procedure respects, the procedure respects.\<close>

locale call_relation =
  fixes R :: "'d \<Rightarrow> 'd \<Rightarrow> bool"
  assumes R_refl: "R d d"
    and R_trans: "R a b \<Longrightarrow> R b c \<Longrightarrow> R a c"
begin

definition steady :: "('d, 'a) calls \<Rightarrow> bool" where
  "steady m \<longleftrightarrow> (\<forall>n d. R d (fst (snd (m n d))))"

lemma steadyD: "steady m \<Longrightarrow> m n d = (n', d', a) \<Longrightarrow> R d d'"
  unfolding steady_def by (metis fst_conv snd_conv)

lemma steady_ret: "steady (call_ret a)"
  by (simp add: steady_def call_ret_def R_refl)

lemma steady_do: "(\<And>d. R d (fst (g d))) \<Longrightarrow> steady (call_do g)"
  by (simp add: steady_def call_do_def split: prod.split)

lemma steady_storage: "(\<And>f d. R d (fst (op f d))) \<Longrightarrow> steady (storage F op)"
  by (simp add: steady_def storage_def split: prod.split)

lemma steady_read: "steady (storage_read F q)"
  unfolding storage_read_def by (rule steady_storage) (simp add: R_refl)

lemma steady_then:
  assumes "steady m" and "\<And>a. steady (k a)"
  shows "steady (call_then m k)"
  unfolding steady_def
proof (intro allI)
  fix n d
  obtain n' d' a where m: "m n d = (n', d', a)" by (metis prod_cases3)
  obtain n2 d2 b where k: "k a n' d' = (n2, d2, b)" by (metis prod_cases3)
  show "R d (fst (snd (call_then m k n d)))"
    using R_trans [OF steadyD [OF assms(1) m] steadyD [OF assms(2) k]] by (simp add: call_then_def m k)
qed

lemma steady_try: "steady m \<Longrightarrow> (\<And>a. steady (k a)) \<Longrightarrow> steady (call_try m k)"
  unfolding call_try_def by (rule steady_then) (auto split: sum.split intro: steady_ret)

lemma steady_fold: "(\<And>r s. r \<in> set rs \<Longrightarrow> steady (st r s)) \<Longrightarrow> steady (call_fold st rs s)"
  by (induction rs arbitrary: s) (simp_all add: steady_ret steady_then)

lemma steady_loop: "(\<And>r s. r \<in> set rs \<Longrightarrow> steady (st r s)) \<Longrightarrow> steady (call_loop st rs s)"
  by (induction rs arbitrary: s) (simp_all add: steady_ret steady_try)

lemmas steady_intros = steady_ret steady_do steady_storage steady_read steady_then steady_try steady_fold steady_loop

end

text \<open>How a procedure that succeeds got there.\<close>

lemma call_try_Inr:
  "call_try m k n d = (n', d', Inr b) \<longleftrightarrow> (\<exists>n1 d1 a. m n d = (n1, d1, Inr a) \<and> k a n1 d1 = (n', d', Inr b))"
  by (auto simp: call_try_def call_then_def call_ret_def split: prod.splits sum.splits)

lemma call_try_Inl:
  "call_try m k n d = (n', d', Inl e) \<longleftrightarrow>
     m n d = (n', d', Inl e) \<or> (\<exists>n1 d1 a. m n d = (n1, d1, Inr a) \<and> k a n1 d1 = (n', d', Inl e))"
  by (auto simp: call_try_def call_then_def call_ret_def split: prod.splits sum.splits)

lemma call_then_result: "call_then m k n d = (n', d', b) \<longleftrightarrow> (\<exists>n1 d1 a. m n d = (n1, d1, a) \<and> k a n1 d1 = (n', d', b))"
  by (auto simp: call_then_def split: prod.splits)

lemma storage_result: "storage F op n d = (n', d', a) \<longleftrightarrow> n' = Suc n \<and> op (F n) d = (d', a)"
  by (auto simp: storage_def split: prod.splits)

lemma storage_read_result: "storage_read F q n d = (n', d', a) \<longleftrightarrow> n' = Suc n \<and> d' = d \<and> a = q (F n) d"
  by (auto simp: storage_read_def storage_result)

lemma call_ret_result: "call_ret a n d = (n', d', b) \<longleftrightarrow> n' = n \<and> d' = d \<and> b = a"
  by (auto simp: call_ret_def)

lemma call_do_result: "call_do g n d = (n', d', b) \<longleftrightarrow> n' = n \<and> g d = (d', b)"
  by (auto simp: call_do_def split: prod.splits)

lemmas call_results = call_try_Inr call_try_Inl call_then_result storage_result storage_read_result call_ret_result call_do_result

end
