(* ===== verification/Symbol_Refs.thy ===== *)
theory Symbol_Refs
  imports Calls Sections Symbol_Store
begin

text \<open>
  Symbols of code files and the references between them: \<open>ministr-core/src/ingestion/symbols.rs\<close>, the package graph of
  \<open>code/package_graph.rs\<close> and the two procedures of \<open>ingestion/pipeline.rs\<close> that resolve references again. What the
  tree-sitter grammars and the fallback scanners find in a file is an argument (\<open>parsed_code\<close>), as are the
  table of the languages by file extension and the reading of files.
\<close>

section \<open>Packages\<close>

record package_info =
  pk_name :: string
  pk_crate_name :: string
  pk_dir_prefix :: string

type_synonym package_graph = "package_info list"

text \<open>\<open>Path::strip_prefix\<close> on paths without a trailing separator.\<close>

definition path_strip_prefix :: "string \<Rightarrow> string \<Rightarrow> string option" where
  "path_strip_prefix base p =
     (if p = base then Some []
      else if begins_with p (base @ ''/'') then Some (drop (Suc (length base)) p) else None)"

definition underscored :: "string \<Rightarrow> string" where
  "underscored n = map (\<lambda>c. if c = CHR ''-'' then CHR ''_'' else c) n"

text \<open>\<open>read_name\<close> reads \<open>[package] name\<close> of the \<open>Cargo.toml\<close> in a directory.\<close>

definition from_cargo_workspace :: "(string \<Rightarrow> string option) \<Rightarrow> string \<Rightarrow> string list \<Rightarrow> package_graph" where
  "from_cargo_workspace read_name base members =
     List.map_filter (\<lambda>dir. map_option
       (\<lambda>n. \<lparr>pk_name = n, pk_crate_name = underscored n,
             pk_dir_prefix = (case path_strip_prefix base dir of None \<Rightarrow> dir | Some r \<Rightarrow> r)\<rparr>)
       (read_name dir)) members"

definition dir_prefix_for_crate :: "package_graph \<Rightarrow> string \<Rightarrow> string option" where
  "dir_prefix_for_crate g crate_name = map_option pk_dir_prefix (find (\<lambda>p. pk_crate_name p = crate_name) g)"

definition package_for_file :: "package_graph \<Rightarrow> string \<Rightarrow> string option" where
  "package_for_file g path = map_option pk_name (find (\<lambda>p. begins_with path (pk_dir_prefix p)) g)"

definition add_package :: "package_graph \<Rightarrow> package_info \<Rightarrow> package_graph" where
  "add_package g info = filter (\<lambda>p. pk_crate_name p \<noteq> pk_crate_name info) g @ [info]"

text \<open>\<open>detect\<close> finds the members of a workspace.\<close>

definition from_cloned_repo ::
    "(string \<Rightarrow> string option) \<Rightarrow> (string \<Rightarrow> string list option) \<Rightarrow> string \<Rightarrow> package_graph" where
  "from_cloned_repo read_name detect clone_dir =
     (case detect clone_dir of
        Some members \<Rightarrow> from_cargo_workspace read_name clone_dir members
      | None \<Rightarrow>
          (case read_name clone_dir of
             None \<Rightarrow> []
           | Some n \<Rightarrow> [\<lparr>pk_name = n, pk_crate_name = underscored n, pk_dir_prefix = clone_dir\<rparr>]))"

record package_edge =
  pg_from_package :: string
  pg_to_package :: string
  pg_ref_count :: nat

definition edge_of :: "package_graph \<Rightarrow> string \<times> string \<Rightarrow> (string \<times> string) option" where
  "edge_of g pair =
     (case (package_for_file g (fst pair), package_for_file g (snd pair)) of
        (Some a, Some b) \<Rightarrow> if a \<noteq> b then Some (a, b) else None
      | _ \<Rightarrow> None)"

definition count_edge :: "package_graph \<Rightarrow> string \<times> string \<Rightarrow> ((string \<times> string) \<times> nat) list \<Rightarrow> ((string \<times> string) \<times> nat) list" where
  "count_edge g pair counts =
     (case edge_of g pair of
        None \<Rightarrow> counts
      | Some e \<Rightarrow> AList.update e (Suc (case map_of counts e of None \<Rightarrow> 0 | Some n \<Rightarrow> n)) counts)"

text \<open>\<open>it\<close> is the iteration order of the hash map.\<close>

definition compute_edges ::
    "(((string \<times> string) \<times> nat) list \<Rightarrow> ((string \<times> string) \<times> nat) list) \<Rightarrow> package_graph \<Rightarrow> (string \<times> string) list \<Rightarrow> package_edge list" where
  "compute_edges it g ref_pairs =
     sort_key (\<lambda>e. (pg_from_package e, pg_to_package e))
       (map (\<lambda>((a, b), n). \<lparr>pg_from_package = a, pg_to_package = b, pg_ref_count = n\<rparr>) (it (fold (count_edge g) ref_pairs [])))"

section \<open>Symbols and raw references\<close>

datatype item_kind = Function | Struct | Enum | Trait | Impl | Module | TypeAlias | Const | Static

fun item_kind_str :: "item_kind \<Rightarrow> string" where
  "item_kind_str Function = ''function''"
| "item_kind_str Struct = ''struct''"
| "item_kind_str Enum = ''enum''"
| "item_kind_str Trait = ''trait''"
| "item_kind_str Impl = ''impl''"
| "item_kind_str Module = ''module''"
| "item_kind_str TypeAlias = ''type''"
| "item_kind_str Const = ''const''"
| "item_kind_str Static = ''static''"

datatype visibility = Public | PubCrate | PubSuper | PubIn string | Private

fun visibility_str :: "visibility \<Rightarrow> string" where
  "visibility_str Public = ''pub''"
| "visibility_str PubCrate = ''pub(crate)''"
| "visibility_str PubSuper = ''pub(super)''"
| "visibility_str (PubIn path) = ''pub(in)''"
| "visibility_str Private = ''''"

text \<open>\<open>Symbol\<close> with the complexity of its syntax node.\<close>

record code_symbol =
  sb_name :: string
  sb_kind :: item_kind
  sb_visibility :: visibility
  sb_signature :: string
  sb_doc_comment :: "string option"
  sb_start :: nat
  sb_end :: nat
  sb_module_path :: "string list"
  sb_complexity :: "nat option"

record raw_ref =
  ra_target_name :: string
  ra_kind :: ref_kind
  ra_line :: nat
  ra_from_context :: "string option"
  ra_target_crate :: "string option"

record pending_ref =
  pe_from_id :: string
  pe_target_name :: string
  pe_kind :: ref_kind
  pe_file_path :: string
  pe_target_crate :: "string option"

text \<open>What a file parses to: a shader or a C file the grammar failed on yields finished records, another file a
  syntax tree with its symbols and references, or nothing.\<close>

datatype parsed_code =
    NoTree
  | Shader "symbol_record list"
  | CppFallback "symbol_record list"
  | Tree "code_symbol list" "raw_ref list"

section \<open>Resolution\<close>

definition prefer_other_file :: "string \<Rightarrow> symbol_record list \<Rightarrow> symbol_record" where
  "prefer_other_file path xs = (case find (\<lambda>s. sy_file_path s \<noteq> path) xs of Some s \<Rightarrow> s | None \<Rightarrow> hd xs)"

definition in_dir :: "symbol_record list \<Rightarrow> string option \<Rightarrow> symbol_record list" where
  "in_dir primary dir = (case dir of None \<Rightarrow> [] | Some p \<Rightarrow> filter (\<lambda>s. begins_with (sy_file_path s) p) primary)"

definition crate_dir :: "string option \<Rightarrow> package_graph option \<Rightarrow> string option" where
  "crate_dir target_crate graph = Option.bind target_crate (\<lambda>tc. Option.bind graph (\<lambda>g. dir_prefix_for_crate g tc))"

definition source_dir :: "string \<Rightarrow> package_graph option \<Rightarrow> string option" where
  "source_dir path graph = Option.bind graph (\<lambda>g. Option.bind (package_for_file g path) (dir_prefix_for_crate g))"

definition disambiguate_target ::
    "symbol_record list \<Rightarrow> string \<Rightarrow> string option \<Rightarrow> package_graph option \<Rightarrow> symbol_record option" where
  "disambiguate_target primary path target_crate graph =
     (case primary of
        [] \<Rightarrow> None
      | [s] \<Rightarrow> Some s
      | _ \<Rightarrow>
          (let crate_filtered = in_dir primary (crate_dir target_crate graph); same_pkg = in_dir primary (source_dir path graph)
           in if length crate_filtered = 1 then Some (hd crate_filtered)
              else if crate_filtered \<noteq> [] then Some (prefer_other_file path crate_filtered)
              else if same_pkg \<noteq> [] then Some (prefer_other_file path same_pkg)
              else Some (prefer_other_file path primary)))"

definition owner_kinds :: "string list" where
  "owner_kinds = [''function'', ''method'', ''impl'', ''mod'']"

definition closer :: "nat \<Rightarrow> symbol_record \<Rightarrow> symbol_record option \<Rightarrow> symbol_record option" where
  "closer line s best =
     (if line < sy_line_start s \<or> sy_line_end s < line \<or> sy_kind s \<notin> set owner_kinds then best
      else
        (case best of
           None \<Rightarrow> Some s
         | Some b \<Rightarrow> if sy_line_end s - sy_line_start s < sy_line_end b - sy_line_start b then Some s else best))"

definition enclosing_symbol_id :: "symbol_record list \<Rightarrow> nat \<Rightarrow> string option" where
  "enclosing_symbol_id local line = map_option sy_id (fold (closer line) local None)"

definition primary_kinds :: "string list" where
  "primary_kinds = [''struct'', ''enum'', ''trait'', ''function'', ''type'', ''const'', ''static'', ''module'']"

definition filter_primary :: "symbol_record list \<Rightarrow> symbol_record list" where
  "filter_primary matches = filter (\<lambda>s. sy_kind s \<in> set primary_kinds) matches"

text \<open>\<open>Path::extension\<close> of a file path.\<close>

definition path_extension :: "string \<Rightarrow> string option" where
  "path_extension p =
     (case rsplit_once ''.'' (rev (takeWhile (\<lambda>c. c \<noteq> CHR ''/'') (rev p))) of
        None \<Rightarrow> None
      | Some (stem, ext) \<Rightarrow> if stem = [] \<or> stem = ''.'' \<and> ext = [] then None else Some ext)"

definition language_family :: "string \<Rightarrow> string" where
  "language_family l =
     (if l \<in> {''javascript'', ''typescript'', ''tsx''} then ''js_ts''
      else if l \<in> {''c'', ''cpp''} then ''c_cpp'' else l)"

text \<open>\<open>lang\<close> is \<open>language_name_for_extension\<close> of the grammar registry.\<close>

definition languages_compatible :: "(string \<Rightarrow> string option) \<Rightarrow> string \<Rightarrow> string \<Rightarrow> bool" where
  "languages_compatible lang source_path target_path =
     (case (Option.bind (path_extension source_path) lang, Option.bind (path_extension target_path) lang) of
        (Some a, Some b) \<Rightarrow> language_family a = language_family b
      | _ \<Rightarrow> False)"

definition no_filter :: symbol_filter where
  "no_filter = \<lparr>sf_name = None, sf_name_exact = None, sf_kind = None, sf_visibility = None, sf_module = None, sf_file_path = None\<rparr>"

definition source_kinds :: "string list" where
  "source_kinds = [''struct'', ''enum'', ''trait'', ''function'', ''type'']"

definition file_anchor :: "symbol_record list \<Rightarrow> string option" where
  "file_anchor local =
     map_option sy_id
       (case find (\<lambda>s. sy_kind s = ''module'') local of
          Some s \<Rightarrow> Some s
        | None \<Rightarrow>
            (case find (\<lambda>s. sy_kind s \<in> set source_kinds) local of
               Some s \<Rightarrow> Some s
             | None \<Rightarrow> (case local of [] \<Rightarrow> None | s # _ \<Rightarrow> Some s)))"

definition or_else :: "'a option \<Rightarrow> 'a option \<Rightarrow> 'a option" where
  "or_else a b = (case a of None \<Rightarrow> b | Some x \<Rightarrow> Some x)"

definition ref_source :: "symbol_record list \<Rightarrow> raw_ref \<Rightarrow> string option" where
  "ref_source local raw =
     or_else
       (case ra_from_context raw of
          None \<Rightarrow> None
        | Some ctx \<Rightarrow> map_option sy_id (find (\<lambda>s. sy_name s = ctx \<and> sy_kind s \<in> set source_kinds) local))
       (or_else (enclosing_symbol_id local (ra_line raw)) (file_anchor local))"

definition candidates :: "(string \<Rightarrow> string option) \<Rightarrow> string \<Rightarrow> symbol_record list \<Rightarrow> symbol_record list" where
  "candidates lang path matches = filter_primary (filter (\<lambda>s. languages_compatible lang path (sy_file_path s)) matches)"

definition resolve_raw ::
    "(nat \<Rightarrow> sql_faults) \<Rightarrow> char_tables \<Rightarrow> (string \<Rightarrow> string option) \<Rightarrow> string \<Rightarrow> symbol_record list \<Rightarrow> package_graph option
       \<Rightarrow> raw_ref \<Rightarrow> symbol_ref_record list \<times> pending_ref list
       \<Rightarrow> ('a symbol_tables_scheme, symbol_ref_record list \<times> pending_ref list) calls" where
  "resolve_raw F T lang path local graph raw st =
     (case st of (resolved, pending) \<Rightarrow>
        (case ref_source local raw of
           None \<Rightarrow> call_ret st
         | Some from_id \<Rightarrow>
             call_then (storage_read F (\<lambda>f. list_symbols f T (no_filter\<lparr>sf_name_exact := Some (ra_target_name raw)\<rparr>)))
             (\<lambda>r. case r of
                Inl _ \<Rightarrow> call_ret st
              | Inr matches \<Rightarrow>
                  (case disambiguate_target (candidates lang path matches) path (ra_target_crate raw) graph of
                     None \<Rightarrow>
                       call_ret (resolved, pending @ [\<lparr>pe_from_id = from_id, pe_target_name = ra_target_name raw,
                         pe_kind = ra_kind raw, pe_file_path = path, pe_target_crate = ra_target_crate raw\<rparr>])
                   | Some target \<Rightarrow>
                       if from_id = sy_id target \<or> from_id \<notin> sy_id ` set local then call_ret st
                       else call_ret (resolved @ [\<lparr>rf_from_symbol_id = from_id, rf_to_symbol_id = sy_id target,
                         rf_ref_kind = ra_kind raw\<rparr>], pending)))))"

text \<open>Each reference is stored by a call of its own; one that fails is dropped.\<close>

definition store_ref :: "(nat \<Rightarrow> sql_faults) \<Rightarrow> symbol_ref_record \<Rightarrow> nat \<Rightarrow> ('a symbol_tables_scheme, nat) calls" where
  "store_ref F r inserted =
     call_then (storage F (\<lambda>f. insert_symbol_refs f [r]))
     (\<lambda>res. call_ret (if isl res then inserted else Suc inserted))"

definition resolve_and_store_refs ::
    "(nat \<Rightarrow> sql_faults) \<Rightarrow> char_tables \<Rightarrow> (string \<Rightarrow> string option) \<Rightarrow> raw_ref list \<Rightarrow> string \<Rightarrow> symbol_record list
       \<Rightarrow> package_graph option \<Rightarrow> ('a symbol_tables_scheme, pending_ref list) calls" where
  "resolve_and_store_refs F T lang raw_refs path local graph =
     (if raw_refs = [] then call_ret []
      else
        call_then (storage F (\<lambda>f. delete_refs_for_file f path))
        (\<lambda>_. call_then (call_fold (resolve_raw F T lang path local graph) raw_refs ([], []))
        (\<lambda>(resolved, pending). call_then (call_fold (store_ref F) resolved 0)
        (\<lambda>_. call_ret pending))))"

definition resolve_pending ::
    "(nat \<Rightarrow> sql_faults) \<Rightarrow> char_tables \<Rightarrow> (string \<Rightarrow> string option) \<Rightarrow> package_graph option \<Rightarrow> pending_ref
       \<Rightarrow> nat \<times> pending_ref list \<Rightarrow> ('a symbol_tables_scheme, nat \<times> pending_ref list) calls" where
  "resolve_pending F T lang graph pr st =
     (case st of (resolved, unresolved) \<Rightarrow>
        call_then (storage_read F (\<lambda>f. list_symbols f T (no_filter\<lparr>sf_name_exact := Some (pe_target_name pr)\<rparr>)))
        (\<lambda>r. case r of
           Inl _ \<Rightarrow> call_ret st
         | Inr matches \<Rightarrow>
             (case disambiguate_target (candidates lang (pe_file_path pr) matches) (pe_file_path pr) (pe_target_crate pr) graph of
                None \<Rightarrow> call_ret (resolved, unresolved @ [pr])
              | Some target \<Rightarrow>
                  if pe_from_id pr = sy_id target then call_ret st
                  else
                    call_then (store_ref F \<lparr>rf_from_symbol_id = pe_from_id pr, rf_to_symbol_id = sy_id target,
                                            rf_ref_kind = pe_kind pr\<rparr> resolved)
                    (\<lambda>n. call_ret (n, unresolved)))))"

definition resolve_pending_refs ::
    "(nat \<Rightarrow> sql_faults) \<Rightarrow> char_tables \<Rightarrow> (string \<Rightarrow> string option) \<Rightarrow> pending_ref list \<Rightarrow> package_graph option
       \<Rightarrow> ('a symbol_tables_scheme, nat \<times> pending_ref list) calls" where
  "resolve_pending_refs F T lang pending graph = call_fold (resolve_pending F T lang graph) pending (0, [])"

text \<open>The kind is written with \<open>Debug\<close>.\<close>

fun ref_kind_debug :: "ref_kind \<Rightarrow> string" where
  "ref_kind_debug Calls = ''Calls''"
| "ref_kind_debug Implements = ''Implements''"
| "ref_kind_debug Imports = ''Imports''"
| "ref_kind_debug Uses = ''Uses''"
| "ref_kind_debug Bridge = ''Bridge''"

definition persist_pending_refs :: "(nat \<Rightarrow> sql_faults) \<Rightarrow> pending_ref list \<Rightarrow> ('a symbol_tables_scheme, unit) calls" where
  "persist_pending_refs F pending =
     (if pending = [] then call_ret ()
      else
        call_then (storage F (\<lambda>f. upsert_pending_refs f
          (map (\<lambda>p. \<lparr>pr_from_symbol_id = pe_from_id p, pr_target_name = pe_target_name p, pr_kind = ref_kind_debug (pe_kind p),
                      pr_file_path = pe_file_path p, pr_target_crate = pe_target_crate p\<rparr>) pending)))
        (\<lambda>_. call_ret ()))"

section \<open>Repair\<close>

definition extract_trait_from_impl_signature :: "string \<Rightarrow> string option" where
  "extract_trait_from_impl_signature sig =
     (if \<not> begins_with sig ''impl '' then None
      else
        (case split_once '' for '' (drop 5 sig) of
           None \<Rightarrow> None
         | Some (trait_part, _) \<Rightarrow>
             (let n = str_trim (hd (split_on (CHR ''<'') trait_part)) in if n = [] then None else Some n)))"

definition extract_type_from_impl_signature :: "string \<Rightarrow> string option" where
  "extract_type_from_impl_signature sig =
     (case split_once '' for '' sig of
        None \<Rightarrow> None
      | Some (_, type_part) \<Rightarrow>
          (let n = str_trim (takeWhile (\<lambda>c. c \<notin> {CHR ''<'', CHR 0x0A, CHR 0x7B}) type_part) in if n = [] then None else Some n))"

definition repair_impl :: "(nat \<Rightarrow> sql_faults) \<Rightarrow> char_tables \<Rightarrow> symbol_record \<Rightarrow> nat \<Rightarrow> ('a symbol_tables_scheme, nat) calls" where
  "repair_impl F T imp repaired =
     (case (extract_trait_from_impl_signature (sy_signature imp), extract_type_from_impl_signature (sy_signature imp)) of
        (Some trait_name, Some type_name) \<Rightarrow>
          call_then (storage_read F (\<lambda>f. list_symbols f T
            (no_filter\<lparr>sf_name_exact := Some type_name, sf_file_path := Some (sy_file_path imp)\<rparr>)))
          (\<lambda>r. case r of
             Inr (from_sym # _) \<Rightarrow>
               call_then (storage_read F (\<lambda>f. list_symbols f T
                 (no_filter\<lparr>sf_name_exact := Some trait_name, sf_kind := Some ''trait''\<rparr>)))
               (\<lambda>r. case r of
                  Inr (to_sym # _) \<Rightarrow>
                    call_then (storage_read F (\<lambda>f. query_refs f (sy_id from_sym) (Some Implements)))
                    (\<lambda>r. case r of
                       Inl _ \<Rightarrow> call_ret repaired
                     | Inr existing \<Rightarrow>
                         if list_ex (\<lambda>x. rf_to_symbol_id x = sy_id to_sym) existing then call_ret repaired
                         else store_ref F \<lparr>rf_from_symbol_id = sy_id from_sym, rf_to_symbol_id = sy_id to_sym,
                                           rf_ref_kind = Implements\<rparr> repaired)
                | _ \<Rightarrow> call_ret repaired)
           | _ \<Rightarrow> call_ret repaired)
      | _ \<Rightarrow> call_ret repaired)"

definition repair_missing_refs :: "(nat \<Rightarrow> sql_faults) \<Rightarrow> char_tables \<Rightarrow> ('a symbol_tables_scheme, unit) calls" where
  "repair_missing_refs F T =
     call_then (storage_read F (\<lambda>f. list_symbols f T (no_filter\<lparr>sf_kind := Some ''impl''\<rparr>)))
     (\<lambda>r. case r of
        Inl _ \<Rightarrow> call_ret ()
      | Inr impls \<Rightarrow> call_then (call_fold (repair_impl F T) impls 0) (\<lambda>_. call_ret ()))"

section \<open>Extraction\<close>

text \<open>\<open>slice_lines\<close>: the offsets of the first byte and of the end of the range, found by one scan.\<close>

fun slice_scan :: "nat \<Rightarrow> nat \<Rightarrow> nat \<Rightarrow> nat \<Rightarrow> nat option \<Rightarrow> string \<Rightarrow> nat option \<times> nat option" where
  "slice_scan first fin i line start [] = (start, None)"
| "slice_scan first fin i line start (b # bs) =
     (if b \<noteq> CHR 0x0A then slice_scan first fin (Suc i) line start bs
      else
        (let line' = Suc line; start' = (if start = None \<and> line' = first then Some (Suc i) else start)
         in if fin < line' then (start', Some i) else slice_scan first fin (Suc i) line' start' bs))"

definition slice_lines :: "string \<Rightarrow> nat \<Rightarrow> nat \<Rightarrow> string option" where
  "slice_lines bytes start_line end_line =
     (if start_line = 0 \<or> end_line < start_line then None
      else
        (case slice_scan start_line end_line 0 1 (if start_line = 1 then Some 0 else None) bytes of
           (None, _) \<Rightarrow> None
         | (Some start, end_off) \<Rightarrow>
             (let stop = (case end_off of None \<Rightarrow> length bytes | Some e \<Rightarrow> e)
              in if stop < start then None else Some (take (stop - start) (drop start bytes)))))"

record code_symbols_result =
  cy_pending_refs :: "pending_ref list"
  cy_embedding_pairs :: "(vector_id \<times> string) list"

definition empty_result :: code_symbols_result where
  "empty_result = \<lparr>cy_pending_refs = [], cy_embedding_pairs = []\<rparr>"

definition nonblank_pairs :: "(vector_id \<times> string) list \<Rightarrow> (vector_id \<times> string) list" where
  "nonblank_pairs ps = filter (\<lambda>p. str_trim (snd p) \<noteq> []) ps"

definition recovered_pairs :: "string \<Rightarrow> symbol_record \<Rightarrow> (vector_id \<times> string) list" where
  "recovered_pairs content s =
     nonblank_pairs ((vid_symbol_stub (sy_id s), if str_trim (sy_signature s) = [] then sy_name s else sy_signature s)
       # (case slice_lines content (sy_line_start s) (sy_line_end s) of None \<Rightarrow> [] | Some t \<Rightarrow> [(vid_symbol_full (sy_id s), t)]))"

definition store_recovered ::
    "(nat \<Rightarrow> sql_faults) \<Rightarrow> string \<Rightarrow> string \<Rightarrow> symbol_record list
       \<Rightarrow> ('a symbol_tables_scheme, store_error + code_symbols_result) calls" where
  "store_recovered F path content symbols =
     call_then (storage F (\<lambda>f. delete_symbols_for_file f path))
     (\<lambda>_. if symbols = [] then call_ret (Inr empty_result)
          else
            call_try (storage F (\<lambda>f. insert_symbols f symbols))
            (\<lambda>_. call_ret (Inr \<lparr>cy_pending_refs = [], cy_embedding_pairs = concat (map (recovered_pairs content) symbols)\<rparr>)))"

definition symbol_id_of :: "string \<Rightarrow> code_symbol \<Rightarrow> string" where
  "symbol_id_of path s =
     (let qualified_name = (if sb_kind s = Impl then ''impl-'' @ sb_name s else sb_name s); module_str = join ''::'' (sb_module_path s)
      in if module_str = [] then ''sym-'' @ path @ ''::'' @ qualified_name
         else ''sym-'' @ path @ ''::'' @ module_str @ ''::'' @ qualified_name)"

definition line_at :: "string \<Rightarrow> nat \<Rightarrow> nat" where
  "line_at content pos = add_u32 (length (filter (\<lambda>c. c = CHR 0x0A) (take pos content))) 1"

definition symbol_record_of :: "string \<Rightarrow> string \<Rightarrow> code_symbol \<Rightarrow> symbol_record" where
  "symbol_record_of path content s =
     \<lparr>sy_id = symbol_id_of path s, sy_file_path = path, sy_name = sb_name s, sy_kind = item_kind_str (sb_kind s),
      sy_visibility = visibility_str (sb_visibility s), sy_signature = sb_signature s, sy_doc_comment = sb_doc_comment s,
      sy_module_path = join ''::'' (sb_module_path s), sy_line_start = line_at content (sb_start s),
      sy_line_end = line_at content (sb_end s),
      sy_cyclomatic_complexity = (if sb_kind s = Function then sb_complexity s else None)\<rparr>"

definition symbol_pairs :: "string \<Rightarrow> string \<Rightarrow> code_symbol \<Rightarrow> (vector_id \<times> string) list" where
  "symbol_pairs path content s =
     nonblank_pairs
       [(vid_symbol_stub (symbol_id_of path s),
         case sb_doc_comment s of None \<Rightarrow> sb_signature s | Some doc \<Rightarrow> sb_signature s @ [CHR 0x0A] @ doc),
        (vid_symbol_full (symbol_id_of path s), take (sb_end s - sb_start s) (drop (sb_start s) content))]"

definition extract_code_symbols ::
    "(nat \<Rightarrow> sql_faults) \<Rightarrow> char_tables \<Rightarrow> (string \<Rightarrow> string option) \<Rightarrow> string \<Rightarrow> string \<Rightarrow> parsed_code \<Rightarrow> package_graph option
       \<Rightarrow> ('a symbol_tables_scheme, store_error + code_symbols_result) calls" where
  "extract_code_symbols F T lang path content parsed graph =
     (case parsed of
        NoTree \<Rightarrow> call_ret (Inr empty_result)
      | Shader symbols \<Rightarrow> store_recovered F path content symbols
      | CppFallback symbols \<Rightarrow> store_recovered F path content symbols
      | Tree symbols raw_refs \<Rightarrow>
          if symbols = [] then call_ret (Inr empty_result)
          else
            (let records = map (symbol_record_of path content) symbols
             in call_then (storage F (\<lambda>f. delete_symbols_for_file f path))
                (\<lambda>_. call_try (storage F (\<lambda>f. insert_symbols f records))
                (\<lambda>_. call_then (resolve_and_store_refs F T lang raw_refs path records graph)
                (\<lambda>pending. call_ret (Inr \<lparr>cy_pending_refs = pending,
                                         cy_embedding_pairs = concat (map (symbol_pairs path content) symbols)\<rparr>))))))"

section \<open>Resolving again\<close>

definition RESOLVER_VERSION :: int where
  "RESOLVER_VERSION = 3"

text \<open>\<open>parse\<close> reads a file and parses it; \<open>None\<close> when either fails.\<close>

definition heal_file ::
    "(nat \<Rightarrow> sql_faults) \<Rightarrow> char_tables \<Rightarrow> (string \<Rightarrow> string option) \<Rightarrow> (string \<Rightarrow> raw_ref list option) \<Rightarrow> package_graph option
       \<Rightarrow> file_hash_record \<Rightarrow> nat \<Rightarrow> ('a symbol_tables_scheme, nat) calls" where
  "heal_file F T lang parse graph h healed =
     (let stamp = call_then (storage F (\<lambda>f. upsert_file_hash f (h\<lparr>fh_resolver_version := RESOLVER_VERSION\<rparr>)))
            (\<lambda>_. call_ret (Suc healed));
          language = lang (case path_extension (fh_path h) of None \<Rightarrow> [] | Some e \<Rightarrow> e)
      in call_then (storage_read F (\<lambda>f. list_symbols f T (no_filter\<lparr>sf_file_path := Some (fh_path h)\<rparr>)))
         (\<lambda>r. case r of
            Inl _ \<Rightarrow> call_ret healed
          | Inr local \<Rightarrow>
              if local = [] \<or> language = None then stamp
              else
                (case parse (fh_path h) of
                   None \<Rightarrow> call_ret healed
                 | Some raw_refs \<Rightarrow>
                     call_then (resolve_and_store_refs F T lang raw_refs (fh_path h) local graph) (\<lambda>_. stamp))))"

definition re_resolve_stale_files ::
    "(nat \<Rightarrow> sql_faults) \<Rightarrow> char_tables \<Rightarrow> (string \<Rightarrow> string option) \<Rightarrow> (string \<Rightarrow> raw_ref list option) \<Rightarrow> package_graph option
       \<Rightarrow> ('a symbol_tables_scheme, store_error + nat) calls" where
  "re_resolve_stale_files F T lang parse graph =
     call_try (storage_read F list_file_hashes)
     (\<lambda>all_hashes. call_then
        (call_fold (heal_file F T lang parse graph) (filter (\<lambda>h. fh_resolver_version h < RESOLVER_VERSION) all_hashes) 0)
        (\<lambda>healed. call_ret (Inr healed)))"

section \<open>Specification\<close>

text \<open>The symbols with a name, in the order of the query, and what a raw reference comes to.\<close>

definition by_name :: "string \<Rightarrow> 'a symbol_tables_scheme \<Rightarrow> symbol_record list" where
  "by_name n d = sort_key (\<lambda>s. (sy_file_path s, sy_line_start s)) (filter (\<lambda>s. sy_name s = n) (yt_symbols d))"

definition ref_target ::
    "(string \<Rightarrow> string option) \<Rightarrow> string \<Rightarrow> string option \<Rightarrow> package_graph option \<Rightarrow> string \<Rightarrow> 'a symbol_tables_scheme \<Rightarrow> symbol_record option" where
  "ref_target lang path target_crate graph n d = disambiguate_target (candidates lang path (by_name n d)) path target_crate graph"

definition resolved_ref ::
    "(string \<Rightarrow> string option) \<Rightarrow> string \<Rightarrow> symbol_record list \<Rightarrow> package_graph option \<Rightarrow> 'a symbol_tables_scheme \<Rightarrow> raw_ref \<Rightarrow> symbol_ref_record option" where
  "resolved_ref lang path local graph d raw =
     (case (ref_source local raw, ref_target lang path (ra_target_crate raw) graph (ra_target_name raw) d) of
        (Some i, Some t) \<Rightarrow>
          if i = sy_id t \<or> i \<notin> sy_id ` set local then None
          else Some \<lparr>rf_from_symbol_id = i, rf_to_symbol_id = sy_id t, rf_ref_kind = ra_kind raw\<rparr>
      | _ \<Rightarrow> None)"

definition open_ref ::
    "(string \<Rightarrow> string option) \<Rightarrow> string \<Rightarrow> symbol_record list \<Rightarrow> package_graph option \<Rightarrow> 'a symbol_tables_scheme \<Rightarrow> raw_ref \<Rightarrow> pending_ref option" where
  "open_ref lang path local graph d raw =
     (case (ref_source local raw, ref_target lang path (ra_target_crate raw) graph (ra_target_name raw) d) of
        (Some i, None) \<Rightarrow>
          Some \<lparr>pe_from_id = i, pe_target_name = ra_target_name raw, pe_kind = ra_kind raw, pe_file_path = path,
                pe_target_crate = ra_target_crate raw\<rparr>
      | _ \<Rightarrow> None)"

definition file_ids :: "string \<Rightarrow> 'a symbol_tables_scheme \<Rightarrow> string set" where
  "file_ids path d = sy_id ` {s \<in> set (yt_symbols d). sy_file_path s = path}"

text \<open>The number of references between two packages.\<close>

definition edge_count :: "package_graph \<Rightarrow> (string \<times> string) list \<Rightarrow> string \<times> string \<Rightarrow> nat" where
  "edge_count g pairs e = length (filter (\<lambda>p. edge_of g p = Some e) pairs)"

section \<open>Example data\<close>

definition example_lang :: "string \<Rightarrow> string option" where
  "example_lang e = (if e = ''rs'' then Some ''rust'' else None)"

definition file_symbol :: "string \<Rightarrow> string \<Rightarrow> symbol_record" where
  "file_symbol path n =
     \<lparr>sy_id = path @ ''::'' @ n, sy_file_path = path, sy_name = n, sy_kind = ''function'', sy_visibility = ''pub'', sy_signature = ''fn'',
      sy_doc_comment = None, sy_module_path = [], sy_line_start = 1, sy_line_end = 9, sy_cyclomatic_complexity = None\<rparr>"

definition example_raw :: "string \<Rightarrow> raw_ref" where
  "example_raw n = \<lparr>ra_target_name = n, ra_kind = Calls, ra_line = 5, ra_from_context = None, ra_target_crate = None\<rparr>"

definition two_files :: symbol_tables where
  "two_files = empty_symbols\<lparr>yt_symbols := [file_symbol ''a.rs'' ''f'', file_symbol ''b.rs'' ''g'']\<rparr>"

definition heal_both :: symbol_tables where
  "heal_both = fst (snd (call_fold (\<lambda>path _.
     call_then (resolve_and_store_refs all_fine ascii_tables example_lang [example_raw (if path = ''a.rs'' then ''g'' else ''missing'')] path
       (filter (\<lambda>s. sy_file_path s = path) (yt_symbols two_files)) None) (\<lambda>_. call_ret ())) [''a.rs'', ''b.rs''] () 0 two_files))"

definition called_b :: symbol_tables where
  "called_b = two_files\<lparr>yt_refs := [\<lparr>fr_from = ''a.rs::f'', fr_to = ''b.rs::g'', fr_kind = ''calls''\<rparr>]\<rparr>"

definition twins :: "symbol_record list" where
  "twins = [file_symbol ''a/lib.rs'' ''Foo'', file_symbol ''b-x/lib.rs'' ''Foo'']"

definition twin_graph :: "string \<Rightarrow> package_graph" where
  "twin_graph n = [\<lparr>pk_name = ''a'', pk_crate_name = ''a'', pk_dir_prefix = ''a''\<rparr>,
     \<lparr>pk_name = n, pk_crate_name = underscored n, pk_dir_prefix = ''b-x''\<rparr>]"

section \<open>Lemmas\<close>

lemma matches_name: "symbol_matches T m (no_filter\<lparr>sf_name_exact := Some n\<rparr>) = (\<lambda>s. sy_name s = n)"
  by (rule ext) (simp add: symbol_matches_def no_filter_def)

lemma no_filter_name [simp]: "sf_name no_filter = None"
  by (simp add: no_filter_def)

lemma list_by_name:
  "list_symbols f T (no_filter\<lparr>sf_name_exact := Some n\<rparr>) d = Inr ms \<Longrightarrow> ms = by_name n d"
  by (auto simp: list_symbols_def query_symbols_def with_conn_def sql_then_def sql_query_def sql_exec_def sql_ret_def
      by_name_def matches_name split: option.splits)

lemma list_by_name_free: "list_symbols no_faults T (no_filter\<lparr>sf_name_exact := Some n\<rparr>) d = Inr (by_name n d)"
  by (simp add: list_symbols_def query_symbols_def sql_then_def sql_ret_def by_name_def matches_name)

lemma set_by_name [simp]: "set (by_name n d) = {s \<in> set (yt_symbols d). sy_name s = n}"
  by (auto simp: by_name_def)

text \<open>Disambiguation chooses among the candidates, and honours a crate that determines the symbol.\<close>

lemma prefer_other_file_in: "xs \<noteq> [] \<Longrightarrow> prefer_other_file path xs \<in> set xs"
  by (auto simp: prefer_other_file_def find_Some_iff split: option.split)

lemma in_dir_sub: "set (in_dir ps dir) \<subseteq> set ps"
  by (auto simp: in_dir_def split: option.split)

lemma disambiguate_in:
  assumes "disambiguate_target ps path tc g = Some s"
  shows "s \<in> set ps"
proof (cases "length ps \<le> 1")
  case True
  then show ?thesis using assms by (cases ps) (auto simp: disambiguate_target_def)
next
  case False
  then obtain a b xs where ps: "ps = a # b # xs" by (cases ps; cases "tl ps") auto
  let ?c = "in_dir ps (crate_dir tc g)" and ?s = "in_dir ps (source_dir path g)"
  have "s = hd ?c \<and> ?c \<noteq> [] \<or> s = prefer_other_file path ?c \<and> ?c \<noteq> [] \<or> s = prefer_other_file path ?s \<and> ?s \<noteq> [] \<or>
      s = prefer_other_file path ps"
    using assms by (auto simp: disambiguate_target_def ps Let_def split: if_splits)
  moreover have "ps \<noteq> []" by (simp add: ps)
  ultimately show ?thesis using prefer_other_file_in hd_in_set in_dir_sub by (metis in_mono)
qed

text \<open>A crate that determines the symbol decides.\<close>

lemma disambiguate_crate:
  "in_dir ps (crate_dir tc g) = [s] \<Longrightarrow> disambiguate_target ps path tc g = Some s"
  using in_dir_sub [of ps "crate_dir tc g"]
  by (cases ps; cases "tl ps") (auto simp: disambiguate_target_def)

lemma ref_targetD:
  assumes "ref_target lang path tc g n d = Some t"
  shows "t \<in> set (yt_symbols d)" "sy_name t = n" "sy_kind t \<in> set primary_kinds" "languages_compatible lang path (sy_file_path t)"
  using disambiguate_in [OF assms [unfolded ref_target_def]] by (auto simp: candidates_def filter_primary_def)

lemma resolve_raw_step:
  assumes "resolve_raw F T lang path local g raw (res, pen) n d = (n', d', r)"
  shows "d' = d \<and> (r = (res, pen) \<or> r = (res @ (case resolved_ref lang path local g d raw of None \<Rightarrow> [] | Some x \<Rightarrow> [x]),
      pen @ (case open_ref lang path local g d raw of None \<Rightarrow> [] | Some x \<Rightarrow> [x])))"
  using assms
  by (auto simp: resolve_raw_def call_results resolved_ref_def open_ref_def ref_target_def split: option.splits sum.splits if_splits
      dest: list_by_name)

lemma resolve_raw_free:
  "\<exists>n'. resolve_raw all_fine T lang path local g raw (res, pen) n d =
     (n', d, res @ (case resolved_ref lang path local g d raw of None \<Rightarrow> [] | Some x \<Rightarrow> [x]),
      pen @ (case open_ref lang path local g d raw of None \<Rightarrow> [] | Some x \<Rightarrow> [x]))"
  by (auto simp: resolve_raw_def call_simps all_fine_def list_by_name_free resolved_ref_def open_ref_def ref_target_def split: option.splits)

lemma resolve_fold:
  assumes "call_fold (resolve_raw F T lang path local g) raws st n d = (n', d', st')"
  shows "d' = d \<and> set (fst st') \<subseteq> set (fst st) \<union> {x. \<exists>raw \<in> set raws. resolved_ref lang path local g d raw = Some x}"
  using assms
proof (induction raws arbitrary: st n)
  case (Cons raw raws)
  obtain res pen where st: "st = (res, pen)" by (cases st)
  from Cons.prems obtain n1 d1 s1 where 1: "resolve_raw F T lang path local g raw (res, pen) n d = (n1, d1, s1)"
    "call_fold (resolve_raw F T lang path local g) raws s1 n1 d1 = (n', d', st')" by (auto simp: st call_results)
  from resolve_raw_step [OF 1(1)] have "d1 = d" "set (fst s1) \<subseteq> set res \<union> {x. resolved_ref lang path local g d raw = Some x}"
    by (auto split: option.splits)
  with Cons.IH [of s1 n1] 1(2) show ?case by (auto simp: st)
qed (simp add: call_ret_def)

lemma resolve_fold_free:
  "\<exists>n'. call_fold (resolve_raw all_fine T lang path local g) raws (res, pen) n d =
     (n', d, res @ List.map_filter (resolved_ref lang path local g d) raws, pen @ List.map_filter (open_ref lang path local g d) raws)"
proof (induction raws arbitrary: res pen n)
  case (Cons raw raws)
  obtain n1 where "resolve_raw all_fine T lang path local g raw (res, pen) n d =
     (n1, d, res @ (case resolved_ref lang path local g d raw of None \<Rightarrow> [] | Some x \<Rightarrow> [x]),
      pen @ (case open_ref lang path local g d raw of None \<Rightarrow> [] | Some x \<Rightarrow> [x]))" using resolve_raw_free by blast
  moreover note Cons.IH [of "res @ (case resolved_ref lang path local g d raw of None \<Rightarrow> [] | Some x \<Rightarrow> [x])"
      "pen @ (case open_ref lang path local g d raw of None \<Rightarrow> [] | Some x \<Rightarrow> [x])" n1]
  ultimately show ?case by (auto simp: call_then_def map_filter_simps split: option.splits)
qed (simp add: call_ret_def map_filter_simps)

text \<open>Storing references one by one.\<close>

lemma insert_one_ref:
  "fst (insert_symbol_refs f [r] d) = d \<or>
   (fst (insert_symbol_refs f [r] d) = d\<lparr>yt_refs := filter (\<lambda>x. x \<noteq> ref_row_of r) (yt_refs d) @ [ref_row_of r]\<rparr>)"
  by (auto simp: insert_symbol_refs_def with_conn_def sql_prepare_def sql_write_def sql_simps sql_ret_def insert_ref_stmt_def
      sql_exec_def sql_replace_ref_def split: option.splits sum.splits prod.splits if_splits)

lemma insert_one_ref_free:
  "rf_from_symbol_id r \<in> sy_id ` set (yt_symbols d) \<Longrightarrow> rf_to_symbol_id r \<in> sy_id ` set (yt_symbols d) \<Longrightarrow>
     insert_symbol_refs no_faults [r] d = (d\<lparr>yt_refs := filter (\<lambda>x. x \<noteq> ref_row_of r) (yt_refs d) @ [ref_row_of r]\<rparr>, Inr ())"
  by (simp add: insert_symbol_refs_def sql_then_def sql_ret_def insert_ref_stmt_def sql_replace_ref_def ref_row_of_def)

lemma store_refs:
  assumes "call_fold (store_ref F) rs k n d = (n', d', k')"
  shows "yt_symbols d' = yt_symbols d \<and> set (yt_refs d') \<subseteq> set (yt_refs d) \<union> ref_row_of ` set rs"
  using assms
proof (induction rs arbitrary: k n d)
  case (Cons r rs)
  from Cons.prems obtain n1 d1 k1 where 1: "store_ref F r k n d = (n1, d1, k1)" "call_fold (store_ref F) rs k1 n1 d1 = (n', d', k')"
    by (auto simp: call_results)
  from 1(1) have "d1 = fst (insert_symbol_refs (F n) [r] d)" by (auto simp: store_ref_def call_results)
  then have "yt_symbols d1 = yt_symbols d \<and> set (yt_refs d1) \<subseteq> insert (ref_row_of r) (set (yt_refs d))"
    using insert_one_ref [of "F n" r d] by auto
  with Cons.IH [OF 1(2)] show ?case by auto
qed (simp add: call_ret_def)

lemma store_refs_free:
  assumes "\<forall>r \<in> set rs. rf_from_symbol_id r \<in> sy_id ` set (yt_symbols d) \<and> rf_to_symbol_id r \<in> sy_id ` set (yt_symbols d)"
  shows "\<exists>n' d' k'. call_fold (store_ref all_fine) rs k n d = (n', d', k') \<and> yt_symbols d' = yt_symbols d \<and>
    set (yt_refs d') = set (yt_refs d) \<union> ref_row_of ` set rs"
  using assms
proof (induction rs arbitrary: k n d)
  case (Cons r rs)
  let ?d = "d\<lparr>yt_refs := filter (\<lambda>x. x \<noteq> ref_row_of r) (yt_refs d) @ [ref_row_of r]\<rparr>"
  have "store_ref all_fine r k n d = (Suc n, ?d, Suc k)"
    using insert_one_ref_free [of r d] Cons.prems by (simp add: store_ref_def call_simps all_fine_def)
  with Cons.IH [of ?d "Suc k" "Suc n"] Cons.prems show ?case by (auto simp: call_then_def)
qed (simp add: call_ret_def)

lemma delete_refs_free:
  "delete_refs_for_file no_faults path d =
     (d\<lparr>yt_refs := filter (\<lambda>r. fr_from r \<notin> file_ids path d \<and> fr_to r \<notin> file_ids path d) (yt_refs d)\<rparr>, Inr ())"
  by (simp add: delete_refs_for_file_def Let_def file_ids_def)

lemma delete_refs_sub:
  "yt_symbols (fst (delete_refs_for_file f path d)) = yt_symbols d \<and> set (yt_refs (fst (delete_refs_for_file f path d))) \<subseteq> set (yt_refs d)"
  by (auto simp: delete_refs_for_file_def Let_def with_conn_def sql_write_def sql_exec_def split: option.splits)

lemma resolution_symbols:
  assumes "yt_symbols d1 = yt_symbols d"
  shows "resolved_ref lang path local g d1 = resolved_ref lang path local g d" "open_ref lang path local g d1 = open_ref lang path local g d"
  using assms by (auto simp: resolved_ref_def open_ref_def ref_target_def by_name_def fun_eq_iff)

lemma resolved_refD:
  assumes "resolved_ref lang path local g d raw = Some x"
  shows "\<exists>s \<in> set local. \<exists>t \<in> set (yt_symbols d). sy_id s = rf_from_symbol_id x \<and> sy_id t = rf_to_symbol_id x \<and>
    rf_from_symbol_id x \<noteq> rf_to_symbol_id x \<and> rf_ref_kind x = ra_kind raw \<and> sy_name t = ra_target_name raw \<and>
    sy_kind t \<in> set primary_kinds \<and> languages_compatible lang path (sy_file_path t)"
  using assms ref_targetD [of lang path "ra_target_crate raw" g "ra_target_name raw" d]
  by (auto simp: resolved_ref_def image_iff split: option.splits if_splits)

text \<open>
  C14. A stored reference is justified: whichever storage calls fail, every reference that resolving a file adds goes from a symbol of
  that file to another stored symbol, of the name and by the kind of one of the file's raw references; that symbol is a definition
  and written in a compatible language.
\<close>

theorem references_justified:
  assumes "resolve_and_store_refs F T lang raws path local g n d = (n', d', pending)"
    and "r \<in> set (yt_refs d')" and "r \<notin> set (yt_refs d)"
  shows "\<exists>raw \<in> set raws. \<exists>s \<in> set local. \<exists>t \<in> set (yt_symbols d).
    r = \<lparr>fr_from = sy_id s, fr_to = sy_id t, fr_kind = ref_kind_as_str (ra_kind raw)\<rparr> \<and> sy_id s \<noteq> sy_id t \<and>
    sy_name t = ra_target_name raw \<and> sy_kind t \<in> set primary_kinds \<and> languages_compatible lang path (sy_file_path t)"
proof -
  from assms have "raws \<noteq> []" by (auto simp: resolve_and_store_refs_def call_ret_def)
  with assms(1) obtain n1 d1 x n2 d2 st n3 k where run: "delete_refs_for_file (F n) path d = (d1, x)"
    "call_fold (resolve_raw F T lang path local g) raws ([], []) (Suc n) d1 = (n2, d2, st)" "call_fold (store_ref F) (fst st) 0 n2 d2 = (n3, d', k)"
    by (auto simp: resolve_and_store_refs_def call_results split: prod.splits)
  have d1: "yt_symbols d1 = yt_symbols d" "set (yt_refs d1) \<subseteq> set (yt_refs d)" using delete_refs_sub [of "F n" path d] run(1) by auto
  from resolve_fold [OF run(2)] have d2: "d2 = d1"
    "set (fst st) \<subseteq> {x. \<exists>raw \<in> set raws. resolved_ref lang path local g d raw = Some x}"
    by (auto simp: resolution_symbols [OF d1(1)])
  from store_refs [OF run(3)] assms(2,3) d1 d2 obtain x raw where "x \<in> set (fst st)" "r = ref_row_of x" "raw \<in> set raws"
    "resolved_ref lang path local g d raw = Some x" by blast
  moreover from resolved_refD [OF this(4)] obtain s t where "s \<in> set local" "t \<in> set (yt_symbols d)" "sy_id s = rf_from_symbol_id x"
    "sy_id t = rf_to_symbol_id x" "rf_from_symbol_id x \<noteq> rf_to_symbol_id x" "rf_ref_kind x = ra_kind raw" "sy_name t = ra_target_name raw"
    "sy_kind t \<in> set primary_kinds" "languages_compatible lang path (sy_file_path t)" by blast
  ultimately show ?thesis by (intro bexI [of _ raw] bexI [of _ s] bexI [of _ t]) (simp_all add: ref_row_of_def)
qed

text \<open>
  Resolution is exact: when nothing fails, the references afterwards are those before that have no end in the file, and the
  resolved ones of the file; a reference whose target is not there yet is returned as pending.
\<close>

theorem resolve_exact:
  assumes "raws \<noteq> []" and "set local \<subseteq> set (yt_symbols d)"
  shows "\<exists>n' d'. resolve_and_store_refs all_fine T lang raws path local g n d = (n', d', List.map_filter (open_ref lang path local g d) raws) \<and>
    yt_symbols d' = yt_symbols d \<and>
    set (yt_refs d') = {r \<in> set (yt_refs d). fr_from r \<notin> file_ids path d \<and> fr_to r \<notin> file_ids path d} \<union>
      {ref_row_of x | x raw. raw \<in> set raws \<and> resolved_ref lang path local g d raw = Some x}"
proof -
  define d1 where "d1 = fst (delete_refs_for_file no_faults path d)"
  have d1: "delete_refs_for_file no_faults path d = (d1, Inr ())" "yt_symbols d1 = yt_symbols d"
    "set (yt_refs d1) = {r \<in> set (yt_refs d). fr_from r \<notin> file_ids path d \<and> fr_to r \<notin> file_ids path d}"
    by (auto simp: d1_def delete_refs_free)
  note same = resolution_symbols [OF d1(2)]
  let ?res = "List.map_filter (resolved_ref lang path local g d) raws" and ?pen = "List.map_filter (open_ref lang path local g d) raws"
  obtain n2 where fold: "call_fold (resolve_raw all_fine T lang path local g) raws ([], []) (Suc n) d1 = (n2, d1, ?res, ?pen)"
    using resolve_fold_free [of T lang path local g raws "[]" "[]" "Suc n" d1] by (auto simp: same)
  have set: "set ?res = {x. \<exists>raw \<in> set raws. resolved_ref lang path local g d raw = Some x}"
    by (force simp: map_filter_def)
  then have "\<forall>r \<in> set ?res. rf_from_symbol_id r \<in> sy_id ` set (yt_symbols d1) \<and> rf_to_symbol_id r \<in> sy_id ` set (yt_symbols d1)"
    using resolved_refD [of lang path local g d] assms(2) unfolding d1(2) by (auto simp: image_iff) (metis subsetD)+
  from store_refs_free [OF this, of 0 n2] obtain n' d' k where "call_fold (store_ref all_fine) ?res 0 n2 d1 = (n', d', k)"
    "yt_symbols d' = yt_symbols d1" "set (yt_refs d') = set (yt_refs d1) \<union> ref_row_of ` set ?res" by blast
  then show ?thesis using assms(1) fold d1 set
    by (auto simp: resolve_and_store_refs_def call_simps all_fine_def)
qed

text \<open>
  C30. Resolving the references of a file again drops every reference from another file into it. Suppose the file has raw
  references (without any the code returns before it deletes), the local symbols are symbols of the file, and the deletion of
  the old references does not fail; other calls may fail. Then every reference stored afterwards that leads to a symbol of the
  file also starts in the file: the deletion takes both directions, and only references that start in the file come back.
\<close>

theorem healing_drops_callers:
  assumes "resolve_and_store_refs F T lang raws path local g n d = (n', d', pending)" and "F n = no_faults" and "raws \<noteq> []"
    and "sy_id ` set local \<subseteq> file_ids path d" and "r \<in> set (yt_refs d')" and "fr_to r \<in> file_ids path d"
  shows "fr_from r \<in> file_ids path d"
proof -
  from assms(1,3) obtain n1 d1 x n2 d2 st n3 k where run: "delete_refs_for_file (F n) path d = (d1, x)"
    "call_fold (resolve_raw F T lang path local g) raws ([], []) (Suc n) d1 = (n2, d2, st)" "call_fold (store_ref F) (fst st) 0 n2 d2 = (n3, d', k)"
    by (auto simp: resolve_and_store_refs_def call_results split: prod.splits)
  have d1: "set (yt_refs d1) = {r \<in> set (yt_refs d). fr_from r \<notin> file_ids path d \<and> fr_to r \<notin> file_ids path d}"
    using run(1) by (auto simp: assms(2) delete_refs_free)
  from resolve_fold [OF run(2)] have d2: "d2 = d1" "set (fst st) \<subseteq> {x. \<exists>raw \<in> set raws. resolved_ref lang path local g d1 raw = Some x}" by auto
  show ?thesis
  proof (cases "r \<in> set (yt_refs d1)")
    case False
    with store_refs [OF run(3)] assms(5) d2 obtain x raw where "r = ref_row_of x" "resolved_ref lang path local g d1 raw = Some x" by blast
    with resolved_refD [of lang path local g d1 raw x] assms(4) show ?thesis by (auto simp: ref_row_of_def)
  qed (use d1 assms(6) in auto)
qed

section \<open>Packages\<close>

lemma no_hyphen: "CHR ''-'' \<notin> set (underscored n)"
  by (auto simp: underscored_def)

text \<open>The lookup of a package by its name finds no package whose name has a hyphen: the crate names have none.\<close>

theorem hyphenated_package_not_found:
  assumes "CHR ''-'' \<in> set n"
  shows "dir_prefix_for_crate (from_cargo_workspace read_name base members) n = None"
  using assms no_hyphen
  by (force simp: dir_prefix_for_crate_def from_cargo_workspace_def map_filter_def find_None_iff)

lemma count_edges:
  "distinct (map fst c) \<Longrightarrow> map_of c = (\<lambda>e. if edge_count g qs e = 0 then None else Some (edge_count g qs e)) \<Longrightarrow>
   distinct (map fst (fold (count_edge g) ps c)) \<and>
   map_of (fold (count_edge g) ps c) = (\<lambda>e. if edge_count g (qs @ ps) e = 0 then None else Some (edge_count g (qs @ ps) e))"
proof (induction ps arbitrary: c qs)
  case (Cons p ps)
  have "distinct (map fst (count_edge g p c))" using Cons.prems(1) by (auto simp: count_edge_def distinct_update split: option.splits)
  moreover have "map_of (count_edge g p c) = (\<lambda>e. if edge_count g (qs @ [p]) e = 0 then None else Some (edge_count g (qs @ [p]) e))"
    using Cons.prems(2) by (auto simp: count_edge_def update_conv edge_count_def fun_eq_iff split: option.splits)
  ultimately show ?case using Cons.IH [of "count_edge g p c" "qs @ [p]"] by (simp only: fold.simps o_apply append.assoc append.simps)
qed (simp cong: if_cong)

text \<open>
  The package graph counts exactly: whatever the order of the hash map, the edges are the pairs of different packages between
  which there is a reference, each once, in order, with the number of those references.
\<close>

theorem package_edges_exact:
  assumes "hash_order it"
  shows "set (compute_edges it g pairs) =
      {\<lparr>pg_from_package = a, pg_to_package = b, pg_ref_count = edge_count g pairs (a, b)\<rparr> | a b. 0 < edge_count g pairs (a, b)} \<and>
    sorted_wrt (\<lambda>x y. (pg_from_package x, pg_to_package x) < (pg_from_package y, pg_to_package y)) (compute_edges it g pairs)"
proof -
  let ?c = "fold (count_edge g) pairs []" and ?k = "\<lambda>e. (pg_from_package e, pg_to_package e)"
  let ?e = "\<lambda>((a, b), n). \<lparr>pg_from_package = a, pg_to_package = b, pg_ref_count = n\<rparr>"
  have c: "distinct (map fst ?c)" "map_of ?c = (\<lambda>e. if edge_count g pairs e = 0 then None else Some (edge_count g pairs e))"
    using count_edges [of "[]" g "[]" pairs] by (simp_all add: edge_count_def fun_eq_iff)
  have it: "mset (it ?c) = mset ?c" using assms by (simp add: hash_order_def)
  then have s: "set (it ?c) = set ?c" by (metis set_mset_mset)
  have "distinct (map fst (it ?c))" using it c(1) by (metis mset_map mset_eq_imp_distinct_iff)
  then have "distinct (map ?k (map ?e (it ?c)))" by (simp add: o_def case_prod_beta)
  moreover have "mset (map ?k (compute_edges it g pairs)) = mset (map ?k (map ?e (it ?c)))" by (simp only: compute_edges_def mset_map mset_sort)
  ultimately have "distinct (map ?k (compute_edges it g pairs))" by (rule mset_eq_imp_distinct_iff [THEN iffD2, rotated])
  then have "sorted_wrt (<) (map ?k (compute_edges it g pairs))" unfolding strict_sorted_iff by (simp add: compute_edges_def)
  moreover have "set (compute_edges it g pairs) = ?e ` set ?c" by (simp add: compute_edges_def s)
  moreover have mem: "(e, n) \<in> set ?c \<longleftrightarrow> 0 < edge_count g pairs e \<and> n = edge_count g pairs e" for e n
    using map_of_eq_Some_iff [OF c(1), of e n] unfolding c(2) by (auto split: if_splits)
  have "?e ` set ?c = {\<lparr>pg_from_package = a, pg_to_package = b, pg_ref_count = edge_count g pairs (a, b)\<rparr> | a b. 0 < edge_count g pairs (a, b)}"
  proof (intro equalityI subsetI)
    fix x assume "x \<in> ?e ` set ?c"
    then obtain a b n where "((a, b), n) \<in> set ?c" "x = \<lparr>pg_from_package = a, pg_to_package = b, pg_ref_count = n\<rparr>" by auto
    with mem [of "(a, b)" n] show "x \<in> {\<lparr>pg_from_package = a, pg_to_package = b, pg_ref_count = edge_count g pairs (a, b)\<rparr> | a b. 0 < edge_count g pairs (a, b)}"
      by blast
  next
    fix x assume "x \<in> {\<lparr>pg_from_package = a, pg_to_package = b, pg_ref_count = edge_count g pairs (a, b)\<rparr> | a b. 0 < edge_count g pairs (a, b)}"
    then obtain a b where "((a, b), edge_count g pairs (a, b)) \<in> set ?c"
      "x = ?e ((a, b), edge_count g pairs (a, b))" using mem by auto
    then show "x \<in> ?e ` set ?c" by blast
  qed
  ultimately show ?thesis by (simp add: sorted_wrt_map)
qed

section \<open>Lines\<close>

text \<open>What the scan finds: \<open>ls\<close> are the lines still to come, the first of them line \<open>line\<close>, starting at offset \<open>i\<close>.\<close>

abbreviation terminated :: "string list \<Rightarrow> string" where
  "terminated ls \<equiv> concat (map (\<lambda>l. l @ [CHR 0x0A]) ls)"

lemma slice_scan_lines:
  assumes "line \<le> fin" and "start = None \<longleftrightarrow> line < first" and "first \<le> fin"
  shows "slice_scan first fin i line start bs =
    (let ls = split_on (CHR 0x0A) bs
     in ((if start \<noteq> None then start
          else if first < line + length ls then Some (i + length (terminated (take (first - line) ls))) else None),
         (if fin + 1 < line + length ls then Some (i + length (join [CHR 0x0A] (take (Suc (fin - line)) ls))) else None)))"
  using assms
proof (induction bs arbitrary: i line start)
  case (Cons b bs)
  obtain w ws where ws: "split_on (CHR 0x0A) bs = w # ws" by (cases "split_on (CHR 0x0A) bs") auto
  show ?case
  proof (cases "b = CHR 0x0A")
    case False
    have "first - line = Suc (first - line - 1)" if "start = None" using that Cons.prems by simp
    then show ?thesis using Cons.IH [of line start "Suc i"] Cons.prems False ws
      by (cases ws; cases start) (auto simp: Let_def take_Cons')
  next
    case True
    show ?thesis
    proof (cases "fin = line")
      case e: True
      then show ?thesis using Cons.prems True ws by (auto simp: Let_def)
    next
      case ne: False
      let ?s = "if start = None \<and> Suc line = first then Some (Suc i) else start"
      have "Suc (fin - line) = Suc (Suc (fin - Suc line))" using ne Cons.prems by simp
      then show ?thesis using Cons.IH [of "Suc line" ?s "Suc i"] Cons.prems True ne ws
        by (cases start) (auto simp: Let_def take_Cons' Suc_diff_Suc)
    qed
  qed
qed (auto simp: Let_def)

lemma terminated_split:
  "k \<le> length ls \<Longrightarrow> ls \<noteq> [] \<Longrightarrow>
    join [CHR 0x0A] ls = terminated (take k ls) @ join [CHR 0x0A] (drop k ls) \<or> k = length ls"
proof (induction ls arbitrary: k)
  case (Cons l ls)
  show ?case
  proof (cases k)
    case (Suc k')
    then show ?thesis using Cons by (cases ls) auto
  qed simp
qed simp

lemma join_take:
  "k < length ls \<Longrightarrow> 0 < k \<Longrightarrow> join [CHR 0x0A] ls = join [CHR 0x0A] (take k ls) @ CHR 0x0A # join [CHR 0x0A] (drop k ls)"
proof (induction ls arbitrary: k)
  case (Cons l ls)
  show ?case
  proof (cases "k = 1")
    case True
    then show ?thesis using Cons.prems by (cases ls) auto
  next
    case False
    then obtain k' where k: "k = Suc k'" "0 < k'" using Cons.prems by (cases k) auto
    then have ih: "join [CHR 0x0A] ls = join [CHR 0x0A] (take k' ls) @ CHR 0x0A # join [CHR 0x0A] (drop k' ls)"
      using Cons.IH [of k'] Cons.prems by simp
    have "ls \<noteq> []" "take k' ls \<noteq> []" using Cons.prems k by auto
    then show ?thesis using ih k by (cases ls; cases "take k' ls") auto
  qed
qed simp

text \<open>
  The text of a symbol is its lines: the scan for the byte offsets returns exactly the lines of the inclusive range, up to the
  end of the file, and nothing when the range is empty or begins after the last line.
\<close>

theorem slice_lines_exact:
  "slice_lines bytes a b =
     (let ls = split_on (CHR 0x0A) bytes
      in if 1 \<le> a \<and> a \<le> b \<and> a \<le> length ls then Some (join [CHR 0x0A] (take (Suc b - a) (drop (a - 1) ls))) else None)"
proof (cases "1 \<le> a \<and> a \<le> b")
  case True
  define ls where "ls = split_on (CHR 0x0A) bytes"
  have bytes: "bytes = join [CHR 0x0A] ls" by (simp add: ls_def join_split_on)
  have ne: "Suc 0 \<le> length ls" by (simp add: ls_def Suc_le_eq)
  let ?t = "terminated (take (a - 1) ls)" and ?u = "join [CHR 0x0A] (take b ls)"
  have scan: "slice_scan a b 0 1 (if a = 1 then Some 0 else None) bytes =
      (if a \<le> length ls then Some (length ?t) else None, if b < length ls then Some (length ?u) else None)"
    using slice_scan_lines [of 1 b "if a = 1 then Some 0 else None" a 0 bytes] True ne
    by (cases "a = 1") (auto simp: Let_def ls_def [symmetric])
  show ?thesis
  proof (cases "a \<le> length ls")
    case a: True
    let ?m = "take b ls"
    have m: "join [CHR 0x0A] ?m = ?t @ join [CHR 0x0A] (drop (a - 1) ?m)"
    proof -
      have "a - 1 < length ?m" "?m \<noteq> []" "take (a - 1) ?m = take (a - 1) ls" using True a ne by (auto simp: min_def)
      with terminated_split [of "a - 1" ?m] show ?thesis by (auto simp: min_def split: if_splits)
    qed
    have drop: "drop (a - 1) ?m = take (Suc b - a) (drop (a - 1) ls)" using True by (simp add: drop_take Suc_diff_le)
    have "\<exists>r. bytes = ?u @ r \<and> (r = [] \<or> b < length ls)"
      using join_take [of b ls] True bytes by (cases "b < length ls") auto
    then obtain r where r: "bytes = ?u @ r" "r = [] \<or> b < length ls" by blast
    have stop: "(case if b < length ls then Some (length ?u) else None of None \<Rightarrow> length bytes | Some e \<Rightarrow> e) = length ?u"
      using r by auto
    have "take (length ?u - length ?t) (drop (length ?t) bytes) = join [CHR 0x0A] (drop (a - 1) ?m)"
      unfolding r(1) m by simp
    then show ?thesis using True a m unfolding slice_lines_def scan Let_def ls_def [symmetric] drop
      by (simp add: stop)
  next
    case False
    then show ?thesis unfolding slice_lines_def scan Let_def ls_def [symmetric] using True by simp
  qed
qed (auto simp: slice_lines_def Let_def)

section \<open>The tables stay consistent\<close>

text \<open>What the five writing calls respect, the procedures respect.\<close>

locale symbol_procedures = call_relation R for R :: "'a symbol_tables_scheme \<Rightarrow> 'a symbol_tables_scheme \<Rightarrow> bool" +
  assumes insert_symbols_R: "R d (fst (insert_symbols f ss d))"
    and delete_symbols_R: "R d (fst (delete_symbols_for_file f p d))"
    and insert_refs_R: "R d (fst (insert_symbol_refs f rs d))"
    and delete_refs_R: "R d (fst (delete_refs_for_file f p d))"
    and upsert_pending_R: "R d (fst (upsert_pending_refs f ps d))"
begin

lemma steady_symbol_calls:
  "steady (storage F (\<lambda>f. insert_symbols f ss))" "steady (storage F (\<lambda>f. delete_symbols_for_file f p))"
  "steady (storage F (\<lambda>f. insert_symbol_refs f rs))" "steady (storage F (\<lambda>f. delete_refs_for_file f p))"
  "steady (storage F (\<lambda>f. upsert_pending_refs f ps))"
  by (intro steady_storage insert_symbols_R delete_symbols_R insert_refs_R delete_refs_R upsert_pending_R)+

lemmas steady_symbols = steady_intros(1,2,4,5,6,7,8) steady_symbol_calls

lemma steady_store_ref: "steady (store_ref F r k)"
  unfolding store_ref_def by (intro steady_symbols)

lemma steady_resolve: "steady (resolve_and_store_refs F T lang raws path local g)"
proof -
  have "steady (resolve_raw F T lang path local g raw st)" for raw st
    unfolding resolve_raw_def by (auto split: prod.split option.split sum.split intro!: steady_symbols)
  then show ?thesis unfolding resolve_and_store_refs_def
    by (auto split: prod.split intro!: steady_symbols steady_store_ref)
qed

lemma steady_extract: "steady (extract_code_symbols F T lang path content parsed g)"
  unfolding extract_code_symbols_def store_recovered_def Let_def
  by (auto split: parsed_code.split intro!: steady_symbols steady_resolve)

lemma steady_resolve_pending: "steady (resolve_pending_refs F T lang ps g)"
proof -
  have "steady (resolve_pending F T lang g p st)" for p st
    unfolding resolve_pending_def by (auto split: prod.split option.split sum.split intro!: steady_symbols steady_store_ref)
  then show ?thesis unfolding resolve_pending_refs_def by (rule steady_fold)
qed

lemma steady_persist_pending: "steady (persist_pending_refs F ps)"
  unfolding persist_pending_refs_def by (auto intro!: steady_symbols)

lemma steady_repair: "steady (repair_missing_refs F T)"
proof -
  have "steady (repair_impl F T imp k)" for imp k
    unfolding repair_impl_def
    by (auto split: prod.split option.split sum.split list.split intro!: steady_symbols steady_store_ref)
  then show ?thesis unfolding repair_missing_refs_def by (auto split: sum.split intro!: steady_symbols)
qed

end

interpretation symbol_calls: symbol_procedures "\<lambda>d d'. symbols_ok d \<longrightarrow> symbols_ok d'"
  by unfold_locales
    (auto dest: symbols_ok_step [of _ _ "InsertSymbols ss" for ss] symbols_ok_step [of _ _ "DeleteSymbolsForFile p" for p]
      symbols_ok_step [of _ _ "InsertSymbolRefs rs" for rs] symbols_ok_step [of _ _ "DeleteRefsForFile p" for p]
      symbols_ok_step [of _ _ "UpsertPendingRefs ps" for ps])

text \<open>
  Extraction, resolution and repair keep the symbol tables consistent, whichever calls fail.
\<close>

theorem symbol_procedures_ok:
  assumes "symbols_ok d"
  shows "symbols_ok (fst (snd (extract_code_symbols F T lang path content parsed g n d))) \<and>
    symbols_ok (fst (snd (resolve_pending_refs F T lang ps g n d))) \<and> symbols_ok (fst (snd (repair_missing_refs F T n d)))"
  using symbol_calls.steady_extract symbol_calls.steady_resolve_pending symbol_calls.steady_repair assms unfolding symbol_calls.steady_def by blast

section \<open>Instances\<close>

lemma resolve_a:
  "yt_refs (fst (snd (resolve_and_store_refs all_fine ascii_tables example_lang [example_raw ''g''] ''a.rs'' [file_symbol ''a.rs'' ''f''] None 0 two_files)))
     = [\<lparr>fr_from = ''a.rs::f'', fr_to = ''b.rs::g'', fr_kind = ''calls''\<rparr>]"
  by code_simp

text \<open>The reference is there after the first file and gone after the second.\<close>

lemma healed_reference_lost: "yt_refs heal_both = []"
  by code_simp

lemma references_justified_witness:
  "\<exists>raw \<in> set [example_raw ''g'']. \<exists>s \<in> set [file_symbol ''a.rs'' ''f'']. \<exists>t \<in> set (yt_symbols two_files).
    \<lparr>fr_from = ''a.rs::f'', fr_to = ''b.rs::g'', fr_kind = ''calls''\<rparr> = \<lparr>fr_from = sy_id s, fr_to = sy_id t, fr_kind = ref_kind_as_str (ra_kind raw)\<rparr> \<and>
    sy_id s \<noteq> sy_id t \<and> sy_name t = ra_target_name raw \<and> sy_kind t \<in> set primary_kinds \<and> languages_compatible example_lang ''a.rs'' (sy_file_path t)"
proof -
  obtain n' d' p where run: "resolve_and_store_refs all_fine ascii_tables example_lang [example_raw ''g''] ''a.rs'' [file_symbol ''a.rs'' ''f''] None 0 two_files = (n', d', p)"
    by (metis prod_cases3)
  have "\<lparr>fr_from = ''a.rs::f'', fr_to = ''b.rs::g'', fr_kind = ''calls''\<rparr> \<in> set (yt_refs d')" using resolve_a by (simp add: run)
  moreover have "\<lparr>fr_from = ''a.rs::f'', fr_to = ''b.rs::g'', fr_kind = ''calls''\<rparr> \<notin> set (yt_refs two_files)"
    by (simp add: two_files_def empty_symbols_def)
  ultimately show ?thesis by (rule references_justified [OF run])
qed

lemma resolve_exact_witness:
  "\<exists>n' d'. resolve_and_store_refs all_fine ascii_tables example_lang [example_raw ''g''] ''a.rs'' [file_symbol ''a.rs'' ''f''] None 0 two_files =
      (n', d', []) \<and> set (yt_refs d') = {\<lparr>fr_from = ''a.rs::f'', fr_to = ''b.rs::g'', fr_kind = ''calls''\<rparr>}"
proof -
  have "resolved_ref example_lang ''a.rs'' [file_symbol ''a.rs'' ''f''] None two_files (example_raw ''g'') =
      Some \<lparr>rf_from_symbol_id = ''a.rs::f'', rf_to_symbol_id = ''b.rs::g'', rf_ref_kind = Calls\<rparr>" by code_simp
  moreover have "open_ref example_lang ''a.rs'' [file_symbol ''a.rs'' ''f''] None two_files (example_raw ''g'') = None" by code_simp
  ultimately show ?thesis
    using resolve_exact [of "[example_raw ''g'']" "[file_symbol ''a.rs'' ''f'']" two_files ascii_tables example_lang "''a.rs''" None 0]
    by (auto simp: two_files_def empty_symbols_def map_filter_simps ref_row_of_def)
qed

lemma healing_drops_callers_witness:
  "\<lparr>fr_from = ''a.rs::f'', fr_to = ''b.rs::g'', fr_kind = ''calls''\<rparr> \<notin> set (yt_refs (fst (snd
     (resolve_and_store_refs all_fine ascii_tables example_lang [example_raw ''f''] ''b.rs'' [file_symbol ''b.rs'' ''g''] None 0 called_b))))"
proof
  obtain n' d' p where run: "resolve_and_store_refs all_fine ascii_tables example_lang [example_raw ''f''] ''b.rs'' [file_symbol ''b.rs'' ''g''] None 0 called_b = (n', d', p)"
    by (metis prod_cases3)
  assume "\<lparr>fr_from = ''a.rs::f'', fr_to = ''b.rs::g'', fr_kind = ''calls''\<rparr> \<in> set (yt_refs (fst (snd
     (resolve_and_store_refs all_fine ascii_tables example_lang [example_raw ''f''] ''b.rs'' [file_symbol ''b.rs'' ''g''] None 0 called_b))))"
  then have r: "\<lparr>fr_from = ''a.rs::f'', fr_to = ''b.rs::g'', fr_kind = ''calls''\<rparr> \<in> set (yt_refs d')" by (simp add: run)
  have "file_ids ''b.rs'' called_b = set (map sy_id (filter (\<lambda>s. sy_file_path s = ''b.rs'') (yt_symbols called_b)))"
    by (auto simp: file_ids_def)
  then have ids: "file_ids ''b.rs'' called_b = {''b.rs::g''}" by (simp add: called_b_def two_files_def file_symbol_def)
  have "fr_from \<lparr>fr_from = ''a.rs::f'', fr_to = ''b.rs::g'', fr_kind = ''calls''\<rparr> \<in> file_ids ''b.rs'' called_b"
    by (rule healing_drops_callers [OF run _ _ _ r]) (simp_all add: all_fine_def ids file_symbol_def)
  then show False by (simp add: ids)
qed

lemma hyphenated_package_not_found_witness:
  "dir_prefix_for_crate (from_cargo_workspace (\<lambda>dir. Some ''a-x'') ''/r'' [''/r/a-x'']) ''a-x'' = None"
  by (rule hyphenated_package_not_found) simp

text \<open>
  Two packages define the same name. A file of the second, whose package name has a hyphen, uses it: although the graph knows
  the package of the file, the symbol of the other package is chosen; without the hyphen its own is.
\<close>

lemma phantom_edge:
  "disambiguate_target twins ''b-x/main.rs'' None (Some (twin_graph ''b-x'')) = Some (file_symbol ''a/lib.rs'' ''Foo'')"
  "disambiguate_target twins ''b-x/main.rs'' None (Some (twin_graph ''bx'')) = Some (file_symbol ''b-x/lib.rs'' ''Foo'')"
  by code_simp+

text \<open>A directory whose name extends that of another counts as part of it.\<close>

lemma prefix_claims_sibling:
  "package_for_file [\<lparr>pk_name = ''core'', pk_crate_name = ''core'', pk_dir_prefix = ''core''\<rparr>,
     \<lparr>pk_name = ''core-api'', pk_crate_name = ''core_api'', pk_dir_prefix = ''core-api''\<rparr>] ''core-api/lib.rs'' = Some ''core''"
  by code_simp

text \<open>The kind \<open>owner_kinds\<close> lists for modules is not the one they are stored with.\<close>

lemma modules_own_nothing: "item_kind_str Module \<notin> set owner_kinds"
  by code_simp

lemma package_edges_exact_witness:
  "set (compute_edges rev [\<lparr>pk_name = ''a'', pk_crate_name = ''a'', pk_dir_prefix = ''a''\<rparr>, \<lparr>pk_name = ''b'', pk_crate_name = ''b'', pk_dir_prefix = ''b''\<rparr>]
     [(''a/x'', ''b/y''), (''a/z'', ''b/y'')]) = {\<lparr>pg_from_package = ''a'', pg_to_package = ''b'', pg_ref_count = 2\<rparr>}"
proof -
  let ?g = "[\<lparr>pk_name = ''a'', pk_crate_name = ''a'', pk_dir_prefix = ''a''\<rparr>, \<lparr>pk_name = ''b'', pk_crate_name = ''b'', pk_dir_prefix = ''b''\<rparr>]"
  let ?p = "[(''a/x'', ''b/y''), (''a/z'', ''b/y'')]"
  have "hash_order rev" by (simp add: hash_order_def)
  note package_edges_exact [OF this, of ?g ?p]
  moreover have "edge_count ?g ?p e = (if e = (''a'', ''b'') then 2 else 0)" for e
    by (simp add: edge_count_def edge_of_def package_for_file_def begins_with_def)
  ultimately show ?thesis by auto
qed

end
