(* ===== verification/Spec2Isabelle.thy ===== *)
theory Spec2Isabelle
  imports Prelude Float_Model Identity Window Session Delta Memory Compression Drops Usage
    Registry Scheduler Coordinator Jobs Jobs_Db Jobs_Pg Prefetch Text Inverted
    Sparse_Encoder Search Bridge Database Base64 Auth_Storage Auth
    Sql Content_Store Session_Store Symbol_Store Cache_Store Hnsw
    Sections Calls Symbol_Refs
begin

text \<open>
  A verification library for \<open>ministr\<close>, a code-intelligence server for coding agents
  written in Rust. The server indexes repositories and documents into sections, claims and
  symbols; an agent reads them through a session. The session keeps a shadow of the agent's context
  window: what was delivered, at which resolution, what of it went stale since, what has probably
  been evicted, and what could be dropped or compressed. A daemon keeps several corpora indexed
  in the background and propagates changes of a corpus to the live sessions; a hosted deployment
  queues its indexing jobs for workers.

  \<^bold>\<open>The parts and their theories.\<close>

  \<^item> \<open>Prelude\<close>: machine integers, the containers and iterators of the Rust standard library,
    string splitting. \<open>Float_Model\<close>: finite IEEE-754 values as rationals with rounding to nearest.
  \<^item> \<open>Identity\<close> (\<open>ministr-core/src/types.rs\<close>): resolutions, delivery identities and their
    storage keys, vector and claim identifiers, persisted enumerations, unique section ids.
  \<^item> \<open>Window\<close> (\<open>session/window.rs\<close>): \<open>WindowEstimator\<close>, the queue of deliveries with its
    running token total and its FIFO, LRU and FSRS eviction. The locale \<open>token_window\<close> is its
    contract.
  \<^item> \<open>Session\<close> (\<open>session/types.rs\<close>): \<open>Session\<close>, the delivered items by identity, the
    stale set, the alert queue, trajectory, co-access pairs and metrics.
  \<^item> \<open>Delta\<close> (\<open>session/delta.rs\<close>): the line diff sent instead of a text already delivered.
  \<^item> \<open>Memory\<close> (\<open>session/memory.rs\<close>): \<open>MemoryModel\<close>, the spaced-repetition model whose
    retrievability drives FSRS eviction.
  \<^item> \<open>Compression\<close> (\<open>session/compression.rs\<close>): compression tiers and promotions.
  \<^item> \<open>Drops\<close> (\<open>session/drops.rs\<close>): the ranking of items worth dropping.
  \<^item> \<open>Usage\<close> (\<open>session/usage.rs\<close>): \<open>UsageTracker\<close>, the window with thresholds and its
    calls into \<open>Memory\<close>, \<open>Drops\<close> and \<open>Compression\<close>.
  \<^item> \<open>Registry\<close> (\<open>session/registry.rs\<close>, \<open>ministr-api/src/session_storage.rs\<close>,
    \<open>drops_ledger.rs\<close>): \<open>SessionRegistry\<close>, which owns a session, a tracker and a memory
    model per session, captures them as snapshots, restores them and broadcasts invalidations.
  \<^item> \<open>Scheduler\<close> and \<open>Coordinator\<close> (\<open>ministr-daemon/src/scheduler.rs\<close>,
    \<open>coordinator.rs\<close>): the permits, the queue of indexing jobs and the tasks that drain it. The
    locale \<open>permit_pool\<close> is what the coordinator relies on.
  \<^item> \<open>Jobs\<close> and \<open>Jobs_Db\<close> (\<open>ministr-mcp/src/admin/jobs/\<close>, \<open>ministr-cli/src/worker.rs\<close>):
    the queue of indexing jobs behind one trait, its in-memory, SQLite and Postgres back-ends, the
    dispatcher over them and the worker loop. The trait's contract is the locale
    \<open>job_queue_contract\<close>, its drain order \<open>ordered_queue\<close>, and two queues that agree
    \<open>queue_pair\<close>; each is interpreted on the back-ends. A statement of a database fails
    when the environment argument says so. In memory and on SQLite an operation runs under a lock and is one step;
    \<open>Jobs_Pg\<close> has the interleavings of the Postgres back-end, where \<open>update_progress\<close> and
    \<open>finish\<close> are two auto-committed statements each.
  \<^item> \<open>Prefetch\<close> (\<open>session/prefetch/mod.rs\<close>, \<open>priority.rs\<close>): the priority cache of
    content an agent is likely to ask for next, the topic and intent trackers and the engine.
  \<^item> \<open>Text\<close>: the character predicates and splits shared by the lexical components.
    \<open>Inverted\<close> (\<open>index/inverted.rs\<close>, \<open>index/exact.rs\<close>): the inverted index over sparse vectors and
    the exact dense index, with their persistence; the locales \<open>sparse_index\<close> and
    \<open>vector_index\<close> are their contracts. \<open>Sparse_Encoder\<close> (\<open>embedding/ast_sparse.rs\<close>): the
    built-in BM25 encoder. \<open>Search\<close> (\<open>search.rs\<close>, \<open>embedding/hybrid.rs\<close>): dense and hybrid search with rank fusion.
  \<^item> \<open>Bridge\<close> (\<open>code/bridge/\<close>): the linker between definitions and calls of two languages,
    its exact and its fuzzy pass and the spelling conversions.
  \<^item> \<open>Database\<close>: what the database-backed components share: a fallible statement and a stored blob.
    \<open>Base64\<close> (\<open>auth/util.rs\<close>), \<open>Auth_Storage\<close> (\<open>auth/storage\<close>): the three
    back-ends of the OAuth store and the dispatcher over them; the locale \<open>oauth_storage\<close> is their
    contract. \<open>Auth\<close> (\<open>auth/store.rs\<close>, \<open>handlers.rs\<close>, \<open>middleware.rs\<close>): registration,
    authorization, the token endpoint and the check in front of every request.
  \<^item> The content database (\<open>ministr-core/src/storage/sqlite.rs\<close>, \<open>schema.rs\<close>): \<open>Sql\<close>, a call as a
    sequence of statements that may fail, the commands of a savepoint or transaction included; the database is what the
    connection of the call sees, so a savepoint left open by a failed \<open>RELEASE\<close> keeps its changes. The locale
    \<open>sql_relation\<close> lifts what every statement respects to a call. \<open>Content_Store\<close>: documents, sections, claims, file hashes and roots. \<open>Session_Store\<close>: saved
    sessions and access statistics. \<open>Symbol_Store\<close>: symbols, references, the fuzzy search, links between languages.
    \<open>Cache_Store\<close>: cached answers (with the cache stage of \<open>ministr-daemon/src/ask.rs\<close>, whose three calls have their own
    faults and may be interleaved with other calls), web and git
    metadata, vectors. Each extends or uses the tables of the one before and its constraints are an invariant.
  \<^item> \<open>Hnsw\<close> (\<open>index/hnsw.rs\<close>, \<open>health.rs\<close>, \<open>rebuild.rs\<close>): the approximate vector index over a graph
    library, its persistence by renames with crashes at any point, and its validated cache over the vector store.
  \<^item> \<open>Sections\<close> (\<open>parser/section_id.rs\<close>, \<open>assembly.rs\<close>, \<open>ingestion/sections.rs\<close>, \<open>embedding.rs\<close>): section ids, the
    assembly parser, splitting, merging and enriching sections, and the texts that are embedded. \<open>Calls\<close>: procedures of several
    storage calls, each with faults of its own; the locale \<open>call_relation\<close> lifts what every call respects to a procedure.
    \<open>Symbol_Refs\<close> (\<open>ingestion/symbols.rs\<close>, \<open>code/package_graph.rs\<close>): the symbols of a file, the resolution of its
    references, pending ones, repair and re-resolution, and the graph of packages.

  \<^bold>\<open>How the code is read.\<close> A struct is a record whose fields carry a prefix, an enum a
  datatype; a method that mutates \<open>self\<close> returns the new value, with its result beside it. A
  \<open>String\<close> is its bytes. Unsigned integers are natural numbers with wrap-around or
  saturation written out (\<open>add_u32\<close>, \<open>add_u64\<close>, \<open>sat_add_u32\<close>). A \<open>BTreeMap\<close> is a
  key-sorted association list, so that iteration has the code's order; hash containers are
  association lists and lists without repetition; where the code iterates over one, the order is
  an argument (\<open>hash_order\<close>), so that a theorem holds for every order. Loops are
  structural recursion or functions with a termination proof: no definition uses fuel. Code
  outside the repository is an argument: \<open>serde_json\<close> (\<open>json_codec\<close>, with \<open>codec_ok\<close>
  for its round trip and a length-prefixed codec that satisfies it), the C library's \<open>exp\<close> and
  \<open>powf\<close> (\<open>libm\<close>), Unicode tables (\<open>unicode\<close>, \<open>char_tables\<close>), square root and
  logarithm, SHA-256, clock readings and random seeds, which statement of a database or call of the
  file system fails, the graph library of the vector index with its dump format (\<open>hnsw_lib\<close>), and the
  durable back-ends (\<open>storage_backend\<close>, \<open>ledger_backend\<close>).

  \<^bold>\<open>What is shown.\<close> The window's running total is the sum of its entries and never exceeds the
  capacity except for a single oversized entry; what a record keeps is the longest suffix that
  fits; a new delivery is never its own victim, under memory scores as well. A
  session's map stays sorted and keyed by identity, its stale marks stay within what was
  delivered; recording, dropping and invalidating change exactly what they name. The diff rebuilds
  both texts and no shorter edit script exists. Retrievability falls with time and stays within
  zero and one. Promotions only ever degrade an item and end. The ranking of items to drop
  returns the highest scores in order. A snapshot restores the deliveries, the trajectory, the turn, the metrics
  and, where they fit, the window total it was taken from; a corrupt or missing one restores nothing; a late checkpoint never overwrites a newer one. In every
  interleaving of the coordinator's tasks at most the configured number of jobs run and no corpus is
  indexed twice at once, dispatch is shortest job first, enqueues for one corpus coalesce. One
  theorem exhibits an interleaving that loses a wakeup, against the module's own documentation. On
  the job back-ends no interleaving of clients and workers hands a job out twice, on Postgres unless a sweep reclaimed it
  in between; without faults, and for distinct submission times and priorities above the least one, the
  Postgres queue and the in-memory one agree on what they hand out and in which order; a job whose
  outcome could not be written stays claimed. The prefetch cache keeps its capacity and its
  accounting over any run, evicts an entry of least priority, and never serves what was invalidated. The inverted index
  answers like the map from documents to vectors it stands for, bit for bit and in any hash order,
  and a persisted one goes on like the original after loading; lexical search ranks exactly the documents
  that share a term and returns the first of them; the hybrid ranking equals its reference and loses a word quoted from
  an indexed name or text only to contents that score as high. The linker's exact pass equals its specification and its
  links meet the assertions of their constructor. A token is only ever issued for an open grant and with its verifier, a
  request is admitted only with a token that was issued or a key the deployment's resolver accepts, the protocol's own flow
  succeeds, and the three back-ends give the same answers. A document is stored whole or not at all when at most one statement
  fails, and reads back; a saved session loads, its trajectory reduced to the last accesses of what is still delivered. The
  symbol search misses no name that contains the query, and a caller count is exact up to ten steps. A cached answer is never
  returned over a changed source, unless it is invalidated while it is read. A persist of the vector index over a complete one
  that is cut off anywhere leaves the old or the new index, and what is loaded or rebuilt has the vectors of the
  store when every call since the persist succeeded. Merging small sections loses no text and no node, but the claims of what it
  merges. Every stored reference goes from a symbol of its file to a symbol of the mentioned name, under any faults; resolving
  a file again loses the references other files have to it. Single failures, races and crashes that break what the
  documentation claims are lemmas of their theories.

  \<^bold>\<open>What is not modelled.\<close> Logging, timing, metrics export, thread and socket plumbing;
  the SQL engine, the graph library, embedding models and language grammars, which are libraries the
  code calls; connection pools and schema migrations; concurrent requests to the authorization server, which is modelled as
  serving one request after the other; the command line, the terminal interface and the transport of the MCP server.
  Infinities and NaN do not arise in the modelled arithmetic (every divisor is guarded) and have no
  model. The tokio runtime is modelled as arbitrary interleaving of the tasks' atomic steps.
\<close>

section \<open>Properties that span components\<close>

text \<open>
  C6. Hybrid search loses a quoted identifier only to better results. Let the built-in encoder and the inverted index
  stand behind the sparse side with a positive weight, over any history of indexed, replaced and deleted texts, let the
  embedder and the dense index answer, whatever they return, and let at most \<open>raw_k\<close> live documents share a term with
  the query. Take a live document, stored under a vector id, that has a word of the query, more than one byte long when
  lowercased, in its name or text. Then the search succeeds, the document has a fused score, and its content is among the
  results unless these are \<open>top_k\<close> contents that all score at least as much.
\<close>

theorem hybrid_search_finds_quoted_word:
  assumes "hash_order it" and "hash_order it'" and "log_ok lg" and "ix = corpus_index T h"
    and "corpus_texts h d = Some text" and "split_roles text = (doc, sig, body)"
    and "field \<in> {name_from_id d, doc, sig, body}"
    and "w \<in> set (split_where (is_word_boundary T) field)" and "w \<in> set (split_where (is_word_boundary T) query)"
    and "w \<noteq> []" and "1 < length (st_to_lower T w)" and "vid_parse d \<noteq> None"
    and "en_sparse_embedder env = Some (\<lambda>ts. Inr (embed_sparse_query T lg ix ts))"
    and "en_sparse_index env = Some (\<lambda>qi qv k. Inr (search_sparse it qi qv k ix))"
    and "en_embed env [query] = Inr (v # vs)" and "en_search_knn env v (cf_raw_k cfg) = Inr raws"
    and "0 < cf_sparse_weight cfg" and "card (sharing T h query) \<le> cf_raw_k cfg"
  shows "\<exists>rs s. search it' env query cfg = Inr rs \<and>
    (d, s) \<in> set (fused_ref (cf_sparse_weight cfg) (dense_results raws) (lexical_search T lg it query (cf_raw_k cfg) ix)) \<and>
    (vid_content_id d \<in> content_of ` set rs \<or> length rs = cf_top_k cfg \<and> (\<forall>r \<in> set rs. s \<le> sc_score r))"
proof -
  define sv where "sv = query_vector T lg ix query"
  let ?sparse = "lexical_search T lg it query (cf_raw_k cfg) ix"
  have sparse: "search_sparse it (sv_indices sv) (sv_values sv) (cf_raw_k cfg) ix = ?sparse"
    by (simp add: sv_def lexical_search_def embed_sparse_query_def Let_def)
  let ?fused = "fused_ref (cf_sparse_weight cfg) (dense_results raws) ?sparse"
  let ?ps = "map (\<lambda>(i, s). (vid_content_id i, s)) ?fused"
  have "d \<in> ss_id ` set ?sparse"
    unfolding lexical_search_sharing [OF assms(1,3,4,18)] by (rule quoted_sharing [OF assms(5-11)])
  then have "d \<in> fst ` set ?fused" using assms(12) by (auto simp: fused_ref_def image_image)
  then obtain s where s: "(d, s) \<in> set ?fused" by force
  then have "(vid_content_id d, s) \<in> set ?ps" by force
  note ranked = pool_ref_beaten [OF this, of "cf_top_k cfg"]
  have "embed_sparse_query T lg ix [query] = sv # []" by (simp add: embed_sparse_query_def sv_def)
  from hybrid_result [OF assms(2,17,13,14,15,16), of sv "[]"] this
  obtain rs where rs: "search it' env query cfg = Inr rs" "map scored_content rs = pool_ref ?ps (cf_top_k cfg)"
    unfolding sparse by auto
  define R where "R = pool_ref ?ps (cf_top_k cfg)"
  have R: "content_of ` set rs = fst ` set R" "length rs = length R" "\<And>r. r \<in> set rs \<Longrightarrow> (content_of r, sc_score r) \<in> set R"
    unfolding R_def rs(2) [symmetric] by (simp_all add: image_image)
  have "vid_content_id d \<in> content_of ` set rs \<or> length rs = cf_top_k cfg \<and> (\<forall>r \<in> set rs. s \<le> sc_score r)"
    using ranked [folded R_def]
  proof
    assume "vid_content_id d \<in> fst ` set R"
    then show ?thesis unfolding R(1) ..
  next
    assume "length R = cf_top_k cfg \<and> (\<forall>(c', s') \<in> set R. s \<le> s')"
    then show ?thesis using R(2,3) by fastforce
  qed
  then show ?thesis using rs(1) s by blast
qed

lemma hybrid_search_finds_quoted_word_witness:
  "let ix = corpus_index ascii_tables [(''section::a.rs#retry'', Some ''fn backoff()'')];
       env = \<lparr>en_embed = (\<lambda>ts. Inr [[1]]), en_search_knn = (\<lambda>q k. Inr []),
         en_sparse_embedder = Some (\<lambda>ts. Inr (embed_sparse_query ascii_tables (\<lambda>x. x) ix ts)),
         en_sparse_index = Some (\<lambda>qi qv k. Inr (search_sparse rev qi qv k ix))\<rparr>;
       cfg = \<lparr>cf_raw_k = 90, cf_top_k = 30, cf_sparse_weight = 1 / 2, cf_rerank_top_k = None\<rparr>
   in \<exists>rs. search rev env ''the retry loop'' cfg = Inr rs \<and> (''a.rs#retry'' \<in> content_of ` set rs \<or> length rs = 30)"
proof -
  define h where "h = [(''section::a.rs#retry'', Some ''fn backoff()'')]"
  define ix where "ix = corpus_index ascii_tables h"
  define env where "env = \<lparr>en_embed = (\<lambda>ts. Inr [[1]]), en_search_knn = (\<lambda>q k. Inr []),
         en_sparse_embedder = Some (\<lambda>ts. Inr (embed_sparse_query ascii_tables (\<lambda>x. x) ix ts)),
         en_sparse_index = Some (\<lambda>qi qv k. Inr (search_sparse rev qi qv k ix))\<rparr>"
  define cfg where "cfg = \<lparr>cf_raw_k = 90, cf_top_k = 30, cf_sparse_weight = 1 / 2 :: f32, cf_rerank_top_k = None\<rparr>"
  have words: "split_roles ''fn backoff()'' = ([], ''fn backoff()'', [])"
    "name_from_id ''section::a.rs#retry'' \<in> {name_from_id ''section::a.rs#retry'', [], ''fn backoff()'', []}"
    "''retry'' \<in> set (split_where (is_word_boundary ascii_tables) (name_from_id ''section::a.rs#retry''))"
    "''retry'' \<in> set (split_where (is_word_boundary ascii_tables) ''the retry loop'')"
    "''retry'' \<noteq> []" "1 < length (st_to_lower ascii_tables ''retry'')"
    by code_simp+
  have vid: "vid_parse ''section::a.rs#retry'' \<noteq> None" "vid_content_id ''section::a.rs#retry'' = ''a.rs#retry''" by code_simp+
  have orders: "hash_order (rev :: (nat \<times> f32) list \<Rightarrow> _)" "hash_order (rev :: (string \<times> f32) list \<Rightarrow> _)" "log_ok (\<lambda>x. x)"
    by (auto simp: hash_order_def log_ok_def)
  have texts: "corpus_texts h ''section::a.rs#retry'' = Some ''fn backoff()''" by (simp add: h_def corpus_texts_def)
  have "sharing ascii_tables h ''the retry loop'' \<subseteq> {''section::a.rs#retry''}"
    by (auto simp: sharing_def h_def corpus_texts_def split: if_splits)
  then have "card (sharing ascii_tables h ''the retry loop'') \<le> card {''section::a.rs#retry''}" by (intro card_mono) simp_all
  then have sizes: "0 < cf_sparse_weight cfg" "card (sharing ascii_tables h ''the retry loop'') \<le> cf_raw_k cfg"
    by (simp_all add: cfg_def)
  have envs: "en_sparse_embedder env = Some (\<lambda>ts. Inr (embed_sparse_query ascii_tables (\<lambda>x. x) ix ts))"
    "en_sparse_index env = Some (\<lambda>qi qv k. Inr (search_sparse rev qi qv k ix))"
    "en_embed env [''the retry loop''] = Inr [[1]]" "en_search_knn env [1] (cf_raw_k cfg) = Inr []"
    by (simp_all add: env_def)
  have top: "cf_top_k cfg = 30" by (simp add: cfg_def)
  from hybrid_search_finds_quoted_word [OF orders ix_def texts words vid(1) envs sizes] show ?thesis
    unfolding Let_def h_def [symmetric] ix_def [symmetric] env_def [symmetric] cfg_def [symmetric] vid(2) top by blast
qed

end
